(* ===== verification/Prelude.thy ===== *)
theory Prelude
  imports Main "HOL-Library.Word"
begin

text \<open>
  Shared vocabulary of the development: the C integer types of
  \<^verbatim>\<open>npfs.h\<close> as fixed-width words, the collections that carry
  the component proofs, sequencing of imperative steps, and a few generic facts on
  lists and words that several components use.
\<close>

section \<open>Machine types\<close>

type_synonym u8 = "8 word"
type_synonym u16 = "16 word"
type_synonym u32 = "32 word"
type_synonym u64 = "64 word"

text \<open>
  A C string is the list of its bytes before the terminating NUL; a
  \<^verbatim>\<open>char *\<close> that may be NULL is an option of such a list.
\<close>

type_synonym cstring = "u8 list"

section \<open>Collections\<close>

named_theorems codec_simps \<open>evaluation of the packet buffer operations on a laid-out buffer\<close>
named_theorems pool_simps \<open>laws of the identifier and fid pools\<close>
named_theorems srv_simps \<open>frame laws of the request queues\<close>

section \<open>Sequencing\<close>

text \<open>
  A straight-line C body is the list of its statements, each a state transformer, run in
  program order.
\<close>

fun steps :: "('s \<Rightarrow> 's) list \<Rightarrow> 's \<Rightarrow> 's" where
  "steps [] s = s"
| "steps (f # fs) s = steps fs (f s)"

lemma steps_append: "steps (fs @ gs) s = steps gs (steps fs s)"
  by (induction fs arbitrary: s) auto

lemma steps_invariant:
  assumes "\<And>f s. f \<in> set fs \<Longrightarrow> P s \<Longrightarrow> P (f s)" and "P s"
  shows "P (steps fs s)"
  using assms by (induction fs arbitrary: s) auto

section \<open>Lists and words\<close>

lemma ucast_drop_bit_nth:
  "bit (ucast (drop_bit k (v :: 'a::len word)) :: u8) n \<longleftrightarrow> n < 8 \<and> bit v (k + n)"
  by (auto simp: bit_simps dest: bit_imp_le_length)

lemma of_nat_unat_len [simp]:
  "n < 65536 \<Longrightarrow> unat (of_nat n :: u16) = n"
  by (simp add: unat_of_nat take_bit_eq_mod)

lemma of_nat_uint_len [simp]:
  "n < 65536 \<Longrightarrow> uint (of_nat n :: u16) = int n"
  by (simp add: unsigned_of_nat take_bit_eq_mod)

lemma of_nat_unat_len32 [simp]:
  "n < 4294967296 \<Longrightarrow> unat (of_nat n :: u32) = n"
  by (simp add: unat_of_nat take_bit_eq_mod)

lemma sint_of_nat_u32:
  "n < 2147483648 \<Longrightarrow> sint (word_of_nat n :: u32) = int n"
  by (simp add: signed_of_nat signed_take_bit_int_eq_self)

lemma sint_of_int_u32:
  "0 \<le> i \<Longrightarrow> i < 2147483648 \<Longrightarrow> sint (word_of_int i :: u32) = i"
  by (simp add: signed_of_int signed_take_bit_int_eq_self)

lemma unat_u64: "n < 18446744073709551616 \<Longrightarrow> unat (word_of_nat n :: u64) = n"
  by (simp add: unat_of_nat take_bit_eq_mod)

lemma uint_u64: "n < 18446744073709551616 \<Longrightarrow> uint (word_of_nat n :: u64) = int n"
  by (simp add: unsigned_of_nat take_bit_nat_eq_self)

lemma less_u64: "n < 18446744073709551616 \<Longrightarrow> m < 18446744073709551616 \<Longrightarrow>
    (word_of_nat n < (word_of_nat m :: u64)) = (n < m)"
  by (simp add: word_less_nat_alt unat_u64)

lemma ucast_u64: "n < 4294967296 \<Longrightarrow> (ucast (word_of_nat n :: u32) :: u64) = word_of_nat n"
  by (rule word_unat_eq_iff [THEN iffD2]) (simp add: unsigned_ucast_eq take_bit_nat_eq_self unat_u64)

lemma ucast_word_of_int: "(ucast (word_of_int i :: u64) :: u32) = word_of_int i"
  by (rule bit_word_eqI) (auto simp: bit_simps)

end
