(* ===== verification/Wire.thy ===== *)
theory Wire
  imports Prelude
begin

unbundle bit_operations_syntax

text \<open>
  The packet buffer of \<^verbatim>\<open>npfs/libnpfs/np.c\<close> (\<^verbatim>\<open>struct cbuf\<close>
  and its \<^verbatim>\<open>buf_*\<close> primitives) and the plain data types of
  \<^verbatim>\<open>npfs/include/npfs.h\<close> that they read and write. Pointers into the packet
  are offsets from its first byte. Every access outside the packet's memory is recorded in
  the flag \<open>cb_oob\<close>, so that memory safety is a theorem and not an assumption.
  The second half lays a buffer out as bytes done, bytes left and bytes behind the end, and
  evaluates each primitive on such a layout; the collection \<open>codec_simps\<close> then runs
  whole messages by rewriting.
\<close>

section \<open>Data types\<close>

record Npstr =
  str_len :: u16
  str_ptr :: "int option"

record Npqid =
  qid_type :: u8
  qid_version :: u32
  qid_path :: u64

record Npstat =
  st_size :: u16
  st_type :: u16
  st_dev :: u32
  st_qid :: Npqid
  st_mode :: u32
  st_atime :: u32
  st_mtime :: u32
  st_length :: u64
  st_name :: Npstr
  st_uid :: Npstr
  st_gid :: Npstr
  st_muid :: Npstr
  st_extension :: Npstr
  st_n_uid :: u32
  st_n_gid :: u32
  st_n_muid :: u32

record Npwstat =
  ws_size :: u16
  ws_type :: u16
  ws_dev :: u32
  ws_qid :: Npqid
  ws_mode :: u32
  ws_atime :: u32
  ws_mtime :: u32
  ws_length :: u64
  ws_name :: "cstring option"
  ws_uid :: "cstring option"
  ws_gid :: "cstring option"
  ws_muid :: "cstring option"
  ws_extension :: "cstring option"
  ws_n_uid :: u32
  ws_n_gid :: u32
  ws_n_muid :: u32

text \<open>\<^verbatim>\<open>strlen\<close>, guarded as the callers guard it: a NULL counts as empty.\<close>

definition opt_strlen :: "cstring option \<Rightarrow> int" where
  "opt_strlen s = (case s of None \<Rightarrow> 0 | Some cs \<Rightarrow> int (length cs))"

section \<open>The buffer\<close>

record cbuf =
  cb_mem :: "u8 list"
  cb_sp :: int
  cb_p :: int
  cb_ep :: int
  cb_oob :: bool

definition buf_init :: "u8 list \<Rightarrow> int \<Rightarrow> int \<Rightarrow> bool \<Rightarrow> cbuf" where
  "buf_init mem data datalen oob =
     \<lparr>cb_mem = mem, cb_sp = data, cb_p = data, cb_ep = data + datalen, cb_oob = oob\<rparr>"

definition buf_check_overflow :: "cbuf \<Rightarrow> bool" where
  "buf_check_overflow b \<longleftrightarrow> cb_p b > cb_ep b"

definition buf_check_size :: "cbuf \<Rightarrow> int \<Rightarrow> bool \<times> cbuf" where
  "buf_check_size b n =
     (if cb_p b + n > cb_ep b
      then (False, if cb_p b < cb_ep b then b\<lparr>cb_p := cb_ep b + 1\<rparr> else b)
      else (True, b))"

text \<open>
  Memory accesses. A store or load of a run of bytes that is not inside the memory sets
  \<open>cb_oob\<close>; such a load yields zeros, a value no proof relies on.
\<close>

definition mem_write :: "int \<Rightarrow> u8 list \<Rightarrow> cbuf \<Rightarrow> cbuf" where
  "mem_write i vs b =
     (if 0 \<le> i \<and> i + int (length vs) \<le> int (length (cb_mem b))
      then b\<lparr>cb_mem := take (nat i) (cb_mem b) @ vs @ drop (nat i + length vs) (cb_mem b)\<rparr>
      else b\<lparr>cb_oob := True\<rparr>)"

definition mem_read :: "int \<Rightarrow> nat \<Rightarrow> cbuf \<Rightarrow> u8 list \<times> cbuf" where
  "mem_read i n b =
     (if 0 \<le> i \<and> i + int n \<le> int (length (cb_mem b))
      then (take n (drop (nat i) (cb_mem b)), b)
      else (replicate n 0, b\<lparr>cb_oob := True\<rparr>))"

definition buf_alloc :: "cbuf \<Rightarrow> int \<Rightarrow> int option \<times> cbuf" where
  "buf_alloc b n =
     (case buf_check_size b n of
        (True, b) \<Rightarrow> (Some (cb_p b), b\<lparr>cb_p := cb_p b + n\<rparr>)
      | (False, b) \<Rightarrow> (None, b))"

subsection \<open>Writing\<close>

text \<open>
  Each \<^verbatim>\<open>buf_put_int*\<close> also reports whether it stored, because only then is the
  value copied to the caller's \<^verbatim>\<open>*pval\<close>.
\<close>

definition le8 :: "u8 \<Rightarrow> u8 list" where
  "le8 v = [v]"

definition le16 :: "u16 \<Rightarrow> u8 list" where
  "le16 v = [ucast v, ucast (drop_bit 8 v)]"

definition le32 :: "u32 \<Rightarrow> u8 list" where
  "le32 v = [ucast v, ucast (drop_bit 8 v), ucast (drop_bit 16 v), ucast (drop_bit 24 v)]"

definition le64 :: "u64 \<Rightarrow> u8 list" where
  "le64 v = [ucast v, ucast (drop_bit 8 v), ucast (drop_bit 16 v), ucast (drop_bit 24 v),
     ucast (drop_bit 32 v), ucast (drop_bit 40 v), ucast (drop_bit 48 v), ucast (drop_bit 56 v)]"

definition buf_put_int8 :: "cbuf \<Rightarrow> u8 \<Rightarrow> bool \<times> cbuf" where
  "buf_put_int8 b v =
     (case buf_check_size b 1 of
        (True, b) \<Rightarrow> (True, (mem_write (cb_p b) (le8 v) b)\<lparr>cb_p := cb_p b + 1\<rparr>)
      | (False, b) \<Rightarrow> (False, b))"

definition buf_put_int16 :: "cbuf \<Rightarrow> u16 \<Rightarrow> bool \<times> cbuf" where
  "buf_put_int16 b v =
     (case buf_check_size b 2 of
        (True, b) \<Rightarrow> (True, (mem_write (cb_p b) (le16 v) b)\<lparr>cb_p := cb_p b + 2\<rparr>)
      | (False, b) \<Rightarrow> (False, b))"

definition buf_put_int32 :: "cbuf \<Rightarrow> u32 \<Rightarrow> bool \<times> cbuf" where
  "buf_put_int32 b v =
     (case buf_check_size b 4 of
        (True, b) \<Rightarrow> (True, (mem_write (cb_p b) (le32 v) b)\<lparr>cb_p := cb_p b + 4\<rparr>)
      | (False, b) \<Rightarrow> (False, b))"

definition buf_put_int64 :: "cbuf \<Rightarrow> u64 \<Rightarrow> bool \<times> cbuf" where
  "buf_put_int64 b v =
     (case buf_check_size b 8 of
        (True, b) \<Rightarrow> (True, (mem_write (cb_p b) (le64 v) b)\<lparr>cb_p := cb_p b + 8\<rparr>)
      | (False, b) \<Rightarrow> (False, b))"

text \<open>
  \<^verbatim>\<open>buf_put_str\<close>: the length is stored through a \<^verbatim>\<open>u16\<close>, the bytes are
  copied to the place \<^verbatim>\<open>buf_alloc\<close> returns. \<open>ps\<close> is the caller's
  \<^verbatim>\<open>Npstr\<close> before the call; the result is its value after it.
\<close>

definition buf_put_str :: "cbuf \<Rightarrow> cstring option \<Rightarrow> Npstr \<Rightarrow> Npstr \<times> cbuf" where
  "buf_put_str b s ps =
     (let slen = opt_strlen s in
      case buf_check_size b (2 + slen) of
        (False, b) \<Rightarrow> (ps, b)
      | (True, b) \<Rightarrow>
          (let (_, b) = buf_put_int16 b (word_of_int slen);
               (q, b) = buf_alloc b slen;
               bytes = (case s of None \<Rightarrow> [] | Some cs \<Rightarrow> cs)
           in (ps\<lparr>str_len := word_of_int slen, str_ptr := q\<rparr>,
               case q of None \<Rightarrow> (if bytes = [] then b else b\<lparr>cb_oob := True\<rparr>)
                       | Some i \<Rightarrow> mem_write i bytes b)))"

text \<open>Statements over a pair of the buffer and the structure the values are copied to.\<close>

definition put8 :: "u8 \<Rightarrow> ((u8 \<Rightarrow> u8) \<Rightarrow> 'r \<Rightarrow> 'r) \<Rightarrow> cbuf \<times> 'r \<Rightarrow> cbuf \<times> 'r" where
  "put8 v upd s = (case buf_put_int8 (fst s) v of
     (ok, b) \<Rightarrow> (b, if ok then upd (\<lambda>_. v) (snd s) else snd s))"

definition put16 :: "u16 \<Rightarrow> ((u16 \<Rightarrow> u16) \<Rightarrow> 'r \<Rightarrow> 'r) \<Rightarrow> cbuf \<times> 'r \<Rightarrow> cbuf \<times> 'r" where
  "put16 v upd s = (case buf_put_int16 (fst s) v of
     (ok, b) \<Rightarrow> (b, if ok then upd (\<lambda>_. v) (snd s) else snd s))"

definition put32 :: "u32 \<Rightarrow> ((u32 \<Rightarrow> u32) \<Rightarrow> 'r \<Rightarrow> 'r) \<Rightarrow> cbuf \<times> 'r \<Rightarrow> cbuf \<times> 'r" where
  "put32 v upd s = (case buf_put_int32 (fst s) v of
     (ok, b) \<Rightarrow> (b, if ok then upd (\<lambda>_. v) (snd s) else snd s))"

definition put64 :: "u64 \<Rightarrow> ((u64 \<Rightarrow> u64) \<Rightarrow> 'r \<Rightarrow> 'r) \<Rightarrow> cbuf \<times> 'r \<Rightarrow> cbuf \<times> 'r" where
  "put64 v upd s = (case buf_put_int64 (fst s) v of
     (ok, b) \<Rightarrow> (b, if ok then upd (\<lambda>_. v) (snd s) else snd s))"

definition putstr ::
  "cstring option \<Rightarrow> ('r \<Rightarrow> Npstr) \<Rightarrow> ((Npstr \<Rightarrow> Npstr) \<Rightarrow> 'r \<Rightarrow> 'r) \<Rightarrow> cbuf \<times> 'r \<Rightarrow> cbuf \<times> 'r"
where
  "putstr v sel upd s = (case buf_put_str (fst s) v (sel (snd s)) of
     (ps, b) \<Rightarrow> (b, upd (\<lambda>_. ps) (snd s)))"

text \<open>A NULL \<^verbatim>\<open>pval\<close>: nothing is copied back.\<close>

definition nopval :: "('v \<Rightarrow> 'v) \<Rightarrow> 'r \<Rightarrow> 'r" where
  "nopval f r = r"

definition buf_put_qid :: "Npqid \<Rightarrow> ((Npqid \<Rightarrow> Npqid) \<Rightarrow> 'r \<Rightarrow> 'r) \<Rightarrow> cbuf \<times> 'r \<Rightarrow> cbuf \<times> 'r" where
  "buf_put_qid q upd = steps
     [put8 (qid_type q) (\<lambda>f. upd (qid_type_update f)),
      put32 (qid_version q) (\<lambda>f. upd (qid_version_update f)),
      put64 (qid_path q) (\<lambda>f. upd (qid_path_update f))]"

definition buf_put_wstat ::
  "Npwstat \<Rightarrow> int \<Rightarrow> bool \<Rightarrow> ('r \<Rightarrow> Npstat) \<Rightarrow> ((Npstat \<Rightarrow> Npstat) \<Rightarrow> 'r \<Rightarrow> 'r)
     \<Rightarrow> cbuf \<times> 'r \<Rightarrow> cbuf \<times> 'r"
where
  "buf_put_wstat w statsz dotu sel upd = steps
     ([put16 (word_of_int statsz) (\<lambda>f. upd (st_size_update f)),
       put16 (ws_type w) (\<lambda>f. upd (st_type_update f)),
       put32 (ws_dev w) (\<lambda>f. upd (st_dev_update f)),
       buf_put_qid (ws_qid w) (\<lambda>f. upd (st_qid_update f)),
       put32 (ws_mode w) (\<lambda>f. upd (st_mode_update f)),
       put32 (ws_atime w) (\<lambda>f. upd (st_atime_update f)),
       put32 (ws_mtime w) (\<lambda>f. upd (st_mtime_update f)),
       put64 (ws_length w) (\<lambda>f. upd (st_length_update f)),
       putstr (ws_name w) (\<lambda>r. st_name (sel r)) (\<lambda>f. upd (st_name_update f)),
       putstr (ws_uid w) (\<lambda>r. st_uid (sel r)) (\<lambda>f. upd (st_uid_update f)),
       putstr (ws_gid w) (\<lambda>r. st_gid (sel r)) (\<lambda>f. upd (st_gid_update f)),
       putstr (ws_muid w) (\<lambda>r. st_muid (sel r)) (\<lambda>f. upd (st_muid_update f))]
      @ (if dotu then
      [putstr (ws_extension w) (\<lambda>r. st_extension (sel r)) (\<lambda>f. upd (st_extension_update f)),
       put32 (ws_n_uid w) (\<lambda>f. upd (st_n_uid_update f)),
       put32 (ws_n_gid w) (\<lambda>f. upd (st_n_gid_update f)),
       put32 (ws_n_muid w) (\<lambda>f. upd (st_n_muid_update f))] else []))"

subsection \<open>Reading\<close>

definition of_le16 :: "u8 list \<Rightarrow> u16" where
  "of_le16 p = (ucast (p ! 0) OR push_bit 8 (ucast (p ! 1)))"

definition of_le32 :: "u8 list \<Rightarrow> u32" where
  "of_le32 p = (ucast (p ! 0) OR push_bit 8 (ucast (p ! 1)) OR push_bit 16 (ucast (p ! 2)) OR
     push_bit 24 (ucast (p ! 3)))"

definition of_le64 :: "u8 list \<Rightarrow> u64" where
  "of_le64 p = (ucast (p ! 0) OR push_bit 8 (ucast (p ! 1)) OR push_bit 16 (ucast (p ! 2)) OR
     push_bit 24 (ucast (p ! 3)) OR push_bit 32 (ucast (p ! 4)) OR push_bit 40 (ucast (p ! 5)) OR
     push_bit 48 (ucast (p ! 6)) OR push_bit 56 (ucast (p ! 7)))"

definition buf_get_int8 :: "cbuf \<Rightarrow> u8 \<times> cbuf" where
  "buf_get_int8 b =
     (case buf_check_size b 1 of
        (True, b) \<Rightarrow> (let (p, b) = mem_read (cb_p b) 1 b in (p ! 0, b\<lparr>cb_p := cb_p b + 1\<rparr>))
      | (False, b) \<Rightarrow> (0, b))"

definition buf_get_int16 :: "cbuf \<Rightarrow> u16 \<times> cbuf" where
  "buf_get_int16 b =
     (case buf_check_size b 2 of
        (True, b) \<Rightarrow> (let (p, b) = mem_read (cb_p b) 2 b in (of_le16 p, b\<lparr>cb_p := cb_p b + 2\<rparr>))
      | (False, b) \<Rightarrow> (0, b))"

definition buf_get_int32 :: "cbuf \<Rightarrow> u32 \<times> cbuf" where
  "buf_get_int32 b =
     (case buf_check_size b 4 of
        (True, b) \<Rightarrow> (let (p, b) = mem_read (cb_p b) 4 b in (of_le32 p, b\<lparr>cb_p := cb_p b + 4\<rparr>))
      | (False, b) \<Rightarrow> (0, b))"

definition buf_get_int64 :: "cbuf \<Rightarrow> u64 \<times> cbuf" where
  "buf_get_int64 b =
     (case buf_check_size b 8 of
        (True, b) \<Rightarrow> (let (p, b) = mem_read (cb_p b) 8 b in (of_le64 p, b\<lparr>cb_p := cb_p b + 8\<rparr>))
      | (False, b) \<Rightarrow> (0, b))"

definition buf_get_str :: "cbuf \<Rightarrow> Npstr \<times> cbuf" where
  "buf_get_str b =
     (let (n, b) = buf_get_int16 b;
          (q, b) = buf_alloc b (int (unat n))
      in (\<lparr>str_len = n, str_ptr = q\<rparr>, b))"

definition get8 :: "((u8 \<Rightarrow> u8) \<Rightarrow> 'r \<Rightarrow> 'r) \<Rightarrow> cbuf \<times> 'r \<Rightarrow> cbuf \<times> 'r" where
  "get8 upd s = (case buf_get_int8 (fst s) of (v, b) \<Rightarrow> (b, upd (\<lambda>_. v) (snd s)))"

definition get16 :: "((u16 \<Rightarrow> u16) \<Rightarrow> 'r \<Rightarrow> 'r) \<Rightarrow> cbuf \<times> 'r \<Rightarrow> cbuf \<times> 'r" where
  "get16 upd s = (case buf_get_int16 (fst s) of (v, b) \<Rightarrow> (b, upd (\<lambda>_. v) (snd s)))"

definition get32 :: "((u32 \<Rightarrow> u32) \<Rightarrow> 'r \<Rightarrow> 'r) \<Rightarrow> cbuf \<times> 'r \<Rightarrow> cbuf \<times> 'r" where
  "get32 upd s = (case buf_get_int32 (fst s) of (v, b) \<Rightarrow> (b, upd (\<lambda>_. v) (snd s)))"

definition get64 :: "((u64 \<Rightarrow> u64) \<Rightarrow> 'r \<Rightarrow> 'r) \<Rightarrow> cbuf \<times> 'r \<Rightarrow> cbuf \<times> 'r" where
  "get64 upd s = (case buf_get_int64 (fst s) of (v, b) \<Rightarrow> (b, upd (\<lambda>_. v) (snd s)))"

definition getstr :: "((Npstr \<Rightarrow> Npstr) \<Rightarrow> 'r \<Rightarrow> 'r) \<Rightarrow> cbuf \<times> 'r \<Rightarrow> cbuf \<times> 'r" where
  "getstr upd s = (case buf_get_str (fst s) of (v, b) \<Rightarrow> (b, upd (\<lambda>_. v) (snd s)))"

definition buf_get_qid :: "((Npqid \<Rightarrow> Npqid) \<Rightarrow> 'r \<Rightarrow> 'r) \<Rightarrow> cbuf \<times> 'r \<Rightarrow> cbuf \<times> 'r" where
  "buf_get_qid upd = steps
     [get8 (\<lambda>f. upd (qid_type_update f)),
      get32 (\<lambda>f. upd (qid_version_update f)),
      get64 (\<lambda>f. upd (qid_path_update f))]"

definition buf_get_stat ::
  "bool \<Rightarrow> ((Npstat \<Rightarrow> Npstat) \<Rightarrow> 'r \<Rightarrow> 'r) \<Rightarrow> cbuf \<times> 'r \<Rightarrow> cbuf \<times> 'r"
where
  "buf_get_stat dotu upd = steps
     ([get16 (\<lambda>f. upd (st_size_update f)),
       get16 (\<lambda>f. upd (st_type_update f)),
       get32 (\<lambda>f. upd (st_dev_update f)),
       buf_get_qid (\<lambda>f. upd (st_qid_update f)),
       get32 (\<lambda>f. upd (st_mode_update f)),
       get32 (\<lambda>f. upd (st_atime_update f)),
       get32 (\<lambda>f. upd (st_mtime_update f)),
       get64 (\<lambda>f. upd (st_length_update f)),
       getstr (\<lambda>f. upd (st_name_update f)),
       getstr (\<lambda>f. upd (st_uid_update f)),
       getstr (\<lambda>f. upd (st_gid_update f)),
       getstr (\<lambda>f. upd (st_muid_update f))]
      @ (if dotu then
      [getstr (\<lambda>f. upd (st_extension_update f)),
       get32 (\<lambda>f. upd (st_n_uid_update f)),
       get32 (\<lambda>f. upd (st_n_gid_update f)),
       get32 (\<lambda>f. upd (st_n_muid_update f))] else []))"

subsection \<open>Sizes and strings\<close>

definition size_wstat :: "Npwstat option \<Rightarrow> bool \<Rightarrow> int" where
  "size_wstat wstat dotu =
     (case wstat of
        None \<Rightarrow> 0
      | Some w \<Rightarrow>
          2 + 4 + 13 + 4 + 4 + 4 + 8 + 8
          + opt_strlen (ws_name w) + opt_strlen (ws_uid w)
          + opt_strlen (ws_gid w) + opt_strlen (ws_muid w)
          + (if dotu then 4 + 4 + 4 + 2 + opt_strlen (ws_extension w) else 0))"

text \<open>
  The bytes an \<^verbatim>\<open>Npstr\<close> denotes in a packet. \<open>None\<close>: the string
  cannot be read, because the pointer is NULL while the length is not zero, or because the
  bytes are not all in the packet. (Copying zero bytes from NULL is what
  \<^verbatim>\<open>memmove\<close> does with an empty string.)
\<close>

definition npstr_bytes :: "u8 list \<Rightarrow> Npstr \<Rightarrow> u8 list option" where
  "npstr_bytes pkt s =
     (let n = unat (str_len s) in
      case str_ptr s of
        None \<Rightarrow> if n = 0 then Some [] else None
      | Some i \<Rightarrow> if 0 \<le> i \<and> i + int n \<le> int (length pkt)
                  then Some (take n (drop (nat i) pkt)) else None)"

text \<open>\<^verbatim>\<open>np_strdup\<close> copies the bytes and terminates them; the C string the caller
  then sees ends at the first NUL.\<close>

definition c_string :: "u8 list \<Rightarrow> cstring" where
  "c_string bs = takeWhile (\<lambda>c. c \<noteq> 0) bs"

definition np_strdup :: "u8 list \<Rightarrow> Npstr \<Rightarrow> cstring option" where
  "np_strdup pkt s = map_option c_string (npstr_bytes pkt s)"

text \<open>
  \<^verbatim>\<open>strncmp\<close> on two byte sequences read as NUL-terminated; the result is \<open>0\<close>
  exactly when they agree, otherwise the sign of the first difference.
\<close>

fun strncmp :: "u8 list \<Rightarrow> u8 list \<Rightarrow> nat \<Rightarrow> int" where
  "strncmp xs ys 0 = 0"
| "strncmp xs ys (Suc n) =
     (let x = (case xs of [] \<Rightarrow> 0 | x # _ \<Rightarrow> x); y = (case ys of [] \<Rightarrow> 0 | y # _ \<Rightarrow> y)
      in if x \<noteq> y then uint x - uint y
         else if x = 0 then 0
         else strncmp (tl xs) (tl ys) n)"

text \<open>
  \<^verbatim>\<open>np_strcmp\<close>: \<open>None\<close> where the code reads outside an object (a string that
  cannot be read, or \<^verbatim>\<open>cs[str->len]\<close> behind the terminator of \<open>cs\<close>).
\<close>

definition np_strcmp :: "u8 list \<Rightarrow> Npstr \<Rightarrow> cstring \<Rightarrow> int option" where
  "np_strcmp pkt s cs =
     (case npstr_bytes pkt s of
        None \<Rightarrow> None
      | Some bs \<Rightarrow>
          (let n = unat (str_len s); ret = strncmp bs cs n in
           if ret \<noteq> 0 then Some ret
           else if n < length cs then Some 1
           else if n = length cs then Some 0
           else None))"

definition np_strncmp :: "u8 list \<Rightarrow> Npstr \<Rightarrow> cstring \<Rightarrow> nat \<Rightarrow> int option" where
  "np_strncmp pkt s cs n =
     (if n \<le> unat (str_len s)
      then map_option (\<lambda>bs. strncmp bs cs n) (npstr_bytes pkt s)
      else np_strcmp pkt s cs)"

section \<open>Evaluation on a laid-out buffer\<close>

lemma length_le [simp]:
  "length (le8 v8) = 1" "length (le16 v16) = 2" "length (le32 v32) = 4" "length (le64 v64) = 8"
  by (simp_all add: le8_def le16_def le32_def le64_def)

lemma low_byte: "ucast (ucast v :: u8) = take_bit 8 (v :: 'a::len word)"
  by (rule bit_word_eqI) (auto simp: bit_simps)

lemma or_byte:
  "take_bit n v OR push_bit n (take_bit 8 (drop_bit n v)) = take_bit (n + 8) (v :: 'a::len word)"
  by (rule bit_word_eqI) (auto simp: bit_simps not_less)

lemma take_bit_full [simp]:
  "take_bit 16 (v :: u16) = v" "take_bit 32 (w :: u32) = w" "take_bit 64 (x :: u64) = x"
  by (simp_all add: take_bit_word_eq_self)

lemma of_le_le [simp]:
  "of_le16 (le16 v16) = v16" "of_le32 (le32 v32) = v32" "of_le64 (le64 v64) = v64"
  by (simp_all add: of_le16_def le16_def of_le32_def le32_def of_le64_def le64_def
    low_byte or.assoc [symmetric] or_byte)

text \<open>
  \<open>cbuf_at s d r t\<close> is a buffer whose memory is the bytes \<open>d\<close> already passed, the
  bytes \<open>r\<close> still inside the limit, and the bytes \<open>t\<close> behind the limit.
\<close>

definition cbuf_at :: "int \<Rightarrow> u8 list \<Rightarrow> u8 list \<Rightarrow> u8 list \<Rightarrow> cbuf" where
  "cbuf_at s d r t = \<lparr>cb_mem = d @ r @ t, cb_sp = s, cb_p = int (length d),
     cb_ep = int (length d) + int (length r), cb_oob = False\<rparr>"

lemma cbuf_at_sel [simp]:
  "cb_mem (cbuf_at s d r t) = d @ r @ t"
  "cb_sp (cbuf_at s d r t) = s"
  "cb_p (cbuf_at s d r t) = int (length d)"
  "cb_ep (cbuf_at s d r t) = int (length d) + int (length r)"
  "cb_oob (cbuf_at s d r t) = False"
  by (simp_all add: cbuf_at_def)

lemma check_size_at:
  "n \<le> int (length r) \<Longrightarrow> buf_check_size (cbuf_at s d r t) n = (True, cbuf_at s d r t)"
  by (simp add: buf_check_size_def)

lemma mem_write_at:
  assumes "length vs \<le> length r"
  shows "(mem_write (int (length d)) vs (cbuf_at s d r t))\<lparr>cb_p := int (length d) + int (length vs)\<rparr>
    = cbuf_at s (d @ vs) (drop (length vs) r) t"
  using assms by (auto simp: mem_write_def cbuf_at_def)

lemma mem_read_at:
  "n \<le> length r \<Longrightarrow> mem_read (int (length d)) n (cbuf_at s d r t) = (take n r, cbuf_at s d r t)"
  by (simp add: mem_read_def)

lemma cbuf_at_advance:
  "n \<le> length r \<Longrightarrow>
   (cbuf_at s d r t)\<lparr>cb_p := int (length d) + int n\<rparr> = cbuf_at s (d @ take n r) (drop n r) t"
  by (simp add: cbuf_at_def)

lemma buf_put_at:
  "1 \<le> length r \<Longrightarrow> buf_put_int8 (cbuf_at s d r t) v8 = (True, cbuf_at s (d @ le8 v8) (drop 1 r) t)"
  "2 \<le> length r \<Longrightarrow> buf_put_int16 (cbuf_at s d r t) v16 = (True, cbuf_at s (d @ le16 v16) (drop 2 r) t)"
  "4 \<le> length r \<Longrightarrow> buf_put_int32 (cbuf_at s d r t) v32 = (True, cbuf_at s (d @ le32 v32) (drop 4 r) t)"
  "8 \<le> length r \<Longrightarrow> buf_put_int64 (cbuf_at s d r t) v64 = (True, cbuf_at s (d @ le64 v64) (drop 8 r) t)"
  using mem_write_at [of "le8 v8" r d s t] mem_write_at [of "le16 v16" r d s t]
    mem_write_at [of "le32 v32" r d s t] mem_write_at [of "le64 v64" r d s t]
  by (simp_all add: buf_put_int8_def buf_put_int16_def buf_put_int32_def buf_put_int64_def
      check_size_at)

lemma buf_get_at:
  "buf_get_int8 (cbuf_at s d (le8 v8 @ r) t) = (v8, cbuf_at s (d @ le8 v8) r t)"
  "buf_get_int16 (cbuf_at s d (le16 v16 @ r) t) = (v16, cbuf_at s (d @ le16 v16) r t)"
  "buf_get_int32 (cbuf_at s d (le32 v32 @ r) t) = (v32, cbuf_at s (d @ le32 v32) r t)"
  "buf_get_int64 (cbuf_at s d (le64 v64 @ r) t) = (v64, cbuf_at s (d @ le64 v64) r t)"
  using cbuf_at_advance [of 1 "le8 v8 @ r" d s t] cbuf_at_advance [of 2 "le16 v16 @ r" d s t]
    cbuf_at_advance [of 4 "le32 v32 @ r" d s t] cbuf_at_advance [of 8 "le64 v64 @ r" d s t]
  by (simp_all add: buf_get_int8_def buf_get_int16_def buf_get_int32_def buf_get_int64_def
      check_size_at mem_read_at le8_def)

text \<open>A wire string: a 16-bit length and the bytes. \<open>npstr_at d cs\<close> is the
  \<open>Npstr\<close> of such a string that starts behind \<open>d\<close>.\<close>

definition lestr :: "cstring \<Rightarrow> u8 list" where
  "lestr cs = le16 (word_of_nat (length cs)) @ cs"

definition npstr_at :: "u8 list \<Rightarrow> cstring \<Rightarrow> Npstr" where
  "npstr_at d cs = \<lparr>str_len = word_of_nat (length cs), str_ptr = Some (int (length d) + 2)\<rparr>"

definition opt_cstr :: "cstring option \<Rightarrow> cstring" where
  "opt_cstr s = (case s of None \<Rightarrow> [] | Some cs \<Rightarrow> cs)"

lemma opt_cstr_simps [simp]: "opt_cstr None = []" "opt_cstr (Some cs) = cs"
  by (simp_all add: opt_cstr_def)

lemma opt_strlen_cstr: "opt_strlen s = int (length (opt_cstr s))"
  by (simp add: opt_strlen_def opt_cstr_def split: option.splits)

lemma length_lestr [simp]: "length (lestr cs) = 2 + length cs"
  by (simp add: lestr_def)

lemma buf_alloc_at:
  "n \<le> length r \<Longrightarrow> buf_alloc (cbuf_at s d r t) (int n) =
     (Some (int (length d)), cbuf_at s (d @ take n r) (drop n r) t)"
  by (simp add: buf_alloc_def check_size_at cbuf_at_advance)

lemma mem_write_done:
  "mem_write (int (length d)) vs (cbuf_at s (d @ us) r t) = cbuf_at s (d @ vs) r t"
  if "length us = length vs"
  using that by (auto simp: mem_write_def cbuf_at_def)

lemma buf_put_str_at:
  assumes "2 + length (opt_cstr cs) \<le> length r"
  shows "buf_put_str (cbuf_at s d r t) cs ps =
    (ps\<lparr>str_len := word_of_nat (length (opt_cstr cs)), str_ptr := Some (int (length d) + 2)\<rparr>,
     cbuf_at s (d @ lestr (opt_cstr cs)) (drop (2 + length (opt_cstr cs)) r) t)"
proof -
  let ?n = "length (opt_cstr cs)" and ?l = "le16 (word_of_nat (length (opt_cstr cs)))"
  have "mem_write (int (length (d @ ?l))) (opt_cstr cs)
      (cbuf_at s ((d @ ?l) @ take ?n (drop 2 r)) (drop ?n (drop 2 r)) t)
    = cbuf_at s ((d @ ?l) @ opt_cstr cs) (drop ?n (drop 2 r)) t"
    using assms by (intro mem_write_done) simp
  then show ?thesis
    using assms buf_alloc_at [of ?n "drop 2 r" s "d @ ?l" t]
    by (simp add: buf_put_str_def opt_strlen_cstr check_size_at buf_put_at lestr_def Let_def
        flip: opt_cstr_def add.commute)
qed

lemma buf_get_str_at:
  assumes "length cs < 65536"
  shows "buf_get_str (cbuf_at s d (lestr cs @ r) t) = (npstr_at d cs, cbuf_at s (d @ lestr cs) r t)"
  using assms buf_alloc_at [of "length cs" "cs @ r" s "d @ le16 (word_of_nat (length cs))" t]
  by (simp add: buf_get_str_def lestr_def buf_get_at npstr_at_def)

lemma npstr_bytes_at:
  assumes "length cs < 65536"
  shows "npstr_bytes (d @ lestr cs @ r) (npstr_at d cs) = Some cs"
  using assms by (simp add: npstr_bytes_def npstr_at_def lestr_def nat_add_distrib)


subsection \<open>Statements on a laid-out buffer\<close>

text \<open>
  What a put statement does to the buffer does not depend on the structure it copies the
  value to; \<open>w_*\<close> is that part, and the rules below push \<open>fst\<close> through a body.
\<close>

definition w8 :: "u8 \<Rightarrow> cbuf \<Rightarrow> cbuf" where "w8 v b = snd (buf_put_int8 b v)"
definition w16 :: "u16 \<Rightarrow> cbuf \<Rightarrow> cbuf" where "w16 v b = snd (buf_put_int16 b v)"
definition w32 :: "u32 \<Rightarrow> cbuf \<Rightarrow> cbuf" where "w32 v b = snd (buf_put_int32 b v)"
definition w64 :: "u64 \<Rightarrow> cbuf \<Rightarrow> cbuf" where "w64 v b = snd (buf_put_int64 b v)"
definition wstr :: "cstring option \<Rightarrow> cbuf \<Rightarrow> cbuf" where
  "wstr v b = snd (buf_put_str b v \<lparr>str_len = 0, str_ptr = None\<rparr>)"
definition wqid :: "Npqid \<Rightarrow> cbuf \<Rightarrow> cbuf" where
  "wqid q b = w64 (qid_path q) (w32 (qid_version q) (w8 (qid_type q) b))"

lemma buf_put_str_indep: "snd (buf_put_str b v ps) = snd (buf_put_str b v ps')"
  by (simp add: buf_put_str_def Let_def split: prod.splits bool.splits)

lemma fst_put [codec_simps]:
  "fst (put8 v8 upd8 p) = w8 v8 (fst p)"
  "fst (put16 v16 upd16 p) = w16 v16 (fst p)"
  "fst (put32 v32 upd32 p) = w32 v32 (fst p)"
  "fst (put64 v64 upd64 p) = w64 v64 (fst p)"
  by (simp_all add: put8_def put16_def put32_def put64_def w8_def w16_def w32_def w64_def
      split: prod.splits)

lemma fst_putstr [codec_simps]: "fst (putstr v sel upd p) = wstr v (fst p)"
  using buf_put_str_indep [of "fst p" v "sel (snd p)" "\<lparr>str_len = 0, str_ptr = None\<rparr>"]
  by (auto simp: putstr_def wstr_def split: prod.splits)

lemma fst_put_qid [codec_simps]: "fst (buf_put_qid q upd p) = wqid q (fst p)"
  by (simp add: buf_put_qid_def wqid_def codec_simps)

definition leqid :: "Npqid \<Rightarrow> u8 list" where
  "leqid q = le8 (qid_type q) @ le32 (qid_version q) @ le64 (qid_path q)"

lemma length_leqid [simp]: "length (leqid q) = 13"
  by (simp add: leqid_def)

lemma w_at [codec_simps]:
  "1 \<le> length r \<Longrightarrow> w8 v8 (cbuf_at s d r t) = cbuf_at s (d @ le8 v8) (drop 1 r) t"
  "2 \<le> length r \<Longrightarrow> w16 v16 (cbuf_at s d r t) = cbuf_at s (d @ le16 v16) (drop 2 r) t"
  "4 \<le> length r \<Longrightarrow> w32 v32 (cbuf_at s d r t) = cbuf_at s (d @ le32 v32) (drop 4 r) t"
  "8 \<le> length r \<Longrightarrow> w64 v64 (cbuf_at s d r t) = cbuf_at s (d @ le64 v64) (drop 8 r) t"
  "2 + length (opt_cstr cs) \<le> length r \<Longrightarrow> wstr cs (cbuf_at s d r t) =
     cbuf_at s (d @ lestr (opt_cstr cs)) (drop (2 + length (opt_cstr cs)) r) t"
  "13 \<le> length r \<Longrightarrow> wqid q (cbuf_at s d r t) = cbuf_at s (d @ leqid q) (drop 13 r) t"
  by (simp_all add: w8_def w16_def w32_def w64_def wstr_def wqid_def buf_put_at buf_put_str_at
      leqid_def)

definition lestat :: "Npwstat \<Rightarrow> int \<Rightarrow> bool \<Rightarrow> u8 list" where
  "lestat w statsz dotu =
     le16 (word_of_int statsz) @ le16 (ws_type w) @ le32 (ws_dev w) @ leqid (ws_qid w) @
     le32 (ws_mode w) @ le32 (ws_atime w) @ le32 (ws_mtime w) @ le64 (ws_length w) @
     lestr (opt_cstr (ws_name w)) @ lestr (opt_cstr (ws_uid w)) @
     lestr (opt_cstr (ws_gid w)) @ lestr (opt_cstr (ws_muid w)) @
     (if dotu then lestr (opt_cstr (ws_extension w)) @
        le32 (ws_n_uid w) @ le32 (ws_n_gid w) @ le32 (ws_n_muid w) else [])"

definition wwstat :: "Npwstat \<Rightarrow> int \<Rightarrow> bool \<Rightarrow> cbuf \<Rightarrow> cbuf" where
  "wwstat w statsz dotu b = fst (buf_put_wstat w statsz dotu (\<lambda>r. r) (\<lambda>f r. f r) (b, undefined))"

lemma fst_put_wstat [codec_simps]:
  "fst (buf_put_wstat w statsz dotu sel upd p) = wwstat w statsz dotu (fst p)"
  by (simp add: wwstat_def buf_put_wstat_def codec_simps)

lemma int_length_lestat: "int (length (lestat w statsz dotu)) = 2 + size_wstat (Some w) dotu"
  by (simp add: lestat_def size_wstat_def opt_strlen_cstr)

lemma wwstat_at [codec_simps]:
  "length (lestat w sz dotu) \<le> length r \<Longrightarrow> wwstat w sz dotu (cbuf_at s d r t) =
     cbuf_at s (d @ lestat w sz dotu) (drop (length (lestat w sz dotu)) r) t"
  by (cases dotu) (simp_all add: wwstat_def buf_put_wstat_def codec_simps lestat_def add.commute add.left_commute)

lemma get_at [codec_simps]:
  "get8 upd8 (cbuf_at s d (le8 v8 @ r) t, x) = (cbuf_at s (d @ le8 v8) r t, upd8 (\<lambda>_. v8) x)"
  "get16 upd16 (cbuf_at s d (le16 v16 @ r) t, x) = (cbuf_at s (d @ le16 v16) r t, upd16 (\<lambda>_. v16) x)"
  "get32 upd32 (cbuf_at s d (le32 v32 @ r) t, x) = (cbuf_at s (d @ le32 v32) r t, upd32 (\<lambda>_. v32) x)"
  "get64 upd64 (cbuf_at s d (le64 v64 @ r) t, x) = (cbuf_at s (d @ le64 v64) r t, upd64 (\<lambda>_. v64) x)"
  "length cs < 65536 \<Longrightarrow> getstr updstr (cbuf_at s d (lestr cs @ r) t, x) =
     (cbuf_at s (d @ lestr cs) r t, updstr (\<lambda>_. npstr_at d cs) x)"
  by (simp_all add: get8_def get16_def get32_def get64_def getstr_def buf_get_at buf_get_str_at)

text \<open>The same rules for the last field of a body, behind which nothing is left.\<close>

lemmas get_at_end [codec_simps] = get_at [where r = "[]", simplified append_Nil2]

lemma get_qid_at [codec_simps]:
  "buf_get_qid upd (cbuf_at s d (leqid q @ r) t, x) =
     (cbuf_at s (d @ leqid q) r t,
      upd (qid_path_update (\<lambda>_. qid_path q)) (upd (qid_version_update (\<lambda>_. qid_version q))
        (upd (qid_type_update (\<lambda>_. qid_type q)) x)))"
  by (simp add: buf_get_qid_def leqid_def codec_simps)

lemmas get_qid_at_end [codec_simps] = get_qid_at [where r = "[]", simplified append_Nil2]

end
