(* ===== verification/NpMsg.thy ===== *)
theory NpMsg
  imports Wire
begin

text \<open>
  The 9P2000 messages of \<^verbatim>\<open>npfs/libnpfs/np.c\<close>: the constructors
  \<^verbatim>\<open>np_create_*\<close>, the parser \<^verbatim>\<open>np_deserialize\<close> and the
  stat (de)serializers, over the structure \<^verbatim>\<open>Npfcall\<close> of
  \<^verbatim>\<open>npfs.h\<close>. A call of \<^verbatim>\<open>malloc\<close> is an argument: \<open>None\<close>
  when it fails, otherwise the uninitialised structure and bytes it hands out, so that no
  theorem can rely on their contents.
\<close>

section \<open>Message types and constants\<close>

definition Tfirst :: u8 where "Tfirst = 100"
definition Tversion :: u8 where "Tversion = 100"
definition Rversion :: u8 where "Rversion = 101"
definition Tauth :: u8 where "Tauth = 102"
definition Rauth :: u8 where "Rauth = 103"
definition Tattach :: u8 where "Tattach = 104"
definition Rattach :: u8 where "Rattach = 105"
definition Terror :: u8 where "Terror = 106"
definition Rerror :: u8 where "Rerror = 107"
definition Tflush :: u8 where "Tflush = 108"
definition Rflush :: u8 where "Rflush = 109"
definition Twalk :: u8 where "Twalk = 110"
definition Rwalk :: u8 where "Rwalk = 111"
definition Topen :: u8 where "Topen = 112"
definition Ropen :: u8 where "Ropen = 113"
definition Tcreate :: u8 where "Tcreate = 114"
definition Rcreate :: u8 where "Rcreate = 115"
definition Tread :: u8 where "Tread = 116"
definition Rread :: u8 where "Rread = 117"
definition Twrite :: u8 where "Twrite = 118"
definition Rwrite :: u8 where "Rwrite = 119"
definition Tclunk :: u8 where "Tclunk = 120"
definition Rclunk :: u8 where "Rclunk = 121"
definition Tremove :: u8 where "Tremove = 122"
definition Rremove :: u8 where "Rremove = 123"
definition Tstat :: u8 where "Tstat = 124"
definition Rstat :: u8 where "Rstat = 125"
definition Twstat :: u8 where "Twstat = 126"
definition Rwstat :: u8 where "Rwstat = 127"
definition Rlast :: u8 where "Rlast = 128"

lemmas msg_type_defs = Tfirst_def Tversion_def Rversion_def Tauth_def Rauth_def Tattach_def
  Rattach_def Terror_def Rerror_def Tflush_def Rflush_def Twalk_def Rwalk_def Topen_def Ropen_def
  Tcreate_def Rcreate_def Tread_def Rread_def Twrite_def Rwrite_def Tclunk_def Rclunk_def
  Tremove_def Rremove_def Tstat_def Rstat_def Twstat_def Rwstat_def Rlast_def

definition NOTAG :: u16 where "NOTAG = - 1"
definition NOFID :: u32 where "NOFID = - 1"
definition MAXWELEM :: nat where "MAXWELEM = 16"
definition IOHDRSZ :: u32 where "IOHDRSZ = 24"

section \<open>The message structure\<close>

text \<open>
  \<^verbatim>\<open>data\<close> and the strings point into the packet \<^verbatim>\<open>pkt\<close>; the two
  arrays of \<^verbatim>\<open>MAXWELEM\<close> elements are functions of the index. The link
  \<^verbatim>\<open>next\<close> of the free list is in the theory of connections.
\<close>

record Npfcall =
  fc_size :: u32
  fc_type :: u8
  fc_tag :: u16
  fc_pkt :: "u8 list"
  fc_fid :: u32
  fc_msize :: u32
  fc_version :: Npstr
  fc_afid :: u32
  fc_uname :: Npstr
  fc_aname :: Npstr
  fc_qid :: Npqid
  fc_ename :: Npstr
  fc_oldtag :: u16
  fc_newfid :: u32
  fc_nwname :: u16
  fc_wnames :: "nat \<Rightarrow> Npstr"
  fc_nwqid :: u16
  fc_wqids :: "nat \<Rightarrow> Npqid"
  fc_mode :: u8
  fc_iounit :: u32
  fc_name :: Npstr
  fc_perm :: u32
  fc_offset :: u64
  fc_count :: u32
  fc_data :: "int option"
  fc_stat :: Npstat
  fc_ecode :: u32
  fc_extension :: Npstr
  fc_n_uname :: u32

type_synonym malloc = "(Npfcall \<times> (nat \<Rightarrow> u8)) option"

text \<open>Faults of the C program: what it does is no value the caller can test.\<close>

datatype fault = NullDeref | OutOfBounds | AssertFail | Uninitialised

section \<open>Constructors\<close>

definition np_set_tag :: "Npfcall \<Rightarrow> u16 \<Rightarrow> fault + Npfcall" where
  "np_set_tag fc tag =
     (if length (fc_pkt fc) < 7 then Inl OutOfBounds
      else Inr (fc\<lparr>fc_tag := tag,
        fc_pkt := (fc_pkt fc)[5 := ucast tag, 6 := ucast (drop_bit 8 tag)]\<rparr>))"

definition np_create_common :: "malloc \<Rightarrow> u32 \<Rightarrow> u8 \<Rightarrow> (cbuf \<times> Npfcall) option" where
  "np_create_common m sz typ =
     (let sz = sz + (4 + 1 + 2) in
      case m of
        None \<Rightarrow> None
      | Some (fc, junk) \<Rightarrow>
          Some (steps
            [put32 sz fc_size_update,
             put8 typ fc_type_update,
             put16 NOTAG fc_tag_update]
            (buf_init (map junk [0..<unat sz]) 0 (sint sz) False, fc)))"

text \<open>The packet is the buffer's memory, so it is handed over when the buffer is dropped.\<close>

definition np_post_check :: "cbuf \<times> Npfcall \<Rightarrow> Npfcall option" where
  "np_post_check s =
     (if buf_check_overflow (fst s) then None
      else Some ((snd s)\<lparr>fc_pkt := cb_mem (fst s)\<rparr>))"

text \<open>The shape all constructors share: allocate, run the puts, check.\<close>

definition np_build ::
  "malloc \<Rightarrow> int \<Rightarrow> u8 \<Rightarrow> (cbuf \<times> Npfcall \<Rightarrow> cbuf \<times> Npfcall) list \<Rightarrow> Npfcall option"
where
  "np_build m sz typ body =
     (case np_create_common m (word_of_int sz) typ of
        None \<Rightarrow> None
      | Some s \<Rightarrow> np_post_check (steps body s))"

definition np_create_tversion :: "malloc \<Rightarrow> u32 \<Rightarrow> cstring \<Rightarrow> Npfcall option" where
  "np_create_tversion m msize version =
     np_build m (4 + 2 + int (length version)) Tversion
       [put32 msize fc_msize_update,
        putstr (Some version) fc_version fc_version_update]"

definition np_create_rversion :: "malloc \<Rightarrow> u32 \<Rightarrow> cstring \<Rightarrow> Npfcall option" where
  "np_create_rversion m msize version =
     np_build m (4 + 2 + int (length version)) Rversion
       [put32 msize fc_msize_update,
        putstr (Some version) fc_version fc_version_update]"

text \<open>The size of a Tauth does not count the \<^verbatim>\<open>n_uname\<close> that is put for 9P2000.u.\<close>

definition np_create_tauth ::
  "malloc \<Rightarrow> u32 \<Rightarrow> cstring option \<Rightarrow> cstring option \<Rightarrow> u32 \<Rightarrow> bool \<Rightarrow> Npfcall option"
where
  "np_create_tauth m fid uname aname n_uname dotu =
     np_build m (4 + 2 + 2 + opt_strlen uname + opt_strlen aname) Tauth
       ([put32 fid fc_fid_update,
         putstr uname fc_uname fc_uname_update,
         putstr aname fc_aname fc_aname_update]
        @ (if dotu then [put32 n_uname fc_n_uname_update] else []))"

definition np_create_rauth :: "malloc \<Rightarrow> Npqid \<Rightarrow> Npfcall option" where
  "np_create_rauth m aqid = np_build m 13 Rauth [buf_put_qid aqid fc_qid_update]"

definition np_create_rerror :: "malloc \<Rightarrow> cstring \<Rightarrow> u32 \<Rightarrow> bool \<Rightarrow> Npfcall option" where
  "np_create_rerror m ename ecode dotu =
     np_build m (2 + int (length ename) + (if dotu then 4 else 0)) Rerror
       ([putstr (Some ename) fc_ename fc_ename_update]
        @ (if dotu then [put32 ecode fc_ecode_update] else []))"

text \<open>
  \<^verbatim>\<open>np_create_rerror1\<close> copies the bytes of the name but puts no length in front
  of them.
\<close>

definition np_create_rerror1 :: "malloc \<Rightarrow> cstring \<Rightarrow> u32 \<Rightarrow> bool \<Rightarrow> Npfcall option" where
  "np_create_rerror1 m ename ecode dotu =
     np_build m (2 + int (length ename) + (if dotu then 4 else 0)) Rerror
       ([\<lambda>(b, fc).
           (case buf_alloc b (int (length ename)) of
              (q, b) \<Rightarrow>
                (case q of None \<Rightarrow> b\<lparr>cb_oob := True\<rparr> | Some i \<Rightarrow> mem_write i ename b,
                 fc\<lparr>fc_ename := \<lparr>str_len = word_of_nat (length ename), str_ptr = q\<rparr>\<rparr>))]
        @ (if dotu then [put32 ecode fc_ecode_update] else []))"

definition np_create_tflush :: "malloc \<Rightarrow> u16 \<Rightarrow> Npfcall option" where
  "np_create_tflush m oldtag = np_build m 2 Tflush [put16 oldtag fc_oldtag_update]"

definition np_create_rflush :: "malloc \<Rightarrow> Npfcall option" where
  "np_create_rflush m = np_build m 0 Rflush []"

definition np_create_tattach ::
  "malloc \<Rightarrow> u32 \<Rightarrow> u32 \<Rightarrow> cstring option \<Rightarrow> cstring option \<Rightarrow> u32 \<Rightarrow> bool \<Rightarrow> Npfcall option"
where
  "np_create_tattach m fid afid uname aname n_uname dotu =
     np_build m (4 + 4 + 2 + 2 + opt_strlen uname + opt_strlen aname + (if dotu then 4 else 0)) Tattach
       ([put32 fid fc_fid_update,
         put32 afid fc_afid_update,
         putstr uname fc_uname fc_uname_update,
         putstr aname fc_aname fc_aname_update]
        @ (if dotu then [put32 n_uname fc_n_uname_update] else []))"

definition np_create_rattach :: "malloc \<Rightarrow> Npqid \<Rightarrow> Npfcall option" where
  "np_create_rattach m qid = np_build m 13 Rattach [buf_put_qid qid fc_qid_update]"

text \<open>The element \<^verbatim>\<open>i\<close> of an array field as the target of a store.\<close>

definition wname_update :: "nat \<Rightarrow> (Npstr \<Rightarrow> Npstr) \<Rightarrow> Npfcall \<Rightarrow> Npfcall" where
  "wname_update i f fc = fc\<lparr>fc_wnames := (fc_wnames fc)(i := f (fc_wnames fc i))\<rparr>"

definition wqid_update :: "nat \<Rightarrow> (Npqid \<Rightarrow> Npqid) \<Rightarrow> Npfcall \<Rightarrow> Npfcall" where
  "wqid_update i f fc = fc\<lparr>fc_wqids := (fc_wqids fc)(i := f (fc_wqids fc i))\<rparr>"

definition np_create_twalk ::
  "malloc \<Rightarrow> u32 \<Rightarrow> u32 \<Rightarrow> u16 \<Rightarrow> (nat \<Rightarrow> cstring) \<Rightarrow> Npfcall option"
where
  "np_create_twalk m fid newfid nwname wnames =
     (if unat nwname > MAXWELEM then None
      else np_build m
        (4 + 4 + 2 + int (unat nwname) * 2 + (\<Sum>i\<leftarrow>[0..<unat nwname]. int (length (wnames i)))) Twalk
        ([put32 fid fc_fid_update,
          put32 newfid fc_newfid_update,
          put16 nwname fc_nwname_update]
         @ map (\<lambda>i. putstr (Some (wnames i)) (\<lambda>fc. fc_wnames fc i) (wname_update i)) [0..<unat nwname]))"

definition np_create_rwalk :: "malloc \<Rightarrow> int \<Rightarrow> (nat \<Rightarrow> Npqid) \<Rightarrow> Npfcall option" where
  "np_create_rwalk m nwqid wqids =
     (if nwqid > int MAXWELEM then None
      else np_build m (2 + nwqid * 13) Rwalk
        ([put16 (word_of_int nwqid) fc_nwqid_update]
         @ map (\<lambda>i. buf_put_qid (wqids i) (wqid_update i)) [0..<nat nwqid]))"

definition np_create_topen :: "malloc \<Rightarrow> u32 \<Rightarrow> u8 \<Rightarrow> Npfcall option" where
  "np_create_topen m fid mode =
     np_build m (4 + 1) Topen [put32 fid fc_fid_update, put8 mode fc_mode_update]"

definition np_create_ropen :: "malloc \<Rightarrow> Npqid \<Rightarrow> u32 \<Rightarrow> Npfcall option" where
  "np_create_ropen m qid iounit =
     np_build m (13 + 4) Ropen [buf_put_qid qid fc_qid_update, put32 iounit fc_iounit_update]"

definition np_create_tcreate :: "malloc \<Rightarrow> u32 \<Rightarrow> cstring \<Rightarrow> u32 \<Rightarrow> u8 \<Rightarrow> Npfcall option" where
  "np_create_tcreate m fid name perm mode =
     np_build m (4 + 2 + int (length name) + 4 + 1) Tcreate
       [put32 fid fc_fid_update,
        putstr (Some name) fc_name fc_name_update,
        put32 perm fc_perm_update,
        put8 mode fc_mode_update]"

definition np_create_rcreate :: "malloc \<Rightarrow> Npqid \<Rightarrow> u32 \<Rightarrow> Npfcall option" where
  "np_create_rcreate m qid iounit =
     np_build m (13 + 4) Rcreate [buf_put_qid qid fc_qid_update, put32 iounit fc_iounit_update]"

definition np_create_tread :: "malloc \<Rightarrow> u32 \<Rightarrow> u64 \<Rightarrow> u32 \<Rightarrow> Npfcall option" where
  "np_create_tread m fid offset count =
     np_build m (4 + 8 + 4) Tread
       [put32 fid fc_fid_update, put64 offset fc_offset_update, put32 count fc_count_update]"

text \<open>
  \<^verbatim>\<open>fc->data = buf_alloc(bufp, count)\<close>: the parameter of \<^verbatim>\<open>buf_alloc\<close>
  is an \<^verbatim>\<open>int\<close>, so a count of \<open>2 ^ 31\<close> or more is a negative length there.
\<close>

definition alloc_data :: "u32 \<Rightarrow> cbuf \<times> Npfcall \<Rightarrow> cbuf \<times> Npfcall" where
  "alloc_data count s =
     (case buf_alloc (fst s) (sint count) of (q, b) \<Rightarrow> (b, (snd s)\<lparr>fc_data := q\<rparr>))"

definition np_alloc_rread :: "malloc \<Rightarrow> u32 \<Rightarrow> Npfcall option" where
  "np_alloc_rread m count =
     np_build m (4 + uint count) Rread [put32 count fc_count_update, alloc_data count]"

text \<open>\<^verbatim>\<open>np_create_rread\<close> tests \<^verbatim>\<open>fc->data\<close> before it knows that
  \<^verbatim>\<open>fc\<close> is not NULL.\<close>

definition np_create_rread :: "malloc \<Rightarrow> u32 \<Rightarrow> u8 list \<Rightarrow> fault + Npfcall" where
  "np_create_rread m count data =
     (case np_alloc_rread m count of
        None \<Rightarrow> Inl NullDeref
      | Some fc \<Rightarrow>
          (case fc_data fc of
             None \<Rightarrow> Inr fc
           | Some i \<Rightarrow>
               if length data < unat count \<or> i < 0 \<or> i + uint count > int (length (fc_pkt fc))
               then Inl OutOfBounds
               else Inr (fc\<lparr>fc_pkt := take (nat i) (fc_pkt fc) @ take (unat count) data
                          @ drop (nat i + unat count) (fc_pkt fc)\<rparr>)))"

definition np_set_rread_count :: "Npfcall \<Rightarrow> u32 \<Rightarrow> fault + Npfcall" where
  "np_set_rread_count fc count =
     (if \<not> count \<le> fc_count fc then Inl AssertFail
      else
        (let sz = 4 + 1 + 2 + 4 + count :: u32;
             s = put32 sz fc_size_update (buf_init (fc_pkt fc) 0 (sint sz) False, fc);
             s = put32 count fc_count_update
                   (buf_init (cb_mem (fst s)) 7 (sint (sz - 7)) (cb_oob (fst s)), snd s)
         in if cb_oob (fst s) then Inl OutOfBounds
            else Inr ((snd s)\<lparr>fc_pkt := cb_mem (fst s)\<rparr>)))"

definition np_create_twrite ::
  "malloc \<Rightarrow> u32 \<Rightarrow> u64 \<Rightarrow> u32 \<Rightarrow> u8 list \<Rightarrow> Npfcall option"
where
  "np_create_twrite m fid offset count data =
     np_build m (4 + 8 + 4 + uint count) Twrite
       [put32 fid fc_fid_update,
        put64 offset fc_offset_update,
        put32 count fc_count_update,
        alloc_data count,
        \<lambda>(b, fc). (case fc_data fc of
             None \<Rightarrow> b
           | Some i \<Rightarrow> if length data < unat count then b\<lparr>cb_oob := True\<rparr>
                       else mem_write i (take (unat count) data) b, fc)]"

definition np_create_rwrite :: "malloc \<Rightarrow> u32 \<Rightarrow> Npfcall option" where
  "np_create_rwrite m count = np_build m 4 Rwrite [put32 count fc_count_update]"

definition np_create_tclunk :: "malloc \<Rightarrow> u32 \<Rightarrow> Npfcall option" where
  "np_create_tclunk m fid = np_build m 4 Tclunk [put32 fid fc_fid_update]"

definition np_create_rclunk :: "malloc \<Rightarrow> Npfcall option" where
  "np_create_rclunk m = np_build m 0 Rclunk []"

definition np_create_tremove :: "malloc \<Rightarrow> u32 \<Rightarrow> Npfcall option" where
  "np_create_tremove m fid = np_build m 4 Tremove [put32 fid fc_fid_update]"

definition np_create_rremove :: "malloc \<Rightarrow> Npfcall option" where
  "np_create_rremove m = np_build m 0 Rremove []"

definition np_create_tstat :: "malloc \<Rightarrow> u32 \<Rightarrow> Npfcall option" where
  "np_create_tstat m fid = np_build m 4 Tstat [put32 fid fc_fid_update]"

definition np_create_rstat :: "malloc \<Rightarrow> Npwstat \<Rightarrow> bool \<Rightarrow> Npfcall option" where
  "np_create_rstat m wstat dotu =
     (let statsz = size_wstat (Some wstat) dotu in
      np_build m (2 + 2 + statsz) Rstat
        [put16 (word_of_int (statsz + 2)) nopval,
         buf_put_wstat wstat statsz dotu fc_stat fc_stat_update])"

definition np_create_twstat :: "malloc \<Rightarrow> u32 \<Rightarrow> Npwstat \<Rightarrow> bool \<Rightarrow> Npfcall option" where
  "np_create_twstat m fid wstat dotu =
     (let statsz = size_wstat (Some wstat) dotu in
      np_build m (4 + 2 + 2 + statsz) Twstat
        [put32 fid fc_fid_update,
         put16 (word_of_int (statsz + 2)) nopval,
         buf_put_wstat wstat statsz dotu fc_stat fc_stat_update])"

definition np_create_rwstat :: "malloc \<Rightarrow> Npfcall option" where
  "np_create_rwstat m = np_build m 0 Rwstat []"


section \<open>The parser\<close>

text \<open>
  The switch of \<^verbatim>\<open>np_deserialize\<close>. \<open>None\<close> is \<^verbatim>\<open>goto error\<close>.
  The pointer of \<^verbatim>\<open>Rread\<close>/\<^verbatim>\<open>Twrite\<close> data comes from the signed
  length as above.
\<close>

definition get_data :: "cbuf \<times> Npfcall \<Rightarrow> cbuf \<times> Npfcall" where
  "get_data s = alloc_data (fc_count (snd s)) s"

definition np_deserialize_body :: "bool \<Rightarrow> cbuf \<times> Npfcall \<Rightarrow> (cbuf \<times> Npfcall) option" where
  "np_deserialize_body dotu s =
     (let t = fc_type (snd s) in
      if t = Tversion \<or> t = Rversion then
        Some (steps [get32 fc_msize_update, getstr fc_version_update] s)
      else if t = Tauth then
        Some (steps [get32 fc_afid_update, getstr fc_uname_update, getstr fc_aname_update] s)
      else if t = Rauth then
        Some (steps [buf_get_qid fc_qid_update] s)
      else if t = Tflush then
        Some (steps [get16 fc_oldtag_update] s)
      else if t = Tattach then
        Some (steps [get32 fc_fid_update, get32 fc_afid_update,
          getstr fc_uname_update, getstr fc_aname_update] s)
      else if t = Rattach then
        Some (steps [buf_get_qid fc_qid_update] s)
      else if t = Rerror then
        (let s = getstr fc_ename_update s in
         Some (if dotu then get32 fc_ecode_update s else (fst s, (snd s)\<lparr>fc_ecode := 0\<rparr>)))
      else if t = Twalk then
        (let s = steps [get32 fc_fid_update, get32 fc_newfid_update, get16 fc_nwname_update] s;
             n = unat (fc_nwname (snd s)) in
         if n > MAXWELEM then None
         else Some (steps (map (\<lambda>i. getstr (wname_update i)) [0..<n]) s))
      else if t = Rwalk then
        (let s = get16 fc_nwqid_update s; n = unat (fc_nwqid (snd s)) in
         if n > MAXWELEM then None
         else Some (steps (map (\<lambda>i. buf_get_qid (wqid_update i)) [0..<n]) s))
      else if t = Topen then
        Some (steps [get32 fc_fid_update, get8 fc_mode_update] s)
      else if t = Ropen \<or> t = Rcreate then
        Some (steps [buf_get_qid fc_qid_update, get32 fc_iounit_update] s)
      else if t = Tcreate then
        Some (steps ([get32 fc_fid_update, getstr fc_name_update, get32 fc_perm_update,
          get8 fc_mode_update] @ (if dotu then [getstr fc_extension_update] else [])) s)
      else if t = Tread then
        Some (steps [get32 fc_fid_update, get64 fc_offset_update, get32 fc_count_update] s)
      else if t = Rread then
        Some (steps [get32 fc_count_update, get_data] s)
      else if t = Twrite then
        Some (steps [get32 fc_fid_update, get64 fc_offset_update, get32 fc_count_update, get_data] s)
      else if t = Rwrite then
        Some (steps [get32 fc_count_update] s)
      else if t = Tclunk \<or> t = Tremove \<or> t = Tstat then
        Some (steps [get32 fc_fid_update] s)
      else if t = Rflush \<or> t = Rclunk \<or> t = Rremove \<or> t = Rwstat then
        Some s
      else if t = Rstat then
        Some (steps [get16 nopval, buf_get_stat dotu fc_stat_update] s)
      else if t = Twstat then
        Some (steps [get32 fc_fid_update, get16 nopval, buf_get_stat dotu fc_stat_update] s)
      else None)"

text \<open>
  \<^verbatim>\<open>np_deserialize\<close> over the memory \<open>data\<close>. The result is the structure and
  the returned size, or \<open>None\<close> for the return value 0; the flag tells whether memory
  outside \<open>data\<close> was read.
\<close>

definition np_deserialize_start :: "Npfcall \<Rightarrow> u8 list \<Rightarrow> cbuf \<times> Npfcall" where
  "np_deserialize_start fc data =
     (let s = get32 fc_size_update (buf_init data 0 4 False, fc);
          s = (buf_init data 4 (sint (fc_size (snd s) - 4)) (cb_oob (fst s)), snd s);
          s = steps [get8 fc_type_update, get16 fc_tag_update] s
      in (fst s, (snd s)\<lparr>fc_newfid := NOFID, fc_afid := NOFID, fc_fid := NOFID\<rparr>))"

definition np_deserialize :: "Npfcall \<Rightarrow> u8 list \<Rightarrow> bool \<Rightarrow> Npfcall option \<times> bool" where
  "np_deserialize fc data dotu =
     (let s = np_deserialize_start fc data in
      case np_deserialize_body dotu s of
        None \<Rightarrow> (None, cb_oob (fst s))
      | Some s \<Rightarrow>
          (if buf_check_overflow (fst s) then None
           else if fc_size (snd s) = 0 then None else Some (snd s), cb_oob (fst s)))"

section \<open>Stat buffers\<close>

text \<open>
  \<^verbatim>\<open>np_serialize_stat\<close> into \<open>buf\<close>: the number of bytes put, 0 if it does
  not fit, and the buffer after it. The local \<^verbatim>\<open>Npstat stat\<close> is \<open>st\<close>.
\<close>

definition np_serialize_stat ::
  "Npstat \<Rightarrow> Npwstat \<Rightarrow> u8 list \<Rightarrow> int \<Rightarrow> bool \<Rightarrow> int \<times> cbuf"
where
  "np_serialize_stat st wstat buf buflen dotu =
     (let statsz = size_wstat (Some wstat) dotu;
          b = buf_init buf 0 buflen False in
      if statsz > buflen then (0, b)
      else (let b = fst (buf_put_wstat wstat statsz dotu (\<lambda>st. st) (\<lambda>f st. f st) (b, st)) in
        if buf_check_overflow b then (0, b) else (cb_p b - cb_sp b, b)))"

definition np_deserialize_stat :: "Npstat \<Rightarrow> u8 list \<Rightarrow> int \<Rightarrow> bool \<Rightarrow> int \<times> Npstat" where
  "np_deserialize_stat st buf buflen dotu =
     (case buf_get_stat dotu (\<lambda>f st. f st) (buf_init buf 0 buflen False, st) of
        (b, st) \<Rightarrow> (if buf_check_overflow b then 0 else cb_p b - cb_sp b, st))"

section \<open>Zeroed structures\<close>

text \<open>A structure as \<^verbatim>\<open>calloc\<close> would hand it out, for the concrete instances.\<close>

definition npstr_zero :: Npstr where "npstr_zero = \<lparr>str_len = 0, str_ptr = None\<rparr>"
definition npqid_zero :: Npqid where "npqid_zero = \<lparr>qid_type = 0, qid_version = 0, qid_path = 0\<rparr>"
definition npstat_zero :: Npstat where
  "npstat_zero = \<lparr>st_size = 0, st_type = 0, st_dev = 0, st_qid = npqid_zero, st_mode = 0,
     st_atime = 0, st_mtime = 0, st_length = 0, st_name = npstr_zero, st_uid = npstr_zero,
     st_gid = npstr_zero, st_muid = npstr_zero, st_extension = npstr_zero, st_n_uid = 0,
     st_n_gid = 0, st_n_muid = 0\<rparr>"

definition npfcall_zero :: Npfcall where
  "npfcall_zero = \<lparr>fc_size = 0, fc_type = 0, fc_tag = 0, fc_pkt = [], fc_fid = 0, fc_msize = 0,
     fc_version = npstr_zero, fc_afid = 0, fc_uname = npstr_zero, fc_aname = npstr_zero,
     fc_qid = npqid_zero, fc_ename = npstr_zero, fc_oldtag = 0, fc_newfid = 0, fc_nwname = 0,
     fc_wnames = (\<lambda>_. npstr_zero), fc_nwqid = 0, fc_wqids = (\<lambda>_. npqid_zero), fc_mode = 0,
     fc_iounit = 0, fc_name = npstr_zero, fc_perm = 0, fc_offset = 0, fc_count = 0, fc_data = None,
     fc_stat = npstat_zero, fc_ecode = 0, fc_extension = npstr_zero, fc_n_uname = 0\<rparr>"

definition npwstat_zero :: Npwstat where
  "npwstat_zero = \<lparr>ws_size = 0, ws_type = 0, ws_dev = 0, ws_qid = npqid_zero, ws_mode = 0,
     ws_atime = 0, ws_mtime = 0, ws_length = 0, ws_name = None, ws_uid = None, ws_gid = None,
     ws_muid = None, ws_extension = None, ws_n_uid = 0, ws_n_gid = 0, ws_n_muid = 0\<rparr>"

end
