(* ===== verification/NpCodec.thy ===== *)
theory NpCodec
  imports NpMsg "HOL-Library.Monad_Syntax"
begin

text \<open>
  The 9P2000 wire format as a specification, and the proofs that the constructors emit
  exactly it and that the parser reads it back. \<open>npmsg\<close> is an abstract message,
  \<open>wire\<close> its encoding, \<open>np_create_msg\<close> the constructor the code has for it and
  \<open>np_view\<close> what a server reads out of a parsed \<^verbatim>\<open>Npfcall\<close>.
\<close>

section \<open>Abstract messages and their encoding\<close>

datatype npmsg =
    MTversion u32 cstring
  | MRversion u32 cstring
  | MTauth u32 "cstring option" "cstring option"
  | MRauth Npqid
  | MTattach u32 u32 "cstring option" "cstring option"
  | MRattach Npqid
  | MRerror cstring u32
  | MTflush u16
  | MRflush
  | MTwalk u32 u32 "cstring list"
  | MRwalk "Npqid list"
  | MTopen u32 u8
  | MRopen Npqid u32
  | MTcreate u32 cstring u32 u8
  | MRcreate Npqid u32
  | MTread u32 u64 u32
  | MRread "u8 list"
  | MTwrite u32 u64 "u8 list"
  | MRwrite u32
  | MTclunk u32
  | MRclunk
  | MTremove u32
  | MRremove
  | MTstat u32
  | MRstat Npwstat
  | MTwstat u32 Npwstat
  | MRwstat

fun msg_type :: "npmsg \<Rightarrow> u8" where
  "msg_type (MTversion _ _) = Tversion"
| "msg_type (MRversion _ _) = Rversion"
| "msg_type (MTauth _ _ _) = Tauth"
| "msg_type (MRauth _) = Rauth"
| "msg_type (MTattach _ _ _ _) = Tattach"
| "msg_type (MRattach _) = Rattach"
| "msg_type (MRerror _ _) = Rerror"
| "msg_type (MTflush _) = Tflush"
| "msg_type MRflush = Rflush"
| "msg_type (MTwalk _ _ _) = Twalk"
| "msg_type (MRwalk _) = Rwalk"
| "msg_type (MTopen _ _) = Topen"
| "msg_type (MRopen _ _) = Ropen"
| "msg_type (MTcreate _ _ _ _) = Tcreate"
| "msg_type (MRcreate _ _) = Rcreate"
| "msg_type (MTread _ _ _) = Tread"
| "msg_type (MRread _) = Rread"
| "msg_type (MTwrite _ _ _) = Twrite"
| "msg_type (MRwrite _) = Rwrite"
| "msg_type (MTclunk _) = Tclunk"
| "msg_type MRclunk = Rclunk"
| "msg_type (MTremove _) = Tremove"
| "msg_type MRremove = Rremove"
| "msg_type (MTstat _) = Tstat"
| "msg_type (MRstat _) = Rstat"
| "msg_type (MTwstat _ _) = Twstat"
| "msg_type MRwstat = Rwstat"

text \<open>
  The payload behind \<^verbatim>\<open>size[4] type[1] tag[2]\<close>. The user number
  \<open>n_uname\<close> of 9P2000.u follows a Tattach but not a Tauth, whose allocated size has no
  room for it.
\<close>

definition stat_field :: "Npwstat \<Rightarrow> bool \<Rightarrow> u8 list" where
  "stat_field w dotu =
     (let statsz = size_wstat (Some w) dotu in le16 (word_of_int (statsz + 2)) @ lestat w statsz dotu)"

fun payload :: "u32 \<Rightarrow> bool \<Rightarrow> npmsg \<Rightarrow> u8 list" where
  "payload nu dotu (MTversion msize v) = le32 msize @ lestr v"
| "payload nu dotu (MRversion msize v) = le32 msize @ lestr v"
| "payload nu dotu (MTauth afid u a) = le32 afid @ lestr (opt_cstr u) @ lestr (opt_cstr a)"
| "payload nu dotu (MRauth q) = leqid q"
| "payload nu dotu (MTattach fid afid u a) =
     le32 fid @ le32 afid @ lestr (opt_cstr u) @ lestr (opt_cstr a) @ (if dotu then le32 nu else [])"
| "payload nu dotu (MRattach q) = leqid q"
| "payload nu dotu (MRerror e c) = lestr e @ (if dotu then le32 c else [])"
| "payload nu dotu (MTflush t) = le16 t"
| "payload nu dotu MRflush = []"
| "payload nu dotu (MTwalk fid newfid ws) =
     le32 fid @ le32 newfid @ le16 (word_of_nat (length ws)) @ concat (map lestr ws)"
| "payload nu dotu (MRwalk qs) = le16 (word_of_nat (length qs)) @ concat (map leqid qs)"
| "payload nu dotu (MTopen fid mode) = le32 fid @ le8 mode"
| "payload nu dotu (MRopen q iounit) = leqid q @ le32 iounit"
| "payload nu dotu (MTcreate fid name perm mode) = le32 fid @ lestr name @ le32 perm @ le8 mode"
| "payload nu dotu (MRcreate q iounit) = leqid q @ le32 iounit"
| "payload nu dotu (MTread fid off count) = le32 fid @ le64 off @ le32 count"
| "payload nu dotu (MRread data) = le32 (word_of_nat (length data)) @ data"
| "payload nu dotu (MTwrite fid off data) =
     le32 fid @ le64 off @ le32 (word_of_nat (length data)) @ data"
| "payload nu dotu (MRwrite count) = le32 count"
| "payload nu dotu (MTclunk fid) = le32 fid"
| "payload nu dotu MRclunk = []"
| "payload nu dotu (MTremove fid) = le32 fid"
| "payload nu dotu MRremove = []"
| "payload nu dotu (MTstat fid) = le32 fid"
| "payload nu dotu (MRstat w) = stat_field w dotu"
| "payload nu dotu (MTwstat fid w) = le32 fid @ stat_field w dotu"
| "payload nu dotu MRwstat = []"

text \<open>What fits: 16-bit string lengths, at most \<open>MAXWELEM\<close> elements, and a packet an
  \<^verbatim>\<open>int\<close> can measure.\<close>

definition wf_str :: "cstring \<Rightarrow> bool" where
  "wf_str s \<longleftrightarrow> length s < 65536"

definition wf_wstat :: "Npwstat \<Rightarrow> bool" where
  "wf_wstat w \<longleftrightarrow> wf_str (opt_cstr (ws_name w)) \<and> wf_str (opt_cstr (ws_uid w)) \<and>
     wf_str (opt_cstr (ws_gid w)) \<and> wf_str (opt_cstr (ws_muid w)) \<and> wf_str (opt_cstr (ws_extension w))"

fun wf_msg :: "npmsg \<Rightarrow> bool" where
  "wf_msg (MTversion _ v) = wf_str v"
| "wf_msg (MRversion _ v) = wf_str v"
| "wf_msg (MTauth _ u a) = (wf_str (opt_cstr u) \<and> wf_str (opt_cstr a))"
| "wf_msg (MTattach _ _ u a) = (wf_str (opt_cstr u) \<and> wf_str (opt_cstr a))"
| "wf_msg (MRerror e _) = wf_str e"
| "wf_msg (MTwalk _ _ ws) = (length ws \<le> MAXWELEM \<and> list_all wf_str ws)"
| "wf_msg (MRwalk qs) = (length qs \<le> MAXWELEM)"
| "wf_msg (MTcreate _ name _ _) = wf_str name"
| "wf_msg (MRread data) = (length data + 11 < 2147483648)"
| "wf_msg (MTwrite _ _ data) = (length data + 23 < 2147483648)"
| "wf_msg (MRstat w) = wf_wstat w"
| "wf_msg (MTwstat _ w) = wf_wstat w"
| "wf_msg _ = True"

text \<open>The header of a packet whose payload has \<open>sz\<close> bytes, and the whole packet.\<close>

definition hdr :: "int \<Rightarrow> u8 \<Rightarrow> u16 \<Rightarrow> u8 list" where
  "hdr sz typ tag = le32 (word_of_int (sz + 7)) @ le8 typ @ le16 tag"
definition wire :: "u32 \<Rightarrow> bool \<Rightarrow> u16 \<Rightarrow> npmsg \<Rightarrow> u8 list" where
  "wire nu dotu tag msg =
     hdr (int (length (payload nu dotu msg))) (msg_type msg) tag @ payload nu dotu msg"

lemma length_hdr [simp]: "length (hdr sz typ tag) = 7" by (simp add: hdr_def)

lemma buf_init_at: "n = int (length mem) \<Longrightarrow> buf_init mem 0 n False = cbuf_at 0 [] mem []"
  by (simp add: buf_init_def cbuf_at_def)


section \<open>Layout of a built packet\<close>

lemma put_at:
  "1 \<le> length r \<Longrightarrow> put8 v8 upd8 (cbuf_at s d r t, x) = (cbuf_at s (d @ le8 v8) (drop 1 r) t, upd8 (\<lambda>_. v8) x)"
  "2 \<le> length r \<Longrightarrow> put16 v16 upd16 (cbuf_at s d r t, x) = (cbuf_at s (d @ le16 v16) (drop 2 r) t, upd16 (\<lambda>_. v16) x)"
  "4 \<le> length r \<Longrightarrow> put32 v32 upd32 (cbuf_at s d r t, x) = (cbuf_at s (d @ le32 v32) (drop 4 r) t, upd32 (\<lambda>_. v32) x)"
  "8 \<le> length r \<Longrightarrow> put64 v64 upd64 (cbuf_at s d r t, x) = (cbuf_at s (d @ le64 v64) (drop 8 r) t, upd64 (\<lambda>_. v64) x)"
  by (simp_all add: put8_def put16_def put32_def put64_def buf_put_at)

lemma size_word:
  assumes "0 \<le> sz" "sz + 7 < 2147483648"
  shows "word_of_int sz + (4 + 1 + 2 :: u32) = word_of_int (sz + 7)"
    and "unat (word_of_int (sz + 7) :: u32) = nat (sz + 7)"
    and "sint (word_of_int (sz + 7) :: u32) = sz + 7"
proof -
  show "word_of_int sz + (4 + 1 + 2 :: u32) = word_of_int (sz + 7)"
    by simp
  show "unat (word_of_int (sz + 7) :: u32) = nat (sz + 7)"
    using assms by (simp add: unsigned_of_int take_bit_int_eq_self del: of_int_add)
  show "sint (word_of_int (sz + 7) :: u32) = sz + 7"
    using assms by (intro sint_of_int_u32) auto
qed

lemma np_create_common_at:
  assumes "0 \<le> sz" "sz + 7 < 2147483648"
  shows "\<exists>r. length r = nat sz \<and> np_create_common (Some (fc, junk)) (word_of_int sz) typ =
    Some (cbuf_at 0 (hdr sz typ NOTAG) r [],
      fc\<lparr>fc_size := word_of_int (sz + 7), fc_type := typ, fc_tag := NOTAG\<rparr>)"
proof -
  let ?mem = "map junk [0..<nat (sz + 7)]"
  have "buf_init ?mem 0 (sz + 7) False = cbuf_at 0 [] ?mem []"
    using assms by (intro buf_init_at) simp
  then have "np_create_common (Some (fc, junk)) (word_of_int sz) typ =
    Some (steps [put32 (word_of_int (sz + 7)) fc_size_update, put8 typ fc_type_update,
      put16 NOTAG fc_tag_update] (cbuf_at 0 [] ?mem [], fc))"
    by (simp only: np_create_common_def Let_def size_word [OF assms] option.case prod.case)
  also have "\<dots> = Some (cbuf_at 0 (hdr sz typ NOTAG) (drop 7 ?mem) [],
      fc\<lparr>fc_size := word_of_int (sz + 7), fc_type := typ, fc_tag := NOTAG\<rparr>)"
    using assms by (simp add: put_at hdr_def del: of_int_add upt_conv_Cons)
  finally show ?thesis using assms by (intro exI [of _ "drop 7 ?mem"]) (auto simp: nat_add_distrib)
qed

text \<open>The constructor of \<^verbatim>\<open>np.c\<close> for each message.\<close>

fun np_create_msg :: "malloc \<Rightarrow> u32 \<Rightarrow> bool \<Rightarrow> npmsg \<Rightarrow> fault + Npfcall option" where
  "np_create_msg m nu dotu (MTversion msize v) = Inr (np_create_tversion m msize v)"
| "np_create_msg m nu dotu (MRversion msize v) = Inr (np_create_rversion m msize v)"
| "np_create_msg m nu dotu (MTauth afid u a) = Inr (np_create_tauth m afid u a nu dotu)"
| "np_create_msg m nu dotu (MRauth q) = Inr (np_create_rauth m q)"
| "np_create_msg m nu dotu (MTattach fid afid u a) = Inr (np_create_tattach m fid afid u a nu dotu)"
| "np_create_msg m nu dotu (MRattach q) = Inr (np_create_rattach m q)"
| "np_create_msg m nu dotu (MRerror e c) = Inr (np_create_rerror m e c dotu)"
| "np_create_msg m nu dotu (MTflush t) = Inr (np_create_tflush m t)"
| "np_create_msg m nu dotu MRflush = Inr (np_create_rflush m)"
| "np_create_msg m nu dotu (MTwalk fid newfid ws) =
     Inr (np_create_twalk m fid newfid (word_of_nat (length ws)) (nth ws))"
| "np_create_msg m nu dotu (MRwalk qs) = Inr (np_create_rwalk m (int (length qs)) (nth qs))"
| "np_create_msg m nu dotu (MTopen fid mode) = Inr (np_create_topen m fid mode)"
| "np_create_msg m nu dotu (MRopen q iounit) = Inr (np_create_ropen m q iounit)"
| "np_create_msg m nu dotu (MTcreate fid name perm mode) = Inr (np_create_tcreate m fid name perm mode)"
| "np_create_msg m nu dotu (MRcreate q iounit) = Inr (np_create_rcreate m q iounit)"
| "np_create_msg m nu dotu (MTread fid off count) = Inr (np_create_tread m fid off count)"
| "np_create_msg m nu dotu (MRread data) =
     map_sum id Some (np_create_rread m (word_of_nat (length data)) data)"
| "np_create_msg m nu dotu (MTwrite fid off data) =
     Inr (np_create_twrite m fid off (word_of_nat (length data)) data)"
| "np_create_msg m nu dotu (MRwrite count) = Inr (np_create_rwrite m count)"
| "np_create_msg m nu dotu (MTclunk fid) = Inr (np_create_tclunk m fid)"
| "np_create_msg m nu dotu MRclunk = Inr (np_create_rclunk m)"
| "np_create_msg m nu dotu (MTremove fid) = Inr (np_create_tremove m fid)"
| "np_create_msg m nu dotu MRremove = Inr (np_create_rremove m)"
| "np_create_msg m nu dotu (MTstat fid) = Inr (np_create_tstat m fid)"
| "np_create_msg m nu dotu (MRstat w) = Inr (np_create_rstat m w dotu)"
| "np_create_msg m nu dotu (MTwstat fid w) = Inr (np_create_twstat m fid w dotu)"
| "np_create_msg m nu dotu MRwstat = Inr (np_create_rwstat m)"


section \<open>Constructors emit the encoding\<close>

text \<open>The header fields of the structure, which no payload statement changes.\<close>

definition head_fields :: "Npfcall \<Rightarrow> u32 \<times> u8 \<times> u16" where
  "head_fields fc = (fc_size fc, fc_type fc, fc_tag fc)"

definition keeps_head :: "(cbuf \<times> Npfcall \<Rightarrow> cbuf \<times> Npfcall) \<Rightarrow> bool" where
  "keeps_head f \<longleftrightarrow> (\<forall>s. head_fields (snd (f s)) = head_fields (snd s))"

lemma keeps_head_put:
  "(\<And>f x. head_fields (u8 f x) = head_fields x) \<Longrightarrow> keeps_head (put8 v8 u8)"
  "(\<And>f x. head_fields (u16 f x) = head_fields x) \<Longrightarrow> keeps_head (put16 v16 u16)"
  "(\<And>f x. head_fields (u32 f x) = head_fields x) \<Longrightarrow> keeps_head (put32 v32 u32)"
  "(\<And>f x. head_fields (u64 f x) = head_fields x) \<Longrightarrow> keeps_head (put64 v64 u64)"
  "(\<And>f x. head_fields (us f x) = head_fields x) \<Longrightarrow> keeps_head (putstr vs sel us)"
  by (auto simp: keeps_head_def put8_def put16_def put32_def put64_def putstr_def split: prod.splits)

lemma keeps_head_steps: "(\<And>f. f \<in> set fs \<Longrightarrow> keeps_head f) \<Longrightarrow> keeps_head (steps fs)"
proof (induction fs)
  case (Cons f fs)
  then have "keeps_head f" "keeps_head (steps fs)" by auto
  then show ?case by (simp add: keeps_head_def del: split_paired_All)
qed (simp add: keeps_head_def)

lemma keeps_head_qid:
  "(\<And>f x. head_fields (u f x) = head_fields x) \<Longrightarrow> keeps_head (buf_put_qid q u)"
  unfolding buf_put_qid_def by (rule keeps_head_steps) (auto intro!: keeps_head_put)

lemma keeps_head_wstat:
  "(\<And>f x. head_fields (u f x) = head_fields x) \<Longrightarrow> keeps_head (buf_put_wstat w sz dotu sel u)"
  unfolding buf_put_wstat_def
  by (rule keeps_head_steps) (auto intro!: keeps_head_put keeps_head_qid split: if_splits)

lemma keeps_head_alloc: "keeps_head (alloc_data n)"
  by (simp add: keeps_head_def alloc_data_def head_fields_def split: prod.splits)

lemma head_fields_update [simp]:
  "head_fields (fc_fid_update f2 x) = head_fields x" "head_fields (fc_msize_update f3 x) = head_fields x"
  "head_fields (fc_version_update f4 x) = head_fields x" "head_fields (fc_afid_update f5 x) = head_fields x"
  "head_fields (fc_uname_update f6 x) = head_fields x" "head_fields (fc_aname_update f7 x) = head_fields x"
  "head_fields (fc_qid_update f8 x) = head_fields x" "head_fields (fc_ename_update f9 x) = head_fields x"
  "head_fields (fc_oldtag_update f10 x) = head_fields x" "head_fields (fc_newfid_update f11 x) = head_fields x"
  "head_fields (fc_nwname_update f12 x) = head_fields x" "head_fields (wname_update i f13 x) = head_fields x"
  "head_fields (fc_nwqid_update f14 x) = head_fields x" "head_fields (wqid_update i f15 x) = head_fields x"
  "head_fields (fc_mode_update f16 x) = head_fields x" "head_fields (fc_iounit_update f17 x) = head_fields x"
  "head_fields (fc_name_update f18 x) = head_fields x" "head_fields (fc_perm_update f19 x) = head_fields x"
  "head_fields (fc_offset_update f20 x) = head_fields x" "head_fields (fc_count_update f21 x) = head_fields x"
  "head_fields (fc_stat_update f22 x) = head_fields x" "head_fields (fc_ecode_update f23 x) = head_fields x"
  "head_fields (fc_n_uname_update f24 x) = head_fields x" "head_fields (fc_data_update f25 x) = head_fields x"
  "head_fields (fc_extension_update f28 x) = head_fields x" "head_fields (nopval f26 x) = head_fields x" "head_fields (fc_pkt_update f27 x) = head_fields x"
  by (simp_all add: head_fields_def wname_update_def wqid_update_def nopval_def)

text \<open>\<open>emits\<close>: a constructor returned the encoding of \<open>msg\<close>, and its
  structure agrees with the packet's header.\<close>

definition emits :: "u32 \<Rightarrow> bool \<Rightarrow> npmsg \<Rightarrow> Npfcall option \<Rightarrow> bool" where
  "emits nu dotu msg r \<longleftrightarrow> (\<exists>fc. r = Some fc \<and> fc_pkt fc = wire nu dotu NOTAG msg \<and>
     head_fields fc = (word_of_nat (length (wire nu dotu NOTAG msg)), msg_type msg, NOTAG))"

lemma np_build_wire:
  assumes "typ = msg_type msg" and "sz = int (length (payload nu dotu msg))"
    and "sz + 7 < 2147483648"
    and body: "\<And>r x. length r = nat sz \<Longrightarrow> fst (steps body (cbuf_at 0 (hdr sz typ NOTAG) r [], x)) =
      cbuf_at 0 (hdr sz typ NOTAG @ payload nu dotu msg) [] []"
    and keeps: "\<And>f. f \<in> set body \<Longrightarrow> keeps_head f"
  shows "emits nu dotu msg (np_build (Some j) sz typ body)"
proof -
  obtain fc junk where j: "j = (fc, junk)" by (cases j)
  have sz0: "0 \<le> sz" using assms(2) by simp
  let ?fc = "fc\<lparr>fc_size := word_of_int (sz + 7), fc_type := typ, fc_tag := NOTAG\<rparr>"
  obtain r where r: "length r = nat sz" and c: "np_create_common (Some j) (word_of_int sz) typ =
      Some (cbuf_at 0 (hdr sz typ NOTAG) r [], ?fc)"
    using np_create_common_at [OF sz0 assms(3)] j by blast
  let ?s = "steps body (cbuf_at 0 (hdr sz typ NOTAG) r [], ?fc)"
  have h: "head_fields (snd ?s) = (word_of_int (sz + 7), typ, NOTAG)"
    using keeps_head_steps [OF keeps] by (simp add: keeps_head_def head_fields_def)
  have "word_of_int (sz + 7) = (word_of_nat (length (wire nu dotu NOTAG msg)) :: u32)"
    using assms(2) by (simp add: wire_def)
  then show ?thesis using body [OF r] h assms(1,2) unfolding np_build_def c
    by (simp add: np_post_check_def buf_check_overflow_def wire_def emits_def)
qed

lemma put_wnames_at:
  "sum_list (map (\<lambda>i. 2 + length (f i)) is) \<le> length r \<Longrightarrow>
   fst (steps (map (\<lambda>i. putstr (Some (f i)) (sel i) (upd i)) is) (cbuf_at s d r t, x)) =
   cbuf_at s (d @ concat (map (\<lambda>i. lestr (f i)) is)) (drop (sum_list (map (\<lambda>i. 2 + length (f i)) is)) r) t"
proof (induction "is" arbitrary: d r x)
  case (Cons i "is")
  obtain x' where x': "putstr (Some (f i)) (sel i) (upd i) (cbuf_at s d r t, x) =
      (cbuf_at s (d @ lestr (f i)) (drop (2 + length (f i)) r) t, x')"
    using Cons.prems fst_putstr [of "Some (f i)" "sel i" "upd i" "(cbuf_at s d r t, x)"]
    by (cases "putstr (Some (f i)) (sel i) (upd i) (cbuf_at s d r t, x)") (simp add: codec_simps)
  show ?case using Cons.prems by (simp only: list.map steps.simps x')
      (subst Cons.IH, simp_all add: add.commute add.left_commute)
qed simp

lemma put_wqids_at:
  "13 * length is \<le> length r \<Longrightarrow>
   fst (steps (map (\<lambda>i. buf_put_qid (f i) (upd i)) is) (cbuf_at s d r t, x)) =
   cbuf_at s (d @ concat (map (\<lambda>i. leqid (f i)) is)) (drop (13 * length is) r) t"
proof (induction "is" arbitrary: d r x)
  case (Cons i "is")
  obtain x' where x': "buf_put_qid (f i) (upd i) (cbuf_at s d r t, x) =
      (cbuf_at s (d @ leqid (f i)) (drop 13 r) t, x')"
    using Cons.prems fst_put_qid [of "f i" "upd i" "(cbuf_at s d r t, x)"]
    by (cases "buf_put_qid (f i) (upd i) (cbuf_at s d r t, x)") (simp add: codec_simps)
  show ?case using Cons.prems by (simp only: list.map steps.simps x')
      (subst Cons.IH, simp_all add: add.commute)
qed simp


lemmas keeps_head_intros = keeps_head_put keeps_head_qid keeps_head_wstat keeps_head_alloc

lemma int_length_stat_field: "int (length (stat_field w dotu)) = 4 + size_wstat (Some w) dotu"
  by (simp add: stat_field_def Let_def int_length_lestat)

lemma wf_stat_bound: "wf_wstat w \<Longrightarrow> size_wstat (Some w) dotu < 400000"
  by (simp add: wf_wstat_def wf_str_def size_wstat_def opt_strlen_cstr)

lemma length_lestat: "length (lestat w statsz dotu) = nat (2 + size_wstat (Some w) dotu)"
  using int_length_lestat [of w statsz dotu] by simp

lemma size_wstat_nonneg: "0 \<le> size_wstat (Some w) dotu"
  by (simp add: size_wstat_def opt_strlen_cstr)

lemma wf_stat_size:
  assumes "wf_wstat w"
  obtains k where "size_wstat (Some w) dotu = int k" and "k < 400000"
    and "\<And>sz. length (lestat w sz dotu) = k + 2"
proof -
  obtain k where k: "size_wstat (Some w) dotu = int k"
    using size_wstat_nonneg [of w dotu] by (metis nonneg_int_cases)
  moreover have "k < 400000"
    using wf_stat_bound [OF assms, of dotu] k by simp
  moreover have "length (lestat w sz dotu) = k + 2" for sz
    using int_length_lestat [of w sz dotu] k by simp
  ultimately show thesis by (rule that)
qed

lemma emit_rstat:
  assumes "wf_wstat w"
  shows "emits nu dotu (MRstat w) (np_create_rstat (Some j) w dotu)"
proof (rule wf_stat_size [OF assms, of dotu])
  fix k assume k: "size_wstat (Some w) dotu = int k" "k < 400000"
    "\<And>sz. length (lestat w sz dotu) = k + 2"
  show ?thesis
    unfolding np_create_rstat_def Let_def k(1)
  proof (rule np_build_wire)
    fix r :: "u8 list" and x :: Npfcall
    assume r: "length r = nat (2 + 2 + int k)"
    then show "fst (steps [put16 (word_of_int (int k + 2)) nopval,
        buf_put_wstat w (int k) dotu fc_stat fc_stat_update]
        (cbuf_at 0 (hdr (2 + 2 + int k) Rstat NOTAG) r [], x)) =
      cbuf_at 0 (hdr (2 + 2 + int k) Rstat NOTAG @ payload nu dotu (MRstat w)) [] []"
      by (simp add: codec_simps k stat_field_def Let_def del: of_int_add)
  next
    show "2 + 2 + int k = int (length (payload nu dotu (MRstat w)))"
      using k by (simp add: stat_field_def)
  qed (use k(2) in \<open>auto intro!: keeps_head_intros\<close>)
qed

lemma emit_twstat:
  assumes "wf_wstat w"
  shows "emits nu dotu (MTwstat fid w) (np_create_twstat (Some j) fid w dotu)"
proof (rule wf_stat_size [OF assms, of dotu])
  fix k assume k: "size_wstat (Some w) dotu = int k" "k < 400000"
    "\<And>sz. length (lestat w sz dotu) = k + 2"
  show ?thesis
    unfolding np_create_twstat_def Let_def k(1)
  proof (rule np_build_wire)
    fix r :: "u8 list" and x :: Npfcall
    assume r: "length r = nat (4 + 2 + 2 + int k)"
    then show "fst (steps [put32 fid fc_fid_update, put16 (word_of_int (int k + 2)) nopval,
        buf_put_wstat w (int k) dotu fc_stat fc_stat_update]
        (cbuf_at 0 (hdr (4 + 2 + 2 + int k) Twstat NOTAG) r [], x)) =
      cbuf_at 0 (hdr (4 + 2 + 2 + int k) Twstat NOTAG @ payload nu dotu (MTwstat fid w)) [] []"
      by (simp add: codec_simps k stat_field_def Let_def del: of_int_add)
  next
    show "4 + 2 + 2 + int k = int (length (payload nu dotu (MTwstat fid w)))"
      using k by (simp add: stat_field_def)
  qed (use k(2) in \<open>auto intro!: keeps_head_intros\<close>)
qed

lemma length_concat_lestr: "length (concat (map lestr ws)) = 2 * length ws + sum_list (map length ws)"
  by (induction ws) auto

lemma map_upt_nth: "map (\<lambda>i. f (ws ! i)) [0..<length ws] = map f ws"
  by (rule nth_equalityI) auto

lemma wf_strs_bound:
  assumes "length ws \<le> MAXWELEM" "list_all wf_str ws"
  shows "sum_list (map length ws) \<le> 1048560"
proof -
  have "sum_list (map length ws) \<le> sum_list (map (\<lambda>_. 65535) ws)"
    using assms(2) by (intro sum_list_mono) (auto simp: list_all_iff wf_str_def)
  also have "\<dots> \<le> 65535 * 16"
    using assms(1) by (simp add: sum_list_triv MAXWELEM_def)
  finally show ?thesis by simp
qed

lemma put_wname_list_at:
  assumes "length r = 2 * length ws + sum_list (map length ws)"
  shows "fst (steps (map (\<lambda>i. putstr (Some (ws ! i)) (sel i) (upd i)) [0..<length ws]) (cbuf_at s d r t, x)) =
    cbuf_at s (d @ concat (map lestr ws)) [] t"
proof -
  have "sum_list (map (\<lambda>i. 2 + length (ws ! i)) [0..<length ws]) = length r"
    unfolding map_upt_nth [of "\<lambda>w. 2 + length w"] assms by (induction ws) auto
  then show ?thesis
    by (subst put_wnames_at) (simp_all add: map_upt_nth [of lestr])
qed

lemma put_wqid_list_at:
  assumes "length r = 13 * length qs"
  shows "fst (steps (map (\<lambda>i. buf_put_qid (qs ! i) (upd i)) [0..<length qs]) (cbuf_at s d r t, x)) =
    cbuf_at s (d @ concat (map leqid qs)) [] t"
  using assms by (subst put_wqids_at) (simp_all add: map_upt_nth [of leqid])

lemma emit_twalk:
  assumes "length ws \<le> MAXWELEM" "list_all wf_str ws"
  shows "emits nu dotu (MTwalk fid newfid ws)
    (np_create_twalk (Some j) fid newfid (word_of_nat (length ws)) (nth ws))"
proof -
  have n: "unat (word_of_nat (length ws) :: u16) = length ws"
    using assms(1) by (simp add: MAXWELEM_def)
  have sum: "(\<Sum>i\<leftarrow>[0..<length ws]. int (length (ws ! i))) = int (sum_list (map length ws))"
    unfolding map_upt_nth [of "\<lambda>w. int (length w)"] by (induction ws) auto
  have pos: "\<not> length ws > MAXWELEM" using assms(1) by simp
  show ?thesis
    unfolding np_create_twalk_def n sum if_not_P [OF pos]
  proof (rule np_build_wire)
    show "4 + 4 + 2 + int (length ws) * 2 + int (sum_list (map length ws)) =
        int (length (payload nu dotu (MTwalk fid newfid ws)))"
      by (simp add: length_concat_lestr)
    show "4 + 4 + 2 + int (length ws) * 2 + int (sum_list (map length ws)) + 7 < 2147483648"
      using wf_strs_bound [OF assms] assms(1) by (simp add: MAXWELEM_def)
  next
    fix r :: "u8 list" and x :: Npfcall
    let ?sz = "4 + 4 + 2 + int (length ws) * 2 + int (sum_list (map length ws))"
    assume "length r = nat ?sz"
    then have r: "length r = 10 + (2 * length ws + sum_list (map length ws))" by simp
    then show "fst (steps ([put32 fid fc_fid_update, put32 newfid fc_newfid_update,
          put16 (word_of_nat (length ws)) fc_nwname_update] @
        map (\<lambda>i. putstr (Some (ws ! i)) (\<lambda>fc. fc_wnames fc i) (wname_update i)) [0..<length ws])
        (cbuf_at 0 (hdr ?sz Twalk NOTAG) r [], x)) =
        cbuf_at 0 (hdr ?sz Twalk NOTAG @ payload nu dotu (MTwalk fid newfid ws)) [] []"
      by (simp add: steps_append put_at put_wname_list_at)
  qed (auto intro!: keeps_head_intros)
qed

lemma emit_rwalk:
  assumes "length qs \<le> MAXWELEM"
  shows "emits nu dotu (MRwalk qs) (np_create_rwalk (Some j) (int (length qs)) (nth qs))"
proof -
  have len: "length (concat (map leqid qs)) = 13 * length qs" by (induction qs) auto
  have pos: "\<not> int (length qs) > int MAXWELEM" using assms by simp
  show ?thesis
    unfolding np_create_rwalk_def if_not_P [OF pos] nat_int
  proof (rule np_build_wire)
    fix r :: "u8 list" and x :: Npfcall
    let ?sz = "2 + int (length qs) * 13"
    assume "length r = nat ?sz"
    then have r: "length r = 2 + 13 * length qs" by simp
    then show "fst (steps ([put16 (word_of_int (int (length qs))) fc_nwqid_update] @
        map (\<lambda>i. buf_put_qid (qs ! i) (wqid_update i)) [0..<length qs])
        (cbuf_at 0 (hdr ?sz Rwalk NOTAG) r [], x)) =
        cbuf_at 0 (hdr ?sz Rwalk NOTAG @ payload nu dotu (MRwalk qs)) [] []"
      by (simp add: steps_append put_at put_wqid_list_at)
  qed (use assms in \<open>auto simp: len MAXWELEM_def intro!: keeps_head_intros\<close>)
qed

section \<open>Messages that carry data\<close>

lemma sint_len: "n < 2147483648 \<Longrightarrow> sint (word_of_nat n :: u32) = int n"
  by (rule sint_of_nat_u32)

lemma uint_len32: "n < 4294967296 \<Longrightarrow> uint (word_of_nat n :: u32) = int n"
  by (simp add: unsigned_of_nat take_bit_eq_mod)

lemma alloc_data_at:
  assumes "n < 2147483648" "n \<le> length r"
  shows "alloc_data (word_of_nat n) (cbuf_at s d r t, x) =
    (cbuf_at s (d @ take n r) (drop n r) t, x\<lparr>fc_data := Some (int (length d))\<rparr>)"
  using assms by (simp add: alloc_data_def sint_len buf_alloc_at)

lemma np_alloc_rread_at:
  assumes "n + 11 < 2147483648"
  shows "\<exists>fc rest. np_alloc_rread (Some j) (word_of_nat n) = Some fc \<and> length rest = n \<and>
    fc_pkt fc = hdr (int n + 4) Rread NOTAG @ le32 (word_of_nat n) @ rest \<and>
    fc_data fc = Some 11 \<and> fc_count fc = word_of_nat n \<and>
    head_fields fc = (word_of_nat (n + 11), Rread, NOTAG)"
proof -
  obtain fc junk where j: "j = (fc, junk)" by (cases j)
  have u: "4 + uint (word_of_nat n :: u32) = int n + 4" using assms by (simp add: uint_len32)
  have w: "word_of_int (int n + 4 + 7) = (word_of_nat (n + 11) :: u32)" by simp
  obtain r where r: "length r = nat (int n + 4)" and c:
    "np_create_common (Some j) (word_of_int (int n + 4)) Rread =
      Some (cbuf_at 0 (hdr (int n + 4) Rread NOTAG) r [],
        fc\<lparr>fc_size := word_of_int (int n + 4 + 7), fc_type := Rread, fc_tag := NOTAG\<rparr>)"
    using np_create_common_at [of "int n + 4" fc junk Rread] assms j by auto
  have "length r = n + 4" using r by (simp add: nat_add_distrib)
  then show ?thesis
    using assms unfolding np_alloc_rread_def np_build_def u c
    by (intro exI [of _ "drop 4 r"] exI)
      (auto simp: put_at alloc_data_at np_post_check_def buf_check_overflow_def head_fields_def)
qed

lemma emit_rread:
  assumes "length data + 11 < 2147483648"
  shows "\<exists>fc. np_create_rread (Some j) (word_of_nat (length data)) data = Inr fc \<and>
    emits nu dotu (MRread data) (Some fc)"
proof -
  let ?n = "length data"
  obtain fc rest where fc: "np_alloc_rread (Some j) (word_of_nat ?n) = Some fc" "length rest = ?n"
    "fc_pkt fc = hdr (int ?n + 4) Rread NOTAG @ le32 (word_of_nat ?n) @ rest"
    "fc_data fc = Some 11" "head_fields fc = (word_of_nat (?n + 11), Rread, NOTAG)"
    using np_alloc_rread_at [OF assms] by blast
  have "np_create_rread (Some j) (word_of_nat ?n) data = Inr (fc\<lparr>fc_pkt :=
      hdr (int ?n + 4) Rread NOTAG @ le32 (word_of_nat ?n) @ data\<rparr>)"
    using fc assms by (simp add: np_create_rread_def uint_len32)
  then show ?thesis using fc(5)
    by (simp add: emits_def wire_def head_fields_def add.commute)
qed

lemma keeps_head_buf: "keeps_head (\<lambda>(b, fc). (g b fc, fc))"
  by (simp add: keeps_head_def)

lemma emit_twrite:
  assumes "length data + 23 < 2147483648"
  shows "emits nu dotu (MTwrite fid off data)
    (np_create_twrite (Some j) fid off (word_of_nat (length data)) data)"
proof -
  let ?n = "length data"
  have u: "4 + 8 + 4 + uint (word_of_nat ?n :: u32) = int ?n + 16" using assms by (simp add: uint_len32)
  have copy: "mem_write (int (length d)) data (cbuf_at s (d @ us) [] t) = cbuf_at s (d @ data) [] t"
    if "length us = ?n" for s d us t
    using that by (intro mem_write_done) simp
  show ?thesis
    unfolding np_create_twrite_def u
  proof (rule np_build_wire)
    fix r :: "u8 list" and x :: Npfcall
    let ?h = "hdr (int ?n + 16) Twrite NOTAG"
    assume "length r = nat (int ?n + 16)"
    then have r: "length r = ?n + 16" by (simp add: nat_add_distrib)
    then show "fst (steps [put32 fid fc_fid_update, put64 off fc_offset_update,
        put32 (word_of_nat ?n) fc_count_update, alloc_data (word_of_nat ?n),
        \<lambda>(b, fc). (case fc_data fc of
             None \<Rightarrow> b
           | Some i \<Rightarrow> if length data < unat (word_of_nat ?n :: u32) then b\<lparr>cb_oob := True\<rparr>
                       else mem_write i (take (unat (word_of_nat ?n :: u32)) data) b, fc)]
        (cbuf_at 0 ?h r [], x)) = cbuf_at 0 (?h @ payload nu dotu (MTwrite fid off data)) [] []"
      using assms copy [of "drop 16 r" "?h @ le32 fid @ le64 off @ le32 (word_of_nat ?n)" 0 "[]"]
      by (simp add: put_at alloc_data_at)
  qed (use assms in \<open>auto intro!: keeps_head_intros keeps_head_buf\<close>)
qed

text \<open>At the end of the buffer a put is dropped without a trace.\<close>

lemma w32_full: "w32 v (cbuf_at s d [] t) = cbuf_at s d [] t"
  by (simp add: w32_def buf_put_int32_def buf_check_size_def)

lemmas plain_create_defs = np_create_tversion_def np_create_rversion_def np_create_tauth_def
  np_create_rauth_def np_create_tattach_def np_create_rattach_def np_create_rerror_def
  np_create_tflush_def np_create_rflush_def np_create_topen_def np_create_ropen_def
  np_create_tcreate_def np_create_rcreate_def np_create_tread_def np_create_rwrite_def
  np_create_tclunk_def np_create_rclunk_def np_create_tremove_def np_create_rremove_def
  np_create_tstat_def np_create_rwstat_def

lemma emit_fixed:
  "emits nu dotu (MRauth q) (np_create_rauth (Some j) q)"
  "emits nu dotu (MRattach q) (np_create_rattach (Some j) q)"
  "emits nu dotu (MTflush t) (np_create_tflush (Some j) t)"
  "emits nu dotu MRflush (np_create_rflush (Some j))"
  "emits nu dotu (MTopen fid mode) (np_create_topen (Some j) fid mode)"
  "emits nu dotu (MRopen q iounit) (np_create_ropen (Some j) q iounit)"
  "emits nu dotu (MRcreate q iounit) (np_create_rcreate (Some j) q iounit)"
  "emits nu dotu (MTread fid off count) (np_create_tread (Some j) fid off count)"
  "emits nu dotu (MRwrite count) (np_create_rwrite (Some j) count)"
  "emits nu dotu (MTclunk fid) (np_create_tclunk (Some j) fid)"
  "emits nu dotu MRclunk (np_create_rclunk (Some j))"
  "emits nu dotu (MTremove fid) (np_create_tremove (Some j) fid)"
  "emits nu dotu MRremove (np_create_rremove (Some j))"
  "emits nu dotu (MTstat fid) (np_create_tstat (Some j) fid)"
  "emits nu dotu MRwstat (np_create_rwstat (Some j))"
  unfolding plain_create_defs
  by (rule np_build_wire; auto simp: codec_simps intro!: keeps_head_intros)+

lemma emit_strings:
  "wf_str v \<Longrightarrow> emits nu dotu (MTversion msize v) (np_create_tversion (Some j) msize v)"
  "wf_str v \<Longrightarrow> emits nu dotu (MRversion msize v) (np_create_rversion (Some j) msize v)"
  "wf_str v \<Longrightarrow> emits nu dotu (MRerror v c) (np_create_rerror (Some j) v c dotu)"
  "wf_str v \<Longrightarrow> emits nu dotu (MTcreate fid v perm mode) (np_create_tcreate (Some j) fid v perm mode)"
  "wf_str (opt_cstr u) \<Longrightarrow> wf_str (opt_cstr a) \<Longrightarrow>
     emits nu dotu (MTauth afid u a) (np_create_tauth (Some j) afid u a nu dotu)"
  "wf_str (opt_cstr u) \<Longrightarrow> wf_str (opt_cstr a) \<Longrightarrow>
     emits nu dotu (MTattach fid afid u a) (np_create_tattach (Some j) fid afid u a nu dotu)"
  unfolding plain_create_defs wf_str_def
  by (rule np_build_wire; auto simp: codec_simps opt_strlen_cstr w32_full intro!: keeps_head_intros)+

lemma np_create_emits_lem:
  assumes "wf_msg msg"
  shows "\<exists>r. np_create_msg (Some j) nu dotu msg = Inr r \<and> emits nu dotu msg r"
  using assms emit_rread [of "case msg of MRread data \<Rightarrow> data" j nu dotu]
  by (cases msg) (auto simp: emit_fixed emit_strings emit_rstat emit_twstat emit_twalk emit_rwalk
      emit_twrite)

section \<open>What a server reads out of a parsed message\<close>

definition data_bytes :: "u8 list \<Rightarrow> int option \<Rightarrow> u32 \<Rightarrow> u8 list option" where
  "data_bytes pkt p count =
     (case p of
        None \<Rightarrow> if count = 0 then Some [] else None
      | Some i \<Rightarrow> if 0 \<le> i \<and> i + uint count \<le> int (length pkt)
                  then Some (take (unat count) (drop (nat i) pkt)) else None)"

fun opt_list :: "'a option list \<Rightarrow> 'a list option" where
  "opt_list [] = Some []"
| "opt_list (None # _) = None"
| "opt_list (Some x # xs) = map_option ((#) x) (opt_list xs)"

definition stat_view :: "bool \<Rightarrow> u8 list \<Rightarrow> Npstat \<Rightarrow> Npwstat option" where
  "stat_view dotu pkt st = do {
     n \<leftarrow> npstr_bytes pkt (st_name st);
     u \<leftarrow> npstr_bytes pkt (st_uid st);
     g \<leftarrow> npstr_bytes pkt (st_gid st);
     m \<leftarrow> npstr_bytes pkt (st_muid st);
     e \<leftarrow> (if dotu then map_option Some (npstr_bytes pkt (st_extension st)) else Some None);
     Some \<lparr>ws_size = st_size st, ws_type = st_type st, ws_dev = st_dev st, ws_qid = st_qid st,
       ws_mode = st_mode st, ws_atime = st_atime st, ws_mtime = st_mtime st, ws_length = st_length st,
       ws_name = Some n, ws_uid = Some u, ws_gid = Some g, ws_muid = Some m, ws_extension = e,
       ws_n_uid = (if dotu then st_n_uid st else 0), ws_n_gid = (if dotu then st_n_gid st else 0),
       ws_n_muid = (if dotu then st_n_muid st else 0)\<rparr> }"

definition np_view :: "bool \<Rightarrow> u8 list \<Rightarrow> Npfcall \<Rightarrow> npmsg option" where
  "np_view dotu pkt fc =
     (let t = fc_type fc in
      if t = Tversion then map_option (MTversion (fc_msize fc)) (npstr_bytes pkt (fc_version fc))
      else if t = Rversion then map_option (MRversion (fc_msize fc)) (npstr_bytes pkt (fc_version fc))
      else if t = Tauth then do {
        u \<leftarrow> npstr_bytes pkt (fc_uname fc); a \<leftarrow> npstr_bytes pkt (fc_aname fc);
        Some (MTauth (fc_afid fc) (Some u) (Some a)) }
      else if t = Rauth then Some (MRauth (fc_qid fc))
      else if t = Tattach then do {
        u \<leftarrow> npstr_bytes pkt (fc_uname fc); a \<leftarrow> npstr_bytes pkt (fc_aname fc);
        Some (MTattach (fc_fid fc) (fc_afid fc) (Some u) (Some a)) }
      else if t = Rattach then Some (MRattach (fc_qid fc))
      else if t = Rerror then map_option (\<lambda>e. MRerror e (fc_ecode fc)) (npstr_bytes pkt (fc_ename fc))
      else if t = Tflush then Some (MTflush (fc_oldtag fc))
      else if t = Rflush then Some MRflush
      else if t = Twalk then
        map_option (MTwalk (fc_fid fc) (fc_newfid fc))
          (opt_list (map (\<lambda>i. npstr_bytes pkt (fc_wnames fc i)) [0..<unat (fc_nwname fc)]))
      else if t = Rwalk then Some (MRwalk (map (fc_wqids fc) [0..<unat (fc_nwqid fc)]))
      else if t = Topen then Some (MTopen (fc_fid fc) (fc_mode fc))
      else if t = Ropen then Some (MRopen (fc_qid fc) (fc_iounit fc))
      else if t = Tcreate then
        map_option (\<lambda>n. MTcreate (fc_fid fc) n (fc_perm fc) (fc_mode fc)) (npstr_bytes pkt (fc_name fc))
      else if t = Rcreate then Some (MRcreate (fc_qid fc) (fc_iounit fc))
      else if t = Tread then Some (MTread (fc_fid fc) (fc_offset fc) (fc_count fc))
      else if t = Rread then map_option MRread (data_bytes pkt (fc_data fc) (fc_count fc))
      else if t = Twrite then
        map_option (MTwrite (fc_fid fc) (fc_offset fc)) (data_bytes pkt (fc_data fc) (fc_count fc))
      else if t = Rwrite then Some (MRwrite (fc_count fc))
      else if t = Tclunk then Some (MTclunk (fc_fid fc))
      else if t = Rclunk then Some MRclunk
      else if t = Tremove then Some (MTremove (fc_fid fc))
      else if t = Rremove then Some MRremove
      else if t = Tstat then Some (MTstat (fc_fid fc))
      else if t = Rstat then map_option MRstat (stat_view dotu pkt (fc_stat fc))
      else if t = Twstat then map_option (MTwstat (fc_fid fc)) (stat_view dotu pkt (fc_stat fc))
      else if t = Rwstat then Some MRwstat
      else None)"

text \<open>
  What the wire does not carry: a NULL string arrives as an empty one, and without 9P2000.u
  the error code and the numeric identities are not sent. The stat's own size is the one
  \<^verbatim>\<open>size_wstat\<close> computed.
\<close>

definition norm_stat :: "bool \<Rightarrow> Npwstat \<Rightarrow> Npwstat" where
  "norm_stat dotu w = w\<lparr>ws_size := word_of_int (size_wstat (Some w) dotu),
     ws_name := Some (opt_cstr (ws_name w)), ws_uid := Some (opt_cstr (ws_uid w)),
     ws_gid := Some (opt_cstr (ws_gid w)), ws_muid := Some (opt_cstr (ws_muid w)),
     ws_extension := (if dotu then Some (opt_cstr (ws_extension w)) else None),
     ws_n_uid := (if dotu then ws_n_uid w else 0), ws_n_gid := (if dotu then ws_n_gid w else 0),
     ws_n_muid := (if dotu then ws_n_muid w else 0)\<rparr>"

fun norm_msg :: "bool \<Rightarrow> npmsg \<Rightarrow> npmsg" where
  "norm_msg dotu (MTauth afid u a) = MTauth afid (Some (opt_cstr u)) (Some (opt_cstr a))"
| "norm_msg dotu (MTattach fid afid u a) = MTattach fid afid (Some (opt_cstr u)) (Some (opt_cstr a))"
| "norm_msg dotu (MRerror e c) = MRerror e (if dotu then c else 0)"
| "norm_msg dotu (MRstat w) = MRstat (norm_stat dotu w)"
| "norm_msg dotu (MTwstat fid w) = MTwstat fid (norm_stat dotu w)"
| "norm_msg dotu m = m"

section \<open>The parser reads the encoding back\<close>

lemma buf_init_at2:
  "n = int (length r) \<Longrightarrow> i = int (length d) \<Longrightarrow> buf_init (d @ r @ t) i n False = cbuf_at i d r t"
  by (simp add: buf_init_def cbuf_at_def)

lemma start_at:
  assumes "length pl + 7 < 2147483648"
  shows "np_deserialize_start fc (hdr (int (length pl)) typ tag @ pl @ rest) =
    (cbuf_at 4 (hdr (int (length pl)) typ tag) pl rest,
     fc\<lparr>fc_size := word_of_nat (length pl + 7), fc_type := typ, fc_tag := tag,
        fc_newfid := NOFID, fc_afid := NOFID, fc_fid := NOFID\<rparr>)"
proof -
  let ?sz = "word_of_nat (length pl + 7) :: u32"
  have h: "hdr (int (length pl)) typ tag = le32 ?sz @ le8 typ @ le16 tag"
    by (simp add: hdr_def)
  have b1: "buf_init (le32 ?sz @ le8 typ @ le16 tag @ pl @ rest) 0 4 False =
      cbuf_at 0 [] (le32 ?sz @ []) (le8 typ @ le16 tag @ pl @ rest)"
    by (simp add: buf_init_def cbuf_at_def)
  have sz: "sint (?sz - 4) = int (length pl + 3)"
  proof -
    have "?sz - 4 = word_of_nat (length pl + 3)" by simp
    then show ?thesis using assms sint_len [of "length pl + 3"] by (simp add: add.commute)
  qed
  have b2: "buf_init (le32 ?sz @ le8 typ @ le16 tag @ pl @ rest) 4 (int (length pl + 3)) False =
      cbuf_at 4 (le32 ?sz) (le8 typ @ le16 tag @ pl) rest"
    using buf_init_at2 [of "int (length pl + 3)" "le8 typ @ le16 tag @ pl" 4 "le32 ?sz" rest] by simp
  show ?thesis
    by (simp add: np_deserialize_start_def h b1 codec_simps Let_def b2 sz
        del: of_nat_add append_Nil2 of_nat_Suc)
qed

lemma npstr_bytes_seg:
  assumes "wf_str cs" "take (2 + length cs) (drop (length d) pkt) = lestr cs"
  shows "npstr_bytes pkt (npstr_at d cs) = Some cs"
proof -
  have l: "2 + length cs \<le> length pkt - length d"
    using arg_cong [OF assms(2), of length] by simp
  have "take (length cs) (drop 2 (take (2 + length cs) (drop (length d) pkt))) = cs"
    using assms(2) by (simp add: lestr_def)
  then have "take (length cs) (drop (length d + 2) pkt) = cs"
    by (simp add: drop_take add.commute)
  then show ?thesis using l assms(1)
    by (simp add: npstr_bytes_def npstr_at_def wf_str_def nat_add_distrib Let_def)
qed

definition parses :: "u32 \<Rightarrow> bool \<Rightarrow> u16 \<Rightarrow> npmsg \<Rightarrow> u8 list \<Rightarrow> Npfcall \<Rightarrow> bool" where
  "parses nu dotu tag msg rest fc0 \<longleftrightarrow>
    (\<exists>fc. np_deserialize fc0 (wire nu dotu tag msg @ rest) dotu = (Some fc, False) \<and>
      np_view dotu (wire nu dotu tag msg @ rest) fc = Some (norm_msg dotu msg) \<and>
      head_fields fc = (word_of_nat (length (wire nu dotu tag msg)), msg_type msg, tag))"

lemma overflow_at [simp]: "buf_check_overflow (cbuf_at s d r t) = False"
  by (simp add: buf_check_overflow_def)

lemma parsesI:
  assumes len: "length (payload nu dotu msg) + 7 < 2147483648"
    and body: "\<And>x h. fc_type x = msg_type msg \<Longrightarrow> length h = 7 \<Longrightarrow>
      (case np_deserialize_body dotu (cbuf_at 4 h (payload nu dotu msg) rest, x) of
         None \<Rightarrow> False
       | Some (b, y) \<Rightarrow> \<not> buf_check_overflow b \<and> \<not> cb_oob b \<and> head_fields y = head_fields x \<and>
           np_view dotu (h @ payload nu dotu msg @ rest) y = Some (norm_msg dotu msg))"
  shows "parses nu dotu tag msg rest fc0"
proof -
  let ?n = "length (payload nu dotu msg)" let ?h = "hdr (int ?n) (msg_type msg) tag"
  let ?x = "fc0\<lparr>fc_size := word_of_nat (?n + 7), fc_type := msg_type msg, fc_tag := tag,
        fc_newfid := NOFID, fc_afid := NOFID, fc_fid := NOFID\<rparr>"
  obtain b y where y: "np_deserialize_body dotu (cbuf_at 4 ?h (payload nu dotu msg) rest, ?x) = Some (b, y)"
    "\<not> buf_check_overflow b" "\<not> cb_oob b" "head_fields y = head_fields ?x"
    "np_view dotu (wire nu dotu tag msg @ rest) y = Some (norm_msg dotu msg)"
    using body [of ?x ?h] by (auto simp: wire_def split: option.splits)
  have "uint (word_of_nat (?n + 7) :: u32) \<noteq> 0"
    using len by (subst uint_len32) auto
  then have "fc_size y \<noteq> 0" using y(4) by (auto simp: head_fields_def)
  then have "np_deserialize fc0 (wire nu dotu tag msg @ rest) dotu = (Some y, False)"
    using y(1-3) by (simp add: np_deserialize_def wire_def start_at [OF len])
  then show ?thesis using y(4,5) by (auto simp: parses_def wire_def head_fields_def add.commute)
qed

text \<open>Behind the last byte a string is read as empty, and no overflow is noticed.\<close>

lemma getstr_full: "getstr upd (cbuf_at s d [] t, x) =
    (cbuf_at s d [] t, upd (\<lambda>_. \<lparr>str_len = 0, str_ptr = Some (int (length d))\<rparr>) x)"
  using buf_alloc_at [of 0 "[]" s d t]
  by (simp add: getstr_def buf_get_str_def buf_get_int16_def buf_check_size_def)

lemmas parse_simps = np_deserialize_body_def Let_def msg_type_defs codec_simps getstr_full wf_str_def
  np_view_def npstr_bytes_seg


lemma parse_fixed:
  "parses nu dotu tag (MRauth q) rest fc0" "parses nu dotu tag (MRattach q) rest fc0"
  "parses nu dotu tag (MTflush t) rest fc0" "parses nu dotu tag MRflush rest fc0"
  "parses nu dotu tag (MTopen fid mode) rest fc0" "parses nu dotu tag (MRopen q iounit) rest fc0"
  "parses nu dotu tag (MRcreate q iounit) rest fc0" "parses nu dotu tag (MTread fid off count) rest fc0"
  "parses nu dotu tag (MRwrite count) rest fc0" "parses nu dotu tag (MTclunk fid) rest fc0"
  "parses nu dotu tag MRclunk rest fc0" "parses nu dotu tag (MTremove fid) rest fc0"
  "parses nu dotu tag MRremove rest fc0" "parses nu dotu tag (MTstat fid) rest fc0"
  "parses nu dotu tag MRwstat rest fc0"
  by (rule parsesI; simp add: parse_simps)+

lemma parse_strings:
  "wf_str v \<Longrightarrow> parses nu dotu tag (MTversion msize v) rest fc0"
  "wf_str v \<Longrightarrow> parses nu dotu tag (MRversion msize v) rest fc0"
  "wf_str v \<Longrightarrow> parses nu dotu tag (MRerror v c) rest fc0"
  "wf_str v \<Longrightarrow> parses nu dotu tag (MTcreate fid v perm mode) rest fc0"
  "wf_str (opt_cstr u) \<Longrightarrow> wf_str (opt_cstr a) \<Longrightarrow> parses nu dotu tag (MTauth afid u a) rest fc0"
  "wf_str (opt_cstr u) \<Longrightarrow> wf_str (opt_cstr a) \<Longrightarrow> parses nu dotu tag (MTattach fid afid u a) rest fc0"
  by (rule parsesI; simp add: parse_simps)+

lemma get_data_at:
  assumes "fc_count x = word_of_nat (length data)" "length data < 2147483648"
  shows "get_data (cbuf_at s d data t, x) =
    (cbuf_at s (d @ data) [] t, x\<lparr>fc_data := Some (int (length d))\<rparr>)"
  using assms by (simp add: get_data_def alloc_data_at)

lemma data_bytes_seg:
  assumes "length data < 2147483648" "0 \<le> i" "nat i \<le> length pkt"
    and "take (length data) (drop (nat i) pkt) = data"
  shows "data_bytes pkt (Some i) (word_of_nat (length data)) = Some data"
proof -
  have "length data \<le> length pkt - nat i"
    using arg_cong [OF assms(4), of length] by simp
  then have "i + int (length data) \<le> int (length pkt)"
    using assms(2,3) by linarith
  then show ?thesis using assms by (simp add: data_bytes_def uint_len32)
qed

lemma parse_data:
  "length data + 11 < 2147483648 \<Longrightarrow> parses nu dotu tag (MRread data) rest fc0"
  "length data + 23 < 2147483648 \<Longrightarrow> parses nu dotu tag (MTwrite fid off data) rest fc0"
  by (rule parsesI; simp add: parse_simps get_data_at data_bytes_seg)+

text \<open>Array fields: the elements not stored yet are those of the structure before.\<close>

lemma get_wnames_at:
  assumes "list_all wf_str ws"
  shows "\<exists>y. steps (map (\<lambda>i. getstr (wname_update i)) [k..<k + length ws])
      (cbuf_at s d (concat (map lestr ws)) t, x) = (cbuf_at s (d @ concat (map lestr ws)) [] t, y) \<and>
    head_fields y = head_fields x \<and>
    y = x\<lparr>fc_wnames := fc_wnames y\<rparr> \<and> (\<forall>i < k. fc_wnames y i = fc_wnames x i) \<and>
    (\<forall>i < length ws. fc_wnames y (k + i) = npstr_at (d @ concat (map lestr (take i ws))) (ws ! i))"
  using assms
proof (induction ws arbitrary: k d x)
  case (Cons w ws)
  let ?x = "wname_update k (\<lambda>_. npstr_at d w) x"
  from Cons.prems have w: "length w < 65536" and ws: "list_all wf_str ws"
    by (simp_all add: wf_str_def [of w])
  obtain y where y: "steps (map (\<lambda>i. getstr (wname_update i)) [Suc k..<Suc k + length ws])
      (cbuf_at s (d @ lestr w) (concat (map lestr ws)) t, ?x) =
      (cbuf_at s ((d @ lestr w) @ concat (map lestr ws)) [] t, y)" "head_fields y = head_fields ?x"
    "y = ?x\<lparr>fc_wnames := fc_wnames y\<rparr>" "\<forall>i < Suc k. fc_wnames y i = fc_wnames ?x i"
    "\<forall>i < length ws. fc_wnames y (Suc k + i) = npstr_at ((d @ lestr w) @ concat (map lestr (take i ws))) (ws ! i)"
    using Cons.IH [OF ws, of "Suc k" "d @ lestr w" ?x] by blast
  have up: "[k..<k + length (w # ws)] = k # [Suc k..<Suc k + length ws]"
    by (subst upt_conv_Cons) auto
  have "steps (map (\<lambda>i. getstr (wname_update i)) [k..<k + length (w # ws)])
      (cbuf_at s d (concat (map lestr (w # ws))) t, x) = (cbuf_at s (d @ concat (map lestr (w # ws))) [] t, y)"
    unfolding up using y(1) w by (simp add: codec_simps)
  moreover have "head_fields y = head_fields x" using y(2) by simp
  moreover have "y = x\<lparr>fc_wnames := fc_wnames y\<rparr>"
    using y(3) by (simp add: wname_update_def)
  moreover have "fc_wnames y i = fc_wnames x i" if "i < k" for i
    using that y(4) by (simp add: wname_update_def)
  moreover have "fc_wnames y (k + i) = npstr_at (d @ concat (map lestr (take i (w # ws)))) ((w # ws) ! i)"
    if "i < length (w # ws)" for i
    using that y(4,5) by (cases i) (auto simp: wname_update_def)
  ultimately show ?case by blast
qed simp

lemma get_wqids_at:
  "\<exists>y. steps (map (\<lambda>i. buf_get_qid (wqid_update i)) [k..<k + length qs])
      (cbuf_at s d (concat (map leqid qs)) t, x) = (cbuf_at s (d @ concat (map leqid qs)) [] t, y) \<and>
    head_fields y = head_fields x \<and>
    y = x\<lparr>fc_wqids := fc_wqids y\<rparr> \<and> (\<forall>i < k. fc_wqids y i = fc_wqids x i) \<and>
    (\<forall>i < length qs. fc_wqids y (k + i) = qs ! i)"
proof (induction qs arbitrary: k d x)
  case (Cons q qs)
  let ?x = "wqid_update k (\<lambda>_. q) x"
  obtain y where y: "steps (map (\<lambda>i. buf_get_qid (wqid_update i)) [Suc k..<Suc k + length qs])
      (cbuf_at s (d @ leqid q) (concat (map leqid qs)) t, ?x) =
      (cbuf_at s ((d @ leqid q) @ concat (map leqid qs)) [] t, y)" "head_fields y = head_fields ?x"
    "y = ?x\<lparr>fc_wqids := fc_wqids y\<rparr>" "\<forall>i < Suc k. fc_wqids y i = fc_wqids ?x i"
    "\<forall>i < length qs. fc_wqids y (Suc k + i) = qs ! i"
    using Cons.IH [of "Suc k" "d @ leqid q" ?x] by blast
  have up: "[k..<k + length (q # qs)] = k # [Suc k..<Suc k + length qs]"
    by (subst upt_conv_Cons) auto
  have q: "wqid_update k (qid_path_update (\<lambda>_. qid_path q)) (wqid_update k
      (qid_version_update (\<lambda>_. qid_version q)) (wqid_update k (qid_type_update (\<lambda>_. qid_type q)) x)) = ?x"
    by (cases q, cases "fc_wqids x k") (simp add: wqid_update_def)
  have "steps (map (\<lambda>i. buf_get_qid (wqid_update i)) [k..<k + length (q # qs)])
      (cbuf_at s d (concat (map leqid (q # qs))) t, x) = (cbuf_at s (d @ concat (map leqid (q # qs))) [] t, y)"
    unfolding up using y(1) by (simp add: codec_simps q)
  moreover have "head_fields y = head_fields x" using y(2) by simp
  moreover have "y = x\<lparr>fc_wqids := fc_wqids y\<rparr>"
    using y(3) by (simp add: wqid_update_def)
  moreover have "fc_wqids y i = fc_wqids x i" if "i < k" for i
    using that y(4) by (simp add: wqid_update_def)
  moreover have "fc_wqids y (k + i) = (q # qs) ! i" if "i < length (q # qs)" for i
    using that y(4,5) by (cases i) (auto simp: wqid_update_def)
  ultimately show ?case by blast
qed simp

lemma opt_list_map_Some: "opt_list (map (\<lambda>i. Some (f i)) is) = Some (map f is)"
  by (induction "is") auto

lemma concat_split_nth:
  "i < length ws \<Longrightarrow> \<exists>r. concat (map f ws) = concat (map f (take i ws)) @ f (ws ! i) @ r"
  by (metis concat.simps(2) concat_append id_take_nth_drop list.simps(9) map_append)

lemma parse_twalk:
  assumes "length ws \<le> MAXWELEM" "list_all wf_str ws"
  shows "parses nu dotu tag (MTwalk fid newfid ws) rest fc0"
proof (rule parsesI)
  have n: "unat (word_of_nat (length ws) :: u16) = length ws"
    using assms(1) by (simp add: MAXWELEM_def)
  show "length (payload nu dotu (MTwalk fid newfid ws)) + 7 < 2147483648"
    using wf_strs_bound [OF assms] assms(1) by (simp add: length_concat_lestr MAXWELEM_def)
  fix x :: Npfcall and h :: "u8 list"
  assume t: "fc_type x = msg_type (MTwalk fid newfid ws)" and h: "length h = 7"
  let ?d = "h @ le32 fid @ le32 newfid @ le16 (word_of_nat (length ws))"
  let ?x = "x\<lparr>fc_fid := fid, fc_newfid := newfid, fc_nwname := word_of_nat (length ws)\<rparr>"
  let ?pkt = "?d @ concat (map lestr ws) @ rest"
  obtain y where y: "steps (map (\<lambda>i. getstr (wname_update i)) [0..<length ws])
      (cbuf_at 4 ?d (concat (map lestr ws)) rest, ?x) = (cbuf_at 4 (?d @ concat (map lestr ws)) [] rest, y)"
    "head_fields y = head_fields ?x" "y = ?x\<lparr>fc_wnames := fc_wnames y\<rparr>"
    "\<forall>i < length ws. fc_wnames y i = npstr_at (?d @ concat (map lestr (take i ws))) (ws ! i)"
    using get_wnames_at [OF assms(2), of 0 4 ?d rest ?x] by auto
  have b: "np_deserialize_body dotu (cbuf_at 4 h (payload nu dotu (MTwalk fid newfid ws)) rest, x) =
      Some (cbuf_at 4 (?d @ concat (map lestr ws)) [] rest, y)"
    using y(1) assms(1) by (simp add: np_deserialize_body_def Let_def t codec_simps n msg_type_defs)
  have names: "npstr_bytes ?pkt (fc_wnames y i) = Some (ws ! i)" if i: "i < length ws" for i
  proof -
    obtain r where r: "concat (map lestr ws) = concat (map lestr (take i ws)) @ lestr (ws ! i) @ r"
      using concat_split_nth [OF i] by blast
    have "wf_str (ws ! i)" using assms(2) i by (simp add: list_all_length)
    then show ?thesis unfolding y(4) [rule_format, OF i]
      by (rule npstr_bytes_seg) (simp add: r)
  qed
  have "opt_list (map (\<lambda>i. npstr_bytes ?pkt (fc_wnames y i)) [0..<length ws]) = Some ws"
    using names by (subst map_cong [OF refl, where g = "\<lambda>i. Some (ws ! i)"])
      (auto simp: opt_list_map_Some map_nth)
  then show "case np_deserialize_body dotu (cbuf_at 4 h (payload nu dotu (MTwalk fid newfid ws)) rest, x) of
         None \<Rightarrow> False
       | Some (b, y) \<Rightarrow> \<not> buf_check_overflow b \<and> \<not> cb_oob b \<and> head_fields y = head_fields x \<and>
           np_view dotu (h @ payload nu dotu (MTwalk fid newfid ws) @ rest) y
             = Some (norm_msg dotu (MTwalk fid newfid ws))"
    using y(2) arg_cong [OF y(3), of fc_fid] arg_cong [OF y(3), of fc_newfid]
      arg_cong [OF y(3), of fc_nwname] arg_cong [OF y(3), of fc_type] t
    unfolding b by (simp add: np_view_def msg_type_defs n)
qed

lemma parse_rwalk:
  assumes "length qs \<le> MAXWELEM"
  shows "parses nu dotu tag (MRwalk qs) rest fc0"
proof (rule parsesI)
  have n: "unat (word_of_nat (length qs) :: u16) = length qs"
    using assms(1) by (simp add: MAXWELEM_def)
  have len: "length (concat (map leqid qs)) = 13 * length qs" by (induction qs) auto
  show "length (payload nu dotu (MRwalk qs)) + 7 < 2147483648"
    using assms by (simp add: len MAXWELEM_def)
  fix x :: Npfcall and h :: "u8 list"
  assume t: "fc_type x = msg_type (MRwalk qs)" and h: "length h = 7"
  let ?d = "h @ le16 (word_of_nat (length qs))"
  let ?x = "x\<lparr>fc_nwqid := word_of_nat (length qs)\<rparr>"
  obtain y where y: "steps (map (\<lambda>i. buf_get_qid (wqid_update i)) [0..<length qs])
      (cbuf_at 4 ?d (concat (map leqid qs)) rest, ?x) = (cbuf_at 4 (?d @ concat (map leqid qs)) [] rest, y)"
    "head_fields y = head_fields ?x" "y = ?x\<lparr>fc_wqids := fc_wqids y\<rparr>"
    "\<forall>i < length qs. fc_wqids y i = qs ! i"
    using get_wqids_at [of 0 qs 4 ?d rest ?x] by auto
  have b: "np_deserialize_body dotu (cbuf_at 4 h (payload nu dotu (MRwalk qs)) rest, x) =
      Some (cbuf_at 4 (?d @ concat (map leqid qs)) [] rest, y)"
    using y(1) assms(1) by (simp add: np_deserialize_body_def Let_def t codec_simps n msg_type_defs)
  have "map (fc_wqids y) [0..<length qs] = qs"
    using y(4) by (intro nth_equalityI) auto
  then show "case np_deserialize_body dotu (cbuf_at 4 h (payload nu dotu (MRwalk qs)) rest, x) of
         None \<Rightarrow> False
       | Some (b, y) \<Rightarrow> \<not> buf_check_overflow b \<and> \<not> cb_oob b \<and> head_fields y = head_fields x \<and>
           np_view dotu (h @ payload nu dotu (MRwalk qs) @ rest) y = Some (norm_msg dotu (MRwalk qs))"
    using y(2) arg_cong [OF y(3), of fc_nwqid] arg_cong [OF y(3), of fc_type] t
    unfolding b by (simp add: np_view_def msg_type_defs n)
qed

lemma parse_stat:
  assumes "wf_wstat w"
  shows "parses nu dotu tag (MRstat w) rest fc0"
    and "parses nu dotu tag (MTwstat fid w) rest fc0"
proof -
  obtain k where k: "size_wstat (Some w) dotu = int k" "k < 400000"
    "\<And>sz. length (lestat w sz dotu) = k + 2" using wf_stat_size [OF assms] by blast
  note wf = assms [unfolded wf_wstat_def wf_str_def]
  show "parses nu dotu tag (MRstat w) rest fc0"
    by (rule parsesI) (use k wf in \<open>cases dotu; simp add: stat_field_def Let_def lestat_def
      np_deserialize_body_def msg_type_defs codec_simps buf_get_stat_def nopval_def np_view_def
      stat_view_def norm_stat_def npstr_bytes_seg wf_str_def\<close>)+
  show "parses nu dotu tag (MTwstat fid w) rest fc0"
    by (rule parsesI) (use k wf in \<open>cases dotu; simp add: stat_field_def Let_def lestat_def
      np_deserialize_body_def msg_type_defs codec_simps buf_get_stat_def nopval_def np_view_def
      stat_view_def norm_stat_def npstr_bytes_seg wf_str_def\<close>)+
qed


lemma parse_all:
  assumes "wf_msg msg"
  shows "parses nu dotu tag msg rest fc0"
  using assms by (cases msg) (auto simp: parse_fixed parse_strings parse_data parse_twalk parse_rwalk parse_stat)

lemma payload_bound:
  assumes "wf_msg msg"
  shows "length (payload nu dotu msg) + 7 < 2147483648"
proof -
  have len: "length (concat (map leqid qs)) = 13 * length qs" for qs by (induction qs) auto
  have st: "length (stat_field w dotu) < 400010" if w: "wf_wstat w" for w
    using wf_stat_bound [OF w, of dotu] int_length_stat_field [of w dotu] by simp
  show ?thesis
  proof (cases msg)
    case (MTwalk fid newfid ws)
    then show ?thesis using assms wf_strs_bound [of ws]
      by (simp add: length_concat_lestr MAXWELEM_def)
  next
    case (MRstat w)
    then show ?thesis using assms st [of w] by simp
  next
    case (MTwstat fid w)
    then show ?thesis using assms st [of w] by simp
  qed (use assms in \<open>auto simp: wf_str_def len MAXWELEM_def\<close>)
qed

lemma unat_wire_length:
  "wf_msg msg \<Longrightarrow> unat (word_of_nat (length (wire nu dotu tag msg)) :: u32) = length (wire nu dotu tag msg)"
  using payload_bound [of msg nu dotu] by (simp add: wire_def del: of_nat_add)

lemma set_tag_wire:
  assumes "fc_pkt fc = wire nu dotu NOTAG msg"
  shows "\<exists>fc'. np_set_tag fc tag = Inr fc' \<and> fc_pkt fc' = wire nu dotu tag msg \<and> fc_tag fc' = tag \<and>
    fc_size fc' = fc_size fc \<and> fc_type fc' = fc_type fc"
  using assms by (simp add: np_set_tag_def wire_def hdr_def le32_def le8_def le16_def)

section \<open>Memory safety of the parser\<close>

text \<open>Reading stays inside the memory as long as the limit does.\<close>

definition safe_buf :: "cbuf \<Rightarrow> bool" where
  "safe_buf b \<longleftrightarrow> \<not> cb_oob b \<and> 0 \<le> cb_p b \<and> cb_ep b \<le> int (length (cb_mem b))"

lemma safe_get_prims:
  assumes "safe_buf b"
  shows "safe_buf (snd (buf_get_int8 b))" "safe_buf (snd (buf_get_int16 b))"
    "safe_buf (snd (buf_get_int32 b))" "safe_buf (snd (buf_get_int64 b))"
    "0 \<le> n \<Longrightarrow> safe_buf (snd (buf_alloc b n))"
  using assms
  by (auto simp: buf_get_int8_def buf_get_int16_def buf_get_int32_def buf_get_int64_def buf_alloc_def
      buf_check_size_def mem_read_def safe_buf_def)

lemma safe_get_str: "safe_buf b \<Longrightarrow> safe_buf (snd (buf_get_str b))"
  using safe_get_prims(2) [of b] safe_get_prims(5) [of "snd (buf_get_int16 b)"]
  by (simp add: buf_get_str_def Let_def case_prod_unfold)

lemma safe_get:
  assumes "safe_buf (fst s)"
  shows "safe_buf (fst (get8 u8 s))" "safe_buf (fst (get16 u16 s))" "safe_buf (fst (get32 u32 s))"
    "safe_buf (fst (get64 u64 s))" "safe_buf (fst (getstr us s))"
  using safe_get_prims [OF assms] safe_get_str [OF assms]
  by (simp_all add: get8_def get16_def get32_def get64_def getstr_def case_prod_unfold)

lemma safe_get_qid: "safe_buf (fst s) \<Longrightarrow> safe_buf (fst (buf_get_qid u s))"
  by (simp add: buf_get_qid_def safe_get)

lemma safe_get_stat: "safe_buf (fst s) \<Longrightarrow> safe_buf (fst (buf_get_stat dotu u s))"
  by (simp add: buf_get_stat_def safe_get safe_get_qid)

lemma safe_get_arrays:
  assumes "safe_buf (fst s)"
  shows "safe_buf (fst (steps (map (\<lambda>i. getstr (us i)) is) s))"
    "safe_buf (fst (steps (map (\<lambda>i. buf_get_qid (uq i)) is) s))"
  using assms
  by (auto intro!: steps_invariant [where P = "\<lambda>s. safe_buf (fst s)"] simp: safe_get safe_get_qid)

lemmas safe_reads = safe_get safe_get_qid safe_get_stat safe_get_arrays

lemma no_oob_get_data: "safe_buf (fst s) \<Longrightarrow> \<not> cb_oob (fst (get_data s))"
  by (auto simp: get_data_def alloc_data_def buf_alloc_def buf_check_size_def safe_buf_def
      split: prod.splits)

lemma safe_no_oob: "safe_buf b \<Longrightarrow> \<not> cb_oob b"
  by (simp add: safe_buf_def)

lemma body_safe:
  assumes "safe_buf (fst s)" "np_deserialize_body dotu s = Some s'"
  shows "\<not> cb_oob (fst s')"
  using assms(2) assms(1)
  by (auto simp: np_deserialize_body_def Let_def safe_reads no_oob_get_data safe_no_oob split: if_splits)

lemma sint_le_uint: "sint (w :: u32) \<le> uint w"
proof (cases "uint w < 2147483648")
  case True
  then have "sint w = uint w"
    using sint_of_int_u32 [of "uint w"] by simp
  then show ?thesis by simp
next
  case False
  have "sint w < 2147483648" using sint_lt [of w] by simp
  then show ?thesis using False by linarith
qed

lemma limit_bound: "4 + sint (w - 4 :: u32) \<le> max 4 (uint w)"
proof (cases "uint w < 4")
  case True
  have "0 \<le> uint w" by simp
  with True have "uint w = 0 \<or> uint w = 1 \<or> uint w = 2 \<or> uint w = 3" by arith
  then have "w = word_of_int 0 \<or> w = word_of_int 1 \<or> w = word_of_int 2 \<or> w = word_of_int 3"
    by (elim disjE) (metis word_of_int_uint)+
  then show ?thesis by auto
next
  case False
  then have "uint (w - 4) = uint w - 4"
    using uint_bounded [of w] by (simp add: uint_word_ariths mod_pos_pos_trivial)
  then show ?thesis using sint_le_uint [of "w - 4"] by linarith
qed


lemma start_safe:
  assumes "4 \<le> length data" "unat (of_le32 data) \<le> length data"
  shows "safe_buf (fst (np_deserialize_start fc data))"
proof -
  let ?w = "of_le32 data"
  have w: "of_le32 (take 4 data) = ?w"
    using assms(1) by (simp add: of_le32_def)
  have g: "get32 fc_size_update (buf_init data 0 4 False, fc) =
      ((buf_init data 0 4 False)\<lparr>cb_p := 4\<rparr>, fc\<lparr>fc_size := ?w\<rparr>)"
    using assms(1) w
    by (simp add: get32_def buf_get_int32_def buf_check_size_def buf_init_def mem_read_def)
  have b: "safe_buf (buf_init data 4 (sint (?w - 4)) False)"
  proof -
    have "int (unat ?w) \<le> int (length data)" using assms(2) by linarith
    then have "uint ?w \<le> int (length data)" by simp
    moreover have "4 \<le> int (length data)" using assms(1) by linarith
    ultimately have "4 + sint (?w - 4) \<le> int (length data)"
      using limit_bound [of ?w] by linarith
    then show ?thesis by (simp only: safe_buf_def buf_init_def cbuf.simps) simp
  qed
  have "fst (np_deserialize_start fc data) = fst (get16 fc_tag_update (get8 fc_type_update
      (buf_init data 4 (sint (?w - 4)) False, fc\<lparr>fc_size := ?w\<rparr>)))"
    by (simp only: np_deserialize_start_def Let_def g steps.simps fst_conv snd_conv)
      (simp add: buf_init_def)
  then show ?thesis using b by (simp add: safe_reads)
qed


lemma deserialize_safe:
  assumes "4 \<le> length data" "unat (of_le32 data) \<le> length data"
  shows "\<not> snd (np_deserialize fc data dotu)"
proof (cases "np_deserialize_body dotu (np_deserialize_start fc data)")
  case None
  then show ?thesis using start_safe [OF assms, of fc]
    by (simp add: np_deserialize_def Let_def safe_buf_def)
next
  case (Some s)
  then show ?thesis using body_safe [OF start_safe [OF assms] Some]
    by (simp add: np_deserialize_def Let_def)
qed

section \<open>What an accepted packet looks like\<close>

lemma head_get:
  "(\<And>f x. head_fields (u8 f x) = head_fields x) \<Longrightarrow> head_fields (snd (get8 u8 s)) = head_fields (snd s)"
  "(\<And>f x. head_fields (u16 f x) = head_fields x) \<Longrightarrow> head_fields (snd (get16 u16 s)) = head_fields (snd s)"
  "(\<And>f x. head_fields (u32 f x) = head_fields x) \<Longrightarrow> head_fields (snd (get32 u32 s)) = head_fields (snd s)"
  "(\<And>f x. head_fields (u64 f x) = head_fields x) \<Longrightarrow> head_fields (snd (get64 u64 s)) = head_fields (snd s)"
  "(\<And>f x. head_fields (us f x) = head_fields x) \<Longrightarrow> head_fields (snd (getstr us s)) = head_fields (snd s)"
  by (auto simp: get8_def get16_def get32_def get64_def getstr_def split: prod.splits)

lemma head_get_qid:
  "(\<And>f x. head_fields (u f x) = head_fields x) \<Longrightarrow> head_fields (snd (buf_get_qid u s)) = head_fields (snd s)"
  by (simp add: buf_get_qid_def head_get)

lemma head_get_stat:
  "(\<And>f x. head_fields (u f x) = head_fields x) \<Longrightarrow> head_fields (snd (buf_get_stat dotu u s)) = head_fields (snd s)"
  by (simp add: buf_get_stat_def head_get head_get_qid)

lemma head_get_arrays:
  "head_fields (snd (steps (map (\<lambda>i. getstr (wname_update i)) is) s)) = head_fields (snd s)"
  "head_fields (snd (steps (map (\<lambda>i. buf_get_qid (wqid_update i)) is) s)) = head_fields (snd s)"
  by (auto intro!: steps_invariant [where P = "\<lambda>t. head_fields (snd t) = head_fields (snd s)"]
      simp: head_get head_get_qid)

lemma head_get_data: "head_fields (snd (get_data s)) = head_fields (snd s)"
  using keeps_head_alloc [of "fc_count (snd s)"] by (simp add: get_data_def keeps_head_def del: split_paired_All)

lemmas head_reads = head_get head_get_qid head_get_stat head_get_arrays head_get_data

lemma body_head:
  "np_deserialize_body dotu s = Some s' \<Longrightarrow> head_fields (snd s') = head_fields (snd s)"
  by (auto simp: np_deserialize_body_def Let_def head_reads split: if_splits)

lemma body_type:
  "np_deserialize_body dotu s = Some s' \<Longrightarrow> 100 \<le> fc_type (snd s) \<and> fc_type (snd s) \<le> 127 \<and> fc_type (snd s) \<noteq> Terror"
  by (auto simp: np_deserialize_body_def Let_def msg_type_defs split: if_splits)


lemma nwname_kept:
  "fc_nwname (snd (steps (map (\<lambda>i. getstr (wname_update i)) is) s)) = fc_nwname (snd s)"
  "fc_nwqid (snd (steps (map (\<lambda>i. buf_get_qid (wqid_update i)) is) s)) = fc_nwqid (snd s)"
  by (auto intro!: steps_invariant [where P = "\<lambda>t. fc_nwname (snd t) = fc_nwname (snd s)"]
      steps_invariant [where P = "\<lambda>t. fc_nwqid (snd t) = fc_nwqid (snd s)"]
      simp: getstr_def buf_get_qid_def get8_def get32_def get64_def wname_update_def wqid_update_def
      split: prod.splits)

lemma body_counts:
  assumes "np_deserialize_body dotu s = Some s'"
  shows "fc_type (snd s) = Twalk \<Longrightarrow> unat (fc_nwname (snd s')) \<le> MAXWELEM"
    and "fc_type (snd s) = Rwalk \<Longrightarrow> unat (fc_nwqid (snd s')) \<le> MAXWELEM"
  using assms by (auto simp: np_deserialize_body_def Let_def msg_type_defs nwname_kept split: if_splits)

lemma start_head:
  assumes "4 \<le> length data"
  shows "fc_size (snd (np_deserialize_start fc data)) = of_le32 data"
    and "sint (of_le32 data - 4) < 1 \<Longrightarrow> fc_type (snd (np_deserialize_start fc data)) = 0"
proof -
  let ?w = "of_le32 data"
  have w: "of_le32 (take 4 data) = ?w"
    using assms(1) by (simp add: of_le32_def)
  have g: "get32 fc_size_update (buf_init data 0 4 False, fc) =
      ((buf_init data 0 4 False)\<lparr>cb_p := 4\<rparr>, fc\<lparr>fc_size := ?w\<rparr>)"
    using assms(1) w
    by (simp add: get32_def buf_get_int32_def buf_check_size_def buf_init_def mem_read_def)
  have s: "snd (np_deserialize_start fc data) = (snd (get16 fc_tag_update (get8 fc_type_update
      (buf_init data 4 (sint (?w - 4)) False, fc\<lparr>fc_size := ?w\<rparr>))))
        \<lparr>fc_newfid := NOFID, fc_afid := NOFID, fc_fid := NOFID\<rparr>"
    by (simp only: np_deserialize_start_def Let_def g steps.simps fst_conv snd_conv)
      (simp add: buf_init_def)
  show "fc_size (snd (np_deserialize_start fc data)) = ?w"
    by (simp add: s get16_def get8_def split: prod.splits)
  show "fc_type (snd (np_deserialize_start fc data)) = 0" if "sint (?w - 4) < 1"
    using that by (simp add: s get16_def get8_def buf_get_int8_def buf_check_size_def buf_init_def
        split: prod.splits)
qed

lemma deserialize_accepted:
  assumes "4 \<le> length data" and "fst (np_deserialize fc data dotu) = Some fc'"
  shows "fc_size fc' = of_le32 data" "5 \<le> uint (of_le32 data)"
    "100 \<le> fc_type fc'" "fc_type fc' \<le> 127" "fc_type fc' \<noteq> Terror"
    "fc_type fc' = Twalk \<Longrightarrow> unat (fc_nwname fc') \<le> MAXWELEM"
    "fc_type fc' = Rwalk \<Longrightarrow> unat (fc_nwqid fc') \<le> MAXWELEM"
proof -
  let ?s = "np_deserialize_start fc data"
  obtain s where b: "np_deserialize_body dotu ?s = Some s" and fc': "fc' = snd s"
    using assms(2) by (auto simp: np_deserialize_def Let_def split: option.splits if_splits)
  have h: "head_fields fc' = head_fields (snd ?s)"
    using body_head [OF b] fc' by simp
  then have t: "fc_type fc' = fc_type (snd ?s)" and sz: "fc_size fc' = fc_size (snd ?s)"
    by (auto simp: head_fields_def)
  show "fc_size fc' = of_le32 data" using start_head(1) [OF assms(1)] sz by simp
  show "100 \<le> fc_type fc'" "fc_type fc' \<le> 127" "fc_type fc' \<noteq> Terror"
    using body_type [OF b] t by auto
  show "fc_type fc' = Twalk \<Longrightarrow> unat (fc_nwname fc') \<le> MAXWELEM"
    "fc_type fc' = Rwalk \<Longrightarrow> unat (fc_nwqid fc') \<le> MAXWELEM"
    using body_counts [OF b] t fc' by auto
  have "fc_type (snd ?s) \<noteq> 0" using body_type [OF b] by auto
  then have "1 \<le> sint (of_le32 data - 4)"
    using start_head(2) [OF assms(1)] by force
  then show "5 \<le> uint (of_le32 data)" using limit_bound [of "of_le32 data"] by linarith
qed

section \<open>The codec properties\<close>





text \<open>
  C32. Memory safety of the parser: when the memory holds the four size bytes and as many
  bytes as they announce, \<^verbatim>\<open>np_deserialize\<close> reads nothing outside it, whatever
  the bytes are.
\<close>

theorem np_deserialize_memory_safe:
  assumes "4 \<le> length data" and "unat (of_le32 data) \<le> length data"
  shows "\<not> snd (np_deserialize fc data dotu)"
  using assms by (rule deserialize_safe)

lemma np_deserialize_memory_safe_witness:
  "\<not> snd (np_deserialize npfcall_zero [7, 0, 0, 0, 120, 1, 0] True)"
  by (rule np_deserialize_memory_safe) (simp_all add: of_le32_def)

text \<open>
  What the parser accepts: the size is the announced one and at least 5, the type is a
  known message type, and the element counts of a Twalk and an Rwalk fit the arrays of
  \<^verbatim>\<open>Npfcall\<close>.
\<close>

theorem np_deserialize_accepts:
  assumes "4 \<le> length data" and "fst (np_deserialize fc data dotu) = Some fc'"
  shows "fc_size fc' = of_le32 data \<and> 5 \<le> unat (fc_size fc') \<and>
    100 \<le> fc_type fc' \<and> fc_type fc' \<le> 127 \<and> fc_type fc' \<noteq> Terror \<and>
    (fc_type fc' \<noteq> Twalk \<or> unat (fc_nwname fc') \<le> MAXWELEM) \<and>
    (fc_type fc' \<noteq> Rwalk \<or> unat (fc_nwqid fc') \<le> MAXWELEM)"
proof -
  have "int 5 \<le> int (unat (of_le32 data))" using deserialize_accepted(2) [OF assms] by simp
  then have "5 \<le> unat (of_le32 data)" by (simp only: of_nat_le_iff)
  then show ?thesis using deserialize_accepted [OF assms] by auto
qed

lemma np_deserialize_accepts_witness:
  "\<exists>fc'. fst (np_deserialize npfcall_zero [9, 0, 0, 0, 108, 1, 0, 7, 0] True) = Some fc' \<and>
    fc_size fc' = 9 \<and> 100 \<le> fc_type fc' \<and> fc_type fc' \<le> 127"
proof -
  let ?d = "[9, 0, 0, 0, 108, 1, 0, 7, 0] :: u8 list"
  have "fst (np_deserialize npfcall_zero ?d True) \<noteq> None"
    by code_simp
  then obtain fc' where fc': "fst (np_deserialize npfcall_zero ?d True) = Some fc'" by blast
  show ?thesis
    using np_deserialize_accepts [OF _ fc'] fc' by (simp add: of_le32_def)
qed

text \<open>
  A Twrite whose packet ends behind its count field is accepted although the count
  announces data: the data pointer is NULL and the count is kept, because
  \<^verbatim>\<open>buf_check_size\<close> marks no overflow when the buffer is exactly used up.
\<close>

theorem np_deserialize_twrite_without_data:
  assumes "0 < count" "count < 2147483648"
  shows "\<exists>fc'. np_deserialize fc (hdr 16 Twrite tag @ le32 fid @ le64 off @ le32 count) dotu = (Some fc', False) \<and>
    fc_data fc' = None \<and> fc_count fc' = count"
proof -
  let ?pl = "le32 fid @ le64 off @ le32 count"
  have pos: "0 < sint count"
    using assms sint_of_int_u32 [of "uint count"] by (simp add: word_less_def)
  have alloc: "buf_alloc (cbuf_at 4 d [] t) (sint count) = (None, cbuf_at 4 d [] t)" for d t
    using pos by (simp add: buf_alloc_def buf_check_size_def)
  show ?thesis
    using start_at [of ?pl fc Twrite tag "[]"]
    by (simp add: np_deserialize_def np_deserialize_body_def msg_type_defs codec_simps get_data_def
        alloc_data_def alloc)
qed

lemma np_deserialize_twrite_without_data_witness:
  "\<exists>fc'. np_deserialize npfcall_zero (hdr 16 Twrite 1 @ le32 2 @ le64 3 @ le32 4096) True = (Some fc', False) \<and>
    fc_data fc' = None \<and> fc_count fc' = 4096"
  by (rule np_deserialize_twrite_without_data) simp_all

text \<open>
  For the same reason a packet of seven header bytes is a valid Tclunk (of fid 0): missing
  trailing fields are read as zero.
\<close>

theorem np_deserialize_header_only:
  "\<exists>fc'. np_deserialize fc (hdr 0 Tclunk tag) dotu = (Some fc', False) \<and> fc_fid fc' = 0 \<and> fc_tag fc' = tag"
proof -
  have "get32 u (cbuf_at 4 d [] t, x) = (cbuf_at 4 d [] t, u (\<lambda>_. 0) x)" for u d t and x :: Npfcall
    by (simp add: get32_def buf_get_int32_def buf_check_size_def)
  then show ?thesis
    using start_at [of "[]" fc Tclunk tag "[]"]
    by (simp add: np_deserialize_def np_deserialize_body_def msg_type_defs)
qed

lemma set_rread_count_at:
  assumes "length data + 11 < 2147483648" "n \<le> length data"
    and fc: "fc_pkt fc = wire nu dotu tag (MRread data)" "fc_count fc = word_of_nat (length data)"
  shows "\<exists>fc'. np_set_rread_count fc (word_of_nat n) = Inr fc' \<and>
    fc_pkt fc' = wire nu dotu tag (MRread (take n data)) @ drop n data \<and>
    unat (fc_size fc') = n + 11 \<and> fc_count fc' = word_of_nat n"
proof -
  let ?len = "word_of_nat (length data) :: u32" and ?n = "word_of_nat n :: u32"
  have le: "?n \<le> ?len"
    using assms(1,2) by (simp add: word_le_nat_alt)
  have w: "(4 + 1 + 2 + 4 + ?n :: u32) = word_of_nat (n + 11)" by simp
  have s1: "sint (word_of_nat (n + 11) :: u32) = int (n + 11)"
    using assms(1,2) by (intro sint_len) linarith
  have "word_of_nat (n + 11) - 7 = (word_of_nat (n + 4) :: u32)" by simp
  then have s2: "sint (word_of_nat (n + 11) - 7 :: u32) = int (n + 4)"
    using assms(1,2) sint_len [of "n + 4"] by (simp add: add.commute)
  let ?h = "le32 (word_of_nat (length data + 11))" and ?t = "le8 Rread @ le16 tag"
  let ?m = "le32 (word_of_nat (n + 11)) @ ?t"
  have pkt: "fc_pkt fc = ?h @ ?t @ le32 ?len @ data"
    using fc(1) by (simp add: wire_def hdr_def add.commute)
  have b1: "buf_init (fc_pkt fc) 0 (int (n + 11)) False =
      cbuf_at 0 [] (?h @ ?t @ le32 ?len @ take n data) (drop n data)"
    using assms(2) by (simp add: buf_init_def cbuf_at_def pkt)
  let ?b1 = "cbuf_at 0 (le32 (word_of_nat (n + 11))) (?t @ le32 ?len @ take n data) (drop n data)"
  have b2: "buf_init (cb_mem ?b1) 7 (int (n + 4)) False =
      cbuf_at 7 ?m (le32 ?len @ take n data) (drop n data)"
    using assms(2) by (simp add: buf_init_def cbuf_at_def)
  have p1: "put32 (word_of_nat (n + 11)) fc_size_update
      (cbuf_at 0 [] (?h @ ?t @ le32 ?len @ take n data) (drop n data), fc) =
      (?b1, fc\<lparr>fc_size := word_of_nat (n + 11)\<rparr>)" by (simp add: put_at)
  have o1: "cb_oob ?b1 = False" by simp
  have p2: "put32 ?n fc_count_update (cbuf_at 7 ?m (le32 ?len @ take n data) (drop n data), x) =
      (cbuf_at 7 (?m @ le32 ?n) (take n data) (drop n data), x\<lparr>fc_count := ?n\<rparr>)" for x :: Npfcall
    by (simp add: put_at)
  have "unat (word_of_nat (n + 11) :: u32) = n + 11"
    using assms(1,2) by (intro of_nat_unat_len32) linarith
  moreover have "7 + word_of_nat (n + 4) = (word_of_nat (n + 11) :: u32)" by simp
  ultimately show ?thesis
    using le assms(2) fc(2)
    by (simp only: np_set_rread_count_def w Let_def s1 s2 b1 p1 fst_conv snd_conv o1 b2 p2)
      (simp add: wire_def hdr_def add.commute del: of_nat_add)
qed

text \<open>
  \<^verbatim>\<open>np_set_rread_count\<close> shortens a read reply in place: of a packet that
  carries \<open>data\<close>, the first \<open>fc_size\<close> bytes are afterwards exactly the reply with
  the first \<open>n\<close> bytes of \<open>data\<close>; a larger count than the packet's is refused by
  the assertion.
\<close>

theorem np_set_rread_count_shortens:
  assumes "length data + 11 < 2147483648" and "m < 4294967296"
    and "fc_pkt fc = wire nu dotu tag (MRread data)" and "fc_count fc = word_of_nat (length data)"
  shows "if m \<le> length data
    then \<exists>fc'. np_set_rread_count fc (word_of_nat m) = Inr fc' \<and>
      take (unat (fc_size fc')) (fc_pkt fc') = wire nu dotu tag (MRread (take m data)) \<and>
      fc_count fc' = word_of_nat m
    else np_set_rread_count fc (word_of_nat m) = Inl AssertFail"
proof (cases "m \<le> length data")
  case True
  then obtain fc' where "np_set_rread_count fc (word_of_nat m) = Inr fc'"
    "fc_pkt fc' = wire nu dotu tag (MRread (take m data)) @ drop m data"
    "unat (fc_size fc') = m + 11" "fc_count fc' = word_of_nat m"
    using set_rread_count_at [OF assms(1) True assms(3,4)] by blast
  then show ?thesis using True by (simp add: wire_def)
next
  case False
  then have "\<not> (word_of_nat m :: u32) \<le> word_of_nat (length data)"
    using assms(1,2) by (simp add: word_le_nat_alt)
  then show ?thesis using False assms(4) by (simp add: np_set_rread_count_def)
qed

lemma np_set_rread_count_shortens_witness:
  "\<exists>fc'. np_set_rread_count (npfcall_zero\<lparr>fc_pkt := wire 0 True 1 (MRread [1, 2, 3]), fc_count := 3\<rparr>) 2
      = Inr fc' \<and>
    take (unat (fc_size fc')) (fc_pkt fc') = wire 0 True 1 (MRread [1, 2]) \<and> fc_count fc' = 2"
  using np_set_rread_count_shortens [of "[1, 2, 3]" 2
      "npfcall_zero\<lparr>fc_pkt := wire 0 True 1 (MRread [1, 2, 3]), fc_count := 3\<rparr>" 0 True 1]
  by simp

lemma serialize_stat_at:
  assumes "wf_wstat w" "0 \<le> buflen" "buflen \<le> int (length buf)" "size_wstat (Some w) dotu + 2 \<le> buflen"
  shows "np_serialize_stat st w buf buflen dotu = (size_wstat (Some w) dotu + 2,
    cbuf_at 0 (lestat w (size_wstat (Some w) dotu) dotu)
      (drop (nat (size_wstat (Some w) dotu + 2)) (take (nat buflen) buf)) (drop (nat buflen) buf))"
proof (rule wf_stat_size [OF assms(1), of dotu])
  fix k assume k: "size_wstat (Some w) dotu = int k" "\<And>sz. length (lestat w sz dotu) = k + 2"
  obtain n where n: "buflen = int n" using assms(2) by (metis nonneg_int_cases)
  then have le: "n \<le> length buf" "k + 2 \<le> n" using assms(3,4) k by auto
  have b: "buf_init buf 0 (int n) False = cbuf_at 0 [] (take n buf) (drop n buf)"
    using le by (simp add: buf_init_def cbuf_at_def)
  show ?thesis
    using le by (simp add: np_serialize_stat_def Let_def k n b codec_simps nat_add_distrib)
qed

lemma qid_copy: fixes q q' :: Npqid shows "q'\<lparr>qid_type := qid_type q, qid_version := qid_version q, qid_path := qid_path q\<rparr> = q"
  by (cases q, cases q') simp

lemma deserialize_stat_at:
  assumes "wf_wstat w"
  shows "\<exists>st'. np_deserialize_stat st (lestat w (size_wstat (Some w) dotu) dotu @ r @ t)
      (size_wstat (Some w) dotu + 2 + int (length r)) dotu = (size_wstat (Some w) dotu + 2, st') \<and>
    stat_view dotu (lestat w (size_wstat (Some w) dotu) dotu @ r @ t) st' = Some (norm_stat dotu w)"
proof (rule wf_stat_size [OF assms(1), of dotu])
  fix k assume k: "size_wstat (Some w) dotu = int k" "\<And>sz. length (lestat w sz dotu) = k + 2"
  note wf = assms [unfolded wf_wstat_def wf_str_def]
  have b: "buf_init (lestat w (int k) dotu @ r @ t) 0 (int k + 2 + int (length r)) False =
      cbuf_at 0 [] (lestat w (int k) dotu @ r) t"
    using k by (simp add: buf_init_def cbuf_at_def)
  have "length (lestat w (int k) dotu) = k + 2" using k(2) by simp
  then show ?thesis
    unfolding np_deserialize_stat_def k(1) b
    using wf k(1) by (cases dotu; simp add: lestat_def codec_simps buf_get_stat_def stat_view_def
      norm_stat_def npstr_bytes_seg wf_str_def qid_copy; intro Npwstat.equality; simp)
qed

text \<open>
  C33. Directory entries: \<^verbatim>\<open>np_serialize_stat\<close> returns 0 and leaves the buffer
  alone when the entry is larger than the space left; when the entry and its size field fit,
  it puts the entry at the start of the buffer, leaves the rest alone and returns its length,
  and \<^verbatim>\<open>np_deserialize_stat\<close> reads the same entry and length back. (The two lengths
  in between, where the entry fits but not its size field, are excluded.)
\<close>

theorem np_stat_roundtrip:
  assumes "wf_wstat w" and "0 \<le> buflen" and "buflen \<le> int (length buf)"
    and "buflen < size_wstat (Some w) dotu \<or> size_wstat (Some w) dotu + 2 \<le> buflen"
    and "np_serialize_stat st w buf buflen dotu = (n, b)"
  shows "if buflen < size_wstat (Some w) dotu then n = 0 \<and> cb_mem b = buf
    else n = size_wstat (Some w) dotu + 2 \<and> drop (nat n) (cb_mem b) = drop (nat n) buf \<and>
      (\<exists>st'. np_deserialize_stat st0 (cb_mem b) buflen dotu = (n, st') \<and>
        stat_view dotu (cb_mem b) st' = Some (norm_stat dotu w))"
proof -
  let ?sz = "size_wstat (Some w) dotu"
  have len: "length (lestat w ?sz dotu) = nat (?sz + 2)"
    using length_lestat [of w ?sz dotu] by (simp add: add.commute)
  consider "buflen < ?sz" | "?sz + 2 \<le> buflen" using assms(4) by linarith
  then show ?thesis
  proof cases
    case 1
    then show ?thesis using assms(5) by (auto simp: np_serialize_stat_def buf_init_def)
  next
    case 2
    let ?r = "drop (nat (?sz + 2)) (take (nat buflen) buf)"
    have b: "n = ?sz + 2" "b = cbuf_at 0 (lestat w ?sz dotu) ?r (drop (nat buflen) buf)"
      using serialize_stat_at [OF assms(1-3) 2, of st] assms(5) by auto
    have rl: "?sz + 2 + int (length ?r) = buflen"
      using 2 assms(2,3) size_wstat_nonneg [of w dotu] by auto
    have "drop (nat n) (cb_mem b) = ?r @ drop (nat buflen) buf"
      using b len by simp
    also have "\<dots> = drop (nat n) (take (nat buflen) buf @ drop (nat buflen) buf)"
      using 2 b(1) assms(2,3) unfolding drop_append by simp
    also have "\<dots> = drop (nat n) buf" by simp
    finally have d: "drop (nat n) (cb_mem b) = drop (nat n) buf" .
    show ?thesis
      using deserialize_stat_at [OF assms(1), of st0 dotu ?r "drop (nat buflen) buf"] 2 b d
      unfolding rl by auto
  qed
qed

lemma np_stat_roundtrip_witness:
  "\<exists>n b st'. np_serialize_stat npstat_zero (npwstat_zero\<lparr>ws_name := Some [97]\<rparr>) (replicate 60 9) 60 False = (n, b) \<and>
    n = 50 \<and> drop 50 (cb_mem b) = replicate 10 9 \<and>
    np_deserialize_stat npstat_zero (cb_mem b) 60 False = (n, st') \<and>
    stat_view False (cb_mem b) st' = Some (norm_stat False (npwstat_zero\<lparr>ws_name := Some [97]\<rparr>))"
proof -
  let ?w = "npwstat_zero\<lparr>ws_name := Some [97]\<rparr>"
  obtain n b where e: "np_serialize_stat npstat_zero ?w (replicate 60 9) 60 False = (n, b)"
    by (cases "np_serialize_stat npstat_zero ?w (replicate 60 9) 60 False")
  have sz: "size_wstat (Some ?w) False = 48"
    by (simp add: npwstat_zero_def size_wstat_def opt_strlen_def)
  have wf: "wf_wstat ?w" by (simp add: npwstat_zero_def wf_wstat_def wf_str_def)
  obtain st' where n: "n = 50" and d: "drop (nat n) (cb_mem b) = drop (nat n) (replicate 60 9)"
      and st': "np_deserialize_stat npstat_zero (cb_mem b) 60 False = (n, st')"
        "stat_view False (cb_mem b) st' = Some (norm_stat False ?w)"
    using np_stat_roundtrip [OF wf _ _ _ e, where ?st0.0 = npstat_zero] sz by auto
  have "drop 50 (cb_mem b) = replicate 10 9"
    using d n by (simp add: drop_replicate)
  then show ?thesis using e n st' by blast
qed

section \<open>What the parser leaves alone\<close>

text \<open>No message carries the packet pointer or, as the parser reads it, the user number.\<close>

definition kept_fields :: "Npfcall \<Rightarrow> u8 list \<times> u32" where
  "kept_fields fc = (fc_pkt fc, fc_n_uname fc)"

lemma kept_update [simp]:
  "kept_fields (fc_size_update f1 x) = kept_fields x" "kept_fields (fc_type_update f2 x) = kept_fields x"
  "kept_fields (fc_tag_update f3 x) = kept_fields x" "kept_fields (fc_fid_update f4 x) = kept_fields x"
  "kept_fields (fc_msize_update f5 x) = kept_fields x" "kept_fields (fc_version_update f6 x) = kept_fields x"
  "kept_fields (fc_afid_update f7 x) = kept_fields x" "kept_fields (fc_uname_update f8 x) = kept_fields x"
  "kept_fields (fc_aname_update f9 x) = kept_fields x" "kept_fields (fc_qid_update f10 x) = kept_fields x"
  "kept_fields (fc_ename_update f11 x) = kept_fields x" "kept_fields (fc_oldtag_update f12 x) = kept_fields x"
  "kept_fields (fc_newfid_update f13 x) = kept_fields x" "kept_fields (fc_nwname_update f14 x) = kept_fields x"
  "kept_fields (wname_update i f15 x) = kept_fields x" "kept_fields (fc_nwqid_update f16 x) = kept_fields x"
  "kept_fields (wqid_update i f17 x) = kept_fields x" "kept_fields (fc_mode_update f18 x) = kept_fields x"
  "kept_fields (fc_iounit_update f19 x) = kept_fields x" "kept_fields (fc_name_update f20 x) = kept_fields x"
  "kept_fields (fc_perm_update f21 x) = kept_fields x" "kept_fields (fc_offset_update f22 x) = kept_fields x"
  "kept_fields (fc_count_update f23 x) = kept_fields x" "kept_fields (fc_data_update f24 x) = kept_fields x"
  "kept_fields (fc_stat_update f25 x) = kept_fields x" "kept_fields (fc_ecode_update f26 x) = kept_fields x"
  "kept_fields (fc_extension_update f27 x) = kept_fields x" "kept_fields (nopval f28 x) = kept_fields x"
  by (simp_all add: kept_fields_def wname_update_def wqid_update_def nopval_def)

lemma kept_get:
  "(\<And>f x. kept_fields (u8 f x) = kept_fields x) \<Longrightarrow> kept_fields (snd (get8 u8 s)) = kept_fields (snd s)"
  "(\<And>f x. kept_fields (u16 f x) = kept_fields x) \<Longrightarrow> kept_fields (snd (get16 u16 s)) = kept_fields (snd s)"
  "(\<And>f x. kept_fields (u32 f x) = kept_fields x) \<Longrightarrow> kept_fields (snd (get32 u32 s)) = kept_fields (snd s)"
  "(\<And>f x. kept_fields (u64 f x) = kept_fields x) \<Longrightarrow> kept_fields (snd (get64 u64 s)) = kept_fields (snd s)"
  "(\<And>f x. kept_fields (us f x) = kept_fields x) \<Longrightarrow> kept_fields (snd (getstr us s)) = kept_fields (snd s)"
  by (auto simp: get8_def get16_def get32_def get64_def getstr_def split: prod.splits)

lemma kept_get_qid:
  "(\<And>f x. kept_fields (u f x) = kept_fields x) \<Longrightarrow> kept_fields (snd (buf_get_qid u s)) = kept_fields (snd s)"
  by (simp add: buf_get_qid_def kept_get)

lemma kept_get_stat:
  "(\<And>f x. kept_fields (u f x) = kept_fields x) \<Longrightarrow> kept_fields (snd (buf_get_stat dotu u s)) = kept_fields (snd s)"
  by (simp add: buf_get_stat_def kept_get kept_get_qid)

lemma kept_get_arrays:
  "kept_fields (snd (steps (map (\<lambda>i. getstr (wname_update i)) is) s)) = kept_fields (snd s)"
  "kept_fields (snd (steps (map (\<lambda>i. buf_get_qid (wqid_update i)) is) s)) = kept_fields (snd s)"
  by (auto intro!: steps_invariant [where P = "\<lambda>t. kept_fields (snd t) = kept_fields (snd s)"]
      simp: kept_get kept_get_qid)

lemma kept_get_data: "kept_fields (snd (get_data s)) = kept_fields (snd s)"
  by (simp add: get_data_def alloc_data_def split: prod.splits)

lemmas kept_reads = kept_get kept_get_qid kept_get_stat kept_get_arrays kept_get_data

lemma body_kept: "np_deserialize_body dotu s = Some s' \<Longrightarrow> kept_fields (snd s') = kept_fields (snd s)"
  by (auto simp: np_deserialize_body_def Let_def kept_reads split: if_splits)

lemma deserialize_kept:
  assumes "fst (np_deserialize fc data dotu) = Some fc'"
  shows "kept_fields fc' = kept_fields fc"
proof -
  let ?s = "np_deserialize_start fc data"
  obtain s where b: "np_deserialize_body dotu ?s = Some s" and fc': "fc' = snd s"
    using assms by (auto simp: np_deserialize_def Let_def split: option.splits if_splits)
  have "kept_fields (snd ?s) = kept_fields fc"
    by (simp add: np_deserialize_start_def Let_def kept_get)
  then show ?thesis using body_kept [OF b] fc' by simp
qed

text \<open>
  The user number of a Tauth or Tattach is never read from the packet: whatever the
  message and the protocol version, the field \<^verbatim>\<open>n_uname\<close> of the structure keeps the
  value it had when the buffer was last used, and \<^verbatim>\<open>pkt\<close> still points to the buffer.
\<close>

theorem np_deserialize_keeps_n_uname:
  assumes "fst (np_deserialize fc data dotu) = Some fc'"
  shows "fc_n_uname fc' = fc_n_uname fc \<and> fc_pkt fc' = fc_pkt fc"
  using deserialize_kept [OF assms] by (simp add: kept_fields_def)

lemma np_deserialize_keeps_n_uname_witness:
  "\<exists>fc'. fst (np_deserialize (npfcall_zero\<lparr>fc_n_uname := 1000\<rparr>) (wire 7 True 1 (MTattach 1 NOFID None None)) True)
      = Some fc' \<and> fc_n_uname fc' = 1000"
proof -
  let ?fc = "npfcall_zero\<lparr>fc_n_uname := 1000\<rparr>" and ?m = "MTattach 1 NOFID None None"
  obtain fc' where "np_deserialize ?fc (wire 7 True 1 ?m @ []) True = (Some fc', False)"
    using parse_all [of ?m 7 True 1 "[]" ?fc] by (auto simp: parses_def wf_str_def)
  then show ?thesis
    using np_deserialize_keeps_n_uname [of ?fc "wire 7 True 1 ?m" True fc'] by simp
qed

lemma np_create_common_junk:
  assumes "0 \<le> sz" "sz + 7 < 2147483648"
  shows "np_create_common (Some (fc, junk)) (word_of_int sz) typ =
    Some (cbuf_at 0 (hdr sz typ NOTAG) (map junk [7..<nat (sz + 7)]) [],
      fc\<lparr>fc_size := word_of_int (sz + 7), fc_type := typ, fc_tag := NOTAG\<rparr>)"
proof -
  let ?mem = "map junk [0..<nat (sz + 7)]"
  have "buf_init ?mem 0 (sz + 7) False = cbuf_at 0 [] ?mem []"
    using assms by (intro buf_init_at) simp
  then have "np_create_common (Some (fc, junk)) (word_of_int sz) typ =
    Some (steps [put32 (word_of_int (sz + 7)) fc_size_update, put8 typ fc_type_update,
      put16 NOTAG fc_tag_update] (cbuf_at 0 [] ?mem [], fc))"
    by (simp only: np_create_common_def Let_def size_word [OF assms] option.case prod.case)
  then show ?thesis
    using assms by (simp add: put_at hdr_def drop_map del: of_int_add upt_conv_Cons)
qed

text \<open>
  \<^verbatim>\<open>np_create_rerror1\<close> leaves the length of the name out: its packet has the
  bytes of the name directly behind the header, then the error code for 9P2000.u, and ends in
  two bytes that were never written.
\<close>

theorem np_create_rerror1_layout:
  assumes "length ename < 65536"
  shows "\<exists>fc. np_create_rerror1 (Some (fc0, junk)) ename ecode dotu = Some fc \<and>
    (let n = length ename + (if dotu then 4 else 0) in
     fc_pkt fc = hdr (int n + 2) Rerror NOTAG @ ename @ (if dotu then le32 ecode else []) @
       [junk (n + 7), junk (n + 8)])"
proof -
  define n where "n = length ename + (if dotu then 4 else 0)"
  define b where "b = cbuf_at 0 (hdr (int n + 2) Rerror NOTAG) (map junk [7..<n + 9]) []"
  have sz: "2 + int (length ename) + (if dotu then 4 else 0) = int n + 2" by (simp add: n_def)
  have "0 \<le> int n + 2" "int n + 2 + 7 < 2147483648" using assms by (auto simp: n_def)
  note c = np_create_common_junk [OF this, of fc0 junk Rerror]
  have nn: "nat (int n + 2 + 7) = n + 9" by simp
  have al: "buf_alloc b (int (length ename)) = (Some 7,
      cbuf_at 0 (hdr (int n + 2) Rerror NOTAG @ take (length ename) (map junk [7..<n + 9]))
        (drop (length ename) (map junk [7..<n + 9])) [])"
    unfolding b_def by (subst buf_alloc_at) (simp_all add: n_def)
  have wr: "mem_write 7 ename
      (cbuf_at 0 (hdr (int n + 2) Rerror NOTAG @ take (length ename) (map junk [7..<n + 9])) r [])
    = cbuf_at 0 (hdr (int n + 2) Rerror NOTAG @ ename) r []" for r
    using mem_write_done [where d = "hdr (int n + 2) Rerror NOTAG" and vs = ename
        and us = "take (length ename) (map junk [7..<n + 9])"]
    by (simp add: n_def)
  have r: "drop (length ename) (map junk [7..<n + 9]) =
      (if dotu then map junk [7 + length ename..<n + 7] else []) @ [junk (n + 7), junk (n + 8)]"
  proof -
    have "n + 9 = Suc (Suc (n + 7))" "7 + length ename \<le> n + 7" by (simp_all add: n_def)
    then have "[7 + length ename..<n + 9] = [7 + length ename..<n + 7] @ [n + 7, n + 8]"
      by (simp only: upt_Suc) simp
    moreover have "dotu \<or> [7 + length ename..<n + 7] = []" by (simp add: n_def)
    ultimately show ?thesis by (auto simp: drop_map)
  qed
  have l: "length (if dotu then map junk [7 + length ename..<n + 7] else []) = (if dotu then 4 else 0)"
    by (simp add: n_def)
  show ?thesis
    unfolding np_create_rerror1_def np_build_def sz c option.case nn b_def [symmetric] n_def [symmetric] Let_def
    using l by (cases dotu) (simp_all add: al wr r np_post_check_def put_at n_def [symmetric] Let_def overflow_at)
qed

lemma np_create_rerror1_layout_witness:
  "\<exists>fc. np_create_rerror1 (Some (npfcall_zero, \<lambda>_. 9)) [97, 98] 5 False = Some fc \<and>
    fc_pkt fc = hdr 4 Rerror NOTAG @ [97, 98, 9, 9]"
  using np_create_rerror1_layout [of "[97, 98]" npfcall_zero "\<lambda>_. 9" 5 False] by simp

end
