(* ===== verification/DList.thy ===== *)
theory DList
  imports Prelude "HOL-Library.Monad_Syntax"
begin

text \<open>
  Linked structures in an explicit heap. The C code keeps its fids and its requests in
  intrusive doubly linked lists; here a heap maps addresses to nodes, a pointer is an
  optional address (\<open>None\<close> is NULL), and a dereference of an address that is not
  allocated makes the whole operation \<open>None\<close>. The locale \<open>links\<close> states what
  is needed of the two link fields of a node type; its lemmas are the ones every list
  manipulation of the code rests on.
\<close>

section \<open>Heaps\<close>

type_synonym addr = nat
type_synonym 'n heap = "addr \<Rightarrow> 'n option"

text \<open>\<^verbatim>\<open>p->field = v\<close>, and the guarded \<^verbatim>\<open>if (p) p->field = v\<close>.\<close>

definition hupd :: "addr \<Rightarrow> ('n \<Rightarrow> 'n) \<Rightarrow> 'n heap \<Rightarrow> 'n heap option" where
  "hupd a f h = (case h a of None \<Rightarrow> None | Some r \<Rightarrow> Some (h(a \<mapsto> f r)))"

definition hupd_opt :: "addr option \<Rightarrow> ('n \<Rightarrow> 'n) \<Rightarrow> 'n heap \<Rightarrow> 'n heap option" where
  "hupd_opt p f h = (case p of None \<Rightarrow> Some h | Some a \<Rightarrow> hupd a f h)"

lemma hupd_Some [simp]: "h a = Some r \<Longrightarrow> hupd a f h = Some (h(a \<mapsto> f r))"
  by (simp add: hupd_def)

lemma hupd_opt_simps [simp]:
  "hupd_opt None f h = Some h"
  "hupd_opt (Some a) f h = hupd a f h"
  by (simp_all add: hupd_opt_def)

text \<open>What a heap holds when a part of every node (the links) is left out.\<close>

definition hview :: "('n \<Rightarrow> 'v) \<Rightarrow> 'n heap \<Rightarrow> addr \<Rightarrow> 'v option" where
  "hview strip h a = map_option strip (h a)"

lemma hview_upd_same: "h a = Some r \<Longrightarrow> strip r' = strip r \<Longrightarrow> hview strip (h(a \<mapsto> r')) = hview strip h"
  by (auto simp: hview_def fun_eq_iff)

lemma hview_upd: "hview strip (h(a := v)) = (hview strip h)(a := map_option strip v)"
  by (auto simp: hview_def fun_eq_iff)

lemma hview_Some: "hview strip h a = Some v \<longleftrightarrow> (\<exists>r. h a = Some r \<and> v = strip r)"
  by (auto simp: hview_def)

lemma hview_eqD: "hview strip h' = hview strip h \<Longrightarrow> h a = Some r \<Longrightarrow> \<exists>r'. h' a = Some r' \<and> strip r' = strip r"
  by (drule fun_cong [where x = a]) (auto simp: hview_def)

lemma hview_eq_None: "hview strip h' = hview strip h \<Longrightarrow> h' a = None \<longleftrightarrow> h a = None"
  by (drule fun_cong [where x = a]) (auto simp: hview_def)

lemma hupd_opt_commute:
  assumes "\<And>a. p = Some a \<Longrightarrow> q \<noteq> Some a" "hupd_opt p f h = Some h1" "hupd_opt q g h1 = Some h2"
  shows "\<exists>h1'. hupd_opt q g h = Some h1' \<and> hupd_opt p f h1' = Some h2"
  using assms by (auto simp: hupd_opt_def hupd_def fun_upd_twist split: option.splits if_splits)

section \<open>Singly linked lists\<close>

fun sseg :: "('n \<Rightarrow> addr option) \<Rightarrow> 'n heap \<Rightarrow> addr option \<Rightarrow> addr list \<Rightarrow> bool" where
  "sseg nx h p [] \<longleftrightarrow> p = None"
| "sseg nx h p (a # as) \<longleftrightarrow> p = Some a \<and> (case h a of None \<Rightarrow> False | Some r \<Rightarrow> sseg nx h (nx r) as)"

lemma sseg_cong:
  "sseg nx h p as \<Longrightarrow> \<forall>a\<in>set as. map_option nx (h' a) = map_option nx (h a) \<Longrightarrow> sseg nx h' p as"
  by (induction as arbitrary: p) (fastforce split: option.splits)+

section \<open>Doubly linked segments\<close>

text \<open>
  \<open>dseg nx pv h pr p xs q\<close>: from the pointer \<open>p\<close> the nodes \<open>xs\<close> are linked in
  this order, the first one's back link is \<open>pr\<close> and the last one's forward link is
  \<open>q\<close>. A whole list has \<open>pr = None\<close> and \<open>q = None\<close>.
\<close>

fun dseg ::
  "('n \<Rightarrow> addr option) \<Rightarrow> ('n \<Rightarrow> addr option) \<Rightarrow> 'n heap \<Rightarrow> addr option \<Rightarrow> addr option \<Rightarrow>
     addr list \<Rightarrow> addr option \<Rightarrow> bool"
where
  "dseg nx pv h pr p [] q \<longleftrightarrow> p = q"
| "dseg nx pv h pr p (a # as) q \<longleftrightarrow> p = Some a \<and>
     (case h a of None \<Rightarrow> False | Some r \<Rightarrow> pv r = pr \<and> dseg nx pv h (Some a) (nx r) as q)"

definition lastp :: "addr option \<Rightarrow> addr list \<Rightarrow> addr option" where
  "lastp pr xs = (if xs = [] then pr else Some (last xs))"

definition headp :: "addr list \<Rightarrow> addr option \<Rightarrow> addr option" where
  "headp xs q = (case xs of [] \<Rightarrow> q | a # _ \<Rightarrow> Some a)"

lemma lastp_simps [simp]:
  "lastp pr [] = pr" "lastp pr (a # as) = lastp (Some a) as" "lastp pr (xs @ ys) = lastp (lastp pr xs) ys"
  by (auto simp: lastp_def)

lemma headp_simps [simp]:
  "headp [] q = q" "headp (a # as) q = Some a" "headp (xs @ ys) q = headp xs (headp ys q)"
  by (auto simp: headp_def split: list.splits)

lemma dseg_head: "dseg nx pv h pr p xs q \<Longrightarrow> p = headp xs q"
  by (cases xs) auto

lemma dseg_append:
  "dseg nx pv h pr p (xs @ ys) q \<longleftrightarrow>
     dseg nx pv h pr p xs (headp ys q) \<and> dseg nx pv h (lastp pr xs) (headp ys q) ys q"
proof (induction xs arbitrary: pr p)
  case Nil
  then show ?case by (auto dest: dseg_head)
next
  case (Cons a xs)
  then show ?case by (auto split: option.splits)
qed

lemma dseg_alloc: "dseg nx pv h pr p xs q \<Longrightarrow> a \<in> set xs \<Longrightarrow> \<exists>r. h a = Some r"
  by (induction xs arbitrary: pr p) (auto split: option.splits)

text \<open>A heap that agrees on the links of the nodes of a segment has the same segment.\<close>

lemma dseg_cong:
  assumes "dseg nx pv h pr p xs q"
    and "\<And>a r. a \<in> set xs \<Longrightarrow> h a = Some r \<Longrightarrow> \<exists>r'. h' a = Some r' \<and> nx r' = nx r \<and> pv r' = pv r"
  shows "dseg nx pv h' pr p xs q"
  using assms
proof (induction xs arbitrary: pr p)
  case (Cons a xs)
  then obtain r where r: "h a = Some r" "p = Some a" "pv r = pr" "dseg nx pv h (Some a) (nx r) xs q"
    by (auto split: option.splits)
  obtain r' where "h' a = Some r'" "nx r' = nx r" "pv r' = pv r"
    using Cons.prems(2) [of a r] r by auto
  then show ?case using Cons.IH [OF r(4)] Cons.prems(2) r by auto
qed simp

lemma dseg_links_cong:
  "dseg nx pv h pr p xs q \<Longrightarrow> \<forall>a\<in>set xs. map_option (\<lambda>r. (nx r, pv r)) (h' a) = map_option (\<lambda>r. (nx r, pv r)) (h a) \<Longrightarrow>
    dseg nx pv h' pr p xs q"
  by (induction xs arbitrary: pr p) (fastforce split: option.splits)+

lemma dseg_upd_other:
  "dseg nx pv h pr p xs q \<Longrightarrow> a \<notin> set xs \<Longrightarrow> dseg nx pv (h(a := v)) pr p xs q"
  by (erule dseg_cong) auto

lemma dseg_node:
  assumes "dseg nx pv h pr p (xs @ a # ys) q"
  obtains r where "h a = Some r" "pv r = lastp pr xs" "nx r = headp ys q"
proof -
  have "dseg nx pv h (lastp pr xs) (Some a) (a # ys) q"
    using assms by (simp add: dseg_append)
  then obtain r where r: "h a = Some r" "pv r = lastp pr xs" "dseg nx pv h (Some a) (nx r) ys q"
    by (auto split: option.splits)
  then show ?thesis using that dseg_head [OF r(3)] by blast
qed

section \<open>Link fields\<close>

locale links =
  fixes nx pv :: "'n \<Rightarrow> addr option"
    and unx upv :: "addr option \<Rightarrow> 'n \<Rightarrow> 'n"
    and strip :: "'n \<Rightarrow> 'v"
  assumes nx_unx [simp]: "nx (unx v r) = v"
    and pv_unx [simp]: "pv (unx v r) = pv r"
    and nx_upv [simp]: "nx (upv v r) = nx r"
    and pv_upv [simp]: "pv (upv v r) = v"
    and strip_unx [simp]: "strip (unx v r) = strip r"
    and strip_upv [simp]: "strip (upv v r) = strip r"
begin

lemma set_first_prev:
  assumes "dseg nx pv h pr p (a # xs) q" "distinct (a # xs)" "h a = Some r"
  shows "dseg nx pv (h(a \<mapsto> upv pr' r)) pr' p (a # xs) q"
proof -
  have "dseg nx pv h (Some a) (nx r) xs q" "p = Some a" using assms by auto
  then show ?thesis using assms(2) dseg_upd_other [of nx pv h "Some a" "nx r" xs q a] by auto
qed

lemma set_last_next:
  assumes "dseg nx pv h pr p (xs @ [a]) q" "distinct (xs @ [a])" "h a = Some r"
  shows "dseg nx pv (h(a \<mapsto> unx q' r)) pr p (xs @ [a]) q'"
proof -
  have "dseg nx pv h pr p xs (Some a)" "pv r = lastp pr xs"
    using assms by (auto simp: dseg_append)
  then show ?thesis using assms(2) dseg_upd_other [of nx pv h pr p xs "Some a" a] by (auto simp: dseg_append)
qed

text \<open>
  \<^verbatim>\<open>if (r->prev) r->prev->next = r->next; if (r->next) r->next->prev = r->prev\<close>
  takes the node out of the middle: what was before it and what was behind it are one
  segment, and only the two neighbours are written.
\<close>

lemma unlink:
  assumes "dseg nx pv h None p (xs @ a # ys) None" "distinct (xs @ a # ys)" "h a = Some r"
  shows "\<exists>h1 h2. hupd_opt (pv r) (unx (nx r)) h = Some h1 \<and>
    hupd_opt (nx r) (upv (pv r)) h1 = Some h2 \<and>
    dseg nx pv h2 None (headp (xs @ ys) None) (xs @ ys) None \<and>
    h1 a = Some r \<and> h2 a = Some r \<and> pv r = lastp None xs \<and> nx r = headp ys None \<and>
    (\<forall>b. b \<notin> set (xs @ ys) \<longrightarrow> h2 b = h b) \<and> hview strip h2 = hview strip h"
proof -
  have links: "pv r = lastp None xs" "nx r = headp ys None"
    using assms(3) dseg_node [OF assms(1)] by force+
  have xs: "dseg nx pv h None (headp xs (Some a)) xs (Some a)"
    and ys: "dseg nx pv h (Some a) (headp ys None) ys None"
    using assms(1,3) dseg_head [OF assms(1)] links by (auto simp: dseg_append)
  obtain h1 where h1: "hupd_opt (pv r) (unx (nx r)) h = Some h1"
      "dseg nx pv h1 None (headp xs (headp ys None)) xs (headp ys None)"
      "\<forall>b. b \<notin> set xs \<longrightarrow> h1 b = h b"
      "hview strip h1 = hview strip h"
  proof (cases xs rule: rev_cases)
    case Nil
    then show ?thesis using that [of h] links by auto
  next
    case (snoc zs b)
    then obtain s where s: "h b = Some s" using dseg_alloc [OF xs, of b] by auto
    have eq: "headp (zs @ [b]) (Some a) = headp (zs @ [b]) (headp ys None)" by simp
    have d: "dseg nx pv (h(b \<mapsto> unx (headp ys None) s)) None (headp xs (headp ys None)) xs (headp ys None)"
      using set_last_next [of h None "headp xs (Some a)" zs b "Some a" s "headp ys None"] xs assms(2) snoc s eq
      by simp
    show ?thesis
      by (rule that [of "h(b \<mapsto> unx (headp ys None) s)"]) (use links s snoc d in \<open>auto simp: hview_upd_same\<close>)
  qed
  have ys1: "dseg nx pv h1 (Some a) (headp ys None) ys None"
    by (rule dseg_cong [OF ys]) (use h1(3) assms(2) in auto)
  have a1: "h1 a = Some r" using h1(3) assms(2,3) by auto
  obtain h2 where h2: "hupd_opt (nx r) (upv (pv r)) h1 = Some h2"
      "dseg nx pv h2 (lastp None xs) (headp ys None) ys None"
      "\<forall>b. b \<notin> set ys \<longrightarrow> h2 b = h1 b"
      "hview strip h2 = hview strip h1"
  proof (cases ys)
    case Nil
    then show ?thesis using that [of h1] links by auto
  next
    case (Cons b zs)
    then obtain s where s: "h1 b = Some s" using dseg_alloc [OF ys1, of b] by auto
    have d: "dseg nx pv (h1(b \<mapsto> upv (lastp None xs) s)) (lastp None xs) (headp ys None) ys None"
      using set_first_prev [of h1 "Some a" "Some b" b zs None s "lastp None xs"] ys1 assms(2) Cons s
      by simp
    show ?thesis
      by (rule that [of "h1(b \<mapsto> upv (lastp None xs) s)"]) (use links s Cons d in \<open>auto simp: hview_upd_same\<close>)
  qed
  have "dseg nx pv h2 None (headp xs (headp ys None)) xs (headp ys None)"
    by (rule dseg_cong [OF h1(2)]) (use h2(3) assms(2) in auto)
  then have "dseg nx pv h2 None (headp (xs @ ys) None) (xs @ ys) None"
    using h2(2) by (simp add: dseg_append)
  moreover have "h2 a = Some r" using h2(3) a1 assms(2) by auto
  moreover have "\<forall>b. b \<notin> set (xs @ ys) \<longrightarrow> h2 b = h b" using h1(3) h2(3) by auto
  ultimately show ?thesis using h1(1,4) h2(1,4) a1 links by metis
qed

text \<open>A node written in front of a list.\<close>

lemma push_front:
  assumes "dseg nx pv h None p xs None" "distinct (a # xs)"
    and "nx r = p" "pv r = None"
  shows "\<exists>h1. hupd_opt p (upv (Some a)) h = Some h1 \<and>
    dseg nx pv (h1(a \<mapsto> r)) None (Some a) (a # xs) None \<and>
    (\<forall>b. b \<notin> set xs \<longrightarrow> h1 b = h b) \<and> hview strip h1 = hview strip h"
proof (cases xs)
  case Nil
  then show ?thesis using assms by auto
next
  case (Cons b zs)
  then obtain s where s: "h b = Some s" and p: "p = Some b" using assms(1) by (auto split: option.splits)
  have d: "dseg nx pv (h(b \<mapsto> upv (Some a) s)) (Some a) p xs None"
    using set_first_prev [of h None p b zs None s "Some a"] assms(1,2) Cons s by simp
  have "dseg nx pv ((h(b \<mapsto> upv (Some a) s))(a \<mapsto> r)) (Some a) p xs None"
    using dseg_upd_other [OF d] assms(2) by simp
  then have "dseg nx pv ((h(b \<mapsto> upv (Some a) s))(a \<mapsto> r)) None (Some a) (a # xs) None"
    using assms(3,4) by simp
  then show ?thesis using s p Cons by (auto simp: hview_upd_same)
qed

end

end
