(* ===== verification/NpState.thy ===== *)
theory NpState
  imports NpMsg DList
begin

text \<open>
  The state of the 9P server library \<^verbatim>\<open>npfs/libnpfs\<close>: the structures of
  \<^verbatim>\<open>npfs.h\<close> as records in heaps, the callbacks a file server installs, the
  allocator, the per-thread error slot of \<^verbatim>\<open>error.c\<close> and the reference counts
  of \<^verbatim>\<open>user.c\<close>. An operation whose result is an option is \<open>None\<close> when
  the C code would dereference NULL or freed memory, or fail an assertion.
\<close>

section \<open>Constants\<close>

definition cstr :: "string \<Rightarrow> cstring" where
  "cstr s = map of_char s"

definition Oread :: u8 where "Oread = 0x00"
definition Owrite :: u8 where "Owrite = 0x01"
definition Ordwr :: u8 where "Ordwr = 0x02"
definition Oexec :: u8 where "Oexec = 0x03"
definition Oexcl :: u8 where "Oexcl = 0x04"
definition Otrunc :: u8 where "Otrunc = 0x10"
definition Orclose :: u8 where "Orclose = 0x40"
definition Oappend :: u8 where "Oappend = 0x80"

definition Dmdir :: u32 where "Dmdir = 0x80000000"
definition Dmsymlink :: u32 where "Dmsymlink = 0x02000000"
definition Dmlink :: u32 where "Dmlink = 0x01000000"
definition Dmdevice :: u32 where "Dmdevice = 0x00800000"
definition Dmnamedpipe :: u32 where "Dmnamedpipe = 0x00200000"
definition Dmsocket :: u32 where "Dmsocket = 0x00100000"

definition Qtdir :: u8 where "Qtdir = 0x80"
definition Qtauth :: u8 where "Qtauth = 0x08"

definition FID_HTABLE_SIZE :: nat where "FID_HTABLE_SIZE = 64"

definition EPERM :: int where "EPERM = 1"
definition ENOENT :: int where "ENOENT = 2"
definition EEXIST :: int where "EEXIST = 17"
definition ENOSPC :: int where "ENOSPC = 28"
definition EIO :: int where "EIO = 5"
definition ENOMEM :: int where "ENOMEM = 12"
definition ENOTDIR :: int where "ENOTDIR = 20"
definition ENOSYS :: int where "ENOSYS = 38"

definition Eunknownfid :: cstring where "Eunknownfid = cstr ''unknown fid''"
definition Ennomem :: cstring where "Ennomem = cstr ''no memory''"
definition Enoauth :: cstring where "Enoauth = cstr ''no authentication required''"
definition Enotimpl :: cstring where "Enotimpl = cstr ''not implemented''"
definition Einuse :: cstring where "Einuse = cstr ''fid already exists''"
definition Ebadusefid :: cstring where "Ebadusefid = cstr ''bad use of fid''"
definition Enotdir :: cstring where "Enotdir = cstr ''not a directory''"
definition Etoomanywnames :: cstring where "Etoomanywnames = cstr ''too many wnames''"
definition Eperm :: cstring where "Eperm = cstr ''permission denied''"
definition Etoolarge :: cstring where "Etoolarge = cstr ''i/o count too large''"
definition Ebadoffset :: cstring where "Ebadoffset = cstr ''bad offset in directory read''"
definition Edirchange :: cstring where
  "Edirchange = cstr ''cannot convert between files and directories''"
definition Enotfound :: cstring where "Enotfound = cstr ''file not found''"
definition Eopen :: cstring where "Eopen = cstr ''file alread exclusively opened''"
definition Eexist :: cstring where "Eexist = cstr ''file or directory already exists''"
definition Enotempty :: cstring where "Enotempty = cstr ''directory not empty''"
definition Eunknownuser :: cstring where "Eunknownuser = cstr ''unknown user''"

section \<open>Structures\<close>

text \<open>
  The name of the last error of a thread: NULL, a copy on the heap, or the static string
  \<^verbatim>\<open>Ennomem\<close> itself, which the code tells apart by its address.
\<close>

datatype errname = ENull | EHeap cstring | EStatic

record Nperror =
  er_ename :: errname
  er_ecode :: int

record Npuser =
  us_uid :: u32
  us_refcount :: int
  us_uname :: cstring
  us_dfltgroup :: "addr option"
  us_groups :: "addr list"

record Npgroup =
  gr_refcount :: int
  gr_gname :: cstring
  gr_gid :: u32

text \<open>\<^verbatim>\<open>aux\<close> belongs to the file server and is part of its own state.\<close>

record Npfid =
  fid_conn :: addr
  fid_fid :: u32
  fid_refcount :: int
  fid_omode :: u16
  fid_type :: u8
  fid_diroffset :: u32
  fid_user :: "addr option"
  fid_next :: "addr option"
  fid_prev :: "addr option"

record Npfidpool =
  fp_size :: nat
  fp_htable :: "addr option list"

text \<open>
  \<^verbatim>\<open>trans\<close> is the identity of the transport. The recycled
  \<^verbatim>\<open>Npfcall\<close>s of \<^verbatim>\<open>freerclist\<close> keep their contents.
\<close>

record Npconn =
  cn_refcount :: int
  cn_resetting :: bool
  cn_msize :: u32
  cn_dotu :: bool
  cn_trans :: "nat option"
  cn_fidpool :: "Npfidpool option"
  cn_freercnum :: int
  cn_freerclist :: "Npfcall list"
  cn_next :: "addr option"

record Npreq =
  rq_refcount :: int
  rq_conn :: addr
  rq_tag :: u16
  rq_tcall :: "Npfcall option"
  rq_rcall :: "Npfcall option"
  rq_responded :: bool
  rq_flushreq :: "addr option"
  rq_fid :: "addr option"
  rq_next :: "addr option"
  rq_prev :: "addr option"
  rq_wthread :: "nat option"

record Npwthread =
  wt_id :: nat
  wt_shutdown :: bool

record Npsrv =
  sv_msize :: u32
  sv_dotu :: bool
  sv_shuttingdown :: bool
  sv_conns :: "addr option"
  sv_reqs_first :: "addr option"
  sv_reqs_last :: "addr option"
  sv_workreqs :: "addr option"
  sv_wthreads :: "Npwthread list"

record Reqpool =
  rp_reqnum :: int
  rp_reqlist :: "addr option"

text \<open>
  The whole state. \<open>w_mallocs n\<close> is the outcome of the \<open>n\<close>-th allocation and
  \<open>w_nmalloc\<close> the number made, which is also the address of the next object;
  \<open>w_self\<close> is the running thread; \<open>w_out\<close> lists the packets written, each with
  the transport it went to, \<open>w_closed\<close> the transports destroyed; \<open>w_user\<close> is the
  state of the file server behind the callbacks.
\<close>

record 'x world =
  w_fids :: "Npfid heap"
  w_conns :: "Npconn heap"
  w_reqs :: "Npreq heap"
  w_users :: "Npuser heap"
  w_srv :: Npsrv
  w_reqpool :: Reqpool
  w_errs :: "nat \<Rightarrow> Nperror option"
  w_self :: nat
  w_mallocs :: "nat \<Rightarrow> malloc"
  w_nmalloc :: nat
  w_out :: "(nat \<times> u8 list) list"
  w_closed :: "nat list"
  w_user :: 'x

section \<open>Callbacks\<close>

text \<open>
  What a file server installs in \<^verbatim>\<open>Npsrv\<close> and \<^verbatim>\<open>Npauth\<close>. A callback
  is given the fid's address and its fields and acts on the server's own state; it returns a
  result and, when it called \<^verbatim>\<open>np_werror\<close>, the last error it set. It changes no
  field of a fid but \<^verbatim>\<open>aux\<close>. \<^verbatim>\<open>version\<close> and \<^verbatim>\<open>flush\<close> may call
  back into the library and act on the whole state. Strings are passed with the packet they
  point into.
\<close>

type_synonym ('x, 'r) cb = "'x \<Rightarrow> 'r \<times> (cstring option \<times> int) option \<times> 'x"

record 'x authops =
  au_startauth :: "(addr \<Rightarrow> Npfid \<Rightarrow> cstring option \<Rightarrow> ('x, int \<times> Npqid) cb) option"
  au_checkauth :: "(addr \<Rightarrow> Npfid \<Rightarrow> addr option \<Rightarrow> cstring option \<Rightarrow> ('x, bool) cb) option"
  au_read :: "(addr \<Rightarrow> Npfid \<Rightarrow> u64 \<Rightarrow> u32 \<Rightarrow> ('x, int \<times> u8 list) cb) option"
  au_write :: "(addr \<Rightarrow> Npfid \<Rightarrow> u64 \<Rightarrow> u32 \<Rightarrow> u8 list \<Rightarrow> int option \<Rightarrow> ('x, int) cb) option"
  au_clunk :: "(addr \<Rightarrow> Npfid \<Rightarrow> ('x, bool) cb) option"

record 'x srvops =
  so_start :: "('x \<Rightarrow> 'x) option"
  so_shutdown :: "('x \<Rightarrow> 'x) option"
  so_destroy :: "('x \<Rightarrow> 'x) option"
  so_connopen :: "(addr \<Rightarrow> 'x \<Rightarrow> 'x) option"
  so_connclose :: "(addr \<Rightarrow> 'x \<Rightarrow> 'x) option"
  so_fiddestroy :: "(addr \<Rightarrow> Npfid \<Rightarrow> 'x \<Rightarrow> 'x) option"
  so_auth :: "'x authops option"
  so_uname2user :: "cstring \<Rightarrow> Npuser heap \<Rightarrow> 'x \<Rightarrow> addr option \<times> Npuser heap \<times> 'x"
  so_uid2user :: "u32 \<Rightarrow> Npuser heap \<Rightarrow> 'x \<Rightarrow> addr option \<times> Npuser heap \<times> 'x"
  so_udestroy :: "(addr \<Rightarrow> 'x \<Rightarrow> 'x) option"
  so_trans_write :: "nat \<Rightarrow> u8 list \<Rightarrow> 'x \<Rightarrow> int \<times> 'x"
  so_version :: "addr \<Rightarrow> u32 \<Rightarrow> u8 list \<Rightarrow> Npstr \<Rightarrow> 'x world \<Rightarrow> (Npfcall option \<times> 'x world) option"
  so_flush :: "(addr \<Rightarrow> 'x world \<Rightarrow> 'x world option) option"
  so_attach :: "addr \<Rightarrow> Npfid \<Rightarrow> addr option \<Rightarrow> u8 list \<Rightarrow> Npstr \<Rightarrow> Npstr \<Rightarrow> ('x, Npfcall option) cb"
  so_clone :: "addr \<Rightarrow> Npfid \<Rightarrow> addr \<Rightarrow> ('x, bool) cb"
  so_walk :: "addr \<Rightarrow> Npfid \<Rightarrow> u8 list \<Rightarrow> Npstr \<Rightarrow> ('x, Npqid option) cb"
  so_open :: "addr \<Rightarrow> Npfid \<Rightarrow> u8 \<Rightarrow> ('x, Npfcall option) cb"
  so_create :: "addr \<Rightarrow> Npfid \<Rightarrow> u8 list \<Rightarrow> Npstr \<Rightarrow> u32 \<Rightarrow> u8 \<Rightarrow> Npstr \<Rightarrow> ('x, Npfcall option) cb"
  so_read :: "addr \<Rightarrow> Npfid \<Rightarrow> u64 \<Rightarrow> u32 \<Rightarrow> addr \<Rightarrow> ('x, Npfcall option) cb"
  so_write :: "addr \<Rightarrow> Npfid \<Rightarrow> u64 \<Rightarrow> u32 \<Rightarrow> u8 list \<Rightarrow> int option \<Rightarrow> addr \<Rightarrow> ('x, Npfcall option) cb"
  so_clunk :: "addr \<Rightarrow> Npfid \<Rightarrow> ('x, Npfcall option) cb"
  so_remove :: "addr \<Rightarrow> Npfid \<Rightarrow> ('x, Npfcall option) cb"
  so_stat :: "addr \<Rightarrow> Npfid \<Rightarrow> ('x, Npfcall option) cb"
  so_wstat :: "addr \<Rightarrow> Npfid \<Rightarrow> u8 list \<Rightarrow> Npstat \<Rightarrow> ('x, Npfcall option) cb"

section \<open>Allocation and errors\<close>

definition world_malloc :: "'x world \<Rightarrow> malloc \<times> 'x world" where
  "world_malloc w = (w_mallocs w (w_nmalloc w), w\<lparr>w_nmalloc := w_nmalloc w + 1\<rparr>)"

text \<open>
  \<^verbatim>\<open>np_vwerror\<close>. The name is copied by \<^verbatim>\<open>vsnprintf\<close> into 1024 bytes; the
  library's own names hold no conversion, so the copy is the name cut to 1023 bytes.
\<close>

definition np_vwerror :: "Nperror \<Rightarrow> cstring option \<Rightarrow> int \<Rightarrow> 'x world \<Rightarrow> Nperror \<times> 'x world" where
  "np_vwerror err ename ecode w =
     (let err = (if er_ename err \<noteq> ENull \<and> er_ename err \<noteq> EStatic then err\<lparr>er_ename := ENull\<rparr> else err);
          err = err\<lparr>er_ecode := ecode\<rparr>
      in case ename of
           None \<Rightarrow> (err, w)
         | Some s \<Rightarrow>
             (case world_malloc w of
                (None, w) \<Rightarrow> (err\<lparr>er_ename := EStatic, er_ecode := ENOMEM\<rparr>, w)
              | (Some _, w) \<Rightarrow> (err\<lparr>er_ename := EHeap (take 1023 s)\<rparr>, w)))"

definition np_werror :: "cstring option \<Rightarrow> int \<Rightarrow> 'x world \<Rightarrow> 'x world" where
  "np_werror ename ecode w =
     (case (case w_errs w (w_self w) of
              Some e \<Rightarrow> (Some e, w)
            | None \<Rightarrow> (case world_malloc w of
                (None, w) \<Rightarrow> (None, w)
              | (Some _, w) \<Rightarrow> (Some \<lparr>er_ename = ENull, er_ecode = 0\<rparr>, w))) of
        (None, w) \<Rightarrow> w
      | (Some e, w) \<Rightarrow>
          (case np_vwerror e ename ecode w of
             (e, w) \<Rightarrow> w\<lparr>w_errs := (w_errs w)(w_self w \<mapsto> e)\<rparr>))"

fun errname_str :: "errname \<Rightarrow> cstring option" where
  "errname_str ENull = None"
| "errname_str (EHeap s) = Some s"
| "errname_str EStatic = Some Ennomem"

definition np_rerror :: "'x world \<Rightarrow> cstring option \<times> int" where
  "np_rerror w =
     (case w_errs w (w_self w) of
        Some e \<Rightarrow> (errname_str (er_ename e), er_ecode e)
      | None \<Rightarrow> (None, 0))"

definition np_haserror :: "'x world \<Rightarrow> bool" where
  "np_haserror w = (case w_errs w (w_self w) of Some e \<Rightarrow> er_ename e \<noteq> ENull | None \<Rightarrow> False)"

definition np_malloc :: "'x world \<Rightarrow> addr option \<times> 'x world" where
  "np_malloc w =
     (case world_malloc w of
        (None, w') \<Rightarrow> (None, np_werror (Some Ennomem) ENOMEM w')
      | (Some _, w') \<Rightarrow> (Some (w_nmalloc w), w'))"

text \<open>Running a callback: its own state, then the error it set.\<close>

definition run_cb :: "('x, 'r) cb \<Rightarrow> 'x world \<Rightarrow> 'r \<times> 'x world" where
  "run_cb c w =
     (case c (w_user w) of
        (r, e, x) \<Rightarrow>
          (r, case e of None \<Rightarrow> w\<lparr>w_user := x\<rparr>
                      | Some (ename, ecode) \<Rightarrow> np_werror ename ecode (w\<lparr>w_user := x\<rparr>)))"

text \<open>Running a message constructor with the next allocation.\<close>

definition run_create :: "(malloc \<Rightarrow> 'r) \<Rightarrow> 'x world \<Rightarrow> 'r \<times> 'x world" where
  "run_create f w = (case world_malloc w of (m, w) \<Rightarrow> (f m, w))"

text \<open>\<^verbatim>\<open>np_strdup\<close> on a string of the packet: \<open>None\<close> if the bytes are not
  readable, otherwise the copy, or NULL when \<^verbatim>\<open>malloc\<close> fails.\<close>

definition run_strdup :: "u8 list \<Rightarrow> Npstr \<Rightarrow> 'x world \<Rightarrow> (cstring option \<times> 'x world) option" where
  "run_strdup pkt s w =
     (case world_malloc w of
        (None, w) \<Rightarrow> Some (None, w)
      | (Some _, w) \<Rightarrow> map_option (\<lambda>cs. (Some cs, w)) (np_strdup pkt s))"

section \<open>Users\<close>

definition np_user_incref :: "addr option \<Rightarrow> 'x world \<Rightarrow> 'x world option" where
  "np_user_incref u w =
     map_option (\<lambda>us. w\<lparr>w_users := us\<rparr>)
       (hupd_opt u (us_refcount_update (\<lambda>n. n + 1)) (w_users w))"

text \<open>\<^verbatim>\<open>np_user_decref\<close> without the groups of the user, which are not modelled.\<close>

definition np_user_decref :: "'x srvops \<Rightarrow> addr option \<Rightarrow> 'x world \<Rightarrow> 'x world option" where
  "np_user_decref so u w =
     (case u of
        None \<Rightarrow> Some w
      | Some a \<Rightarrow>
          do {
            us \<leftarrow> hupd a (us_refcount_update (\<lambda>n. n - 1)) (w_users w);
            r \<leftarrow> us a;
            if us_refcount r > 0 then Some (w\<lparr>w_users := us\<rparr>)
            else Some (w\<lparr>w_users := us(a := None),
              w_user := (case so_udestroy so of None \<Rightarrow> w_user w | Some f \<Rightarrow> f a (w_user w))\<rparr>)
          })"

section \<open>Frame of the error operations\<close>

text \<open>
  Errors, allocations and callbacks change only the error slots, the allocation counter and
  the file server's own state. \<open>same_core w w'\<close>: everything else is equal.
\<close>

definition same_core :: "'x world \<Rightarrow> 'x world \<Rightarrow> bool" where
  "same_core w w' \<longleftrightarrow> w_fids w' = w_fids w \<and> w_conns w' = w_conns w \<and> w_reqs w' = w_reqs w \<and>
     w_users w' = w_users w \<and> w_srv w' = w_srv w \<and> w_reqpool w' = w_reqpool w \<and>
     w_self w' = w_self w \<and> w_mallocs w' = w_mallocs w \<and> w_out w' = w_out w \<and>
     w_closed w' = w_closed w \<and> w_nmalloc w \<le> w_nmalloc w'"

lemma same_core_refl [simp]: "same_core w w"
  by (simp add: same_core_def)

lemma same_core_trans: "same_core w w' \<Longrightarrow> same_core w' w'' \<Longrightarrow> same_core w w''"
  by (simp add: same_core_def)

lemma same_coreD:
  assumes "same_core w w'"
  shows "w_fids w' = w_fids w" "w_conns w' = w_conns w" "w_reqs w' = w_reqs w" "w_users w' = w_users w" "w_srv w' = w_srv w"
    "w_reqpool w' = w_reqpool w" "w_self w' = w_self w" "w_mallocs w' = w_mallocs w"
    "w_out w' = w_out w" "w_closed w' = w_closed w" "w_nmalloc w \<le> w_nmalloc w'"
  using assms by (auto simp: same_core_def)

lemma same_core_malloc [simp]: "same_core w (snd (world_malloc w))"
  by (simp add: world_malloc_def same_core_def)

lemma same_core_werror [simp]: "same_core w (np_werror e c w)"
  by (simp add: np_werror_def np_vwerror_def world_malloc_def same_core_def Let_def
      split: option.splits)

lemma same_core_np_malloc: "same_core w (snd (np_malloc w))"
proof -
  let ?w = "snd (world_malloc w)"
  have "snd (np_malloc w) = ?w \<or> snd (np_malloc w) = np_werror (Some Ennomem) ENOMEM ?w"
    by (auto simp: np_malloc_def split: option.splits prod.splits)
  then show ?thesis
    using same_core_trans [OF same_core_malloc same_core_werror] by (metis same_core_malloc)
qed

lemma same_core_cb [simp]: "same_core w (snd (run_cb c w))"
proof -
  obtain r e x where "c (w_user w) = (r, e, x)" by (cases "c (w_user w)") auto
  moreover have "same_core w (w\<lparr>w_user := x\<rparr>)" by (simp add: same_core_def)
  ultimately show ?thesis
    using same_core_trans [OF _ same_core_werror] by (auto simp: run_cb_def split: option.splits)
qed

lemma same_core_create [simp]: "same_core w (snd (run_create f w))"
  by (simp add: run_create_def world_malloc_def same_core_def)

lemma same_core_strdup: "run_strdup pkt s w = Some (r, w') \<Longrightarrow> same_core w w'"
  by (auto simp: run_strdup_def world_malloc_def same_core_def split: option.splits)

lemma np_werror_sets:
  assumes "w_errs w (w_self w) \<noteq> None" "w_mallocs w (w_nmalloc w) \<noteq> None" "length s < 1024"
  shows "np_rerror (np_werror (Some s) c w) = (Some s, c)"
  using assms by (auto simp: np_werror_def np_vwerror_def world_malloc_def np_rerror_def Let_def
      split: option.splits)

section \<open>Field updates\<close>

definition upd_req :: "addr \<Rightarrow> (Npreq \<Rightarrow> Npreq) \<Rightarrow> 'x world \<Rightarrow> 'x world option" where
  "upd_req a g w = map_option (\<lambda>h. w\<lparr>w_reqs := h\<rparr>) (hupd a g (w_reqs w))"

definition upd_conn :: "addr \<Rightarrow> (Npconn \<Rightarrow> Npconn) \<Rightarrow> 'x world \<Rightarrow> 'x world option" where
  "upd_conn a g w = map_option (\<lambda>h. w\<lparr>w_conns := h\<rparr>) (hupd a g (w_conns w))"

lemma upd_req_Some [simp]: "w_reqs w a = Some r \<Longrightarrow> upd_req a g w = Some (w\<lparr>w_reqs := (w_reqs w)(a \<mapsto> g r)\<rparr>)"
  by (simp add: upd_req_def)

lemma upd_conn_Some [simp]:
  "w_conns w a = Some c \<Longrightarrow> upd_conn a g w = Some (w\<lparr>w_conns := (w_conns w)(a \<mapsto> g c)\<rparr>)"
  by (simp add: upd_conn_def)

text \<open>A state without objects, in which every allocation succeeds.\<close>

definition empty_world :: "Npfcall \<Rightarrow> 'x \<Rightarrow> 'x world" where
  "empty_world junk x =
     \<lparr>w_fids = (\<lambda>_. None), w_conns = (\<lambda>_. None), w_reqs = (\<lambda>_. None), w_users = (\<lambda>_. None),
      w_srv = \<lparr>sv_msize = 8216, sv_dotu = True, sv_shuttingdown = False, sv_conns = None,
        sv_reqs_first = None, sv_reqs_last = None, sv_workreqs = None, sv_wthreads = []\<rparr>,
      w_reqpool = \<lparr>rp_reqnum = 0, rp_reqlist = None\<rparr>, w_errs = (\<lambda>_. None), w_self = 0,
      w_mallocs = (\<lambda>_. Some (junk, \<lambda>_. 0)), w_nmalloc = 0, w_out = [], w_closed = [], w_user = x\<rparr>"

text \<open>A state with one open connection (the object 0, buffers of 256 bytes, transport 7).\<close>

definition sample_conn :: Npconn where
  "sample_conn =
     \<lparr>cn_refcount = 1, cn_resetting = False, cn_msize = 256, cn_dotu = True, cn_trans = Some 7,
      cn_fidpool = Some \<lparr>fp_size = FID_HTABLE_SIZE, fp_htable = replicate FID_HTABLE_SIZE None\<rparr>,
      cn_freercnum = 0, cn_freerclist = [], cn_next = None\<rparr>"

definition sample_world :: "'x \<Rightarrow> 'x world" where
  "sample_world x = (empty_world npfcall_zero x)\<lparr>w_conns := [0 \<mapsto> sample_conn], w_nmalloc := 1\<rparr>"

text \<open>A file server that refuses every operation, over transports that accept every packet.\<close>

definition sample_ops :: "unit srvops" where
  "sample_ops =
     \<lparr>so_start = None, so_shutdown = None, so_destroy = None, so_connopen = None, so_connclose = None,
      so_fiddestroy = None, so_auth = None, so_uname2user = (\<lambda>_ us x. (None, us, x)),
      so_uid2user = (\<lambda>_ us x. (None, us, x)), so_udestroy = None,
      so_trans_write = (\<lambda>_ bytes x. (max 1 (int (length bytes)), x)),
      so_version = (\<lambda>_ _ _ _ w. Some (None, w)), so_flush = None,
      so_attach = (\<lambda>_ _ _ _ _ _ x. (None, None, x)), so_clone = (\<lambda>_ _ _ x. (False, None, x)),
      so_walk = (\<lambda>_ _ _ _ x. (None, None, x)), so_open = (\<lambda>_ _ _ x. (None, None, x)),
      so_create = (\<lambda>_ _ _ _ _ _ _ x. (None, None, x)), so_read = (\<lambda>_ _ _ _ _ x. (None, None, x)),
      so_write = (\<lambda>_ _ _ _ _ _ _ x. (None, None, x)), so_clunk = (\<lambda>_ _ x. (None, None, x)),
      so_remove = (\<lambda>_ _ x. (None, None, x)), so_stat = (\<lambda>_ _ x. (None, None, x)),
      so_wstat = (\<lambda>_ _ _ _ x. (None, None, x))\<rparr>"

end
