(* ===== verification/FidPool.thy ===== *)
theory FidPool
  imports NpState
begin

text \<open>
  The fid table of a connection, \<^verbatim>\<open>npfs/libnpfs/fidpool.c\<close>: a hash table of
  64 doubly linked chains in which a lookup moves the fid it finds to the front of its
  chain. The operations are modelled pointer by pointer. \<open>pool_at\<close> says what a
  well-formed table is, \<open>fview\<close> is what it stores without the links, and the lemmas
  show that on well-formed tables the operations act on \<open>fview\<close> as a finite map that
  is keyed by connection and fid number.
\<close>

section \<open>Operations\<close>

definition np_fidpool_create :: "'x world \<Rightarrow> Npfidpool option \<times> 'x world" where
  "np_fidpool_create w =
     (case np_malloc w of
        (None, w) \<Rightarrow> (None, w)
      | (Some _, w) \<Rightarrow>
          (Some \<lparr>fp_size = FID_HTABLE_SIZE, fp_htable = replicate FID_HTABLE_SIZE None\<rparr>, w))"

text \<open>The search loop of \<^verbatim>\<open>np_fid_lookup\<close>; on a cyclic chain it need not end.\<close>

partial_function (option) fid_scan :: "Npfid heap \<Rightarrow> u32 \<Rightarrow> addr option \<Rightarrow> addr option option" where
  "fid_scan h fid p =
     (case p of
        None \<Rightarrow> Some None
      | Some a \<Rightarrow> do {
          f \<leftarrow> h a;
          if fid_fid f = fid then Some (Some a) else fid_scan h fid (fid_next f)
        })"

definition np_fid_lookup ::
  "Npfidpool \<Rightarrow> u32 \<Rightarrow> nat \<Rightarrow> Npfid heap \<Rightarrow> (addr option \<times> Npfidpool \<times> Npfid heap) option"
where
  "np_fid_lookup fp fid hash h =
     (if length (fp_htable fp) \<le> hash then None
      else do {
        r \<leftarrow> fid_scan h fid (fp_htable fp ! hash);
        (case r of
           None \<Rightarrow> Some (None, fp, h)
         | Some a \<Rightarrow>
             if fp_htable fp ! hash = Some a then Some (Some a, fp, h)
             else do {
               f \<leftarrow> h a;
               h \<leftarrow> hupd_opt (fid_next f) (fid_prev_update (\<lambda>_. fid_prev f)) h;
               f \<leftarrow> h a;
               p \<leftarrow> fid_prev f;
               h \<leftarrow> hupd p (fid_next_update (\<lambda>_. fid_next f)) h;
               h \<leftarrow> hupd a (fid_prev_update (\<lambda>_. None)) h;
               h \<leftarrow> hupd a (fid_next_update (\<lambda>_. fp_htable fp ! hash)) h;
               t \<leftarrow> fp_htable fp ! hash;
               h \<leftarrow> hupd t (fid_prev_update (\<lambda>_. Some a)) h;
               Some (Some a, fp\<lparr>fp_htable := (fp_htable fp)[hash := Some a]\<rparr>, h)
             })
      })"

text \<open>Storing a changed table back into its connection.\<close>

definition set_pool :: "addr \<Rightarrow> Npfidpool \<Rightarrow> Npfid heap \<Rightarrow> 'x world \<Rightarrow> 'x world option" where
  "set_pool c fp h w =
     map_option (\<lambda>cs. w\<lparr>w_conns := cs, w_fids := h\<rparr>)
       (hupd c (cn_fidpool_update (\<lambda>_. Some fp)) (w_conns w))"

definition np_fid_find :: "addr \<Rightarrow> u32 \<Rightarrow> 'x world \<Rightarrow> (addr option \<times> 'x world) option" where
  "np_fid_find c fid w = do {
     cn \<leftarrow> w_conns w c;
     fp \<leftarrow> cn_fidpool cn;
     (r, fp, h) \<leftarrow> np_fid_lookup fp fid (unat fid mod fp_size fp) (w_fids w);
     w \<leftarrow> set_pool c fp h w;
     Some (r, w)
   }"

definition new_fid :: "addr \<Rightarrow> u32 \<Rightarrow> Npfid" where
  "new_fid c fid = \<lparr>fid_conn = c, fid_fid = fid, fid_refcount = 0, fid_omode = - 1, fid_type = 0,
     fid_diroffset = 0, fid_user = None, fid_next = None, fid_prev = None\<rparr>"

definition np_fid_create :: "addr \<Rightarrow> u32 \<Rightarrow> 'x world \<Rightarrow> (addr option \<times> 'x world) option" where
  "np_fid_create c fid w = do {
     cn \<leftarrow> w_conns w c;
     fp \<leftarrow> cn_fidpool cn;
     let hash = unat fid mod FID_HTABLE_SIZE;
     (r, fp, h) \<leftarrow> np_fid_lookup fp fid hash (w_fids w);
     w \<leftarrow> set_pool c fp h w;
     (case r of
        Some a \<Rightarrow> Some (Some a, w)
      | None \<Rightarrow>
          (case np_malloc w of
             (None, w) \<Rightarrow> Some (None, w)
           | (Some a, w) \<Rightarrow> do {
               let h = (w_fids w)(a \<mapsto> (new_fid c fid)\<lparr>fid_next := fp_htable fp ! hash\<rparr>);
               h \<leftarrow> hupd_opt (fp_htable fp ! hash) (fid_prev_update (\<lambda>_. Some a)) h;
               w \<leftarrow> set_pool c (fp\<lparr>fp_htable := (fp_htable fp)[hash := Some a]\<rparr>) h w;
               Some (Some a, w)
             }))
   }"

text \<open>The callback that releases the server's own part of a fid.\<close>

definition fid_release :: "'x srvops \<Rightarrow> addr \<Rightarrow> Npfid \<Rightarrow> 'x world \<Rightarrow> 'x world" where
  "fid_release so a f w =
     (if fid_type f AND Qtauth \<noteq> 0 \<and> so_auth so \<noteq> None \<and> au_clunk (the (so_auth so)) \<noteq> None
      then snd (run_cb (the (au_clunk (the (so_auth so))) a f) w)
      else if \<not> fid_type f AND Qtauth \<noteq> 0 \<and> so_fiddestroy so \<noteq> None
      then w\<lparr>w_user := the (so_fiddestroy so) a f (w_user w)\<rparr>
      else w)"

definition np_fid_destroy :: "'x srvops \<Rightarrow> addr \<Rightarrow> 'x world \<Rightarrow> 'x world option" where
  "np_fid_destroy so a w = do {
     f \<leftarrow> w_fids w a;
     cn \<leftarrow> w_conns w (fid_conn f);
     (case cn_fidpool cn of
        None \<Rightarrow> Some w
      | Some fp \<Rightarrow> do {
          let hash = unat (fid_fid f) mod fp_size fp;
          (fp, h) \<leftarrow> (case fid_prev f of
             Some p \<Rightarrow> map_option (\<lambda>h. (fp, h)) (hupd p (fid_next_update (\<lambda>_. fid_next f)) (w_fids w))
           | None \<Rightarrow> if length (fp_htable fp) \<le> hash then None
               else Some (fp\<lparr>fp_htable := (fp_htable fp)[hash := fid_next f]\<rparr>, w_fids w));
          f \<leftarrow> h a;
          h \<leftarrow> hupd_opt (fid_next f) (fid_prev_update (\<lambda>_. fid_prev f)) h;
          w \<leftarrow> set_pool (fid_conn f) fp h w;
          f \<leftarrow> w_fids w a;
          let w = fid_release so a f w;
          w \<leftarrow> np_user_decref so (fid_user f) w;
          Some (w\<lparr>w_fids := (w_fids w)(a := None)\<rparr>)
        })
   }"

definition np_fid_incref :: "addr option \<Rightarrow> 'x world \<Rightarrow> 'x world option" where
  "np_fid_incref p w =
     map_option (\<lambda>h. w\<lparr>w_fids := h\<rparr>) (hupd_opt p (fid_refcount_update (\<lambda>n. n + 1)) (w_fids w))"

definition np_fid_decref :: "'x srvops \<Rightarrow> addr option \<Rightarrow> 'x world \<Rightarrow> 'x world option" where
  "np_fid_decref so p w =
     (case p of
        None \<Rightarrow> Some w
      | Some a \<Rightarrow> do {
          h \<leftarrow> hupd a (fid_refcount_update (\<lambda>n. n - 1)) (w_fids w);
          f \<leftarrow> h a;
          if fid_refcount f = 0 then np_fid_destroy so a (w\<lparr>w_fids := h\<rparr>)
          else Some (w\<lparr>w_fids := h\<rparr>)
        })"

text \<open>
  \<^verbatim>\<open>np_fidpool_destroy\<close> releases every fid, chain by chain; it drops no reference to
  the fids' users.
\<close>

partial_function (option) free_chain :: "'x srvops \<Rightarrow> addr option \<Rightarrow> 'x world \<Rightarrow> 'x world option" where
  "free_chain so p w =
     (case p of
        None \<Rightarrow> Some w
      | Some a \<Rightarrow> do {
          f \<leftarrow> w_fids w a;
          _ \<leftarrow> w_conns w (fid_conn f);
          let w = fid_release so a f w;
          free_chain so (fid_next f) (w\<lparr>w_fids := (w_fids w)(a := None)\<rparr>)
        })"

fun free_chains :: "'x srvops \<Rightarrow> addr option list \<Rightarrow> 'x world \<Rightarrow> 'x world option" where
  "free_chains so [] w = Some w"
| "free_chains so (p # ps) w = do { w \<leftarrow> free_chain so p w; free_chains so ps w }"

definition np_fidpool_destroy :: "'x srvops \<Rightarrow> Npfidpool \<Rightarrow> 'x world \<Rightarrow> 'x world option" where
  "np_fidpool_destroy so fp w =
     (if length (fp_htable fp) < fp_size fp then None
      else free_chains so (take (fp_size fp) (fp_htable fp)) w)"

section \<open>Well-formed tables\<close>

abbreviation fid_seg :: "Npfid heap \<Rightarrow> addr option \<Rightarrow> addr option \<Rightarrow> addr list \<Rightarrow> addr option \<Rightarrow> bool" where
  "fid_seg \<equiv> dseg fid_next fid_prev"

definition fid_strip :: "Npfid \<Rightarrow> Npfid" where
  "fid_strip f = f\<lparr>fid_next := None, fid_prev := None\<rparr>"

definition fid_num :: "Npfid heap \<Rightarrow> addr \<Rightarrow> u32" where
  "fid_num h a = (case h a of None \<Rightarrow> 0 | Some f \<Rightarrow> fid_fid f)"

definition fid_hash :: "u32 \<Rightarrow> nat" where
  "fid_hash fid = unat fid mod 64"

interpretation fl: links fid_next fid_prev "\<lambda>v. fid_next_update (\<lambda>_. v)" "\<lambda>v. fid_prev_update (\<lambda>_. v)" fid_strip
  by unfold_locales (simp_all add: fid_strip_def)

text \<open>The fid \<open>fid\<close> of connection \<open>c\<close> is stored at address \<open>a\<close>.\<close>

definition fid_at :: "(addr \<Rightarrow> Npfid option) \<Rightarrow> addr \<Rightarrow> u32 \<Rightarrow> addr \<Rightarrow> bool" where
  "fid_at v c fid a \<longleftrightarrow> (case v a of None \<Rightarrow> False | Some f \<Rightarrow> fid_conn f = c \<and> fid_fid f = fid)"

lemma fid_at_num: "fid_at h c fid a \<Longrightarrow> fid_num h a = fid"
  by (auto simp: fid_at_def fid_num_def split: option.splits)

lemma fid_at_same: "h' a = h a \<Longrightarrow> fid_at h' c fid a = fid_at h c fid a"
  by (simp add: fid_at_def)

text \<open>The chain of bucket \<open>i\<close> of connection \<open>c\<close>.\<close>

definition bucket_at :: "Npfid heap \<Rightarrow> addr \<Rightarrow> nat \<Rightarrow> addr option \<Rightarrow> addr list \<Rightarrow> bool" where
  "bucket_at h c i p as \<longleftrightarrow> fid_seg h None p as None \<and> distinct as \<and> distinct (map (fid_num h) as) \<and>
     (\<forall>a. a \<in> set as \<longleftrightarrow> (\<exists>fid. fid_at h c fid a \<and> fid_hash fid = i))"

definition pool_at :: "Npfid heap \<Rightarrow> addr \<Rightarrow> Npfidpool \<Rightarrow> addr list list \<Rightarrow> bool" where
  "pool_at h c fp bs \<longleftrightarrow> fp_size fp = 64 \<and> length (fp_htable fp) = 64 \<and> length bs = 64 \<and>
     (\<forall>i<64. bucket_at h c i (fp_htable fp ! i) (bs ! i))"

lemma fid_hash_less [simp]: "fid_hash fid < 64" by (simp add: fid_hash_def)

lemma pool_bucket: "pool_at h c fp bs \<Longrightarrow> i < 64 \<Longrightarrow> bucket_at h c i (fp_htable fp ! i) (bs ! i)"
  by (simp add: pool_at_def)

lemma fid_scan_find:
  "fid_seg h pr p as None \<Longrightarrow> fid_scan h fid p = Some (find (\<lambda>a. fid_num h a = fid) as)"
proof (induction as arbitrary: pr p)
  case Nil
  then show ?case by (simp add: fid_scan.simps)
next
  case (Cons a as)
  then obtain f where f: "p = Some a" "h a = Some f" "fid_seg h (Some a) (fid_next f) as None"
    by (auto split: option.splits)
  show ?case
    unfolding fid_scan.simps [of h fid p] using f Cons.IH [OF f(3)] by (simp add: fid_num_def)
qed

lemma strip_fields:
  "fid_strip f' = fid_strip f \<Longrightarrow> fid_conn f' = fid_conn f \<and> fid_fid f' = fid_fid f \<and>
     fid_refcount f' = fid_refcount f \<and> fid_omode f' = fid_omode f \<and> fid_type f' = fid_type f \<and>
     fid_diroffset f' = fid_diroffset f \<and> fid_user f' = fid_user f"
  by (cases f, cases f') (simp add: fid_strip_def)

lemma fid_num_view: "hview fid_strip h' = hview fid_strip h \<Longrightarrow> fid_num h' = fid_num h"
proof (rule ext)
  fix a assume v: "hview fid_strip h' = hview fid_strip h"
  show "fid_num h' a = fid_num h a"
  proof (cases "h a")
    case None
    then show ?thesis using hview_eq_None [OF v, of a] by (simp add: fid_num_def)
  next
    case (Some f)
    then obtain f' where "h' a = Some f'" "fid_strip f' = fid_strip f" using hview_eqD [OF v] by blast
    then show ?thesis using Some strip_fields [of f' f] by (simp add: fid_num_def)
  qed
qed

lemma fid_at_view:
  "hview fid_strip h' = hview fid_strip h \<Longrightarrow> fid_at h' c fid a \<longleftrightarrow> fid_at h c fid a"
  using hview_eqD [of fid_strip h' h a] hview_eq_None [of fid_strip h' h a]
  by (auto simp: fid_at_def split: option.splits dest!: strip_fields)

lemma bucket_set: "bucket_at h c i p as \<Longrightarrow> a \<in> set as \<longleftrightarrow> (\<exists>fid. fid_at h c fid a \<and> fid_hash fid = i)"
  unfolding bucket_at_def by blast

lemma bucket_view:
  assumes b: "bucket_at h c i p as" and v: "hview fid_strip h' = hview fid_strip h"
    and s: "fid_seg h' None p' as' None" "set as' = set as" "distinct as'"
  shows "bucket_at h' c i p' as'"
proof -
  have "distinct (map (fid_num h') as')"
    using b s(2,3) unfolding fid_num_view [OF v] by (simp add: bucket_at_def distinct_map)
  then show ?thesis using s bucket_set [OF b] fid_at_view [OF v] by (simp add: bucket_at_def)
qed

lemma bucket_find:
  assumes "bucket_at h c (fid_hash fid) p as"
  shows "case find (\<lambda>a. fid_num h a = fid) as of
      None \<Rightarrow> \<forall>a. \<not> fid_at h c fid a
    | Some a \<Rightarrow> a \<in> set as \<and> fid_at h c fid a"
proof (cases "find (\<lambda>a. fid_num h a = fid) as")
  case None
  then have "\<not> fid_at h c fid a" for a
    using bucket_set [OF assms, of a] fid_at_num [of h c fid a] by (auto simp: find_None_iff)
  then show ?thesis using None by simp
next
  case (Some a)
  then have "a \<in> set as" "fid_num h a = fid" by (auto simp: find_Some_iff)
  moreover from this(1) obtain fid' where "fid_at h c fid' a" using bucket_set [OF assms] by blast
  ultimately show ?thesis using Some fid_at_num by fastforce
qed

lemma bucket_unique:
  assumes b: "bucket_at h c (fid_hash fid) p as" and a: "fid_at h c fid a" "fid_at h c fid b"
  shows "a = b"
proof -
  have "a \<in> set as" "b \<in> set as" using bucket_set [OF b] a by blast+
  moreover have "inj_on (fid_num h) (set as)" using b by (simp add: bucket_at_def distinct_map)
  ultimately show ?thesis using fid_at_num [OF a(1)] fid_at_num [OF a(2)] by (auto dest: inj_onD)
qed

lemma pool_unique: "pool_at h c fp bs \<Longrightarrow> fid_at h c fid a \<Longrightarrow> fid_at h c fid b \<Longrightarrow> a = b"
  by (rule bucket_unique [OF pool_bucket]) auto

text \<open>Replacing one bucket.\<close>

lemma pool_replace:
  assumes "pool_at h c fp bs" "i < 64"
    and "bucket_at h' c i p' as'"
    and "\<And>b fid. fid_at h c fid b \<Longrightarrow> fid_hash fid \<noteq> i \<Longrightarrow> h' b = h b"
    and "\<And>b fid. fid_at h' c fid b \<Longrightarrow> fid_hash fid \<noteq> i \<Longrightarrow> fid_at h c fid b"
  shows "pool_at h' c (fp\<lparr>fp_htable := (fp_htable fp)[i := p']\<rparr>) (bs[i := as'])"
proof -
  have "bucket_at h' c j (fp_htable fp ! j) (bs ! j)" if j: "j < 64" "j \<noteq> i" for j
  proof -
    note b = pool_bucket [OF assms(1) j(1)]
    have eq: "h' a = h a" if "a \<in> set (bs ! j)" for a
      using bucket_set [OF b] that assms(4) j(2) by blast
    have "fid_seg h' None (fp_htable fp ! j) (bs ! j) None"
      by (rule dseg_cong [where h = h]) (use b eq in \<open>auto simp: bucket_at_def\<close>)
    moreover have "distinct (map (fid_num h') (bs ! j))"
    proof -
      have m: "map (fid_num h') (bs ! j) = map (fid_num h) (bs ! j)"
        using eq by (simp add: fid_num_def)
      show ?thesis unfolding m using b by (simp add: bucket_at_def)
    qed
    moreover have "a \<in> set (bs ! j) \<longleftrightarrow> (\<exists>fid. fid_at h' c fid a \<and> fid_hash fid = j)" for a
      using bucket_set [OF b, of a] eq [of a] assms(5) j(2) fid_at_same [of h' a h c] by metis
    ultimately show ?thesis using b by (simp add: bucket_at_def)
  qed
  then show ?thesis using assms(1-3) by (auto simp: pool_at_def nth_list_update)
qed


section \<open>The operations on well-formed tables\<close>

lemma fid_at_link:
  "hview fid_strip h' = hview fid_strip h \<Longrightarrow> fid_at h' c fid b \<longleftrightarrow> fid_at h c fid b"
  by (rule fid_at_view)

text \<open>Moving a fid to the front of its chain.\<close>

lemma move_to_front:
  assumes b: "bucket_at h c i p as" and a: "a \<in> set as" "p \<noteq> Some a" and f: "h a = Some f"
  shows "\<exists>q t h1 h2 h3 as'. fid_prev f = Some q \<and> p = Some t \<and>
    hupd_opt (fid_next f) (fid_prev_update (\<lambda>_. fid_prev f)) h = Some h1 \<and> h1 a = Some f \<and>
    hupd q (fid_next_update (\<lambda>_. fid_next f)) h1 = Some h2 \<and> h2 a = Some f \<and>
    hupd t (fid_prev_update (\<lambda>_. Some a)) (h2(a \<mapsto> f\<lparr>fid_prev := None, fid_next := p\<rparr>)) = Some h3 \<and>
    bucket_at h3 c i (Some a) as' \<and> hview fid_strip h3 = hview fid_strip h \<and>
    (\<forall>x. x \<notin> set as \<longrightarrow> h3 x = h x)"
proof -
  obtain xs ys where as: "as = xs @ a # ys" using a(1) by (meson split_list)
  have seg: "fid_seg h None p (xs @ a # ys) None" and d: "distinct (xs @ a # ys)"
    using b as by (auto simp: bucket_at_def)
  obtain z zs where xs: "xs = z # zs" using seg a(2) by (cases xs) auto
  then have p: "p = Some z" using seg by simp
  obtain h1 h2 where u: "hupd_opt (fid_prev f) (fid_next_update (\<lambda>_. fid_next f)) h = Some h1"
      "hupd_opt (fid_next f) (fid_prev_update (\<lambda>_. fid_prev f)) h1 = Some h2"
      "fid_seg h2 None (headp (xs @ ys) None) (xs @ ys) None"
      "h1 a = Some f" "h2 a = Some f" "fid_prev f = lastp None xs" "fid_next f = headp ys None"
      "\<forall>x. x \<notin> set (xs @ ys) \<longrightarrow> h2 x = h x" "hview fid_strip h2 = hview fid_strip h"
    using fl.unlink [OF seg d f] by blast
  have q: "fid_prev f = Some (last xs)" using u(6) xs by (simp add: lastp_def)
  have "last xs \<in> set xs" using xs by simp
  then have "fid_prev f = Some x \<Longrightarrow> fid_next f \<noteq> Some x" for x
    using q u(7) d by (cases ys) auto
  then obtain h1' where c: "hupd_opt (fid_next f) (fid_prev_update (\<lambda>_. fid_prev f)) h = Some h1'"
      "hupd_opt (fid_prev f) (fid_next_update (\<lambda>_. fid_next f)) h1' = Some h2"
    using hupd_opt_commute [OF _ u(1,2)] by blast
  have a1: "h1' a = Some f"
    using c(1) f u(7) d by (cases ys) (auto simp: hupd_def split: option.splits if_splits)
  let ?f = "f\<lparr>fid_prev := None, fid_next := p\<rparr>" and ?h = "h2(a \<mapsto> f\<lparr>fid_prev := None, fid_next := p\<rparr>)"
  have v: "hview fid_strip ?h = hview fid_strip h"
    using hview_upd_same [of h2 a f fid_strip ?f] u(5,9) by (simp add: fid_strip_def)
  have s: "fid_seg ?h None p (xs @ ys) None"
    using dseg_upd_other [OF u(3), of a] d xs p by simp
  obtain h3 where h3: "hupd_opt p (fid_prev_update (\<lambda>_. Some a)) ?h = Some h3"
      "fid_seg (h3(a \<mapsto> ?f)) None (Some a) (a # xs @ ys) None"
      "\<forall>x. x \<notin> set (xs @ ys) \<longrightarrow> h3 x = ?h x" "hview fid_strip h3 = hview fid_strip ?h"
    using fl.push_front [OF s, of a ?f] d by auto
  have h3a: "h3(a \<mapsto> ?f) = h3" using h3(3) d by (simp add: fun_upd_idem)
  have "bucket_at h3 c i (Some a) (a # xs @ ys)"
    by (rule bucket_view [OF b]) (use h3 h3a v d as in auto)
  moreover have "h3 x = h x" if "x \<notin> set as" for x
    using that h3(3) u(8) as by auto
  ultimately show ?thesis using q p c a1 u(5) h3 v by auto
qed

lemma lookup_at:
  assumes pool: "pool_at h c fp bs"
  shows "\<exists>r fp' h' bs'. np_fid_lookup fp fid (fid_hash fid) h = Some (r, fp', h') \<and>
    pool_at h' c fp' bs' \<and> hview fid_strip h' = hview fid_strip h \<and>
    (\<forall>x. (\<forall>k. \<not> fid_at h c k x) \<longrightarrow> h' x = h x) \<and>
    (case r of None \<Rightarrow> h' = h \<and> (\<forall>a. \<not> fid_at h c fid a) | Some a \<Rightarrow> fid_at h c fid a)"
proof -
  let ?i = "fid_hash fid"
  let ?p = "fp_htable fp ! ?i"
  have len: "\<not> length (fp_htable fp) \<le> ?i" using pool by (simp add: pool_at_def not_le)
  note b = pool_bucket [OF pool fid_hash_less [of fid]]
  have scan: "fid_scan h fid ?p = Some (find (\<lambda>a. fid_num h a = fid) (bs ! ?i))"
    using b by (intro fid_scan_find [of h None]) (simp add: bucket_at_def)
  show ?thesis
  proof (cases "find (\<lambda>a. fid_num h a = fid) (bs ! ?i)")
    case None
    then show ?thesis using pool len scan bucket_find [OF b] by (auto simp: np_fid_lookup_def)
  next
    case (Some a)
    then have a: "a \<in> set (bs ! ?i)" "fid_at h c fid a" using bucket_find [OF b] by auto
    then obtain f where f: "h a = Some f" by (auto simp: fid_at_def split: option.splits)
    show ?thesis
    proof (cases "?p = Some a")
      case True
      then show ?thesis using pool len scan Some a by (auto simp: np_fid_lookup_def)
    next
      case False
      obtain q t h1 h2 h3 as' where m: "fid_prev f = Some q" "?p = Some t"
        "hupd_opt (fid_next f) (fid_prev_update (\<lambda>_. fid_prev f)) h = Some h1" "h1 a = Some f"
        "hupd q (fid_next_update (\<lambda>_. fid_next f)) h1 = Some h2" "h2 a = Some f"
        "hupd t (fid_prev_update (\<lambda>_. Some a)) (h2(a \<mapsto> f\<lparr>fid_prev := None, fid_next := ?p\<rparr>)) = Some h3"
        "bucket_at h3 c ?i (Some a) as'" "hview fid_strip h3 = hview fid_strip h"
        "\<forall>x. x \<notin> set (bs ! ?i) \<longrightarrow> h3 x = h x"
        using move_to_front [OF b a(1) False f] by blast
      have run: "np_fid_lookup fp fid ?i h =
          Some (Some a, fp\<lparr>fp_htable := (fp_htable fp)[?i := Some a]\<rparr>, h3)"
        using len scan Some False f m by (simp add: np_fid_lookup_def)
      have "pool_at h3 c (fp\<lparr>fp_htable := (fp_htable fp)[?i := Some a]\<rparr>) (bs[?i := as'])"
        by (rule pool_replace [OF pool fid_hash_less m(8)])
          (use m(10) bucket_set [OF b] fid_at_num fid_at_view [OF m(9)] in blast)+
      moreover have "h3 x = h x" if "\<forall>k. \<not> fid_at h c k x" for x
        using that m(10) bucket_set [OF b, of x] by blast
      ultimately show ?thesis using run m(9) a(2) by auto
    qed
  qed
qed

section \<open>The table of a connection in the whole state\<close>

definition conn_strip :: "Npconn \<Rightarrow> Npconn" where
  "conn_strip cn = cn\<lparr>cn_fidpool := map_option (\<lambda>_. \<lparr>fp_size = 0, fp_htable = []\<rparr>) (cn_fidpool cn)\<rparr>"

definition fview :: "'x world \<Rightarrow> addr \<Rightarrow> Npfid option" where
  "fview w = hview fid_strip (w_fids w)"

definition cview :: "'x world \<Rightarrow> addr \<Rightarrow> Npconn option" where
  "cview w = hview conn_strip (w_conns w)"

text \<open>A connection that has a fid table.\<close>

definition conn_open :: "'x world \<Rightarrow> addr \<Rightarrow> bool" where
  "conn_open w c \<longleftrightarrow> (case w_conns w c of None \<Rightarrow> False | Some cn \<Rightarrow> cn_fidpool cn \<noteq> None)"

definition fids_ok :: "'x world \<Rightarrow> bool" where
  "fids_ok w \<longleftrightarrow> (\<forall>a f. w_fids w a = Some f \<longrightarrow> a < w_nmalloc w \<and> conn_open w (fid_conn f)) \<and>
     (\<forall>c cn fp. w_conns w c = Some cn \<longrightarrow> cn_fidpool cn = Some fp \<longrightarrow> (\<exists>bs. pool_at (w_fids w) c fp bs))"

text \<open>What the fid operations leave alone.\<close>

definition fid_frame :: "'x world \<Rightarrow> 'x world \<Rightarrow> bool" where
  "fid_frame w w' \<longleftrightarrow> w_reqs w' = w_reqs w \<and> w_srv w' = w_srv w \<and> w_reqpool w' = w_reqpool w \<and>
     w_self w' = w_self w \<and> w_mallocs w' = w_mallocs w \<and> w_out w' = w_out w \<and>
     w_closed w' = w_closed w \<and> cview w' = cview w \<and> w_nmalloc w \<le> w_nmalloc w'"

text \<open>A change of links only.\<close>

definition fid_same :: "'x world \<Rightarrow> 'x world \<Rightarrow> bool" where
  "fid_same w w' \<longleftrightarrow> fid_frame w w' \<and> w_users w' = w_users w \<and> w_nmalloc w' = w_nmalloc w \<and>
     w_errs w' = w_errs w \<and> w_user w' = w_user w"

lemma fid_frame_refl [simp]: "fid_frame w w" by (simp add: fid_frame_def)

lemma fid_frame_trans: "fid_frame w w' \<Longrightarrow> fid_frame w' w'' \<Longrightarrow> fid_frame w w''"
  by (simp add: fid_frame_def)

lemma fid_frame_core: "same_core w w' \<Longrightarrow> fid_frame w w'"
  by (simp add: same_core_def fid_frame_def cview_def)

lemma fid_at_hview [simp]: "fid_at (hview fid_strip h) c fid a = fid_at h c fid a"
  by (simp add: fid_at_def hview_def fid_strip_def split: option.splits)

lemma conn_stripD:
  assumes "conn_strip x = conn_strip y"
  shows "cn_trans x = cn_trans y" "cn_resetting x = cn_resetting y" "cn_refcount x = cn_refcount y"
    "cn_fidpool x = None \<longleftrightarrow> cn_fidpool y = None"
  using arg_cong [OF assms, of cn_trans] arg_cong [OF assms, of cn_resetting] arg_cong [OF assms, of cn_refcount]
    arg_cong [OF assms, of cn_fidpool]
  by (auto simp: conn_strip_def)

lemma cview_open: "cview w' = cview w \<Longrightarrow> conn_open w' c = conn_open w c"
proof (drule fun_cong [where x = c])
  have s: "cn_fidpool x = None \<longleftrightarrow> cn_fidpool y = None" if "conn_strip x = conn_strip y" for x y
    using arg_cong [OF that, of cn_fidpool] by (auto simp: conn_strip_def)
  assume "cview w' c = cview w c"
  then show ?thesis
    by (cases "w_conns w c"; cases "w_conns w' c") (auto simp: cview_def hview_def conn_open_def dest: s)
qed

lemma fids_ok_core: "fids_ok w \<Longrightarrow> same_core w w' \<Longrightarrow> fids_ok w'"
  by (fastforce simp: fids_ok_def same_core_def conn_open_def)

lemma fids_ok_pool: "fids_ok w \<Longrightarrow> conn_open w c \<Longrightarrow>
   \<exists>cn fp bs. w_conns w c = Some cn \<and> cn_fidpool cn = Some fp \<and> pool_at (w_fids w) c fp bs"
  by (fastforce simp: fids_ok_def conn_open_def split: option.splits)

lemma fids_ok_unique:
  assumes "fids_ok w" "fid_at (fview w) c fid a" "fid_at (fview w) c fid b"
  shows "a = b"
proof -
  have "conn_open w c" using assms by (auto simp: fids_ok_def fid_at_def fview_def hview_def fid_strip_def split: option.splits)
  then obtain fp bs where "pool_at (w_fids w) c fp bs" using fids_ok_pool [OF assms(1)] by blast
  from pool_unique [OF this, of fid a b] show ?thesis using assms(2,3) by (simp add: fview_def)
qed

text \<open>A heap change that only concerns the fids of connection \<open>c\<close>.\<close>

definition keeps_others :: "addr \<Rightarrow> Npfid heap \<Rightarrow> Npfid heap \<Rightarrow> bool" where
  "keeps_others c h h' \<longleftrightarrow> (\<forall>x f. fid_conn f \<noteq> c \<longrightarrow> (h' x = Some f \<longleftrightarrow> h x = Some f))"

lemma pool_others:
  assumes "pool_at h d fp bs" "d \<noteq> c" "keeps_others c h h'"
  shows "pool_at h' d fp bs"
proof -
  have at: "fid_at h' d k x = fid_at h d k x" for k x
  proof -
    have "h' x = Some f \<longleftrightarrow> h x = Some f" if "fid_conn f = d" for f
      using that assms(2,3) by (simp add: keeps_others_def)
    then show ?thesis by (force simp: fid_at_def split: option.splits)
  qed
  have "bucket_at h' d j (fp_htable fp ! j) (bs ! j)" if j: "j < 64" for j
  proof -
    note b = pool_bucket [OF assms(1) j]
    have eq: "h' x = h x" if "x \<in> set (bs ! j)" for x
      using bucket_set [OF b] that assms(2,3) by (auto simp: keeps_others_def fid_at_def split: option.splits)
    have "fid_seg h' None (fp_htable fp ! j) (bs ! j) None"
      by (rule dseg_cong [where h = h]) (use b eq in \<open>auto simp: bucket_at_def\<close>)
    moreover have "distinct (map (fid_num h') (bs ! j))"
    proof -
      have m: "map (fid_num h') (bs ! j) = map (fid_num h) (bs ! j)"
        using eq by (simp add: fid_num_def)
      show ?thesis unfolding m using b by (simp add: bucket_at_def)
    qed
    ultimately show ?thesis using b by (simp add: bucket_at_def at)
  qed
  then show ?thesis using assms(1) by (simp add: pool_at_def)
qed

lemma others_view:
  assumes "hview fid_strip h' = hview fid_strip h" "\<forall>x. (\<forall>k. \<not> fid_at h c k x) \<longrightarrow> h' x = h x"
  shows "keeps_others c h h'"
proof -
  have "h' x = h x" if "h x = Some f \<or> h' x = Some f" "fid_conn f \<noteq> c" for x f
  proof -
    have "\<not> fid_at h c k x" for k
      using that fid_at_view [OF assms(1), of c k x] by (auto simp: fid_at_def split: option.splits)
    then show ?thesis using assms(2) by blast
  qed
  then show ?thesis unfolding keeps_others_def by metis
qed

lemma fids_ok_intro:
  assumes "fids_ok w" "w_conns w c = Some cn" "cn_fidpool cn \<noteq> None" "pool_at h c fp bs"
    and "keeps_others c (w_fids w) h" "\<forall>x. h x \<noteq> None \<longrightarrow> x < w_nmalloc w'"
    and "w_fids w' = h" "w_conns w' = (w_conns w)(c \<mapsto> cn\<lparr>cn_fidpool := Some fp\<rparr>)"
  shows "fids_ok w'" and "cview w' = cview w"
proof -
  show cv: "cview w' = cview w"
    using assms(2,3,8) by (auto simp: cview_def hview_upd_same conn_strip_def)
  have "conn_open w (fid_conn f)" if "h x = Some f" for x f
  proof (cases "fid_conn f = c")
    case False
    then have "w_fids w x = Some f" using assms(5) that by (simp add: keeps_others_def)
    then show ?thesis using assms(1) by (simp add: fids_ok_def)
  qed (use assms(2,3) in \<open>simp add: conn_open_def\<close>)
  then have "conn_open w' (fid_conn f)" if "h x = Some f" for x f
    using that cview_open [OF cv] by blast
  moreover have "\<exists>bs. pool_at h d fp' bs" if "d \<noteq> c" "w_conns w d = Some cn'" "cn_fidpool cn' = Some fp'" for d cn' fp'
    using assms(1) that pool_others [OF _ that(1) assms(5)] by (auto simp: fids_ok_def) blast
  ultimately show "fids_ok w'" using assms(4,6-8) by (auto simp: fids_ok_def)
qed

lemma set_pool_ok:
  assumes "fids_ok w" "conn_open w c" "pool_at h c fp bs" "keeps_others c (w_fids w) h"
    and "\<forall>x. h x \<noteq> None \<longrightarrow> x < w_nmalloc w"
  shows "\<exists>w'. set_pool c fp h w = Some w' \<and> fids_ok w' \<and> w_fids w' = h \<and> fid_same w w' \<and>
    (\<exists>cn. w_conns w' c = Some cn \<and> cn_fidpool cn = Some fp)"
proof -
  obtain cn where cn: "w_conns w c = Some cn" "cn_fidpool cn \<noteq> None"
    using assms(2) by (auto simp: conn_open_def split: option.splits)
  let ?w = "w\<lparr>w_conns := (w_conns w)(c \<mapsto> cn\<lparr>cn_fidpool := Some fp\<rparr>), w_fids := h\<rparr>"
  have "set_pool c fp h w = Some ?w" using cn by (simp add: set_pool_def)
  moreover have "fids_ok ?w" "cview ?w = cview w"
    using fids_ok_intro [OF assms(1) cn assms(3,4), of ?w] assms(5) by auto
  ultimately show ?thesis by (auto simp: fid_frame_def fid_same_def)
qed

lemma fid_at_open: "fids_ok w \<Longrightarrow> fid_at (fview w) c fid a \<Longrightarrow> conn_open w c"
  by (auto simp: fids_ok_def fview_def fid_at_def split: option.splits)
    (auto simp: hview_def fid_strip_def)

text \<open>\<^verbatim>\<open>np_fid_find\<close>: finds the fid that is stored, and stores the same fids after it.\<close>

lemma np_fid_find_ok:
  assumes "fids_ok w" "conn_open w c"
  shows "\<exists>r w'. np_fid_find c fid w = Some (r, w') \<and> fids_ok w' \<and> fview w' = fview w \<and> fid_same w w' \<and>
    (case r of None \<Rightarrow> \<forall>a. \<not> fid_at (fview w) c fid a | Some a \<Rightarrow> fid_at (fview w) c fid a)"
proof -
  obtain cn fp bs where c: "w_conns w c = Some cn" "cn_fidpool cn = Some fp" "pool_at (w_fids w) c fp bs"
    using fids_ok_pool [OF assms] by blast
  have sz: "unat fid mod fp_size fp = fid_hash fid" using c(3) by (simp add: pool_at_def fid_hash_def)
  obtain r fp' h' bs' where l: "np_fid_lookup fp fid (fid_hash fid) (w_fids w) = Some (r, fp', h')"
      "pool_at h' c fp' bs'" "hview fid_strip h' = hview fid_strip (w_fids w)"
      "\<forall>x. (\<forall>k. \<not> fid_at (w_fids w) c k x) \<longrightarrow> h' x = w_fids w x"
      "case r of None \<Rightarrow> h' = w_fids w \<and> (\<forall>a. \<not> fid_at (w_fids w) c fid a) | Some a \<Rightarrow> fid_at (w_fids w) c fid a"
    using lookup_at [OF c(3), of fid] by blast
  have others: "keeps_others c (w_fids w) h'" by (rule others_view [OF l(3,4)])
  have bound: "\<forall>x. h' x \<noteq> None \<longrightarrow> x < w_nmalloc w"
    using hview_eq_None [OF l(3)] assms(1) by (auto simp: fids_ok_def)
  obtain w' where w': "set_pool c fp' h' w = Some w'" "fids_ok w'" "w_fids w' = h'" "fid_same w w'"
    using set_pool_ok [OF assms l(2) others bound] by blast
  then show ?thesis
    using c(1,2) l(1,3,5) by (auto simp: np_fid_find_def sz fview_def split: option.splits)
qed

text \<open>A fresh fid put in front of its chain.\<close>

lemma insert_at:
  assumes pool: "pool_at h c fp bs" and new: "\<forall>x. \<not> fid_at h c fid x" "h a = None"
  defines "p \<equiv> fp_htable fp ! fid_hash fid"
  shows "\<exists>h' bs'. hupd_opt p (fid_prev_update (\<lambda>_. Some a)) (h(a \<mapsto> (new_fid c fid)\<lparr>fid_next := p\<rparr>)) = Some h' \<and>
    pool_at h' c (fp\<lparr>fp_htable := (fp_htable fp)[fid_hash fid := Some a]\<rparr>) bs' \<and>
    hview fid_strip h' = (hview fid_strip h)(a \<mapsto> new_fid c fid) \<and> keeps_others c h h'"
proof -
  let ?i = "fid_hash fid" and ?as = "bs ! fid_hash fid" and ?r = "(new_fid c fid)\<lparr>fid_next := p\<rparr>"
  let ?h = "h(a \<mapsto> ?r)"
  note b = pool_bucket [OF pool fid_hash_less [of fid], folded p_def]
  have a: "a \<notin> set ?as" using bucket_set [OF b, of a] new(2) by (auto simp: fid_at_def)
  have at: "fid_at ?h c k x \<longleftrightarrow> (if x = a then k = fid else fid_at h c k x)" for k x
    by (auto simp: fid_at_def new_fid_def)
  have "fid_seg h None p ?as None" using b by (simp add: bucket_at_def)
  then have "fid_seg ?h None p ?as None" using a by (rule dseg_upd_other)
  moreover have "distinct (a # ?as)" using a b by (simp add: bucket_at_def)
  moreover have "fid_next ?r = p" "fid_prev ?r = None" by (simp_all add: new_fid_def)
  ultimately obtain h' where h': "hupd_opt p (fid_prev_update (\<lambda>_. Some a)) ?h = Some h'"
      "fid_seg (h'(a \<mapsto> ?r)) None (Some a) (a # ?as) None" "\<forall>x. x \<notin> set ?as \<longrightarrow> h' x = ?h x"
      "hview fid_strip h' = hview fid_strip ?h"
    using fl.push_front [of ?h p ?as a ?r] by blast
  have ha: "h'(a \<mapsto> ?r) = h'" using h'(3) a by (simp add: fun_upd_idem)
  have at': "fid_at h' c k x \<longleftrightarrow> (if x = a then k = fid else fid_at h c k x)" for k x
    using at fid_at_view [OF h'(4), of c k x] by simp
  have "distinct (map (fid_num h') (a # ?as))"
  proof -
    have n: "fid_num h' x = fid_num h x \<and> fid_num h x \<noteq> fid" if x: "x \<in> set ?as" for x
    proof -
      obtain k where k: "fid_at h c k x" using bucket_set [OF b] x by blast
      then have "fid_at h' c k x" using at' x a by auto
      then show ?thesis using k new(1) fid_at_num by metis
    qed
    then have "map (fid_num h') ?as = map (fid_num h) ?as" by simp
    then have "distinct (map (fid_num h') ?as)" using b by (simp only: bucket_at_def)
    moreover have "fid_num h' a = fid" using at' fid_at_num by metis
    moreover have "fid \<notin> fid_num h' ` set ?as" using n by auto
    ultimately show ?thesis by simp
  qed
  then have "bucket_at h' c ?i (Some a) (a # ?as)"
    using h'(2) ha a b bucket_set [OF b] at' unfolding bucket_at_def by auto
  then have "pool_at h' c (fp\<lparr>fp_htable := (fp_htable fp)[?i := Some a]\<rparr>) (bs[?i := a # ?as])"
  proof (rule pool_replace [OF pool fid_hash_less])
    fix x k assume k: "fid_at h c k x" "fid_hash k \<noteq> ?i"
    then have "x \<notin> set ?as" using bucket_set [OF b] fid_at_num by metis
    moreover have "x \<noteq> a" using k(1) new(2) by (auto simp: fid_at_def)
    ultimately show "h' x = h x" using h'(3) by simp
  next
    fix x k assume "fid_at h' c k x" "fid_hash k \<noteq> ?i"
    then show "fid_at h c k x" using at' by (auto split: if_splits)
  qed
  moreover have "hview fid_strip h' = (hview fid_strip h)(a \<mapsto> new_fid c fid)"
    using h'(4) by (simp add: hview_upd fid_strip_def new_fid_def)
  moreover have "keeps_others c h h'"
  proof -
    have "h' x = h x" if "h x = Some f \<or> h' x = Some f" "fid_conn f \<noteq> c" for x f
    proof -
      have "\<not> fid_at h c k x" for k
        using that at' [of k x] new(2) by (auto simp: fid_at_def split: option.splits if_splits)
      then have "x \<notin> set ?as" using bucket_set [OF b] by blast
      then have "h' x = ?h x" using h'(3) by simp
      moreover have "x \<noteq> a" using that new(2) calculation by (auto simp: new_fid_def)
      ultimately show ?thesis by simp
    qed
    then show ?thesis unfolding keeps_others_def by metis
  qed
  ultimately show ?thesis using h'(1) by blast
qed

lemma np_malloc_cases:
  obtains (fail) w' where "np_malloc w = (None, w')" "same_core w w'" "w_mallocs w (w_nmalloc w) = None"
  | (ok) w' where "np_malloc w = (Some (w_nmalloc w), w')" "same_core w w'" "w_nmalloc w < w_nmalloc w'"
      "w_mallocs w (w_nmalloc w) \<noteq> None" "w_errs w' = w_errs w" "w_user w' = w_user w"
proof (cases "w_mallocs w (w_nmalloc w)")
  case None
  then have "fst (np_malloc w) = None" by (simp add: np_malloc_def world_malloc_def)
  then show ?thesis using fail [of "snd (np_malloc w)"] same_core_np_malloc [of w] None
    by (metis prod.collapse)
next
  case (Some m)
  then show ?thesis
    using ok [of "w\<lparr>w_nmalloc := w_nmalloc w + 1\<rparr>"] by (simp add: np_malloc_def world_malloc_def same_core_def)
qed

lemma fview_core: "same_core w w' \<Longrightarrow> fview w' = fview w"
  by (simp add: same_core_def fview_def)

lemma np_fid_create_ok:
  assumes "fids_ok w" "conn_open w c"
  shows "\<exists>r w'. np_fid_create c fid w = Some (r, w') \<and> fids_ok w' \<and> fid_frame w w' \<and> w_users w' = w_users w \<and>
    (case r of
       None \<Rightarrow> fview w' = fview w \<and> (\<forall>a. \<not> fid_at (fview w) c fid a) \<and> w_mallocs w (w_nmalloc w) = None
     | Some a \<Rightarrow> (fid_at (fview w) c fid a \<and> fview w' = fview w) \<or>
         ((\<forall>b. \<not> fid_at (fview w) c fid b) \<and> fview w a = None \<and> fview w' = (fview w)(a \<mapsto> new_fid c fid)))"
proof -
  obtain cn fp bs where c: "w_conns w c = Some cn" "cn_fidpool cn = Some fp" "pool_at (w_fids w) c fp bs"
    using fids_ok_pool [OF assms] by blast
  have sz: "unat fid mod FID_HTABLE_SIZE = fid_hash fid" by (simp add: FID_HTABLE_SIZE_def fid_hash_def)
  obtain r fp' h' bs' where l: "np_fid_lookup fp fid (fid_hash fid) (w_fids w) = Some (r, fp', h')"
      "pool_at h' c fp' bs'" "hview fid_strip h' = hview fid_strip (w_fids w)"
      "\<forall>x. (\<forall>k. \<not> fid_at (w_fids w) c k x) \<longrightarrow> h' x = w_fids w x"
      "case r of None \<Rightarrow> h' = w_fids w \<and> (\<forall>a. \<not> fid_at (w_fids w) c fid a) | Some a \<Rightarrow> fid_at (w_fids w) c fid a"
    using lookup_at [OF c(3), of fid] by blast
  have others: "keeps_others c (w_fids w) h'" by (rule others_view [OF l(3,4)])
  have bound: "\<forall>x. h' x \<noteq> None \<longrightarrow> x < w_nmalloc w"
    using hview_eq_None [OF l(3)] assms(1) by (auto simp: fids_ok_def)
  obtain w1 cn1 where w1: "set_pool c fp' h' w = Some w1" "fids_ok w1" "w_fids w1 = h'" "fid_same w w1"
      "w_conns w1 c = Some cn1" "cn_fidpool cn1 = Some fp'"
    using set_pool_ok [OF assms l(2) others bound] by blast
  have v1: "fview w1 = fview w" using w1(3) l(3) by (simp add: fview_def)
  have f1: "fid_frame w w1" "w_users w1 = w_users w" "w_nmalloc w1 = w_nmalloc w" "w_mallocs w1 = w_mallocs w"
    using w1(4) by (auto simp: fid_same_def fid_frame_def)
  have open1: "conn_open w1 c" using w1(5,6) by (simp add: conn_open_def)
  show ?thesis
  proof (cases r)
    case (Some a)
    then show ?thesis using c(1,2) l(1,5) w1(1,2) v1 f1 by (simp add: np_fid_create_def sz fview_def)
  next
    case None
    then have absent: "h' = w_fids w" "\<forall>a. \<not> fid_at (w_fids w) c fid a" using l(5) by auto
    show ?thesis
    proof (cases rule: np_malloc_cases [of w1])
      case (fail w2)
      moreover from this have "fids_ok w2" "fid_frame w w2" "fview w2 = fview w" "w_users w2 = w_users w"
        using fids_ok_core [OF w1(2)] fid_frame_trans [OF f1(1) fid_frame_core] v1 fview_core [of w1 w2] f1(2)
        by (auto simp: same_core_def)
      ultimately show ?thesis
        using c(1,2) l(1) None w1(1) f1 absent by (simp add: np_fid_create_def sz fview_def)
    next
      case (ok w2)
      let ?a = "w_nmalloc w1"
      have w2: "w_fids w2 = h'" "w_conns w2 = w_conns w1" "fids_ok w2" "fid_frame w w2" "w_users w2 = w_users w"
        using same_coreD [OF ok(2)] w1(3) fids_ok_core [OF w1(2) ok(2)] f1(2)
          fid_frame_trans [OF f1(1) fid_frame_core [OF ok(2)]] by auto
      have fresh: "h' ?a = None" using bound f1(3) by fastforce
      obtain h2 bs2 where i: "hupd_opt (fp_htable fp' ! fid_hash fid) (fid_prev_update (\<lambda>_. Some ?a))
            (h'(?a \<mapsto> (new_fid c fid)\<lparr>fid_next := fp_htable fp' ! fid_hash fid\<rparr>)) = Some h2"
          "pool_at h2 c (fp'\<lparr>fp_htable := (fp_htable fp')[fid_hash fid := Some ?a]\<rparr>) bs2"
          "hview fid_strip h2 = (hview fid_strip h')(?a \<mapsto> new_fid c fid)" "keeps_others c h' h2"
        using insert_at [OF l(2) _ fresh, of fid] absent by blast
      have "\<forall>x. h2 x \<noteq> None \<longrightarrow> x < w_nmalloc w2"
      proof (intro allI impI)
        fix x assume "h2 x \<noteq> None"
        then have "hview fid_strip h2 x \<noteq> None" by (simp add: hview_def)
        then have "x = ?a \<or> h' x \<noteq> None" unfolding i(3) by (auto simp: hview_def split: if_splits)
        then show "x < w_nmalloc w2" using ok(3) bound f1(3) by fastforce
      qed
      moreover have "conn_open w2 c" using w1(5,6) w2(2) by (simp add: conn_open_def)
      ultimately obtain w3 where w3: "set_pool c (fp'\<lparr>fp_htable := (fp_htable fp')[fid_hash fid := Some ?a]\<rparr>) h2 w2 = Some w3"
          "fids_ok w3" "w_fids w3 = h2" "fid_same w2 w3"
        using set_pool_ok [OF w2(3) _ i(2)] i(4) w2(1) by blast
      have run: "np_fid_create c fid w = Some (Some ?a, w3)"
        using c(1,2) l(1) None w1(1) ok(1) w2(1) i(1) w3(1) by (simp add: np_fid_create_def sz)
      have f3: "fid_frame w w3" "w_users w3 = w_users w"
        using fid_frame_trans [OF w2(4)] w3(4) w2(5) by (auto simp: fid_same_def)
      have v3: "fview w3 = (fview w)(?a \<mapsto> new_fid c fid)" using w3(3) i(3) l(3) by (simp add: fview_def)
      have "fview w ?a = None" using fresh absent(1) by (simp add: fview_def hview_def)
      moreover have "\<forall>b. \<not> fid_at (fview w) c fid b" using absent(2) by (simp add: fview_def)
      ultimately show ?thesis using run w3(2) f3 v3
        by (intro exI [of _ "Some ?a"] exI [of _ w3]) simp
    qed
  qed
qed

text \<open>A fid taken out of its chain.\<close>

lemma remove_at:
  assumes pool: "pool_at h c fp bs" and f: "h a = Some f" "fid_conn f = c"
  defines "i \<equiv> fid_hash (fid_fid f)"
  shows "\<exists>fp' h1 h2 bs'.
    (case fid_prev f of
       Some p \<Rightarrow> map_option (\<lambda>h. (fp, h)) (hupd p (fid_next_update (\<lambda>_. fid_next f)) h)
     | None \<Rightarrow> if length (fp_htable fp) \<le> i then None
               else Some (fp\<lparr>fp_htable := (fp_htable fp)[i := fid_next f]\<rparr>, h)) = Some (fp', h1) \<and>
    h1 a = Some f \<and> hupd_opt (fid_next f) (fid_prev_update (\<lambda>_. fid_prev f)) h1 = Some h2 \<and>
    h2 a = Some f \<and> pool_at (h2(a := None)) c fp' bs' \<and> hview fid_strip h2 = hview fid_strip h \<and>
    keeps_others c h (h2(a := None))"
proof -
  note b = pool_bucket [OF pool fid_hash_less [of "fid_fid f"], folded i_def]
  have ai: "fid_at h c (fid_fid f) a" using f by (simp add: fid_at_def)
  then have "a \<in> set (bs ! i)" using bucket_set [OF b] i_def by blast
  then obtain xs ys where as: "bs ! i = xs @ a # ys" by (meson split_list)
  have seg: "fid_seg h None (fp_htable fp ! i) (xs @ a # ys) None" and d: "distinct (xs @ a # ys)"
    using b as by (auto simp: bucket_at_def)
  obtain h1 h2 where u: "hupd_opt (fid_prev f) (fid_next_update (\<lambda>_. fid_next f)) h = Some h1"
      "hupd_opt (fid_next f) (fid_prev_update (\<lambda>_. fid_prev f)) h1 = Some h2"
      "fid_seg h2 None (headp (xs @ ys) None) (xs @ ys) None"
      "h1 a = Some f" "h2 a = Some f" "fid_prev f = lastp None xs" "fid_next f = headp ys None"
      "\<forall>x. x \<notin> set (xs @ ys) \<longrightarrow> h2 x = h x" "hview fid_strip h2 = hview fid_strip h"
    using fl.unlink [OF seg d f(1)] by blast
  define fp' where "fp' = fp\<lparr>fp_htable := (fp_htable fp)[i := headp (xs @ ys) None]\<rparr>"
  have i64: "i < 64" by (simp add: i_def)
  then have len: "\<not> length (fp_htable fp) \<le> i" using pool by (simp add: pool_at_def)
  have run: "(case fid_prev f of
       Some p \<Rightarrow> map_option (\<lambda>h. (fp, h)) (hupd p (fid_next_update (\<lambda>_. fid_next f)) h)
     | None \<Rightarrow> if length (fp_htable fp) \<le> i then None
               else Some (fp\<lparr>fp_htable := (fp_htable fp)[i := fid_next f]\<rparr>, h)) = Some (fp', h1)"
  proof (cases xs)
    case Nil
    then show ?thesis using u len by (simp add: fp'_def)
  next
    case (Cons z zs)
    then have "fp_htable fp ! i = Some z" using seg by simp
    then have "fp' = fp" using Cons len by (simp add: fp'_def list_update_same_conv)
    then show ?thesis using u(1,6) Cons by (auto simp: lastp_def)
  qed
  let ?h = "h2(a := None)"
  have at: "fid_at ?h c k x \<longleftrightarrow> x \<noteq> a \<and> fid_at h c k x" for k x
    using fid_at_view [OF u(9), of c k x] by (auto simp: fid_at_def)
  have s: "fid_seg ?h None (headp (xs @ ys) None) (xs @ ys) None"
    using dseg_upd_other [OF u(3), of a None] d by simp
  have "map (fid_num ?h) (xs @ ys) = map (fid_num h) (xs @ ys)"
    using d fun_cong [OF fid_num_view [OF u(9)]] by (auto simp: fid_num_def)
  moreover have "distinct (map (fid_num h) (xs @ ys))" using b as by (simp add: bucket_at_def)
  ultimately have "distinct (map (fid_num ?h) (xs @ ys))" by (simp only:)
  moreover have "x \<in> set (xs @ ys) \<longleftrightarrow> (\<exists>k. fid_at ?h c k x \<and> fid_hash k = i)" for x
    using bucket_set [OF b, of x] as d at [of _ x] by auto
  ultimately have "bucket_at ?h c i (headp (xs @ ys) None) (xs @ ys)"
    using s d by (simp add: bucket_at_def)
  then have p': "pool_at ?h c fp' (bs[i := xs @ ys])"
    unfolding fp'_def
  proof (rule pool_replace [OF pool i64])
    fix x k assume k: "fid_at h c k x" "fid_hash k \<noteq> i"
    then have "x \<notin> set (bs ! i)" using bucket_set [OF b] fid_at_num by metis
    then show "?h x = h x" using u(8) as by auto
  qed (use at in blast)
  have "keeps_others c h ?h"
  proof -
    have "?h x = h x" if "h x = Some g \<or> ?h x = Some g" "fid_conn g \<noteq> c" for x g
    proof -
      have "\<not> fid_at h c k x" for k
        using that at [of k x] f by (auto simp: fid_at_def split: option.splits if_splits)
      then have "x \<notin> set (bs ! i)" using bucket_set [OF b] by blast
      then show ?thesis using u(8) as by auto
    qed
    then show ?thesis unfolding keeps_others_def by metis
  qed
  then show ?thesis using run u p' by blast
qed

text \<open>The user of a fid, if it has one, is allocated.\<close>

definition user_alive :: "'x world \<Rightarrow> Npfid \<Rightarrow> bool" where
  "user_alive w f \<longleftrightarrow> (case fid_user f of None \<Rightarrow> True | Some u \<Rightarrow> w_users w u \<noteq> None)"

lemma fid_release_core: "same_core w (fid_release so a f w)"
  by (simp add: fid_release_def) (simp add: same_core_def)

lemma np_user_decref_frame:
  assumes "user_alive w f"
  shows "\<exists>w'. np_user_decref so (fid_user f) w = Some w' \<and> w_fids w' = w_fids w \<and> w_conns w' = w_conns w \<and>
    w_nmalloc w' = w_nmalloc w \<and> fid_frame w w'"
  using assms by (auto simp: user_alive_def np_user_decref_def hupd_def fid_frame_def cview_def split: option.splits)

lemma np_fid_destroy_ok:
  assumes "fids_ok w" and f: "fview w a = Some f" "user_alive w f"
  shows "\<exists>w'. np_fid_destroy so a w = Some w' \<and> fids_ok w' \<and> fid_frame w w' \<and>
    fview w' = (fview w)(a := None)"
proof -
  obtain g where g: "w_fids w a = Some g" "fid_strip g = f"
    using f(1) by (auto simp: fview_def hview_Some)
  let ?c = "fid_conn g"
  have "conn_open w ?c" using assms(1) g(1) by (auto simp: fids_ok_def)
  then obtain cn fp bs where c: "w_conns w ?c = Some cn" "cn_fidpool cn = Some fp" "pool_at (w_fids w) ?c fp bs"
    using fids_ok_pool [OF assms(1)] by blast
  have sz: "unat (fid_fid g) mod fp_size fp = fid_hash (fid_fid g)"
    using c(3) by (simp add: pool_at_def fid_hash_def)
  obtain fp' h1 h2 bs' where r:
      "(case fid_prev g of
         Some p \<Rightarrow> map_option (\<lambda>h. (fp, h)) (hupd p (fid_next_update (\<lambda>_. fid_next g)) (w_fids w))
       | None \<Rightarrow> if length (fp_htable fp) \<le> fid_hash (fid_fid g) then None
                 else Some (fp\<lparr>fp_htable := (fp_htable fp)[fid_hash (fid_fid g) := fid_next g]\<rparr>, w_fids w)) = Some (fp', h1)"
      "h1 a = Some g" "hupd_opt (fid_next g) (fid_prev_update (\<lambda>_. fid_prev g)) h1 = Some h2" "h2 a = Some g"
      "pool_at (h2(a := None)) ?c fp' bs'" "hview fid_strip h2 = hview fid_strip (w_fids w)"
      "keeps_others ?c (w_fids w) (h2(a := None))"
    using remove_at [OF c(3) g(1) refl] by blast
  define w1 where "w1 = w\<lparr>w_conns := (w_conns w)(?c \<mapsto> cn\<lparr>cn_fidpool := Some fp'\<rparr>), w_fids := h2\<rparr>"
  have w1: "set_pool ?c fp' h2 w = Some w1" using c(1) by (simp add: set_pool_def w1_def)
  let ?w2 = "fid_release so a g w1"
  note core = fid_release_core [of w1 so a g]
  have "fid_user g = fid_user f" using g(2) by (auto simp: fid_strip_def)
  then have "user_alive ?w2 g" using f(2) same_coreD(4) [OF core]
    by (auto simp: user_alive_def w1_def split: option.splits)
  then obtain w3 where w3: "np_user_decref so (fid_user g) ?w2 = Some w3" "w_fids w3 = w_fids ?w2"
      "w_conns w3 = w_conns ?w2" "w_nmalloc w3 = w_nmalloc ?w2" "fid_frame ?w2 w3"
    using np_user_decref_frame by blast
  define w4 where "w4 = w3\<lparr>w_fids := (w_fids w3)(a := None)\<rparr>"
  have run: "np_fid_destroy so a w = Some w4"
    using g(1) c(1,2) r(1-4) w1 w3(1) by (simp add: np_fid_destroy_def sz w1_def w4_def)
  have h4: "w_fids w4 = h2(a := None)" "w_conns w4 = (w_conns w)(?c \<mapsto> cn\<lparr>cn_fidpool := Some fp'\<rparr>)"
    "w_nmalloc w \<le> w_nmalloc w4"
    using w3(2-4) same_coreD [OF core] by (simp_all add: w4_def w1_def)
  have bound: "\<forall>x. (h2(a := None)) x \<noteq> None \<longrightarrow> x < w_nmalloc w4"
  proof (intro allI impI)
    fix x assume "(h2(a := None)) x \<noteq> None"
    then have "w_fids w x \<noteq> None" using hview_eq_None [OF r(6), of x] by (auto split: if_splits)
    then show "x < w_nmalloc w4" using assms(1) h4(3) by (fastforce simp: fids_ok_def)
  qed
  then have ok: "fids_ok w4" "cview w4 = cview w"
    using fids_ok_intro [OF assms(1) c(1) _ r(5,7) bound h4(1,2)] c(2) by auto
  have "fid_frame w w4"
    using fid_frame_trans [OF fid_frame_core [OF core] w3(5)] ok(2) h4(3) by (auto simp: fid_frame_def w4_def w1_def)
  moreover have "fview w4 = (fview w)(a := None)" using h4(1) r(6) by (simp add: fview_def hview_upd)
  ultimately show ?thesis using run ok by blast
qed

section \<open>Changing a fid that stays in place\<close>

text \<open>\<^verbatim>\<open>fid->field = v\<close> for a field that is neither a link nor a key.\<close>

definition upd_fid :: "addr \<Rightarrow> (Npfid \<Rightarrow> Npfid) \<Rightarrow> 'x world \<Rightarrow> 'x world option" where
  "upd_fid a g w = map_option (\<lambda>h. w\<lparr>w_fids := h\<rparr>) (hupd a g (w_fids w))"

definition plain_upd :: "(Npfid \<Rightarrow> Npfid) \<Rightarrow> bool" where
  "plain_upd g \<longleftrightarrow> (\<forall>f. fid_next (g f) = fid_next f \<and> fid_prev (g f) = fid_prev f \<and>
     fid_conn (g f) = fid_conn f \<and> fid_fid (g f) = fid_fid f \<and> fid_strip (g f) = g (fid_strip f))"

lemma plain_upds [simp]:
  "plain_upd (fid_refcount_update u1)" "plain_upd (fid_omode_update u2)" "plain_upd (fid_type_update u3)"
  "plain_upd (fid_diroffset_update u4)" "plain_upd (fid_user_update u5)"
  by (simp_all add: plain_upd_def fid_strip_def)

lemma pool_plain:
  assumes "pool_at h c fp bs" "plain_upd g" "h a = Some f"
  shows "pool_at (h(a \<mapsto> g f)) c fp bs"
proof -
  have at: "fid_at (h(a \<mapsto> g f)) c k x = fid_at h c k x" for k x
    using assms(2,3) by (auto simp: fid_at_def plain_upd_def)
  have num: "fid_num (h(a \<mapsto> g f)) = fid_num h"
    using assms(2,3) by (auto simp: fid_num_def plain_upd_def)
  have "bucket_at (h(a \<mapsto> g f)) c j p as" if b: "bucket_at h c j p as" for j p as
  proof -
    have "fid_seg (h(a \<mapsto> g f)) None p as None"
      by (rule dseg_cong [where h = h]) (use b assms(2,3) in \<open>auto simp: bucket_at_def plain_upd_def\<close>)
    then show ?thesis using b by (simp add: bucket_at_def at num)
  qed
  then show ?thesis using assms(1) by (simp add: pool_at_def)
qed

lemma upd_fid_ok:
  assumes "fids_ok w" "plain_upd g" "fview w a = Some f"
  shows "\<exists>w'. upd_fid a g w = Some w' \<and> fids_ok w' \<and> fid_same w w' \<and> w_conns w' = w_conns w \<and>
    fview w' = (fview w)(a \<mapsto> g f)"
proof -
  obtain r where r: "w_fids w a = Some r" "f = fid_strip r" using assms(3) by (auto simp: fview_def hview_Some)
  let ?w = "w\<lparr>w_fids := (w_fids w)(a \<mapsto> g r)\<rparr>"
  have "fids_ok ?w"
    using assms(1) pool_plain [where g = g and h = "w_fids w" and a = a and f = r] assms(2) r(1)
    unfolding fids_ok_def conn_open_def plain_upd_def by (auto split: if_splits) blast+
  moreover have "fview ?w = (fview w)(a \<mapsto> g f)"
    using assms(2) r by (simp add: fview_def hview_upd plain_upd_def)
  ultimately show ?thesis using r(1) by (simp add: upd_fid_def fid_same_def fid_frame_def cview_def)
qed

lemma np_fid_incref_ok:
  assumes "fids_ok w" "fview w a = Some f"
  shows "\<exists>w'. np_fid_incref (Some a) w = Some w' \<and> fids_ok w' \<and> fid_same w w' \<and>
    fview w' = (fview w)(a \<mapsto> fid_refcount_update (\<lambda>n. n + 1) f)"
  using upd_fid_ok [OF assms(1) plain_upds(1) assms(2), of "\<lambda>n. n + 1"]
  by (auto simp: np_fid_incref_def upd_fid_def)

lemma np_fid_decref_ok:
  assumes "fids_ok w" "fview w a = Some f" "user_alive w f"
  shows "\<exists>w'. np_fid_decref so (Some a) w = Some w' \<and> fids_ok w' \<and> fid_frame w w' \<and>
    fview w' = (fview w)(a := if fid_refcount f = 1 then None else Some (fid_refcount_update (\<lambda>n. n - 1) f))"
proof -
  obtain w1 where w1: "upd_fid a (fid_refcount_update (\<lambda>n. n - 1)) w = Some w1" "fids_ok w1" "fid_same w w1"
      "fview w1 = (fview w)(a \<mapsto> fid_refcount_update (\<lambda>n. n - 1) f)"
    using upd_fid_ok [OF assms(1) plain_upds(1) assms(2), of "\<lambda>n. n - 1"] by auto
  obtain r where r: "w_fids w1 a = Some r" "fid_refcount r = fid_refcount f - 1"
  proof -
    have "hview fid_strip (w_fids w1) a = Some (fid_refcount_update (\<lambda>n. n - 1) f)"
      using w1(4) by (simp add: fview_def)
    then obtain r where r: "w_fids w1 a = Some r" "fid_strip r = fid_refcount_update (\<lambda>n. n - 1) f"
      by (auto simp: hview_Some)
    have "fid_refcount (fid_strip r) = fid_refcount r" by (simp add: fid_strip_def)
    then show ?thesis using that [OF r(1)] unfolding r(2) by simp
  qed
  have al: "user_alive w1 (fid_refcount_update (\<lambda>n. n - 1) f)"
    using assms(3) w1(3) by (auto simp: user_alive_def fid_same_def split: option.splits)
  have run: "np_fid_decref so (Some a) w =
      (if fid_refcount f = 1 then np_fid_destroy so a w1 else Some w1)"
    using w1(1) r by (auto simp: np_fid_decref_def upd_fid_def)
  show ?thesis
  proof (cases "fid_refcount f = 1")
    case True
    have "fview w1 a = Some (fid_refcount_update (\<lambda>n. n - 1) f)" using w1(4) by simp
    from np_fid_destroy_ok [OF w1(2) this al, of so]
    show ?thesis using run True w1(3,4) fid_frame_trans [of w w1] by (auto simp: fid_same_def)
  next
    case False
    then show ?thesis using run w1 by (simp add: fid_same_def)
  qed
qed

section \<open>Destroying a table\<close>

lemma distinct_concat_nth:
  assumes "\<And>i. i < length bs \<Longrightarrow> distinct (bs ! i)"
    and "\<And>i j. i < length bs \<Longrightarrow> j < length bs \<Longrightarrow> i \<noteq> j \<Longrightarrow> set (bs ! i) \<inter> set (bs ! j) = {}"
  shows "distinct (concat bs)"
  using assms
proof (induction bs)
  case (Cons as bs)
  have "distinct (concat bs)"
  proof (rule Cons.IH)
    show "distinct (bs ! i)" if "i < length bs" for i using Cons.prems(1) [of "Suc i"] that by simp
    show "set (bs ! i) \<inter> set (bs ! j) = {}" if "i < length bs" "j < length bs" "i \<noteq> j" for i j
      using Cons.prems(2) [of "Suc i" "Suc j"] that by simp
  qed
  moreover have "set as \<inter> set ys = {}" if ys: "ys \<in> set bs" for ys
  proof -
    obtain i where "i < length bs" "ys = bs ! i" using ys by (auto simp: in_set_conv_nth)
    then show ?thesis using Cons.prems(2) [of 0 "Suc i"] by simp
  qed
  ultimately show ?case using Cons.prems(1) [of 0] by auto
qed simp


lemma free_chain_ok:
  assumes "fid_seg (w_fids w) pr p as None" "distinct as"
    and "\<forall>x\<in>set as. \<exists>f. w_fids w x = Some f \<and> w_conns w (fid_conn f) \<noteq> None"
  shows "\<exists>w'. free_chain so p w = Some w' \<and> w_fids w' = (\<lambda>x. if x \<in> set as then None else w_fids w x) \<and>
    w_conns w' = w_conns w \<and> fid_frame w w'"
  using assms
proof (induction as arbitrary: w pr p)
  case Nil
  then show ?case by (simp add: free_chain.simps)
next
  case (Cons a as)
  then obtain f where f: "p = Some a" "w_fids w a = Some f" "w_conns w (fid_conn f) \<noteq> None"
      "fid_seg (w_fids w) (Some a) (fid_next f) as None" "a \<notin> set as" "distinct as"
    by (auto split: option.splits)
  let ?w1 = "fid_release so a f w"
  let ?w2 = "?w1\<lparr>w_fids := (w_fids ?w1)(a := None)\<rparr>"
  note core = fid_release_core [of w so a f]
  have h: "w_fids ?w2 = (w_fids w)(a := None)" "w_conns ?w2 = w_conns w"
    using same_coreD [OF core] by auto
  have seg: "fid_seg (w_fids ?w2) (Some a) (fid_next f) as None"
    unfolding h using f(4,5) by (rule dseg_upd_other)
  have "\<forall>x\<in>set as. \<exists>g. w_fids ?w2 x = Some g \<and> w_conns ?w2 (fid_conn g) \<noteq> None"
    using Cons.prems(3) f(5) unfolding h by auto
  from Cons.IH [OF seg f(6) this]
  obtain w' where w': "free_chain so (fid_next f) ?w2 = Some w'"
      "w_fids w' = (\<lambda>x. if x \<in> set as then None else w_fids ?w2 x)" "w_conns w' = w_conns ?w2" "fid_frame ?w2 w'"
    by blast
  have "free_chain so p w = Some w'"
    unfolding free_chain.simps [of so p] using f(1-3) w'(1) by auto
  moreover have "fid_frame w ?w2" using fid_frame_core [OF core] by (simp add: fid_frame_def cview_def)
  moreover have "w_fids w' = (\<lambda>x. if x \<in> set (a # as) then None else w_fids w x)"
    unfolding w'(2) h by (auto simp: fun_eq_iff)
  moreover have "w_conns w' = w_conns w" unfolding w'(3) h ..
  ultimately show ?case using fid_frame_trans [OF _ w'(4)] by blast
qed

lemma free_chains_ok:
  assumes "list_all2 (\<lambda>p as. fid_seg (w_fids w) None p as None \<and> distinct as) ps bs"
    and "\<forall>x\<in>set (concat bs). \<exists>f. w_fids w x = Some f \<and> w_conns w (fid_conn f) \<noteq> None"
    and "distinct (concat bs)"
  shows "\<exists>w'. free_chains so ps w = Some w' \<and>
    w_fids w' = (\<lambda>x. if x \<in> set (concat bs) then None else w_fids w x) \<and> w_conns w' = w_conns w \<and> fid_frame w w'"
  using assms
proof (induction bs arbitrary: ps w rule: list.induct)
  case Nil
  then show ?case by simp
next
  case (Cons as bs)
  from Cons.prems(1) obtain p qs where ps: "ps = p # qs" "fid_seg (w_fids w) None p as None" "distinct as"
      "list_all2 (\<lambda>p as. fid_seg (w_fids w) None p as None \<and> distinct as) qs bs"
    by (auto simp: list_all2_Cons2)
  have al: "\<forall>x\<in>set as. \<exists>f. w_fids w x = Some f \<and> w_conns w (fid_conn f) \<noteq> None"
    using Cons.prems(2) by auto
  obtain w1 where w1: "free_chain so p w = Some w1" "w_fids w1 = (\<lambda>x. if x \<in> set as then None else w_fids w x)"
      "w_conns w1 = w_conns w" "fid_frame w w1"
    using free_chain_ok [OF ps(2,3) al] by blast
  have dis: "set as \<inter> set (concat bs) = {}" using Cons.prems(3) by auto
  have same: "w_fids w1 x = w_fids w x" if "x \<in> set (concat bs)" for x
    using that dis w1(2) by auto
  have seg: "fid_seg (w_fids w1) None q ys None" if "fid_seg (w_fids w) None q ys None" "ys \<in> set bs" for q ys
    by (rule dseg_cong [OF that(1)]) (use same that(2) in force)
  have "list_all2 (\<lambda>p as. fid_seg (w_fids w1) None p as None \<and> distinct as) qs bs"
    using ps(4) seg by (auto simp: list_all2_conv_all_nth)
  moreover have "\<forall>x\<in>set (concat bs). \<exists>f. w_fids w1 x = Some f \<and> w_conns w1 (fid_conn f) \<noteq> None"
    using Cons.prems(2) same w1(3) by auto
  moreover have "distinct (concat bs)" using Cons.prems(3) by simp
  ultimately obtain w' where w': "free_chains so qs w1 = Some w'"
      "w_fids w' = (\<lambda>x. if x \<in> set (concat bs) then None else w_fids w1 x)" "w_conns w' = w_conns w1" "fid_frame w1 w'"
    using Cons.IH [of w1 qs] by blast
  have "w_fids w' = (\<lambda>x. if x \<in> set (concat (as # bs)) then None else w_fids w x)"
    using w'(2) w1(2) by (auto simp: fun_eq_iff)
  then show ?case using ps(1) w1 w' fid_frame_trans by auto
qed

text \<open>
  \<^verbatim>\<open>np_fidpool_destroy\<close> followed by \<^verbatim>\<open>conn->fidpool = NULL\<close>, as its callers do,
  frees exactly the fids of the connection.
\<close>

lemma np_fidpool_destroy_ok:
  assumes "fids_ok w" "w_conns w c = Some cn" "cn_fidpool cn = Some fp"
  shows "\<exists>w'. np_fidpool_destroy so fp w = Some w' \<and> fid_frame w w' \<and> w_conns w' = w_conns w \<and>
    fview w' = (\<lambda>a. if \<exists>k. fid_at (fview w) c k a then None else fview w a)"
proof -
  have "conn_open w c" using assms(2,3) by (simp add: conn_open_def)
  then obtain bs where pool: "pool_at (w_fids w) c fp bs"
    using fids_ok_pool [OF assms(1), of c] assms(2,3) by auto
  then have len: "fp_size fp = 64" "length (fp_htable fp) = 64" "length bs = 64" by (auto simp: pool_at_def)
  have mem: "x \<in> set (concat bs) \<longleftrightarrow> (\<exists>k. fid_at (w_fids w) c k x)" for x
  proof
    assume "x \<in> set (concat bs)"
    then obtain i where "i < 64" "x \<in> set (bs ! i)" using len(3) by (metis (no_types, opaque_lifting) UN_E in_set_conv_nth set_concat)
    then show "\<exists>k. fid_at (w_fids w) c k x" using bucket_set [OF pool_bucket [OF pool]] by blast
  next
    assume "\<exists>k. fid_at (w_fids w) c k x"
    then obtain k where "fid_at (w_fids w) c k x" by blast
    then have "x \<in> set (bs ! fid_hash k)" using bucket_set [OF pool_bucket [OF pool fid_hash_less]] by blast
    moreover have "bs ! fid_hash k \<in> set bs" using len(3) by simp
    ultimately show "x \<in> set (concat bs)" by auto
  qed
  have "distinct (concat bs)"
  proof -
    have d: "distinct (bs ! i)" if "i < 64" for i using pool_bucket [OF pool that] by (simp add: bucket_at_def)
    have "set (bs ! i) \<inter> set (bs ! j) = {}" if "i < 64" "j < 64" "i \<noteq> j" for i j
      using bucket_set [OF pool_bucket [OF pool that(1)]] bucket_set [OF pool_bucket [OF pool that(2)]] that(3)
        fid_at_num by (metis disjoint_iff)
    with d show ?thesis using len(3) by (intro distinct_concat_nth) auto
  qed
  moreover have "list_all2 (\<lambda>p as. fid_seg (w_fids w) None p as None \<and> distinct as) (fp_htable fp) bs"
    using pool_bucket [OF pool] len by (auto simp: list_all2_conv_all_nth bucket_at_def)
  moreover have "\<forall>x\<in>set (concat bs). \<exists>f. w_fids w x = Some f \<and> w_conns w (fid_conn f) \<noteq> None"
  proof
    fix x assume "x \<in> set (concat bs)"
    then obtain k where "fid_at (w_fids w) c k x" using mem by blast
    then show "\<exists>f. w_fids w x = Some f \<and> w_conns w (fid_conn f) \<noteq> None"
      using assms(2) by (auto simp: fid_at_def split: option.splits)
  qed
  ultimately obtain w' where "free_chains so (fp_htable fp) w = Some w'"
      "w_fids w' = (\<lambda>x. if x \<in> set (concat bs) then None else w_fids w x)" "w_conns w' = w_conns w" "fid_frame w w'"
    using free_chains_ok by blast
  then show ?thesis using len mem by (auto simp: np_fidpool_destroy_def fview_def hview_def fun_eq_iff)
qed

section \<open>The interface the request handlers rely on\<close>

text \<open>
  A fid table as the handlers see it: a well-formedness predicate, the fids it stores, the
  connections that are open, a frame relation, and the three operations with their laws. The
  two lemmas are the two ways a handler starts: on an existing fid, and on a new one.
\<close>

locale fid_table =
  fixes ok :: "'s \<Rightarrow> bool"
    and view :: "'s \<Rightarrow> addr \<Rightarrow> Npfid option"
    and opn :: "'s \<Rightarrow> addr \<Rightarrow> bool"
    and fr :: "'s \<Rightarrow> 's \<Rightarrow> bool"
    and find :: "addr \<Rightarrow> u32 \<Rightarrow> 's \<Rightarrow> (addr option \<times> 's) option"
    and create :: "addr \<Rightarrow> u32 \<Rightarrow> 's \<Rightarrow> (addr option \<times> 's) option"
    and incref :: "addr option \<Rightarrow> 's \<Rightarrow> 's option"
  assumes fr_trans: "fr w w' \<Longrightarrow> fr w' w'' \<Longrightarrow> fr w w''"
    and fr_opn: "fr w w' \<Longrightarrow> opn w' c = opn w c"
    and find_law: "ok w \<Longrightarrow> opn w c \<Longrightarrow>
      \<exists>r w'. find c fid w = Some (r, w') \<and> ok w' \<and> fr w w' \<and> view w' = view w \<and>
        (case r of None \<Rightarrow> \<forall>a. \<not> fid_at (view w) c fid a | Some a \<Rightarrow> fid_at (view w) c fid a)"
    and create_law: "ok w \<Longrightarrow> opn w c \<Longrightarrow> \<forall>a. \<not> fid_at (view w) c fid a \<Longrightarrow>
      \<exists>r w'. create c fid w = Some (r, w') \<and> ok w' \<and> fr w w' \<and>
        (case r of None \<Rightarrow> view w' = view w
         | Some a \<Rightarrow> view w a = None \<and> view w' = (view w)(a \<mapsto> new_fid c fid))"
    and incref_law: "ok w \<Longrightarrow> view w a = Some f \<Longrightarrow>
      \<exists>w'. incref (Some a) w = Some w' \<and> ok w' \<and> fr w w' \<and>
        view w' = (view w)(a \<mapsto> fid_refcount_update (\<lambda>n. n + 1) f)"
begin

lemma acquire:
  assumes "ok w" "opn w c"
  obtains (unknown) w' where "find c fid w = Some (None, w')" "ok w'" "fr w w'" "view w' = view w"
      "\<forall>a. \<not> fid_at (view w) c fid a"
  | (known) a f w1 w2 where "find c fid w = Some (Some a, w1)" "ok w1" "fr w w1" "view w1 = view w"
      "incref (Some a) w1 = Some w2" "ok w2" "fr w w2" "view w a = Some f" "fid_conn f = c" "fid_fid f = fid"
      "view w2 = (view w)(a \<mapsto> fid_refcount_update (\<lambda>n. n + 1) f)"
proof -
  obtain r w1 where r: "find c fid w = Some (r, w1)" "ok w1" "fr w w1" "view w1 = view w"
      "case r of None \<Rightarrow> \<forall>a. \<not> fid_at (view w) c fid a | Some a \<Rightarrow> fid_at (view w) c fid a"
    using find_law [OF assms] by blast
  show ?thesis
  proof (cases r)
    case None
    then show ?thesis using unknown r by simp
  next
    case (Some a)
    then obtain f where f: "view w a = Some f" "fid_conn f = c" "fid_fid f = fid"
      using r(5) by (auto simp: fid_at_def split: option.splits)
    then obtain w2 where "incref (Some a) w1 = Some w2" "ok w2" "fr w1 w2"
        "view w2 = (view w)(a \<mapsto> fid_refcount_update (\<lambda>n. n + 1) f)"
      using incref_law [OF r(2), of a f] r(4) by auto
    then show ?thesis using known [OF _ r(2,3,4)] r(1) Some f fr_trans [OF r(3)] by blast
  qed
qed

lemma claim:
  assumes "ok w" "opn w c" "\<forall>a. \<not> fid_at (view w) c fid a"
  obtains (nomem) w1 w2 where "find c fid w = Some (None, w1)" "create c fid w1 = Some (None, w2)"
      "ok w2" "fr w w2" "view w2 = view w"
  | (made) a w1 w2 w3 where "find c fid w = Some (None, w1)" "create c fid w1 = Some (Some a, w2)"
      "incref (Some a) w2 = Some w3" "ok w3" "fr w w3" "view w a = None"
      "view w3 = (view w)(a \<mapsto> (new_fid c fid)\<lparr>fid_refcount := 1\<rparr>)"
proof -
  obtain w1 where w1: "find c fid w = Some (None, w1)" "ok w1" "fr w w1" "view w1 = view w"
    using find_law [OF assms(1,2), of fid] assms(3) by (auto split: option.splits)
  have "opn w1 c" using fr_opn [OF w1(3)] assms(2) by simp
  then obtain r w2 where w2: "create c fid w1 = Some (r, w2)" "ok w2" "fr w1 w2"
      "case r of None \<Rightarrow> view w2 = view w1 | Some a \<Rightarrow> view w1 a = None \<and> view w2 = (view w1)(a \<mapsto> new_fid c fid)"
    using create_law [OF w1(2), of c fid] w1(4) assms(3) by auto
  show ?thesis
  proof (cases r)
    case None
    then show ?thesis using nomem [OF w1(1)] w2 w1(3,4) fr_trans by auto
  next
    case (Some a)
    then have "view w2 a = Some (new_fid c fid)" using w2(4) by simp
    from incref_law [OF w2(2) this] obtain w3 where "incref (Some a) w2 = Some w3" "ok w3" "fr w2 w3"
        "view w3 = (view w2)(a \<mapsto> fid_refcount_update (\<lambda>n. n + 1) (new_fid c fid))" by blast
    then show ?thesis
      using made [OF w1(1), of a w2 w3] Some w2 w1(3,4) fr_trans by (auto simp: new_fid_def)
  qed
qed

end

text \<open>The lookups, insertions and increments also keep the users.\<close>

definition fid_keep :: "'x world \<Rightarrow> 'x world \<Rightarrow> bool" where
  "fid_keep w w' \<longleftrightarrow> fid_frame w w' \<and> w_users w' = w_users w"

lemma fid_keep_trans: "fid_keep w w' \<Longrightarrow> fid_keep w' w'' \<Longrightarrow> fid_keep w w''"
  by (auto simp: fid_keep_def intro: fid_frame_trans)

interpretation ft: fid_table fids_ok fview conn_open fid_keep np_fid_find np_fid_create np_fid_incref
proof unfold_locales
  fix w w' w'' :: "'x world" and c fid a f
  show "fid_keep w w' \<Longrightarrow> fid_keep w' w'' \<Longrightarrow> fid_keep w w''" by (rule fid_keep_trans)
  show "fid_keep w w' \<Longrightarrow> conn_open w' c = conn_open w c"
    using cview_open [of w' w c] by (simp add: fid_keep_def fid_frame_def)
  show "fids_ok w \<Longrightarrow> conn_open w c \<Longrightarrow> \<exists>r w'. np_fid_find c fid w = Some (r, w') \<and> fids_ok w' \<and>
      fid_keep w w' \<and> fview w' = fview w \<and>
      (case r of None \<Rightarrow> \<forall>a. \<not> fid_at (fview w) c fid a | Some a \<Rightarrow> fid_at (fview w) c fid a)"
    using np_fid_find_ok [of w c fid] by (auto simp: fid_same_def fid_keep_def)
  show "fids_ok w \<Longrightarrow> conn_open w c \<Longrightarrow> \<forall>a. \<not> fid_at (fview w) c fid a \<Longrightarrow>
      \<exists>r w'. np_fid_create c fid w = Some (r, w') \<and> fids_ok w' \<and> fid_keep w w' \<and>
        (case r of None \<Rightarrow> fview w' = fview w
         | Some a \<Rightarrow> fview w a = None \<and> fview w' = (fview w)(a \<mapsto> new_fid c fid))"
    using np_fid_create_ok [of w c fid] by (fastforce simp: fid_keep_def split: option.splits)
  show "fids_ok w \<Longrightarrow> fview w a = Some f \<Longrightarrow> \<exists>w'. np_fid_incref (Some a) w = Some w' \<and> fids_ok w' \<and>
      fid_keep w w' \<and> fview w' = (fview w)(a \<mapsto> fid_refcount_update (\<lambda>n. n + 1) f)"
    using np_fid_incref_ok [of w a f] by (auto simp: fid_same_def fid_keep_def)
qed

end
