(* ===== verification/ReqQueue.thy ===== *)
theory ReqQueue
  imports NpState
begin

text \<open>
  The two request lists of the server in \<^verbatim>\<open>npfs/libnpfs/srv.c\<close>: the queue of
  outstanding requests and the list of requests that worker threads are busy with, both
  threaded through the same two links of \<^verbatim>\<open>Npreq\<close>. \<open>lists_at w qs ws\<close> says that
  they hold the requests \<open>qs\<close> and \<open>ws\<close>; the locale \<open>req_list\<close> is what the rest
  of the server relies on, and is interpreted on both lists.
\<close>

section \<open>Operations\<close>

definition np_srv_add_req :: "addr \<Rightarrow> 'x world \<Rightarrow> 'x world option" where
  "np_srv_add_req req w = do {
     let s = w_srv w;
     h \<leftarrow> hupd req (rq_prev_update (\<lambda>_. sv_reqs_last s)) (w_reqs w);
     h \<leftarrow> hupd_opt (sv_reqs_last s) (rq_next_update (\<lambda>_. Some req)) h;
     let s = s\<lparr>sv_reqs_last := Some req\<rparr>;
     let s = (if sv_reqs_first s = None then s\<lparr>sv_reqs_first := Some req\<rparr> else s);
     Some (w\<lparr>w_reqs := h, w_srv := s\<rparr>)
   }"

definition np_srv_remove_req :: "addr \<Rightarrow> 'x world \<Rightarrow> 'x world option" where
  "np_srv_remove_req req w = do {
     r \<leftarrow> w_reqs w req;
     h \<leftarrow> hupd_opt (rq_prev r) (rq_next_update (\<lambda>_. rq_next r)) (w_reqs w);
     r \<leftarrow> h req;
     h \<leftarrow> hupd_opt (rq_next r) (rq_prev_update (\<lambda>_. rq_prev r)) h;
     r \<leftarrow> h req;
     let s = w_srv w;
     let s = (if sv_reqs_first s = Some req then s\<lparr>sv_reqs_first := rq_next r\<rparr> else s);
     let s = (if sv_reqs_last s = Some req then s\<lparr>sv_reqs_last := rq_prev r\<rparr> else s);
     Some (w\<lparr>w_reqs := h, w_srv := s\<rparr>)
   }"

definition np_srv_add_workreq :: "addr \<Rightarrow> 'x world \<Rightarrow> 'x world option" where
  "np_srv_add_workreq req w = do {
     let s = w_srv w;
     h \<leftarrow> hupd_opt (sv_workreqs s) (rq_prev_update (\<lambda>_. Some req)) (w_reqs w);
     h \<leftarrow> hupd req (rq_next_update (\<lambda>_. sv_workreqs s)) h;
     let s = s\<lparr>sv_workreqs := Some req\<rparr>;
     h \<leftarrow> hupd req (rq_prev_update (\<lambda>_. None)) h;
     Some (w\<lparr>w_reqs := h, w_srv := s\<rparr>)
   }"

definition np_srv_remove_workreq :: "addr \<Rightarrow> 'x world \<Rightarrow> 'x world option" where
  "np_srv_remove_workreq req w = do {
     r \<leftarrow> w_reqs w req;
     (h, s) \<leftarrow> (case rq_prev r of
        Some p \<Rightarrow> map_option (\<lambda>h. (h, w_srv w)) (hupd p (rq_next_update (\<lambda>_. rq_next r)) (w_reqs w))
      | None \<Rightarrow> Some (w_reqs w, (w_srv w)\<lparr>sv_workreqs := rq_next r\<rparr>));
     r \<leftarrow> h req;
     h \<leftarrow> hupd_opt (rq_next r) (rq_prev_update (\<lambda>_. rq_prev r)) h;
     Some (w\<lparr>w_reqs := h, w_srv := s\<rparr>)
   }"

section \<open>The lists\<close>

abbreviation req_seg :: "Npreq heap \<Rightarrow> addr option \<Rightarrow> addr option \<Rightarrow> addr list \<Rightarrow> addr option \<Rightarrow> bool" where
  "req_seg \<equiv> dseg rq_next rq_prev"

definition req_strip :: "Npreq \<Rightarrow> Npreq" where
  "req_strip r = r\<lparr>rq_next := None, rq_prev := None\<rparr>"

definition rview :: "'x world \<Rightarrow> addr \<Rightarrow> Npreq option" where
  "rview w = hview req_strip (w_reqs w)"

interpretation rl: links rq_next rq_prev "\<lambda>v. rq_next_update (\<lambda>_. v)" "\<lambda>v. rq_prev_update (\<lambda>_. v)" req_strip
  by unfold_locales (simp_all add: req_strip_def)

definition lists_at :: "'x world \<Rightarrow> addr list \<Rightarrow> addr list \<Rightarrow> bool" where
  "lists_at w qs ws \<longleftrightarrow>
     req_seg (w_reqs w) None (sv_reqs_first (w_srv w)) qs None \<and> sv_reqs_last (w_srv w) = lastp None qs \<and>
     req_seg (w_reqs w) None (sv_workreqs (w_srv w)) ws None \<and> distinct (qs @ ws)"

text \<open>What the list operations leave alone.\<close>

definition srv_strip :: "Npsrv \<Rightarrow> Npsrv" where
  "srv_strip s = s\<lparr>sv_reqs_first := None, sv_reqs_last := None, sv_workreqs := None\<rparr>"

definition list_frame :: "'x world \<Rightarrow> 'x world \<Rightarrow> bool" where
  "list_frame w w' \<longleftrightarrow> rview w' = rview w \<and>
     w' = w\<lparr>w_reqs := w_reqs w', w_srv := w_srv w'\<rparr> \<and> srv_strip (w_srv w') = srv_strip (w_srv w)"

lemma list_frame_trans: "list_frame w w' \<Longrightarrow> list_frame w' w'' \<Longrightarrow> list_frame w w''"
  unfolding list_frame_def by (metis (no_types, lifting) world.unfold_congs(3,5) world.surjective world.update_convs(3,5))

lemma split_at: "a \<in> set xs \<Longrightarrow> \<exists>as bs. xs = as @ a # bs \<and> remove1 a xs = as @ bs"
proof -
  assume "a \<in> set xs"
  then obtain as bs where "xs = as @ a # bs" "a \<notin> set as" by (meson split_list_first)
  then show ?thesis by (intro exI [of _ as] exI [of _ bs]) (simp add: remove1_append)
qed

lemma np_srv_remove_workreq_at:
  assumes "lists_at w qs ws" "a \<in> set ws"
  shows "\<exists>w'. np_srv_remove_workreq a w = Some w' \<and> lists_at w' qs (remove1 a ws) \<and> list_frame w w' \<and>
    (\<forall>x. x \<notin> set qs \<union> set ws \<union> {a} \<longrightarrow> w_reqs w' x = w_reqs w x)"
proof -
  obtain as bs where ws: "ws = as @ a # bs" "remove1 a ws = as @ bs"
    using split_at [OF assms(2)] by blast
  let ?h = "w_reqs w"
  have seg: "req_seg ?h None (sv_workreqs (w_srv w)) (as @ a # bs) None" and d: "distinct (as @ a # bs)"
    and q: "req_seg ?h None (sv_reqs_first (w_srv w)) qs None" and dq: "set qs \<inter> set ws = {}"
    using assms(1) ws by (auto simp: lists_at_def)
  obtain r where r: "?h a = Some r" using dseg_alloc [OF seg] by auto
  obtain h1 h2 where u: "hupd_opt (rq_prev r) (rq_next_update (\<lambda>_. rq_next r)) ?h = Some h1"
      "hupd_opt (rq_next r) (rq_prev_update (\<lambda>_. rq_prev r)) h1 = Some h2"
      "req_seg h2 None (headp (as @ bs) None) (as @ bs) None"
      "h1 a = Some r" "h2 a = Some r" "rq_prev r = lastp None as" "rq_next r = headp bs None"
      "\<forall>x. x \<notin> set (as @ bs) \<longrightarrow> h2 x = ?h x" "hview req_strip h2 = hview req_strip ?h"
    using rl.unlink [OF seg d r] by blast
  let ?w = "w\<lparr>w_reqs := h2, w_srv := (w_srv w)\<lparr>sv_workreqs := headp (as @ bs) None\<rparr>\<rparr>"
  have "np_srv_remove_workreq a w = Some ?w"
  proof (cases as)
    case Nil
    then show ?thesis using u r by (simp add: np_srv_remove_workreq_def)
  next
    case (Cons b cs)
    then have "sv_workreqs (w_srv w) = Some b" using seg by simp
    then show ?thesis using u r Cons by (auto simp: np_srv_remove_workreq_def lastp_def split: if_splits)
  qed
  moreover have "req_seg h2 None (sv_reqs_first (w_srv w)) qs None"
    by (rule dseg_cong [OF q]) (use u(8) dq ws in auto)
  then have "lists_at ?w qs (remove1 a ws)"
    using assms(1) u(3) ws by (auto simp: lists_at_def)
  moreover have "list_frame w ?w"
    using u(9) by (simp add: list_frame_def rview_def srv_strip_def)
  moreover have "\<forall>x. x \<notin> set qs \<union> set ws \<union> {a} \<longrightarrow> w_reqs ?w x = w_reqs w x"
    using u(8) ws by auto
  ultimately show ?thesis by blast
qed

lemma np_srv_remove_req_at:
  assumes "lists_at w qs ws" "a \<in> set qs"
  shows "\<exists>w'. np_srv_remove_req a w = Some w' \<and> lists_at w' (remove1 a qs) ws \<and> list_frame w w' \<and>
    (\<forall>x. x \<notin> set qs \<union> set ws \<union> {a} \<longrightarrow> w_reqs w' x = w_reqs w x)"
proof -
  obtain as bs where qs: "qs = as @ a # bs" "remove1 a qs = as @ bs"
    using split_at [OF assms(2)] by blast
  let ?h = "w_reqs w" and ?s = "w_srv w"
  have seg: "req_seg ?h None (sv_reqs_first ?s) (as @ a # bs) None" and d: "distinct (as @ a # bs)"
    and q: "req_seg ?h None (sv_workreqs ?s) ws None" and dq: "set qs \<inter> set ws = {}"
    and l: "sv_reqs_last ?s = lastp None (as @ a # bs)"
    using assms(1) qs by (auto simp: lists_at_def)
  obtain r where r: "?h a = Some r" using dseg_alloc [OF seg] by auto
  obtain h1 h2 where u: "hupd_opt (rq_prev r) (rq_next_update (\<lambda>_. rq_next r)) ?h = Some h1"
      "hupd_opt (rq_next r) (rq_prev_update (\<lambda>_. rq_prev r)) h1 = Some h2"
      "req_seg h2 None (headp (as @ bs) None) (as @ bs) None"
      "h1 a = Some r" "h2 a = Some r" "rq_prev r = lastp None as" "rq_next r = headp bs None"
      "\<forall>x. x \<notin> set (as @ bs) \<longrightarrow> h2 x = ?h x" "hview req_strip h2 = hview req_strip ?h"
    using rl.unlink [OF seg d r] by blast
  have first: "sv_reqs_first ?s = headp as (Some a)" using dseg_head [OF seg] by simp
  have f: "(if sv_reqs_first ?s = Some a then rq_next r else sv_reqs_first ?s) = headp (as @ bs) None"
    using first u(7) d by (cases as) auto
  have e: "(if sv_reqs_last ?s = Some a then rq_prev r else sv_reqs_last ?s) = lastp None (as @ bs)"
    using l u(6) d by (cases bs rule: rev_cases) (auto simp: lastp_def)
  define s' where "s' = ?s\<lparr>sv_reqs_first := headp (as @ bs) None, sv_reqs_last := lastp None (as @ bs)\<rparr>"
  let ?w = "w\<lparr>w_reqs := h2, w_srv := s'\<rparr>"
  have "np_srv_remove_req a w = Some ?w"
    using u r f e by (auto simp: np_srv_remove_req_def s'_def Let_def split: if_splits)
  moreover have "req_seg h2 None (sv_workreqs ?s) ws None"
    by (rule dseg_cong [OF q]) (use u(8) dq qs in auto)
  then have "lists_at ?w (remove1 a qs) ws"
    using assms(1) u(3) qs by (auto simp: lists_at_def s'_def)
  moreover have "list_frame w ?w"
    using u(9) by (simp add: list_frame_def rview_def srv_strip_def s'_def)
  moreover have "\<forall>x. x \<notin> set qs \<union> set ws \<union> {a} \<longrightarrow> w_reqs ?w x = w_reqs w x"
    using u(8) qs by auto
  ultimately show ?thesis by blast
qed

lemma np_srv_add_workreq_at:
  assumes "lists_at w qs ws" "a \<notin> set qs \<union> set ws" "w_reqs w a \<noteq> None"
  shows "\<exists>w'. np_srv_add_workreq a w = Some w' \<and> lists_at w' qs (a # ws) \<and> list_frame w w' \<and>
    (\<forall>x. x \<notin> set qs \<union> set ws \<union> {a} \<longrightarrow> w_reqs w' x = w_reqs w x)"
proof -
  let ?h = "w_reqs w" and ?s = "w_srv w"
  have seg: "req_seg ?h None (sv_workreqs ?s) ws None" and d: "distinct (a # ws)"
    and q: "req_seg ?h None (sv_reqs_first ?s) qs None" and dq: "set qs \<inter> set ws = {}"
    using assms by (auto simp: lists_at_def)
  obtain r where r: "?h a = Some r" using assms(3) by blast
  define r' where "r' = r\<lparr>rq_next := sv_workreqs ?s, rq_prev := None\<rparr>"
  obtain h1 where h1: "hupd_opt (sv_workreqs ?s) (rq_prev_update (\<lambda>_. Some a)) ?h = Some h1"
      "req_seg (h1(a \<mapsto> r')) None (Some a) (a # ws) None" "\<forall>x. x \<notin> set ws \<longrightarrow> h1 x = ?h x"
      "hview req_strip h1 = hview req_strip ?h"
    using rl.push_front [OF seg d, of r'] by (auto simp: r'_def)
  have a1: "h1 a = Some r" using h1(3) d r by simp
  let ?w = "w\<lparr>w_reqs := h1(a \<mapsto> r'), w_srv := ?s\<lparr>sv_workreqs := Some a\<rparr>\<rparr>"
  have "np_srv_add_workreq a w = Some ?w"
    using h1(1) a1 by (simp add: np_srv_add_workreq_def Let_def r'_def)
  moreover have "req_seg (h1(a \<mapsto> r')) None (sv_reqs_first ?s) qs None"
    by (rule dseg_cong [OF q]) (use h1(3) dq assms(2) in auto)
  then have "lists_at ?w qs (a # ws)"
    using assms(1,2) h1(2) by (auto simp: lists_at_def)
  moreover have "list_frame w ?w"
    using h1(4) hview_upd_same [where h = h1 and a = a and r = r and strip = req_strip and r' = r'] a1
    by (simp add: list_frame_def rview_def srv_strip_def r'_def req_strip_def)
  moreover have "\<forall>x. x \<notin> set qs \<union> set ws \<union> {a} \<longrightarrow> w_reqs ?w x = w_reqs w x"
    using h1(3) by auto
  ultimately show ?thesis by blast
qed

text \<open>
  A request is queued with a NULL forward link, as \<^verbatim>\<open>np_req_alloc\<close> leaves it:
  \<^verbatim>\<open>np_srv_add_req\<close> does not set it.
\<close>

lemma np_srv_add_req_at:
  assumes "lists_at w qs ws" "a \<notin> set qs \<union> set ws" "w_reqs w a = Some r" "rq_next r = None"
  shows "\<exists>w'. np_srv_add_req a w = Some w' \<and> lists_at w' (qs @ [a]) ws \<and> list_frame w w' \<and>
    (\<forall>x. x \<notin> set qs \<union> set ws \<union> {a} \<longrightarrow> w_reqs w' x = w_reqs w x)"
proof -
  let ?h = "w_reqs w" and ?s = "w_srv w"
  have seg: "req_seg ?h None (sv_reqs_first ?s) qs None" and d: "distinct qs"
    and q: "req_seg ?h None (sv_workreqs ?s) ws None" and dq: "set qs \<inter> set ws = {}"
    and l: "sv_reqs_last ?s = lastp None qs"
    using assms(1) by (auto simp: lists_at_def)
  define r' where "r' = r\<lparr>rq_prev := lastp None qs\<rparr>"
  let ?h1 = "?h(a \<mapsto> r')"
  have seg1: "req_seg ?h1 None (sv_reqs_first ?s) qs None" using dseg_upd_other [OF seg] assms(2) by simp
  have v1: "hview req_strip ?h1 = hview req_strip ?h"
    using assms(3) by (intro hview_upd_same) (simp_all add: r'_def req_strip_def)
  have ra: "rq_prev r' = lastp None qs" "rq_next r' = None" using assms(4) by (auto simp: r'_def)
  obtain h2 where h2: "hupd_opt (lastp None qs) (rq_next_update (\<lambda>_. Some a)) ?h1 = Some h2"
      "req_seg h2 None (headp qs (Some a)) qs (Some a)" "\<forall>x. x \<notin> set qs \<longrightarrow> h2 x = ?h1 x"
      "hview req_strip h2 = hview req_strip ?h1"
  proof (cases qs rule: rev_cases)
    case Nil
    then show ?thesis using that [of ?h1] by simp
  next
    case (snoc bs b)
    then obtain s where s: "?h1 b = Some s" using dseg_alloc [OF seg1] by auto
    have "req_seg (?h1(b \<mapsto> rq_next_update (\<lambda>_. Some a) s)) None (headp qs (Some a)) qs (Some a)"
      using rl.set_last_next [of ?h1 None _ bs b None s "Some a"] seg1 d snoc s dseg_head [OF seg1] by simp
    moreover have "hview req_strip (?h1(b \<mapsto> rq_next_update (\<lambda>_. Some a) s)) = hview req_strip ?h1"
      using s by (intro hview_upd_same) simp_all
    ultimately show ?thesis using that [of "?h1(b \<mapsto> rq_next_update (\<lambda>_. Some a) s)"] s snoc
      by (simp add: lastp_def)
  qed
  have a2: "h2 a = Some r'" using h2(3) assms(2) by simp
  define s' where "s' = ?s\<lparr>sv_reqs_first := headp qs (Some a), sv_reqs_last := Some a\<rparr>"
  let ?w = "w\<lparr>w_reqs := h2, w_srv := s'\<rparr>"
  have "np_srv_add_req a w = Some ?w"
    using h2(1) l assms(3) dseg_head [OF seg]
    by (cases qs) (auto simp: np_srv_add_req_def Let_def s'_def r'_def)
  moreover have "req_seg h2 None (headp qs (Some a)) (qs @ [a]) None"
    using h2(2) a2 ra by (simp add: dseg_append)
  moreover have "req_seg h2 None (sv_workreqs ?s) ws None"
    by (rule dseg_cong [OF q]) (use h2(3) dq assms(2) in auto)
  ultimately have "np_srv_add_req a w = Some ?w" "lists_at ?w (qs @ [a]) ws"
    using assms(1,2) by (auto simp: lists_at_def s'_def)
  moreover have "list_frame w ?w"
    using h2(4) v1 by (simp add: list_frame_def rview_def srv_strip_def s'_def)
  moreover have "\<forall>x. x \<notin> set qs \<union> set ws \<union> {a} \<longrightarrow> w_reqs ?w x = w_reqs w x"
    using h2(3) by auto
  ultimately show ?thesis by blast
qed

section \<open>The interface of a request list\<close>

text \<open>
  A list of requests with an insertion (at one end, \<open>ins\<close>) and a removal from anywhere,
  over a frame relation that keeps the requests themselves.
\<close>

locale req_list =
  fixes rep :: "'s \<Rightarrow> addr list \<Rightarrow> bool"
    and fresh :: "'s \<Rightarrow> addr \<Rightarrow> bool"
    and ins :: "addr \<Rightarrow> addr list \<Rightarrow> addr list"
    and add :: "addr \<Rightarrow> 's \<Rightarrow> 's option"
    and remove :: "addr \<Rightarrow> 's \<Rightarrow> 's option"
    and fr :: "'s \<Rightarrow> 's \<Rightarrow> bool"
  assumes rep_distinct: "rep w xs \<Longrightarrow> distinct xs"
    and ins_set: "set (ins a xs) = insert a (set xs)"
    and ins_remove1: "a \<notin> set xs \<Longrightarrow> remove1 a (ins a xs) = xs"
    and fresh_not_in: "rep w xs \<Longrightarrow> fresh w a \<Longrightarrow> a \<notin> set xs"
    and add_law: "rep w xs \<Longrightarrow> fresh w a \<Longrightarrow> \<exists>w'. add a w = Some w' \<and> rep w' (ins a xs) \<and> fr w w'"
    and remove_law: "rep w xs \<Longrightarrow> a \<in> set xs \<Longrightarrow> \<exists>w'. remove a w = Some w' \<and> rep w' (remove1 a xs) \<and> fr w w'"
    and fr_trans: "fr w w' \<Longrightarrow> fr w' w'' \<Longrightarrow> fr w w''"
begin

text \<open>Taking back what was just added gives the same list.\<close>

lemma add_remove:
  assumes "rep w xs" "fresh w a"
  shows "\<exists>w1 w2. add a w = Some w1 \<and> remove a w1 = Some w2 \<and> rep w2 xs \<and> fr w w2"
proof -
  obtain w1 where w1: "add a w = Some w1" "rep w1 (ins a xs)" "fr w w1"
    using add_law [OF assms] by blast
  have "a \<in> set (ins a xs)" by (simp add: ins_set)
  from remove_law [OF w1(2) this] obtain w2 where "remove a w1 = Some w2" "rep w2 (remove1 a (ins a xs))" "fr w1 w2"
    by blast
  then show ?thesis using w1 ins_remove1 [OF fresh_not_in [OF assms]] fr_trans by auto
qed

text \<open>Removing a selection of the members, one by one, leaves the others in their order.\<close>

fun remove_all :: "addr list \<Rightarrow> 's \<Rightarrow> 's option" where
  "remove_all [] w = Some w"
| "remove_all (a # as) w = Option.bind (remove a w) (remove_all as)"

lemma remove_all_law:
  "rep w xs \<Longrightarrow> distinct as \<Longrightarrow> set as \<subseteq> set xs \<Longrightarrow>
    \<exists>w'. remove_all as w = Some w' \<and> rep w' (filter (\<lambda>x. x \<notin> set as) xs) \<and> (fr w w' \<or> as = [])"
proof (induction as arbitrary: w xs)
  case (Cons a as)
  obtain w1 where w1: "remove a w = Some w1" "rep w1 (remove1 a xs)" "fr w w1"
    using remove_law [OF Cons.prems(1)] Cons.prems(3) by auto
  have d: "remove1 a xs = filter (\<lambda>x. x \<noteq> a) xs"
    using rep_distinct [OF Cons.prems(1)] by (simp add: distinct_remove1_removeAll removeAll_filter_not_eq) (rule filter_cong, auto)
  have "set as \<subseteq> set (remove1 a xs)" using Cons.prems(2,3) unfolding d by auto
  from Cons.IH [OF w1(2) _ this] obtain w' where w': "remove_all as w1 = Some w'"
      "rep w' (filter (\<lambda>x. x \<notin> set as) (remove1 a xs))" "fr w1 w' \<or> as = []"
    using Cons.prems(2) by auto
  have "filter (\<lambda>x. x \<notin> set as) (remove1 a xs) = filter (\<lambda>x. x \<notin> set (a # as)) xs"
    unfolding d by (auto intro: filter_cong)
  moreover have "fr w w'" using w'(1,3) w1(3) fr_trans by auto
  ultimately show ?case using w1(1) w' by auto
qed (simp add: filter_id_conv)

end

definition queue_fresh :: "addr list \<Rightarrow> 'x world \<Rightarrow> addr \<Rightarrow> bool" where
  "queue_fresh ws w a \<longleftrightarrow> (\<forall>qs. lists_at w qs ws \<longrightarrow> a \<notin> set qs \<union> set ws) \<and>
     (case w_reqs w a of None \<Rightarrow> False | Some r \<Rightarrow> rq_next r = None)"

definition work_fresh :: "addr list \<Rightarrow> 'x world \<Rightarrow> addr \<Rightarrow> bool" where
  "work_fresh qs w a \<longleftrightarrow> (\<forall>ws. lists_at w qs ws \<longrightarrow> a \<notin> set qs \<union> set ws) \<and> w_reqs w a \<noteq> None"

interpretation rq: req_list "\<lambda>w qs. lists_at w qs ws" "queue_fresh ws" "\<lambda>a qs. qs @ [a]"
  np_srv_add_req np_srv_remove_req list_frame for ws
proof unfold_locales
  fix w w' w'' :: "'x world" and xs a
  show "lists_at w xs ws \<Longrightarrow> distinct xs" by (simp add: lists_at_def)
  show "set (xs @ [a]) = insert a (set xs)" by simp
  show "a \<notin> set xs \<Longrightarrow> remove1 a (xs @ [a]) = xs" by (simp add: remove1_append)
  show "lists_at w xs ws \<Longrightarrow> queue_fresh ws w a \<Longrightarrow> a \<notin> set xs" by (simp add: queue_fresh_def)
  show "lists_at w xs ws \<Longrightarrow> queue_fresh ws w a \<Longrightarrow>
      \<exists>w'. np_srv_add_req a w = Some w' \<and> lists_at w' (xs @ [a]) ws \<and> list_frame w w'"
    using np_srv_add_req_at [of w xs ws a] by (auto simp: queue_fresh_def split: option.splits)
  show "lists_at w xs ws \<Longrightarrow> a \<in> set xs \<Longrightarrow>
      \<exists>w'. np_srv_remove_req a w = Some w' \<and> lists_at w' (remove1 a xs) ws \<and> list_frame w w'"
    using np_srv_remove_req_at [of w xs ws a] by blast
  show "list_frame w w' \<Longrightarrow> list_frame w' w'' \<Longrightarrow> list_frame w w''" by (rule list_frame_trans)
qed

interpretation wl: req_list "\<lambda>w ws. lists_at w qs ws" "work_fresh qs" "\<lambda>a ws. a # ws"
  np_srv_add_workreq np_srv_remove_workreq list_frame for qs
proof unfold_locales
  fix w w' w'' :: "'x world" and xs a
  show "lists_at w qs xs \<Longrightarrow> distinct xs" by (simp add: lists_at_def)
  show "set (a # xs) = insert a (set xs)" by simp
  show "a \<notin> set xs \<Longrightarrow> remove1 a (a # xs) = xs" by simp
  show "lists_at w qs xs \<Longrightarrow> work_fresh qs w a \<Longrightarrow> a \<notin> set xs" by (simp add: work_fresh_def)
  show "lists_at w qs xs \<Longrightarrow> work_fresh qs w a \<Longrightarrow>
      \<exists>w'. np_srv_add_workreq a w = Some w' \<and> lists_at w' qs (a # xs) \<and> list_frame w w'"
    using np_srv_add_workreq_at [of w qs xs a] by (auto simp: work_fresh_def)
  show "lists_at w qs xs \<Longrightarrow> a \<in> set xs \<Longrightarrow>
      \<exists>w'. np_srv_remove_workreq a w = Some w' \<and> lists_at w' qs (remove1 a xs) \<and> list_frame w w'"
    using np_srv_remove_workreq_at [of w qs xs a] by blast
  show "list_frame w w' \<Longrightarrow> list_frame w' w'' \<Longrightarrow> list_frame w w''" by (rule list_frame_trans)
qed

end
