(* ===== verification/Conn.thy ===== *)
theory Conn
  imports FidPool ReqQueue
begin

text \<open>
  Connections and requests: \<^verbatim>\<open>npfs/libnpfs/conn.c\<close> and the request objects and
  connection list of \<^verbatim>\<open>srv.c\<close>. A request carries its messages by value, since each
  \<^verbatim>\<open>Npfcall\<close> has one owner at a time. Locks and condition variables are not part of the
  state: an operation is one step, and what other threads do while
  \<^verbatim>\<open>np_conn_reset\<close> waits is an argument of it.
\<close>

section \<open>Message buffers and reference counts of a connection\<close>

definition np_conn_incref :: "addr \<Rightarrow> 'x world \<Rightarrow> 'x world option" where
  "np_conn_incref c w = upd_conn c (cn_refcount_update (\<lambda>n. n + 1)) w"

definition np_conn_decref :: "'x srvops \<Rightarrow> addr \<Rightarrow> 'x world \<Rightarrow> 'x world option" where
  "np_conn_decref so c w = do {
     cn \<leftarrow> w_conns w c;
     if \<not> cn_refcount cn > 0 then None
     else do {
       w \<leftarrow> upd_conn c (cn_refcount_update (\<lambda>n. n - 1)) w;
       if cn_refcount cn - 1 \<noteq> 0 then Some w
       else do {
         w \<leftarrow> (case cn_fidpool cn of
           None \<Rightarrow> Some w
         | Some fp \<Rightarrow> do {
             w \<leftarrow> np_fidpool_destroy so fp w;
             upd_conn c (cn_fidpool_update (\<lambda>_. None)) w
           });
         w \<leftarrow> upd_conn c (cn_freerclist_update (\<lambda>_. [])) w;
         Some (w\<lparr>w_conns := (w_conns w)(c := None)\<rparr>)
       }
     }
   }"

text \<open>
  \<^verbatim>\<open>np_conn_new_incall\<close>: a recycled structure keeps its fields and its bytes, a fresh
  one is uninitialised.
\<close>

definition np_conn_new_incall :: "addr \<Rightarrow> 'x world \<Rightarrow> (Npfcall option \<times> 'x world) option" where
  "np_conn_new_incall c w = do {
     cn \<leftarrow> w_conns w c;
     (case cn_freerclist cn of
        fc # fcs \<Rightarrow> do {
          w \<leftarrow> upd_conn c (\<lambda>cn. cn\<lparr>cn_freerclist := fcs, cn_freercnum := cn_freercnum cn - 1\<rparr>) w;
          Some (Some fc, w)
        }
      | [] \<Rightarrow>
          (case world_malloc w of
             (None, w) \<Rightarrow> Some (None, w)
           | (Some (fc, junk), w) \<Rightarrow>
               Some (Some (fc\<lparr>fc_pkt := map junk [0..<unat (cn_msize cn)]\<rparr>), w)))
   }"

text \<open>\<^verbatim>\<open>np_conn_free_incall\<close> tests \<^verbatim>\<open>freercnum\<close> but does not count what it
  puts on the list.\<close>

definition np_conn_free_incall :: "addr \<Rightarrow> Npfcall option \<Rightarrow> 'x world \<Rightarrow> 'x world option" where
  "np_conn_free_incall c rc w =
     (case rc of
        None \<Rightarrow> Some w
      | Some fc \<Rightarrow> do {
          cn \<leftarrow> w_conns w c;
          if cn_freercnum cn < 64
          then upd_conn c (\<lambda>cn. cn\<lparr>cn_freerclist := fc # cn_freerclist cn\<rparr>) w
          else Some w
        })"

definition np_trans_destroy :: "nat option \<Rightarrow> 'x world \<Rightarrow> 'x world" where
  "np_trans_destroy t w = (case t of None \<Rightarrow> w | Some t \<Rightarrow> w\<lparr>w_closed := w_closed w @ [t]\<rparr>)"

definition np_conn_shutdown :: "addr \<Rightarrow> 'x world \<Rightarrow> 'x world option" where
  "np_conn_shutdown c w = do {
     cn \<leftarrow> w_conns w c;
     w \<leftarrow> upd_conn c (cn_trans_update (\<lambda>_. None)) w;
     Some (np_trans_destroy (cn_trans cn) w)
   }"

text \<open>
  \<^verbatim>\<open>np_conn_respond\<close> sends the reply of a request, if it has one and the connection can
  send, and lets go of both messages. A failed write takes the transport away from the
  connection and destroys it.
\<close>

definition np_conn_send :: "'x srvops \<Rightarrow> addr \<Rightarrow> Npfcall \<Rightarrow> 'x world \<Rightarrow> (nat option \<times> 'x world) option" where
  "np_conn_send so c rc w = do {
     cn \<leftarrow> w_conns w c;
     (case cn_trans cn of
        None \<Rightarrow> Some (None, w)
      | Some t \<Rightarrow>
          if cn_resetting cn then Some (None, w)
          else if length (fc_pkt rc) < unat (fc_size rc) then None
          else
            (let bytes = take (unat (fc_size rc)) (fc_pkt rc);
                 (n, x) = so_trans_write so t bytes (w_user w);
                 w = w\<lparr>w_user := x, w_out := w_out w @ [(t, bytes)]\<rparr>
             in if n \<le> 0 then do {
                  w \<leftarrow> upd_conn c (cn_trans_update (\<lambda>_. None)) w;
                  Some (Some t, w)
                }
                else Some (None, w)))
   }"

definition np_conn_respond :: "'x srvops \<Rightarrow> addr \<Rightarrow> 'x world \<Rightarrow> 'x world option" where
  "np_conn_respond so req w = do {
     r \<leftarrow> w_reqs w req;
     let c = rq_conn r;
     (tr, w) \<leftarrow> (case rq_rcall r of None \<Rightarrow> Some (None, w) | Some rc \<Rightarrow> np_conn_send so c rc w);
     w \<leftarrow> np_conn_free_incall c (rq_tcall r) w;
     w \<leftarrow> upd_req req (\<lambda>r. r\<lparr>rq_tcall := None, rq_rcall := None\<rparr>) w;
     _ \<leftarrow> w_conns w c;
     Some (np_trans_destroy tr w)
   }"

section \<open>Request objects\<close>

definition np_req_alloc :: "addr \<Rightarrow> Npfcall \<Rightarrow> 'x world \<Rightarrow> (addr \<times> 'x world) option" where
  "np_req_alloc c tc w = do {
     (req, next0, w) \<leftarrow> (case rp_reqlist (w_reqpool w) of
        Some a \<Rightarrow> do {
          r \<leftarrow> w_reqs w a;
          Some (a, True, w\<lparr>w_reqpool := \<lparr>rp_reqnum = rp_reqnum (w_reqpool w) - 1, rp_reqlist = rq_next r\<rparr>\<rparr>)
        }
      | None \<Rightarrow>
          (case world_malloc w of
             (None, _) \<Rightarrow> None
           | (Some _, w') \<Rightarrow> Some (w_nmalloc w, False, w')));
     w \<leftarrow> np_conn_incref c w;
     let r = \<lparr>rq_refcount = 1, rq_conn = c, rq_tag = fc_tag tc, rq_tcall = Some tc, rq_rcall = None,
       rq_responded = False, rq_flushreq = None, rq_fid = None, rq_next = None, rq_prev = None,
       rq_wthread = None\<rparr>;
     Some (req, w\<lparr>w_reqs := (w_reqs w)(req \<mapsto> r)\<rparr>)
   }"

definition np_req_ref :: "addr \<Rightarrow> 'x world \<Rightarrow> 'x world option" where
  "np_req_ref req w = upd_req req (rq_refcount_update (\<lambda>n. n + 1)) w"

definition np_req_unref :: "'x srvops \<Rightarrow> addr \<Rightarrow> 'x world \<Rightarrow> 'x world option" where
  "np_req_unref so req w = do {
     r \<leftarrow> w_reqs w req;
     if \<not> rq_refcount r > 0 then None
     else do {
       w \<leftarrow> upd_req req (rq_refcount_update (\<lambda>n. n - 1)) w;
       if rq_refcount r - 1 \<noteq> 0 then Some w
       else do {
         w \<leftarrow> np_conn_decref so (rq_conn r) w;
         let p = w_reqpool w;
         if rp_reqnum p < 64 then do {
           w \<leftarrow> upd_req req (rq_next_update (\<lambda>_. rp_reqlist p)) w;
           Some (w\<lparr>w_reqpool := \<lparr>rp_reqnum = rp_reqnum p + 1, rp_reqlist = Some req\<rparr>\<rparr>)
         }
         else Some (w\<lparr>w_reqs := (w_reqs w)(req := None)\<rparr>)
       }
     }
   }"

section \<open>The connections of a server\<close>

definition np_srv_add_conn :: "'x srvops \<Rightarrow> addr \<Rightarrow> 'x world \<Rightarrow> (bool \<times> 'x world) option" where
  "np_srv_add_conn so c w = do {
     w \<leftarrow> np_conn_incref c w;
     (ret, w) \<leftarrow>
       (if \<not> sv_shuttingdown (w_srv w) then do {
          w \<leftarrow> upd_conn c (cn_next_update (\<lambda>_. sv_conns (w_srv w))) w;
          Some (True, w\<lparr>w_srv := (w_srv w)\<lparr>sv_conns := Some c\<rparr>\<rparr>)
        }
        else Some (False, w));
     Some (ret, case so_connopen so of None \<Rightarrow> w | Some f \<Rightarrow> w\<lparr>w_user := f c (w_user w)\<rparr>)
   }"

text \<open>The search of \<^verbatim>\<open>np_srv_remove_conn\<close>; \<open>b\<close> is the node whose link
  \<^verbatim>\<open>pc\<close> points to, or \<open>None\<close> for \<^verbatim>\<open>srv->conns\<close>.\<close>

partial_function (option) conn_unlink :: "addr \<Rightarrow> addr option \<Rightarrow> addr option \<Rightarrow> 'x world \<Rightarrow> 'x world option" where
  "conn_unlink c b p w =
     (case p of
        None \<Rightarrow> Some w
      | Some a \<Rightarrow> do {
          cn \<leftarrow> w_conns w a;
          if a = c then do {
            w \<leftarrow> (case b of
              None \<Rightarrow> Some (w\<lparr>w_srv := (w_srv w)\<lparr>sv_conns := cn_next cn\<rparr>\<rparr>)
            | Some b \<Rightarrow> upd_conn b (cn_next_update (\<lambda>_. cn_next cn)) w);
            upd_conn a (cn_next_update (\<lambda>_. None)) w
          }
          else conn_unlink c (Some a) (cn_next cn) w
        })"

definition np_srv_destroy :: "'x srvops \<Rightarrow> 'x world \<Rightarrow> 'x world option" where
  "np_srv_destroy so w = do {
     let w = w\<lparr>w_srv := (w_srv w)\<lparr>sv_wthreads := map (\<lambda>wt. wt\<lparr>wt_shutdown := True\<rparr>) (sv_wthreads (w_srv w))\<rparr>\<rparr>;
     f \<leftarrow> so_destroy so;
     Some (w\<lparr>w_user := f (w_user w)\<rparr>)
   }"

definition np_srv_remove_conn :: "'x srvops \<Rightarrow> addr \<Rightarrow> 'x world \<Rightarrow> 'x world option" where
  "np_srv_remove_conn so c w = do {
     w \<leftarrow> conn_unlink c None (sv_conns (w_srv w)) w;
     let w = (case so_connclose so of None \<Rightarrow> w | Some f \<Rightarrow> w\<lparr>w_user := f c (w_user w)\<rparr>);
     w \<leftarrow> np_conn_decref so c w;
     if sv_shuttingdown (w_srv w) \<and> sv_conns (w_srv w) = None then np_srv_destroy so w
     else Some w
   }"

definition np_conn_create :: "'x srvops \<Rightarrow> nat \<Rightarrow> 'x world \<Rightarrow> (addr option \<times> 'x world) option" where
  "np_conn_create so tr w =
     (case world_malloc w of
        (None, w) \<Rightarrow> Some (None, w)
      | (Some _, w') \<Rightarrow> do {
          let c = w_nmalloc w;
          let s = w_srv w;
          let (fp, w') = np_fidpool_create w';
          let cn = \<lparr>cn_refcount = 0, cn_resetting = False, cn_msize = sv_msize s, cn_dotu = sv_dotu s,
            cn_trans = Some tr, cn_fidpool = fp, cn_freercnum = 0, cn_freerclist = [], cn_next = None\<rparr>;
          (_, w') \<leftarrow> np_srv_add_conn so c (w'\<lparr>w_conns := (w_conns w')(c \<mapsto> cn)\<rparr>);
          Some (Some c, w')
        })"

section \<open>Resetting a connection\<close>

text \<open>The requests of the queue that belong to the connection, taken out and chained on a
  list of their own.\<close>

partial_function (option) reset_collect ::
  "addr \<Rightarrow> addr option \<Rightarrow> addr option \<Rightarrow> 'x world \<Rightarrow> (addr option \<times> 'x world) option"
where
  "reset_collect c p preqs w =
     (case p of
        None \<Rightarrow> Some (preqs, w)
      | Some a \<Rightarrow> do {
          r \<leftarrow> w_reqs w a;
          if rq_conn r = c then do {
            w \<leftarrow> np_srv_remove_req a w;
            w \<leftarrow> upd_req a (rq_next_update (\<lambda>_. preqs)) w;
            reset_collect c (rq_next r) (Some a) w
          }
          else reset_collect c (rq_next r) preqs w
        })"

text \<open>The working requests the reset is about: all of the connection's, or, when a new
  session starts, all but the Tversion that causes it.\<close>

definition reset_match :: "addr \<Rightarrow> u32 \<Rightarrow> Npreq \<Rightarrow> bool option" where
  "reset_match c msize r =
     (if rq_conn r \<noteq> c then Some False
      else if msize = 0 then Some True
      else map_option (\<lambda>tc. fc_type tc \<noteq> Tversion) (rq_tcall r))"

partial_function (option) reset_working :: "addr \<Rightarrow> u32 \<Rightarrow> addr option \<Rightarrow> Npreq heap \<Rightarrow> addr list option" where
  "reset_working c msize p h =
     (case p of
        None \<Rightarrow> Some []
      | Some a \<Rightarrow> do {
          r \<leftarrow> h a;
          m \<leftarrow> reset_match c msize r;
          as \<leftarrow> reset_working c msize (rq_next r) h;
          Some (if m then a # as else as)
        })"

fun map_world :: "('a \<Rightarrow> 'x world \<Rightarrow> 'x world option) \<Rightarrow> 'a list \<Rightarrow> 'x world \<Rightarrow> 'x world option" where
  "map_world f [] w = Some w"
| "map_world f (a # as) w = do { w \<leftarrow> f a w; map_world f as w }"

partial_function (option) reset_drop :: "'x srvops \<Rightarrow> addr option \<Rightarrow> 'x world \<Rightarrow> 'x world option" where
  "reset_drop so p w =
     (case p of
        None \<Rightarrow> Some w
      | Some a \<Rightarrow> do {
          r \<leftarrow> w_reqs w a;
          w \<leftarrow> np_conn_respond so a w;
          w \<leftarrow> np_req_unref so a w;
          reset_drop so (rq_next r) w
        })"

definition flush_one :: "'x srvops \<Rightarrow> addr \<Rightarrow> 'x world \<Rightarrow> 'x world option" where
  "flush_one so a w = (case so_flush so of None \<Rightarrow> Some w | Some f \<Rightarrow> f a w)"

text \<open>
  \<^verbatim>\<open>np_conn_reset\<close>: \<open>others\<close> is what the other threads do until the wait is over;
  the function does not get past the wait while a working request of the connection is left.
\<close>

definition np_conn_reset ::
  "'x srvops \<Rightarrow> ('x world \<Rightarrow> 'x world) \<Rightarrow> addr \<Rightarrow> u32 \<Rightarrow> bool \<Rightarrow> 'x world \<Rightarrow> 'x world option"
where
  "np_conn_reset so others c msize dotu w = do {
     w \<leftarrow> upd_conn c (cn_resetting_update (\<lambda>_. True)) w;
     (preqs, w) \<leftarrow> reset_collect c (sv_reqs_first (w_srv w)) None w;
     reqs \<leftarrow> reset_working c msize (sv_workreqs (w_srv w)) (w_reqs w);
     w \<leftarrow> map_world np_req_ref reqs w;
     w \<leftarrow> reset_drop so preqs w;
     w \<leftarrow> map_world (flush_one so) reqs w;
     let w = others w;
     left \<leftarrow> reset_working c msize (sv_workreqs (w_srv w)) (w_reqs w);
     if left \<noteq> [] then None
     else do {
       w \<leftarrow> upd_conn c (cn_freerclist_update (\<lambda>_. [])) w;
       cn \<leftarrow> w_conns w c;
       w \<leftarrow> (case cn_fidpool cn of
         None \<Rightarrow> Some w
       | Some fp \<Rightarrow> do {
           w \<leftarrow> np_fidpool_destroy so fp w;
           upd_conn c (cn_fidpool_update (\<lambda>_. None)) w
         });
       w \<leftarrow> (if msize \<noteq> 0 then
           (case np_fidpool_create w of
              (fp, w) \<Rightarrow> upd_conn c (\<lambda>cn. cn\<lparr>cn_dotu := dotu, cn_fidpool := fp\<rparr>) w)
         else Some w);
       w \<leftarrow> upd_conn c (cn_resetting_update (\<lambda>_. False)) w;
       map_world (np_req_unref so) reqs w
     }
   }"

section \<open>Reading from a connection\<close>

text \<open>
  What the body of \<^verbatim>\<open>np_conn_read_proc\<close> behind the label \<^verbatim>\<open>again\<close> ends with,
  with the message buffer \<^verbatim>\<open>fc\<close> and the number \<^verbatim>\<open>n\<close> of bytes in it: the
  \<^verbatim>\<open>continue\<close> that asks for more bytes, the \<^verbatim>\<open>break\<close> on a bad message (whose half-read fields are not kept), or the
  \<^verbatim>\<open>goto again\<close> when bytes are left over.
\<close>

datatype read_result = Continue "Npfcall option" int | Break "Npfcall option" | Again "Npfcall option" int

text \<open>The size is assembled in an \<^verbatim>\<open>int\<close>.\<close>

definition pkt_size :: "u8 list \<Rightarrow> int" where
  "pkt_size pkt = sint (of_le32 pkt)"

text \<open>The bytes behind a message move to the start of the next buffer.\<close>

definition move_rest :: "Npfcall \<Rightarrow> Npfcall option \<Rightarrow> int \<Rightarrow> int \<Rightarrow> Npfcall option option" where
  "move_rest tc fc1 sz n =
     (if n > sz then do {
        f1 \<leftarrow> fc1;
        if sz < 0 \<or> int (length (fc_pkt tc)) < n \<or> int (length (fc_pkt f1)) < n - sz then None
        else Some (Some (f1\<lparr>fc_pkt := take (nat (n - sz)) (drop (nat sz) (fc_pkt tc))
               @ drop (nat (n - sz)) (fc_pkt f1)\<rparr>))
      }
      else Some fc1)"

definition np_conn_one ::
  "'x srvops \<Rightarrow> addr \<Rightarrow> Npfcall option \<Rightarrow> int \<Rightarrow> 'x world \<Rightarrow> (read_result \<times> 'x world) option"
where
  "np_conn_one so c fc n w =
     (if n < 4 then Some (Continue fc n, w)
      else do {
        tc \<leftarrow> fc;
        let sz = pkt_size (fc_pkt tc);
        if length (fc_pkt tc) < 4 then None
        else if n < sz then Some (Continue fc n, w)
        else do {
          cn \<leftarrow> w_conns w c;
          let (r, oob) = np_deserialize tc (fc_pkt tc) (cn_dotu cn);
          if oob then None
          else (case r of
            None \<Rightarrow> Some (Break fc, w)
          | Some tc \<Rightarrow> do {
              (fc1, w) \<leftarrow> np_conn_new_incall c w;
              fc1 \<leftarrow> move_rest tc fc1 sz n;
              (req, w) \<leftarrow> np_req_alloc c tc w;
              cn \<leftarrow> w_conns w c;
              w \<leftarrow> (if \<not> cn_resetting cn then np_srv_add_req req w else np_req_unref so req w);
              Some (if n - sz > 0 then Again fc1 (n - sz) else Continue fc1 (n - sz), w)
            })
        }
      })"

partial_function (option) np_conn_again ::
  "'x srvops \<Rightarrow> addr \<Rightarrow> Npfcall option \<Rightarrow> int \<Rightarrow> 'x world \<Rightarrow> (read_result \<times> 'x world) option"
where
  "np_conn_again so c fc n w =
     Option.bind (np_conn_one so c fc n w) (\<lambda>s.
       case fst s of
         Again fc n \<Rightarrow> np_conn_again so c fc n (snd s)
       | _ \<Rightarrow> Some s)"

text \<open>
  One pass of the outer loop: \<open>bytes\<close> is what \<^verbatim>\<open>np_trans_read\<close> stored behind
  the \<open>n\<close> bytes already there. While the connection is being reset, all input is discarded.
\<close>

definition np_conn_read_chunk ::
  "'x srvops \<Rightarrow> addr \<Rightarrow> Npfcall option \<Rightarrow> int \<Rightarrow> u8 list \<Rightarrow> 'x world \<Rightarrow>
     (read_result \<times> 'x world) option"
where
  "np_conn_read_chunk so c fc n bytes w = do {
     tc \<leftarrow> fc;
     if n < 0 \<or> int (length (fc_pkt tc)) < n + int (length bytes) then None
     else do {
       let tc = tc\<lparr>fc_pkt := take (nat n) (fc_pkt tc) @ bytes @ drop (nat n + length bytes) (fc_pkt tc)\<rparr>;
       cn \<leftarrow> w_conns w c;
       let n = (if cn_resetting cn then 0 else n + int (length bytes));
       np_conn_again so c (Some tc) n w
     }
   }"

text \<open>
  The reads of a connection's life as the list of what each of them returned: the loop ends
  when the transport is gone, when a read returns nothing, and on a bad message. A read asks
  for the room that is left of \<^verbatim>\<open>msize\<close>; one that returns more has no defined result.
\<close>

fun np_conn_read_loop ::
  "'x srvops \<Rightarrow> addr \<Rightarrow> u32 \<Rightarrow> Npfcall option \<Rightarrow> int \<Rightarrow> u8 list list \<Rightarrow> 'x world \<Rightarrow>
     ((Npfcall option \<times> int) \<times> 'x world) option"
where
  "np_conn_read_loop so c msize fc n [] w = Some ((fc, n), w)"
| "np_conn_read_loop so c msize fc n (bytes # chunks) w = do {
     cn \<leftarrow> w_conns w c;
     if cn_trans cn = None then Some ((fc, n), w)
     else if sint msize - n < int (length bytes) then None
     else if bytes = [] then Some ((fc, n), w)
     else do {
       (r, w) \<leftarrow> np_conn_read_chunk so c fc n bytes w;
       (case r of
          Break fc \<Rightarrow> Some ((fc, n), w)
        | Continue fc n \<Rightarrow> np_conn_read_loop so c msize fc n chunks w
        | Again fc n \<Rightarrow> np_conn_read_loop so c msize fc n chunks w)
     }
   }"

definition np_conn_read_proc ::
  "'x srvops \<Rightarrow> ('x world \<Rightarrow> 'x world) \<Rightarrow> addr \<Rightarrow> u8 list list \<Rightarrow> 'x world \<Rightarrow> 'x world option"
where
  "np_conn_read_proc so others c chunks w = do {
     w \<leftarrow> np_conn_incref c w;
     cn \<leftarrow> w_conns w c;
     (fc, w) \<leftarrow> np_conn_new_incall c w;
     ((fc, n), w) \<leftarrow> np_conn_read_loop so c (cn_msize cn) fc 0 chunks w;
     cn \<leftarrow> w_conns w c;
     w \<leftarrow> upd_conn c (cn_trans_update (\<lambda>_. None)) w;
     w \<leftarrow> np_conn_free_incall c fc w;
     w \<leftarrow> np_srv_remove_conn so c w;
     w \<leftarrow> np_conn_reset so others c 0 False w;
     np_conn_decref so c (np_trans_destroy (cn_trans cn) w)
   }"

end
