(* ===== verification/Requests.thy ===== *)
theory Requests
  imports Conn
begin

text \<open>
  The life of a request object: it is allocated from the pool of old requests or fresh, waits
  in the queue, is worked on, and goes back to the pool. \<open>reqs_ok w qs ws os\<close> is the
  invariant of that life: the two lists, the pool and the requests \<open>os\<close> that are in
  neither list are all disjoint.
\<close>

section \<open>The pool of request objects\<close>

abbreviation fseg :: "Npreq heap \<Rightarrow> addr option \<Rightarrow> addr list \<Rightarrow> bool" where
  "fseg \<equiv> sseg rq_next"

definition pool_ok :: "'x world \<Rightarrow> addr list \<Rightarrow> bool" where
  "pool_ok w live \<longleftrightarrow> (\<exists>fs. fseg (w_reqs w) (rp_reqlist (w_reqpool w)) fs \<and> distinct fs \<and> set fs \<inter> set live = {})"

definition reqs_ok :: "'x world \<Rightarrow> addr list \<Rightarrow> addr list \<Rightarrow> addr list \<Rightarrow> bool" where
  "reqs_ok w qs ws os \<longleftrightarrow> lists_at w qs ws \<and> pool_ok w (qs @ ws @ os) \<and> distinct (qs @ ws @ os) \<and>
     (\<forall>a\<in>set os. w_reqs w a \<noteq> None) \<and> (\<forall>a. w_reqs w a \<noteq> None \<longrightarrow> a < w_nmalloc w)"

lemma reqs_ok_lists: "reqs_ok w qs ws os \<Longrightarrow> lists_at w qs ws"
  by (simp add: reqs_ok_def)

lemma reqs_ok_perm: "reqs_ok w qs ws os \<Longrightarrow> set os' = set os \<Longrightarrow> distinct os' \<Longrightarrow> reqs_ok w qs ws os'"
  by (auto simp: reqs_ok_def pool_ok_def)

lemma pool_ok_cong:
  assumes "pool_ok w live" "set live' \<subseteq> set live" "\<forall>a. a \<notin> set live \<longrightarrow> w_reqs w' a = w_reqs w a"
    "w_reqpool w' = w_reqpool w"
  shows "pool_ok w' live'"
proof -
  obtain fs where fs: "fseg (w_reqs w) (rp_reqlist (w_reqpool w)) fs" "distinct fs" "set fs \<inter> set live = {}"
    using assms(1) by (auto simp: pool_ok_def)
  have "fseg (w_reqs w') (rp_reqlist (w_reqpool w')) fs"
    unfolding assms(4) by (rule sseg_cong [OF fs(1)]) (use assms(3) fs(3) in auto)
  then show ?thesis using fs(2,3) assms(2) by (auto simp: pool_ok_def)
qed

lemma list_frame_alloc: "list_frame w w' \<Longrightarrow> w_reqs w' a = None \<longleftrightarrow> w_reqs w a = None"
  unfolding list_frame_def rview_def by (blast dest: hview_eq_None)

lemma list_frame_rest:
  assumes "list_frame w w'"
  shows "w_fids w' = w_fids w" "w_conns w' = w_conns w" "w_users w' = w_users w" "w_reqpool w' = w_reqpool w"
    "w_errs w' = w_errs w" "w_self w' = w_self w" "w_mallocs w' = w_mallocs w" "w_nmalloc w' = w_nmalloc w"
    "w_out w' = w_out w" "w_closed w' = w_closed w" "w_user w' = w_user w" "rview w' = rview w"
proof -
  obtain h s where "w' = w\<lparr>w_reqs := h, w_srv := s\<rparr>" using assms unfolding list_frame_def by blast
  then show "w_fids w' = w_fids w" "w_conns w' = w_conns w" "w_users w' = w_users w" "w_reqpool w' = w_reqpool w"
    "w_errs w' = w_errs w" "w_self w' = w_self w" "w_mallocs w' = w_mallocs w" "w_nmalloc w' = w_nmalloc w"
    "w_out w' = w_out w" "w_closed w' = w_closed w" "w_user w' = w_user w"
    by simp_all
  show "rview w' = rview w" using assms by (simp add: list_frame_def)
qed

definition new_req :: "addr \<Rightarrow> Npfcall \<Rightarrow> Npreq" where
  "new_req c tc = \<lparr>rq_refcount = 1, rq_conn = c, rq_tag = fc_tag tc, rq_tcall = Some tc, rq_rcall = None,
     rq_responded = False, rq_flushreq = None, rq_fid = None, rq_next = None, rq_prev = None,
     rq_wthread = None\<rparr>"

text \<open>Everything but the requests, their pool, the connection's count and the allocation count.\<close>

definition alloc_frame :: "addr \<Rightarrow> 'x world \<Rightarrow> 'x world \<Rightarrow> bool" where
  "alloc_frame c w w' \<longleftrightarrow> w_fids w' = w_fids w \<and> w_users w' = w_users w \<and> w_srv w' = w_srv w \<and>
     w_errs w' = w_errs w \<and> w_self w' = w_self w \<and> w_mallocs w' = w_mallocs w \<and> w_out w' = w_out w \<and>
     w_closed w' = w_closed w \<and> w_user w' = w_user w \<and> w_nmalloc w \<le> w_nmalloc w' \<and>
     (\<exists>cn. w_conns w c = Some cn \<and> w_conns w' = (w_conns w)(c \<mapsto> cn_refcount_update (\<lambda>n. n + 1) cn))"

lemma lists_at_cong:
  assumes "lists_at w qs ws" "w_srv w' = w_srv w" "\<And>a. a \<in> set qs \<union> set ws \<Longrightarrow> w_reqs w' a = w_reqs w a"
  shows "lists_at w' qs ws"
proof -
  have "req_seg (w_reqs w') None (sv_reqs_first (w_srv w)) qs None"
    by (rule dseg_cong [where h = "w_reqs w"]) (use assms in \<open>auto simp: lists_at_def\<close>)
  moreover have "req_seg (w_reqs w') None (sv_workreqs (w_srv w)) ws None"
    by (rule dseg_cong [where h = "w_reqs w"]) (use assms in \<open>auto simp: lists_at_def\<close>)
  ultimately show ?thesis using assms(1,2) by (simp add: lists_at_def)
qed

lemma np_req_alloc_ok:
  assumes "reqs_ok w qs ws os" "w_conns w c = Some cn" "w_mallocs w (w_nmalloc w) \<noteq> None"
  shows "\<exists>req w'. np_req_alloc c tc w = Some (req, w') \<and> reqs_ok w' qs ws (req # os) \<and>
    w_reqs w' req = Some (new_req c tc) \<and> (\<forall>a\<in>set (qs @ ws @ os). w_reqs w' a = w_reqs w a) \<and> alloc_frame c w w'"
proof -
  obtain fs where fs: "fseg (w_reqs w) (rp_reqlist (w_reqpool w)) fs" "distinct fs" "set fs \<inter> set (qs @ ws @ os) = {}"
    using assms(1) by (auto simp: reqs_ok_def pool_ok_def)
  have ok: "lists_at w qs ws" "distinct (qs @ ws @ os)" "\<forall>a\<in>set os. w_reqs w a \<noteq> None"
    "\<And>a. w_reqs w a \<noteq> None \<Longrightarrow> a < w_nmalloc w"
    using assms(1) by (auto simp: reqs_ok_def)
  have live: "w_reqs w a \<noteq> None" if "a \<in> set (qs @ ws @ os)" for a
    using that ok(1,3) dseg_alloc by (fastforce simp: lists_at_def)
  let ?cs = "(w_conns w)(c \<mapsto> cn_refcount_update (\<lambda>n. n + 1) cn)"
  show ?thesis
  proof (cases fs)
    case Nil
    let ?a = "w_nmalloc w"
    let ?w = "w\<lparr>w_nmalloc := ?a + 1, w_conns := ?cs, w_reqs := (w_reqs w)(?a \<mapsto> new_req c tc)\<rparr>"
    have a: "?a \<notin> set (qs @ ws @ os)" using live ok(4) by blast
    have "np_req_alloc c tc w = Some (?a, ?w)"
      using Nil fs(1) assms(2,3) by (auto simp: np_req_alloc_def world_malloc_def np_conn_incref_def new_req_def)
    moreover have "lists_at ?w qs ws" by (rule lists_at_cong [OF ok(1)]) (use a in auto)
    moreover have "pool_ok ?w (qs @ ws @ ?a # os)" using Nil fs(1) by (auto simp: pool_ok_def intro!: exI [of _ "[]"])
    ultimately show ?thesis
      using a ok assms(2) by (intro exI [of _ ?a] exI [of _ ?w]) (auto simp: reqs_ok_def alloc_frame_def less_Suc_eq)
  next
    case (Cons a gs)
    then obtain r where r: "rp_reqlist (w_reqpool w) = Some a" "w_reqs w a = Some r" "fseg (w_reqs w) (rq_next r) gs"
      using fs(1) by (auto split: option.splits)
    let ?p = "\<lparr>rp_reqnum = rp_reqnum (w_reqpool w) - 1, rp_reqlist = rq_next r\<rparr>"
    let ?w = "w\<lparr>w_reqpool := ?p, w_conns := ?cs, w_reqs := (w_reqs w)(a \<mapsto> new_req c tc)\<rparr>"
    have a: "a \<notin> set (qs @ ws @ os)" "a \<notin> set gs" using fs(2,3) Cons by auto
    have "np_req_alloc c tc w = Some (a, ?w)"
      using r assms(2) by (simp add: np_req_alloc_def np_conn_incref_def new_req_def)
    moreover have "lists_at ?w qs ws" by (rule lists_at_cong [OF ok(1)]) (use a in auto)
    moreover have "fseg (w_reqs ?w) (rq_next r) gs"
      by (rule sseg_cong [OF r(3)]) (use a in auto)
    then have "pool_ok ?w (qs @ ws @ a # os)"
      using fs(2,3) Cons a unfolding pool_ok_def by (intro exI [of _ gs]) auto
    ultimately show ?thesis
      using a ok assms(2) r(2) by (intro exI [of _ a] exI [of _ ?w]) (auto simp: reqs_ok_def alloc_frame_def)
  qed
qed

lemma np_srv_add_req_ok:
  assumes "reqs_ok w qs ws (a # os)" "w_reqs w a = Some r" "rq_next r = None"
  shows "\<exists>w'. np_srv_add_req a w = Some w' \<and> reqs_ok w' (qs @ [a]) ws os \<and> list_frame w w'"
proof -
  have ok: "lists_at w qs ws" "a \<notin> set qs \<union> set ws" "distinct (qs @ ws @ a # os)"
    using assms(1) by (auto simp: reqs_ok_def)
  obtain w' where w': "np_srv_add_req a w = Some w'" "lists_at w' (qs @ [a]) ws" "list_frame w w'"
      "\<forall>x. x \<notin> set qs \<union> set ws \<union> {a} \<longrightarrow> w_reqs w' x = w_reqs w x"
    using np_srv_add_req_at [OF ok(1,2) assms(2,3)] by blast
  have "pool_ok w' ((qs @ [a]) @ ws @ os)"
    by (rule pool_ok_cong [where w = w and live = "qs @ ws @ a # os"])
      (use assms(1) w'(4) list_frame_rest(4) [OF w'(3)] in \<open>auto simp: reqs_ok_def\<close>)
  then have "reqs_ok w' (qs @ [a]) ws os"
    using assms(1) w'(2) ok(3) list_frame_alloc [OF w'(3)] list_frame_rest(8) [OF w'(3)] by (auto simp: reqs_ok_def)
  then show ?thesis using w' by blast
qed

lemma np_srv_remove_req_ok:
  assumes "reqs_ok w qs ws os" "a \<in> set qs"
  shows "\<exists>w'. np_srv_remove_req a w = Some w' \<and> reqs_ok w' (remove1 a qs) ws (a # os) \<and> list_frame w w'"
proof -
  have ok: "lists_at w qs ws" "distinct (qs @ ws @ os)" using assms(1) by (auto simp: reqs_ok_def)
  obtain w' where w': "np_srv_remove_req a w = Some w'" "lists_at w' (remove1 a qs) ws" "list_frame w w'"
      "\<forall>x. x \<notin> set qs \<union> set ws \<union> {a} \<longrightarrow> w_reqs w' x = w_reqs w x"
    using np_srv_remove_req_at [OF ok(1) assms(2)] by blast
  have s: "set (remove1 a qs) = set qs - {a}" using ok(2) by simp
  have "pool_ok w' (remove1 a qs @ ws @ a # os)"
    by (rule pool_ok_cong [where w = w and live = "qs @ ws @ os"])
      (use assms w'(4) s list_frame_rest(4) [OF w'(3)] in \<open>auto simp: reqs_ok_def\<close>)
  moreover have "w_reqs w a \<noteq> None" using ok(1) assms(2) dseg_alloc by (fastforce simp: lists_at_def)
  ultimately have "reqs_ok w' (remove1 a qs) ws (a # os)"
    using assms w'(2) ok(2) s list_frame_alloc [OF w'(3)] list_frame_rest(8) [OF w'(3)] by (auto simp: reqs_ok_def)
  then show ?thesis using w' by blast
qed

lemma np_srv_add_workreq_ok:
  assumes "reqs_ok w qs ws (a # os)"
  shows "\<exists>w'. np_srv_add_workreq a w = Some w' \<and> reqs_ok w' qs (a # ws) os \<and> list_frame w w'"
proof -
  have ok: "lists_at w qs ws" "a \<notin> set qs \<union> set ws" "distinct (qs @ ws @ a # os)" "w_reqs w a \<noteq> None"
    using assms(1) by (auto simp: reqs_ok_def)
  obtain w' where w': "np_srv_add_workreq a w = Some w'" "lists_at w' qs (a # ws)" "list_frame w w'"
      "\<forall>x. x \<notin> set qs \<union> set ws \<union> {a} \<longrightarrow> w_reqs w' x = w_reqs w x"
    using np_srv_add_workreq_at [OF ok(1,2,4)] by blast
  have "pool_ok w' (qs @ (a # ws) @ os)"
    by (rule pool_ok_cong [where w = w and live = "qs @ ws @ a # os"])
      (use assms(1) w'(4) list_frame_rest(4) [OF w'(3)] in \<open>auto simp: reqs_ok_def\<close>)
  then have "reqs_ok w' qs (a # ws) os"
    using assms(1) w'(2) ok(3) list_frame_alloc [OF w'(3)] list_frame_rest(8) [OF w'(3)] by (auto simp: reqs_ok_def)
  then show ?thesis using w' by blast
qed

lemma np_srv_remove_workreq_ok:
  assumes "reqs_ok w qs ws os" "a \<in> set ws"
  shows "\<exists>w'. np_srv_remove_workreq a w = Some w' \<and> reqs_ok w' qs (remove1 a ws) (a # os) \<and> list_frame w w'"
proof -
  have ok: "lists_at w qs ws" "distinct (qs @ ws @ os)" using assms(1) by (auto simp: reqs_ok_def)
  obtain w' where w': "np_srv_remove_workreq a w = Some w'" "lists_at w' qs (remove1 a ws)" "list_frame w w'"
      "\<forall>x. x \<notin> set qs \<union> set ws \<union> {a} \<longrightarrow> w_reqs w' x = w_reqs w x"
    using np_srv_remove_workreq_at [OF ok(1) assms(2)] by blast
  have s: "set (remove1 a ws) = set ws - {a}" using ok(2) by simp
  have "pool_ok w' (qs @ remove1 a ws @ a # os)"
    by (rule pool_ok_cong [where w = w and live = "qs @ ws @ os"])
      (use assms w'(4) s list_frame_rest(4) [OF w'(3)] in \<open>auto simp: reqs_ok_def\<close>)
  moreover have "w_reqs w a \<noteq> None" using ok(1) assms(2) dseg_alloc by (fastforce simp: lists_at_def)
  ultimately have "reqs_ok w' qs (remove1 a ws) (a # os)"
    using assms w'(2) ok(2) s list_frame_alloc [OF w'(3)] list_frame_rest(8) [OF w'(3)] by (auto simp: reqs_ok_def)
  then show ?thesis using w' by blast
qed

end
