(* ===== verification/Fcall.thy ===== *)
theory Fcall
  imports Conn
begin

text \<open>
  The handlers of the T-messages, \<^verbatim>\<open>npfs/libnpfs/fcall.c\<close>. A handler is given the
  request and its message; it returns the reply it created, or NULL with or without an error
  in the thread's error slot. The expressions the C code writes as
  \<^verbatim>\<open>!fid->type&Qtdir\<close> are read as the language reads them, \<^verbatim>\<open>(!fid->type)&Qtdir\<close>.
\<close>

section \<open>Helpers\<close>

text \<open>\<^verbatim>\<open>!x & mask\<close> in C: the negation binds tighter.\<close>

definition not_and8 :: "u8 \<Rightarrow> u8 \<Rightarrow> bool" where
  "not_and8 x m \<longleftrightarrow> (if x = 0 then 1 else 0) AND m \<noteq> 0"

definition not_and32 :: "u32 \<Rightarrow> u32 \<Rightarrow> bool" where
  "not_and32 x m \<longleftrightarrow> (if x = 0 then 1 else 0) AND m \<noteq> 0"

definition omode_none :: u16 where "omode_none = - 1"

text \<open>The user a Tauth or Tattach names, by name or by number; an unknown one is an error.\<close>

definition np_fcall_user ::
  "'x srvops \<Rightarrow> addr \<Rightarrow> Npfcall \<Rightarrow> 'x world \<Rightarrow> (addr option \<times> 'x world) option"
where
  "np_fcall_user so req tc w =
     (if str_len (fc_uname tc) \<noteq> 0 \<and> fc_n_uname tc = - 1 then do {
        (uname, w) \<leftarrow> run_strdup (fc_pkt tc) (fc_uname tc) w;
        (case uname of
           None \<Rightarrow> Some (None, w)
         | Some s \<Rightarrow>
             (case so_uname2user so s (w_users w) (w_user w) of
                (None, us, x) \<Rightarrow> Some (None, np_werror (Some Eunknownuser) EIO (w\<lparr>w_users := us, w_user := x\<rparr>))
              | (Some u, us, x) \<Rightarrow> do {
                  user \<leftarrow> us u;
                  w \<leftarrow> upd_req req (rq_tcall_update (map_option (fc_n_uname_update (\<lambda>_. us_uid user))))
                        (w\<lparr>w_users := us, w_user := x\<rparr>);
                  Some (Some u, w)
                }))
      }
      else
        (case so_uid2user so (fc_n_uname tc) (w_users w) (w_user w) of
           (None, us, x) \<Rightarrow> Some (None, np_werror (Some Eunknownuser) EIO (w\<lparr>w_users := us, w_user := x\<rparr>))
         | (Some u, us, x) \<Rightarrow> Some (Some u, w\<lparr>w_users := us, w_user := x\<rparr>)))"

text \<open>\<open>Some None\<close>: the string is empty; \<open>None\<close> (inside) : no memory.\<close>

definition np_fcall_aname :: "Npfcall \<Rightarrow> 'x world \<Rightarrow> (cstring option option \<times> 'x world) option" where
  "np_fcall_aname tc w =
     (if str_len (fc_aname tc) \<noteq> 0 then
        map_option (\<lambda>(s, w). (map_option Some s, w)) (run_strdup (fc_pkt tc) (fc_aname tc) w)
      else Some (Some None, w))"

section \<open>Version, auth, attach\<close>

definition np_version ::
  "'x srvops \<Rightarrow> addr \<Rightarrow> Npfcall \<Rightarrow> 'x world \<Rightarrow> (Npfcall option \<times> 'x world) option"
where
  "np_version so req tc w =
     (if fc_msize tc < IOHDRSZ + 1 then Some (None, np_werror (Some (cstr ''msize too small'')) EIO w)
      else do {
        r \<leftarrow> w_reqs w req;
        so_version so (rq_conn r) (fc_msize tc) (fc_pkt tc) (fc_version tc) w
      })"

text \<open>\<^verbatim>\<open>np_auth\<close> from the point where the new fid is held.\<close>

definition np_auth_body ::
  "'x srvops \<Rightarrow> addr \<Rightarrow> addr \<Rightarrow> Npfcall \<Rightarrow> 'x world \<Rightarrow> (Npfcall option \<times> 'x world) option"
where
  "np_auth_body so req a tc w = do {
     (user, w) \<leftarrow> np_fcall_user so req tc w;
     (case user of
        None \<Rightarrow> Some (None, w)
      | Some u \<Rightarrow> do {
          (aname, w) \<leftarrow> np_fcall_aname tc w;
          (case aname of
             None \<Rightarrow> Some (None, w)
           | Some aname \<Rightarrow> do {
               w \<leftarrow> upd_fid a (\<lambda>f. f\<lparr>fid_user := Some u\<rparr>) w;
               w \<leftarrow> upd_fid a (\<lambda>f. f\<lparr>fid_type := Qtauth\<rparr>) w;
               f \<leftarrow> w_fids w a;
               (case Option.bind (so_auth so) au_startauth of
                  None \<Rightarrow> Some (None, np_werror (Some Enoauth) EIO w)
                | Some start \<Rightarrow>
                    (case run_cb (start a f aname) w of
                       ((n, aqid), w) \<Rightarrow>
                         if n = 0 then Some (None, np_werror (Some Enoauth) EIO w)
                         else if qid_type aqid AND Qtauth = 0 then None
                         else Some (run_create (\<lambda>m. np_create_rauth m aqid) w)))
             })
        })
   }"

definition np_auth ::
  "'x srvops \<Rightarrow> addr \<Rightarrow> Npfcall \<Rightarrow> 'x world \<Rightarrow> (Npfcall option \<times> 'x world) option"
where
  "np_auth so req tc w = do {
     r \<leftarrow> w_reqs w req;
     (afid, w) \<leftarrow> np_fid_find (rq_conn r) (fc_afid tc) w;
     (case afid of
        Some a \<Rightarrow> do {
          w \<leftarrow> np_fid_decref so (Some a) (np_werror (Some Einuse) EIO w);
          Some (None, w)
        }
      | None \<Rightarrow> do {
          (afid, w) \<leftarrow> np_fid_create (rq_conn r) (fc_afid tc) w;
          (case afid of
             None \<Rightarrow> Some (None, w)
           | Some a \<Rightarrow> do {
               w \<leftarrow> np_fid_incref (Some a) w;
               (rc, w) \<leftarrow> np_auth_body so req a tc w;
               (case rc of
                  None \<Rightarrow> do { w \<leftarrow> np_fid_decref so (Some a) w; Some (None, w) }
                | Some rc \<Rightarrow> Some (Some rc, w))
             })
        })
   }"

text \<open>\<^verbatim>\<open>np_attach\<close> from the point where both fids are held.\<close>

definition np_attach_body ::
  "'x srvops \<Rightarrow> addr \<Rightarrow> addr \<Rightarrow> addr option \<Rightarrow> Npfcall \<Rightarrow> 'x world \<Rightarrow> (Npfcall option \<times> 'x world) option"
where
  "np_attach_body so req a afid tc w = do {
     (user, w) \<leftarrow> np_fcall_user so req tc w;
     (case user of
        None \<Rightarrow> Some (None, w)
      | Some u \<Rightarrow> do {
          w \<leftarrow> upd_fid a (\<lambda>f. f\<lparr>fid_user := Some u\<rparr>) w;
          (aname, w) \<leftarrow> np_fcall_aname tc w;
          (case aname of
             None \<Rightarrow> Some (None, w)
           | Some aname \<Rightarrow> do {
               f \<leftarrow> w_fids w a;
               let (go, w) = (case Option.bind (so_auth so) au_checkauth of
                  None \<Rightarrow> (True, w)
                | Some check \<Rightarrow> run_cb (check a f afid aname) w);
               if \<not> go then Some (None, w)
               else Some (run_cb (so_attach so a f afid (fc_pkt tc) (fc_uname tc) (fc_aname tc)) w)
             })
        })
   }"

text \<open>
  When no fid \<^verbatim>\<open>afid\<close> is found and it is \<^verbatim>\<open>NOFID\<close>, the code reads
  \<^verbatim>\<open>afid->type\<close> through the NULL pointer.
\<close>

definition np_attach ::
  "'x srvops \<Rightarrow> addr \<Rightarrow> Npfcall \<Rightarrow> 'x world \<Rightarrow> (Npfcall option \<times> 'x world) option"
where
  "np_attach so req tc w = do {
     r \<leftarrow> w_reqs w req;
     (fid, w) \<leftarrow> np_fid_find (rq_conn r) (fc_fid tc) w;
     (case fid of
        Some _ \<Rightarrow> Some (None, np_werror (Some Einuse) EIO w)
      | None \<Rightarrow> do {
          (fid, w) \<leftarrow> np_fid_create (rq_conn r) (fc_fid tc) w;
          (case fid of
             None \<Rightarrow> Some (None, w)
           | Some a \<Rightarrow> do {
               w \<leftarrow> np_fid_incref (Some a) w;
               w \<leftarrow> upd_req req (rq_fid_update (\<lambda>_. Some a)) w;
               (afid, w) \<leftarrow> np_fid_find (rq_conn r) (fc_afid tc) w;
               (case afid of
                  None \<Rightarrow>
                    if fc_afid tc \<noteq> NOFID then Some (None, np_werror (Some Eunknownfid) EIO w)
                    else None
                | Some b \<Rightarrow> do {
                    w \<leftarrow> np_fid_incref (Some b) w;
                    (rc, w) \<leftarrow> np_attach_body so req a (Some b) tc w;
                    w \<leftarrow> np_fid_decref so (Some b) w;
                    Some (rc, w)
                  })
             })
        })
   }"

section \<open>Flush\<close>

text \<open>The two searches: the queue, then the working requests.\<close>

partial_function (option) req_search :: "addr \<Rightarrow> u16 \<Rightarrow> addr option \<Rightarrow> Npreq heap \<Rightarrow> addr option option" where
  "req_search c tag p h =
     (case p of
        None \<Rightarrow> Some None
      | Some a \<Rightarrow> do {
          r \<leftarrow> h a;
          if rq_conn r = c \<and> rq_tag r = tag then Some (Some a) else req_search c tag (rq_next r) h
        })"

definition np_flush ::
  "'x srvops \<Rightarrow> addr \<Rightarrow> Npfcall \<Rightarrow> 'x world \<Rightarrow> (Npfcall option \<times> 'x world) option"
where
  "np_flush so req tc w = do {
     r \<leftarrow> w_reqs w req;
     pending \<leftarrow> req_search (rq_conn r) (fc_oldtag tc) (sv_reqs_first (w_srv w)) (w_reqs w);
     (case pending of
        Some creq \<Rightarrow> do {
          w \<leftarrow> np_srv_remove_req creq w;
          w \<leftarrow> np_conn_respond so creq w;
          w \<leftarrow> np_req_unref so creq w;
          Some (run_create np_create_rflush w)
        }
      | None \<Rightarrow> do {
          working \<leftarrow> req_search (rq_conn r) (fc_oldtag tc) (sv_workreqs (w_srv w)) (w_reqs w);
          (case working of
             Some creq \<Rightarrow> do {
               w \<leftarrow> np_req_ref creq w;
               cr \<leftarrow> w_reqs w creq;
               w \<leftarrow> upd_req req (rq_flushreq_update (\<lambda>_. rq_flushreq cr)) w;
               w \<leftarrow> upd_req creq (rq_flushreq_update (\<lambda>_. Some req)) w;
               (case so_flush so of
                  None \<Rightarrow> Some (None, w)
                | Some f \<Rightarrow> do {
                    w \<leftarrow> f creq w;
                    w \<leftarrow> np_req_unref so creq w;
                    Some (None, w)
                  })
             }
           | None \<Rightarrow> Some (run_create np_create_rflush w))
        })
   }"

section \<open>Walk\<close>

text \<open>
  The walk loop: the names from \<open>i\<close> on are walked one by one while the callback
  succeeds; the result is the list of the qids walked.
\<close>

fun np_walk_loop ::
  "'x srvops \<Rightarrow> addr \<Rightarrow> Npfcall \<Rightarrow> nat list \<Rightarrow> 'x world \<Rightarrow> (Npqid list \<times> 'x world) option"
where
  "np_walk_loop so a tc [] w = Some ([], w)"
| "np_walk_loop so a tc (i # is) w = do {
     f \<leftarrow> w_fids w a;
     let (q, w) = run_cb (so_walk so a f (fc_pkt tc) (fc_wnames tc i)) w;
     (case q of
        None \<Rightarrow> Some ([], w)
      | Some q \<Rightarrow> do {
          w \<leftarrow> upd_fid a (fid_type_update (\<lambda>_. qid_type q)) w;
          if is \<noteq> [] \<and> not_and8 (qid_type q) Qtdir then Some ([q], w)
          else do {
            (qs, w) \<leftarrow> np_walk_loop so a tc is w;
            Some (q # qs, w)
          }
        })
   }"

text \<open>
  From \<^verbatim>\<open>np_fid_incref(newfid)\<close> on. Only the elements of \<^verbatim>\<open>wqids\<close> that were
  walked are copied into the reply.
\<close>

definition np_walk_names ::
  "'x srvops \<Rightarrow> addr \<Rightarrow> Npfcall \<Rightarrow> 'x world \<Rightarrow> (Npfcall option \<times> 'x world) option"
where
  "np_walk_names so a tc w = do {
     w \<leftarrow> np_fid_incref (Some a) w;
     let n = unat (fc_nwname tc);
     (qs, w) \<leftarrow> np_walk_loop so a tc [0..<n] w;
     (rc, w) \<leftarrow>
       (if qs = [] \<and> n \<noteq> 0 then Some (None, w)
        else do {
          let w = np_werror None 0 w;
          w \<leftarrow> (if fc_fid tc \<noteq> fc_newfid tc then np_fid_incref (Some a) w else Some w);
          Some (run_create (\<lambda>m. np_create_rwalk m (int (length qs)) (nth qs)) w)
        });
     w \<leftarrow> np_fid_decref so (Some a) w;
     Some (rc, w)
   }"

text \<open>\<^verbatim>\<open>np_walk\<close> when a new fid is wanted, from the search for it on. Every way out
  ends with a \<^verbatim>\<open>np_fid_decref(newfid)\<close>.\<close>

definition np_walk_clone ::
  "'x srvops \<Rightarrow> addr \<Rightarrow> addr \<Rightarrow> Npfcall \<Rightarrow> 'x world \<Rightarrow> (Npfcall option \<times> 'x world) option"
where
  "np_walk_clone so c a tc w = do {
     (newfid, w) \<leftarrow> np_fid_find c (fc_newfid tc) w;
     (case newfid of
        Some b \<Rightarrow> do {
          w \<leftarrow> np_fid_decref so (Some b) (np_werror (Some Einuse) EIO w);
          Some (None, w)
        }
      | None \<Rightarrow> do {
          (newfid, w) \<leftarrow> np_fid_create c (fc_newfid tc) w;
          (case newfid of
             None \<Rightarrow> Some (None, np_werror (Some Ennomem) ENOMEM w)
           | Some b \<Rightarrow> do {
               f \<leftarrow> w_fids w a;
               let (cloned, w) = run_cb (so_clone so a f b) w;
               if \<not> cloned then do {
                 w \<leftarrow> np_fid_decref so (Some b) w;
                 Some (None, w)
               }
               else do {
                 f \<leftarrow> w_fids w a;
                 w \<leftarrow> np_user_incref (fid_user f) w;
                 w \<leftarrow> upd_fid b (fid_user_update (\<lambda>_. fid_user f)) w;
                 f \<leftarrow> w_fids w a;
                 w \<leftarrow> upd_fid b (fid_type_update (\<lambda>_. fid_type f)) w;
                 np_walk_names so b tc w
               }
             })
        })
   }"

text \<open>The start most handlers share: look the fid up and hold it for the request.\<close>

definition np_fcall_fid ::
  "addr \<Rightarrow> Npfcall \<Rightarrow> 'x world \<Rightarrow> (addr option \<times> 'x world) option"
where
  "np_fcall_fid req tc w = do {
     r \<leftarrow> w_reqs w req;
     (fid, w) \<leftarrow> np_fid_find (rq_conn r) (fc_fid tc) w;
     (case fid of
        None \<Rightarrow> Some (None, np_werror (Some Eunknownfid) EIO w)
      | Some a \<Rightarrow> do {
          w \<leftarrow> np_fid_incref (Some a) w;
          w \<leftarrow> upd_req req (rq_fid_update (\<lambda>_. Some a)) w;
          Some (Some a, w)
        })
   }"

definition np_walk ::
  "'x srvops \<Rightarrow> addr \<Rightarrow> Npfcall \<Rightarrow> 'x world \<Rightarrow> (Npfcall option \<times> 'x world) option"
where
  "np_walk so req tc w = do {
     (fid, w) \<leftarrow> np_fcall_fid req tc w;
     (case fid of
        None \<Rightarrow> Some (None, w)
      | Some a \<Rightarrow> do {
          r \<leftarrow> w_reqs w req;
          f \<leftarrow> w_fids w a;
          if not_and8 (fid_type f) Qtdir then Some (None, np_werror (Some Enotdir) ENOTDIR w)
          else if fid_omode f \<noteq> omode_none then Some (None, np_werror (Some Ebadusefid) EIO w)
          else if unat (fc_nwname tc) > MAXWELEM then Some (None, np_werror (Some Etoomanywnames) EIO w)
          else if fc_fid tc \<noteq> fc_newfid tc then np_walk_clone so (rq_conn r) a tc w
          else np_walk_names so a tc w
        })
   }"

section \<open>Open and create\<close>

definition np_open ::
  "'x srvops \<Rightarrow> addr \<Rightarrow> Npfcall \<Rightarrow> 'x world \<Rightarrow> (Npfcall option \<times> 'x world) option"
where
  "np_open so req tc w = do {
     (fid, w) \<leftarrow> np_fcall_fid req tc w;
     (case fid of
        None \<Rightarrow> Some (None, w)
      | Some a \<Rightarrow> do {
          f \<leftarrow> w_fids w a;
          if fid_omode f \<noteq> omode_none then Some (None, np_werror (Some Ebadusefid) EIO w)
          else if fid_type f AND Qtdir \<noteq> 0 \<and> fc_mode tc \<noteq> Oread
          then Some (None, np_werror (Some Eperm) EPERM w)
          else do {
            let (rc, w) = run_cb (so_open so a f (fc_mode tc)) w;
            w \<leftarrow> upd_fid a (fid_omode_update (\<lambda>_. ucast (fc_mode tc))) w;
            Some (rc, w)
          }
        })
   }"

definition np_create ::
  "'x srvops \<Rightarrow> addr \<Rightarrow> Npfcall \<Rightarrow> 'x world \<Rightarrow> (Npfcall option \<times> 'x world) option"
where
  "np_create so req tc w = do {
     (fid, w) \<leftarrow> np_fcall_fid req tc w;
     (case fid of
        None \<Rightarrow> Some (None, w)
      | Some a \<Rightarrow> do {
          f \<leftarrow> w_fids w a;
          cn \<leftarrow> w_conns w (fid_conn f);
          if fid_omode f \<noteq> omode_none then Some (None, np_werror (Some Ebadusefid) EIO w)
          else if not_and8 (fid_type f) Qtdir then Some (None, np_werror (Some Enotdir) ENOTDIR w)
          else if fc_perm tc AND Dmdir \<noteq> 0 \<and> fc_mode tc \<noteq> Oread
          then Some (None, np_werror (Some Eperm) EPERM w)
          else if fc_perm tc AND (Dmnamedpipe OR Dmsymlink OR Dmlink OR Dmdevice OR Dmsocket) \<noteq> 0 \<and> \<not> cn_dotu cn
          then Some (None, np_werror (Some Eperm) EPERM w)
          else do {
            let (rc, w) = run_cb (so_create so a f (fc_pkt tc) (fc_name tc) (fc_perm tc) (fc_mode tc) (fc_extension tc)) w;
            (case rc of
               None \<Rightarrow> Some (None, w)
             | Some rc \<Rightarrow>
                 if fc_type rc = Rcreate then do {
                   w \<leftarrow> upd_fid a (fid_omode_update (\<lambda>_. ucast (fc_mode tc))) w;
                   w \<leftarrow> upd_fid a (fid_type_update (\<lambda>_. qid_type (fc_qid rc))) w;
                   Some (Some rc, w)
                 }
                 else Some (Some rc, w))
          }
        })
   }"

section \<open>Read and write\<close>

text \<open>Reading from an authentication fid: the callback fills the reply's data.\<close>

definition np_auth_read ::
  "'x authops \<Rightarrow> addr \<Rightarrow> Npfcall \<Rightarrow> 'x world \<Rightarrow> (Npfcall option \<times> 'x world) option"
where
  "np_auth_read au a tc w = do {
     let (rc, w) = run_create (\<lambda>m. np_alloc_rread m (fc_count tc)) w;
     (case rc of
        None \<Rightarrow> Some (None, w)
      | Some rc \<Rightarrow> do {
          f \<leftarrow> w_fids w a;
          rd \<leftarrow> au_read au;
          let ((n, bytes), w) = run_cb (rd a f (fc_offset tc) (fc_count tc)) w;
          rc \<leftarrow> (case fc_data rc of
            None \<Rightarrow> if bytes = [] then Some rc else None
          | Some i \<Rightarrow> if i < 0 \<or> int (length (fc_pkt rc)) < i + int (length bytes) then None
              else Some (rc\<lparr>fc_pkt := take (nat i) (fc_pkt rc) @ bytes @ drop (nat i + length bytes) (fc_pkt rc)\<rparr>));
          if n \<ge> 0 then
            (case np_set_rread_count rc (word_of_int n) of
               Inl _ \<Rightarrow> None
             | Inr rc \<Rightarrow> Some (Some rc, w))
          else Some (None, w)
        })
   }"

definition np_read ::
  "'x srvops \<Rightarrow> addr \<Rightarrow> Npfcall \<Rightarrow> 'x world \<Rightarrow> (Npfcall option \<times> 'x world) option"
where
  "np_read so req tc w = do {
     (fid, w) \<leftarrow> np_fcall_fid req tc w;
     (case fid of
        None \<Rightarrow> Some (None, w)
      | Some a \<Rightarrow> do {
          r \<leftarrow> w_reqs w req;
          f \<leftarrow> w_fids w a;
          cn \<leftarrow> w_conns w (rq_conn r);
          if fc_count tc + IOHDRSZ > cn_msize cn then Some (None, np_werror (Some Etoolarge) EIO w)
          else if fid_type f AND Qtauth \<noteq> 0 then
            (case so_auth so of
               Some au \<Rightarrow> np_auth_read au a tc w
             | None \<Rightarrow> Some (None, np_werror (Some Ebadusefid) EIO w))
          else if fid_omode f = omode_none \<or> fid_omode f AND 3 = ucast Owrite
          then Some (None, np_werror (Some Ebadusefid) EIO w)
          else if fid_type f AND Qtdir \<noteq> 0 \<and> fc_offset tc \<noteq> ucast (fid_diroffset f)
          then Some (None, np_werror (Some Ebadoffset) EIO w)
          else Some (run_cb (so_read so a f (fc_offset tc) (fc_count tc) req) w)
        })
   }"

definition np_write ::
  "'x srvops \<Rightarrow> addr \<Rightarrow> Npfcall \<Rightarrow> 'x world \<Rightarrow> (Npfcall option \<times> 'x world) option"
where
  "np_write so req tc w = do {
     (fid, w) \<leftarrow> np_fcall_fid req tc w;
     (case fid of
        None \<Rightarrow> Some (None, w)
      | Some a \<Rightarrow> do {
          r \<leftarrow> w_reqs w req;
          f \<leftarrow> w_fids w a;
          cn \<leftarrow> w_conns w (rq_conn r);
          if fid_type f AND Qtauth \<noteq> 0 then
            (case so_auth so of
               Some au \<Rightarrow> do {
                 wr \<leftarrow> au_write au;
                 let (n, w) = run_cb (wr a f (fc_offset tc) (fc_count tc) (fc_pkt tc) (fc_data tc)) w;
                 if n \<ge> 0 then Some (run_create (\<lambda>m. np_create_rwrite m (word_of_int n)) w)
                 else Some (None, w)
               }
             | None \<Rightarrow> Some (None, np_werror (Some Ebadusefid) EIO w))
          else if fid_omode f = omode_none \<or> fid_type f AND Qtdir \<noteq> 0 \<or> fid_omode f AND 3 = ucast Oread
          then Some (None, np_werror (Some Ebadusefid) EIO w)
          else if fc_count tc + IOHDRSZ > cn_msize cn then Some (None, np_werror (Some Etoolarge) EIO w)
          else Some (run_cb (so_write so a f (fc_offset tc) (fc_count tc) (fc_pkt tc) (fc_data tc) req) w)
        })
   }"

section \<open>Clunk, remove, stat, wstat\<close>

text \<open>\<^verbatim>\<open>if (rc && rc->type == t) np_fid_decref(fid)\<close>\<close>

definition decref_on ::
  "'x srvops \<Rightarrow> u8 \<Rightarrow> addr \<Rightarrow> Npfcall option \<times> 'x world \<Rightarrow> (Npfcall option \<times> 'x world) option"
where
  "decref_on so t a s =
     (case s of
        (Some rc, w) \<Rightarrow>
          if fc_type rc = t then map_option (\<lambda>w. (Some rc, w)) (np_fid_decref so (Some a) w)
          else Some (Some rc, w)
      | (None, w) \<Rightarrow> Some (None, w))"

definition np_clunk ::
  "'x srvops \<Rightarrow> addr \<Rightarrow> Npfcall \<Rightarrow> 'x world \<Rightarrow> (Npfcall option \<times> 'x world) option"
where
  "np_clunk so req tc w = do {
     (fid, w) \<leftarrow> np_fcall_fid req tc w;
     (case fid of
        None \<Rightarrow> Some (None, w)
      | Some a \<Rightarrow> do {
          f \<leftarrow> w_fids w a;
          if fid_type f AND Qtauth \<noteq> 0 then
            (case so_auth so of
               Some au \<Rightarrow> do {
                 cl \<leftarrow> au_clunk au;
                 let (n, w) = run_cb (cl a f) w;
                 if n then Some (run_create np_create_rclunk w) else Some (None, w)
               }
             | None \<Rightarrow> Some (None, np_werror (Some Ebadusefid) EIO w))
          else if fid_omode f \<noteq> omode_none \<and> fid_omode f = ucast Orclose then do {
            let (rc, w) = run_cb (so_remove so a f) w;
            rc \<leftarrow> rc;
            if fc_type rc = Rerror then Some (Some rc, w)
            else decref_on so Rclunk a (run_create np_create_rclunk w)
          }
          else decref_on so Rclunk a (run_cb (so_clunk so a f) w)
        })
   }"

definition np_remove ::
  "'x srvops \<Rightarrow> addr \<Rightarrow> Npfcall \<Rightarrow> 'x world \<Rightarrow> (Npfcall option \<times> 'x world) option"
where
  "np_remove so req tc w = do {
     (fid, w) \<leftarrow> np_fcall_fid req tc w;
     (case fid of
        None \<Rightarrow> Some (None, w)
      | Some a \<Rightarrow> do {
          f \<leftarrow> w_fids w a;
          decref_on so Rremove a (run_cb (so_remove so a f) w)
        })
   }"

definition np_stat ::
  "'x srvops \<Rightarrow> addr \<Rightarrow> Npfcall \<Rightarrow> 'x world \<Rightarrow> (Npfcall option \<times> 'x world) option"
where
  "np_stat so req tc w = do {
     (fid, w) \<leftarrow> np_fcall_fid req tc w;
     (case fid of
        None \<Rightarrow> Some (None, w)
      | Some a \<Rightarrow> do {
          f \<leftarrow> w_fids w a;
          Some (run_cb (so_stat so a f) w)
        })
   }"

definition np_wstat ::
  "'x srvops \<Rightarrow> addr \<Rightarrow> Npfcall \<Rightarrow> 'x world \<Rightarrow> (Npfcall option \<times> 'x world) option"
where
  "np_wstat so req tc w = do {
     (fid, w) \<leftarrow> np_fcall_fid req tc w;
     (case fid of
        None \<Rightarrow> Some (None, w)
      | Some a \<Rightarrow> do {
          f \<leftarrow> w_fids w a;
          let st = fc_stat tc;
          if st_type st \<noteq> - 1 \<or> st_dev st \<noteq> - 1 \<or> qid_version (st_qid st) \<noteq> - 1 \<or> qid_path (st_qid st) \<noteq> - 1
          then Some (None, np_werror (Some Eperm) EPERM w)
          else if (fid_type f AND Qtdir \<noteq> 0 \<and> not_and32 (st_mode st) Dmdir)
            \<or> (not_and8 (fid_type f) Qtdir \<and> st_mode st AND Dmdir \<noteq> 0)
          then Some (None, np_werror (Some Edirchange) EPERM w)
          else Some (run_cb (so_wstat so a f (fc_pkt tc) st) w)
        })
   }"

end
