(* ===== verification/Srv.thy ===== *)
theory Srv
  imports Fcall
begin

text \<open>
  The server proper, \<^verbatim>\<open>npfs/libnpfs/srv.c\<close>: the default operations a new server
  starts with, the dispatch of a request to its handler, the replies with the flush requests
  chained to them, and one pass of a worker thread.
\<close>

section \<open>Default operations\<close>

text \<open>
  \<^verbatim>\<open>np_default_version\<close>. On its two error paths it returns the uninitialised
  \<^verbatim>\<open>rc\<close>, which its caller frees: no defined result.
\<close>

definition np_default_version ::
  "'x srvops \<Rightarrow> ('x world \<Rightarrow> 'x world) \<Rightarrow> addr \<Rightarrow> u32 \<Rightarrow> u8 list \<Rightarrow> Npstr \<Rightarrow> 'x world \<Rightarrow>
     (Npfcall option \<times> 'x world) option"
where
  "np_default_version so others c msize pkt version w = do {
     let msize = (if msize > sv_msize (w_srv w) then sv_msize (w_srv w) else msize);
     u \<leftarrow> np_strcmp pkt version (cstr ''9P2000.u'');
     (dotu, ver) \<leftarrow>
       (if u = 0 \<and> sv_dotu (w_srv w) then Some (True, Some (cstr ''9P2000.u''))
        else do {
          p \<leftarrow> np_strncmp pkt version (cstr ''9P2000'') 6;
          Some (False, if p = 0 then Some (cstr ''9P2000'') else None)
        });
     if msize < IOHDRSZ then None
     else do {
       ver \<leftarrow> ver;
       w \<leftarrow> np_conn_reset so others c msize dotu w;
       Some (run_create (\<lambda>m. np_create_rversion m msize ver) w)
     }
   }"

definition not_implemented :: "int \<Rightarrow> ('x, 'r option) cb" where
  "not_implemented ecode x = (None, Some (Some Enotimpl, ecode), x)"

definition np_default_attach ::
  "addr \<Rightarrow> Npfid \<Rightarrow> addr option \<Rightarrow> u8 list \<Rightarrow> Npstr \<Rightarrow> Npstr \<Rightarrow> ('x, Npfcall option) cb" where
  "np_default_attach a f afid pkt uname aname = not_implemented EIO"
definition np_default_flush :: "addr \<Rightarrow> 'x world \<Rightarrow> 'x world option" where
  "np_default_flush req w = Some w"
definition np_default_clone :: "addr \<Rightarrow> Npfid \<Rightarrow> addr \<Rightarrow> ('x, bool) cb" where
  "np_default_clone a f b x = (False, None, x)"
definition np_default_walk :: "addr \<Rightarrow> Npfid \<Rightarrow> u8 list \<Rightarrow> Npstr \<Rightarrow> ('x, Npqid option) cb" where
  "np_default_walk a f pkt wname = not_implemented ENOSYS"
definition np_default_open :: "addr \<Rightarrow> Npfid \<Rightarrow> u8 \<Rightarrow> ('x, Npfcall option) cb" where
  "np_default_open a f perm = not_implemented ENOSYS"
definition np_default_create ::
  "addr \<Rightarrow> Npfid \<Rightarrow> u8 list \<Rightarrow> Npstr \<Rightarrow> u32 \<Rightarrow> u8 \<Rightarrow> Npstr \<Rightarrow> ('x, Npfcall option) cb" where
  "np_default_create a f pkt name mode perm ext = not_implemented ENOSYS"
definition np_default_read :: "addr \<Rightarrow> Npfid \<Rightarrow> u64 \<Rightarrow> u32 \<Rightarrow> addr \<Rightarrow> ('x, Npfcall option) cb" where
  "np_default_read a f offset count req = not_implemented ENOSYS"
definition np_default_write ::
  "addr \<Rightarrow> Npfid \<Rightarrow> u64 \<Rightarrow> u32 \<Rightarrow> u8 list \<Rightarrow> int option \<Rightarrow> addr \<Rightarrow> ('x, Npfcall option) cb" where
  "np_default_write a f offset count pkt data req = not_implemented ENOSYS"
definition np_default_clunk :: "addr \<Rightarrow> Npfid \<Rightarrow> ('x, Npfcall option) cb" where
  "np_default_clunk a f = not_implemented ENOSYS"
definition np_default_remove :: "addr \<Rightarrow> Npfid \<Rightarrow> ('x, Npfcall option) cb" where
  "np_default_remove a f = not_implemented ENOSYS"
definition np_default_stat :: "addr \<Rightarrow> Npfid \<Rightarrow> ('x, Npfcall option) cb" where
  "np_default_stat a f = not_implemented ENOSYS"
definition np_default_wstat :: "addr \<Rightarrow> Npfid \<Rightarrow> u8 list \<Rightarrow> Npstat \<Rightarrow> ('x, Npfcall option) cb" where
  "np_default_wstat a f pkt st = not_implemented ENOSYS"

text \<open>
  The operations of a fresh server. The user pool (\<^verbatim>\<open>np_unix_users\<close>, over the
  system's password database) and the transports are arguments. \<^verbatim>\<open>version\<close> is tied to
  the final operations by the caller, since \<^verbatim>\<open>np_conn_reset\<close> calls them.
\<close>

definition np_default_ops ::
  "(cstring \<Rightarrow> Npuser heap \<Rightarrow> 'x \<Rightarrow> addr option \<times> Npuser heap \<times> 'x) \<Rightarrow>
   (u32 \<Rightarrow> Npuser heap \<Rightarrow> 'x \<Rightarrow> addr option \<times> Npuser heap \<times> 'x) \<Rightarrow>
   (nat \<Rightarrow> u8 list \<Rightarrow> 'x \<Rightarrow> int \<times> 'x) \<Rightarrow>
   (addr \<Rightarrow> u32 \<Rightarrow> u8 list \<Rightarrow> Npstr \<Rightarrow> 'x world \<Rightarrow> (Npfcall option \<times> 'x world) option) \<Rightarrow> 'x srvops"
where
  "np_default_ops uname2user uid2user tr_write version =
     \<lparr>so_start = None, so_shutdown = None, so_destroy = None, so_connopen = None, so_connclose = None,
      so_fiddestroy = None, so_auth = None, so_uname2user = uname2user, so_uid2user = uid2user,
      so_udestroy = None, so_trans_write = tr_write, so_version = version,
      so_flush = Some np_default_flush, so_attach = np_default_attach, so_clone = np_default_clone,
      so_walk = np_default_walk, so_open = np_default_open, so_create = np_default_create,
      so_read = np_default_read, so_write = np_default_write, so_clunk = np_default_clunk,
      so_remove = np_default_remove, so_stat = np_default_stat, so_wstat = np_default_wstat\<rparr>"

section \<open>Creating, starting and stopping a server\<close>

text \<open>A worker thread that was created is put in front of the list.\<close>

definition np_wthread_create :: "nat \<Rightarrow> bool \<Rightarrow> Npsrv \<Rightarrow> Npsrv" where
  "np_wthread_create i ok s =
     (if \<not> ok then s
      else s\<lparr>sv_wthreads := \<lparr>wt_id = i, wt_shutdown = False\<rparr> # sv_wthreads s\<rparr>)"

definition np_srv_create :: "bool list \<Rightarrow> Npsrv" where
  "np_srv_create threads =
     fold (\<lambda>(i, ok). np_wthread_create i ok) (zip [0..<length threads] threads)
       \<lparr>sv_msize = 8216, sv_dotu = True, sv_shuttingdown = False, sv_conns = None,
        sv_reqs_first = None, sv_reqs_last = None, sv_workreqs = None, sv_wthreads = []\<rparr>"

definition np_srv_start :: "'x srvops \<Rightarrow> 'x world \<Rightarrow> 'x world" where
  "np_srv_start so w = (case so_start so of None \<Rightarrow> w | Some f \<Rightarrow> w\<lparr>w_user := f (w_user w)\<rparr>)"

partial_function (option) shutdown_conns :: "addr option \<Rightarrow> 'x world \<Rightarrow> 'x world option" where
  "shutdown_conns p w =
     (case p of
        None \<Rightarrow> Some w
      | Some c \<Rightarrow> do {
          cn \<leftarrow> w_conns w c;
          w \<leftarrow> np_conn_shutdown c w;
          shutdown_conns (cn_next cn) w
        })"

text \<open>
  The callback \<^verbatim>\<open>shutdown\<close> is called without a test; when the connections are not to
  be shut down, the loop runs on the uninitialised \<^verbatim>\<open>conn\<close>: no defined result.
\<close>

definition np_srv_shutdown :: "'x srvops \<Rightarrow> bool \<Rightarrow> 'x world \<Rightarrow> 'x world option" where
  "np_srv_shutdown so shutconns w = do {
     let w = w\<lparr>w_srv := (w_srv w)\<lparr>sv_shuttingdown := True\<rparr>\<rparr>;
     f \<leftarrow> so_shutdown so;
     let w = w\<lparr>w_user := f (w_user w)\<rparr>;
     if \<not> shutconns then None
     else shutdown_conns (sv_conns (w_srv w)) (w\<lparr>w_srv := (w_srv w)\<lparr>sv_conns := None\<rparr>\<rparr>)
   }"

section \<open>Dispatch\<close>

type_synonym 'x handler = "addr \<Rightarrow> Npfcall \<Rightarrow> 'x world \<Rightarrow> (Npfcall option \<times> 'x world) option"

definition np_fcalls :: "'x srvops \<Rightarrow> 'x handler option list" where
  "np_fcalls so =
     [Some (np_version so), Some (np_auth so), Some (np_attach so), None, Some (np_flush so),
      Some (np_walk so), Some (np_open so), Some (np_create so), Some (np_read so),
      Some (np_write so), Some (np_clunk so), Some (np_remove so), Some (np_stat so),
      Some (np_wstat so)]"

text \<open>
  The guard \<^verbatim>\<open>type<Tfirst && type>Rlast\<close> is never true, so the table is indexed with
  every type; the index is C's division, which rounds towards zero. Outside the table there is
  no defined result.
\<close>

definition np_fcall_index :: "u8 \<Rightarrow> int" where
  "np_fcall_index t =
     (let d = uint t - uint Tfirst in if d < 0 then - ((- d) div 2) else d div 2)"

definition np_process_request ::
  "'x srvops \<Rightarrow> addr \<Rightarrow> 'x world \<Rightarrow> (Npfcall option \<times> 'x world) option"
where
  "np_process_request so req w = do {
     r \<leftarrow> w_reqs w req;
     tc \<leftarrow> rq_tcall r;
     (f, w) \<leftarrow>
       (if fc_type tc < Tfirst \<and> fc_type tc > Rlast
        then Some (None, np_werror (Some (cstr ''unknown message type'')) ENOSYS w)
        else
          (let i = np_fcall_index (fc_type tc) in
           if i < 0 \<or> int (length (np_fcalls so)) \<le> i then None
           else Some (np_fcalls so ! nat i, w)));
     let w = np_werror None 0 w;
     (rc, w) \<leftarrow>
       (case f of
          Some f \<Rightarrow> f req tc w
        | None \<Rightarrow> Some (None, np_werror (Some (cstr ''unsupported message'')) ENOSYS w));
     (case np_rerror w of
        (None, _) \<Rightarrow> Some (rc, w)
      | (Some ename, ecode) \<Rightarrow> do {
          cn \<leftarrow> w_conns w (rq_conn r);
          Some (run_create (\<lambda>m. np_create_rerror m ename (word_of_int ecode) (cn_dotu cn)) w)
        })
   }"

section \<open>Replies\<close>

partial_function (option) unlink_flushes :: "addr option \<Rightarrow> 'x world \<Rightarrow> 'x world option" where
  "unlink_flushes p w =
     (case p of
        None \<Rightarrow> Some w
      | Some a \<Rightarrow> do {
          w \<leftarrow> np_srv_remove_workreq a w;
          r \<leftarrow> w_reqs w a;
          unlink_flushes (rq_flushreq r) w
        })"

text \<open>The flush requests chained to a request are answered after it; the link to the next one
  is read after the request is let go.\<close>

definition answer_flush :: "'x srvops \<Rightarrow> addr \<Rightarrow> 'x world \<Rightarrow> 'x world option" where
  "answer_flush so a w = do {
     r \<leftarrow> w_reqs w a;
     let (rc, w) = run_create np_create_rflush w;
     rc \<leftarrow> rc;
     rc \<leftarrow> (case np_set_tag rc (rq_tag r) of Inl _ \<Rightarrow> None | Inr rc \<Rightarrow> Some rc);
     w \<leftarrow> upd_req a (rq_rcall_update (\<lambda>_. Some rc)) w;
     w \<leftarrow> np_conn_respond so a w;
     np_req_unref so a w
   }"

partial_function (option) answer_flushes :: "'x srvops \<Rightarrow> addr option \<Rightarrow> 'x world \<Rightarrow> 'x world option" where
  "answer_flushes so p w =
     (case p of
        None \<Rightarrow> Some w
      | Some a \<Rightarrow> do {
          w \<leftarrow> answer_flush so a w;
          r \<leftarrow> w_reqs w a;
          answer_flushes so (rq_flushreq r) w
        })"

text \<open>The reply itself: the directory offset of a read, the tag, the fid, the packet.\<close>

definition np_respond_reply :: "'x srvops \<Rightarrow> addr \<Rightarrow> Npfcall \<Rightarrow> 'x world \<Rightarrow> 'x world option" where
  "np_respond_reply so req rc w = do {
     r \<leftarrow> w_reqs w req;
     w \<leftarrow> (if fc_type rc = Rread then do {
         a \<leftarrow> rq_fid r;
         f \<leftarrow> w_fids w a;
         if fid_type f AND Qtdir \<noteq> 0 then do {
           tc \<leftarrow> rq_tcall r;
           upd_fid a (fid_diroffset_update (\<lambda>_. ucast (fc_offset tc + ucast (fc_count rc)))) w
         }
         else Some w
       }
       else Some w);
     rc \<leftarrow> (case np_set_tag rc (rq_tag r) of Inl _ \<Rightarrow> None | Inr rc \<Rightarrow> Some rc);
     w \<leftarrow> upd_req req (rq_rcall_update (\<lambda>_. Some rc)) w;
     w \<leftarrow> (case rq_fid r of
         None \<Rightarrow> Some w
       | Some a \<Rightarrow> do {
           w \<leftarrow> np_fid_decref so (Some a) w;
           upd_req req (rq_fid_update (\<lambda>_. None)) w
         });
     np_conn_respond so req w
   }"

definition np_respond :: "'x srvops \<Rightarrow> addr \<Rightarrow> Npfcall option \<Rightarrow> 'x world \<Rightarrow> 'x world option" where
  "np_respond so req rc w = do {
     r \<leftarrow> w_reqs w req;
     if rq_responded r then np_req_unref so req w
     else do {
       w \<leftarrow> upd_req req (rq_responded_update (\<lambda>_. True)) w;
       w \<leftarrow> np_srv_remove_workreq req w;
       r \<leftarrow> w_reqs w req;
       w \<leftarrow> unlink_flushes (rq_flushreq r) w;
       w \<leftarrow> upd_req req (rq_rcall_update (\<lambda>_. rc)) w;
       w \<leftarrow> (case rc of None \<Rightarrow> Some w | Some rc \<Rightarrow> np_respond_reply so req rc w);
       r \<leftarrow> w_reqs w req;
       w \<leftarrow> answer_flushes so (rq_flushreq r) w;
       np_req_unref so req w
     }
   }"

definition np_respond_error :: "'x srvops \<Rightarrow> addr \<Rightarrow> cstring \<Rightarrow> int \<Rightarrow> 'x world \<Rightarrow> 'x world option" where
  "np_respond_error so req ename ecode w = do {
     r \<leftarrow> w_reqs w req;
     cn \<leftarrow> w_conns w (rq_conn r);
     let (rc, w) = run_create (\<lambda>m. np_create_rerror m ename (word_of_int ecode) (cn_dotu cn)) w;
     np_respond so req rc w
   }"

section \<open>Worker threads\<close>

text \<open>
  One pass of the loop of \<^verbatim>\<open>np_wthread_proc\<close> by the thread \<open>i\<close>, when there is a
  request: it moves from the queue to the working list before it is processed.
\<close>

definition np_wthread_take :: "nat \<Rightarrow> 'x world \<Rightarrow> (addr option \<times> 'x world) option" where
  "np_wthread_take i w =
     (case sv_reqs_first (w_srv w) of
        None \<Rightarrow> Some (None, w)
      | Some req \<Rightarrow> do {
          w \<leftarrow> np_srv_remove_req req w;
          w \<leftarrow> np_srv_add_workreq req w;
          w \<leftarrow> upd_req req (rq_wthread_update (\<lambda>_. Some i)) w;
          Some (Some req, w)
        })"

definition np_wthread_run :: "'x srvops \<Rightarrow> nat \<Rightarrow> addr \<Rightarrow> 'x world \<Rightarrow> 'x world option" where
  "np_wthread_run so i req w = do {
     (rc, w) \<leftarrow> np_process_request so req (w\<lparr>w_self := i\<rparr>);
     (case rc of None \<Rightarrow> Some w | Some rc \<Rightarrow> np_respond so req (Some rc) w)
   }"

definition np_wthread_proc :: "'x srvops \<Rightarrow> nat \<Rightarrow> 'x world \<Rightarrow> 'x world option" where
  "np_wthread_proc so i w =
     (if \<exists>wt \<in> set (sv_wthreads (w_srv w)). wt_id wt = i \<and> wt_shutdown wt then Some w
      else do {
        (req, w) \<leftarrow> np_wthread_take i w;
        (case req of None \<Rightarrow> Some w | Some req \<Rightarrow> np_wthread_run so i req w)
      })"

end
