(* ===== verification/ReadLoop.thy ===== *)
theory ReadLoop
  imports Requests NpCodec
begin

text \<open>
  The read loop of a connection (\<^verbatim>\<open>np_conn_read_proc\<close>) as a framing of a byte
  stream: however the transport cuts the bytes, every complete message becomes one request at
  the end of the queue, in order, and an incomplete one stays in the buffer.
\<close>

section \<open>Frames in a byte stream\<close>

lemma pkt_size_prefix: "4 \<le> length p \<Longrightarrow> pkt_size (p @ r) = pkt_size p"
  by (cases p) (auto simp: pkt_size_def of_le32_def nth_append)

lemma pkt_size_take: "4 \<le> n \<Longrightarrow> n \<le> length p \<Longrightarrow> pkt_size (take n p) = pkt_size p"
  by (simp add: pkt_size_def of_le32_def)

lemma pkt_size_wire:
  assumes "wf_msg m"
  shows "pkt_size (wire nu d tag m @ r) = int (length (wire nu d tag m))"
proof -
  have b: "length (payload nu d m) + 7 < 2147483648" by (rule payload_bound [OF assms])
  have "of_le32 (wire nu d tag m @ r) = of_le32 (le32 (word_of_int (int (length (payload nu d m)) + 7)))"
    by (simp add: wire_def hdr_def of_le32_def nth_append)
  also have "\<dots> = word_of_nat (length (payload nu d m) + 7)" by simp
  finally show ?thesis
    using b sint_of_nat_u32 [of "length (payload nu d m) + 7"] by (simp add: pkt_size_def wire_def del: of_nat_add)
qed

lemma wire_length: "7 \<le> length (wire nu d tag m)"
  by (simp add: wire_def)

definition incomplete :: "u8 list \<Rightarrow> bool" where
  "incomplete p \<longleftrightarrow> length p < 4 \<or> int (length p) < pkt_size p"

text \<open>What is left of the bytes when all complete frames are taken off.\<close>

function leftover :: "u8 list \<Rightarrow> u8 list" where
  "leftover x = (if incomplete x \<or> pkt_size x < 1 then x else leftover (drop (nat (pkt_size x)) x))"
  by auto
termination by (relation "measure length") (auto simp: incomplete_def)

declare leftover.simps [simp del]

definition stream :: "u32 \<Rightarrow> bool \<Rightarrow> (u16 \<times> npmsg) list \<Rightarrow> u8 list" where
  "stream nu d ms = concat (map (\<lambda>(tag, m). wire nu d tag m) ms)"

lemma stream_simps [simp]:
  "stream nu d [] = []" "stream nu d ((tag, m) # ms) = wire nu d tag m @ stream nu d ms"
  "stream nu d (ms @ ms') = stream nu d ms @ stream nu d ms'"
  by (simp_all add: stream_def)

definition wf_msgs :: "(u16 \<times> npmsg) list \<Rightarrow> bool" where
  "wf_msgs ms \<longleftrightarrow> (\<forall>(tag, m) \<in> set ms. wf_msg m)"

lemma wf_msgs_simps [simp]:
  "wf_msgs []" "wf_msgs ((tag, m) # ms) \<longleftrightarrow> wf_msg m \<and> wf_msgs ms"
  "wf_msgs (ms @ ms') \<longleftrightarrow> wf_msgs ms \<and> wf_msgs ms'"
  by (auto simp: wf_msgs_def)

lemma incomplete_prefix: "incomplete (x @ y) \<Longrightarrow> incomplete x"
proof (cases "length x < 4")
  case False
  moreover assume "incomplete (x @ y)"
  ultimately show ?thesis using pkt_size_prefix [of x y] by (simp add: incomplete_def)
qed (simp add: incomplete_def)

lemma incomplete_wire:
  assumes "wf_msg m" "x @ y = wire nu d tag m @ z" "length x < length (wire nu d tag m)"
  shows "incomplete x"
proof (cases "length x < 4")
  case False
  then have "pkt_size x = int (length (wire nu d tag m))"
    using pkt_size_prefix [of x y] pkt_size_wire [OF assms(1), of nu d tag z] assms(2) by simp
  then show ?thesis using assms(3) by (simp add: incomplete_def)
qed (simp add: incomplete_def)

lemma not_incomplete_wire: "wf_msg m \<Longrightarrow> \<not> incomplete (wire nu d tag m @ r)"
  using wire_length [of nu d tag m] by (simp add: incomplete_def pkt_size_wire)

lemma leftover_stream: "wf_msgs ms \<Longrightarrow> incomplete p \<Longrightarrow> leftover (stream nu d ms @ p) = p"
proof (induction ms)
  case Nil
  then show ?case by (simp add: leftover.simps)
next
  case (Cons a ms)
  obtain tag m where a: "a = (tag, m)" by (cases a)
  then have wf: "wf_msg m" "wf_msgs ms" using Cons.prems(1) by auto
  have "1 \<le> pkt_size (wire nu d tag m @ stream nu d ms @ p)"
    using wire_length [of nu d tag m] by (simp add: pkt_size_wire [OF wf(1)])
  then have "leftover (stream nu d (a # ms) @ p) = leftover (stream nu d ms @ p)"
    using a not_incomplete_wire [OF wf(1)] wire_length [of nu d tag m] by (auto simp: leftover.simps [of "wire nu d tag m @ _"] pkt_size_wire [OF wf(1)])
  then show ?case using Cons.IH [OF wf(2) Cons.prems(2)] by simp
qed

lemma stream_split:
  "wf_msgs ms \<Longrightarrow> incomplete q \<Longrightarrow> x @ y = stream nu d ms @ q \<Longrightarrow>
    \<exists>ms1 ms2 p. ms = ms1 @ ms2 \<and> x = stream nu d ms1 @ p \<and> p @ y = stream nu d ms2 @ q \<and> incomplete p"
proof (induction ms arbitrary: x)
  case Nil
  then show ?case using incomplete_prefix [of x y] by (intro exI [of _ "[]"] exI [of _ x]) auto
next
  case (Cons a ms)
  obtain tag m where a: "a = (tag, m)" by (cases a)
  let ?w = "wire nu d tag m"
  have wf: "wf_msg m" "wf_msgs ms" using Cons.prems(1) a by auto
  have eq: "x @ y = ?w @ stream nu d ms @ q" using Cons.prems(3) a by simp
  show ?case
  proof (cases "length x < length ?w")
    case True
    then show ?thesis using incomplete_wire [OF wf(1) eq] Cons.prems(3)
      by (intro exI [of _ "[]"] exI [of _ "a # ms"] exI [of _ x]) simp
  next
    case False
    define x' where "x' = drop (length ?w) x"
    have "take (length ?w) (x @ y) = take (length ?w) (?w @ stream nu d ms @ q)"
      "drop (length ?w) (x @ y) = drop (length ?w) (?w @ stream nu d ms @ q)" unfolding eq by simp_all
    then have x: "x = ?w @ x'" "x' @ y = stream nu d ms @ q"
      using False append_take_drop_id [of "length ?w" x] by (simp_all add: x'_def)
    obtain ms1 ms2 p where "ms = ms1 @ ms2" "x' = stream nu d ms1 @ p" "p @ y = stream nu d ms2 @ q" "incomplete p"
      using Cons.IH [OF wf(2) Cons.prems(2) x(2)] by blast
    then show ?thesis using a x(1)
      by (intro exI [of _ "a # ms1"] exI [of _ ms2] exI [of _ p]) simp
  qed
qed


section \<open>The reader\<close>

text \<open>
  What the read loop relies on: the connection is up and not being reset, its buffers have
  \<open>M\<close> bytes, no allocation fails, and the request lists are well formed.
\<close>

definition conn_up :: "Npconn \<Rightarrow> nat \<Rightarrow> bool \<Rightarrow> bool" where
  "conn_up cn M d \<longleftrightarrow> \<not> cn_resetting cn \<and> cn_trans cn \<noteq> None \<and> cn_dotu cn = d \<and> unat (cn_msize cn) = M \<and>
     (\<forall>fc\<in>set (cn_freerclist cn). length (fc_pkt fc) = M)"

definition reader_ok ::
  "'x world \<Rightarrow> addr \<Rightarrow> nat \<Rightarrow> bool \<Rightarrow> addr list \<Rightarrow> addr list \<Rightarrow> addr list \<Rightarrow> bool"
where
  "reader_ok w c M d qs ws os \<longleftrightarrow> (\<exists>cn. w_conns w c = Some cn \<and> conn_up cn M d) \<and>
     (\<forall>n. w_mallocs w n \<noteq> None) \<and> reqs_ok w qs ws os"

text \<open>The request at \<open>a\<close> carries the message: its tag, its connection, what the handlers
  will see of it.\<close>

definition carries :: "'x world \<Rightarrow> addr \<Rightarrow> bool \<Rightarrow> addr \<Rightarrow> u16 \<times> npmsg \<Rightarrow> bool" where
  "carries w c d a tm \<longleftrightarrow> (\<exists>r tc. rview w a = Some r \<and> rq_conn r = c \<and> rq_tag r = fst tm \<and>
     rq_tcall r = Some tc \<and> \<not> rq_responded r \<and> fc_tag tc = fst tm \<and>
     np_view d (fc_pkt tc) tc = Some (norm_msg d (snd tm)))"

lemma carries_cong: "rview w' a = rview w a \<Longrightarrow> carries w' c d a tm = carries w c d a tm"
  by (simp add: carries_def)

definition keeps_reqs :: "'x world \<Rightarrow> 'x world \<Rightarrow> addr list \<Rightarrow> bool" where
  "keeps_reqs w w' as \<longleftrightarrow> (\<forall>a\<in>set as. rview w' a = rview w a)"

lemma new_incall_ok:
  assumes "reader_ok w c M d qs ws os"
  shows "\<exists>fc w'. np_conn_new_incall c w = Some (Some fc, w') \<and> length (fc_pkt fc) = M \<and>
    reader_ok w' c M d qs ws os \<and> w_reqs w' = w_reqs w"
proof -
  obtain cn where cn: "w_conns w c = Some cn" "conn_up cn M d" and m: "\<forall>n. w_mallocs w n \<noteq> None" and r: "reqs_ok w qs ws os"
    using assms by (auto simp: reader_ok_def)
  show ?thesis
  proof (cases "cn_freerclist cn")
    case Nil
    obtain fc junk where j: "w_mallocs w (w_nmalloc w) = Some (fc, junk)" using m by fastforce
    let ?w = "w\<lparr>w_nmalloc := w_nmalloc w + 1\<rparr>"
    have "np_conn_new_incall c w = Some (Some (fc\<lparr>fc_pkt := map junk [0..<unat (cn_msize cn)]\<rparr>), ?w)"
      using cn(1) Nil j by (simp add: np_conn_new_incall_def world_malloc_def)
    moreover have "reqs_ok ?w qs ws os" using r by (auto simp: reqs_ok_def lists_at_def pool_ok_def less_Suc_eq)
    ultimately show ?thesis using cn m by (auto simp: reader_ok_def conn_up_def)
  next
    case (Cons fc fcs)
    let ?f = "\<lambda>cn. cn\<lparr>cn_freerclist := fcs, cn_freercnum := cn_freercnum cn - 1\<rparr>"
    let ?w = "w\<lparr>w_conns := (w_conns w)(c \<mapsto> ?f cn)\<rparr>"
    have "np_conn_new_incall c w = Some (Some fc, ?w)" using cn(1) Cons by (simp add: np_conn_new_incall_def)
    moreover have "reqs_ok ?w qs ws os" using r by (auto simp: reqs_ok_def lists_at_def pool_ok_def)
    ultimately show ?thesis using cn m Cons by (auto simp: reader_ok_def conn_up_def)
  qed
qed

lemma move_rest_ok:
  assumes "length (fc_pkt tc) = M" "length (fc_pkt f1) = M" "k + length r \<le> M" "take (k + length r) (fc_pkt tc) = x @ r" "length x = k"
  shows "\<exists>f. move_rest tc (Some f1) (int k) (int (k + length r)) = Some (Some f) \<and> length (fc_pkt f) = M \<and>
    take (length r) (fc_pkt f) = r"
proof (cases "r = []")
  case False
  have "take (length r) (drop k (fc_pkt tc)) = drop k (take (k + length r) (fc_pkt tc))" by (simp add: drop_take)
  then have "take (length r) (drop k (fc_pkt tc)) = r" using assms(4,5) by simp
  moreover have "nat (int (k + length r) - int k) = length r" "nat (int k) = k" by simp_all
  ultimately show ?thesis using False assms by (auto simp: move_rest_def)
qed (use assms in \<open>simp add: move_rest_def\<close>)

lemma req_strip_fields [simp]:
  "rq_conn (req_strip r) = rq_conn r" "rq_tag (req_strip r) = rq_tag r" "rq_tcall (req_strip r) = rq_tcall r"
  "rq_responded (req_strip r) = rq_responded r"
  by (simp_all add: req_strip_def)

text \<open>A new request is allocated and queued.\<close>

lemma queue_new:
  assumes "reader_ok w c M d qs ws os"
  shows "\<exists>a w1 cn w2. np_req_alloc c tc w = Some (a, w1) \<and> w_conns w1 c = Some cn \<and> \<not> cn_resetting cn \<and>
    np_srv_add_req a w1 = Some w2 \<and> reader_ok w2 c M d (qs @ [a]) ws os \<and>
    rview w2 a = Some (req_strip (new_req c tc)) \<and> keeps_reqs w w2 (qs @ ws @ os)"
proof -
  obtain cn where cn: "w_conns w c = Some cn" "conn_up cn M d" and m: "\<forall>n. w_mallocs w n \<noteq> None" and r: "reqs_ok w qs ws os"
    using assms by (auto simp: reader_ok_def)
  obtain a w1 where a: "np_req_alloc c tc w = Some (a, w1)" "reqs_ok w1 qs ws (a # os)"
      "w_reqs w1 a = Some (new_req c tc)" "\<forall>b\<in>set (qs @ ws @ os). w_reqs w1 b = w_reqs w b" "alloc_frame c w w1"
    using np_req_alloc_ok [OF r cn(1), of tc] m by blast
  obtain w2 where w2: "np_srv_add_req a w1 = Some w2" "reqs_ok w2 (qs @ [a]) ws os" "list_frame w1 w2"
    using np_srv_add_req_ok [OF a(2,3)] by (auto simp: new_req_def)
  let ?cn = "cn_refcount_update (\<lambda>n. n + 1) cn"
  have c1: "w_conns w1 c = Some ?cn" "w_mallocs w1 = w_mallocs w" using a(5) cn(1) by (auto simp: alloc_frame_def)
  have up: "conn_up ?cn M d" using cn(2) by (simp add: conn_up_def)
  have "reader_ok w2 c M d (qs @ [a]) ws os"
    using w2 c1 up m list_frame_rest [OF w2(3)] by (auto simp: reader_ok_def)
  moreover have "rview w2 a = Some (req_strip (new_req c tc))"
    using list_frame_rest(12) [OF w2(3)] a(3) by (simp add: rview_def hview_def)
  moreover have "keeps_reqs w w2 (qs @ ws @ os)"
    using list_frame_rest(12) [OF w2(3)] a(4) by (simp add: keeps_reqs_def rview_def hview_def)
  ultimately show ?thesis using a(1) w2(1) c1 up by (auto simp: conn_up_def)
qed

text \<open>One complete message at the start of the buffer becomes one queued request.\<close>

lemma np_conn_one_frame:
  assumes "reader_ok w c M d qs ws os" "length (fc_pkt fc) = M" "n \<le> M" "wf_msg m"
    and buf: "take n (fc_pkt fc) = wire nu d tag m @ r"
  shows "\<exists>a f w'. np_conn_one so c (Some fc) (int n) w =
      Some (if r = [] then Continue (Some f) 0 else Again (Some f) (int (length r)), w') \<and>
    reader_ok w' c M d (qs @ [a]) ws os \<and> length (fc_pkt f) = M \<and> take (length r) (fc_pkt f) = r \<and>
    carries w' c d a (tag, m) \<and> keeps_reqs w w' (qs @ ws @ os)"
proof -
  let ?x = "wire nu d tag m"
  have n: "n = length ?x + length r" using arg_cong [OF buf, of length] assms(2,3) by simp
  have pkt: "fc_pkt fc = ?x @ r @ drop n (fc_pkt fc)" using append_take_drop_id [of n "fc_pkt fc"] buf by simp
  have sz: "pkt_size (fc_pkt fc) = int (length ?x)" using pkt_size_wire [OF assms(4), of nu d tag] pkt by metis
  obtain cn where cn: "w_conns w c = Some cn" "conn_up cn M d" using assms(1) by (auto simp: reader_ok_def)
  obtain tc where tc: "np_deserialize fc (fc_pkt fc) d = (Some tc, False)" "np_view d (fc_pkt fc) tc = Some (norm_msg d m)"
      "fc_tag tc = tag"
    using parse_all [OF assms(4), of nu d tag "r @ drop n (fc_pkt fc)" fc] pkt by (auto simp: parses_def head_fields_def)
  have tp: "fc_pkt tc = fc_pkt fc"
    using deserialize_kept [of fc "fc_pkt fc" d tc] tc(1) by (simp add: kept_fields_def)
  obtain f1 w1 where f1: "np_conn_new_incall c w = Some (Some f1, w1)" "length (fc_pkt f1) = M" "reader_ok w1 c M d qs ws os"
      "w_reqs w1 = w_reqs w"
    using new_incall_ok [OF assms(1)] by blast
  obtain f where f: "move_rest tc (Some f1) (int (length ?x)) (int n) = Some (Some f)" "length (fc_pkt f) = M"
      "take (length r) (fc_pkt f) = r"
    using move_rest_ok [of tc M f1 "length ?x" r ?x] tp assms(2,3) f1(2) n buf by auto
  obtain a w2 cn2 w3 where a: "np_req_alloc c tc w1 = Some (a, w2)" "w_conns w2 c = Some cn2" "\<not> cn_resetting cn2"
      "np_srv_add_req a w2 = Some w3" "reader_ok w3 c M d (qs @ [a]) ws os"
      "rview w3 a = Some (req_strip (new_req c tc))" "keeps_reqs w1 w3 (qs @ ws @ os)"
    using queue_new [OF f1(3), of tc] by blast
  have "carries w3 c d a (tag, m)" using a(6) tc tp by (simp add: carries_def new_req_def)
  moreover have "keeps_reqs w w3 (qs @ ws @ os)"
    using a(7) f1(4) by (simp add: keeps_reqs_def rview_def)
  moreover have "7 \<le> length ?x" by (rule wire_length)
  then have "np_conn_one so c (Some fc) (int n) w =
      Some (if r = [] then Continue (Some f) 0 else Again (Some f) (int (length r)), w3)"
    using n sz cn tc f1(1) f(1) a(1-4) assms(2,3) by (simp add: np_conn_one_def Let_def conn_up_def)
  ultimately show ?thesis using a(5) f(2,3) by blast
qed


lemma keeps_reqs_trans:
  "keeps_reqs w w1 as \<Longrightarrow> keeps_reqs w1 w2 bs \<Longrightarrow> set as \<subseteq> set bs \<Longrightarrow> keeps_reqs w w2 as"
  by (auto simp: keeps_reqs_def)

lemma keeps_reqs_carries:
  "keeps_reqs w w' bs \<Longrightarrow> set as \<subseteq> set bs \<Longrightarrow> list_all2 (carries w c d) as ms \<Longrightarrow> list_all2 (carries w' c d) as ms"
  by (erule list.rel_mono_strong) (fastforce simp: keeps_reqs_def carries_def)

text \<open>All complete messages in the buffer are queued, in order; the rest moves to its start.\<close>

definition queued ::
  "'x world \<Rightarrow> 'x world \<Rightarrow> addr \<Rightarrow> nat \<Rightarrow> bool \<Rightarrow> addr list \<Rightarrow> addr list \<Rightarrow> addr list \<Rightarrow>
     (u16 \<times> npmsg) list \<Rightarrow> addr list \<Rightarrow> bool"
where
  "queued w w' c M d qs ws os ms as \<longleftrightarrow> reader_ok w' c M d (qs @ as) ws os \<and>
     list_all2 (carries w' c d) as ms \<and> keeps_reqs w w' (qs @ ws @ os)"

lemma queued_refl: "reader_ok w c M d qs ws os \<Longrightarrow> queued w w c M d qs ws os [] []"
  by (simp add: queued_def keeps_reqs_def)

lemma queued_trans:
  assumes "queued w w1 c M d qs ws os ms as" "queued w1 w2 c M d (qs @ as) ws os ms' bs"
  shows "queued w w2 c M d qs ws os (ms @ ms') (as @ bs)"
  using assms keeps_reqs_carries [of w1 w2 "(qs @ as) @ ws @ os" as c d ms]
    keeps_reqs_trans [of w w1 "qs @ ws @ os" w2 "(qs @ as) @ ws @ os"]
  by (auto simp: queued_def intro!: list_all2_appendI)

lemma np_conn_again_frames:
  assumes "wf_msgs ms" "incomplete p"
  shows "reader_ok w c M d qs ws os \<Longrightarrow> length (fc_pkt fc) = M \<Longrightarrow> n \<le> M \<Longrightarrow>
    take n (fc_pkt fc) = stream nu d ms @ p \<Longrightarrow>
    \<exists>f w' as. np_conn_again so c (Some fc) (int n) w = Some (Continue (Some f) (int (length p)), w') \<and>
      length (fc_pkt f) = M \<and> take (length p) (fc_pkt f) = p \<and> queued w w' c M d qs ws os ms as"
  using assms(1)
proof (induction ms arbitrary: w fc n qs)
  case Nil
  have n: "n = length p" using Nil.prems(2-4) by (metis append_Nil length_take min.absorb2 stream_simps(1))
  have "np_conn_one so c (Some fc) (int n) w = Some (Continue (Some fc) (int n), w)"
  proof (cases "n < 4")
    case False
    have "p @ drop n (fc_pkt fc) = fc_pkt fc"
      using append_take_drop_id [of n "fc_pkt fc"] Nil.prems(4) by simp
    then have "pkt_size (fc_pkt fc) = pkt_size p" using pkt_size_prefix [of p "drop n (fc_pkt fc)"] False n by simp
    then show ?thesis using False assms(2) n Nil.prems(2,3) by (simp add: np_conn_one_def incomplete_def Let_def)
  qed (simp add: np_conn_one_def)
  then have "np_conn_again so c (Some fc) (int n) w = Some (Continue (Some fc) (int n), w)"
    by (simp add: np_conn_again.simps)
  then show ?case using Nil.prems n queued_refl by fastforce
next
  case (Cons a ms)
  obtain tag m where a: "a = (tag, m)" by (cases a)
  have wf: "wf_msg m" "wf_msgs ms" using Cons.prems(5) a by auto
  let ?r = "stream nu d ms @ p"
  obtain q f w1 where one: "np_conn_one so c (Some fc) (int n) w =
        Some (if ?r = [] then Continue (Some f) 0 else Again (Some f) (int (length ?r)), w1)"
      "reader_ok w1 c M d (qs @ [q]) ws os" "length (fc_pkt f) = M" "take (length ?r) (fc_pkt f) = ?r"
      "carries w1 c d q (tag, m)" "keeps_reqs w w1 (qs @ ws @ os)"
    using np_conn_one_frame [OF Cons.prems(1-3) wf(1), where nu = nu and tag = tag and r = ?r and so = so] Cons.prems(4) a by auto
  have q1: "queued w w1 c M d qs ws os [a] [q]" using one(2,5,6) a by (simp add: queued_def)
  show ?case
  proof (cases "?r = []")
    case True
    then have "np_conn_again so c (Some fc) (int n) w = Some (Continue (Some f) 0, w1)"
      using one(1) by (simp add: np_conn_again.simps [of so c "Some fc"])
    moreover have "p = []" "stream nu d ms = []" using True by auto
    moreover from this have "ms = []" using wire_length [of nu d "fst (hd ms)" "snd (hd ms)"] by (cases ms) auto
    ultimately show ?thesis using q1 one(3) by auto
  next
    case False
    have "length ?r \<le> M" using one(3,4) by (metis length_take min.cobounded2 min.commute)
    then obtain f' w' as where IH: "np_conn_again so c (Some f) (int (length ?r)) w1 =
          Some (Continue (Some f') (int (length p)), w')"
        "length (fc_pkt f') = M" "take (length p) (fc_pkt f') = p" "queued w1 w' c M d (qs @ [q]) ws os ms as"
      using Cons.IH [OF one(2,3) _ one(4) wf(2)] by blast
    have "np_conn_again so c (Some fc) (int n) w = Some (Continue (Some f') (int (length p)), w')"
      using one(1) IH(1) False unfolding np_conn_again.simps [of so c "Some fc"] by (subst (asm) if_not_P) simp_all
    then show ?thesis using IH(2,3) queued_trans [OF q1 IH(4)] by auto
  qed
qed

section \<open>Framing\<close>

text \<open>The reads of the transport: each returns something and no more than there is room for
  behind the incomplete message that is kept.\<close>

fun fits :: "nat \<Rightarrow> u8 list \<Rightarrow> u8 list list \<Rightarrow> bool" where
  "fits M p [] \<longleftrightarrow> True"
| "fits M p (b # bs) \<longleftrightarrow> b \<noteq> [] \<and> length p + length b \<le> M \<and> fits M (leftover (p @ b)) bs"

lemma read_chunk_frames:
  assumes "reader_ok w c M d qs ws os" "length (fc_pkt fc) = M" "take (length p) (fc_pkt fc) = p"
    and "length p + length b \<le> M" "p @ b = stream nu d ms @ q" "wf_msgs ms" "incomplete q"
  shows "\<exists>f w' as. np_conn_read_chunk so c (Some fc) (int (length p)) b w =
      Some (Continue (Some f) (int (length q)), w') \<and>
    length (fc_pkt f) = M \<and> take (length q) (fc_pkt f) = q \<and> queued w w' c M d qs ws os ms as"
proof -
  obtain cn where cn: "w_conns w c = Some cn" "conn_up cn M d" using assms(1) by (auto simp: reader_ok_def)
  let ?fc = "fc\<lparr>fc_pkt := p @ b @ drop (length p + length b) (fc_pkt fc)\<rparr>"
  have "take (length p + length b) (fc_pkt ?fc) = stream nu d ms @ q" using assms(5) by simp
  then obtain f w' as where f: "np_conn_again so c (Some ?fc) (int (length p + length b)) w =
      Some (Continue (Some f) (int (length q)), w')"
      "length (fc_pkt f) = M" "take (length q) (fc_pkt f) = q" "queued w w' c M d qs ws os ms as"
    using np_conn_again_frames [OF assms(6,7,1), of ?fc "length p + length b" nu so] assms(2,4) by auto
  have "np_conn_read_chunk so c (Some fc) (int (length p)) b w =
      np_conn_again so c (Some ?fc) (int (length p + length b)) w"
    using cn assms(2,3,4) by (simp add: np_conn_read_chunk_def conn_up_def)
  then show ?thesis using f by auto
qed

lemma read_loop_frames:
  assumes "sint msize = int M" "incomplete q"
  shows "reader_ok w c M d qs ws os \<Longrightarrow> length (fc_pkt fc) = M \<Longrightarrow> take (length p) (fc_pkt fc) = p \<Longrightarrow>
    fits M p chunks \<Longrightarrow> incomplete p \<Longrightarrow> wf_msgs ms \<Longrightarrow> p @ concat chunks = stream nu d ms @ q \<Longrightarrow>
    \<exists>f w' as. np_conn_read_loop so c msize (Some fc) (int (length p)) chunks w =
        Some ((Some f, int (length q)), w') \<and>
      length (fc_pkt f) = M \<and> take (length q) (fc_pkt f) = q \<and> queued w w' c M d qs ws os ms as"
proof (induction chunks arbitrary: w qs fc p ms)
  case Nil
  have "ms = []" "p = q"
  proof -
    show "ms = []"
    proof (rule ccontr)
      assume "ms \<noteq> []"
      then obtain tag m ms' where "ms = (tag, m) # ms'" by (cases ms) auto
      then show False using Nil.prems(5-7) not_incomplete_wire [of m nu d tag "stream nu d ms' @ q"] by simp
    qed
    then show "p = q" using Nil.prems(7) by simp
  qed
  then show ?case using Nil.prems(1-3) queued_refl by fastforce
next
  case (Cons b chunks)
  obtain ms1 ms2 p' where s: "ms = ms1 @ ms2" "p @ b = stream nu d ms1 @ p'" "p' @ concat chunks = stream nu d ms2 @ q"
      "incomplete p'"
    using stream_split [OF Cons.prems(6) assms(2), of "p @ b" "concat chunks" nu d] Cons.prems(7) by auto
  have wf: "wf_msgs ms1" "wf_msgs ms2" using Cons.prems(6) s(1) by auto
  have fit: "b \<noteq> []" "length p + length b \<le> M" "fits M p' chunks"
    using Cons.prems(4) leftover_stream [OF wf(1) s(4)] s(2) by auto
  obtain f w1 as where c1: "np_conn_read_chunk so c (Some fc) (int (length p)) b w =
        Some (Continue (Some f) (int (length p')), w1)"
      "length (fc_pkt f) = M" "take (length p') (fc_pkt f) = p'" "queued w w1 c M d qs ws os ms1 as"
    using read_chunk_frames [OF Cons.prems(1-3) fit(2) s(2) wf(1) s(4)] by blast
  have r1: "reader_ok w1 c M d (qs @ as) ws os" using c1(4) by (simp add: queued_def)
  obtain f' w' bs where IH: "np_conn_read_loop so c msize (Some f) (int (length p')) chunks w1 =
        Some ((Some f', int (length q)), w')"
      "length (fc_pkt f') = M" "take (length q) (fc_pkt f') = q" "queued w1 w' c M d (qs @ as) ws os ms2 bs"
    using Cons.IH [OF r1 c1(2,3) fit(3) s(4) wf(2) s(3)] by blast
  obtain cn where cn: "w_conns w c = Some cn" "conn_up cn M d" using Cons.prems(1) by (auto simp: reader_ok_def)
  have "np_conn_read_loop so c msize (Some fc) (int (length p)) (b # chunks) w = Some ((Some f', int (length q)), w')"
    using cn fit(1,2) c1(1) IH(1) assms(1) by (auto simp: conn_up_def)
  then show ?case using IH(2,3) queued_trans [OF c1(4) IH(4)] s(1) by auto
qed

section \<open>Properties of the reader\<close>

text \<open>
  C3. Framing: when the reads of the transport deliver, cut anywhere, the packets of the
  messages \<open>ms\<close> and the start \<open>q\<close> of another packet, the read loop queues one request per
  message behind the ones already waiting, in the order of the stream, each with the message's
  tag and with the message as the handlers will read it; it touches no other request, faults
  nowhere, and keeps exactly \<open>q\<close> at the start of its buffer. (A read returns at least one
  byte and no more than the room left in the buffer: \<open>fits\<close>.)
\<close>

theorem np_conn_read_loop_frames:
  assumes "reader_ok w c M d qs ws os" and "sint msize = int M" and "length (fc_pkt fc) = M"
    and "fits M [] chunks" and "wf_msgs ms" and "incomplete q" and "concat chunks = stream nu d ms @ q"
  shows "\<exists>f w' as. np_conn_read_loop so c msize (Some fc) 0 chunks w = Some ((Some f, int (length q)), w') \<and>
    lists_at w' (qs @ as) ws \<and> list_all2 (carries w' c d) as ms \<and> take (length q) (fc_pkt f) = q \<and>
    (\<forall>a\<in>set (qs @ ws @ os). rview w' a = rview w a)"
proof -
  have "incomplete []" by (simp add: incomplete_def)
  then obtain f w' as where f: "np_conn_read_loop so c msize (Some fc) (int (length ([] :: u8 list))) chunks w =
      Some ((Some f, int (length q)), w')" "take (length q) (fc_pkt f) = q" "queued w w' c M d qs ws os ms as"
    using read_loop_frames [OF assms(2,6,1,3) _ assms(4) _ assms(5), of nu so] assms(7) by auto
  then show ?thesis by (auto simp: queued_def reader_ok_def keeps_reqs_def intro: reqs_ok_lists)
qed

lemma sample_reader: "reader_ok (sample_world x) 0 256 True [] [] []"
  by (auto simp: reader_ok_def sample_world_def sample_conn_def conn_up_def empty_world_def reqs_ok_def
      lists_at_def pool_ok_def lastp_def intro!: exI [of _ "[]"])

text \<open>Two Tclunk messages cut in the middle of the first, and three bytes of a third.\<close>

lemma np_conn_read_loop_frames_witness:
  "\<exists>f w' as. np_conn_read_loop sample_ops 0 256 (Some (npfcall_zero\<lparr>fc_pkt := replicate 256 0\<rparr>)) 0
      [[11, 0, 0, 0, 120], [1, 0, 9, 0, 0, 0, 11, 0, 0, 0, 120, 2, 0, 8, 0, 0, 0, 23, 0, 0]] (sample_world ()) =
      Some ((Some f, 3), w') \<and>
    lists_at w' as [] \<and> list_all2 (carries w' 0 True) as [(1, MTclunk 9), (2, MTclunk 8)] \<and>
    take 3 (fc_pkt f) = [23, 0, 0]"
proof -
  let ?b1 = "[11, 0, 0, 0, 120] :: u8 list"
  let ?b2 = "[1, 0, 9, 0, 0, 0, 11, 0, 0, 0, 120, 2, 0, 8, 0, 0, 0, 23, 0, 0] :: u8 list"
  let ?ms = "[(1, MTclunk 9), (2, MTclunk 8)]"
  have inc: "leftover ?b1 = ?b1" "incomplete [23, 0, 0]"
    by (simp_all add: leftover.simps [of ?b1] incomplete_def pkt_size_def of_le32_def)
  have str: "concat [?b1, ?b2] = stream 0 True ?ms @ [23, 0, 0]" by code_simp
  have "fits 256 [] [?b1, ?b2]" "wf_msgs ?ms" "sint (256 :: u32) = int 256" using inc(1) by simp_all
  from np_conn_read_loop_frames [OF sample_reader this(3) _ this(1,2) inc(2) str,
      of "npfcall_zero\<lparr>fc_pkt := replicate 256 0\<rparr>" sample_ops "()"]
  show ?thesis by (simp del: np_conn_read_loop.simps add: numeral_3_eq_3 [symmetric])
qed



end
