(* ===== verification/FidProps.thy ===== *)
theory FidProps
  imports FidPool
begin

text \<open>
  Properties of the fid table: each operation of \<^verbatim>\<open>fidpool.c\<close> implements an
  operation on the abstract table \<open>fview\<close> (which fid record is stored where), whatever
  the move-to-front lookup does to the chains. \<open>fids_ok\<close> is the representation
  invariant: every chain is a doubly linked list without repetition that holds exactly the
  fids of its connection with its hash value.
\<close>

section \<open>Sample states\<close>

lemma sample_fids_ok: "fids_ok (sample_world x)"
proof -
  have "pool_at (w_fids (sample_world x)) 0 \<lparr>fp_size = FID_HTABLE_SIZE, fp_htable = replicate FID_HTABLE_SIZE None\<rparr>
      (replicate 64 [])"
    by (simp add: pool_at_def bucket_at_def FID_HTABLE_SIZE_def sample_world_def empty_world_def fid_at_def)
  then show ?thesis
    by (auto simp: fids_ok_def sample_world_def sample_conn_def empty_world_def split: if_splits)
qed

lemma sample_conn_open: "conn_open (sample_world x) 0"
  by (simp add: conn_open_def sample_world_def sample_conn_def)

text \<open>The same connection with one fid, number 5, held once, at the address 1.\<close>

definition sample_fid :: Npfid where
  "sample_fid = (new_fid 0 5)\<lparr>fid_refcount := 1\<rparr>"

definition sample_fid_world :: "'x \<Rightarrow> 'x world" where
  "sample_fid_world x = (sample_world x)\<lparr>w_fids := [1 \<mapsto> sample_fid], w_nmalloc := 2,
     w_conns := [0 \<mapsto> sample_conn\<lparr>cn_fidpool := Some \<lparr>fp_size = FID_HTABLE_SIZE,
       fp_htable = (replicate FID_HTABLE_SIZE None)[5 := Some 1]\<rparr>\<rparr>]\<rparr>"

lemma sample_fid_simps [simp]:
  "fid_conn sample_fid = 0" "fid_fid sample_fid = 5" "fid_refcount sample_fid = 1" "fid_user sample_fid = None"
  "fid_next sample_fid = None" "fid_prev sample_fid = None" "fid_strip sample_fid = sample_fid"
  "fid_type sample_fid = 0" "fid_omode sample_fid = - 1"
  by (simp_all add: sample_fid_def new_fid_def fid_strip_def)

lemma sample_fid_fids_ok: "fids_ok (sample_fid_world x)"
proof -
  let ?fp = "\<lparr>fp_size = FID_HTABLE_SIZE, fp_htable = (replicate FID_HTABLE_SIZE None)[5 := Some 1]\<rparr> :: Npfidpool"
  have h: "w_fids (sample_fid_world x) = [1 \<mapsto> sample_fid]" by (simp add: sample_fid_world_def)
  have at: "fid_at [Suc 0 \<mapsto> sample_fid] 0 k a \<longleftrightarrow> a = Suc 0 \<and> k = 5" for k a
    by (auto simp: fid_at_def)
  have "pool_at (w_fids (sample_fid_world x)) 0 ?fp ((replicate 64 [])[5 := [1]])"
    unfolding pool_at_def h
    by (auto simp: bucket_at_def FID_HTABLE_SIZE_def nth_list_update at fid_hash_def)
  then show ?thesis
    by (auto simp: fids_ok_def sample_fid_world_def sample_conn_def conn_open_def split: if_splits)
qed

lemma sample_fid_view: "fview (sample_fid_world x) = [1 \<mapsto> sample_fid]"
  by (auto simp: fview_def hview_def sample_fid_world_def fun_eq_iff)

lemma sample_fid_conn_open: "conn_open (sample_fid_world x) 0"
  by (simp add: conn_open_def sample_fid_world_def)

section \<open>Lookup, creation, release\<close>

text \<open>
  C14. \<^verbatim>\<open>np_fid_find\<close> refines the abstract lookup: it returns the one fid of the
  connection with this number if there is one and NULL if there is none, keeps the table well
  formed, and what it moves inside a chain changes nothing but links.
\<close>

theorem np_fid_find_refines:
  assumes "fids_ok w" and "conn_open w c"
  shows "\<exists>r w'. np_fid_find c fid w = Some (r, w') \<and> (\<forall>a. r = Some a \<longleftrightarrow> fid_at (fview w) c fid a) \<and>
    fids_ok w' \<and> fview w' = fview w \<and> fid_same w w'"
proof -
  obtain r w' where r: "np_fid_find c fid w = Some (r, w')" "fids_ok w'" "fview w' = fview w" "fid_same w w'"
    "case r of None \<Rightarrow> \<forall>a. \<not> fid_at (fview w) c fid a | Some a \<Rightarrow> fid_at (fview w) c fid a"
    using np_fid_find_ok [OF assms] by blast
  then show ?thesis using fids_ok_unique [OF assms(1)] by (auto split: option.splits)
qed

lemma np_fid_find_refines_witness:
  "\<exists>w'. np_fid_find 0 5 (sample_fid_world ()) = Some (Some 1, w') \<and> fview w' = [1 \<mapsto> sample_fid]"
  using np_fid_find_refines [OF sample_fid_fids_ok sample_fid_conn_open, of 5 "()"]
  by (auto simp: sample_fid_view fid_at_def)

text \<open>
  C5. \<^verbatim>\<open>np_fid_create\<close> refines the abstract insertion: a number in use gives the
  fid already there, unchanged; a free one gives a new record (reference count 0, not open, no
  user) and changes no other; the only failure is that of the allocation, and it changes no
  fid.
\<close>

theorem np_fid_create_refines:
  assumes "fids_ok w" and "conn_open w c"
  shows "\<exists>r w'. np_fid_create c fid w = Some (r, w') \<and> fids_ok w' \<and> fid_frame w w' \<and>
    (\<forall>a. fid_at (fview w) c fid a \<longrightarrow> r = Some a \<and> fview w' = fview w) \<and>
    ((\<forall>a. \<not> fid_at (fview w) c fid a) \<longrightarrow>
       (case r of
          None \<Rightarrow> fview w' = fview w \<and> w_mallocs w (w_nmalloc w) = None
        | Some a \<Rightarrow> fview w a = None \<and> fview w' = (fview w)(a \<mapsto> new_fid c fid)))"
proof -
  obtain r w' where r: "np_fid_create c fid w = Some (r, w')" "fids_ok w'" "fid_frame w w'"
      "case r of
         None \<Rightarrow> fview w' = fview w \<and> (\<forall>a. \<not> fid_at (fview w) c fid a) \<and> w_mallocs w (w_nmalloc w) = None
       | Some a \<Rightarrow> (fid_at (fview w) c fid a \<and> fview w' = fview w) \<or>
           ((\<forall>b. \<not> fid_at (fview w) c fid b) \<and> fview w a = None \<and> fview w' = (fview w)(a \<mapsto> new_fid c fid))"
    using np_fid_create_ok [OF assms] by blast
  show ?thesis
  proof (cases r)
    case None
    then show ?thesis using r by (intro exI [of _ r] exI [of _ w']) simp
  next
    case (Some b)
    then show ?thesis
    proof (cases "fid_at (fview w) c fid b")
      case True
      have "a = b" if "fid_at (fview w) c fid a" for a by (rule fids_ok_unique [OF assms(1) that True])
      moreover have "fview w' = fview w" using r(4) Some True by auto
      moreover have "\<not> (\<forall>a. \<not> fid_at (fview w) c fid a)" using True by blast
      ultimately show ?thesis using r(1-3) Some by blast
    next
      case False
      then have "\<forall>a. \<not> fid_at (fview w) c fid a" "fview w b = None" "fview w' = (fview w)(b \<mapsto> new_fid c fid)"
        using r(4) Some by simp_all
      then show ?thesis using r(1-3) Some by (intro exI [of _ r] exI [of _ w']) simp
    qed
  qed
qed

lemma np_fid_create_refines_witness:
  "\<exists>a w'. np_fid_create 0 5 (sample_world ()) = Some (Some a, w') \<and> fview w' a = Some (new_fid 0 5)"
proof -
  have e: "fview (sample_world ()) = (\<lambda>_. None)" "w_mallocs (sample_world ()) n \<noteq> None" for n
    by (simp_all add: fview_def hview_def sample_world_def empty_world_def fun_eq_iff)
  then have free: "\<forall>a. \<not> fid_at (fview (sample_world ())) 0 5 a" by (simp add: fid_at_def)
  from np_fid_create_refines [OF sample_fids_ok sample_conn_open, of 5 "()"] obtain r w' where
    r: "np_fid_create 0 5 (sample_world ()) = Some (r, w')"
      "case r of None \<Rightarrow> fview w' = fview (sample_world ()) \<and> w_mallocs (sample_world ()) (w_nmalloc (sample_world ())) = None
       | Some a \<Rightarrow> fview (sample_world ()) a = None \<and> fview w' = (fview (sample_world ()))(a \<mapsto> new_fid 0 5)"
    using free by blast
  then obtain a where "r = Some a" using e(2) by (cases r) auto
  then show ?thesis using r by auto
qed

text \<open>
  C34. \<^verbatim>\<open>np_fid_decref\<close> takes one reference away; exactly the last one removes the
  fid from its table and frees it, and no other fid changes either way. (A count that was not
  positive before never reaches 0 and the fid stays for ever.)
\<close>

theorem np_fid_decref_refines:
  assumes "fids_ok w" and "fview w a = Some f" and "user_alive w f"
  shows "\<exists>w'. np_fid_decref so (Some a) w = Some w' \<and> fids_ok w' \<and> fid_frame w w' \<and>
    fview w' = (fview w)(a := if fid_refcount f = 1 then None else Some (fid_refcount_update (\<lambda>n. n - 1) f))"
  using assms by (rule np_fid_decref_ok)

lemma np_fid_decref_refines_witness:
  "\<exists>w'. np_fid_decref sample_ops (Some 1) (sample_fid_world ()) = Some w' \<and> fids_ok w' \<and> fview w' 1 = None"
  using np_fid_decref_refines [OF sample_fid_fids_ok, of "()" 1 sample_fid sample_ops]
  by (auto simp: sample_fid_view user_alive_def)

lemma free_chain_users: "free_chain so p w = Some w' \<Longrightarrow> w_users w' = w_users w"
proof (rule free_chain.raw_induct [where P = "\<lambda>so p w w'. w_users w' = w_users w", rotated])
  have "w_users (fid_release so a f w) = w_users w" for so :: "'x srvops" and a f w
    by (rule same_coreD(4) [OF fid_release_core])
  then show "w_users w' = w_users w"
    if "\<And>so p w w'. fc so p w = Some w' \<Longrightarrow> w_users w' = w_users w"
      and "(case p of None \<Rightarrow> Some w
        | Some a \<Rightarrow> do {
            f \<leftarrow> w_fids w a;
            _ \<leftarrow> w_conns w (fid_conn f);
            let w = fid_release so a f w;
            fc so (fid_next f) (w\<lparr>w_fids := (w_fids w)(a := None)\<rparr>)
          }) = Some w'" for fc and so :: "'x srvops" and p w w'
    using that by (fastforce simp: Let_def split: option.splits Option.bind_splits)
qed

lemma free_chains_users: "free_chains so ps w = Some w' \<Longrightarrow> w_users w' = w_users w"
  by (induction ps arbitrary: w) (auto split: Option.bind_splits dest!: free_chain_users)

text \<open>
  \<^verbatim>\<open>np_fidpool_destroy\<close> frees exactly the fids of the connection, whatever
  their reference counts, and reads no fid after it is freed; the references the fids hold on
  their users are not given back.
\<close>

theorem np_fidpool_destroy_frees_all:
  assumes "fids_ok w" and "w_conns w c = Some cn" and "cn_fidpool cn = Some fp"
  shows "\<exists>w'. np_fidpool_destroy so fp w = Some w' \<and>
    fview w' = (\<lambda>a. if \<exists>k. fid_at (fview w) c k a then None else fview w a) \<and> w_users w' = w_users w"
  using np_fidpool_destroy_ok [OF assms, of so]
  by (auto simp: np_fidpool_destroy_def split: if_splits dest: free_chains_users)

lemma np_fidpool_destroy_frees_all_witness:
  "\<exists>w'. np_fidpool_destroy sample_ops (the (cn_fidpool (the (w_conns (sample_fid_world ()) 0)))) (sample_fid_world ()) = Some w' \<and>
    fview w' 1 = None"
proof -
  let ?w = "sample_fid_world ()"
  let ?cn = "sample_conn\<lparr>cn_fidpool := Some \<lparr>fp_size = FID_HTABLE_SIZE, fp_htable = (replicate FID_HTABLE_SIZE None)[5 := Some 1]\<rparr>\<rparr>"
  have cn: "w_conns ?w 0 = Some ?cn" by (simp add: sample_fid_world_def)
  have "fid_at (fview ?w) 0 5 1" by (simp add: sample_fid_view fid_at_def)
  then have "\<exists>k. fid_at (fview ?w) 0 k 1" ..
  then show ?thesis using np_fidpool_destroy_frees_all [OF sample_fid_fids_ok cn, of _ sample_ops] cn by auto
qed

end
