(* ===== verification/Replies.thy ===== *)
theory Replies
  imports ReadLoop FidProps Srv
begin

text \<open>
  Answering requests: what \<^verbatim>\<open>np_conn_respond\<close>, \<^verbatim>\<open>np_req_unref\<close> and
  \<^verbatim>\<open>np_respond\<close> do to the lists, the request pool, the connection's references, the
  fids and the transport, with the flush requests that wait for a request.
\<close>

section \<open>Sending a reply\<close>

text \<open>A reply that was created whole, and its packet with a tag.\<close>

definition whole :: "Npfcall \<Rightarrow> bool" where
  "whole rc \<longleftrightarrow> unat (fc_size rc) = length (fc_pkt rc) \<and> 7 \<le> length (fc_pkt rc)"

definition tagged :: "u16 \<Rightarrow> u8 list \<Rightarrow> u8 list" where
  "tagged tag pkt = pkt[5 := ucast tag, 6 := ucast (drop_bit 8 tag)]"

lemma tagged_length [simp]: "length (tagged tag pkt) = length pkt"
  by (simp add: tagged_def)

lemma tagged_wire: "tagged tag (wire nu d NOTAG m) = wire nu d tag m"
  by (simp add: tagged_def wire_def hdr_def le32_def le8_def le16_def)

lemma set_tag_whole:
  "whole rc \<Longrightarrow> np_set_tag rc tag = Inr (rc\<lparr>fc_tag := tag, fc_pkt := tagged tag (fc_pkt rc)\<rparr>)"
  by (simp add: whole_def np_set_tag_def tagged_def)

lemma whole_tagged: "whole rc \<Longrightarrow> whole (rc\<lparr>fc_tag := tag, fc_pkt := tagged tag (fc_pkt rc)\<rparr>)"
  by (simp add: whole_def)

lemma emits_whole:
  assumes "wf_msg m" "emits nu d m (Some rc)"
  shows "whole rc" "fc_pkt rc = wire nu d NOTAG m"
  using assms(2) unat_wire_length [OF assms(1), of nu d NOTAG] wire_length [of nu d NOTAG m]
  by (auto simp: emits_def whole_def head_fields_def)

text \<open>The transports accept what is written to them.\<close>

definition accepts :: "'x srvops \<Rightarrow> bool" where
  "accepts so \<longleftrightarrow> (\<forall>t bytes x. fst (so_trans_write so t bytes x) > 0)"

text \<open>A connection that sends on the transport \<open>t\<close>.\<close>

definition sends :: "Npconn \<Rightarrow> nat \<Rightarrow> bool" where
  "sends cn t \<longleftrightarrow> cn_trans cn = Some t \<and> \<not> cn_resetting cn"

lemma np_conn_send_ok:
  assumes "w_conns w c = Some cn" "sends cn t" "whole rc" "accepts so"
  shows "\<exists>x. np_conn_send so c rc w = Some (None, w\<lparr>w_user := x, w_out := w_out w @ [(t, fc_pkt rc)]\<rparr>)"
proof -
  obtain n x where nx: "so_trans_write so t (fc_pkt rc) (w_user w) = (n, x)" by fastforce
  moreover have "fst (so_trans_write so t (fc_pkt rc) (w_user w)) > 0" using assms(4) by (simp add: accepts_def)
  ultimately have "n > 0" by simp
  then show ?thesis using assms(1-3) nx by (auto simp: np_conn_send_def sends_def whole_def Let_def)
qed

lemma np_conn_free_incall_conn:
  assumes "w_conns w c = Some cn"
  shows "\<exists>fs. np_conn_free_incall c tc w = Some (w\<lparr>w_conns := (w_conns w)(c \<mapsto> cn\<lparr>cn_freerclist := fs\<rparr>)\<rparr>)"
proof -
  have id: "w\<lparr>w_conns := (w_conns w)(c \<mapsto> cn\<lparr>cn_freerclist := cn_freerclist cn\<rparr>)\<rparr> = w"
    using assms by (simp add: fun_upd_idem)
  show ?thesis
  proof (cases "\<exists>fc. tc = Some fc \<and> cn_freercnum cn < 64")
    case True
    then show ?thesis using assms by (auto simp: np_conn_free_incall_def)
  next
    case False
    then have "np_conn_free_incall c tc w = Some w"
      using assms by (cases tc) (auto simp: np_conn_free_incall_def)
    then show ?thesis using id by (intro exI [of _ "cn_freerclist cn"]) (simp only:)
  qed
qed

definition released :: "Npreq \<Rightarrow> Npreq" where
  "released r = r\<lparr>rq_tcall := None, rq_rcall := None\<rparr>"

lemma np_conn_respond_ok:
  assumes "w_reqs w a = Some r" "rq_rcall r = Some rc" "w_conns w (rq_conn r) = Some cn" "sends cn t" "whole rc" "accepts so"
  shows "\<exists>x fs. np_conn_respond so a w = Some (w\<lparr>w_user := x, w_out := w_out w @ [(t, fc_pkt rc)],
    w_conns := (w_conns w)(rq_conn r \<mapsto> cn\<lparr>cn_freerclist := fs\<rparr>), w_reqs := (w_reqs w)(a \<mapsto> released r)\<rparr>)"
proof -
  obtain x where x: "np_conn_send so (rq_conn r) rc w =
      Some (None, w\<lparr>w_user := x, w_out := w_out w @ [(t, fc_pkt rc)]\<rparr>)"
    using np_conn_send_ok [OF assms(3,4,5,6)] by blast
  let ?w = "w\<lparr>w_user := x, w_out := w_out w @ [(t, fc_pkt rc)]\<rparr>"
  obtain fs where "np_conn_free_incall (rq_conn r) (rq_tcall r) ?w =
      Some (?w\<lparr>w_conns := (w_conns ?w)(rq_conn r \<mapsto> cn\<lparr>cn_freerclist := fs\<rparr>)\<rparr>)"
    using np_conn_free_incall_conn [of ?w "rq_conn r" cn "rq_tcall r"] assms(3) by auto
  then show ?thesis using assms(1,2) x
    by (intro exI [of _ x] exI [of _ fs]) (simp add: np_conn_respond_def Let_def np_trans_destroy_def released_def)
qed

section \<open>Letting a request go\<close>

text \<open>The last reference of a request, on a connection that others still hold: the request
  goes to the pool, or is freed when the pool is full.\<close>

lemma np_req_unref_ok:
  assumes "w_reqs w a = Some r" "rq_refcount r = 1" "w_conns w (rq_conn r) = Some cn" "1 < cn_refcount cn"
  shows "np_req_unref so a w = Some (
    let w = w\<lparr>w_conns := (w_conns w)(rq_conn r \<mapsto> cn_refcount_update (\<lambda>n. n - 1) cn)\<rparr>; p = w_reqpool w
    in if rp_reqnum p < 64
       then w\<lparr>w_reqs := (w_reqs w)(a \<mapsto> r\<lparr>rq_refcount := 0, rq_next := rp_reqlist p\<rparr>),
              w_reqpool := \<lparr>rp_reqnum = rp_reqnum p + 1, rp_reqlist = Some a\<rparr>\<rparr>
       else w\<lparr>w_reqs := (w_reqs w)(a := None)\<rparr>)"
proof -
  have r: "rq_refcount_update (\<lambda>n. n - 1) r = r\<lparr>rq_refcount := 0\<rparr>" using assms(2) by (cases r) simp
  show ?thesis
    using assms by (auto simp: np_req_unref_def np_conn_decref_def r Let_def)
qed

lemma unref_reqs_ok:
  assumes "reqs_ok w qs ws (a # os)" "w_reqs w a = Some r" "rq_refcount r = 1"
    "w_conns w (rq_conn r) = Some cn" "1 < cn_refcount cn"
  shows "\<exists>w'. np_req_unref so a w = Some w' \<and> reqs_ok w' qs ws os \<and> (\<forall>b. b \<noteq> a \<longrightarrow> w_reqs w' b = w_reqs w b) \<and>
    w' = w\<lparr>w_conns := (w_conns w)(rq_conn r \<mapsto> cn_refcount_update (\<lambda>n. n - 1) cn), w_reqs := w_reqs w',
      w_reqpool := w_reqpool w'\<rparr> \<and>
    (rp_reqnum (w_reqpool w) < 64 \<longrightarrow> rp_reqnum (w_reqpool w') = rp_reqnum (w_reqpool w) + 1 \<and>
       map_option rq_flushreq (w_reqs w' a) = Some (rq_flushreq r))"
proof -
  let ?cs = "(w_conns w)(rq_conn r \<mapsto> cn_refcount_update (\<lambda>n. n - 1) cn)"
  let ?p = "w_reqpool w"
  have ok: "lists_at w qs ws" "pool_ok w (qs @ ws @ a # os)" "distinct (qs @ ws @ a # os)"
    "\<forall>a\<in>set os. w_reqs w a \<noteq> None" "\<forall>a. w_reqs w a \<noteq> None \<longrightarrow> a < w_nmalloc w"
    using assms(1) by (auto simp: reqs_ok_def)
  obtain fs where fs: "fseg (w_reqs w) (rp_reqlist ?p) fs" "distinct fs" "set fs \<inter> set (qs @ ws @ a # os) = {}"
    using ok(2) by (auto simp: pool_ok_def)
  show ?thesis
  proof (cases "rp_reqnum ?p < 64")
    case True
    let ?w = "w\<lparr>w_conns := ?cs, w_reqs := (w_reqs w)(a \<mapsto> r\<lparr>rq_refcount := 0, rq_next := rp_reqlist ?p\<rparr>),
      w_reqpool := \<lparr>rp_reqnum = rp_reqnum ?p + 1, rp_reqlist = Some a\<rparr>\<rparr>"
    have run: "np_req_unref so a w = Some ?w" using np_req_unref_ok [OF assms(2-5), of so] True by (simp add: Let_def)
    have "lists_at ?w qs ws" by (rule lists_at_cong [OF ok(1)]) (use ok(3) in auto)
    moreover have "fseg (w_reqs ?w) (rp_reqlist ?p) fs" by (rule sseg_cong [OF fs(1)]) (use fs(3) in auto)
    then have "pool_ok ?w (qs @ ws @ os)"
      using fs(2,3) ok(3) unfolding pool_ok_def by (intro exI [of _ "a # fs"]) auto
    ultimately have "reqs_ok ?w qs ws os" using ok assms(2) by (auto simp: reqs_ok_def)
    then show ?thesis using run True by (intro exI [of _ ?w]) simp
  next
    case False
    let ?w = "w\<lparr>w_conns := ?cs, w_reqs := (w_reqs w)(a := None)\<rparr>"
    have run: "np_req_unref so a w = Some ?w" using np_req_unref_ok [OF assms(2-5), of so] False by (simp add: Let_def)
    have "lists_at ?w qs ws" by (rule lists_at_cong [OF ok(1)]) (use ok(3) in auto)
    moreover have "fseg (w_reqs ?w) (rp_reqlist ?p) fs" by (rule sseg_cong [OF fs(1)]) (use fs(3) in auto)
    then have "pool_ok ?w (qs @ ws @ os)"
      using fs(2,3) unfolding pool_ok_def by (intro exI [of _ fs]) auto
    ultimately have "reqs_ok ?w qs ws os" using ok assms(2) by (auto simp: reqs_ok_def)
    then show ?thesis using run False by (intro exI [of _ ?w]) simp
  qed
qed

section \<open>Flush requests\<close>

text \<open>What answering requests leaves alone.\<close>

definition serve_frame :: "'x world \<Rightarrow> 'x world \<Rightarrow> bool" where
  "serve_frame w w' \<longleftrightarrow> w_fids w' = w_fids w \<and> w_users w' = w_users w \<and> w_srv w' = w_srv w \<and>
     w_self w' = w_self w \<and> w_mallocs w' = w_mallocs w \<and> w_closed w' = w_closed w \<and> w_errs w' = w_errs w \<and>
     w_nmalloc w \<le> w_nmalloc w'"

lemma serve_frame_trans: "serve_frame w w' \<Longrightarrow> serve_frame w' w'' \<Longrightarrow> serve_frame w w''"
  by (simp add: serve_frame_def)

text \<open>The connection \<open>c\<close> as a record that has only lost \<open>n\<close> references and may have
  recycled messages.\<close>

definition conn_minus :: "'x world \<Rightarrow> 'x world \<Rightarrow> addr \<Rightarrow> int \<Rightarrow> bool" where
  "conn_minus w w' c n \<longleftrightarrow> (\<exists>cn fs. w_conns w c = Some cn \<and>
     w_conns w' = (w_conns w)(c \<mapsto> cn\<lparr>cn_freerclist := fs, cn_refcount := cn_refcount cn - n\<rparr>))"

lemma conn_minus_trans: "conn_minus w w1 c n \<Longrightarrow> conn_minus w1 w2 c m \<Longrightarrow> conn_minus w w2 c (n + m)"
proof -
  assume "conn_minus w w1 c n" "conn_minus w1 w2 c m"
  then obtain cn fs fs' where "w_conns w c = Some cn"
      "w_conns w2 = (w_conns w)(c \<mapsto> cn\<lparr>cn_freerclist := fs', cn_refcount := cn_refcount cn - (n + m)\<rparr>)"
    by (auto simp: conn_minus_def diff_diff_eq)
  then show ?thesis unfolding conn_minus_def by blast
qed

definition rflush :: "u16 \<Rightarrow> u8 list" where
  "rflush tag = wire 0 False tag MRflush"

lemma np_create_rflush_ok: "\<exists>rc. np_create_rflush (Some j) = Some rc \<and> whole rc \<and> tagged tag (fc_pkt rc) = rflush tag"
proof -
  obtain rc where "np_create_rflush (Some j) = Some rc" "emits 0 False MRflush (Some rc)"
    using np_create_emits_lem [of MRflush j 0 False] by (auto simp: emits_def)
  then show ?thesis using emits_whole [of MRflush 0 False rc] tagged_wire [of tag 0 False MRflush] by (auto simp: rflush_def)
qed

lemma answer_flush_ok:
  assumes "reqs_ok w qs ws (a # os)" "w_reqs w a = Some r" "rq_refcount r = 1"
    and "w_conns w (rq_conn r) = Some cn" "sends cn t" "1 < cn_refcount cn" "accepts so" "\<forall>n. w_mallocs w n \<noteq> None"
  shows "\<exists>w'. answer_flush so a w = Some w' \<and> reqs_ok w' qs ws os \<and> (\<forall>b. b \<noteq> a \<longrightarrow> w_reqs w' b = w_reqs w b) \<and>
    w_out w' = w_out w @ [(t, rflush (rq_tag r))] \<and> conn_minus w w' (rq_conn r) 1 \<and> serve_frame w w' \<and>
    (rp_reqnum (w_reqpool w) < 64 \<longrightarrow> rp_reqnum (w_reqpool w') = rp_reqnum (w_reqpool w) + 1 \<and>
       map_option rq_flushreq (w_reqs w' a) = Some (rq_flushreq r))"
proof -
  obtain j where j: "w_mallocs w (w_nmalloc w) = Some j" using assms(8) by blast
  obtain rc where rc: "np_create_rflush (Some j) = Some rc" "whole rc" "tagged (rq_tag r) (fc_pkt rc) = rflush (rq_tag r)"
    using np_create_rflush_ok by blast
  let ?rc = "rc\<lparr>fc_tag := rq_tag r, fc_pkt := tagged (rq_tag r) (fc_pkt rc)\<rparr>"
  let ?r = "r\<lparr>rq_rcall := Some ?rc\<rparr>"
  let ?w1 = "w\<lparr>w_nmalloc := w_nmalloc w + 1, w_reqs := (w_reqs w)(a \<mapsto> ?r)\<rparr>"
  have wr: "whole ?rc" using rc(2) by (rule whole_tagged)
  obtain x fs where resp: "np_conn_respond so a ?w1 = Some (?w1\<lparr>w_user := x, w_out := w_out w @ [(t, rflush (rq_tag r))],
      w_conns := (w_conns w)(rq_conn r \<mapsto> cn\<lparr>cn_freerclist := fs\<rparr>), w_reqs := (w_reqs w)(a \<mapsto> released ?r)\<rparr>)"
    using np_conn_respond_ok [of ?w1 a ?r ?rc cn t so] wr assms(4,5,7) rc(3) by auto
  define w2 where "w2 = ?w1\<lparr>w_user := x, w_out := w_out w @ [(t, rflush (rq_tag r))],
      w_conns := (w_conns w)(rq_conn r \<mapsto> cn\<lparr>cn_freerclist := fs\<rparr>), w_reqs := (w_reqs w)(a \<mapsto> released ?r)\<rparr>"
  have a: "a \<notin> set qs \<union> set ws" using assms(1) by (auto simp: reqs_ok_def)
  have "lists_at w2 qs ws"
    by (rule lists_at_cong [where w = w]) (use assms(1) a in \<open>auto simp: reqs_ok_def w2_def\<close>)
  moreover have "pool_ok w2 (qs @ ws @ a # os)"
    by (rule pool_ok_cong [where w = w and live = "qs @ ws @ a # os"]) (use assms(1) in \<open>auto simp: reqs_ok_def w2_def\<close>)
  ultimately have "reqs_ok w2 qs ws (a # os)" using assms(1,2) by (auto simp: reqs_ok_def w2_def less_Suc_eq)
  moreover have r2: "w_reqs w2 a = Some (released ?r)" "rq_refcount (released ?r) = 1" "rq_conn (released ?r) = rq_conn r"
    "rq_flushreq (released ?r) = rq_flushreq r"
    using assms(3) by (simp_all add: w2_def released_def)
  moreover have "w_conns w2 (rq_conn r) = Some (cn\<lparr>cn_freerclist := fs\<rparr>)" by (simp add: w2_def)
  ultimately obtain w3 where w3: "np_req_unref so a w2 = Some w3" "reqs_ok w3 qs ws os" "\<forall>b. b \<noteq> a \<longrightarrow> w_reqs w3 b = w_reqs w2 b"
      "w3 = w2\<lparr>w_conns := (w_conns w2)(rq_conn r \<mapsto> cn_refcount_update (\<lambda>n. n - 1) (cn\<lparr>cn_freerclist := fs\<rparr>)),
         w_reqs := w_reqs w3, w_reqpool := w_reqpool w3\<rparr>"
      "rp_reqnum (w_reqpool w2) < 64 \<longrightarrow> rp_reqnum (w_reqpool w3) = rp_reqnum (w_reqpool w2) + 1 \<and>
         map_option rq_flushreq (w_reqs w3 a) = Some (rq_flushreq r)"
    using unref_reqs_ok [of w2 qs ws a os "released ?r" "cn\<lparr>cn_freerclist := fs\<rparr>" so] assms(6) by auto
  have "answer_flush so a w = Some w3"
    using assms(2) j rc(1,2) resp w3(1) by (simp add: answer_flush_def run_create_def world_malloc_def set_tag_whole w2_def)
  moreover have f3: "w_out w3 = w_out w2" "w_conns w3 = (w_conns w2)(rq_conn r \<mapsto> cn_refcount_update (\<lambda>n. n - 1) (cn\<lparr>cn_freerclist := fs\<rparr>))"
    "serve_frame w2 w3"
    by (subst w3(4), simp add: serve_frame_def)+
  moreover have "conn_minus w w3 (rq_conn r) 1"
    unfolding conn_minus_def f3(2) using assms(4)
    by (intro exI [of _ cn] exI [of _ fs]) (cases cn, simp add: w2_def)
  moreover have "serve_frame w w2" by (simp add: serve_frame_def w2_def)
  ultimately show ?thesis
    using w3(2,3,5) serve_frame_trans by (intro exI [of _ w3]) (auto simp: w2_def)
qed

text \<open>All the flush requests chained to a request, on one connection.\<close>

lemma answer_flushes_ok:
  assumes "accepts so"
  shows "reqs_ok w qs ws (fl @ os) \<Longrightarrow> sseg rq_flushreq (w_reqs w) p fl \<Longrightarrow>
    \<forall>f\<in>set fl. \<exists>r. w_reqs w f = Some r \<and> rq_refcount r = 1 \<and> rq_conn r = c \<and> rq_tag r = tag f \<Longrightarrow>
    w_conns w c = Some cn \<Longrightarrow> sends cn t \<Longrightarrow> int (length fl) < cn_refcount cn \<Longrightarrow>
    \<forall>n. w_mallocs w n \<noteq> None \<Longrightarrow> fl = [] \<or> rp_reqnum (w_reqpool w) + int (length fl) \<le> 64 \<Longrightarrow>
    \<exists>w'. answer_flushes so p w = Some w' \<and> reqs_ok w' qs ws os \<and> (\<forall>b. b \<notin> set fl \<longrightarrow> w_reqs w' b = w_reqs w b) \<and>
      w_out w' = w_out w @ map (\<lambda>f. (t, rflush (tag f))) fl \<and> conn_minus w w' c (int (length fl)) \<and> serve_frame w w'"
proof (induction fl arbitrary: w p cn)
  case Nil
  have "conn_minus w w c 0"
    unfolding conn_minus_def using Nil.prems(4) by (intro exI [of _ cn] exI [of _ "cn_freerclist cn"]) (simp add: fun_upd_idem)
  moreover have "answer_flushes so p w = Some w" using Nil.prems(2) by (simp add: answer_flushes.simps)
  ultimately show ?case using Nil.prems(1) by (auto simp: serve_frame_def)
next
  case (Cons f fl)
  obtain r where r: "w_reqs w f = Some r" "rq_refcount r = 1" "rq_conn r = c" "rq_tag r = tag f" using Cons.prems(3) by auto
  have p: "p = Some f" "sseg rq_flushreq (w_reqs w) (rq_flushreq r) fl" using Cons.prems(2) r(1) by auto
  have n: "rp_reqnum (w_reqpool w) < 64" "1 < cn_refcount cn" using Cons.prems(6,8) by auto
  have d: "f \<notin> set fl" using Cons.prems(1) by (auto simp: reqs_ok_def)
  obtain w1 where w1: "answer_flush so f w = Some w1" "reqs_ok w1 qs ws (fl @ os)" "\<forall>b. b \<noteq> f \<longrightarrow> w_reqs w1 b = w_reqs w b"
      "w_out w1 = w_out w @ [(t, rflush (tag f))]" "conn_minus w w1 c 1" "serve_frame w w1"
      "rp_reqnum (w_reqpool w1) = rp_reqnum (w_reqpool w) + 1" "map_option rq_flushreq (w_reqs w1 f) = Some (rq_flushreq r)"
    using answer_flush_ok [of w qs ws f "fl @ os" r cn t so] Cons.prems(1,4,5,7) r n assms by auto
  obtain cn1 where cn1: "w_conns w1 c = Some cn1" "sends cn1 t" "cn_refcount cn1 = cn_refcount cn - 1"
    using w1(5) Cons.prems(4,5) by (auto simp: conn_minus_def sends_def)
  have "sseg rq_flushreq (w_reqs w1) (rq_flushreq r) fl" by (rule sseg_cong [OF p(2)]) (use w1(3) d in auto)
  moreover have "\<forall>g\<in>set fl. \<exists>r. w_reqs w1 g = Some r \<and> rq_refcount r = 1 \<and> rq_conn r = c \<and> rq_tag r = tag g"
    using Cons.prems(3) w1(3) d by auto
  moreover have "\<forall>n. w_mallocs w1 n \<noteq> None" using w1(6) Cons.prems(7) by (simp add: serve_frame_def)
  moreover have "int (length fl) < cn_refcount cn1" "fl = [] \<or> rp_reqnum (w_reqpool w1) + int (length fl) \<le> 64"
    using Cons.prems(6,8) cn1(3) w1(7) by auto
  ultimately obtain w' where w': "answer_flushes so (rq_flushreq r) w1 = Some w'" "reqs_ok w' qs ws os"
      "\<forall>b. b \<notin> set fl \<longrightarrow> w_reqs w' b = w_reqs w1 b" "w_out w' = w_out w1 @ map (\<lambda>f. (t, rflush (tag f))) fl"
      "conn_minus w1 w' c (int (length fl))" "serve_frame w1 w'"
    using Cons.IH [OF w1(2) _ _ cn1(1,2)] by blast
  have "answer_flushes so p w = Some w'"
    using p(1) w1(1,8) w'(1) by (auto simp: answer_flushes.simps [of so "Some f"])
  moreover have "conn_minus w w' c (int (length (f # fl)))"
    using conn_minus_trans [OF w1(5) w'(5)] by (simp add: add.commute)
  ultimately show ?case
    using w'(2,3,4) w1(3,4) serve_frame_trans [OF w1(6) w'(6)] by (intro exI [of _ w']) auto
qed

section \<open>Changes that keep the lists\<close>

definition req_links :: "'x world \<Rightarrow> addr \<Rightarrow> (addr option \<times> addr option) option" where
  "req_links w a = map_option (\<lambda>r. (rq_next r, rq_prev r)) (w_reqs w a)"

definition links_frame :: "'x world \<Rightarrow> 'x world \<Rightarrow> bool" where
  "links_frame w w' \<longleftrightarrow> req_links w' = req_links w \<and> w_srv w' = w_srv w \<and> w_reqpool w' = w_reqpool w \<and>
     w_nmalloc w \<le> w_nmalloc w'"

lemma links_frame_refl [simp]: "links_frame w w" by (simp add: links_frame_def)

lemma links_frame_trans: "links_frame w w' \<Longrightarrow> links_frame w' w'' \<Longrightarrow> links_frame w w''"
  by (simp add: links_frame_def)

lemma reqs_ok_links:
  assumes "reqs_ok w qs ws os" "links_frame w w'"
  shows "reqs_ok w' qs ws os"
proof -
  have l: "map_option (\<lambda>r. (rq_next r, rq_prev r)) (w_reqs w' a) = map_option (\<lambda>r. (rq_next r, rq_prev r)) (w_reqs w a)" for a
    using assms(2) by (simp add: links_frame_def req_links_def fun_eq_iff)
  have n: "map_option rq_next (w_reqs w' a) = map_option rq_next (w_reqs w a)" "w_reqs w' a = None \<longleftrightarrow> w_reqs w a = None" for a
    using l [of a] by (cases "w_reqs w a"; cases "w_reqs w' a"; simp)+
  have s: "w_srv w' = w_srv w" "w_reqpool w' = w_reqpool w" "w_nmalloc w \<le> w_nmalloc w'"
    using assms(2) by (simp_all add: links_frame_def)
  have "lists_at w' qs ws"
    using assms(1) dseg_links_cong [where h = "w_reqs w" and h' = "w_reqs w'" and nx = rq_next and pv = rq_prev] l
    by (simp add: reqs_ok_def lists_at_def s)
  moreover have "pool_ok w' (qs @ ws @ os)"
    using assms(1) sseg_cong [where h = "w_reqs w" and h' = "w_reqs w'" and nx = rq_next] n(1)
    unfolding reqs_ok_def pool_ok_def s(2) by blast
  ultimately show ?thesis using assms(1) n(2) s(3) by (fastforce simp: reqs_ok_def)
qed

lemma links_frame_upd:
  "w_reqs w a = Some r \<Longrightarrow> rq_next r' = rq_next r \<Longrightarrow> rq_prev r' = rq_prev r \<Longrightarrow>
    links_frame w (w\<lparr>w_reqs := (w_reqs w)(a \<mapsto> r')\<rparr>)"
  by (simp add: links_frame_def req_links_def fun_eq_iff)

lemma links_frame_same: "w_reqs w' = w_reqs w \<Longrightarrow> w_srv w' = w_srv w \<Longrightarrow> w_reqpool w' = w_reqpool w \<Longrightarrow>
   w_nmalloc w \<le> w_nmalloc w' \<Longrightarrow> links_frame w w'"
  by (simp add: links_frame_def req_links_def fun_eq_iff)

lemma links_frame_fid: "fid_frame w w' \<Longrightarrow> links_frame w w'"
  by (rule links_frame_same) (simp_all add: fid_frame_def)

text \<open>The list operations change links only.\<close>

lemma list_frame_field:
  assumes "list_frame w w'" "\<And>r. f (req_strip r) = f r"
  shows "map_option f (w_reqs w' a) = map_option f (w_reqs w a)"
proof -
  have "hview req_strip (w_reqs w') a = hview req_strip (w_reqs w) a"
    using assms(1) by (simp add: list_frame_def rview_def)
  then have "map_option f (map_option req_strip (w_reqs w' a)) = map_option f (map_option req_strip (w_reqs w a))"
    by (simp add: hview_def)
  then show ?thesis by (simp add: option.map_comp comp_def assms(2))
qed

lemma list_frame_req:
  assumes "list_frame w w'" "w_reqs w a = Some r"
  shows "\<exists>n p. w_reqs w' a = Some (r\<lparr>rq_next := n, rq_prev := p\<rparr>)"
proof -
  obtain r' where r': "w_reqs w' a = Some r'" "req_strip r' = req_strip r"
    using list_frame_rest(12) [OF assms(1)] assms(2) unfolding rview_def by (blast dest: hview_eqD)
  then have "r' = r\<lparr>rq_next := rq_next r', rq_prev := rq_prev r'\<rparr>" by (cases r; cases r') (simp add: req_strip_def)
  then show ?thesis using r'(1) by metis
qed

lemma unlink_flushes_ok:
  "reqs_ok w qs ws os \<Longrightarrow> sseg rq_flushreq (w_reqs w) p fl \<Longrightarrow> distinct fl \<Longrightarrow> set fl \<subseteq> set ws \<Longrightarrow>
    \<exists>w'. unlink_flushes p w = Some w' \<and> reqs_ok w' qs (filter (\<lambda>x. x \<notin> set fl) ws) (fl @ os) \<and> list_frame w w'"
proof (induction fl arbitrary: w p ws os)
  case Nil
  then show ?case by (auto simp: unlink_flushes.simps list_frame_def)
next
  case (Cons f fl)
  obtain r where r: "p = Some f" "w_reqs w f = Some r" "sseg rq_flushreq (w_reqs w) (rq_flushreq r) fl"
    using Cons.prems(2) by (auto split: option.splits)
  obtain w1 where w1: "np_srv_remove_workreq f w = Some w1" "reqs_ok w1 qs (remove1 f ws) (f # os)" "list_frame w w1"
    using np_srv_remove_workreq_ok [OF Cons.prems(1), of f] Cons.prems(4) by auto
  obtain n p' where r1: "w_reqs w1 f = Some (r\<lparr>rq_next := n, rq_prev := p'\<rparr>)" using list_frame_req [OF w1(3) r(2)] by blast
  have d: "distinct ws" using Cons.prems(1) by (simp add: reqs_ok_def)
  have s1: "sseg rq_flushreq (w_reqs w1) (rq_flushreq r) fl"
    by (rule sseg_cong [OF r(3)]) (simp add: list_frame_field [OF w1(3)] req_strip_def)
  have "set fl \<subseteq> set (remove1 f ws)" using Cons.prems(3,4) d by auto
  then obtain w' where w': "unlink_flushes (rq_flushreq r) w1 = Some w'" "list_frame w1 w'"
      "reqs_ok w' qs (filter (\<lambda>x. x \<notin> set fl) (remove1 f ws)) (fl @ f # os)"
    using Cons.IH [OF w1(2) s1] Cons.prems(3) by auto
  have "filter (\<lambda>x. x \<notin> set fl) (remove1 f ws) = filter (\<lambda>x. x \<notin> set (f # fl)) ws"
    unfolding distinct_remove1_removeAll [OF d] removeAll_filter_not_eq by (auto intro: filter_cong)
  moreover have "unlink_flushes p w = Some w'"
    using r(1) w1(1) r1 w'(1) by (simp add: unlink_flushes.simps [of "Some f"])
  moreover have "reqs_ok w' qs (filter (\<lambda>x. x \<notin> set fl) (remove1 f ws)) ((f # fl) @ os)"
    using reqs_ok_perm [OF w'(3), of "(f # fl) @ os"] w'(3) by (auto simp: reqs_ok_def)
  ultimately show ?case using list_frame_trans [OF w1(3) w'(2)] by auto
qed

section \<open>Replies\<close>

text \<open>What a reply needs of the fid its request holds.\<close>

definition fid_ready :: "'x world \<Rightarrow> Npfcall \<Rightarrow> Npreq \<Rightarrow> bool" where
  "fid_ready w rc r \<longleftrightarrow>
     (case rq_fid r of
        None \<Rightarrow> fc_type rc \<noteq> Rread
      | Some b \<Rightarrow> (case fview w b of
           None \<Rightarrow> False
         | Some f \<Rightarrow> user_alive w f \<and> (fc_type rc = Rread \<longrightarrow> rq_tcall r \<noteq> None)))"

text \<open>The fid after the reply: a directory read moves its offset, and the request's reference
  is given back.\<close>

definition reply_offset :: "Npfcall \<Rightarrow> Npreq \<Rightarrow> Npfid \<Rightarrow> Npfid" where
  "reply_offset rc r f =
     (if fc_type rc = Rread \<and> fid_type f AND Qtdir \<noteq> 0
      then f\<lparr>fid_diroffset := ucast (fc_offset (the (rq_tcall r)) + ucast (fc_count rc))\<rparr> else f)"

definition fids_after :: "'x world \<Rightarrow> Npfcall \<Rightarrow> Npreq \<Rightarrow> addr \<Rightarrow> Npfid option" where
  "fids_after w rc r =
     (case rq_fid r of
        None \<Rightarrow> fview w
      | Some b \<Rightarrow> (case fview w b of
           None \<Rightarrow> fview w
         | Some f \<Rightarrow> (fview w)(b := if fid_refcount f = 1 then None
             else Some (fid_refcount_update (\<lambda>n. n - 1) (reply_offset rc r f)))))"

lemma fview_fields: "fview w b = Some f \<Longrightarrow> \<exists>g. w_fids w b = Some g \<and> f = fid_strip g"
  by (simp add: fview_def hview_Some)

lemma reply_offset_ok:
  assumes "fids_ok w" "rq_fid r = Some b" "fview w b = Some f" "fc_type rc = Rread \<longrightarrow> rq_tcall r \<noteq> None"
  shows "\<exists>w'. (if fc_type rc = Rread then do {
         a \<leftarrow> rq_fid r;
         f \<leftarrow> w_fids w a;
         if fid_type f AND Qtdir \<noteq> 0 then do {
           tc \<leftarrow> rq_tcall r;
           upd_fid a (fid_diroffset_update (\<lambda>_. ucast (fc_offset tc + ucast (fc_count rc)))) w
         }
         else Some w
       }
       else Some w) = Some w' \<and> fids_ok w' \<and> fid_same w w' \<and> fview w' = (fview w)(b \<mapsto> reply_offset rc r f)"
proof -
  obtain g where g: "w_fids w b = Some g" "f = fid_strip g" using fview_fields [OF assms(3)] by blast
  have t: "fid_type g = fid_type f" by (simp add: g(2) fid_strip_def)
  have idem: "fview w = (fview w)(b \<mapsto> f)" using assms(3) by (simp add: fun_upd_idem)
  show ?thesis
  proof (cases "fc_type rc = Rread \<and> fid_type f AND Qtdir \<noteq> 0")
    case True
    then obtain tc where tc: "rq_tcall r = Some tc" using assms(4) by auto
    show ?thesis
      using upd_fid_ok [OF assms(1) plain_upds(4) assms(3), of "\<lambda>_. ucast (fc_offset tc + ucast (fc_count rc))"]
        True tc assms(2) g(1) t by (auto simp: reply_offset_def)
  next
    case False
    then show ?thesis using assms(1,2) g(1) t idem by (auto simp: reply_offset_def fid_same_def)
  qed
qed

text \<open>A decref that is not the last one touches no user.\<close>

definition keeps_fid :: "'x world \<Rightarrow> Npreq \<Rightarrow> bool" where
  "keeps_fid w r \<longleftrightarrow> (\<forall>b f. rq_fid r = Some b \<longrightarrow> fview w b = Some f \<longrightarrow> fid_refcount f \<noteq> 1)"

lemma np_fid_decref_users:
  assumes "fview w b = Some f" "fid_refcount f \<noteq> 1" "np_fid_decref so (Some b) w = Some w'"
  shows "w_users w' = w_users w"
proof -
  obtain g where g: "w_fids w b = Some g" "f = fid_strip g" using fview_fields [OF assms(1)] by blast
  then have "fid_refcount g \<noteq> 1" using assms(2) by (simp add: fid_strip_def)
  then show ?thesis using assms(3) g(1) by (auto simp: np_fid_decref_def)
qed

lemma np_respond_reply_ok:
  assumes "reqs_ok w qs ws os" "w_reqs w a = Some r" "fids_ok w" "fid_ready w rc r" "whole rc"
    and "w_conns w (rq_conn r) = Some cn" "sends cn t" "accepts so"
  shows "\<exists>w' r' cn'. np_respond_reply so a rc w = Some w' \<and> reqs_ok w' qs ws os \<and> fids_ok w' \<and>
    w_out w' = w_out w @ [(t, tagged (rq_tag r) (fc_pkt rc))] \<and> w_reqs w' = (w_reqs w)(a \<mapsto> r') \<and>
    rq_refcount r' = rq_refcount r \<and> rq_conn r' = rq_conn r \<and> rq_flushreq r' = rq_flushreq r \<and>
    w_conns w' (rq_conn r) = Some cn' \<and> sends cn' t \<and> cn_refcount cn' = cn_refcount cn \<and>
    (cn_fidpool cn' = None \<longleftrightarrow> cn_fidpool cn = None) \<and> links_frame w w' \<and> w_mallocs w' = w_mallocs w \<and> fview w' = fids_after w rc r \<and>
    (keeps_fid w r \<longrightarrow> w_users w' = w_users w)"
proof -
  let ?c = "rq_conn r"
  let ?rc = "rc\<lparr>fc_tag := rq_tag r, fc_pkt := tagged (rq_tag r) (fc_pkt rc)\<rparr>"
  let ?r1 = "rq_rcall_update (\<lambda>_. Some ?rc) r"
  let ?w0 = "\<lambda>w. w\<lparr>w_reqs := (w_reqs w)(a \<mapsto> ?r1)\<rparr>"
  have fin: "\<exists>w' r' cn'. np_conn_respond so a w1 = Some w' \<and> reqs_ok w' qs ws os \<and> fids_ok w' \<and>
      w_out w' = w_out w @ [(t, tagged (rq_tag r) (fc_pkt rc))] \<and> w_reqs w' = (w_reqs w)(a \<mapsto> r') \<and>
      rq_refcount r' = rq_refcount r \<and> rq_conn r' = ?c \<and> rq_flushreq r' = rq_flushreq r \<and>
      w_conns w' ?c = Some cn' \<and> sends cn' t \<and> cn_refcount cn' = cn_refcount cn \<and>
      (cn_fidpool cn' = None \<longleftrightarrow> cn_fidpool cn = None) \<and> links_frame w w' \<and> w_mallocs w' = w_mallocs w \<and> fview w' = v \<and> w_users w' = w_users w1"
    if w1: "links_frame w w1" "w_reqs w1 = (w_reqs w)(a \<mapsto> r1)" "r1 = ?r1 \<or> r1 = ?r1\<lparr>rq_fid := None\<rparr>" "fids_ok w1"
      "cview w1 = cview w" "w_out w1 = w_out w" "w_mallocs w1 = w_mallocs w" "fview w1 = v" for w1 r1 v
  proof -
    have f: "rq_rcall r1 = Some ?rc" "rq_conn r1 = ?c" "rq_refcount r1 = rq_refcount r" "rq_flushreq r1 = rq_flushreq r"
      "w_reqs w1 a = Some r1" using w1(2,3) by auto
    obtain cn1 where c1: "w_conns w1 ?c = Some cn1" "conn_strip cn1 = conn_strip cn"
      using w1(5) assms(6) unfolding cview_def by (blast dest: hview_eqD)
    have c2: "sends cn1 t" "cn_refcount cn1 = cn_refcount cn" "cn_fidpool cn1 = None \<longleftrightarrow> cn_fidpool cn = None"
      using conn_stripD [OF c1(2)] assms(7) by (simp_all add: sends_def)
    obtain x fs where resp: "np_conn_respond so a w1 = Some (w1\<lparr>w_user := x, w_out := w_out w1 @ [(t, fc_pkt ?rc)],
        w_conns := (w_conns w1)(rq_conn r1 \<mapsto> cn1\<lparr>cn_freerclist := fs\<rparr>), w_reqs := (w_reqs w1)(a \<mapsto> released r1)\<rparr>)"
      using np_conn_respond_ok [OF f(5,1) _ c2(1) whole_tagged [OF assms(5)] assms(8)] c1(1) f(2) by auto
    define w2 where "w2 = w1\<lparr>w_user := x, w_out := w_out w1 @ [(t, fc_pkt ?rc)],
        w_conns := (w_conns w1)(rq_conn r1 \<mapsto> cn1\<lparr>cn_freerclist := fs\<rparr>), w_reqs := (w_reqs w1)(a \<mapsto> released r1)\<rparr>"
    have l2: "links_frame w1 w2"
      using f(5) by (simp add: links_frame_def req_links_def fun_eq_iff w2_def released_def)
    then have l: "links_frame w w2" using w1(1) links_frame_trans by blast
    have "fids_ok w2"
      using w1(4) c1(1) f(2) by (fastforce simp: fids_ok_def w2_def conn_open_def split: if_splits)
    moreover have "fview w2 = v" using w1(8) by (simp add: fview_def w2_def)
    ultimately show ?thesis
      using resp reqs_ok_links [OF assms(1) l] l f c2 w1(2,6,7)
      by (intro exI [of _ w2] exI [of _ "released r1"] exI [of _ "cn1\<lparr>cn_freerclist := fs\<rparr>"])
        (simp add: w2_def sends_def released_def)
  qed
  show ?thesis
  proof (cases "rq_fid r")
    case None
    let ?w1 = "?w0 w"
    have "np_respond_reply so a rc w = np_conn_respond so a ?w1"
      using None assms(2,4,5) by (simp add: np_respond_reply_def set_tag_whole fid_ready_def)
    moreover have "links_frame w ?w1" by (rule links_frame_upd [OF assms(2)]) simp_all
    moreover have "fids_ok ?w1" "cview ?w1 = cview w" "fview ?w1 = fids_after w rc r"
      using assms(3) None by (simp_all add: fids_ok_def cview_def conn_open_def fview_def fids_after_def)
    ultimately show ?thesis using fin [of ?w1 ?r1 "fids_after w rc r"] by auto
  next
    case (Some b)
    then obtain f where f: "fview w b = Some f" "user_alive w f" "fc_type rc = Rread \<longrightarrow> rq_tcall r \<noteq> None"
      using assms(4) by (auto simp: fid_ready_def split: option.splits)
    obtain w1 where w1: "(if fc_type rc = Rread then do {
           a \<leftarrow> rq_fid r; f \<leftarrow> w_fids w a;
           if fid_type f AND Qtdir \<noteq> 0 then do {
             tc \<leftarrow> rq_tcall r;
             upd_fid a (fid_diroffset_update (\<lambda>_. ucast (fc_offset tc + ucast (fc_count rc)))) w }
           else Some w }
         else Some w) = Some w1" "fids_ok w1" "fid_same w w1" "fview w1 = (fview w)(b \<mapsto> reply_offset rc r f)"
      using reply_offset_ok [OF assms(3) Some f(1,3)] by blast
    have s1: "w_reqs w1 = w_reqs w" "w_users w1 = w_users w" "cview w1 = cview w" "w_out w1 = w_out w"
      "w_mallocs w1 = w_mallocs w" "links_frame w w1"
      using w1(3) links_frame_fid [of w w1] by (auto simp: fid_same_def fid_frame_def)
    let ?f1 = "reply_offset rc r f"
    let ?w2 = "?w0 w1"
    have w2: "fids_ok ?w2" "fview ?w2 = fview w1" "cview ?w2 = cview w1" "links_frame w1 ?w2"
      using w1(2) links_frame_upd [of w1 a r ?r1] s1(1) assms(2)
      by (simp_all add: fids_ok_def conn_open_def fview_def cview_def)
    have alive: "user_alive ?w2 ?f1" using f(2) s1(2) by (auto simp: user_alive_def reply_offset_def split: option.splits)
    obtain w3 where w3: "np_fid_decref so (Some b) ?w2 = Some w3" "fids_ok w3" "fid_frame ?w2 w3"
        "fview w3 = (fview ?w2)(b := if fid_refcount ?f1 = 1 then None else Some (fid_refcount_update (\<lambda>n. n - 1) ?f1))"
      using np_fid_decref_ok [OF w2(1) _ alive, of b so] w1(4) w2(2) by auto
    have v3: "fview w3 = fids_after w rc r"
      using w3(4) w2(2) w1(4) Some f(1) by (simp add: fids_after_def reply_offset_def)
    have s3: "w_reqs w3 = (w_reqs w)(a \<mapsto> ?r1)" "cview w3 = cview w" "w_out w3 = w_out w" "w_mallocs w3 = w_mallocs w"
      using w3(3) w2(3) s1 by (auto simp: fid_frame_def)
    let ?w4 = "w3\<lparr>w_reqs := (w_reqs w3)(a \<mapsto> ?r1\<lparr>rq_fid := None\<rparr>)\<rparr>"
    have "np_respond_reply so a rc w = np_conn_respond so a ?w4"
      using w1(1) assms(2,5) s1(1) w3(1) s3(1) Some by (simp add: np_respond_reply_def set_tag_whole)
    moreover have "links_frame w3 ?w4" by (rule links_frame_upd [where r = ?r1]) (simp_all add: s3(1))
    then have "links_frame w ?w4"
      using s1(6) w2(4) links_frame_fid [OF w3(3)] links_frame_trans by blast
    moreover have "fids_ok ?w4" "cview ?w4 = cview w" "fview ?w4 = fids_after w rc r"
      using w3(2) s3(2) v3 by (simp_all add: fids_ok_def cview_def conn_open_def fview_def)
    moreover have "w_users ?w4 = w_users w" if "keeps_fid w r"
    proof -
      have "fid_refcount ?f1 \<noteq> 1" using that Some f(1) by (simp add: keeps_fid_def reply_offset_def)
      then have "w_users w3 = w_users ?w2"
        using np_fid_decref_users [OF _ _ w3(1), of ?f1] w2(2) w1(4) by simp
      then show ?thesis using s1(2) by simp
    qed
    ultimately show ?thesis using fin [of ?w4 "?r1\<lparr>rq_fid := None\<rparr>" "fids_after w rc r"] s3 by auto
  qed
qed

text \<open>A working request that can be answered: one reference, not answered yet, its fid there,
  and the flush requests \<open>fl\<close> that wait for it chained to it.\<close>

definition answerable :: "'x world \<Rightarrow> addr \<Rightarrow> Npfcall \<Rightarrow> addr list \<Rightarrow> bool" where
  "answerable w a rc fl \<longleftrightarrow> (\<exists>r. w_reqs w a = Some r \<and> rq_refcount r = 1 \<and> \<not> rq_responded r \<and> fid_ready w rc r \<and>
     sseg rq_flushreq (w_reqs w) (rq_flushreq r) fl \<and>
     (\<forall>f\<in>set fl. \<exists>s. w_reqs w f = Some s \<and> rq_refcount s = 1 \<and> rq_conn s = rq_conn r))"

definition tag_of :: "'x world \<Rightarrow> addr \<Rightarrow> u16" where
  "tag_of w a = (case w_reqs w a of None \<Rightarrow> 0 | Some r \<Rightarrow> rq_tag r)"

lemma fids_ok_conns:
  assumes "fids_ok w" "w_fids w' = w_fids w" "w_nmalloc w \<le> w_nmalloc w'"
    and "\<And>c. map_option cn_fidpool (w_conns w' c) = map_option cn_fidpool (w_conns w c)"
  shows "fids_ok w'"
proof -
  have o: "conn_open w' c = conn_open w c" for c
    using assms(4) [of c] by (cases "w_conns w c"; cases "w_conns w' c") (auto simp: conn_open_def)
  have "\<exists>bs. pool_at (w_fids w') c fp bs" if c: "w_conns w' c = Some cn" "cn_fidpool cn = Some fp" for c cn fp
  proof -
    obtain cn0 where "w_conns w c = Some cn0" "cn_fidpool cn0 = Some fp"
      using assms(4) [of c] c by (cases "w_conns w c") auto
    then show ?thesis using assms(1,2) by (auto simp: fids_ok_def)
  qed
  then show ?thesis using assms(1-3) o by (fastforce simp: fids_ok_def)
qed

lemma np_respond_ok:
  assumes "reqs_ok w qs ws os" "fids_ok w" "a \<in> set ws" "set fl \<subseteq> set ws" "distinct (a # fl)"
    and "answerable w a rc fl" "w_reqs w a = Some r" "whole rc" "accepts so" "\<forall>n. w_mallocs w n \<noteq> None"
    and "w_conns w (rq_conn r) = Some cn" "sends cn t" "1 + int (length fl) < cn_refcount cn"
    and "fl = [] \<or> rp_reqnum (w_reqpool w) + int (length fl) \<le> 64"
  shows "\<exists>w' cn'. np_respond so a (Some rc) w = Some w' \<and>
    reqs_ok w' qs (filter (\<lambda>x. x \<notin> set (a # fl)) ws) os \<and> fids_ok w' \<and>
    w_out w' = w_out w @ (t, tagged (rq_tag r) (fc_pkt rc)) # map (\<lambda>f. (t, rflush (tag_of w f))) fl \<and>
    (\<forall>b. b \<notin> set (a # fl) \<longrightarrow> rview w' b = rview w b) \<and> fview w' = fids_after w rc r \<and>
    w_conns w' (rq_conn r) = Some cn' \<and> sends cn' t \<and> cn_refcount cn' = cn_refcount cn - 1 - int (length fl) \<and>
    (cn_fidpool cn' = None \<longleftrightarrow> cn_fidpool cn = None) \<and> w_mallocs w' = w_mallocs w \<and> (keeps_fid w r \<longrightarrow> w_users w' = w_users w)"
proof -
  let ?c = "rq_conn r" and ?ws = "filter (\<lambda>x. x \<notin> set fl) (remove1 a ws)"
  have r: "rq_refcount r = 1" "\<not> rq_responded r" "fid_ready w rc r" "sseg rq_flushreq (w_reqs w) (rq_flushreq r) fl"
    "\<forall>f\<in>set fl. \<exists>s. w_reqs w f = Some s \<and> rq_refcount s = 1 \<and> rq_conn s = ?c"
    using assms(6,7) by (auto simp: answerable_def)
  have d: "distinct ws" using assms(1) by (simp add: reqs_ok_def)
  define w1 where "w1 = w\<lparr>w_reqs := (w_reqs w)(a \<mapsto> rq_responded_update (\<lambda>_. True) r)\<rparr>"
  have ok1: "reqs_ok w1 qs ws os"
    unfolding w1_def by (rule reqs_ok_links [OF assms(1) links_frame_upd [OF assms(7)]]) simp_all
  obtain w2 where w2: "np_srv_remove_workreq a w1 = Some w2" "reqs_ok w2 qs (remove1 a ws) (a # os)" "list_frame w1 w2"
    using np_srv_remove_workreq_ok [OF ok1 assms(3)] by blast
  have s2: "sseg rq_flushreq (w_reqs w2) (rq_flushreq r) fl"
    by (rule sseg_cong [OF r(4)]) (use assms(7) in \<open>auto simp: list_frame_field [OF w2(3)] req_strip_def w1_def\<close>)
  have "set fl \<subseteq> set (remove1 a ws)" using assms(4,5) d by auto
  then obtain w3 where w3: "unlink_flushes (rq_flushreq r) w2 = Some w3" "reqs_ok w3 qs ?ws (fl @ a # os)" "list_frame w2 w3"
    using unlink_flushes_ok [OF w2(2) s2] assms(5) by auto
  have f13: "list_frame w1 w3" by (rule list_frame_trans [OF w2(3) w3(3)])
  note rest = list_frame_rest [OF f13]
  obtain n2 p2 where r2: "w_reqs w2 a = Some ((rq_responded_update (\<lambda>_. True) r)\<lparr>rq_next := n2, rq_prev := p2\<rparr>)"
    using list_frame_req [OF w2(3), of a "rq_responded_update (\<lambda>_. True) r"] by (auto simp: w1_def)
  obtain n p where r3: "w_reqs w3 a = Some ((rq_responded_update (\<lambda>_. True) r)\<lparr>rq_next := n, rq_prev := p\<rparr>)"
    using list_frame_req [OF f13, of a "rq_responded_update (\<lambda>_. True) r"] by (auto simp: w1_def)
  define r4 where "r4 = rq_rcall_update (\<lambda>_. Some rc) ((rq_responded_update (\<lambda>_. True) r)\<lparr>rq_next := n, rq_prev := p\<rparr>)"
  define w4 where "w4 = w3\<lparr>w_reqs := (w_reqs w3)(a \<mapsto> r4)\<rparr>"
  have r4: "w_reqs w4 a = Some r4" "rq_conn r4 = ?c" "rq_tag r4 = rq_tag r" "rq_fid r4 = rq_fid r" "rq_tcall r4 = rq_tcall r"
    "rq_flushreq r4 = rq_flushreq r" "rq_refcount r4 = 1"
    using r(1) by (simp_all add: w4_def r4_def)
  have ok4: "reqs_ok w4 qs ?ws (fl @ a # os)"
    unfolding w4_def by (rule reqs_ok_links [OF w3(2) links_frame_upd [OF r3]]) (simp_all add: r4_def)
  have e4: "w_fids w4 = w_fids w" "w_conns w4 = w_conns w" "w_users w4 = w_users w" "w_out w4 = w_out w"
    "w_mallocs w4 = w_mallocs w" "w_reqpool w4 = w_reqpool w" "w_nmalloc w4 = w_nmalloc w"
    using rest by (simp_all add: w4_def w1_def)
  have v4: "fview w4 = fview w" "fids_ok w4" using e4 assms(2) by (simp_all add: fview_def fids_ok_def conn_open_def)
  have fr4: "fid_ready w4 rc r4"
    using r(3) e4(3) r4(4,5) v4(1) by (auto simp: fid_ready_def user_alive_def split: option.splits)
  have c4: "w_conns w4 (rq_conn r4) = Some cn" using assms(11) e4(2) r4(2) by simp
  obtain w5 r5 cn5 where w5: "np_respond_reply so a rc w4 = Some w5" "reqs_ok w5 qs ?ws (fl @ a # os)" "fids_ok w5"
      "w_out w5 = w_out w4 @ [(t, tagged (rq_tag r) (fc_pkt rc))]" "w_reqs w5 = (w_reqs w4)(a \<mapsto> r5)"
      "rq_refcount r5 = 1" "rq_conn r5 = ?c" "rq_flushreq r5 = rq_flushreq r"
      "w_conns w5 ?c = Some cn5" "sends cn5 t" "cn_refcount cn5 = cn_refcount cn"
      "cn_fidpool cn5 = None \<longleftrightarrow> cn_fidpool cn = None"
      "links_frame w4 w5" "w_mallocs w5 = w_mallocs w4" "fview w5 = fids_after w4 rc r4"
      "keeps_fid w4 r4 \<longrightarrow> w_users w5 = w_users w4"
    using np_respond_reply_ok [OF ok4 r4(1) v4(2) fr4 assms(8) c4 assms(12,9)] r4(2,3,6,7) by auto
  have s5: "map_option rq_flushreq (w_reqs w5 f) = map_option rq_flushreq (w_reqs w2 f)" for f
    using w5(5,8) r2 list_frame_field [OF w3(3), of rq_flushreq f] by (simp add: w4_def req_strip_def)
  have "sseg rq_flushreq (w_reqs w5) (rq_flushreq r5) fl"
    unfolding w5(8) by (rule sseg_cong [OF s2]) (simp add: s5)
  moreover have "\<forall>f\<in>set fl. \<exists>s. w_reqs w5 f = Some s \<and> rq_refcount s = 1 \<and> rq_conn s = ?c \<and> rq_tag s = tag_of w f"
  proof
    fix f assume f: "f \<in> set fl"
    then obtain s where s: "w_reqs w f = Some s" "rq_refcount s = 1" "rq_conn s = ?c" using r(5) by blast
    have "f \<noteq> a" using f assms(5) by auto
    then have "w_reqs w1 f = Some s" "w_reqs w5 f = w_reqs w3 f" using s(1) w5(5) by (simp_all add: w1_def w4_def)
    then show "\<exists>s. w_reqs w5 f = Some s \<and> rq_refcount s = 1 \<and> rq_conn s = ?c \<and> rq_tag s = tag_of w f"
      using list_frame_req [OF f13, of f s] s by (auto simp: tag_of_def)
  qed
  moreover have "int (length fl) < cn_refcount cn5" "fl = [] \<or> rp_reqnum (w_reqpool w5) + int (length fl) \<le> 64"
    "\<forall>n. w_mallocs w5 n \<noteq> None"
    using assms(10,13,14) w5(11,13,14) e4(5,6) by (simp_all add: links_frame_def)
  ultimately obtain w6 where w6: "answer_flushes so (rq_flushreq r5) w5 = Some w6" "reqs_ok w6 qs ?ws (a # os)"
      "\<forall>b. b \<notin> set fl \<longrightarrow> w_reqs w6 b = w_reqs w5 b" "w_out w6 = w_out w5 @ map (\<lambda>f. (t, rflush (tag_of w f))) fl"
      "conn_minus w5 w6 ?c (int (length fl))" "serve_frame w5 w6"
    using answer_flushes_ok [OF assms(9) w5(2) _ _ w5(9,10)] by blast
  obtain cn6 where c6: "w_conns w6 ?c = Some cn6" "sends cn6 t" "cn_refcount cn6 = cn_refcount cn - int (length fl)"
      "\<forall>b. b \<noteq> ?c \<longrightarrow> w_conns w6 b = w_conns w5 b" "cn_fidpool cn6 = cn_fidpool cn5"
    using w6(5) w5(9-11) by (auto simp: conn_minus_def sends_def)
  have r6: "w_reqs w6 a = Some r5" using w6(3) w5(5) assms(5) by simp
  obtain w7 where w7: "np_req_unref so a w6 = Some w7" "reqs_ok w7 qs ?ws os" "\<forall>b. b \<noteq> a \<longrightarrow> w_reqs w7 b = w_reqs w6 b"
      "w7 = w6\<lparr>w_conns := (w_conns w6)(?c \<mapsto> cn_refcount_update (\<lambda>n. n - 1) cn6), w_reqs := w_reqs w7,
         w_reqpool := w_reqpool w7\<rparr>"
    using unref_reqs_ok [OF w6(2) r6 w5(6), of cn6 so] w5(7) c6(1,3) assms(13) by auto
  have e7: "w_conns w7 = (w_conns w6)(?c \<mapsto> cn_refcount_update (\<lambda>n. n - 1) cn6)" "w_fids w7 = w_fids w6"
    "w_out w7 = w_out w6" "w_mallocs w7 = w_mallocs w6" "w_nmalloc w7 = w_nmalloc w6" "w_users w7 = w_users w6"
    by (subst w7(4), simp)+
  have run: "np_respond so a (Some rc) w = Some w7"
    using assms(7) r(2) w2(1) r2 w3(1) r3 w5(1) w6(1) w7(1) w5(5,8)
    by (simp add: np_respond_def w1_def [symmetric] r4_def [symmetric] w4_def [symmetric])
  have e6: "w_fids w6 = w_fids w5" "w_nmalloc w5 \<le> w_nmalloc w6" "w_mallocs w6 = w_mallocs w5" "w_users w6 = w_users w5"
    using w6(6) by (simp_all add: serve_frame_def)
  have "fids_ok w7"
    by (rule fids_ok_conns [OF w5(3)]) (use e6 e7 c6 w5(9) in auto)
  moreover have off: "reply_offset rc r4 = reply_offset rc r" using r4(5) by (simp add: reply_offset_def fun_eq_iff)
  have "fids_after w4 rc r4 = fids_after w rc r" unfolding fids_after_def v4(1) r4(4) off ..
  then have "fview w7 = fids_after w rc r" using w5(15) e6(1) e7(2) by (simp add: fview_def)
  moreover have "?ws = filter (\<lambda>x. x \<notin> set (a # fl)) ws"
    unfolding distinct_remove1_removeAll [OF d] removeAll_filter_not_eq by (auto intro: filter_cong)
  then have "reqs_ok w7 qs (filter (\<lambda>x. x \<notin> set (a # fl)) ws) os" using w7(2) by simp
  moreover have "w_out w7 = w_out w @ (t, tagged (rq_tag r) (fc_pkt rc)) # map (\<lambda>f. (t, rflush (tag_of w f))) fl"
    using e7(3) w6(4) w5(4) e4(4) by simp
  moreover have "\<forall>b. b \<notin> set (a # fl) \<longrightarrow> rview w7 b = rview w b"
    using w7(3) w6(3) w5(5) rest(12) by (simp add: rview_def hview_def w4_def w1_def fun_eq_iff)
  moreover have "keeps_fid w r \<longrightarrow> w_users w7 = w_users w"
    using w5(16) e7(6) e6(4) e4(3) v4(1) r4(4) by (simp add: keeps_fid_def)
  ultimately show ?thesis
    using run c6(2,3,5) e7(1,4) e6(3) w5(12,14) e4(5)
    by (intro exI [of _ w7] exI [of _ "cn_refcount_update (\<lambda>n. n - 1) cn6"]) (simp add: sends_def)
qed

section \<open>Properties of replies\<close>

text \<open>A connection with a request of tag 10 being worked on and a Tflush of tag 11 that waits for it.\<close>

definition sample_req :: "u16 \<Rightarrow> Npreq" where
  "sample_req tag = (new_req 0 (npfcall_zero\<lparr>fc_tag := tag\<rparr>))\<lparr>rq_wthread := Some 0\<rparr>"

definition sample_work_world :: "'x \<Rightarrow> 'x world" where
  "sample_work_world x = (sample_world x)\<lparr>
     w_reqs := [1 \<mapsto> (sample_req 10)\<lparr>rq_flushreq := Some 2, rq_prev := Some 2\<rparr>, 2 \<mapsto> (sample_req 11)\<lparr>rq_next := Some 1\<rparr>],
     w_srv := (w_srv (sample_world x))\<lparr>sv_workreqs := Some 2\<rparr>, w_nmalloc := 3,
     w_conns := [0 \<mapsto> sample_conn\<lparr>cn_refcount := 3\<rparr>]\<rparr>"

definition sample_reply :: Npfcall where
  "sample_reply = npfcall_zero\<lparr>fc_size := 7, fc_type := Rclunk, fc_pkt := [7, 0, 0, 0, 121, 255, 255]\<rparr>"

lemma sample_work_reqs_ok: "reqs_ok (sample_work_world x) [] [2, 1] []"
  by (auto simp: reqs_ok_def lists_at_def pool_ok_def sample_work_world_def sample_world_def empty_world_def
      sample_req_def new_req_def lastp_def intro!: exI [of _ "[]"])

lemma sample_work_fids_ok: "fids_ok (sample_work_world x)"
  by (rule fids_ok_conns [OF sample_fids_ok [of x]])
    (auto simp: sample_work_world_def sample_world_def)



lemma np_conn_respond_no_trans:
  assumes "w_reqs w a = Some r" "w_conns w (rq_conn r) = Some cn" "cn_trans cn = None"
  shows "\<exists>fs. np_conn_respond so a w = Some (w\<lparr>w_conns := (w_conns w)(rq_conn r \<mapsto> cn\<lparr>cn_freerclist := fs\<rparr>),
    w_reqs := (w_reqs w)(a \<mapsto> released r)\<rparr>)"
proof -
  obtain fs where fs: "np_conn_free_incall (rq_conn r) (rq_tcall r) w =
      Some (w\<lparr>w_conns := (w_conns w)(rq_conn r \<mapsto> cn\<lparr>cn_freerclist := fs\<rparr>)\<rparr>)"
    using np_conn_free_incall_conn [OF assms(2)] by blast
  have "(case rq_rcall r of None \<Rightarrow> Some (None, w) | Some rc \<Rightarrow> np_conn_send so (rq_conn r) rc w) = Some (None, w)"
    using assms(2,3) by (simp add: np_conn_send_def split: option.splits)
  then show ?thesis using assms(1) fs
    by (intro exI [of _ fs]) (simp add: np_conn_respond_def Let_def np_trans_destroy_def released_def)
qed

text \<open>
  C36. A write that fails takes the transport away from the connection and destroys it, once;
  the messages of the request are let go all the same, and a later reply on the connection
  sends nothing.
\<close>

theorem np_conn_respond_write_error:
  assumes "w_reqs w a = Some r" and "rq_rcall r = Some rc" and "whole rc"
    and "w_conns w (rq_conn r) = Some cn" and "sends cn t"
    and "so_trans_write so t (fc_pkt rc) (w_user w) = (n, x)" and "n \<le> 0"
    and "w_reqs w b = Some s" and "rq_conn s = rq_conn r" and "b \<noteq> a"
  shows "\<exists>w' w''. np_conn_respond so a w = Some w' \<and> w_closed w' = w_closed w @ [t] \<and>
    w_reqs w' = (w_reqs w)(a \<mapsto> released r) \<and>
    np_conn_respond so b w' = Some w'' \<and> w_out w'' = w_out w @ [(t, fc_pkt rc)] \<and> w_closed w'' = w_closed w'"
proof -
  let ?c = "rq_conn r"
  let ?w1 = "w\<lparr>w_user := x, w_out := w_out w @ [(t, fc_pkt rc)], w_conns := (w_conns w)(?c \<mapsto> cn_trans_update (\<lambda>_. None) cn)\<rparr>"
  have "np_conn_send so ?c rc w = Some (Some t, ?w1)"
    using assms(3-7) by (simp add: np_conn_send_def sends_def whole_def Let_def)
  moreover obtain fs where fs: "np_conn_free_incall ?c (rq_tcall r) ?w1 =
      Some (?w1\<lparr>w_conns := (w_conns ?w1)(?c \<mapsto> (cn_trans_update (\<lambda>_. None) cn)\<lparr>cn_freerclist := fs\<rparr>)\<rparr>)"
    using np_conn_free_incall_conn [of ?w1 ?c "cn_trans_update (\<lambda>_. None) cn" "rq_tcall r"] by auto
  moreover define w' where "w' = (?w1\<lparr>w_conns := (w_conns w)(?c \<mapsto> (cn_trans_update (\<lambda>_. None) cn)\<lparr>cn_freerclist := fs\<rparr>),
      w_reqs := (w_reqs w)(a \<mapsto> released r), w_closed := w_closed w @ [t]\<rparr>)"
  ultimately have run: "np_conn_respond so a w = Some w'"
    using assms(1,2) by (simp add: np_conn_respond_def Let_def np_trans_destroy_def released_def)
  obtain gs where "np_conn_respond so b w' = Some (w'\<lparr>w_conns := (w_conns w')(?c \<mapsto>
      (cn_trans_update (\<lambda>_. None) cn)\<lparr>cn_freerclist := gs\<rparr>), w_reqs := (w_reqs w')(b \<mapsto> released s)\<rparr>)"
    using np_conn_respond_no_trans [of w' b s "(cn_trans_update (\<lambda>_. None) cn)\<lparr>cn_freerclist := fs\<rparr>" so] assms(8-10)
    by (auto simp: w'_def)
  then show ?thesis using run by (intro exI [of _ w'] exI conjI) (auto simp: w'_def)
qed

text \<open>The sample above with a transport that fails.\<close>

lemma np_conn_respond_write_error_witness:
  "\<exists>w' w''. np_conn_respond (sample_ops\<lparr>so_trans_write := \<lambda>_ _ x. (- 1, x)\<rparr>) 1
        ((sample_work_world ())\<lparr>w_reqs := (w_reqs (sample_work_world ()))(1 \<mapsto> (sample_req 10)\<lparr>rq_rcall := Some sample_reply\<rparr>)\<rparr>) = Some w' \<and>
    w_closed w' = [7] \<and>
    np_conn_respond (sample_ops\<lparr>so_trans_write := \<lambda>_ _ x. (- 1, x)\<rparr>) 2 w' = Some w'' \<and>
    w_out w'' = [(7, fc_pkt sample_reply)]"
proof -
  let ?w = "(sample_work_world ())\<lparr>w_reqs := (w_reqs (sample_work_world ()))(1 \<mapsto> (sample_req 10)\<lparr>rq_rcall := Some sample_reply\<rparr>)\<rparr>"
  let ?so = "sample_ops\<lparr>so_trans_write := \<lambda>_ _ x. (- 1, x)\<rparr>"
  have w: "w_reqs ?w 1 = Some ((sample_req 10)\<lparr>rq_rcall := Some sample_reply\<rparr>)"
    "w_reqs ?w 2 = Some ((sample_req 11)\<lparr>rq_next := Some 1\<rparr>)" "w_out ?w = []" "w_closed ?w = []"
    "w_conns ?w 0 = Some (sample_conn\<lparr>cn_refcount := 3\<rparr>)" "rq_conn (sample_req t) = 0" for t
    by (simp_all add: sample_work_world_def sample_world_def empty_world_def sample_req_def new_req_def)
  have "whole sample_reply" "sends (sample_conn\<lparr>cn_refcount := 3\<rparr>) 7"
    by (simp_all add: whole_def sample_reply_def sends_def sample_conn_def)
  then show ?thesis
    using np_conn_respond_write_error [OF w(1), of sample_reply "sample_conn\<lparr>cn_refcount := 3\<rparr>" 7 ?so "- 1" "()" 2
        "(sample_req 11)\<lparr>rq_next := Some 1\<rparr>"] w by auto
qed

fun free_incalls :: "addr \<Rightarrow> Npfcall list \<Rightarrow> 'x world \<Rightarrow> 'x world option" where
  "free_incalls c [] w = Some w"
| "free_incalls c (fc # fcs) w = do { w \<leftarrow> np_conn_free_incall c (Some fc) w; free_incalls c fcs w }"

text \<open>
  The limit of 64 recycled messages never applies: \<^verbatim>\<open>np_conn_free_incall\<close> does not
  count what it keeps, so on a connection as \<^verbatim>\<open>np_conn_create\<close> makes it any number of
  messages given back stays on the list.
\<close>

theorem np_conn_free_incall_unlimited:
  assumes "w_conns w c = Some cn" and "cn_freercnum cn \<le> 0"
  shows "\<exists>w' cn'. free_incalls c fcs w = Some w' \<and> w_conns w' c = Some cn' \<and>
    cn_freerclist cn' = rev fcs @ cn_freerclist cn \<and> cn_freercnum cn' = cn_freercnum cn"
  using assms
proof (induction fcs arbitrary: w cn)
  case (Cons fc fcs)
  let ?cn = "cn\<lparr>cn_freerclist := fc # cn_freerclist cn\<rparr>"
  let ?w = "w\<lparr>w_conns := (w_conns w)(c \<mapsto> ?cn)\<rparr>"
  have "np_conn_free_incall c (Some fc) w = Some ?w"
    using Cons.prems by (simp add: np_conn_free_incall_def)
  then show ?case using Cons.IH [of ?w ?cn] Cons.prems(2) by simp
qed simp

lemma np_conn_free_incall_unlimited_witness:
  "\<exists>w' cn'. free_incalls 0 (replicate 100 npfcall_zero) (sample_world ()) = Some w' \<and> w_conns w' 0 = Some cn' \<and>
    length (cn_freerclist cn') = 100"
proof -
  have "w_conns (sample_world ()) 0 = Some sample_conn" "cn_freercnum sample_conn \<le> 0" "cn_freerclist sample_conn = []"
    by (simp_all add: sample_world_def sample_conn_def)
  then obtain w' cn' where "free_incalls 0 (replicate 100 npfcall_zero) (sample_world ()) = Some w'" "w_conns w' 0 = Some cn'"
      "cn_freerclist cn' = rev (replicate 100 npfcall_zero)"
    using np_conn_free_incall_unlimited [of "sample_world ()" 0 sample_conn "replicate 100 npfcall_zero"] by auto
  then show ?thesis by (intro exI [of _ w'] exI [of _ cn']) simp
qed

end
