(* ===== verification/Handlers.thy ===== *)
theory Handlers
  imports Replies
begin

text \<open>
  What the request handlers of \<^verbatim>\<open>fcall.c\<close> do to the state: most look the fid up,
  hold it for the request and call back into the file server. \<open>handled\<close> is that effect.
\<close>

section \<open>Holding the fid of a request\<close>

text \<open>
  What a handler that only looks a fid up, holds it and calls back into the file server does:
  the request \<open>a\<close> either stays as it is, or holds one more reference on the fid \<open>b\<close>,
  of which other plain fields may have changed.
\<close>

definition core_frame :: "'x world \<Rightarrow> 'x world \<Rightarrow> bool" where
  "core_frame w w' \<longleftrightarrow> cview w' = cview w \<and> w_srv w' = w_srv w \<and> w_reqpool w' = w_reqpool w \<and>
     w_mallocs w' = w_mallocs w \<and> w_out w' = w_out w \<and> w_users w' = w_users w \<and> w_nmalloc w \<le> w_nmalloc w'"

lemma core_frame_trans: "core_frame w w' \<Longrightarrow> core_frame w' w'' \<Longrightarrow> core_frame w w''"
  by (simp add: core_frame_def)

lemma core_frame_core: "same_core w w' \<Longrightarrow> core_frame w w'"
  by (simp add: core_frame_def same_core_def cview_def)

lemma core_frame_keep: "fid_keep w w' \<Longrightarrow> core_frame w w'"
  by (simp add: core_frame_def fid_keep_def fid_frame_def)

definition holds :: "'x world \<Rightarrow> addr \<Rightarrow> addr \<Rightarrow> 'x world \<Rightarrow> bool" where
  "holds w a b w' \<longleftrightarrow> (\<exists>r f f'. w_reqs w a = Some r \<and> fview w b = Some f \<and> fid_conn f = rq_conn r \<and>
     w_reqs w' = (w_reqs w)(a \<mapsto> rq_fid_update (\<lambda>_. Some b) r) \<and>
     fview w' = (fview w)(b \<mapsto> f') \<and> fid_refcount f' = fid_refcount f + 1 \<and> fid_user f' = fid_user f)"

definition handled :: "'x world \<Rightarrow> addr \<Rightarrow> 'x world \<Rightarrow> bool" where
  "handled w a w' \<longleftrightarrow> fids_ok w' \<and> core_frame w w' \<and>
     ((w_reqs w' = w_reqs w \<and> fview w' = fview w) \<or> (\<exists>b. holds w a b w'))"

lemma handled_core: "handled w a w1 \<Longrightarrow> same_core w1 w2 \<Longrightarrow> handled w a w2"
  unfolding handled_def holds_def
  using fids_ok_core [of w1 w2] core_frame_trans [OF _ core_frame_core, of w w1 w2]
  by (simp add: same_core_def fview_def)

lemma handled_core_before: "same_core w0 w \<Longrightarrow> handled w a w1 \<Longrightarrow> handled w0 a w1"
  unfolding handled_def holds_def
  using core_frame_trans [OF core_frame_core, of w0 w w1]
  by (simp add: same_core_def fview_def)

lemma np_fcall_fid_ok:
  assumes "fids_ok w" "w_reqs w a = Some r" "conn_open w (rq_conn r)"
  obtains (unknown) w1 w' where "np_fcall_fid a tc w = Some (None, w')" "w' = np_werror (Some Eunknownfid) EIO w1"
      "fids_ok w'" "core_frame w w'" "w_reqs w' = w_reqs w" "fview w' = fview w"
      "\<forall>b. \<not> fid_at (fview w) (rq_conn r) (fc_fid tc) b" "fid_keep w w1"
  | (known) b f w' where "np_fcall_fid a tc w = Some (Some b, w')" "fids_ok w'" "core_frame w w'" "fview w b = Some f"
      "fid_conn f = rq_conn r" "fid_fid f = fc_fid tc" "w_reqs w' = (w_reqs w)(a \<mapsto> rq_fid_update (\<lambda>_. Some b) r)"
      "fview w' = (fview w)(b \<mapsto> fid_refcount_update (\<lambda>n. n + 1) f)" "w_errs w' = w_errs w" "w_self w' = w_self w"
proof (cases rule: ft.acquire [OF assms(1,3), of "fc_fid tc"])
  case (1 w1)
  have c: "core_frame w (np_werror (Some Eunknownfid) EIO w1)"
    by (rule core_frame_trans [OF core_frame_keep [OF 1(3)] core_frame_core]) simp
  have "w_reqs w1 = w_reqs w" using 1(3) by (simp add: fid_keep_def fid_frame_def)
  then show ?thesis
    using unknown [of "np_werror (Some Eunknownfid) EIO w1" w1] 1 c assms(2) fids_ok_core [OF 1(2) same_core_werror]
      same_coreD [OF same_core_werror [of w1 "Some Eunknownfid" EIO]]
    by (simp add: np_fcall_fid_def fview_def)
next
  case (2 b f w1 w2)
  have w1: "w_reqs w1 = w_reqs w" "w_reqs w2 = w_reqs w" using 2(3,7) by (simp_all add: fid_keep_def fid_frame_def)
  let ?w = "w2\<lparr>w_reqs := (w_reqs w)(a \<mapsto> rq_fid_update (\<lambda>_. Some b) r)\<rparr>"
  obtain w1' where "np_fid_find (rq_conn r) (fc_fid tc) w = Some (Some b, w1')" "fid_same w w1'"
    using np_fid_find_ok [OF assms(1,3), of "fc_fid tc"] 2(1) by auto
  then have e1: "w_errs w1 = w_errs w" "w_self w1 = w_self w" using 2(1) by (auto simp: fid_same_def fid_frame_def)
  have "fview w1 b = Some f" using 2(4,8) by simp
  then have e2: "w_errs w2 = w_errs w1" "w_self w2 = w_self w1"
    using np_fid_incref_ok [OF 2(2), of b f] 2(5) by (auto simp: fid_same_def fid_frame_def)
  have c: "core_frame w2 ?w" by (simp add: core_frame_def cview_def)
  have "np_fcall_fid a tc w = Some (Some b, ?w)"
    using 2(1,5) assms(2) w1 by (simp add: np_fcall_fid_def)
  then show ?thesis
  proof (rule known [OF _ _ core_frame_trans [OF core_frame_keep [OF 2(7)] c] 2(8)])
    show "fids_ok ?w" using 2(6) by (simp add: fids_ok_def conn_open_def)
    show "fid_conn f = rq_conn r" "fid_fid f = fc_fid tc" by (rule 2)+
    show "w_reqs ?w = (w_reqs w)(a \<mapsto> rq_fid_update (\<lambda>_. Some b) r)" by simp
    show "fview ?w = (fview w)(b \<mapsto> fid_refcount_update (\<lambda>n. n + 1) f)" using 2(11) by (simp add: fview_def)
    show "w_errs ?w = w_errs w" "w_self ?w = w_self w" using e1 e2 by simp_all
  qed
qed

lemma holds_start:
  assumes "fids_ok w'" "core_frame w w'" "w_reqs w a = Some r" "fview w b = Some f" "fid_conn f = rq_conn r"
    "w_reqs w' = (w_reqs w)(a \<mapsto> rq_fid_update (\<lambda>_. Some b) r)"
    "fview w' = (fview w)(b \<mapsto> fid_refcount_update (\<lambda>n. n + 1) f)"
  shows "handled w a w'" "holds w a b w'"
proof -
  show "holds w a b w'"
    unfolding holds_def using assms by (intro exI [of _ r] exI [of _ f] exI [of _ "fid_refcount_update (\<lambda>n. n + 1) f"]) simp
  then show "handled w a w'" using assms by (auto simp: handled_def)
qed

lemma holds_core: "holds w a b w1 \<Longrightarrow> same_core w1 w2 \<Longrightarrow> holds w a b w2"
  unfolding holds_def by (simp add: same_core_def fview_def)

text \<open>A plain update of the fid that is held.\<close>

lemma holds_upd:
  assumes "handled w a w1" "holds w a b w1" "plain_upd g" "\<And>f. fid_refcount (g f) = fid_refcount f"
    "\<And>f. fid_user (g f) = fid_user f" "upd_fid b g w1 = Some w2"
  shows "handled w a w2" "holds w a b w2"
proof -
  obtain r f f' where h: "w_reqs w a = Some r" "fview w b = Some f" "fid_conn f = rq_conn r"
      "w_reqs w1 = (w_reqs w)(a \<mapsto> rq_fid_update (\<lambda>_. Some b) r)" "fview w1 = (fview w)(b \<mapsto> f')"
      "fid_refcount f' = fid_refcount f + 1" "fid_user f' = fid_user f"
    using assms(2) by (auto simp: holds_def)
  have "fids_ok w1" using assms(1) by (simp add: handled_def)
  then have w2: "fids_ok w2" "fid_same w1 w2" "fview w2 = (fview w1)(b \<mapsto> g f')"
    using upd_fid_ok [OF _ assms(3), of w1 b f'] h(5) assms(6) by auto
  have "core_frame w1 w2" using w2(2) by (simp add: core_frame_def fid_same_def fid_frame_def)
  then have c: "core_frame w w2" using assms(1) core_frame_trans by (auto simp: handled_def)
  have "w_reqs w2 = w_reqs w1" using w2(2) by (simp add: fid_same_def fid_frame_def)
  then show "holds w a b w2"
    unfolding holds_def using h w2(3) assms(4,5) by (intro exI [of _ r] exI [of _ f] exI [of _ "g f'"]) simp
  then show "handled w a w2" using w2(1) c by (auto simp: handled_def)
qed


section \<open>The handlers that keep to this\<close>

lemma same_core_cbD: "run_cb c w = (r, w') \<Longrightarrow> same_core w w'"
  using same_core_cb [of w c] by simp

lemma same_core_createD: "run_create c w = (r, w') \<Longrightarrow> same_core w w'"
  using same_core_create [of w c] by simp

lemmas core_steps = same_core_cbD same_core_createD

lemma np_auth_read_core:
  assumes "np_auth_read au b tc w = Some (rc, w')"
  shows "same_core w w'"
proof -
  obtain r1 w1 where r1: "run_create (\<lambda>m. np_alloc_rread m (fc_count tc)) w = (r1, w1)" by fastforce
  show ?thesis
  proof (cases r1)
    case None
    then show ?thesis using assms r1 core_steps(2) [OF r1] by (simp add: np_auth_read_def)
  next
    case (Some m)
    obtain f rd where f: "w_fids w1 b = Some f" "au_read au = Some rd"
      using assms r1 Some by (auto simp: np_auth_read_def split: Option.bind_splits)
    obtain n bytes w2 where w2: "run_cb (rd b f (fc_offset tc) (fc_count tc)) w1 = ((n, bytes), w2)"
      by (metis prod.exhaust)
    have "w' = w2"
      using assms r1 Some f w2 unfolding np_auth_read_def Let_def
      by (auto split: Option.bind_splits if_splits sum.splits)
    then show ?thesis using same_core_trans [OF core_steps(2) [OF r1] core_steps(1) [OF w2]] by simp
  qed
qed

lemma handled_unknown:
  "fids_ok w' \<Longrightarrow> core_frame w w' \<Longrightarrow> w_reqs w' = w_reqs w \<Longrightarrow> fview w' = fview w \<Longrightarrow> handled w a w'"
  by (simp add: handled_def)

text \<open>The bodies behind the lookup: what they may do to the state.\<close>

lemma np_open_handled:
  assumes "fids_ok w" "w_reqs w a = Some r" "conn_open w (rq_conn r)" "np_open so a tc w = Some (rc, w')"
  shows "handled w a w'"
proof (cases rule: np_fcall_fid_ok [OF assms(1-3), of tc])
  case (1 w1 w2)
  then show ?thesis using assms(4) handled_unknown [of w2 w a] by (simp add: np_open_def)
next
  case (2 b f w1)
  note h = holds_start [OF 2(2,3) assms(2) 2(4,5,7,8)]
  obtain g where g: "w_fids w1 b = Some g" using fview_fields [of w1 b] 2(8) by auto
  consider (err) e n where "w' = np_werror e n w1"
    | (opened) w0 where "same_core w1 w0" "upd_fid b (fid_omode_update (\<lambda>_. ucast (fc_mode tc))) w0 = Some w'"
    using assms(4) 2(1) g unfolding np_open_def Let_def
    by (auto split: if_splits prod.splits Option.bind_splits dest: core_steps)
  then show ?thesis
  proof cases
    case err
    then show ?thesis using handled_core [OF h(1)] by simp
  next
    case opened
    show ?thesis
      by (rule holds_upd(1) [OF handled_core [OF h(1) opened(1)] holds_core [OF h(2) opened(1)] _ _ _ opened(2)]) simp_all
  qed
qed

lemma np_read_handled:
  assumes "fids_ok w" "w_reqs w a = Some r" "conn_open w (rq_conn r)" "np_read so a tc w = Some (rc, w')"
  shows "handled w a w'"
proof (cases rule: np_fcall_fid_ok [OF assms(1-3), of tc])
  case (1 w1 w2)
  then show ?thesis using assms(4) handled_unknown [of w2 w a] by (simp add: np_read_def)
next
  case (2 b f w1)
  note h = holds_start [OF 2(2,3) assms(2) 2(4,5,7,8)]
  have "same_core w1 w'"
    using assms(4) 2(1) unfolding np_read_def
    by (auto split: if_splits option.splits Option.bind_splits dest: np_auth_read_core core_steps)
  then show ?thesis by (rule handled_core [OF h(1)])
qed

lemma np_write_handled:
  assumes "fids_ok w" "w_reqs w a = Some r" "conn_open w (rq_conn r)" "np_write so a tc w = Some (rc, w')"
  shows "handled w a w'"
proof (cases rule: np_fcall_fid_ok [OF assms(1-3), of tc])
  case (1 w1 w2)
  then show ?thesis using assms(4) handled_unknown [of w2 w a] by (simp add: np_write_def)
next
  case (2 b f w1)
  note h = holds_start [OF 2(2,3) assms(2) 2(4,5,7,8)]
  have "same_core w1 w'"
    using assms(4) 2(1) unfolding np_write_def Let_def
    by (auto split: if_splits option.splits Option.bind_splits prod.splits
        dest!: core_steps intro: same_core_trans)
  then show ?thesis by (rule handled_core [OF h(1)])
qed

lemma np_stat_handled:
  assumes "fids_ok w" "w_reqs w a = Some r" "conn_open w (rq_conn r)" "np_stat so a tc w = Some (rc, w')"
  shows "handled w a w'"
proof (cases rule: np_fcall_fid_ok [OF assms(1-3), of tc])
  case (1 w1 w2)
  then show ?thesis using assms(4) handled_unknown [of w2 w a] by (simp add: np_stat_def)
next
  case (2 b f w1)
  note h = holds_start [OF 2(2,3) assms(2) 2(4,5,7,8)]
  have "same_core w1 w'"
    using assms(4) 2(1) unfolding np_stat_def
    by (auto split: Option.bind_splits dest: core_steps)
  then show ?thesis by (rule handled_core [OF h(1)])
qed

lemma np_wstat_handled:
  assumes "fids_ok w" "w_reqs w a = Some r" "conn_open w (rq_conn r)" "np_wstat so a tc w = Some (rc, w')"
  shows "handled w a w'"
proof (cases rule: np_fcall_fid_ok [OF assms(1-3), of tc])
  case (1 w1 w2)
  then show ?thesis using assms(4) handled_unknown [of w2 w a] by (simp add: np_wstat_def)
next
  case (2 b f w1)
  note h = holds_start [OF 2(2,3) assms(2) 2(4,5,7,8)]
  have "same_core w1 w'"
    using assms(4) 2(1) unfolding np_wstat_def Let_def
    by (auto split: if_splits Option.bind_splits dest: core_steps)
  then show ?thesis by (rule handled_core [OF h(1)])
qed

section \<open>Processing a request\<close>

text \<open>The message types whose handlers these are.\<close>

definition plain_type :: "u8 \<Rightarrow> bool" where
  "plain_type t \<longleftrightarrow> t \<in> {Topen, Tread, Twrite, Tstat, Twstat}"

lemma plain_handlers:
  assumes "plain_type t"
  shows "\<exists>f. np_fcalls so ! nat (np_fcall_index t) = Some f \<and> 0 \<le> np_fcall_index t \<and>
    np_fcall_index t < int (length (np_fcalls so)) \<and>
    (f = np_open so \<or> f = np_read so \<or> f = np_write so \<or> f = np_stat so \<or> f = np_wstat so)"
  using assms by (auto simp: plain_type_def np_fcall_index_def msg_type_defs np_fcalls_def)

lemma np_process_request_handled:
  assumes "fids_ok w" "w_reqs w a = Some r" "conn_open w (rq_conn r)" "rq_tcall r = Some tc" "plain_type (fc_type tc)"
    and "np_process_request so a w = Some (rc, w')"
  shows "handled w a w'"
proof -
  obtain f where f: "np_fcalls so ! nat (np_fcall_index (fc_type tc)) = Some f" "0 \<le> np_fcall_index (fc_type tc)"
      "np_fcall_index (fc_type tc) < int (length (np_fcalls so))"
      "f = np_open so \<or> f = np_read so \<or> f = np_write so \<or> f = np_stat so \<or> f = np_wstat so"
    using plain_handlers [OF assms(5), of so] by blast
  have never: "\<not> (fc_type tc < Tfirst \<and> fc_type tc > Rlast)"
    using less_trans [of Rlast "fc_type tc" Tfirst] by (auto simp: Tfirst_def Rlast_def)
  let ?w = "np_werror None 0 w"
  have c: "same_core w ?w" by simp
  obtain r1 w1 where h: "f a tc ?w = Some (r1, w1)"
    and e: "(case np_rerror w1 of (None, _) \<Rightarrow> Some (r1, w1)
      | (Some ename, ecode) \<Rightarrow> do {
          cn \<leftarrow> w_conns w1 (rq_conn r);
          Some (run_create (\<lambda>m. np_create_rerror m ename (word_of_int ecode) (cn_dotu cn)) w1)
        }) = Some (rc, w')"
    using assms(2,4,6) f(1-3) never by (auto simp: np_process_request_def Let_def split: Option.bind_splits)
  have "fids_ok ?w" "w_reqs ?w a = Some r" "conn_open ?w (rq_conn r)"
    using fids_ok_core [OF assms(1) c] same_coreD [OF c] assms(2,3) by (simp_all add: conn_open_def)
  then have "handled ?w a w1"
    using f(4) h np_open_handled np_read_handled np_write_handled np_stat_handled np_wstat_handled by metis
  then have "handled w a w1" by (rule handled_core_before [OF c])
  moreover have "same_core w1 w'"
    using e by (auto split: prod.splits option.splits Option.bind_splits dest: core_steps)
  ultimately show ?thesis by (rule handled_core)
qed

end
