(* ===== verification/Serve.thy ===== *)
theory Serve
  imports Handlers "HOL-Library.Multiset"
begin

text \<open>
  The server as a transition system: messages arrive, workers take them from the queue and
  process them, replies go out, in any interleaving. The invariant of its states ties the
  request lists, the fid table and the reference counts together; by rule induction it holds
  along every run, and the events of a run determine what was sent.
\<close>

section \<open>A run of the server\<close>

text \<open>
  The steps of a server on one connection \<open>c\<close>, at the grain of its locks: the reader queues
  a message, a worker thread takes the first request, processes it, and the request is answered
  (by the worker, or later by the file server, with any reply). Each step is the code's own
  operation; an event records what it was about.
\<close>

datatype srv_event = Arrive addr Npfcall | Take nat addr | Process addr | Reply addr u16 Npfcall

inductive serve_step :: "'x srvops \<Rightarrow> addr \<Rightarrow> 'x world \<Rightarrow> srv_event \<Rightarrow> 'x world \<Rightarrow> bool" for so c where
  arrive: "np_req_alloc c tc w = Some (a, w1) \<Longrightarrow> np_srv_add_req a w1 = Some w2 \<Longrightarrow>
    serve_step so c w (Arrive a tc) w2"
| take: "np_wthread_take i w = Some (Some a, w') \<Longrightarrow> serve_step so c w (Take i a) w'"
| process: "lists_at w qs ws \<Longrightarrow> a \<in> set ws \<Longrightarrow> w_reqs w a = Some r \<Longrightarrow> rq_fid r = None \<Longrightarrow>
    rq_tcall r = Some tc \<Longrightarrow> plain_type (fc_type tc) \<Longrightarrow> np_process_request so a w = Some (rc, w') \<Longrightarrow>
    serve_step so c w (Process a) w'"
| reply: "lists_at w qs ws \<Longrightarrow> a \<in> set ws \<Longrightarrow> w_reqs w a = Some r \<Longrightarrow> whole rc \<Longrightarrow>
    (fc_type rc = Rread \<Longrightarrow> rq_fid r \<noteq> None) \<Longrightarrow> np_respond so a (Some rc) w = Some w' \<Longrightarrow>
    serve_step so c w (Reply a (rq_tag r) rc) w'"

inductive_cases serve_stepE: "serve_step so c w e w'"

inductive serve_run :: "'x srvops \<Rightarrow> addr \<Rightarrow> 'x world \<Rightarrow> srv_event list \<Rightarrow> 'x world \<Rightarrow> bool" for so c where
  stop: "serve_run so c w [] w"
| more: "serve_step so c w e w1 \<Longrightarrow> serve_run so c w1 es w2 \<Longrightarrow> serve_run so c w (e # es) w2"

inductive_simps serve_run_simps [simp]: "serve_run so c w [] w'" "serve_run so c w (e # es) w'"

text \<open>What the events say about the order of requests and about the packets sent.\<close>

fun arrived :: "srv_event \<Rightarrow> addr list" where
  "arrived (Arrive a tc) = [a]" | "arrived e = []"

fun taken :: "srv_event \<Rightarrow> addr list" where
  "taken (Take i a) = [a]" | "taken e = []"

fun replied :: "srv_event \<Rightarrow> addr list" where
  "replied (Reply a tag rc) = [a]" | "replied e = []"

fun sent :: "srv_event \<Rightarrow> u8 list list" where
  "sent (Reply a tag rc) = [tagged tag (fc_pkt rc)]" | "sent e = []"

section \<open>The invariant\<close>

definition fid_of :: "'x world \<Rightarrow> addr \<Rightarrow> addr option" where
  "fid_of w a = Option.bind (rview w a) rq_fid"

definition holders :: "'x world \<Rightarrow> addr list \<Rightarrow> addr \<Rightarrow> nat" where
  "holders w ws b = length (filter (\<lambda>a. fid_of w a = Some b) ws)"

definition req_live :: "'x world \<Rightarrow> addr \<Rightarrow> addr \<Rightarrow> bool" where
  "req_live w c a \<longleftrightarrow> (\<exists>r. rview w a = Some r \<and> rq_refcount r = 1 \<and> \<not> rq_responded r \<and> rq_conn r = c \<and>
     rq_flushreq r = None \<and> rq_tcall r \<noteq> None)"

text \<open>
  The connection counts \<open>k\<close> references besides one for each request; every fid has more
  references than requests that hold it; a fid that is held exists.
\<close>

definition conn_inv :: "'x world \<Rightarrow> addr \<Rightarrow> nat \<Rightarrow> int \<Rightarrow> bool" where
  "conn_inv w c t n \<longleftrightarrow> (\<exists>cn. w_conns w c = Some cn \<and> sends cn t \<and> cn_fidpool cn \<noteq> None \<and> cn_refcount cn = n)"

definition fids_inv :: "'x world \<Rightarrow> addr list \<Rightarrow> bool" where
  "fids_inv w ws \<longleftrightarrow> fids_ok w \<and>
     (\<forall>b f. fview w b = Some f \<longrightarrow> int (holders w ws b) < fid_refcount f \<and> user_alive w f) \<and>
     (\<forall>a\<in>set ws. \<forall>b. fid_of w a = Some b \<longrightarrow> fview w b \<noteq> None)"

definition serve_inv ::
  "'x srvops \<Rightarrow> addr \<Rightarrow> nat \<Rightarrow> int \<Rightarrow> 'x world \<Rightarrow> addr list \<Rightarrow> addr list \<Rightarrow> bool"
where
  "serve_inv so c t k w qs ws \<longleftrightarrow> reqs_ok w qs ws [] \<and> (\<forall>a\<in>set (qs @ ws). req_live w c a) \<and>
     (\<forall>a\<in>set qs. fid_of w a = None) \<and> fids_inv w ws \<and>
     conn_inv w c t (k + int (length qs) + int (length ws)) \<and> (\<forall>n. w_mallocs w n \<noteq> None) \<and> accepts so \<and> 0 < k"

lemma holders_cong: "(\<And>a. a \<in> set ws \<Longrightarrow> fid_of w' a = fid_of w a) \<Longrightarrow> holders w' ws b = holders w ws b"
  unfolding holders_def by (rule arg_cong [where f = length], rule filter_cong) auto

lemma fid_of_rview: "rview w' a = rview w a \<Longrightarrow> fid_of w' a = fid_of w a"
  by (simp add: fid_of_def)

lemma req_live_rview: "rview w' a = rview w a \<Longrightarrow> req_live w' c a = req_live w c a"
  by (simp add: req_live_def)

lemma user_alive_cong: "w_users w' = w_users w \<Longrightarrow> user_alive w' f = user_alive w f"
  by (auto simp: user_alive_def split: option.splits)

lemma fids_inv_cong:
  assumes "fids_inv w ws" "fids_ok w'" "fview w' = fview w" "w_users w' = w_users w"
    "\<And>a. a \<in> set ws \<Longrightarrow> fid_of w' a = fid_of w a"
  shows "fids_inv w' ws"
  using assms(1-3) user_alive_cong [OF assms(4)] holders_cong [of ws w' w] assms(5) by (auto simp: fids_inv_def)

lemma dseg_unique: "dseg nx pv h pr p xs None \<Longrightarrow> dseg nx pv h pr p ys None \<Longrightarrow> xs = ys"
  by (induction xs arbitrary: pr p ys) (case_tac ys; fastforce split: option.splits)+

lemma lists_at_unique: "lists_at w qs ws \<Longrightarrow> lists_at w qs' ws' \<Longrightarrow> qs = qs' \<and> ws = ws'"
  unfolding lists_at_def by (blast intro: dseg_unique)

lemma list_frame_fids:
  assumes "list_frame w w'" "fids_ok w"
  shows "fids_ok w'" "fview w' = fview w"
  using assms(2) list_frame_rest [OF assms(1)] by (simp_all add: fids_ok_def conn_open_def fview_def)

section \<open>The steps keep it\<close>

lemma arrive_inv:
  assumes inv: "serve_inv so c t k w qs ws" and "np_req_alloc c tc w = Some (a, w1)" "np_srv_add_req a w1 = Some w2"
  shows "serve_inv so c t k w2 (qs @ [a]) ws" "w_out w2 = w_out w"
proof -
  obtain cn where cn: "w_conns w c = Some cn" "sends cn t" "cn_fidpool cn \<noteq> None"
      "cn_refcount cn = k + int (length qs) + int (length ws)"
    using inv by (auto simp: serve_inv_def conn_inv_def)
  have r: "reqs_ok w qs ws []" "\<forall>n. w_mallocs w n \<noteq> None" using inv by (auto simp: serve_inv_def)
  have a: "reqs_ok w1 qs ws [a]" "w_reqs w1 a = Some (new_req c tc)" "\<forall>b\<in>set (qs @ ws @ []). w_reqs w1 b = w_reqs w b"
      "alloc_frame c w w1"
    using np_req_alloc_ok [OF r(1) cn(1), of tc] r(2) assms(2) by auto
  have w2: "reqs_ok w2 (qs @ [a]) ws []" "list_frame w1 w2"
    using np_srv_add_req_ok [OF a(1,2)] assms(3) by (auto simp: new_req_def)
  have c1: "w_conns w1 = (w_conns w)(c \<mapsto> cn_refcount_update (\<lambda>n. n + 1) cn)" using a(4) cn(1) by (auto simp: alloc_frame_def)
  have f1: "fids_ok w1" "fview w1 = fview w" "w_users w1 = w_users w"
    using fids_ok_conns [of w w1] inv a(4) c1 cn(1) by (auto simp: serve_inv_def fids_inv_def alloc_frame_def fview_def)
  note rest = list_frame_rest [OF w2(2)]
  have v: "rview w2 b = rview w b" if "b \<in> set (qs @ ws)" for b
    using a(3) that rest(12) by (simp add: rview_def hview_def)
  have va: "rview w2 a = Some (req_strip (new_req c tc))" using rest(12) a(2) by (simp add: rview_def hview_def)
  have new: "req_live w2 c a" "fid_of w2 a = None"
    by (simp_all add: req_live_def fid_of_def va req_strip_def new_req_def)
  have old: "req_live w2 c b = req_live w c b" "fid_of w2 b = fid_of w b" if "b \<in> set (qs @ ws)" for b
    using req_live_rview [OF v [OF that]] fid_of_rview [OF v [OF that]] by blast+
  have "fids_inv w2 ws"
    by (rule fids_inv_cong [where w = w])
      (use inv list_frame_fids [OF w2(2) f1(1)] f1(2,3) rest(3) old(2) in \<open>auto simp: serve_inv_def\<close>)
  moreover have "conn_inv w2 c t (k + int (length (qs @ [a])) + int (length ws))"
    using c1 cn rest(2) by (simp add: conn_inv_def sends_def)
  moreover have "w_mallocs w2 = w_mallocs w" using rest(7) a(4) by (simp add: alloc_frame_def)
  ultimately show "serve_inv so c t k w2 (qs @ [a]) ws"
    using inv w2(1) new old by (auto simp: serve_inv_def)
  show "w_out w2 = w_out w" using rest(9) a(4) by (simp add: alloc_frame_def)
qed

lemma np_wthread_take_ok:
  assumes "reqs_ok w (a # qs) ws os"
  shows "\<exists>w'. np_wthread_take i w = Some (Some a, w') \<and> reqs_ok w' qs (a # ws) os \<and>
    (\<exists>w1. list_frame w w1 \<and> (\<exists>r. w_reqs w1 a = Some r \<and>
       w' = w1\<lparr>w_reqs := (w_reqs w1)(a \<mapsto> rq_wthread_update (\<lambda>_. Some i) r)\<rparr>))"
proof -
  have first: "sv_reqs_first (w_srv w) = Some a" using assms by (auto simp: reqs_ok_def lists_at_def)
  obtain w1 where w1: "np_srv_remove_req a w = Some w1" "reqs_ok w1 qs ws (a # os)" "list_frame w w1"
    using np_srv_remove_req_ok [OF assms, of a] by auto
  obtain w2 where w2: "np_srv_add_workreq a w1 = Some w2" "reqs_ok w2 qs (a # ws) os" "list_frame w1 w2"
    using np_srv_add_workreq_ok [OF w1(2)] by blast
  have "w_reqs w1 a \<noteq> None" using w1(2) by (simp add: reqs_ok_def)
  then obtain r where r: "w_reqs w2 a = Some r" using list_frame_alloc [OF w2(3), of a] by (cases "w_reqs w2 a") auto
  let ?w = "w2\<lparr>w_reqs := (w_reqs w2)(a \<mapsto> rq_wthread_update (\<lambda>_. Some i) r)\<rparr>"
  have "np_wthread_take i w = Some (Some a, ?w)"
    using first w1(1) w2(1) r by (simp add: np_wthread_take_def)
  moreover have "reqs_ok ?w qs (a # ws) os" by (rule reqs_ok_links [OF w2(2) links_frame_upd [OF r]]) simp_all
  ultimately show ?thesis using list_frame_trans [OF w1(3) w2(3)] r by blast
qed

lemma take_inv:
  assumes inv: "serve_inv so c t k w qs ws" and "np_wthread_take i w = Some (Some a, w')"
  shows "\<exists>qs'. qs = a # qs' \<and> serve_inv so c t k w' qs' (a # ws) \<and> w_out w' = w_out w"
proof -
  have ok: "reqs_ok w qs ws []" using inv by (simp add: serve_inv_def)
  obtain qs' where qs: "qs = a # qs'"
  proof (cases qs)
    case Nil
    then show ?thesis using assms(2) ok by (simp add: np_wthread_take_def reqs_ok_def lists_at_def)
  next
    case (Cons b bs)
    then show ?thesis using that np_wthread_take_ok [of w b bs ws "[]" i] ok assms(2) by auto
  qed
  obtain w1 r where w1: "reqs_ok w' qs' (a # ws) []" "list_frame w w1" "w_reqs w1 a = Some r"
      "w' = w1\<lparr>w_reqs := (w_reqs w1)(a \<mapsto> rq_wthread_update (\<lambda>_. Some i) r)\<rparr>"
    using np_wthread_take_ok [of w a qs' ws "[]" i] ok qs assms(2) by auto
  note rest = list_frame_rest [OF w1(2)]
  have f1: "fids_ok w1" "fview w1 = fview w"
    using list_frame_fids [OF w1(2)] inv by (auto simp: serve_inv_def fids_inv_def)
  have f': "fids_ok w'" "fview w' = fview w" using f1 by (simp_all add: w1(4) fids_ok_def conn_open_def fview_def)
  have va: "rview w a = Some (req_strip r)"
    using w1(3) fun_cong [OF rest(12), of a] by (simp add: rview_def hview_def)
  have va': "rview w' a = Some (rq_wthread_update (\<lambda>_. Some i) (req_strip r))"
    by (simp add: w1(4) rview_def hview_def req_strip_def)
  have v: "rview w' b = rview w b" if "b \<noteq> a" for b
    using that fun_cong [OF rest(12), of b] by (simp add: w1(4) rview_def hview_def)
  have live: "req_live w' c b = req_live w c b" "fid_of w' b = fid_of w b" for b
    using v [of b] by (cases "b = a"; simp add: req_live_def fid_of_def va va')+
  have na: "fid_of w a = None" using inv qs by (simp add: serve_inv_def)
  have h: "holders w' (a # ws) b = holders w ws b" for b
    using na holders_cong [of ws w' w b] live(2) by (simp add: holders_def)
  have users: "w_users w' = w_users w" using rest(3) by (simp add: w1(4))
  have inv_f: "fids_inv w ws" using inv by (simp add: serve_inv_def)
  have "fids_inv w' (a # ws)"
    using inv_f f' h na unfolding fids_inv_def user_alive_cong [OF users] live(2) by auto
  moreover have "conn_inv w' c t (k + int (length qs') + int (length (a # ws)))"
    using inv qs rest(2) by (simp add: serve_inv_def conn_inv_def w1(4) algebra_simps)
  ultimately have "serve_inv so c t k w' qs' (a # ws)"
    using inv w1(1) qs live rest(7) by (auto simp: serve_inv_def w1(4))
  moreover have "w_out w' = w_out w" using rest(9) by (simp add: w1(4))
  ultimately show ?thesis using qs by blast
qed

lemma dseg_member_req: "lists_at w qs ws \<Longrightarrow> a \<in> set ws \<Longrightarrow> \<exists>r. w_reqs w a = Some r"
  by (auto simp: lists_at_def dest: dseg_alloc)

lemma process_inv:
  assumes inv: "serve_inv so c t k w qs ws" and a: "a \<in> set ws" "w_reqs w a = Some r" "rq_fid r = None"
    and tc: "rq_tcall r = Some tc" "plain_type (fc_type tc)" and run: "np_process_request so a w = Some (rc, w')"
  shows "serve_inv so c t k w' qs ws" "w_out w' = w_out w"
proof -
  have ok: "reqs_ok w qs ws []" "fids_inv w ws" "conn_inv w c t (k + int (length qs) + int (length ws))"
    using inv by (auto simp: serve_inv_def)
  have live: "req_live w c a" using inv a(1) by (auto simp: serve_inv_def)
  then have r: "rq_conn r = c" using a(2) by (auto simp: req_live_def rview_def hview_def req_strip_def)
  have open_c: "conn_open w c" using ok(3) by (auto simp: conn_inv_def conn_open_def)
  have h: "handled w a w'"
    using np_process_request_handled [OF _ a(2) _ tc run] ok(2) open_c r by (auto simp: fids_inv_def)
  then have core: "fids_ok w'" "cview w' = cview w" "w_srv w' = w_srv w" "w_reqpool w' = w_reqpool w"
    "w_mallocs w' = w_mallocs w" "w_out w' = w_out w" "w_users w' = w_users w" "w_nmalloc w \<le> w_nmalloc w'"
    by (auto simp: handled_def core_frame_def)
  have conn: "conn_inv w' c t (k + int (length qs) + int (length ws))"
  proof -
    obtain cn where cn: "w_conns w c = Some cn" "sends cn t" "cn_fidpool cn \<noteq> None"
        "cn_refcount cn = k + int (length qs) + int (length ws)"
      using ok(3) by (auto simp: conn_inv_def)
    obtain cn' where cn': "w_conns w' c = Some cn'" "conn_strip cn' = conn_strip cn"
      using core(2) cn(1) unfolding cview_def by (blast dest: hview_eqD)
    then show ?thesis
      using cn conn_stripD [OF cn'(2)] by (auto simp: conn_inv_def sends_def)
  qed
  have d: "distinct ws" "a \<notin> set qs" using ok(1) a(1) by (auto simp: reqs_ok_def)
  have same: "serve_inv so c t k w' qs ws" if "w_reqs w' = w_reqs w" "fview w' = fview w"
  proof -
    have l: "links_frame w w'" by (rule links_frame_same) (use that core in auto)
    have v: "rview w' b = rview w b" for b using that(1) by (simp add: rview_def)
    have "fids_inv w' ws" by (rule fids_inv_cong [OF ok(2) core(1) that(2) core(7)]) (simp add: fid_of_def v)
    then show ?thesis
      using inv reqs_ok_links [OF ok(1) l] conn core(5) req_live_rview [OF v] fid_of_rview [OF v]
      by (simp add: serve_inv_def)
  qed
  have held: "serve_inv so c t k w' qs ws" if hb: "holds w a b w'" for b
  proof -
    obtain f f' where f: "fview w b = Some f" "w_reqs w' = (w_reqs w)(a \<mapsto> rq_fid_update (\<lambda>_. Some b) r)"
        "fview w' = (fview w)(b \<mapsto> f')" "fid_refcount f' = fid_refcount f + 1" "fid_user f' = fid_user f"
      using hb a(2) by (auto simp: holds_def)
    have l: "links_frame w w'"
      using f(2) a(2) core by (auto simp: links_frame_def req_links_def fun_eq_iff)
    have va: "rview w a = Some (req_strip r)" "rview w' a = Some (rq_fid_update (\<lambda>_. Some b) (req_strip r))"
      using a(2) f(2) by (simp_all add: rview_def hview_def req_strip_def)
    have v: "rview w' x = rview w x" if "x \<noteq> a" for x using that f(2) by (simp add: rview_def hview_def)
    have fo: "fid_of w a = None" "fid_of w' a = Some b" using va a(3) by (simp_all add: fid_of_def req_strip_def)
    have fo': "fid_of w' x = fid_of w x" if "x \<noteq> a" for x using fid_of_rview [OF v [OF that]] .
    have lv: "req_live w' c x = req_live w c x" for x
      using v [of x] va by (cases "x = a") (auto simp: req_live_def)
    have hold: "holders w' ws x = holders w ws x + (if x = b then 1 else 0)" for x
    proof -
      obtain us vs where ws: "ws = us @ a # vs" "a \<notin> set us" "a \<notin> set vs"
        using a(1) d(1) by (metis distinct.simps(2) distinct_append not_distinct_conv_prefix split_list)
      have "holders w' us x = holders w us x" "holders w' vs x = holders w vs x"
        using ws(2,3) by (auto intro!: holders_cong fo')
      then show ?thesis using ws(1) fo by (cases "x = b") (auto simp: holders_def)
    qed
    have "int (holders w' ws x) < fid_refcount g \<and> user_alive w' g" if g: "fview w' x = Some g" for x g
    proof (cases "x = b")
      case True
      then have "g = f'" using g f(3) by simp
      moreover have "int (holders w ws b) < fid_refcount f" "user_alive w f" using ok(2) f(1) by (auto simp: fids_inv_def)
      moreover have "user_alive w' f' = user_alive w f" using f(5) user_alive_cong [OF core(7), of f] by (simp add: user_alive_def)
      ultimately show ?thesis using True hold f(4) by simp
    next
      case False
      then show ?thesis using g f(3) hold ok(2) user_alive_cong [OF core(7)] by (auto simp: fids_inv_def)
    qed
    moreover have "fview w' x \<noteq> None" if "y \<in> set ws" "fid_of w' y = Some x" for y x
      using that fo fo' [of y] f(3) ok(2) by (cases "y = a") (auto simp: fids_inv_def)
    ultimately have "fids_inv w' ws" using core(1) by (auto simp: fids_inv_def)
    moreover have "\<forall>x\<in>set qs. fid_of w' x = None" using inv d(2) fo' by (metis serve_inv_def)
    ultimately show ?thesis
      using inv reqs_ok_links [OF ok(1) l] conn core(5) lv by (simp add: serve_inv_def)
  qed
  show "serve_inv so c t k w' qs ws" using h same held by (auto simp: handled_def)
  show "w_out w' = w_out w" by (rule core)
qed

lemma req_strip_idem [simp]: "req_strip (req_strip r) = req_strip r"
  by (simp add: req_strip_def)

lemma reply_inv:
  assumes inv: "serve_inv so c t k w qs ws" and a: "a \<in> set ws" "w_reqs w a = Some r" and rc: "whole rc"
    "fc_type rc = Rread \<Longrightarrow> rq_fid r \<noteq> None"
  shows "\<exists>w'. np_respond so a (Some rc) w = Some w' \<and> serve_inv so c t k w' qs (remove1 a ws) \<and>
    w_out w' = w_out w @ [(t, tagged (rq_tag r) (fc_pkt rc))]"
proof -
  have ok: "reqs_ok w qs ws []" "fids_inv w ws" "fids_ok w" "accepts so" "\<forall>n. w_mallocs w n \<noteq> None" "0 < k"
    using inv by (auto simp: serve_inv_def fids_inv_def)
  have d: "distinct ws" "a \<notin> set qs" using ok(1) a(1) by (auto simp: reqs_ok_def)
  have "req_live w c a" using inv a(1) by (auto simp: serve_inv_def)
  then have r: "rq_refcount r = 1" "\<not> rq_responded r" "rq_conn r = c" "rq_flushreq r = None" "rq_tcall r \<noteq> None"
    using a(2) by (auto simp: req_live_def rview_def hview_def req_strip_def)
  obtain cn where cn: "w_conns w c = Some cn" "sends cn t" "cn_fidpool cn \<noteq> None"
      "cn_refcount cn = k + int (length qs) + int (length ws)"
    using inv by (auto simp: serve_inv_def conn_inv_def)
  have big: "1 + int (length ([] :: addr list)) < cn_refcount cn"
    using cn(4) ok(6) a(1) by (cases ws) auto
  have fo: "fid_of w a = rq_fid r" using a(2) by (simp add: fid_of_def rview_def hview_def req_strip_def)
  have held: "\<exists>f. fview w b = Some f \<and> user_alive w f \<and> 1 < fid_refcount f" if b: "rq_fid r = Some b" for b
  proof -
    have "fview w b \<noteq> None" using ok(2) a(1) b fo by (simp add: fids_inv_def)
    then obtain f where f: "fview w b = Some f" by blast
    have "a \<in> set (filter (\<lambda>x. fid_of w x = Some b) ws)" using a(1) b fo by simp
    then have "0 < holders w ws b" unfolding holders_def by (metis length_pos_if_in_set)
    moreover have "int (holders w ws b) < fid_refcount f" "user_alive w f" using ok(2) f by (auto simp: fids_inv_def)
    ultimately show ?thesis using f by auto
  qed
  have "fid_ready w rc r"
    using held rc(2) r(5) by (cases "rq_fid r") (fastforce simp: fid_ready_def)+
  then have ans: "answerable w a rc []" using a(2) r by (auto simp: answerable_def)
  obtain w' cn' where w': "np_respond so a (Some rc) w = Some w'" "reqs_ok w' qs (filter (\<lambda>x. x \<notin> set [a]) ws) []"
      "fids_ok w'" "w_out w' = w_out w @ [(t, tagged (rq_tag r) (fc_pkt rc))]"
      "\<forall>b. b \<notin> set [a] \<longrightarrow> rview w' b = rview w b" "fview w' = fids_after w rc r"
      "w_conns w' (rq_conn r) = Some cn'" "sends cn' t" "cn_refcount cn' = cn_refcount cn - 1"
      "w_mallocs w' = w_mallocs w" "keeps_fid w r \<longrightarrow> w_users w' = w_users w"
      "cn_fidpool cn' = None \<longleftrightarrow> cn_fidpool cn = None"
    using np_respond_ok [OF ok(1,3) a(1) _ _ ans a(2) rc(1) ok(4,5) _ cn(2) big] cn(1) r(3) by auto
  have ws': "filter (\<lambda>x. x \<notin> set [a]) ws = remove1 a ws"
    unfolding distinct_remove1_removeAll [OF d(1)] removeAll_filter_not_eq by (auto intro: filter_cong)
  have "keeps_fid w r" using held by (fastforce simp: keeps_fid_def)
  then have users: "w_users w' = w_users w" using w'(11) by blast
  have v: "rview w' b = rview w b" if "b \<noteq> a" for b using w'(5) that by simp
  have na: "x \<noteq> a" if "x \<in> set (qs @ remove1 a ws)" for x using that d by auto
  have hold: "holders w ws x = holders w' (remove1 a ws) x + (if rq_fid r = Some x then 1 else 0)" for x
  proof -
    have "holders w' (remove1 a ws) x = holders w (remove1 a ws) x"
      by (rule holders_cong, rule fid_of_rview, rule v, rule na) simp
    moreover obtain us vs where ws: "ws = us @ a # vs" "a \<notin> set us"
      using a(1) by (metis split_list_first)
    ultimately show ?thesis using fo by (auto simp: holders_def remove1_append)
  qed
  have "int (holders w' (remove1 a ws) x) < fid_refcount g \<and> user_alive w' g" if g: "fview w' x = Some g" for x g
  proof (cases "rq_fid r = Some x")
    case True
    obtain f where f: "fview w x = Some f" "user_alive w f" "1 < fid_refcount f" using held [OF True] by blast
    then have "g = fid_refcount_update (\<lambda>n. n - 1) (reply_offset rc r f)"
      using g w'(6) True by (simp add: fids_after_def)
    then have "fid_refcount g = fid_refcount f - 1" "fid_user g = fid_user f" by (simp_all add: reply_offset_def)
    moreover have "int (holders w ws x) < fid_refcount f" using ok(2) f(1) by (auto simp: fids_inv_def)
    moreover have "user_alive w' g = user_alive w f"
      using calculation(2) user_alive_cong [OF users, of f] by (simp add: user_alive_def)
    ultimately show ?thesis using hold [of x] True f(2) by simp
  next
    case False
    then have "fview w x = Some g"
      using g w'(6) by (auto simp: fids_after_def split: option.splits if_splits)
    then have "int (holders w ws x) < fid_refcount g \<and> user_alive w g" using ok(2) by (auto simp: fids_inv_def)
    then show ?thesis using hold [of x] False user_alive_cong [OF users, of g] by simp
  qed
  moreover have "fview w' x \<noteq> None" if y: "y \<in> set (remove1 a ws)" "fid_of w' y = Some x" for y x
  proof -
    have "y \<noteq> a" "y \<in> set ws" using y(1) d(1) by auto
    then have "fview w x \<noteq> None" using y(2) fid_of_rview [OF v, of y] ok(2) by (auto simp: fids_inv_def)
    then show ?thesis using held w'(6) by (fastforce simp: fids_after_def split: option.splits)
  qed
  ultimately have "fids_inv w' (remove1 a ws)" using w'(3) by (auto simp: fids_inv_def)
  moreover have "conn_inv w' c t (k + int (length qs) + int (length (remove1 a ws)))"
  proof -
    have "length ws = Suc (length (remove1 a ws))"
      using length_pos_if_in_set [OF a(1)] a(1) by (simp add: length_remove1)
    then show ?thesis using w'(7-9,12) r(3) cn(3,4) by (auto simp: conn_inv_def)
  qed
  moreover have "req_live w' c x" "x \<in> set qs \<Longrightarrow> fid_of w' x = None" if "x \<in> set (qs @ remove1 a ws)" for x
  proof -
    have "rview w' x = rview w x" "x \<in> set (qs @ ws)" using v na [OF that] that by (auto dest: notin_set_remove1)
    then show "req_live w' c x" "x \<in> set qs \<Longrightarrow> fid_of w' x = None"
      using inv req_live_rview [of w' x w c] fid_of_rview [of w' x w] by (auto simp: serve_inv_def)
  qed
  ultimately have "serve_inv so c t k w' qs (remove1 a ws)"
    using w'(2,10) ws' ok(4,5,6) by (auto simp: serve_inv_def)
  then show ?thesis using w'(1,4) by blast
qed

section \<open>Whole runs\<close>

lemma serve_step_inv:
  assumes "serve_step so c w e w'" "serve_inv so c t k w qs ws"
  shows "\<exists>qs' ws'. serve_inv so c t k w' qs' ws' \<and> qs @ arrived e = taken e @ qs' \<and>
    mset (taken e) + mset ws = mset ws' + mset (replied e) \<and> w_out w' = w_out w @ map (Pair t) (sent e)"
  using assms(1)
proof cases
  case (arrive tc a w1)
  then show ?thesis using arrive_inv [OF assms(2)] by - (rule exI [of _ "qs @ [a]"], rule exI [of _ ws], auto)
next
  case (take i a)
  obtain qs' where "qs = a # qs'" "serve_inv so c t k w' qs' (a # ws)" "w_out w' = w_out w"
    using take_inv [OF assms(2) take(2)] by blast
  then show ?thesis using take(1) by - (rule exI [of _ qs'], rule exI [of _ "a # ws"], auto)
next
  case (process qs0 ws0 a r tc rc)
  then have "a \<in> set ws" using assms(2) lists_at_unique [of w qs0 ws0 qs ws] by (auto simp: serve_inv_def dest: reqs_ok_lists)
  then show ?thesis using process_inv [OF assms(2)] process by - (rule exI [of _ qs], rule exI [of _ ws], auto)
next
  case (reply qs0 ws0 a r rc)
  then have "a \<in> set ws" using assms(2) lists_at_unique [of w qs0 ws0 qs ws] by (auto simp: serve_inv_def dest: reqs_ok_lists)
  then show ?thesis using reply_inv [OF assms(2) _ reply(4,5,6)] reply by - (rule exI [of _ qs], rule exI [of _ "remove1 a ws"], auto)
qed

lemma serve_run_inv:
  "serve_run so c w es w' \<Longrightarrow> serve_inv so c t k w qs ws \<Longrightarrow>
    \<exists>qs' ws'. serve_inv so c t k w' qs' ws' \<and> qs @ concat (map arrived es) = concat (map taken es) @ qs' \<and>
      mset (concat (map taken es)) + mset ws = mset ws' + mset (concat (map replied es)) \<and>
      w_out w' = w_out w @ map (Pair t) (concat (map sent es))"
proof (induction arbitrary: qs ws rule: serve_run.induct)
  case (stop w)
  then show ?case by auto
next
  case (more w e w1 es w2)
  obtain q1 s1 where 1: "serve_inv so c t k w1 q1 s1" "qs @ arrived e = taken e @ q1"
      "mset (taken e) + mset ws = mset s1 + mset (replied e)" "w_out w1 = w_out w @ map (Pair t) (sent e)"
    using serve_step_inv [OF more.hyps(1) more.prems] by blast
  obtain q2 s2 where 2: "serve_inv so c t k w2 q2 s2" "q1 @ concat (map arrived es) = concat (map taken es) @ q2"
      "mset (concat (map taken es)) + mset s1 = mset s2 + mset (concat (map replied es))"
      "w_out w2 = w_out w1 @ map (Pair t) (concat (map sent es))"
    using more.IH [OF 1(1)] by blast
  have "qs @ concat (map arrived (e # es)) = concat (map taken (e # es)) @ q2"
    using 1(2) 2(2) by (metis append.assoc concat.simps(2) list.simps(9))
  moreover have "mset (concat (map taken (e # es))) + mset ws = mset s2 + mset (concat (map replied (e # es)))"
    using 1(3) 2(3) by (simp add: algebra_simps) (metis add.assoc add.commute)
  ultimately show ?case using 2(1,4) 1(4) by - (rule exI [of _ q2], rule exI [of _ s2], simp)
qed


section \<open>What a run does\<close>


lemma serve_arrives:
  assumes "serve_inv so c t k w qs ws"
  shows "\<exists>a w'. serve_step so c w (Arrive a tc) w' \<and> serve_inv so c t k w' (qs @ [a]) ws"
proof -
  obtain cn where cn: "w_conns w c = Some cn" using assms by (auto simp: serve_inv_def conn_inv_def)
  have "reqs_ok w qs ws []" "w_mallocs w (w_nmalloc w) \<noteq> None" using assms by (auto simp: serve_inv_def)
  then obtain a w1 where a: "np_req_alloc c tc w = Some (a, w1)" "reqs_ok w1 qs ws [a]" "w_reqs w1 a = Some (new_req c tc)"
    using np_req_alloc_ok [OF _ cn, of qs ws "[]" tc] by auto
  then obtain w2 where "np_srv_add_req a w1 = Some w2"
    using np_srv_add_req_ok [of w1 qs ws a "[]" "new_req c tc"] by (auto simp: new_req_def)
  then show ?thesis using serve_step.arrive [OF a(1)] arrive_inv [OF assms a(1)] by blast
qed

lemma serve_takes:
  assumes "serve_inv so c t k w (a # qs) ws"
  shows "\<exists>w'. serve_step so c w (Take i a) w' \<and> serve_inv so c t k w' qs (a # ws)"
proof -
  have "reqs_ok w (a # qs) ws []" using assms by (simp add: serve_inv_def)
  then obtain w' where "np_wthread_take i w = Some (Some a, w')" using np_wthread_take_ok by blast
  then show ?thesis using serve_step.take take_inv [OF assms] by blast
qed

lemma serve_replies:
  assumes "serve_inv so c t k w qs ws" "a \<in> set ws" "whole rc" "fc_type rc \<noteq> Rread"
  shows "\<exists>r w'. w_reqs w a = Some r \<and> serve_step so c w (Reply a (rq_tag r) rc) w' \<and>
    serve_inv so c t k w' qs (remove1 a ws)"
proof -
  have l: "lists_at w qs ws" using assms(1) by (auto simp: serve_inv_def dest: reqs_ok_lists)
  then obtain r where r: "w_reqs w a = Some r" using dseg_member_req assms(2) by blast
  obtain w' where "np_respond so a (Some rc) w = Some w'" "serve_inv so c t k w' qs (remove1 a ws)"
    using reply_inv [OF assms(1,2) r assms(3)] assms(4) by blast
  then show ?thesis using serve_step.reply [OF l assms(2) r assms(3)] r assms(4) by blast
qed


text \<open>A server on the sample connection: a message comes in, is taken and answered.\<close>

lemma sample_serve_inv: "serve_inv sample_ops 0 7 1 (sample_world ()) [] []"
proof -
  have w: "w_conns (sample_world ()) 0 = Some sample_conn" "w_reqs (sample_world ()) = (\<lambda>_. None)"
    "w_fids (sample_world ()) = (\<lambda>_. None)" "\<forall>n. w_mallocs (sample_world ()) n \<noteq> None"
    "sv_reqs_first (w_srv (sample_world ())) = None" "sv_reqs_last (w_srv (sample_world ())) = None"
    "sv_workreqs (w_srv (sample_world ())) = None" "w_reqpool (sample_world ()) = \<lparr>rp_reqnum = 0, rp_reqlist = None\<rparr>"
    by (simp_all add: sample_world_def empty_world_def)
  have "reqs_ok (sample_world ()) [] [] []"
    using w by (simp add: reqs_ok_def lists_at_def pool_ok_def) (rule exI [of _ "[]"], simp)
  moreover have "fids_inv (sample_world ()) []"
    using w sample_fids_ok by (simp add: fids_inv_def fview_def hview_def)
  moreover have "conn_inv (sample_world ()) 0 7 1"
    using w(1) by (simp add: conn_inv_def sends_def sample_conn_def)
  ultimately show ?thesis
    using w(4) by (simp add: serve_inv_def accepts_def sample_ops_def less_max_iff_disj)
qed

lemma sample_serve_run:
  "\<exists>a tag w'. serve_run sample_ops 0 (sample_world ()) [Arrive a npfcall_zero, Take 0 a, Reply a tag sample_reply] w'"
proof -
  obtain a w1 where 1: "serve_step sample_ops 0 (sample_world ()) (Arrive a npfcall_zero) w1" "serve_inv sample_ops 0 7 1 w1 [a] []"
    using serve_arrives [OF sample_serve_inv, of npfcall_zero] by auto
  obtain w2 where 2: "serve_step sample_ops 0 w1 (Take 0 a) w2" "serve_inv sample_ops 0 7 1 w2 [] [a]"
    using serve_takes [OF 1(2)] by blast
  have "whole sample_reply" "fc_type sample_reply \<noteq> Rread"
    by (simp_all add: whole_def sample_reply_def Rclunk_def Rread_def)
  then obtain r w3 where "w_reqs w2 a = Some r" "serve_step sample_ops 0 w2 (Reply a (rq_tag r) sample_reply) w3"
    using serve_replies [OF 2(2), of a sample_reply] by auto
  then show ?thesis unfolding serve_run_simps using 1(1) 2(1) by blast
qed



end
