(* ===== verification/IdPool.thy ===== *)
theory IdPool
  imports NpState
begin

unbundle bit_operations_syntax

text \<open>
  The pools of identifiers of the client libraries, \<^verbatim>\<open>npfs/libnpclient/pool.c\<close> and its
  single threaded twin \<^verbatim>\<open>spfs/libspclient/pool.c\<close>, from which the tags and the fids of a
  client come: a bitmap that grows, one bit for each identifier in use.
\<close>

section \<open>The pool\<close>

record Npcpool =
  np_maxid :: u32
  np_map :: "u8 list"

record Spcpool =
  sp_maxid :: u32
  sp_map :: "u8 list"

text \<open>The table of the position of the lowest bit that is not set, for each byte.\<close>

definition m2id :: "nat list" where
  "m2id =
    [0, 1, 0, 2, 0, 1, 0, 3,  0, 1, 0, 2, 0, 1, 0, 4,
     0, 1, 0, 2, 0, 1, 0, 3,  0, 1, 0, 2, 0, 1, 0, 5,
     0, 1, 0, 2, 0, 1, 0, 3,  0, 1, 0, 2, 0, 1, 0, 4,
     0, 1, 0, 2, 0, 1, 0, 3,  0, 1, 0, 2, 0, 1, 0, 6,
     0, 1, 0, 2, 0, 1, 0, 3,  0, 1, 0, 2, 0, 1, 0, 4,
     0, 1, 0, 2, 0, 1, 0, 3,  0, 1, 0, 2, 0, 1, 0, 5,
     0, 1, 0, 2, 0, 1, 0, 3,  0, 1, 0, 2, 0, 1, 0, 4,
     0, 1, 0, 2, 0, 1, 0, 3,  0, 1, 0, 2, 0, 1, 0, 7,
     0, 1, 0, 2, 0, 1, 0, 3,  0, 1, 0, 2, 0, 1, 0, 4,
     0, 1, 0, 2, 0, 1, 0, 3,  0, 1, 0, 2, 0, 1, 0, 5,
     0, 1, 0, 2, 0, 1, 0, 3,  0, 1, 0, 2, 0, 1, 0, 4,
     0, 1, 0, 2, 0, 1, 0, 3,  0, 1, 0, 2, 0, 1, 0, 6,
     0, 1, 0, 2, 0, 1, 0, 3,  0, 1, 0, 2, 0, 1, 0, 4,
     0, 1, 0, 2, 0, 1, 0, 3,  0, 1, 0, 2, 0, 1, 0, 5,
     0, 1, 0, 2, 0, 1, 0, 3,  0, 1, 0, 2, 0, 1, 0, 4,
     0, 1, 0, 2, 0, 1, 0, 3,  0, 1, 0, 2, 0, 1, 0, 0]"

text \<open>
  \<^verbatim>\<open>npc_create_pool\<close>: the arguments behind \<^verbatim>\<open>maxid\<close> say whether the two allocations
  succeed; a failure sets the error of the thread.
\<close>

definition npc_create_pool :: "u32 \<Rightarrow> bool \<Rightarrow> bool \<Rightarrow> cstring \<times> int + Npcpool" where
  "npc_create_pool maxid mem1 mem2 =
     (if \<not> mem1 then Inl (Ennomem, ENOMEM)
      else if \<not> mem2 then Inl (Ennomem, ENOMEM)
      else Inr \<lparr>np_maxid = maxid, np_map = replicate 32 0\<rparr>)"

definition spc_create_pool :: "u32 \<Rightarrow> bool \<Rightarrow> bool \<Rightarrow> Spcpool option" where
  "spc_create_pool maxid mem1 mem2 =
     (if \<not> mem1 then None
      else if \<not> mem2 then None
      else Some \<lparr>sp_maxid = maxid, sp_map = replicate 32 0\<rparr>)"

text \<open>The search for a byte of the map that has a bit left: the first index, or the size of the map.\<close>

fun free_byte :: "u8 list \<Rightarrow> nat" where
  "free_byte [] = 0"
| "free_byte (b # bs) = (if b \<noteq> 0xFF then 0 else Suc (free_byte bs))"

text \<open>
  How the map grows: 32 bytes at a time, up to \<^verbatim>\<open>maxid / 8 + 1\<close> bytes. \<^verbatim>\<open>msize * 8\<close> and
  \<^verbatim>\<open>n * 8\<close> are compared with the unsigned \<^verbatim>\<open>maxid\<close>.
\<close>

definition grow_map :: "u32 \<Rightarrow> bool \<Rightarrow> u8 list \<Rightarrow> u8 list option" where
  "grow_map maxid mem mp =
     (let msize = int (length mp) in
      if word_of_int (msize * 8) < maxid then
        (let n = msize + 32;
             n = (if word_of_int (n * 8) > maxid then uint (maxid div 8 + 1) else n)
         in if mem then Some (mp @ replicate (nat (n - msize)) 0) else None)
      else None)"

definition take_id :: "nat \<Rightarrow> u8 list \<Rightarrow> u32 \<times> u8 list" where
  "take_id i mp =
     (let ret = m2id ! unat (mp ! i)
      in (of_nat ret + of_nat i * 8, mp[i := mp ! i OR push_bit ret 1]))"

definition drop_id :: "u32 \<Rightarrow> u8 list \<Rightarrow> u8 list option" where
  "drop_id k mp =
     (if length mp \<le> unat (k div 8) then None
      else Some (mp[unat (k div 8) := mp ! unat (k div 8) AND NOT (push_bit (unat (k mod 8)) 1)]))"

text \<open>
  \<^verbatim>\<open>npc_get_id\<close> with the outcome of its \<^verbatim>\<open>realloc\<close>; where the code waits for an identifier to
  come back, the result is \<^verbatim>\<open>None\<close>. \<^verbatim>\<open>spc_get_id\<close> returns the size of the map there.
\<close>

definition npc_get_id :: "bool \<Rightarrow> Npcpool \<Rightarrow> u32 option \<times> Npcpool" where
  "npc_get_id mem p =
     (let i = free_byte (np_map p);
          p = (if length (np_map p) \<le> i then
                 (case grow_map (np_maxid p) mem (np_map p) of None \<Rightarrow> p | Some mp \<Rightarrow> p\<lparr>np_map := mp\<rparr>)
               else p)
      in if length (np_map p) \<le> i then (None, p)
         else (let (ret, mp) = take_id i (np_map p) in (Some ret, p\<lparr>np_map := mp\<rparr>)))"

definition npc_put_id :: "Npcpool \<Rightarrow> u32 \<Rightarrow> Npcpool option" where
  "npc_put_id p k = map_option (\<lambda>mp. p\<lparr>np_map := mp\<rparr>) (drop_id k (np_map p))"

definition spc_get_id :: "bool \<Rightarrow> Spcpool \<Rightarrow> u32 \<times> Spcpool" where
  "spc_get_id mem p =
     (let i = free_byte (sp_map p);
          p = (if length (sp_map p) \<le> i then
                 (case grow_map (sp_maxid p) mem (sp_map p) of None \<Rightarrow> p | Some mp \<Rightarrow> p\<lparr>sp_map := mp\<rparr>)
               else p)
      in if length (sp_map p) \<le> i then (of_nat (length (sp_map p)), p)
         else (let (ret, mp) = take_id i (sp_map p) in (ret, p\<lparr>sp_map := mp\<rparr>)))"

definition spc_put_id :: "Spcpool \<Rightarrow> u32 \<Rightarrow> Spcpool option" where
  "spc_put_id p k =
     (if k \<ge> sp_maxid p then Some p
      else map_option (\<lambda>mp. p\<lparr>sp_map := mp\<rparr>) (drop_id k (sp_map p)))"

section \<open>The identifiers in use\<close>

definition ids :: "u8 list \<Rightarrow> u32 set" where
  "ids mp = {k. unat k < 8 * length mp \<and> bit (mp ! (unat k div 8)) (unat k mod 8)}"

text \<open>
  As long as less than \<^verbatim>\<open>2 ^ 31\<close> identifiers are in use, the map stays below this size and the
  products with 8 do not overflow.
\<close>

definition map_ok :: "u8 list \<Rightarrow> bool" where
  "map_ok mp \<longleftrightarrow> 32 \<le> length mp \<and> length mp \<le> 2 ^ 28 + 32"

lemma free_byte_le: "free_byte bs \<le> length bs"
  by (induction bs) auto

lemma free_byte_less: "free_byte bs < length bs \<Longrightarrow> bs ! free_byte bs \<noteq> 0xFF \<and> (\<forall>i<free_byte bs. bs ! i = 0xFF)"
  by (induction bs) (auto simp: less_Suc_eq_0_disj split: if_splits)

lemma free_byte_full: "length bs \<le> free_byte bs \<longleftrightarrow> (\<forall>b\<in>set bs. b = 0xFF)"
  using free_byte_le by (induction bs) auto

lemma free_byte_append: "length bs \<le> free_byte bs \<Longrightarrow> free_byte (bs @ cs) = length bs + free_byte cs"
  by (induction bs) (auto split: if_splits)

lemma m2id_table: "list_all (\<lambda>(n, m). m < 8 \<and> even (n div 2 ^ m) \<and> n mod 2 ^ m = 2 ^ m - 1) (enumerate 0 (butlast m2id))"
  by (simp add: m2id_def)

lemma m2id_free:
  assumes "b \<noteq> (0xFF :: u8)"
  shows "m2id ! unat b < 8" "\<not> bit b (m2id ! unat b)" "j < m2id ! unat b \<Longrightarrow> bit b j"
proof -
  let ?n = "unat b" and ?m = "m2id ! unat b"
  have "?n < 2 ^ 8" by (rule order_less_le_trans [OF unsigned_less]) simp
  moreover have "?n \<noteq> 255" using assms by (simp add: word_unat_eq_iff)
  ultimately have "?n < length (butlast m2id)" by (simp add: m2id_def)
  then have "(?n, ?m) \<in> set (enumerate 0 (butlast m2id))"
    by (auto simp: in_set_enumerate_eq nth_butlast)
  then have t: "?m < 8" "even (?n div 2 ^ ?m)" "take_bit ?m ?n = mask ?m"
    using m2id_table unfolding list_all_iff by (fastforce simp: take_bit_eq_mod mask_eq_exp_minus_1)+
  have bits: "bit b j = bit ?n j" for j by (simp add: bit_simps)
  show "?m < 8" "\<not> bit b ?m" using t bits by (simp_all add: bit_iff_odd)
  show "bit b j" if "j < ?m"
  proof -
    have "bit (take_bit ?m ?n) j" using that t(3) by (simp add: bit_mask_iff)
    then show ?thesis by (simp add: bit_take_bit_iff bits)
  qed
qed
lemma take_id_ok:
  assumes "i < length mp" "mp ! i \<noteq> 0xFF" "map_ok mp" "take_id i mp = (k, mp')"
  shows "k \<notin> ids mp" "ids mp' = insert k (ids mp)" "length mp' = length mp"
    "unat k = 8 * i + m2id ! unat (mp ! i)"
proof -
  let ?m = "m2id ! unat (mp ! i)"
  note m = m2id_free [OF assms(2)]
  have k: "k = of_nat ?m + of_nat i * 8" "mp' = mp[i := mp ! i OR push_bit ?m 1]"
    using assms(4) by (simp_all add: take_id_def Let_def)
  have "k = of_nat (8 * i + ?m)" by (simp add: k(1))
  moreover have "8 * i + ?m < 2 ^ 32" using assms(1,3) m(1) by (simp add: map_ok_def)
  ultimately show u: "unat k = 8 * i + ?m" by (simp add: unsigned_of_nat take_bit_nat_eq_self del: of_nat_add)
  have d: "unat k div 8 = i" "unat k mod 8 = ?m" using u m(1) by simp_all
  show "k \<notin> ids mp" using d m(2) by (simp add: ids_def)
  show "length mp' = length mp" by (simp add: k(2))
  have "x \<in> ids mp' \<longleftrightarrow> x \<in> insert k (ids mp)" for x
  proof (cases "unat x div 8 = i")
    case True
    then have x: "unat x = 8 * i + unat x mod 8" "unat x mod 8 < 8" using mult_div_mod_eq [of 8 "unat x"] by simp_all
    then have "unat x < 8 * length mp" using assms(1) by linarith
    moreover have "x = k \<longleftrightarrow> unat x mod 8 = ?m"
      unfolding word_unat_eq_iff u using x by auto
    ultimately show ?thesis
      using True assms(1) x(2) by (auto simp: ids_def k(2) bit_simps)
  next
    case False
    then have "x \<noteq> k" using d(1) by blast
    then show ?thesis using False by (auto simp: ids_def k(2))
  qed
  then show "ids mp' = insert k (ids mp)" by blast
qed

lemma drop_id_ok:
  assumes "k \<in> ids mp"
  shows "\<exists>mp'. drop_id k mp = Some mp' \<and> length mp' = length mp \<and> ids mp' = ids mp - {k}"
proof -
  have k: "unat (k div 8) = unat k div 8" "unat (k mod 8) = unat k mod 8" by (simp_all add: unat_div unat_mod)
  have l: "unat k div 8 < length mp" using assms by (auto simp: ids_def)
  let ?mp = "mp[unat k div 8 := mp ! (unat k div 8) AND NOT (push_bit (unat k mod 8) 1)]"
  have "x \<in> ids ?mp \<longleftrightarrow> x \<in> ids mp - {k}" for x
  proof (cases "unat x div 8 = unat k div 8")
    case True
    then have "x = k \<longleftrightarrow> unat x mod 8 = unat k mod 8"
      unfolding word_unat_eq_iff by (metis div_mult_mod_eq)
    then show ?thesis using True l by (auto simp: ids_def bit_simps)
  next
    case False
    then show ?thesis by (auto simp: ids_def)
  qed
  then have "ids ?mp = ids mp - {k}" by blast
  moreover have "drop_id k mp = Some ?mp" using l k by (simp add: drop_id_def)
  ultimately show ?thesis by simp
qed

lemma bit_0xFF: "j < 8 \<Longrightarrow> bit (0xFF :: u8) j"
  by (auto simp: less_Suc_eq numeral_eq_Suc)

lemma ids_full:
  assumes "map_ok mp" "length mp \<le> free_byte mp"
  shows "card (ids mp) = 8 * length mp"
proof -
  have full: "mp ! i = 0xFF" if "i < length mp" for i using assms(2) that by (simp add: free_byte_full)
  then have "ids mp = {k. unat k < 8 * length mp}" using full bit_0xFF by (auto simp: ids_def)
  also have "\<dots> = of_nat ` {..<8 * length mp}"
  proof -
    have "unat (of_nat n :: u32) = n" if "n < 8 * length mp" for n
      using that assms(1) by (simp add: map_ok_def unsigned_of_nat take_bit_nat_eq_self)
    then show ?thesis by (force simp: image_iff)
  qed
  also have "card \<dots> = 8 * length mp"
  proof -
    have "inj_on (of_nat :: nat \<Rightarrow> u32) {..<8 * length mp}"
      by (rule inj_on_inverseI [where g = unat])
        (use assms(1) in \<open>simp add: map_ok_def unsigned_of_nat take_bit_nat_eq_self\<close>)
    then show ?thesis by (simp add: card_image)
  qed
  finally show ?thesis .
qed

lemma grow_map_ok:
  assumes "32 \<le> length mp" "length mp < 2 ^ 28" "grow_map maxid mem mp = Some mp'"
  shows "\<exists>n. mp' = mp @ replicate (Suc n) 0 \<and> map_ok mp' \<and> length mp' * 8 \<le> unat maxid + 8"
proof -
  define ms where "ms = int (length mp)"
  have ms: "32 \<le> ms" "ms < 2 ^ 28" using assms(1,2) by (simp_all add: ms_def)
  define n where "n = (if word_of_int ((ms + 32) * 8) > maxid then uint (maxid div 8 + 1) else ms + 32)"
  have g: "word_of_int (ms * 8) < maxid" "mp' = mp @ replicate (nat (n - ms)) 0"
    using assms(3) by (auto simp: grow_map_def ms_def n_def Let_def split: if_splits)
  have w: "uint (word_of_int (ms * 8) :: u32) = ms * 8" "uint (word_of_int ((ms + 32) * 8) :: u32) = (ms + 32) * 8"
    using ms by (simp_all only: unsigned_of_int) (simp_all add: take_bit_int_eq_self)
  have d: "uint (maxid div 8 + 1) = uint maxid div 8 + 1"
  proof -
    have "uint maxid < 4294967296" "0 \<le> uint maxid" using uint_bounded [of maxid] by simp_all
    then have "uint maxid div 8 + 1 < 4294967296" "0 \<le> uint maxid div 8 + 1" by linarith+
    then show ?thesis by (simp add: uint_word_ariths uint_div)
  qed
  have "ms < n \<and> n \<le> ms + 32 \<and> n * 8 \<le> uint maxid + 8"
    using g(1) w d by (auto simp: n_def word_less_iff_unsigned [where ?'a = int] not_less)
  then have n: "ms < n" "n \<le> ms + 32" "n * 8 \<le> uint maxid + 8" by auto
  have l: "length mp' = nat n" using g(2) n(1) ms(1) by (simp add: ms_def)
  have e: "mp' = mp @ replicate (Suc (nat (n - ms - 1))) 0" using g(2) n(1) by (simp flip: replicate_Suc add: Suc_nat_eq_nat_zadd1)
  have "nat n \<le> 268435488" using n(1,2) ms(2) by simp
  moreover have "32 \<le> nat n" using n(1) ms(1) by simp
  ultimately have ok: "map_ok mp'" using l by (simp add: map_ok_def)
  have "int (length mp' * 8) \<le> int (unat maxid + 8)" using l n(1,3) ms(1) by simp
  then have "length mp' * 8 \<le> unat maxid + 8" unfolding of_nat_le_iff .
  then show ?thesis using e ok by blast
qed

section \<open>Getting and putting back\<close>

definition npc_ok :: "Npcpool \<Rightarrow> bool" where
  "npc_ok p \<longleftrightarrow> map_ok (np_map p)"

definition npc_ids :: "Npcpool \<Rightarrow> u32 set" where
  "npc_ids p = ids (np_map p)"

definition spc_ok :: "Spcpool \<Rightarrow> bool" where
  "spc_ok p \<longleftrightarrow> map_ok (sp_map p)"

definition spc_ids :: "Spcpool \<Rightarrow> u32 set" where
  "spc_ids p = ids (sp_map p)"

text \<open>What the search and the growth of the map come to, for both pools.\<close>

definition next_map :: "u32 \<Rightarrow> bool \<Rightarrow> u8 list \<Rightarrow> u8 list" where
  "next_map maxid mem mp =
     (if length mp \<le> free_byte mp then (case grow_map maxid mem mp of None \<Rightarrow> mp | Some mp' \<Rightarrow> mp') else mp)"

lemma ids_replicate: "ids (mp @ replicate n 0) = ids mp"
proof -
  have "k \<in> ids (mp @ replicate n 0) \<longleftrightarrow> k \<in> ids mp" for k
  proof (cases "unat k div 8 < length mp")
    case True
    then show ?thesis by (auto simp: ids_def nth_append)
  next
    case False
    then have "\<not> unat k < 8 * length mp" "unat k < 8 * length mp + 8 * n \<Longrightarrow> unat k div 8 - length mp < n" by linarith+
    then show ?thesis using False by (auto simp: ids_def nth_append)
  qed
  then show ?thesis by blast
qed

lemma next_map_ok:
  assumes "map_ok mp" "card (ids mp) < 2 ^ 31"
  shows "map_ok (next_map maxid mem mp)" "ids (next_map maxid mem mp) = ids mp"
    "length (next_map maxid mem mp) * 8 \<le> max (length mp * 8) (unat maxid + 8)"
    "free_byte mp < length (next_map maxid mem mp) \<Longrightarrow> next_map maxid mem mp ! free_byte mp \<noteq> 0xFF"
proof -
  have "map_ok (next_map maxid mem mp) \<and> ids (next_map maxid mem mp) = ids mp \<and>
      length (next_map maxid mem mp) * 8 \<le> max (length mp * 8) (unat maxid + 8) \<and>
      (free_byte mp < length (next_map maxid mem mp) \<longrightarrow> next_map maxid mem mp ! free_byte mp \<noteq> 0xFF)"
  proof (cases "length mp \<le> free_byte mp")
    case False
    then show ?thesis using assms(1) free_byte_less [of mp] by (simp add: next_map_def)
  next
    case True
    then have f: "free_byte mp = length mp" using free_byte_le [of mp] by simp
    show ?thesis
    proof (cases "grow_map maxid mem mp")
      case None
      then show ?thesis using assms(1) True by (simp add: next_map_def)
    next
      case (Some mp')
      have "8 * length mp < 2 ^ 31" using ids_full [OF assms(1) True] assms(2) by simp
      then obtain n where "mp' = mp @ replicate (Suc n) 0" "map_ok mp'" "length mp' * 8 \<le> unat maxid + 8"
        using grow_map_ok [OF _ _ Some] assms(1) by (auto simp: map_ok_def)
      then show ?thesis using True Some f by (simp add: next_map_def ids_replicate nth_append del: replicate_Suc)
    qed
  qed
  then show "map_ok (next_map maxid mem mp)" "ids (next_map maxid mem mp) = ids mp"
    "length (next_map maxid mem mp) * 8 \<le> max (length mp * 8) (unat maxid + 8)"
    "free_byte mp < length (next_map maxid mem mp) \<Longrightarrow> next_map maxid mem mp ! free_byte mp \<noteq> 0xFF"
    by auto
qed

lemma npc_get_id_next:
  "npc_get_id mem p =
     (let mp = next_map (np_maxid p) mem (np_map p); i = free_byte (np_map p)
      in if length mp \<le> i then (None, p\<lparr>np_map := mp\<rparr>)
         else (let (ret, mp) = take_id i mp in (Some ret, p\<lparr>np_map := mp\<rparr>)))"
  by (simp add: npc_get_id_def next_map_def Let_def split: option.splits prod.splits)

lemma spc_get_id_next:
  "spc_get_id mem p =
     (let mp = next_map (sp_maxid p) mem (sp_map p); i = free_byte (sp_map p)
      in if length mp \<le> i then (of_nat (length mp), p\<lparr>sp_map := mp\<rparr>)
         else (let (ret, mp) = take_id i mp in (ret, p\<lparr>sp_map := mp\<rparr>)))"
  by (simp add: spc_get_id_def next_map_def Let_def split: option.splits prod.splits)

lemma get_from_map:
  assumes "map_ok mp" "card (ids mp) < 2 ^ 31" "free_byte mp < length (next_map maxid mem mp)"
    "take_id (free_byte mp) (next_map maxid mem mp) = (k, mp')"
  shows "map_ok mp' \<and> k \<notin> ids mp \<and> ids mp' = insert k (ids mp) \<and>
    length mp' * 8 \<le> max (length mp * 8) (unat maxid + 8) \<and> unat k < length mp' * 8"
proof -
  note n = next_map_ok [OF assms(1,2)]
  note t = take_id_ok [OF assms(3) n(4) n(1) assms(4), OF assms(3)]
  have "k \<in> ids mp'" using t(2) by simp
  then have "unat k < length mp' * 8" by (simp add: ids_def)
  moreover have "map_ok mp'" "length mp' * 8 \<le> max (length mp * 8) (unat maxid + 8)" using n(1,3) t(3) by (simp_all add: map_ok_def)
  ultimately show ?thesis using t(1,2) n(2) by blast
qed

lemma npc_get_id_ok:
  assumes "npc_ok p" "card (npc_ids p) < 2 ^ 31" "npc_get_id mem p = (r, p')"
  shows "npc_ok p' \<and> np_maxid p' = np_maxid p \<and>
    length (np_map p') * 8 \<le> max (length (np_map p) * 8) (unat (np_maxid p) + 8) \<and>
    (case r of None \<Rightarrow> npc_ids p' = npc_ids p
     | Some k \<Rightarrow> k \<notin> npc_ids p \<and> npc_ids p' = insert k (npc_ids p) \<and> unat k < length (np_map p') * 8)"
proof -
  let ?n = "next_map (np_maxid p) mem (np_map p)" and ?i = "free_byte (np_map p)"
  have m: "map_ok (np_map p)" "card (ids (np_map p)) < 2 ^ 31" using assms(1,2) by (simp_all add: npc_ok_def npc_ids_def)
  obtain k mp' where t: "take_id ?i ?n = (k, mp')" by fastforce
  show ?thesis
  proof (cases "length ?n \<le> ?i")
    case True
    then have "r = None" "p' = p\<lparr>np_map := ?n\<rparr>" using assms(3) by (simp_all add: npc_get_id_next Let_def)
    then show ?thesis using next_map_ok(1-3) [OF m, of "np_maxid p" mem] by (simp add: npc_ok_def npc_ids_def)
  next
    case False
    then have "r = Some k" "p' = p\<lparr>np_map := mp'\<rparr>" using assms(3) t by (simp_all add: npc_get_id_next)
    then show ?thesis using get_from_map [OF m _ t] False by (simp add: npc_ok_def npc_ids_def)
  qed
qed

lemma spc_get_id_ok:
  assumes "spc_ok p" "card (spc_ids p) < 2 ^ 31" "spc_get_id mem p = (k, p')"
  shows "spc_ok p' \<and> sp_maxid p' = sp_maxid p \<and>
    length (sp_map p') * 8 \<le> max (length (sp_map p) * 8) (unat (sp_maxid p) + 8) \<and>
    (if length (sp_map p') \<le> free_byte (sp_map p) then k = of_nat (length (sp_map p')) \<and> spc_ids p' = spc_ids p
     else k \<notin> spc_ids p \<and> spc_ids p' = insert k (spc_ids p) \<and> unat k < length (sp_map p') * 8)"
proof -
  let ?n = "next_map (sp_maxid p) mem (sp_map p)" and ?i = "free_byte (sp_map p)"
  have m: "map_ok (sp_map p)" "card (ids (sp_map p)) < 2 ^ 31" using assms(1,2) by (simp_all add: spc_ok_def spc_ids_def)
  obtain k' mp' where t: "take_id ?i ?n = (k', mp')" by fastforce
  show ?thesis
  proof (cases "length ?n \<le> ?i")
    case True
    then have "k = of_nat (length ?n)" "p' = p\<lparr>sp_map := ?n\<rparr>" using assms(3) by (simp_all add: spc_get_id_next Let_def)
    then show ?thesis using next_map_ok(1-3) [OF m, of "sp_maxid p" mem] True by (simp add: spc_ok_def spc_ids_def)
  next
    case False
    then have p': "k = k'" "p' = p\<lparr>sp_map := mp'\<rparr>" using assms(3) t by (simp_all add: spc_get_id_next)
    have "length mp' = length ?n" using t by (auto simp: take_id_def Let_def)
    then show ?thesis using get_from_map [OF m _ t] False p' by (simp add: spc_ok_def spc_ids_def)
  qed
qed

lemma npc_put_id_ok:
  assumes "npc_ok p" "k \<in> npc_ids p"
  shows "\<exists>p'. npc_put_id p k = Some p' \<and> npc_ok p' \<and> npc_ids p' = npc_ids p - {k}"
  using drop_id_ok [of k "np_map p"] assms by (auto simp: npc_put_id_def npc_ok_def npc_ids_def map_ok_def)

lemma spc_put_id_ok:
  assumes "spc_ok p" "k \<in> spc_ids p" "k < sp_maxid p"
  shows "\<exists>p'. spc_put_id p k = Some p' \<and> spc_ok p' \<and> spc_ids p' = spc_ids p - {k}"
  using drop_id_ok [of k "sp_map p"] assms by (auto simp: spc_put_id_def spc_ok_def spc_ids_def map_ok_def)

section \<open>The contract of an allocator\<close>

text \<open>
  What the client libraries rely on: an identifier that is handed out was not in use, and giving
  one back frees at most that one. \<open>limit\<close> bounds the number in use.
\<close>

locale id_allocator =
  fixes used :: "'p \<Rightarrow> u32 set" and ok :: "'p \<Rightarrow> bool" and limit :: nat
    and get :: "bool \<Rightarrow> 'p \<Rightarrow> u32 option \<times> 'p" and put :: "'p \<Rightarrow> u32 \<Rightarrow> 'p option"
  assumes get_law: "ok p \<Longrightarrow> card (used p) < limit \<Longrightarrow> get mem p = (r, p') \<Longrightarrow> ok p' \<and>
      (case r of None \<Rightarrow> used p' = used p | Some k \<Rightarrow> k \<notin> used p \<and> used p' = insert k (used p))"
    and put_law: "ok p \<Longrightarrow> k \<in> used p \<Longrightarrow>
      \<exists>p'. put p k = Some p' \<and> ok p' \<and> used p - {k} \<subseteq> used p' \<and> used p' \<subseteq> used p"

text \<open>An allocator that gives back what it is given back.\<close>

locale exact_allocator = id_allocator +
  assumes put_frees: "ok p \<Longrightarrow> k \<in> used p \<Longrightarrow> put p k = Some p' \<Longrightarrow> used p' = used p - {k}"

text \<open>
  A client gets identifiers (the argument is the outcome of an allocation) and puts back ones it
  holds (by position).
\<close>

datatype client_op = Get bool | Put nat

fun client :: "(bool \<Rightarrow> 'p \<Rightarrow> 'k option \<times> 'p) \<Rightarrow> ('p \<Rightarrow> 'k \<Rightarrow> 'p option) \<Rightarrow>
  client_op list \<Rightarrow> 'k list \<Rightarrow> 'p \<Rightarrow> ('k list \<times> 'p) option"
where
  "client get put [] held p = Some (held, p)"
| "client get put (Get mem # ops) held p =
     (case get mem p of
        (None, p) \<Rightarrow> client get put ops held p
      | (Some k, p) \<Rightarrow> client get put ops (k # held) p)"
| "client get put (Put i # ops) held p =
     (if i < length held then do {
        p \<leftarrow> put p (held ! i);
        client get put ops (take i held @ drop (Suc i) held) p
      }
      else client get put ops held p)"

lemma drop_held:
  assumes "distinct held" "i < length held"
  shows "distinct (take i held @ drop (Suc i) held)" "set (take i held @ drop (Suc i) held) = set held - {held ! i}"
proof -
  have h: "held = take i held @ held ! i # drop (Suc i) held" using assms(2) by (rule id_take_nth_drop)
  have d: "distinct (take i held @ held ! i # drop (Suc i) held)" using assms(1) h by simp
  then show "distinct (take i held @ drop (Suc i) held)" by auto
  have "set held = set (take i held) \<union> {held ! i} \<union> set (drop (Suc i) held)"
    by (subst h) auto
  then show "set (take i held @ drop (Suc i) held) = set held - {held ! i}" using d by auto
qed

context id_allocator
begin

lemma card_used: "used p' \<subseteq> insert k (used p) \<Longrightarrow> card (used p') \<le> Suc (card (used p))"
  using card_mono [of "insert k (used p)" "used p'"] by (simp add: card_insert_if split: if_splits)

lemma holders_unique:
  "ok p \<Longrightarrow> distinct held \<Longrightarrow> set held \<subseteq> used p \<Longrightarrow> card (used p) + length ops \<le> limit \<Longrightarrow>
    \<exists>held' p'. client get put ops held p = Some (held', p') \<and> ok p' \<and> distinct held' \<and> set held' \<subseteq> used p'"
proof (induction ops arbitrary: held p)
  case Nil
  then show ?case by simp
next
  case (Cons op ops)
  show ?case
  proof (cases op)
    case (Get mem)
    obtain r p1 where g: "get mem p = (r, p1)" by fastforce
    have l: "ok p1" "case r of None \<Rightarrow> used p1 = used p | Some k \<Rightarrow> k \<notin> used p \<and> used p1 = insert k (used p)"
      using get_law [OF Cons.prems(1) _ g] Cons.prems(4) by auto
    have "card (used p1) \<le> Suc (card (used p))"
      using l(2) by (intro card_used [where k = "the r"]) (auto split: option.splits)
    then have b: "card (used p1) + length ops \<le> limit" using Cons.prems(4) by simp
    show ?thesis
    proof (cases r)
      case None
      then show ?thesis using Cons.IH [OF l(1) Cons.prems(2) _ b] Cons.prems(3) l(2) Get g by simp
    next
      case (Some k)
      then show ?thesis using Cons.IH [OF l(1), of "k # held"] Cons.prems(2,3) l(2) b Get g by auto
    qed
  next
    case (Put i)
    show ?thesis
    proof (cases "i < length held")
      case True
      then have "held ! i \<in> used p" using Cons.prems(3) by (meson nth_mem subsetD)
      then obtain p1 where p1: "put p (held ! i) = Some p1" "ok p1" "used p - {held ! i} \<subseteq> used p1" "used p1 \<subseteq> used p"
        using put_law [OF Cons.prems(1)] by blast
      note d = drop_held [OF Cons.prems(2) True]
      have "set (take i held @ drop (Suc i) held) \<subseteq> used p1" unfolding d(2) using Cons.prems(3) p1(3) by blast
      moreover have "card (used p1) + length ops \<le> limit"
        using card_mono [OF finite p1(4)] Cons.prems(4) by simp
      ultimately show ?thesis using Cons.IH [OF p1(2) d(1)] p1(1) True Put by simp
    next
      case False
      then show ?thesis using Cons.IH [OF Cons.prems(1-3)] Cons.prems(4) Put by simp
    qed
  qed
qed

end

context exact_allocator
begin

lemma holders_exact:
  "ok p \<Longrightarrow> distinct held \<Longrightarrow> set held = used p \<Longrightarrow> length held + length ops \<le> limit \<Longrightarrow>
    \<exists>held' p'. client get put ops held p = Some (held', p') \<and> ok p' \<and> distinct held' \<and> set held' = used p'"
proof (induction ops arbitrary: held p)
  case Nil
  then show ?case by simp
next
  case (Cons op ops)
  have c: "card (used p) = length held" using Cons.prems(2,3) distinct_card by metis
  show ?case
  proof (cases op)
    case (Get mem)
    obtain r p1 where g: "get mem p = (r, p1)" by fastforce
    have l: "ok p1" "case r of None \<Rightarrow> used p1 = used p | Some k \<Rightarrow> k \<notin> used p \<and> used p1 = insert k (used p)"
      using get_law [OF Cons.prems(1) _ g] Cons.prems(4) c by auto
    show ?thesis
    proof (cases r)
      case None
      then show ?thesis using Cons.IH [OF l(1) Cons.prems(2)] Cons.prems(3,4) l(2) Get g by simp
    next
      case (Some k)
      then show ?thesis using Cons.IH [OF l(1), of "k # held"] Cons.prems(2-4) l(2) Get g by auto
    qed
  next
    case (Put i)
    show ?thesis
    proof (cases "i < length held")
      case True
      then have m: "held ! i \<in> used p" using Cons.prems(3) by (metis nth_mem)
      then obtain p1 where p1: "put p (held ! i) = Some p1" "ok p1" using put_law [OF Cons.prems(1)] by blast
      note d = drop_held [OF Cons.prems(2) True]
      have "set (take i held @ drop (Suc i) held) = used p1"
        unfolding d(2) using Cons.prems(3) put_frees [OF Cons.prems(1) m p1(1)] by simp
      then show ?thesis using Cons.IH [OF p1(2) d(1)] p1(1) True Put Cons.prems(4) by simp
    next
      case False
      then show ?thesis using Cons.IH [OF Cons.prems(1-3)] Cons.prems(4) Put by simp
    qed
  qed
qed

end

text \<open>
  The pools meet the contract. Where \<^verbatim>\<open>spc_get_id\<close> finds no identifier, what it returns is not one;
  \<open>spc_get\<close> is its result read that way.
\<close>

definition npc_inv :: "u32 \<Rightarrow> Npcpool \<Rightarrow> bool" where
  "npc_inv maxid p \<longleftrightarrow> npc_ok p \<and> np_maxid p = maxid \<and> length (np_map p) * 8 \<le> max 256 (unat maxid + 8)"

definition spc_get :: "bool \<Rightarrow> Spcpool \<Rightarrow> u32 option \<times> Spcpool" where
  "spc_get mem p = (let (k, p') = spc_get_id mem p in (if length (sp_map p') \<le> free_byte (sp_map p) then None else Some k, p'))"

interpretation npc: exact_allocator npc_ids "npc_inv maxid" "2 ^ 31" npc_get_id npc_put_id for maxid
proof unfold_locales
  show "npc_inv maxid p' \<and> (case r of None \<Rightarrow> npc_ids p' = npc_ids p | Some k \<Rightarrow> k \<notin> npc_ids p \<and> npc_ids p' = insert k (npc_ids p))"
    if "npc_inv maxid p" "card (npc_ids p) < 2 ^ 31" "npc_get_id mem p = (r, p')" for p mem r p'
    using npc_get_id_ok [OF _ that(2,3)] that(1) by (auto simp: npc_inv_def split: option.splits)
  show "\<exists>p'. npc_put_id p k = Some p' \<and> npc_inv maxid p' \<and> npc_ids p - {k} \<subseteq> npc_ids p' \<and> npc_ids p' \<subseteq> npc_ids p"
    if "npc_inv maxid p" "k \<in> npc_ids p" for p k
    using npc_put_id_ok [of p k] that by (auto simp: npc_inv_def npc_put_id_def drop_id_def split: if_splits)
  show "npc_ids p' = npc_ids p - {k}"
    if "npc_inv maxid p" "k \<in> npc_ids p" "npc_put_id p k = Some p'" for p k p'
    using npc_put_id_ok [of p k] that by (auto simp: npc_inv_def)
qed

interpretation spc: id_allocator spc_ids spc_ok "2 ^ 31" spc_get spc_put_id
proof unfold_locales
  show "spc_ok p' \<and> (case r of None \<Rightarrow> spc_ids p' = spc_ids p | Some k \<Rightarrow> k \<notin> spc_ids p \<and> spc_ids p' = insert k (spc_ids p))"
    if g: "spc_ok p" "card (spc_ids p) < 2 ^ 31" "spc_get mem p = (r, p')" for p mem r p'
  proof -
    obtain k where k: "spc_get_id mem p = (k, p')" "r = (if length (sp_map p') \<le> free_byte (sp_map p) then None else Some k)"
      using g(3) by (auto simp: spc_get_def Let_def split: prod.splits)
    show ?thesis using spc_get_id_ok [OF g(1,2) k(1)] k(2) by (auto split: if_splits)
  qed
  show "\<exists>p'. spc_put_id p k = Some p' \<and> spc_ok p' \<and> spc_ids p - {k} \<subseteq> spc_ids p' \<and> spc_ids p' \<subseteq> spc_ids p"
    if "spc_ok p" "k \<in> spc_ids p" for p k
    using that spc_put_id_ok [of p k] by (cases "k < sp_maxid p") (auto simp: spc_put_id_def)
qed

section \<open>Tags and fids of a client\<close>

lemma npc_create_pool_ok:
  assumes "npc_create_pool maxid m1 m2 = Inr p"
  shows "npc_inv maxid p" "npc_ids p = {}"
  using assms by (auto simp: npc_create_pool_def npc_inv_def npc_ok_def map_ok_def npc_ids_def ids_def split: if_splits)

text \<open>
  C29. From a new pool, whatever a client gets and gives back, in any order and with any outcome
  of the allocations (less than \<^verbatim>\<open>2 ^ 31\<close> operations), no access is out of the map, no two
  identifiers it holds are the same, those in use are those it holds, and each is below
  \<^verbatim>\<open>maxid + 8\<close> (256 at least).
\<close>

theorem npc_ids_unique:
  assumes "npc_create_pool maxid m1 m2 = Inr p" and "length ops \<le> 2 ^ 31"
  shows "\<exists>held p'. client npc_get_id npc_put_id ops [] p = Some (held, p') \<and> distinct held \<and>
    set held = npc_ids p' \<and> (\<forall>k\<in>set held. unat k < max 256 (unat maxid + 8))"
proof -
  obtain held p' where h: "client npc_get_id npc_put_id ops [] p = Some (held, p')" "npc_inv maxid p'"
      "distinct held" "set held = npc_ids p'"
    using npc.holders_exact [of maxid p "[]" ops] npc_create_pool_ok [OF assms(1)] assms(2) by auto
  have "unat k < max 256 (unat maxid + 8)" if "k \<in> npc_ids p'" for k
    using that h(2) by (auto simp: npc_ids_def ids_def npc_inv_def)
  then show ?thesis using h by blast
qed

lemma npc_ids_unique_witness:
  "\<exists>held p'. client npc_get_id npc_put_id [Get True, Get False, Put 1, Get True] [] \<lparr>np_maxid = 0xFFFF, np_map = replicate 32 0\<rparr> =
     Some (held, p') \<and> distinct held \<and> set held = npc_ids p'"
proof -
  have "npc_create_pool 0xFFFF True True = Inr \<lparr>np_maxid = 0xFFFF, np_map = replicate 32 0\<rparr>" by (simp add: npc_create_pool_def)
  from npc_ids_unique [OF this, of "[Get True, Get False, Put 1, Get True]"] show ?thesis by (simp del: client.simps) blast
qed

text \<open>
  The bound is reached: the pool of tags, made for identifiers below \<^verbatim>\<open>NOTAG\<close>, grows to
  \<^verbatim>\<open>NOTAG / 8 + 1\<close> bytes, and when all other tags are in use it hands out \<^verbatim>\<open>NOTAG\<close> itself.
\<close>

theorem npc_get_id_notag:
  shows "np_map (snd (npc_get_id True \<lparr>np_maxid = ucast NOTAG, np_map = replicate 8160 0xFF\<rparr>)) =
      replicate 8160 0xFF @ 1 # replicate 31 0 \<and>
    fst (npc_get_id mem \<lparr>np_maxid = ucast NOTAG, np_map = replicate 8191 0xFF @ [0x7F]\<rparr>) = Some (ucast NOTAG)"
proof -
  have notag: "(ucast NOTAG :: u32) = 0xFFFF" by code_simp
  have f: "free_byte (replicate n 0xFF @ bs) = n + free_byte bs" for n bs
    by (induction n) auto
  have "grow_map (ucast NOTAG) True (replicate 8160 0xFF) = Some (replicate 8160 0xFF @ replicate 32 0)"
    by (simp add: grow_map_def notag del: replicate.simps)
  moreover have "replicate 32 0 = 0 # replicate 31 (0 :: u8)" by (simp flip: replicate_Suc)
  ultimately show ?thesis
    unfolding notag using f [of 8160 "[]"] f [of 8191 "[0x7F]"]
    by (simp add: npc_get_id_def Let_def take_id_def nth_append list_update_append m2id_def)
qed

text \<open>
  When its identifiers are exhausted, \<^verbatim>\<open>spc_get_id\<close> returns the size of the map, an
  identifier that somebody holds, as if it were free.
\<close>

theorem spc_get_id_exhausted:
  assumes "spc_ok p" and "\<forall>b\<in>set (sp_map p). b = 0xFF"
    and "\<not> mem \<or> sp_maxid p \<le> of_nat (length (sp_map p) * 8)"
  shows "spc_get_id mem p = (of_nat (length (sp_map p)), p) \<and> of_nat (length (sp_map p)) \<in> spc_ids p"
proof -
  have full: "length (sp_map p) \<le> free_byte (sp_map p)" using assms(2) by (simp add: free_byte_full)
  have "grow_map (sp_maxid p) mem (sp_map p) = None"
    using assms(3) by (auto simp: grow_map_def Let_def mult.commute)
  then have "next_map (sp_maxid p) mem (sp_map p) = sp_map p" using full by (simp add: next_map_def)
  moreover have "of_nat (length (sp_map p)) \<in> spc_ids p"
  proof -
    have l: "32 \<le> length (sp_map p)" "length (sp_map p) < 2 ^ 32" using assms(1) by (simp_all add: spc_ok_def map_ok_def)
    then have "unat (of_nat (length (sp_map p)) :: u32) = length (sp_map p)" by (simp add: unsigned_of_nat take_bit_nat_eq_self)
    moreover have "length (sp_map p) div 8 < length (sp_map p)" using l(1) by linarith
    then have "sp_map p ! (length (sp_map p) div 8) = 0xFF" using assms(2) by simp
    moreover have "bit (0xFF :: u8) (n mod 8)" for n using bit_0xFF by simp
    ultimately show ?thesis using l(1) by (auto simp: spc_ids_def ids_def)
  qed
  ultimately show ?thesis using full by (simp add: spc_get_id_next)
qed

lemma spc_get_id_exhausted_witness:
  "spc_get_id False \<lparr>sp_maxid = 0xFFFF, sp_map = replicate 32 0xFF\<rparr> = (32, \<lparr>sp_maxid = 0xFFFF, sp_map = replicate 32 0xFF\<rparr>)"
  using spc_get_id_exhausted [of "\<lparr>sp_maxid = 0xFFFF, sp_map = replicate 32 0xFF\<rparr>" False]
  by (simp add: spc_ok_def map_ok_def)

end
