(* ===== verification/Strutil.thy ===== *)
theory Strutil
  imports NpState
begin

text \<open>
  The string library \<^verbatim>\<open>libstrutil\<close>: windows of a text (\<^verbatim>\<open>cutstr.c\<close>), which the read
  operations of the file servers are built on, quoting (\<^verbatim>\<open>quotestrdup.c\<close>,
  \<^verbatim>\<open>unquotestr.c\<close>) and splitting (\<^verbatim>\<open>tokenize.c\<close>), which arguments and environments of
  remote processes go through; and the read operations of the files \<^verbatim>\<open>state\<close>, \<^verbatim>\<open>pwent\<close> and
  \<^verbatim>\<open>grent\<close> that print a list through a window. The result \<^verbatim>\<open>None\<close> is an access out of bounds.
\<close>

section \<open>Windows\<close>

definition memmove :: "u8 list \<Rightarrow> int \<Rightarrow> u8 list \<Rightarrow> int \<Rightarrow> int \<Rightarrow> u8 list option" where
  "memmove d i s j n =
     (if i < 0 \<or> j < 0 \<or> n < 0 \<or> int (length d) < i + n \<or> int (length s) < j + n then None
      else Some (take (nat i) d @ take (nat n) (drop (nat j) s) @ drop (nat (i + n)) d))"

definition cutbuf ::
  "u8 list \<Rightarrow> int \<Rightarrow> int \<Rightarrow> u8 list option \<Rightarrow> int \<Rightarrow> int \<Rightarrow> (int \<times> u8 list) option"
where
  "cutbuf target toffset tcount src soffset slen =
     (case src of
        None \<Rightarrow> Some (0, target)
      | Some src \<Rightarrow>
          if toffset > soffset + slen then Some (0, target)
          else if soffset > toffset + tcount then Some (0, target)
          else
            (let b = soffset;
                 b = (if b < toffset then toffset else b);
                 e = soffset + slen;
                 e = (if e > toffset + tcount then toffset + tcount else e)
             in do {
                  target \<leftarrow> memmove target (b - toffset) src (b - soffset) (e - b);
                  Some (e - b, target)
                }))"

definition cutstr :: "u8 list \<Rightarrow> int \<Rightarrow> int \<Rightarrow> cstring option \<Rightarrow> int \<Rightarrow> (int \<times> u8 list) option" where
  "cutstr target toffset tcount src soffset =
     (case src of
        None \<Rightarrow> Some (0, target)
      | Some s \<Rightarrow> cutbuf target toffset tcount src soffset (int (length s)))"

section \<open>Lists printed through a window\<close>

text \<open>The decimal conversions of \<^verbatim>\<open>printf\<close>.\<close>

fun dec_nat :: "nat \<Rightarrow> cstring" where
  "dec_nat n = (if n < 10 then [] else dec_nat (n div 10)) @ [of_nat (48 + n mod 10)]"

definition dec_int :: "int \<Rightarrow> cstring" where
  "dec_int i = (if i < 0 then 45 # dec_nat (nat (- i)) else dec_nat (nat i))"

record Node =
  nd_name :: cstring
  nd_addr :: cstring
  nd_arch :: cstring
  nd_status :: cstring
  nd_numjobs :: int

record Spgroup =
  sg_gname :: cstring
  sg_gid :: u32

record Spuser =
  su_uname :: cstring
  su_uid :: u32
  su_dfltgroup :: Spgroup
  su_groups :: "Spgroup list"

text \<open>
  The loop of \<^verbatim>\<open>state_read\<close> in \<^verbatim>\<open>statfs.c\<close>; the offset of the request, 64 bits wide, and its
  count are converted to \<^verbatim>\<open>int\<close> at the call of \<^verbatim>\<open>cutbuf\<close>.
\<close>

definition int_of_u64 :: "u64 \<Rightarrow> int" where
  "int_of_u64 offset = sint (ucast offset :: u32)"

definition node_line :: "Node \<Rightarrow> cstring" where
  "node_line nd = take 8191
     (nd_name nd @ [9] @ nd_addr nd @ [9] @ nd_arch nd @ [9] @ nd_status nd @ [9] @ dec_int (nd_numjobs nd) @ [10])"

fun state_read_loop :: "Node list \<Rightarrow> u64 \<Rightarrow> u32 \<Rightarrow> u8 list \<Rightarrow> int \<Rightarrow> int \<Rightarrow> (int \<times> u8 list) option" where
  "state_read_loop [] offset count data ret boff = Some (ret, data)"
| "state_read_loop (nd # nodes) offset count data ret boff = do {
     let buf = node_line nd;
     let blen = int (length buf);
     (n, data) \<leftarrow> cutbuf data (int_of_u64 offset) (sint count) (Some buf) boff blen;
     state_read_loop nodes offset count data (ret + n) (boff + blen)
   }"

definition state_read :: "Node list \<Rightarrow> u64 \<Rightarrow> u32 \<Rightarrow> u8 list \<Rightarrow> (int \<times> u8 list) option" where
  "state_read nodes offset count data = state_read_loop nodes offset count data 0 0"

text \<open>
  \<^verbatim>\<open>grent_read\<close> and \<^verbatim>\<open>pwent_read\<close> of \<^verbatim>\<open>xcpufs.c\<close>, which assign to the result where
  \<^verbatim>\<open>state_read\<close> adds (the code has \<^verbatim>\<open>ret =+ cutbuf(...)\<close>). The line of a group is cut to
  its buffer by \<^verbatim>\<open>snprintf\<close>; the line of a user is printed by \<^verbatim>\<open>sprintf\<close>, which writes past its
  buffer when the line is too long. \<open>mem\<close> is the outcome of the allocations; the second result
  is the error set.
\<close>

definition group_line :: "Spgroup \<Rightarrow> cstring" where
  "group_line g = take (length (sg_gname g) + 7) (sg_gname g @ [58] @ dec_nat (unat (sg_gid g)) @ [10])"

fun grent_loop ::
  "bool \<Rightarrow> Spgroup list \<Rightarrow> u64 \<Rightarrow> u32 \<Rightarrow> u8 list \<Rightarrow> int \<Rightarrow> int \<Rightarrow> (int \<times> (cstring \<times> int) option \<times> u8 list) option"
where
  "grent_loop mem [] offset count data ret boff = Some (ret, None, data)"
| "grent_loop mem (g # gs) offset count data ret boff =
     (if \<not> mem then Some (- 1, Some (Ennomem, ENOMEM), data)
      else do {
        let buf = group_line g;
        let blen = int (length buf);
        (n, data) \<leftarrow> cutbuf data (int_of_u64 offset) (sint count) (Some buf) boff blen;
        grent_loop mem gs offset count data n (boff + blen)
      })"

definition grent_read ::
  "bool \<Rightarrow> Spgroup list \<Rightarrow> u64 \<Rightarrow> u32 \<Rightarrow> u8 list \<Rightarrow> (int \<times> (cstring \<times> int) option \<times> u8 list) option"
where
  "grent_read mem gs offset count data =
     (if gs = [] then Some (0, Some (cstr ''userpool empty: no groups'', EIO), data)
      else grent_loop mem gs offset count data 0 0)"

fun group_list :: "bool \<Rightarrow> Spgroup list \<Rightarrow> cstring" where
  "group_list first [] = []"
| "group_list first (g # gs) = (if first then [58] else [44]) @ sg_gname g @ group_list False gs"

definition user_line :: "Spuser \<Rightarrow> cstring" where
  "user_line u = su_uname u @ [58] @ dec_nat (unat (su_uid u)) @ [58] @ dec_nat (unat (sg_gid (su_dfltgroup u))) @
     group_list True (su_groups u) @ [10]"

definition user_blen :: "Spuser \<Rightarrow> nat" where
  "user_blen u = length (su_uname u) + 12 + sum_list (map (\<lambda>g. length (sg_gname g) + 1) (su_groups u)) + 2"

fun pwent_loop ::
  "bool \<Rightarrow> Spuser list \<Rightarrow> u64 \<Rightarrow> u32 \<Rightarrow> u8 list \<Rightarrow> int \<Rightarrow> int \<Rightarrow> (int \<times> (cstring \<times> int) option \<times> u8 list) option"
where
  "pwent_loop mem [] offset count data ret boff = Some (ret, None, data)"
| "pwent_loop mem (u # us) offset count data ret boff =
     (if \<not> mem then Some (- 1, Some (Ennomem, ENOMEM), data)
      else if user_blen u < length (user_line u) + 1 then None
      else do {
        let buf = user_line u;
        let blen = int (length buf);
        (n, data) \<leftarrow> cutbuf data (int_of_u64 offset) (sint count) (Some buf) boff blen;
        pwent_loop mem us offset count data n (boff + blen)
      })"

definition pwent_read ::
  "bool \<Rightarrow> Spuser list \<Rightarrow> u64 \<Rightarrow> u32 \<Rightarrow> u8 list \<Rightarrow> (int \<times> (cstring \<times> int) option \<times> u8 list) option"
where
  "pwent_read mem us offset count data =
     (if us = [] then Some (0, Some (cstr ''userpool empty: no users'', EIO), data)
      else pwent_loop mem us offset count data 0 0)"

section \<open>Quoting\<close>

definition blank :: "u8 \<Rightarrow> bool" where
  "blank c \<longleftrightarrow> c = 32 \<or> c = 9 \<or> c = 10"

text \<open>
  \<^verbatim>\<open>quotestrdup\<close>: the first loop decides whether to quote and counts the quotes, the second
  copies. The result is the new string, or \<^verbatim>\<open>NULL\<close> when there is no memory for it.
\<close>

fun quote_scan :: "cstring \<Rightarrow> bool \<times> nat \<Rightarrow> bool \<times> nat" where
  "quote_scan [] (doquote, nquot) = (doquote, nquot)"
| "quote_scan (c # s) (doquote, nquot) =
     (if c = 32 \<or> c = 9 \<or> c = 39 then quote_scan s (True, if c = 39 then nquot + 1 else nquot)
      else quote_scan s (doquote, nquot))"

fun quote_copy :: "cstring \<Rightarrow> cstring" where
  "quote_copy [] = []"
| "quote_copy (c # s) = (if c = 39 then [39, c] else [c]) @ quote_copy s"

definition quotestrdup :: "bool \<Rightarrow> cstring \<Rightarrow> cstring option option" where
  "quotestrdup mem str =
     (let (doquote, nquot) = quote_scan str (False, 0) in
      if \<not> doquote then Some (if mem then Some str else None)
      else
        (let n = length str + 2 + nquot; ret = 39 # quote_copy str @ [39] in
         if \<not> mem then Some None
         else if n + 1 < length ret + 1 then None
         else Some (Some ret)))"

text \<open>
  \<^verbatim>\<open>unquotestr\<close> works in place: in the memory \<open>m\<close> it turns the word at \<open>str\<close> into a string of its
  own (the result, \<^verbatim>\<open>NULL\<close> for a quote that does not end) and finds where the next may begin.
\<close>

function word_end :: "u8 list \<Rightarrow> nat \<Rightarrow> nat option" where
  "word_end m s =
     (if length m \<le> s then None
      else if blank (m ! s) \<or> m ! s = 0 then Some s
      else word_end m (Suc s))"
  by pat_completeness auto
termination by (relation "measure (\<lambda>(m, s). length m - s)") auto

function unquote_loop :: "u8 list \<Rightarrow> nat \<Rightarrow> nat \<Rightarrow> (u8 list \<times> nat \<times> nat) option" where
  "unquote_loop m s t =
     (if length m \<le> t \<or> length m \<le> s then None
      else if m ! t = 0 then Some (m, s, t)
      else if m ! t = 39 then
        (if length m \<le> Suc t then None
         else if m ! Suc t \<noteq> 39 then Some (m, s, t)
         else unquote_loop (m[s := m ! Suc t]) (Suc s) (t + 2))
      else unquote_loop (m[s := m ! t]) (Suc s) (Suc t))"
  by pat_completeness auto
termination by (relation "measure (\<lambda>(m, s, t). length m - t)") auto

definition unquotestr :: "u8 list \<Rightarrow> nat \<Rightarrow> (nat option \<times> nat \<times> u8 list) option" where
  "unquotestr m str =
     (if length m \<le> str then None
      else if m ! str \<noteq> 39 then do {
        s \<leftarrow> word_end m str;
        Some (if m ! s \<noteq> 0 then (Some str, Suc s, m[s := 0]) else (Some str, s, m))
      }
      else do {
        (m, s, t) \<leftarrow> unquote_loop m str (Suc str);
        let m = m[s := 0];
        Some (if m ! t \<noteq> 39 then (None, t, m) else (Some str, Suc t, m))
      })"

section \<open>Splitting\<close>

function skip_blank :: "u8 list \<Rightarrow> nat \<Rightarrow> nat option" where
  "skip_blank m p =
     (if length m \<le> p then None
      else if blank (m ! p) then skip_blank m (Suc p)
      else Some p)"
  by pat_completeness auto
termination by (relation "measure (\<lambda>(m, p). length m - p)") auto

text \<open>
  The words found are positions in the copy of the string; what the caller sees are the strings
  there at the end. \<open>n\<close> is the room for them, counted from the blanks. The code returns the
  positive error numbers, which its callers do not tell from a number of words.
\<close>

function tokenize_loop :: "nat \<Rightarrow> u8 list \<Rightarrow> nat \<Rightarrow> nat list \<Rightarrow> (int + cstring list) option" where
  "tokenize_loop n m p toks =
     (if length m \<le> p then None
      else if m ! p = 0 then Some (Inr (map (\<lambda>t. c_string (drop t m)) toks))
      else if n \<le> length toks then Some (Inl EIO)
      else do {
        (t, e, m) \<leftarrow> unquotestr m p;
        (case t of
           None \<Rightarrow> Some (Inl EIO)
         | Some t \<Rightarrow> do {
             p \<leftarrow> skip_blank m e;
             tokenize_loop n m p (toks @ [t])
           })
      })"
  by pat_completeness auto
termination by (relation "measure (\<lambda>(n, m, p, toks). n - length toks)") auto

definition tokenize :: "bool \<Rightarrow> cstring \<Rightarrow> (int + cstring list) option" where
  "tokenize mem s =
     (let s = dropWhile blank s; n = 1 + length (filter blank s) in
      if \<not> mem then Some (Inl ENOMEM) else tokenize_loop n (s @ [0]) 0 [])"

declare word_end.simps [simp del] unquote_loop.simps [simp del] skip_blank.simps [simp del]
  tokenize_loop.simps [simp del] dec_nat.simps [simp del]

section \<open>Reading a list through a window\<close>

text \<open>What a read of \<open>count\<close> bytes at \<open>offset\<close> gets of a text.\<close>

definition window :: "int \<Rightarrow> int \<Rightarrow> u8 list \<Rightarrow> u8 list" where
  "window offset count txt = take (nat count) (drop (nat offset) txt)"

text \<open>A buffer that holds the window of a text, and behind it what was there.\<close>

definition shows_text :: "u8 list \<Rightarrow> int \<Rightarrow> int \<Rightarrow> u8 list \<Rightarrow> u8 list" where
  "shows_text data offset count txt =
     window offset count txt @ drop (length (window offset count txt)) data"

lemma shows_nothing [simp]: "shows_text data offset count [] = data"
  by (simp add: shows_text_def window_def)

lemma cutbuf_append:
  assumes "0 \<le> offset" "0 \<le> count" "nat count \<le> length data"
  shows "cutbuf (shows_text data offset count pre) offset count (Some s) (int (length pre)) (int (length s)) =
    Some (int (length (window offset count (pre @ s))) - int (length (window offset count pre)),
      shows_text data offset count (pre @ s))"
proof -
  define T C P S where "T = nat offset" and "C = nat count" and "P = length pre" and "S = length s"
  have o: "offset = int T" "count = int C" using assms(1,2) by (simp_all add: T_def C_def)
  have C: "C \<le> length data" using assms(3) by (simp add: C_def)
  define piece where "piece = take (C - (P - T)) (drop (T - P) s)"
  have w: "window offset count (pre @ s) = window offset count pre @ piece"
    by (simp add: window_def o piece_def P_def)
  have lw: "length (window offset count pre) = min C (P - T)" by (simp add: window_def o P_def)
  have lp: "length piece = min (C - (P - T)) (S - (T - P))" by (simp add: piece_def S_def min.commute)
  show ?thesis
  proof (cases "T > P + S \<or> P > T + C")
    case True
    then have "piece = []" using lp by fastforce
    moreover have "cutbuf (shows_text data offset count pre) offset count (Some s) (int P) (int S) =
        Some (0, shows_text data offset count pre)"
      using True by (auto simp: cutbuf_def o)
    ultimately show ?thesis using w by (simp add: shows_text_def P_def S_def)
  next
    case False
    let ?b = "max P T" and ?e = "min (P + S) (T + C)"
    have be: "?e - ?b = length piece" "?b \<le> ?e" using False lp by linarith+
    have lw': "length (window offset count pre) = P - T" using False lw by linarith
    have "drop (T - P) s = piece @ drop (C - (P - T)) (drop (T - P) s)" by (simp only: piece_def append_take_drop_id)
    then have piece: "take (?e - ?b) (drop (T - P) s) = piece" unfolding be(1) by (metis append_eq_conv_conj)
    have fits: "P - T + (?e - ?b) \<le> C" "T - P + (?e - ?b) \<le> S" using False by linarith+
    have "cutbuf (shows_text data offset count pre) offset count (Some s) (int P) (int S) =
        do { d \<leftarrow> memmove (shows_text data offset count pre) (int (P - T)) s (int (T - P)) (int (?e - ?b));
             Some (int (?e - ?b), d) }"
      using False be(2) unfolding cutbuf_def o by (simp add: Let_def of_nat_diff max_def min_def not_less) 
    moreover have "memmove (shows_text data offset count pre) (int (P - T)) s (int (T - P)) (int (?e - ?b)) =
        Some (shows_text data offset count (pre @ s))"
      using fits C lw' be(1) piece w
      by (simp add: memmove_def shows_text_def S_def nat_add_distrib add.commute)
    ultimately show ?thesis using w be(1) by (simp add: P_def S_def)
  qed
qed

lemma int_of_u64_small: "unat offset < 2 ^ 31 \<Longrightarrow> int_of_u64 offset = int (unat offset)"
proof -
  assume o: "unat offset < 2 ^ 31"
  have "(ucast offset :: u32) = of_nat (unat offset)" by simp
  then show ?thesis using o sint_of_nat_u32 [of "unat offset"] by (simp add: int_of_u64_def)
qed

lemma sint_small: "unat (count :: u32) < 2 ^ 31 \<Longrightarrow> sint count = int (unat count)"
  using sint_of_nat_u32 [of "unat count"] by simp

text \<open>The request is one that the types of the code can express: no conversion to \<^verbatim>\<open>int\<close> overflows.\<close>

definition read_fits :: "u64 \<Rightarrow> u32 \<Rightarrow> u8 list \<Rightarrow> bool" where
  "read_fits offset count data \<longleftrightarrow> unat offset + unat count < 2 ^ 31 \<and> unat count \<le> length data"

abbreviation shown :: "u64 \<Rightarrow> u32 \<Rightarrow> u8 list \<Rightarrow> u8 list \<Rightarrow> u8 list" where
  "shown offset count data \<equiv> shows_text data (int (unat offset)) (int (unat count))"

abbreviation seen :: "u64 \<Rightarrow> u32 \<Rightarrow> u8 list \<Rightarrow> u8 list" where
  "seen offset count \<equiv> window (int (unat offset)) (int (unat count))"

lemma read_line:
  assumes "read_fits offset count data"
  shows "cutbuf (shown offset count data pre) (int_of_u64 offset) (sint count) (Some s) (int (length pre)) (int (length s)) =
    Some (int (length (seen offset count (pre @ s))) - int (length (seen offset count pre)), shown offset count data (pre @ s))"
proof -
  have "unat offset < 2 ^ 31" "unat count < 2 ^ 31" "unat count \<le> length data" using assms by (simp_all add: read_fits_def)
  then show ?thesis using cutbuf_append [of "int (unat offset)" "int (unat count)" data pre s]
    by (simp add: int_of_u64_small sint_small)
qed

lemma seen_grows: "length (seen offset count pre) \<le> length (seen offset count (pre @ s))"
  by (simp add: window_def)

lemma state_read_loop_at:
  "read_fits offset count data \<Longrightarrow>
   state_read_loop nodes offset count (shown offset count data pre) (int (length (seen offset count pre))) (int (length pre)) =
     Some (int (length (seen offset count (pre @ concat (map node_line nodes)))),
       shown offset count data (pre @ concat (map node_line nodes)))"
proof (induction nodes arbitrary: pre)
  case (Cons nd nodes)
  show ?case
    using Cons.IH [OF Cons.prems, of "pre @ node_line nd"] read_line [OF Cons.prems, of pre "node_line nd"]
    by (simp add: Let_def)
qed simp

text \<open>
  C31. A read of the file \<^verbatim>\<open>state\<close> returns exactly the bytes of the listing of the nodes from the
  offset on, at most \<open>count\<close> of them: the result is their number, they are at the beginning of
  the buffer, and the rest of the buffer is as before.
\<close>

theorem state_read_window:
  assumes "read_fits offset count data"
  shows "let txt = take (unat count) (drop (unat offset) (concat (map node_line nodes)))
    in state_read nodes offset count data = Some (int (length txt), txt @ drop (length txt) data)"
  using state_read_loop_at [OF assms, of nodes "[]"]
  by (simp add: state_read_def shows_text_def window_def Let_def)

definition sample_node :: Node where
  "sample_node = \<lparr>nd_name = [110], nd_addr = [49], nd_arch = [120], nd_status = [117, 112], nd_numjobs = 3\<rparr>"

lemma state_read_window_witness:
  "state_read [sample_node, sample_node] 6 6 (replicate 10 0) = Some (6, [117, 112, 9, 51, 10, 110] @ replicate 4 0)"
proof -
  have "node_line sample_node = [110, 9, 49, 9, 120, 9, 117, 112, 9, 51, 10]"
    by (simp add: node_line_def sample_node_def dec_int_def dec_nat.simps [of 3])
  moreover have "read_fits 6 6 (replicate 10 0)" by (simp add: read_fits_def)
  ultimately show ?thesis
    using state_read_window [of 6 6 "replicate 10 0" "[sample_node, sample_node]"]
    by (simp add: Let_def)
qed

text \<open>The result of a loop that assigns: what the last line added.\<close>

lemma grent_loop_at:
  "read_fits offset count data \<Longrightarrow> gs \<noteq> [] \<Longrightarrow>
   grent_loop True gs offset count (shown offset count data pre) ret (int (length pre)) =
     Some (int (length (seen offset count (pre @ concat (map group_line gs)))) -
         int (length (seen offset count (pre @ concat (map group_line (butlast gs))))), None,
       shown offset count data (pre @ concat (map group_line gs)))"
proof (induction gs arbitrary: pre ret)
  case (Cons g gs)
  note r = read_line [OF Cons.prems(1), of pre "group_line g"]
  show ?case
  proof (cases "gs = []")
    case True
    then show ?thesis using r by (simp add: Let_def)
  next
    case False
    then show ?thesis using r Cons.IH [OF Cons.prems(1) False, of "pre @ group_line g"] by (simp add: Let_def)
  qed
qed simp

text \<open>
  \<^verbatim>\<open>grent_read\<close> puts the bytes of the listing of the groups into the buffer, but the number
  it returns is that of the last group alone (\<^verbatim>\<open>ret =+ cutbuf(...)\<close>): a reader gets less than
  there is as soon as an earlier group is in the window.
\<close>

theorem grent_read_last_only:
  assumes "read_fits offset count data" and "gs \<noteq> []"
  shows "let win = (\<lambda>gs. take (unat count) (drop (unat offset) (concat (map group_line gs))))
    in grent_read True gs offset count data =
      Some (int (length (win gs)) - int (length (win (butlast gs))), None, win gs @ drop (length (win gs)) data)"
  using grent_loop_at [OF assms, of "[]" 0] assms(2)
  by (simp add: grent_read_def shows_text_def window_def Let_def)

definition sample_groups :: "Spgroup list" where
  "sample_groups = [\<lparr>sg_gname = [97], sg_gid = 1\<rparr>, \<lparr>sg_gname = [98, 98], sg_gid = 2\<rparr>]"

lemma grent_read_last_only_witness:
  "grent_read True sample_groups 0 16 (replicate 16 0) =
    Some (5, None, [97, 58, 49, 10, 98, 98, 58, 50, 10] @ replicate 7 0)"
proof -
  have "map group_line sample_groups = [[97, 58, 49, 10], [98, 98, 58, 50, 10]]"
    by (simp add: group_line_def sample_groups_def dec_nat.simps [of 1] dec_nat.simps [of 2] dec_nat.simps [of "Suc 0"])
  then have "map group_line sample_groups = [[97, 58, 49, 10], [98, 98, 58, 50, 10]]"
    "map group_line (butlast sample_groups) = [[97, 58, 49, 10]]"
    by (simp_all add: sample_groups_def)
  moreover have "read_fits 0 16 (replicate 16 0)" "sample_groups \<noteq> []" by (simp_all add: read_fits_def sample_groups_def)
  ultimately show ?thesis
    using grent_read_last_only [of 0 16 "replicate 16 0" sample_groups] by (simp add: Let_def)
qed

text \<open>The decimal digits of the two numbers in the line of a user.\<close>

definition id_digits :: "Spuser \<Rightarrow> nat" where
  "id_digits u = length (dec_nat (unat (su_uid u))) + length (dec_nat (unat (sg_gid (su_dfltgroup u))))"

lemma group_list_length: "length (group_list first gs) = sum_list (map (\<lambda>g. length (sg_gname g) + 1) gs)"
  by (induction gs arbitrary: first) auto

lemma user_line_fits: "user_blen u < length (user_line u) + 1 \<longleftrightarrow> 10 < id_digits u"
  by (auto simp: user_blen_def user_line_def id_digits_def group_list_length)

lemma pwent_loop_at:
  "read_fits offset count data \<Longrightarrow> us \<noteq> [] \<Longrightarrow> \<forall>u\<in>set us. id_digits u \<le> 10 \<Longrightarrow>
   pwent_loop True us offset count (shown offset count data pre) ret (int (length pre)) =
     Some (int (length (seen offset count (pre @ concat (map user_line us)))) -
         int (length (seen offset count (pre @ concat (map user_line (butlast us))))), None,
       shown offset count data (pre @ concat (map user_line us)))"
proof (induction us arbitrary: pre ret)
  case (Cons u us)
  note r = read_line [OF Cons.prems(1), of pre "user_line u"]
  have f: "\<not> user_blen u < length (user_line u) + 1" using Cons.prems(3) unfolding user_line_fits by simp
  show ?case
  proof (cases "us = []")
    case True
    then show ?thesis using r f by (simp add: Let_def)
  next
    case False
    then show ?thesis using r f Cons.IH [OF Cons.prems(1) False, of "pre @ user_line u"] Cons.prems(3) by (simp add: Let_def)
  qed
qed simp

lemma pwent_loop_overflow:
  "read_fits offset count data \<Longrightarrow> \<exists>u\<in>set us. 10 < id_digits u \<Longrightarrow>
   pwent_loop True us offset count (shown offset count data pre) ret (int (length pre)) = None"
proof (induction us arbitrary: pre ret)
  case (Cons u us)
  show ?case
  proof (cases "10 < id_digits u")
    case True
    then show ?thesis unfolding user_line_fits [symmetric] by simp
  next
    case False
    then show ?thesis
      using Cons.IH [OF Cons.prems(1), of "pre @ user_line u"] Cons.prems(2) read_line [OF Cons.prems(1), of pre "user_line u"]
      unfolding user_line_fits [symmetric] by (simp add: Let_def)
  qed
qed simp

text \<open>
  \<^verbatim>\<open>pwent_read\<close> stays inside its buffers exactly when no user has more than ten digits in its
  two numbers: the buffer of a line counts twelve bytes for them and the separators, where up
  to twenty digits may come. What it returns then has the same flaw as for groups.
\<close>

theorem pwent_read_bounds:
  assumes "read_fits offset count data" and "us \<noteq> []"
  shows "pwent_read True us offset count data \<noteq> None \<longleftrightarrow> (\<forall>u\<in>set us. id_digits u \<le> 10)"
  using pwent_loop_at [OF assms, of "[]" 0] pwent_loop_overflow [OF assms(1), of us "[]" 0] assms(2)
  by (cases "\<forall>u\<in>set us. id_digits u \<le> 10") (auto simp: pwent_read_def not_le)

definition sample_user :: "u32 \<Rightarrow> Spuser" where
  "sample_user uid = \<lparr>su_uname = [117], su_uid = uid, su_dfltgroup = \<lparr>sg_gname = [103], sg_gid = 100\<rparr>, su_groups = []\<rparr>"

lemma pwent_read_bounds_witness:
  "pwent_read True [sample_user 1000] 0 16 (replicate 16 0) \<noteq> None \<and>
   pwent_read True [sample_user 4294967294] 0 16 (replicate 16 0) = None"
proof -
  have "read_fits 0 16 (replicate 16 0)" by (simp add: read_fits_def)
  moreover have "id_digits (sample_user 1000) = 7" "id_digits (sample_user 4294967294) = 13"
    by (simp_all add: id_digits_def sample_user_def dec_nat.simps)
  ultimately show ?thesis
    using pwent_read_bounds [of 0 16 "replicate 16 0" "[sample_user 1000]"]
      pwent_read_bounds [of 0 16 "replicate 16 0" "[sample_user 4294967294]"] by (simp del: not_None_eq)
qed

section \<open>Quoting and splitting\<close>

lemma quote_scan_eq:
  "quote_scan s (d, n) = (d \<or> (\<exists>c\<in>set s. c = 32 \<or> c = 9 \<or> c = 39), n + length (filter (\<lambda>c. c = 39) s))"
  by (induction s arbitrary: d n) auto

lemma quote_copy_length: "length (quote_copy s) = length s + length (filter (\<lambda>c. c = 39) s)"
  by (induction s) auto

text \<open>A string that \<^verbatim>\<open>quotestrdup\<close> puts into quotes, and what it makes of a string.\<close>

definition needs_quotes :: "cstring \<Rightarrow> bool" where
  "needs_quotes s \<longleftrightarrow> (\<exists>c\<in>set s. c = 32 \<or> c = 9 \<or> c = 39)"

definition quoted :: "cstring \<Rightarrow> cstring" where
  "quoted s = (if needs_quotes s then 39 # quote_copy s @ [39] else s)"

lemma quotestrdup_quoted: "quotestrdup mem s = Some (if mem then Some (quoted s) else None)"
  by (auto simp: quotestrdup_def quote_scan_eq quoted_def needs_quotes_def quote_copy_length)

lemma unquote_loop_ok:
  "0 \<notin> set s \<Longrightarrow> x \<noteq> [] \<Longrightarrow> rest \<noteq> [] \<Longrightarrow> hd rest \<noteq> 39 \<Longrightarrow>
    \<exists>x'. x' \<noteq> [] \<and> length x' + length s = length x + length (quote_copy s) \<and>
      unquote_loop (d @ x @ quote_copy s @ 39 # rest) (length d) (length d + length x) =
        Some (d @ s @ x' @ 39 # rest, length d + length s, length d + length s + length x')"
proof (induction s arbitrary: d x)
  case Nil
  then have "rest ! 0 \<noteq> 39" by (simp add: hd_conv_nth)
  then show ?case using Nil by (intro exI [of _ x]) (simp add: unquote_loop.simps nth_append Suc_diff_le)
next
  case (Cons c s)
  obtain y ys where x: "x = y # ys" using Cons.prems(2) by (cases x) auto
  have s: "0 \<notin> set s" "c \<noteq> 0" using Cons.prems(1) by auto
  define z where "z = (if c = 39 then ys @ [39, 39] else ys @ [c])"
  have "unquote_loop (d @ x @ quote_copy (c # s) @ 39 # rest) (length d) (length d + length x) =
      unquote_loop ((d @ [c]) @ z @ quote_copy s @ 39 # rest) (length (d @ [c])) (length (d @ [c]) + length z)"
    using s(2) x by (subst unquote_loop.simps) (simp add: z_def nth_append list_update_append)
  moreover have "z \<noteq> []" by (simp add: z_def)
  then obtain x' where "x' \<noteq> []" "length x' + length s = length z + length (quote_copy s)"
      "unquote_loop ((d @ [c]) @ z @ quote_copy s @ 39 # rest) (length (d @ [c])) (length (d @ [c]) + length z) =
        Some ((d @ [c]) @ s @ x' @ 39 # rest, length (d @ [c]) + length s, length (d @ [c]) + length s + length x')"
    using Cons.IH [OF s(1) _ Cons.prems(3,4), of z "d @ [c]"] by blast
  ultimately show ?case using x by (intro exI [of _ x']) (auto simp: z_def split: if_splits)
qed

lemma word_end_ok:
  "\<forall>c\<in>set s. \<not> blank c \<and> c \<noteq> 0 \<Longrightarrow> blank c \<or> c = 0 \<Longrightarrow> word_end (d @ s @ c # rest) (length d) = Some (length d + length s)"
proof (induction s arbitrary: d)
  case Nil
  then show ?case by (simp add: word_end.simps)
next
  case (Cons x s)
  have "word_end (d @ (x # s) @ c # rest) (length d) = word_end ((d @ [x]) @ s @ c # rest) (length (d @ [x]))"
    using Cons.prems by (subst word_end.simps) (simp add: nth_append)
  then show ?case using Cons.IH [of "d @ [x]"] Cons.prems by simp
qed

text \<open>A word that can be quoted and found again: not empty, and no newline alone.\<close>

definition ok_word :: "cstring \<Rightarrow> bool" where
  "ok_word s \<longleftrightarrow> s \<noteq> [] \<and> 0 \<notin> set s \<and> (10 \<in> set s \<longrightarrow> needs_quotes s)"

lemma ok_word_plain: "ok_word s \<Longrightarrow> \<not> needs_quotes s \<Longrightarrow> \<forall>c\<in>set s. \<not> blank c \<and> c \<noteq> 0 \<and> c \<noteq> 39"
  by (auto simp: ok_word_def needs_quotes_def blank_def)

lemma unquotestr_quoted:
  assumes "ok_word s" "needs_quotes s" "rest \<noteq> []" "hd rest \<noteq> 39"
  shows "\<exists>g. unquotestr (d @ quoted s @ rest) (length d) = Some (Some (length d), length (d @ s @ 0 # g), (d @ s @ 0 # g) @ rest)"
proof -
  have "0 \<notin> set s" using assms(1) by (simp add: ok_word_def)
  then obtain x' where x': "x' \<noteq> []"
      "unquote_loop (d @ [39] @ quote_copy s @ 39 # rest) (length d) (length d + length [39]) =
        Some (d @ s @ x' @ 39 # rest, length d + length s, length d + length s + length x')"
    using unquote_loop_ok [of s "[39]" rest d] assms(3,4) by auto
  obtain y ys where y: "x' = y # ys" using x'(1) by (cases x') auto
  have q: "d @ quoted s @ rest = d @ [39] @ quote_copy s @ 39 # rest" using assms(2) by (simp add: quoted_def)
  have u: "(d @ s @ x' @ 39 # rest)[length d + length s := 0] = d @ s @ 0 # ys @ 39 # rest"
    by (simp add: y list_update_append)
  have "unquotestr (d @ quoted s @ rest) (length d) =
      Some (Some (length d), length (d @ s @ 0 # (ys @ [39])), (d @ s @ 0 # (ys @ [39])) @ rest)"
    unfolding q using x'(2) u y by (simp add: unquotestr_def nth_append)
  then show ?thesis by blast
qed

lemma unquotestr_plain:
  assumes "ok_word s" "\<not> needs_quotes s"
  shows "unquotestr (d @ quoted s @ [0]) (length d) = Some (Some (length d), length (d @ s), (d @ s) @ [0])"
    "blank c \<Longrightarrow> unquotestr (d @ quoted s @ c # rest) (length d) = Some (Some (length d), length (d @ s @ [0]), (d @ s @ [0]) @ rest)"
proof -
  note p = ok_word_plain [OF assms]
  obtain y ys where y: "s = y # ys" "y \<noteq> 39" using assms(1) p by (cases s) (auto simp: ok_word_def)
  have q: "quoted s = s" using assms(2) by (simp add: quoted_def)
  show "unquotestr (d @ quoted s @ [0]) (length d) = Some (Some (length d), length (d @ s), (d @ s) @ [0])"
    using word_end_ok [of s 0 d "[]"] p y(2) unfolding q by (simp add: unquotestr_def nth_append y(1))
  show "unquotestr (d @ quoted s @ c # rest) (length d) = Some (Some (length d), length (d @ s @ [0]), (d @ s @ [0]) @ rest)"
    if b: "blank c"
  proof -
    have c: "c \<noteq> 0" using b by (auto simp: blank_def)
    have w: "word_end (d @ s @ c # rest) (length d) = Some (length d + length s)" using word_end_ok [of s c d rest] p b by blast
    have n: "(d @ s @ c # rest) ! (length d + length s) = c" "(d @ s @ c # rest) ! length d = y" by (simp_all add: nth_append y(1))
    have u: "(d @ s @ c # rest)[length d + length s := 0] = d @ s @ 0 # rest" by (simp add: list_update_append)
    show ?thesis using w n u c y(2) unfolding q unquotestr_def by simp
  qed
qed

text \<open>Words with a separator between them; the blank is the one for a line.\<close>

fun join_with :: "u8 \<Rightarrow> cstring list \<Rightarrow> cstring" where
  "join_with b [] = []"
| "join_with b [s] = quoted s"
| "join_with b (s # ss) = quoted s @ b # join_with b ss"

abbreviation join_words :: "cstring list \<Rightarrow> cstring" where
  "join_words \<equiv> join_with 32"

lemma quoted_head: "ok_word s \<Longrightarrow> \<exists>y ys. quoted s = y # ys \<and> \<not> blank y \<and> y \<noteq> 0"
  by (cases s) (auto simp: quoted_def ok_word_def needs_quotes_def blank_def)

lemma join_head: "ss \<noteq> [] \<Longrightarrow> \<forall>s\<in>set ss. ok_word s \<Longrightarrow> \<exists>y ys. join_with b ss = y # ys \<and> \<not> blank y \<and> y \<noteq> 0"
  using quoted_head by (cases "(b, ss)" rule: join_with.cases) fastforce+

lemma skip_blank_no: "\<not> blank x \<Longrightarrow> skip_blank (d @ x # rest) (length d) = Some (length d)"
  by (subst skip_blank.simps) simp

lemma skip_blank_yes: "blank x \<Longrightarrow> skip_blank (d @ x # rest) (length d) = skip_blank ((d @ [x]) @ rest) (length (d @ [x]))"
  by (subst skip_blank.simps) simp

lemma c_string_at: "0 \<notin> set s \<Longrightarrow> c_string (s @ 0 # r) = s"
  by (simp add: c_string_def takeWhile_append)

text \<open>One word: \<open>k\<close> is what stands in its place afterwards, up to the next word.\<close>

lemma tokenize_word:
  assumes "ok_word s" "\<forall>s\<in>set ss. ok_word s" and b: "blank b"
  shows "\<exists>k e m. unquotestr (d @ join_with b (s # ss) @ [0]) (length d) = Some (Some (length d), e, m) \<and>
    skip_blank m e = Some (length (d @ k)) \<and> m = d @ k @ join_with b ss @ [0] \<and>
    c_string (k @ [0]) = s \<and> (0 \<in> set k \<or> ss = [])"
proof -
  have s0: "0 \<notin> set s" using assms(1) by (simp add: ok_word_def)
  show ?thesis
  proof (cases "ss = []")
    case True
    show ?thesis
    proof (cases "needs_quotes s")
      case q: True
      obtain g where g: "unquotestr (d @ quoted s @ [0]) (length d) = Some (Some (length d), length (d @ s @ 0 # g), (d @ s @ 0 # g) @ [0])"
        using unquotestr_quoted [OF assms(1) q, of "[0]" d] by auto
      show ?thesis
        using g True s0 skip_blank_no [of 0 "d @ s @ 0 # g" "[]"] c_string_at [OF s0]
        by (intro exI [of _ "s @ 0 # g"]) (auto simp: blank_def)
    next
      case False
      show ?thesis
        using unquotestr_plain(1) [OF assms(1) False, of d] True s0 skip_blank_no [of 0 "d @ s" "[]"] c_string_at [OF s0, of "[]"]
        by (intro exI [of _ s]) (auto simp: blank_def)
    qed
  next
    case False
    then obtain y ys where y: "join_with b ss = y # ys" "\<not> blank y" using join_head [OF _ assms(2)] by blast
    have b39: "b \<noteq> 39" using b by (auto simp: blank_def)
    have j: "join_with b (s # ss) = quoted s @ b # join_with b ss" using False by (cases ss) auto
    show ?thesis
    proof (cases "needs_quotes s")
      case q: True
      obtain g where g: "unquotestr (d @ quoted s @ b # join_with b ss @ [0]) (length d) =
          Some (Some (length d), length (d @ s @ 0 # g), (d @ s @ 0 # g) @ b # join_with b ss @ [0])"
        using unquotestr_quoted [OF assms(1) q, of "b # join_with b ss @ [0]" d] b39 by auto
      have "skip_blank ((d @ s @ 0 # g) @ b # join_with b ss @ [0]) (length (d @ s @ 0 # g)) = Some (length (d @ s @ 0 # g @ [b]))"
        using skip_blank_yes [OF b, of "d @ s @ 0 # g" "join_with b ss @ [0]"] skip_blank_no [OF y(2), of "(d @ s @ 0 # g) @ [b]" "ys @ [0]"] y(1)
        by simp
      then show ?thesis
        using g j c_string_at [OF s0] by (intro exI [of _ "s @ 0 # g @ [b]"]) simp
    next
      case q: False
      have "skip_blank ((d @ s @ [0]) @ join_with b ss @ [0]) (length (d @ s @ [0])) = Some (length (d @ s @ [0]))"
        using skip_blank_no [OF y(2), of "d @ s @ [0]" "ys @ [0]"] y(1) by simp
      then show ?thesis
        using unquotestr_plain(2) [OF assms(1) q b, of d "join_with b ss @ [0]"] j c_string_at [OF s0]
        by (intro exI [of _ "s @ [0]"]) simp
    qed
  qed
qed

lemma c_string_append: "0 \<in> set xs \<Longrightarrow> c_string (xs @ ys) = c_string xs"
  unfolding c_string_def by (rule takeWhile_append1) auto

lemma tokenize_loop_ok:
  "blank b \<Longrightarrow> \<forall>s\<in>set ss. ok_word s \<Longrightarrow> length toks + length ss \<le> n \<Longrightarrow> \<forall>t\<in>set toks. 0 \<in> set (drop t d) \<or> (ss = [] \<and> t \<le> length d) \<Longrightarrow>
    tokenize_loop n (d @ join_with b ss @ [0]) (length d) toks =
      Some (Inr (map (\<lambda>t. c_string (drop t (d @ [0]))) toks @ ss))"
proof (induction ss arbitrary: d toks)
  case Nil
  then show ?case by (simp add: tokenize_loop.simps nth_append)
next
  case (Cons s ss)
  obtain k e m where k: "unquotestr (d @ join_with b (s # ss) @ [0]) (length d) = Some (Some (length d), e, m)"
      "skip_blank m e = Some (length (d @ k))" "m = d @ k @ join_with b ss @ [0]" "c_string (k @ [0]) = s" "0 \<in> set k \<or> ss = []"
    using tokenize_word [of s ss b d] Cons.prems(1,2) by auto
  obtain y ys where y: "join_with b (s # ss) = y # ys" "y \<noteq> 0" using join_head [of "s # ss" b] Cons.prems(2) by auto
  have t0: "0 \<in> set (drop t d)" if "t \<in> set toks" for t using Cons.prems(4) that by auto
  have "tokenize_loop n (d @ join_with b (s # ss) @ [0]) (length d) toks = tokenize_loop n m (length (d @ k)) (toks @ [length d])"
    using k(1,2) y Cons.prems(3) by (subst tokenize_loop.simps) (simp add: nth_append)
  also have "\<dots> = tokenize_loop n ((d @ k) @ join_with b ss @ [0]) (length (d @ k)) (toks @ [length d])"
    using k(3) by simp
  also have "\<dots> = Some (Inr (map (\<lambda>t. c_string (drop t ((d @ k) @ [0]))) (toks @ [length d]) @ ss))"
    using Cons.prems k(5) t0 by (intro Cons.IH) auto
  also have "map (\<lambda>t. c_string (drop t ((d @ k) @ [0]))) (toks @ [length d]) = map (\<lambda>t. c_string (drop t (d @ [0]))) toks @ [s]"
    using t0 k(4) c_string_append by (auto intro!: map_cong)
  finally show ?case by simp
qed

lemma blanks_join: "blank b \<Longrightarrow> length ss \<le> 1 + length (filter blank (join_with b ss))"
  by (induction b ss rule: join_with.induct) auto

lemma tokenize_join:
  assumes "blank b" and words: "\<forall>s\<in>set ss. ok_word s"
  shows "tokenize True (join_with b ss) = Some (Inr ss)"
proof -
  have "dropWhile blank (join_with b ss) = join_with b ss"
    using join_head [OF _ words, of b] by (cases "ss = []") auto
  then have "tokenize True (join_with b ss) = tokenize_loop (1 + length (filter blank (join_with b ss))) ([] @ join_with b ss @ [0]) (length ([] :: u8 list)) []"
    by (simp add: tokenize_def Let_def)
  also have "\<dots> = Some (Inr ss)"
    using tokenize_loop_ok [OF assms, of "[]" "1 + length (filter blank (join_with b ss))" "[]"] blanks_join [OF assms(1), of ss] by simp
  finally show ?thesis .
qed

lemma join_with_nonzero: "b \<noteq> 0 \<Longrightarrow> \<forall>s\<in>set ss. ok_word s \<Longrightarrow> 0 \<notin> set (join_with b ss)"
proof -
  have q: "0 \<notin> set s \<Longrightarrow> 0 \<notin> set (quote_copy s)" for s by (induction s) auto
  show "b \<noteq> 0 \<Longrightarrow> \<forall>s\<in>set ss. ok_word s \<Longrightarrow> 0 \<notin> set (join_with b ss)"
    by (induction b ss rule: join_with.induct) (auto simp: quoted_def ok_word_def dest: q)
qed

text \<open>
  C30. Splitting undoes quoting: the words of an argument list, each quoted by \<^verbatim>\<open>quotestrdup\<close>, with
  blanks between them, come back from \<^verbatim>\<open>tokenize\<close> as they were, whatever blanks and quotes they
  hold, provided each is not empty and does not have a newline as its only reason to be quoted.
\<close>

theorem tokenize_quoted:
  assumes "\<forall>s\<in>set ss. ok_word s"
  shows "(\<forall>s. quotestrdup True s = Some (Some (quoted s))) \<and> tokenize True (join_words ss) = Some (Inr ss)"
  using tokenize_join [OF _ assms, of 32] by (simp add: quotestrdup_quoted blank_def)

lemma tokenize_quoted_witness: "tokenize True (join_words [[97, 39, 32], [98, 10, 9], [99]]) = Some (Inr [[97, 39, 32], [98, 10, 9], [99]])"
  using tokenize_quoted [of "[[97, 39, 32], [98, 10, 9], [99]]"] by (simp add: ok_word_def needs_quotes_def)

text \<open>
  The provisos are needed: an empty word disappears, a word with a newline and no blank is
  split, and a word right behind a closing quote is refused with the positive error number
  \<^verbatim>\<open>EIO\<close>.
\<close>

theorem tokenize_loses:
  shows "quotestrdup True [] = Some (Some []) \<and> tokenize True [97, 32] = Some (Inr [[97]]) \<and>
   quotestrdup True [97, 10, 98] = Some (Some [97, 10, 98]) \<and> tokenize True [97, 10, 98] = Some (Inr [[97], [98]]) \<and>
   tokenize True [39, 97, 39, 98] = Some (Inl 5)"
proof -
  have "tokenize True [97, 32] = Some (Inr [[97]])" by code_simp
  moreover have "tokenize True [97, 10, 98] = Some (Inr [[97], [98]])" by code_simp
  moreover have "tokenize True [39, 97, 39, 98] = Some (Inl 5)" by code_simp
  ultimately show ?thesis by (simp add: quotestrdup_quoted quoted_def needs_quotes_def)
qed

end
