(* ===== verification/Client.thy ===== *)
theory Client
  imports IdPool NpMsg "HOL-Library.Multiset"
begin

text \<open>
  The client side, \<^verbatim>\<open>npfs/libnpclient/fsys.c\<close>: many requests share one transport. A request
  gets a tag from the pool and is queued; the writer thread moves it to the list of those
  pending and sends it; the reader thread finds the pending request by the tag of a reply,
  calls it back and returns the tag. The result \<^verbatim>\<open>None\<close> is a fault.
\<close>

section \<open>The state\<close>

definition ECONNABORTED :: int where "ECONNABORTED = 103"
definition Econn :: cstring where "Econn = cstr ''connection closed''"
definition Emismatch :: cstring where "Emismatch = cstr ''response mismatch''"

text \<open>
  A callback and its argument are a number; the calls made are recorded in the state, each with
  the error and the reply of its request at that moment.
\<close>

record Npcreq =
  cr_tag :: u16
  cr_tc :: "Npfcall option"
  cr_rc :: "Npfcall option"
  cr_ecode :: int
  cr_ename :: "cstring option"
  cr_cb :: "nat option"
  cr_flushed :: bool
  cr_next :: "addr option"
  cr_prev :: "addr option"

record Npcfsys =
  fs_trans :: "nat option"
  fs_dotu :: bool
  fs_tagpool :: Npcpool
  fs_unsent_first :: "addr option"
  fs_unsent_last :: "addr option"
  fs_pend_first :: "addr option"

record cstate =
  cs_fs :: Npcfsys
  cs_reqs :: "Npcreq heap"
  cs_nmalloc :: addr
  cs_calls :: "(nat \<times> cstring option \<times> int \<times> Npfcall option) list"
  cs_out :: "(nat \<times> u8 list) list"
  cs_closed :: "nat list"

definition upd_fs :: "(Npcfsys \<Rightarrow> Npcfsys) \<Rightarrow> cstate \<Rightarrow> cstate" where
  "upd_fs f w = w\<lparr>cs_fs := f (cs_fs w)\<rparr>"

section \<open>Issuing a request\<close>

text \<open>
  \<^verbatim>\<open>npc_reqalloc\<close> reports a failed allocation and then writes through the \<^verbatim>\<open>NULL\<close> it got.
\<close>

definition new_creq :: Npcreq where
  "new_creq = \<lparr>cr_tag = NOTAG, cr_tc = None, cr_rc = None, cr_ecode = 0, cr_ename = None, cr_cb = None,
     cr_flushed = False, cr_next = None, cr_prev = None\<rparr>"

definition npc_reqalloc :: "bool \<Rightarrow> cstate \<Rightarrow> (addr \<times> cstate) option" where
  "npc_reqalloc mem w =
     (if \<not> mem then None
      else Some (cs_nmalloc w, w\<lparr>cs_reqs := (cs_reqs w)(cs_nmalloc w \<mapsto> new_creq), cs_nmalloc := cs_nmalloc w + 1\<rparr>))"

definition npc_enqueue :: "addr \<Rightarrow> Npfcall \<Rightarrow> nat option \<Rightarrow> cstate \<Rightarrow> cstate option" where
  "npc_enqueue req tc cb w = do {
     h \<leftarrow> hupd req (\<lambda>r. r\<lparr>cr_tag := fc_tag tc, cr_tc := Some tc, cr_cb := cb\<rparr>) (cs_reqs w);
     h \<leftarrow> hupd_opt (fs_unsent_last (cs_fs w)) (cr_next_update (\<lambda>_. Some req)) h;
     h \<leftarrow> hupd req (cr_prev_update (\<lambda>_. fs_unsent_last (cs_fs w))) h;
     let fs = (cs_fs w)\<lparr>fs_unsent_last := Some req\<rparr>;
     let fs = (if fs_unsent_first fs = None then fs\<lparr>fs_unsent_first := Some req\<rparr> else fs);
     Some (w\<lparr>cs_fs := fs, cs_reqs := h\<rparr>)
   }"

text \<open>
  \<^verbatim>\<open>npc_rpcnb\<close>: refused on a closed connection, waiting while there is no tag, or queued. The
  first two arguments are the outcomes of its allocations.
\<close>

datatype rpc_result = Refused cstring int | Waits | Queued

definition npc_rpcnb :: "bool \<Rightarrow> bool \<Rightarrow> Npfcall \<Rightarrow> nat option \<Rightarrow> cstate \<Rightarrow> (rpc_result \<times> cstate) option" where
  "npc_rpcnb mem1 mem2 tc cb w =
     (if fs_trans (cs_fs w) = None then Some (Refused Econn ECONNABORTED, w)
      else do {
        (req, w') \<leftarrow> npc_reqalloc mem1 w;
        if fc_type tc \<noteq> Tversion then
          (case npc_get_id mem2 (fs_tagpool (cs_fs w)) of
             (None, _) \<Rightarrow> Some (Waits, w)
           | (Some k, p) \<Rightarrow> do {
               tc \<leftarrow> (case np_set_tag tc (ucast k) of Inl _ \<Rightarrow> None | Inr tc \<Rightarrow> Some tc);
               w \<leftarrow> npc_enqueue req tc cb (upd_fs (fs_tagpool_update (\<lambda>_. p)) w');
               Some (Queued, w)
             })
        else do {
          w \<leftarrow> npc_enqueue req tc cb w';
          Some (Queued, w)
        }
      })"

section \<open>The writer\<close>

text \<open>One turn of the loop of \<^verbatim>\<open>npc_write_proc\<close>; \<open>n\<close> is what the transport returns.\<close>

definition npc_write_one :: "int \<Rightarrow> cstate \<Rightarrow> cstate option" where
  "npc_write_one n w =
     (case fs_trans (cs_fs w) of
        None \<Rightarrow> Some w
      | Some t \<Rightarrow>
          (case fs_unsent_first (cs_fs w) of
             None \<Rightarrow> Some w
           | Some req \<Rightarrow> do {
               r \<leftarrow> cs_reqs w req;
               let fs = (cs_fs w)\<lparr>fs_unsent_first := cr_next r\<rparr>;
               h \<leftarrow> hupd req (cr_prev_update (\<lambda>_. None)) (cs_reqs w);
               let fs = (if fs_unsent_last fs = Some req then fs\<lparr>fs_unsent_last := None\<rparr> else fs);
               h \<leftarrow> hupd req (cr_prev_update (\<lambda>_. None)) h;
               h \<leftarrow> hupd req (cr_next_update (\<lambda>_. fs_pend_first fs)) h;
               h \<leftarrow> hupd_opt (fs_pend_first fs) (cr_prev_update (\<lambda>_. Some req)) h;
               let fs = fs\<lparr>fs_pend_first := Some req\<rparr>;
               tc \<leftarrow> cr_tc r;
               if length (fc_pkt tc) < unat (fc_size tc) then None
               else
                 (let w = w\<lparr>cs_fs := fs, cs_reqs := h, cs_out := cs_out w @ [(t, take (unat (fc_size tc)) (fc_pkt tc))]\<rparr>
                  in if n < 0 then Some (upd_fs (fs_trans_update (\<lambda>_. None)) (w\<lparr>cs_closed := cs_closed w @ [t]\<rparr>))
                     else Some w)
             }))"

section \<open>The reader\<close>

text \<open>
  A callback runs and the request is freed. The result is the tag and whether it was flushed.
\<close>

definition npc_call_back :: "addr \<Rightarrow> cstate \<Rightarrow> (u16 \<times> bool \<times> cstate) option" where
  "npc_call_back req w = do {
     r \<leftarrow> cs_reqs w req;
     let w = (case cr_cb r of None \<Rightarrow> w | Some cb \<Rightarrow> w\<lparr>cs_calls := cs_calls w @ [(cb, cr_ename r, cr_ecode r, cr_rc r)]\<rparr>);
     Some (cr_tag r, cr_flushed r, w\<lparr>cs_reqs := (cs_reqs w)(req := None)\<rparr>)
   }"

text \<open>The search for the pending request of a tag, with the request before it on the list.\<close>

partial_function (option) pend_find ::
  "Npcreq heap \<Rightarrow> u16 \<Rightarrow> addr option \<Rightarrow> addr option \<Rightarrow> (addr option \<times> addr option) option"
where
  "pend_find h tag p preq =
     (case p of
        None \<Rightarrow> Some (preq, None)
      | Some req \<Rightarrow> do {
          r \<leftarrow> h req;
          if cr_tag r = tag then Some (preq, Some req) else pend_find h tag (cr_next r) (Some req)
        })"

text \<open>
  What \<^verbatim>\<open>npc_read_proc\<close> does with a message it has parsed: the pending request of its tag is
  taken off the list and called back with the reply, or with an error when the reply is
  \<^verbatim>\<open>Rerror\<close> or of the wrong type; a message without a request is dropped.
\<close>

definition npc_receive :: "Npfcall \<Rightarrow> cstate \<Rightarrow> cstate option" where
  "npc_receive fc w = do {
     (preq, p) \<leftarrow> pend_find (cs_reqs w) (fc_tag fc) (fs_pend_first (cs_fs w)) None;
     (case p of
        None \<Rightarrow> Some w
      | Some req \<Rightarrow> do {
          r \<leftarrow> cs_reqs w req;
          w \<leftarrow> (case preq of
              None \<Rightarrow> Some (upd_fs (fs_pend_first_update (\<lambda>_. cr_next r)) w)
            | Some a \<Rightarrow> do {
                h \<leftarrow> hupd a (cr_next_update (\<lambda>_. cr_next r)) (cs_reqs w);
                Some (w\<lparr>cs_reqs := h\<rparr>)
              });
          tc \<leftarrow> cr_tc r;
          h \<leftarrow> hupd req (\<lambda>r.
              (let r = r\<lparr>cr_rc := Some fc\<rparr>
               in if fc_type fc = Rerror then r\<lparr>cr_ename := np_strdup (fc_pkt fc) (fc_ename fc), cr_ecode := sint (fc_ecode fc)\<rparr>
                  else if fc_type fc \<noteq> fc_type tc + 1 then r\<lparr>cr_ename := Some Emismatch, cr_ecode := EIO\<rparr>
                  else r)) (cs_reqs w);
          (tag, flushed, w) \<leftarrow> npc_call_back req (w\<lparr>cs_reqs := h\<rparr>);
          if flushed then Some w
          else do {
            p \<leftarrow> npc_put_id (fs_tagpool (cs_fs w)) (ucast tag);
            Some (upd_fs (fs_tagpool_update (\<lambda>_. p)) w)
          }
        })
   }"

text \<open>The end of the reader: all requests, unsent and pending, are called back with an error.\<close>

partial_function (option) npc_abort :: "addr option \<Rightarrow> cstate \<Rightarrow> cstate option" where
  "npc_abort p w =
     (case p of
        None \<Rightarrow> Some w
      | Some req \<Rightarrow> do {
          h \<leftarrow> hupd req (\<lambda>r. r\<lparr>cr_ecode := ECONNABORTED, cr_ename := Some Econn\<rparr>) (cs_reqs w);
          r \<leftarrow> h req;
          (tag, flushed, w) \<leftarrow> npc_call_back req (w\<lparr>cs_reqs := h\<rparr>);
          npc_abort (cr_next r) w
        })"

definition npc_read_end :: "cstate \<Rightarrow> cstate option" where
  "npc_read_end w = do {
     let unsent = fs_unsent_first (cs_fs w);
     let pend = fs_pend_first (cs_fs w);
     let w = upd_fs (\<lambda>fs. fs\<lparr>fs_unsent_first := None, fs_pend_first := None\<rparr>) w;
     let w = (case fs_trans (cs_fs w) of None \<Rightarrow> w | Some t \<Rightarrow> w\<lparr>cs_closed := cs_closed w @ [t]\<rparr>);
     let w = upd_fs (fs_trans_update (\<lambda>_. None)) w;
     w \<leftarrow> npc_abort unsent w;
     npc_abort pend w
   }"

section \<open>Closing a fid\<close>

text \<open>
  \<^verbatim>\<open>npc_cancel_fid_requests\<close> up to the flushes it sends: the unsent requests of the fid are taken
  off the queue (the code has \<^verbatim>\<open>if (req == fs->unsent_first);\<close>, with a semicolon, before the
  assignment to \<^verbatim>\<open>unsent_first\<close>), the pending ones are marked; the former are called back with an
  error, without a test for a callback. The result is the tags to flush.
\<close>

partial_function (option) cancel_unsent ::
  "u32 \<Rightarrow> addr option \<Rightarrow> addr option \<Rightarrow> cstate \<Rightarrow> (addr option \<times> cstate) option"
where
  "cancel_unsent fid p ureqs w =
     (case p of
        None \<Rightarrow> Some (ureqs, w)
      | Some req \<Rightarrow> do {
          r \<leftarrow> cs_reqs w req;
          tc \<leftarrow> cr_tc r;
          if fc_fid tc = fid then do {
            h \<leftarrow> hupd_opt (cr_prev r) (cr_next_update (\<lambda>_. cr_next r)) (cs_reqs w);
            r \<leftarrow> h req;
            h \<leftarrow> hupd_opt (cr_next r) (cr_prev_update (\<lambda>_. cr_prev r)) h;
            r \<leftarrow> h req;
            let fs = cs_fs w;
            let fs = (if fs_unsent_last fs = Some req then fs\<lparr>fs_unsent_last := cr_prev r\<rparr> else fs);
            let fs = fs\<lparr>fs_unsent_first := cr_next r\<rparr>;
            h \<leftarrow> hupd req (cr_next_update (\<lambda>_. ureqs)) h;
            cancel_unsent fid (cr_next r) (Some req) (w\<lparr>cs_fs := fs, cs_reqs := h\<rparr>)
          }
          else cancel_unsent fid (cr_next r) ureqs w
        })"

partial_function (option) cancel_pend ::
  "u32 \<Rightarrow> addr option \<Rightarrow> u16 list \<Rightarrow> Npcreq heap \<Rightarrow> (u16 list \<times> Npcreq heap) option"
where
  "cancel_pend fid p ftags h =
     (case p of
        None \<Rightarrow> Some (ftags, h)
      | Some req \<Rightarrow> do {
          r \<leftarrow> h req;
          tc \<leftarrow> cr_tc r;
          if fc_fid tc = fid
          then cancel_pend fid (cr_next r) (ftags @ [cr_tag r]) (h(req \<mapsto> r\<lparr>cr_flushed := True\<rparr>))
          else cancel_pend fid (cr_next r) ftags h
        })"

partial_function (option) cancel_report :: "addr option \<Rightarrow> cstate \<Rightarrow> cstate option" where
  "cancel_report p w =
     (case p of
        None \<Rightarrow> Some w
      | Some req \<Rightarrow> do {
          h \<leftarrow> hupd req (\<lambda>r. r\<lparr>cr_ename := Some (cstr ''file closed''), cr_ecode := EIO\<rparr>) (cs_reqs w);
          r \<leftarrow> h req;
          _ \<leftarrow> cr_cb r;
          (tag, flushed, w) \<leftarrow> npc_call_back req (w\<lparr>cs_reqs := h\<rparr>);
          p \<leftarrow> npc_put_id (fs_tagpool (cs_fs w)) (ucast tag);
          cancel_report (cr_next r) (upd_fs (fs_tagpool_update (\<lambda>_. p)) w)
        })"

definition npc_cancel_queued :: "bool \<Rightarrow> u32 \<Rightarrow> cstate \<Rightarrow> ((u16 list option) \<times> cstate) option" where
  "npc_cancel_queued mem fid w = do {
     (ureqs, w) \<leftarrow> cancel_unsent fid (fs_unsent_first (cs_fs w)) None w;
     (ftags, h) \<leftarrow> cancel_pend fid (fs_pend_first (cs_fs w)) [] (cs_reqs w);
     if \<not> mem then Some (None, w\<lparr>cs_reqs := h\<rparr>)
     else do {
       w \<leftarrow> cancel_report ureqs (w\<lparr>cs_reqs := h\<rparr>);
       Some (Some ftags, w)
     }
   }"

section \<open>Lists through one link\<close>

fun nseg :: "('n \<Rightarrow> addr option) \<Rightarrow> 'n heap \<Rightarrow> addr option \<Rightarrow> addr list \<Rightarrow> addr option \<Rightarrow> bool" where
  "nseg nx h p [] q \<longleftrightarrow> p = q"
| "nseg nx h p (a # as) q \<longleftrightarrow> p = Some a \<and> (case h a of None \<Rightarrow> False | Some r \<Rightarrow> nseg nx h (nx r) as q)"

lemma sseg_nseg: "sseg nx h p xs = nseg nx h p xs None"
  by (induction xs arbitrary: p) (auto split: option.splits)

lemma nseg_head: "nseg nx h p xs q \<Longrightarrow> p = headp xs q"
  by (cases xs) auto

lemma nseg_append: "nseg nx h p (xs @ ys) q \<longleftrightarrow> nseg nx h p xs (headp ys q) \<and> nseg nx h (headp ys q) ys q"
proof (induction xs arbitrary: p)
  case Nil
  then show ?case by (auto dest: nseg_head)
qed (auto split: option.splits)

lemma nseg_cong:
  "nseg nx h p xs q \<Longrightarrow> \<forall>a\<in>set xs. map_option nx (h' a) = map_option nx (h a) \<Longrightarrow> nseg nx h' p xs q"
  by (induction xs arbitrary: p) (fastforce split: option.splits)+

lemma nseg_alloc: "nseg nx h p xs q \<Longrightarrow> a \<in> set xs \<Longrightarrow> \<exists>r. h a = Some r"
  by (induction xs arbitrary: p) (auto split: option.splits)

text \<open>The last node of a segment gets a new successor.\<close>

lemma nseg_set_last:
  assumes "nseg nx h p (xs @ [a]) q" "a \<notin> set xs" "\<forall>b\<in>set xs. map_option nx (h' b) = map_option nx (h b)"
    "h' a = Some r" "nx r = q'"
  shows "nseg nx h' p (xs @ [a]) q'"
  using assms nseg_cong [of nx h p xs "Some a" h'] by (auto simp: nseg_append)

section \<open>The invariant of a client\<close>

definition creq_strip :: "Npcreq \<Rightarrow> Npcreq" where
  "creq_strip r = r\<lparr>cr_next := None, cr_prev := None\<rparr>"

definition qview :: "cstate \<Rightarrow> addr \<Rightarrow> Npcreq option" where
  "qview w = hview creq_strip (cs_reqs w)"

interpretation cq: links cr_next cr_prev "\<lambda>v. cr_next_update (\<lambda>_. v)" "\<lambda>v. cr_prev_update (\<lambda>_. v)" creq_strip
  by unfold_locales (simp_all add: creq_strip_def)

definition lists_ok :: "cstate \<Rightarrow> addr list \<Rightarrow> addr list \<Rightarrow> bool" where
  "lists_ok w us ps \<longleftrightarrow> nseg cr_next (cs_reqs w) (fs_unsent_first (cs_fs w)) us None \<and>
     fs_unsent_last (cs_fs w) = lastp None us \<and>
     nseg cr_next (cs_reqs w) (fs_pend_first (cs_fs w)) ps None \<and> distinct (us @ ps) \<and>
     dom (cs_reqs w) = set (us @ ps) \<and> (\<forall>a\<in>set (us @ ps). a < cs_nmalloc w)"

text \<open>A request that waits for its reply: not the version request, which has no tag of the pool.\<close>

definition creq_live :: "Npcreq \<Rightarrow> bool" where
  "creq_live r \<longleftrightarrow> (\<exists>tc cb. cr_tc r = Some tc \<and> fc_type tc \<noteq> Tversion \<and> unat (fc_size tc) \<le> length (fc_pkt tc) \<and> cr_cb r = Some cb) \<and>
     \<not> cr_flushed r \<and> cr_ename r = None \<and> cr_ecode r = 0 \<and> cr_rc r = None"

definition ctag :: "cstate \<Rightarrow> addr \<Rightarrow> u16" where
  "ctag w a = cr_tag (the (qview w a))"

definition ccb :: "cstate \<Rightarrow> addr \<Rightarrow> nat" where
  "ccb w a = the (cr_cb (the (qview w a)))"

definition client_inv :: "cstate \<Rightarrow> addr list \<Rightarrow> addr list \<Rightarrow> bool" where
  "client_inv w us ps \<longleftrightarrow> lists_ok w us ps \<and> (\<forall>a\<in>set (us @ ps). \<exists>r. qview w a = Some r \<and> creq_live r) \<and>
     npc_inv (ucast NOTAG) (fs_tagpool (cs_fs w)) \<and>
     npc_ids (fs_tagpool (cs_fs w)) = (\<lambda>a. ucast (ctag w a)) ` set (us @ ps) \<and> inj_on (ctag w) (set (us @ ps))"

lemma creq_live_strip [simp]: "creq_live (creq_strip r) = creq_live r"
  by (simp add: creq_live_def creq_strip_def)

lemma creq_strip_fields [simp]:
  "cr_tag (creq_strip r) = cr_tag r" "cr_tc (creq_strip r) = cr_tc r" "cr_cb (creq_strip r) = cr_cb r"
  "cr_rc (creq_strip r) = cr_rc r" "cr_ename (creq_strip r) = cr_ename r" "cr_ecode (creq_strip r) = cr_ecode r"
  "cr_flushed (creq_strip r) = cr_flushed r"
  "creq_strip (cr_next_update f r) = creq_strip r" "creq_strip (cr_prev_update f r) = creq_strip r"
  by (simp_all add: creq_strip_def)

lemma qview_at: "cs_reqs w a = Some r \<Longrightarrow> qview w a = Some (creq_strip r)"
  by (simp add: qview_def hview_def)

lemma qview_SomeD: "qview w a = Some v \<Longrightarrow> \<exists>r. cs_reqs w a = Some r \<and> creq_strip r = v"
  by (auto simp: qview_def hview_Some)

lemma ctag_at: "cs_reqs w a = Some r \<Longrightarrow> ctag w a = cr_tag r"
  by (simp add: ctag_def qview_at)

lemma ctag_eq: "qview w' a = qview w a \<Longrightarrow> ctag w' a = ctag w a"
  by (simp add: ctag_def)

lemma ccb_eq: "qview w' a = qview w a \<Longrightarrow> ccb w' a = ccb w a"
  by (simp add: ccb_def)

lemma notag_u32: "(ucast NOTAG :: u32) = 0xFFFF"
  by code_simp

lemma tag_ids_small:
  assumes "npc_inv (ucast NOTAG) p" "k \<in> npc_ids p"
  shows "unat k < 65536"
proof -
  have "length (np_map p) * 8 \<le> 65543" "unat k < 8 * length (np_map p)"
    using assms by (auto simp: npc_inv_def notag_u32 npc_ids_def ids_def)
  then show ?thesis by presburger
qed

lemma ucast_tag: "unat (k :: u32) < 65536 \<Longrightarrow> ucast (ucast k :: u16) = k"
  by (simp add: word_unat_eq_iff unsigned_ucast_eq unsigned_take_bit_eq take_bit_nat_eq_self)

lemma ucast_ucast_id_tag: "ucast (ucast (t :: u16) :: u32) = t"
proof -
  have "unat t < 2 ^ 32" by (rule order_less_le_trans [OF unsigned_less]) simp
  moreover have "unat t < 2 ^ 16" by (rule order_less_le_trans [OF unsigned_less]) simp
  ultimately show ?thesis by (simp add: word_unat_eq_iff unsigned_ucast_eq unsigned_take_bit_eq take_bit_nat_eq_self)
qed

lemma tag_ids_card: "npc_inv (ucast NOTAG) p \<Longrightarrow> card (npc_ids p) < 2 ^ 31"
proof -
  assume p: "npc_inv (ucast NOTAG) p"
  have "npc_ids p \<subseteq> (of_nat :: nat \<Rightarrow> u32) ` {..<65536}"
    using tag_ids_small [OF p] by (force simp: image_iff intro!: bexI [where x = "unat _"])
  then have "card (npc_ids p) \<le> card {..<65536 :: nat}" by (meson card_image_le card_mono finite_imageI finite_lessThan order_trans)
  then show ?thesis by simp
qed

section \<open>What the operations do\<close>

text \<open>What stays when only the lists change, and the other parts of the state.\<close>

definition fs_rest :: "cstate \<Rightarrow> nat option \<times> bool" where
  "fs_rest w = (fs_trans (cs_fs w), fs_dotu (cs_fs w))"

lemma client_invD:
  assumes "client_inv w us ps"
  shows "lists_ok w us ps" "npc_inv (ucast NOTAG) (fs_tagpool (cs_fs w))"
    "a \<in> set (us @ ps) \<Longrightarrow> \<exists>r. qview w a = Some r \<and> creq_live r"
    "npc_ids (fs_tagpool (cs_fs w)) = (\<lambda>a. ucast (ctag w a)) ` set (us @ ps)" "inj_on (ctag w) (set (us @ ps))"
  using assms by (auto simp: client_inv_def)

lemma client_inv_view:
  assumes "client_inv w us ps" "lists_ok w' us' ps'" "set (us' @ ps') = set (us @ ps)" "qview w' = qview w"
    "fs_tagpool (cs_fs w') = fs_tagpool (cs_fs w)"
  shows "client_inv w' us' ps'"
proof -
  have "ctag w' = ctag w" using assms(4) by (simp add: ctag_def fun_eq_iff)
  then show ?thesis using assms by (simp add: client_inv_def)
qed

lemma npc_enqueue_ok:
  assumes "lists_ok w us ps" "w1 = w\<lparr>cs_reqs := (cs_reqs w)(a \<mapsto> new_creq), cs_nmalloc := a + 1, cs_fs := fs_tagpool_update (\<lambda>_. p) (cs_fs w)\<rparr>"
    "a = cs_nmalloc w"
  shows "\<exists>w'. npc_enqueue a tc cb w1 = Some w' \<and> lists_ok w' (us @ [a]) ps \<and>
    qview w' = (qview w)(a \<mapsto> new_creq\<lparr>cr_tag := fc_tag tc, cr_tc := Some tc, cr_cb := cb\<rparr>) \<and>
    fs_tagpool (cs_fs w') = p \<and> fs_rest w' = fs_rest w \<and> cs_calls w' = cs_calls w \<and> cs_out w' = cs_out w \<and> cs_closed w' = cs_closed w"
proof -
  have l: "nseg cr_next (cs_reqs w) (fs_unsent_first (cs_fs w)) us None" "fs_unsent_last (cs_fs w) = lastp None us"
    "nseg cr_next (cs_reqs w) (fs_pend_first (cs_fs w)) ps None" "distinct (us @ ps)" "dom (cs_reqs w) = set (us @ ps)"
    "\<forall>b\<in>set (us @ ps). b < a"
    using assms(1,3) by (auto simp: lists_ok_def)
  have a: "a \<notin> set us" "a \<notin> set ps" using l(6) by auto
  define n where "n = new_creq\<lparr>cr_tag := fc_tag tc, cr_tc := Some tc, cr_cb := cb\<rparr>"
  have n: "creq_strip n = n" "cr_next n = None" by (simp_all add: n_def new_creq_def creq_strip_def)
  show ?thesis
  proof (cases us rule: rev_cases)
    case Nil
    have "nseg cr_next ((cs_reqs w)(a \<mapsto> n)) (fs_pend_first (cs_fs w)) ps None"
      by (rule nseg_cong [OF l(3)]) (use a in auto)
    then show ?thesis
      using l a n Nil assms(2,3)
      by (auto simp: npc_enqueue_def lists_ok_def qview_def hview_def fs_rest_def Let_def fun_eq_iff n_def new_creq_def creq_strip_def less_Suc_eq)
  next
    case (snoc vs b)
    obtain s where s: "cs_reqs w b = Some s" using l(5) snoc by (metis domIff in_set_conv_decomp not_None_eq Un_iff set_append)
    have f: "fs_unsent_first (cs_fs w) = headp us None" using nseg_head [OF l(1)] .
    let ?h = "(cs_reqs w)(a \<mapsto> n\<lparr>cr_prev := Some b\<rparr>, b \<mapsto> cr_next_update (\<lambda>_. Some a) s)"
    have ab: "a \<noteq> b" using a(1) snoc by auto
    have u: "nseg cr_next ?h (fs_unsent_first (cs_fs w)) (us @ [a]) None"
    proof -
      have "nseg cr_next ?h (fs_unsent_first (cs_fs w)) (vs @ [b]) (Some a)"
        by (rule nseg_set_last [where h = "cs_reqs w" and q = None and r = "cr_next_update (\<lambda>_. Some a) s"])
          (use l(1,4) snoc a in auto)
      then show ?thesis using snoc ab n by (simp add: nseg_append)
    qed
    have p: "nseg cr_next ?h (fs_pend_first (cs_fs w)) ps None"
      by (rule nseg_cong [OF l(3)]) (use a l(4) snoc in auto)
    have q: "hview creq_strip ?h = (hview creq_strip (cs_reqs w))(a \<mapsto> n)"
      using s ab n(1) by (auto simp: hview_def fun_eq_iff)
    have e: "npc_enqueue a tc cb w1 = Some (w1\<lparr>cs_fs := (cs_fs w1)\<lparr>fs_unsent_last := Some a\<rparr>, cs_reqs := ?h\<rparr>)"
      using s ab l(2) f snoc assms(2)
      by (simp add: npc_enqueue_def Let_def n_def new_creq_def fun_upd_twist headp_def split: list.splits)
    have "lists_ok (w1\<lparr>cs_fs := (cs_fs w1)\<lparr>fs_unsent_last := Some a\<rparr>, cs_reqs := ?h\<rparr>) (us @ [a]) ps"
      using u p l(4-6) a s snoc assms(2) by (auto simp: lists_ok_def less_Suc_eq)
    then show ?thesis using e q assms(2) by (auto simp: qview_def fs_rest_def n_def)
  qed
qed

text \<open>A message that can be issued: it has a header and as many bytes as it says.\<close>

definition issuable :: "Npfcall \<Rightarrow> bool" where
  "issuable tc \<longleftrightarrow> fc_type tc \<noteq> Tversion \<and> 7 \<le> length (fc_pkt tc) \<and> unat (fc_size tc) \<le> length (fc_pkt tc)"

lemma npc_rpcnb_ok:
  assumes inv: "client_inv w us ps" and tc: "issuable tc"
  shows "(\<exists>w'. npc_rpcnb True mem tc (Some cb) w = Some (Queued, w') \<and> client_inv w' (us @ [cs_nmalloc w]) ps \<and>
      (\<forall>b\<in>set (us @ ps). qview w' b = qview w b) \<and> ccb w' (cs_nmalloc w) = cb \<and>
      fs_rest w' = fs_rest w \<and> cs_calls w' = cs_calls w \<and> cs_out w' = cs_out w \<and> cs_closed w' = cs_closed w) \<or>
    (\<exists>r. r \<noteq> Queued \<and> npc_rpcnb True mem tc (Some cb) w = Some (r, w))"
proof (cases "fs_trans (cs_fs w)")
  case None
  then show ?thesis by (simp add: npc_rpcnb_def)
next
  case (Some t)
  let ?a = "cs_nmalloc w" and ?p = "fs_tagpool (cs_fs w)"
  obtain r p where g: "npc_get_id mem ?p = (r, p)" by fastforce
  note i = client_invD [OF inv]
  show ?thesis
  proof (cases r)
    case None
    then show ?thesis using tc g Some by (simp add: npc_rpcnb_def npc_reqalloc_def issuable_def)
  next
    case (Some k)
    have k: "npc_inv (ucast NOTAG) p" "k \<notin> npc_ids ?p" "npc_ids p = insert k (npc_ids ?p)"
      using npc.get_law [OF i(2) tag_ids_card [OF i(2)] g] Some by auto
    then have k16: "ucast (ucast k :: u16) = k" using tag_ids_small [OF k(1)] ucast_tag by blast
    define tc' where "tc' = tc\<lparr>fc_tag := ucast k, fc_pkt := (fc_pkt tc)[5 := ucast (ucast k :: u16), 6 := ucast (drop_bit 8 (ucast k :: u16))]\<rparr>"
    have tc': "np_set_tag tc (ucast k) = Inr tc'" using tc by (simp add: np_set_tag_def issuable_def tc'_def)
    let ?w1 = "w\<lparr>cs_reqs := (cs_reqs w)(?a \<mapsto> new_creq), cs_nmalloc := ?a + 1, cs_fs := fs_tagpool_update (\<lambda>_. p) (cs_fs w)\<rparr>"
    obtain w' where w': "npc_enqueue ?a tc' (Some cb) ?w1 = Some w'" "lists_ok w' (us @ [?a]) ps"
        "qview w' = (qview w)(?a \<mapsto> new_creq\<lparr>cr_tag := fc_tag tc', cr_tc := Some tc', cr_cb := Some cb\<rparr>)"
        "fs_tagpool (cs_fs w') = p" "fs_rest w' = fs_rest w" "cs_calls w' = cs_calls w" "cs_out w' = cs_out w" "cs_closed w' = cs_closed w"
      using npc_enqueue_ok [OF i(1) refl refl, of tc' "Some cb" p] by blast
    have run: "npc_rpcnb True mem tc (Some cb) w = Some (Queued, w')"
      using \<open>fs_trans (cs_fs w) = Some t\<close> tc g Some tc' w'(1)
      by (simp add: npc_rpcnb_def npc_reqalloc_def issuable_def upd_fs_def)
    have a: "?a \<notin> set (us @ ps)" using i(1) by (auto simp: lists_ok_def)
    then have v: "qview w' b = qview w b" if "b \<in> set (us @ ps)" for b using that w'(3) by auto
    have t: "ctag w' b = ctag w b" if "b \<in> set (us @ ps)" for b using ctag_eq [OF v [OF that]] .
    have ta: "ctag w' ?a = ucast k" by (simp add: ctag_def w'(3) tc'_def)
    have "npc_ids p = (\<lambda>b. ucast (ctag w' b)) ` set ((us @ [?a]) @ ps)"
    proof -
      have "(\<lambda>b. ucast (ctag w' b)) ` set (us @ ps) = npc_ids ?p" unfolding i(4) by (rule image_cong) (simp_all add: t)
      then show ?thesis using k(3) ta k16 by auto
    qed
    moreover have "inj_on (ctag w') (set ((us @ [?a]) @ ps))"
    proof -
      have "inj_on (ctag w') (set (us @ ps))" using i(5) t by (metis inj_on_cong)
      moreover have "ctag w' ?a \<notin> ctag w' ` set (us @ ps)"
      proof
        assume "ctag w' ?a \<in> ctag w' ` set (us @ ps)"
        then obtain b where b0: "b \<in> set (us @ ps)" "ctag w' ?a = ctag w' b" by blast
        then have b: "b \<in> set (us @ ps)" "ctag w b = ucast k" using ta t [OF b0(1)] by simp_all
        have "ucast (ctag w b) \<in> npc_ids ?p" unfolding i(4) by (rule imageI [OF b(1)])
        then show False using b(2) k16 k(2) by simp
      qed
      ultimately show ?thesis using a by (auto simp: inj_on_insert)
    qed
    moreover have "\<exists>r. qview w' b = Some r \<and> creq_live r" if "b \<in> set ((us @ [?a]) @ ps)" for b
    proof (cases "b = ?a")
      case True
      then show ?thesis using w'(3) tc by (simp add: creq_live_def new_creq_def issuable_def tc'_def)
    next
      case False
      then show ?thesis using that v i(3) by auto
    qed
    ultimately have "client_inv w' (us @ [?a]) ps"
      using w'(2,4) k(1) by (auto simp: client_inv_def)
    moreover have "ccb w' ?a = cb" by (simp add: ccb_def w'(3))
    ultimately show ?thesis using run v w'(5-8) by blast
  qed
qed

lemma npc_write_one_ok:
  assumes inv: "client_inv w (a # us) ps" and t: "fs_trans (cs_fs w) = Some t"
  shows "\<exists>w' tc. npc_write_one n w = Some w' \<and> client_inv w' us (a # ps) \<and> qview w' = qview w \<and>
    cr_tc (the (qview w a)) = Some tc \<and> cs_out w' = cs_out w @ [(t, take (unat (fc_size tc)) (fc_pkt tc))] \<and> cs_calls w' = cs_calls w"
proof -
  have l: "nseg cr_next (cs_reqs w) (fs_unsent_first (cs_fs w)) (a # us) None" "fs_unsent_last (cs_fs w) = lastp None (a # us)"
    "nseg cr_next (cs_reqs w) (fs_pend_first (cs_fs w)) ps None" "distinct (a # us @ ps)" "dom (cs_reqs w) = set (a # us @ ps)"
    "\<forall>b\<in>set (a # us @ ps). b < cs_nmalloc w"
    using client_invD(1) [OF inv] by (auto simp: lists_ok_def)
  obtain r where r: "cs_reqs w a = Some r" "fs_unsent_first (cs_fs w) = Some a" "nseg cr_next (cs_reqs w) (cr_next r) us None"
    using l(1) by (auto split: option.splits)
  obtain tc where tc: "cr_tc r = Some tc" "unat (fc_size tc) \<le> length (fc_pkt tc)"
    using client_invD(3) [OF inv, of a] qview_at [OF r(1)] by (auto simp: creq_live_def)
  define fs where "fs = (cs_fs w)\<lparr>fs_unsent_first := cr_next r, fs_unsent_last := lastp None us, fs_pend_first := Some a\<rparr>"
  have first: "fs_unsent_last (cs_fs w) = Some a \<longleftrightarrow> us = []" using l(2,4) by (auto simp: lastp_def)
  have pf: "fs_pend_first (cs_fs w) = headp ps None" using nseg_head [OF l(3)] .
  let ?r = "r\<lparr>cr_prev := None, cr_next := headp ps None\<rparr>"
  define h where "h = (case ps of [] \<Rightarrow> (cs_reqs w)(a \<mapsto> ?r) | b # _ \<Rightarrow> ((cs_reqs w)(a \<mapsto> ?r))(b \<mapsto> cr_prev_update (\<lambda>_. Some a) (the (cs_reqs w b))))"
  have hb: "\<exists>s. cs_reqs w b = Some s" if "b \<in> set ps" for b using nseg_alloc [OF l(3) that] .
  have ha: "h a = Some ?r" using l(4) by (auto simp: h_def split: list.splits)
  have hn: "map_option cr_next (h b) = map_option cr_next (cs_reqs w b)" if "b \<noteq> a" for b
    using that hb [of b] by (auto simp: h_def split: list.splits)
  have up: "hupd_opt (headp ps None) (cr_prev_update (\<lambda>_. Some a)) ((cs_reqs w)(a \<mapsto> ?r)) = Some h"
    using hb l(4) by (cases ps) (fastforce simp: h_def hupd_def)+
  define w1 where "w1 = w\<lparr>cs_fs := fs, cs_reqs := h, cs_out := cs_out w @ [(t, take (unat (fc_size tc)) (fc_pkt tc))]\<rparr>"
  define w' where "w' = (if n < 0 then upd_fs (fs_trans_update (\<lambda>_. None)) (w1\<lparr>cs_closed := cs_closed w @ [t]\<rparr>) else w1)"
  have run: "npc_write_one n w = Some w'"
  proof -
    have fs': "(if fs_unsent_last (cs_fs w) = Some a then (cs_fs w)\<lparr>fs_unsent_first := cr_next r, fs_unsent_last := None\<rparr>
        else (cs_fs w)\<lparr>fs_unsent_first := cr_next r\<rparr>)\<lparr>fs_pend_first := Some a\<rparr> = fs"
      using l(2) first by (auto simp: fs_def lastp_def split: if_splits)
    show ?thesis
      using t r(1,2) tc up fs' pf unfolding npc_write_one_def
      by (simp add: Let_def w'_def w1_def cong: if_cong)
  qed
  have seg: "nseg cr_next h (cr_next r) us None" "nseg cr_next h (Some a) (a # ps) None"
  proof -
    have n: "\<forall>b\<in>set us \<union> set ps. map_option cr_next (h b) = map_option cr_next (cs_reqs w b)"
    proof
      fix b assume "b \<in> set us \<union> set ps"
      then have "b \<noteq> a" using l(4) by auto
      then show "map_option cr_next (h b) = map_option cr_next (cs_reqs w b)" by (rule hn)
    qed
    show "nseg cr_next h (cr_next r) us None" by (rule nseg_cong [OF r(3)]) (use n in blast)
    have "nseg cr_next h (headp ps None) ps None" using nseg_cong [OF l(3), of h] n pf by auto
    then show "nseg cr_next h (Some a) (a # ps) None" using ha by simp
  qed
  have "dom h = dom (cs_reqs w)" using hb r(1) by (auto simp: h_def split: list.splits)
  then have ok1: "lists_ok w1 us (a # ps)" using seg l(4-6) by (auto simp: lists_ok_def w1_def fs_def)
  have q1: "qview w1 = qview w"
  proof -
    have "hview creq_strip h b = hview creq_strip (cs_reqs w) b" for b
      using r(1) hb [of b] by (auto simp: h_def hview_def creq_strip_def split: list.splits)
    then have "hview creq_strip h = hview creq_strip (cs_reqs w)" by blast
    then show ?thesis by (simp add: qview_def w1_def)
  qed
  have same: "cs_reqs w' = cs_reqs w1" "fs_unsent_first (cs_fs w') = fs_unsent_first (cs_fs w1)" "fs_unsent_last (cs_fs w') = fs_unsent_last (cs_fs w1)"
    "fs_pend_first (cs_fs w') = fs_pend_first (cs_fs w1)" "cs_nmalloc w' = cs_nmalloc w1" "fs_tagpool (cs_fs w') = fs_tagpool (cs_fs w1)"
    "cs_calls w' = cs_calls w1" "cs_out w' = cs_out w1"
    by (simp_all add: w'_def upd_fs_def)
  have "lists_ok w' us (a # ps)" using ok1 unfolding lists_ok_def same .
  moreover have "qview w' = qview w" "fs_tagpool (cs_fs w') = fs_tagpool (cs_fs w)" "cs_calls w' = cs_calls w"
    "cs_out w' = cs_out w @ [(t, take (unat (fc_size tc)) (fc_pkt tc))]"
    using q1 unfolding qview_def same by (simp_all add: w1_def fs_def)
  moreover have "client_inv w' us (a # ps)" by (rule client_inv_view [OF inv]) (use calculation in auto)
  moreover have "cr_tc (the (qview w a)) = Some tc" using qview_at [OF r(1)] tc(1) by simp
  ultimately show ?thesis using run by blast
qed

declare pend_find.simps [simp del] npc_abort.simps [simp del]

lemma pend_find_ok:
  "nseg cr_next h p ps None \<Longrightarrow> \<forall>b\<in>set ps. cr_tag (the (h b)) \<noteq> tag \<Longrightarrow> pend_find h tag p pre = Some (lastp pre ps, None)"
  "nseg cr_next h p (xs @ a # ys) None \<Longrightarrow> \<forall>b\<in>set xs. cr_tag (the (h b)) \<noteq> tag \<Longrightarrow> cr_tag (the (h a)) = tag \<Longrightarrow>
    pend_find h tag p pre = Some (lastp pre xs, Some a)"
proof -
  show "nseg cr_next h p ps None \<Longrightarrow> \<forall>b\<in>set ps. cr_tag (the (h b)) \<noteq> tag \<Longrightarrow> pend_find h tag p pre = Some (lastp pre ps, None)"
    by (induction ps arbitrary: p pre) (subst pend_find.simps, auto split: option.splits)+
  show "nseg cr_next h p (xs @ a # ys) None \<Longrightarrow> \<forall>b\<in>set xs. cr_tag (the (h b)) \<noteq> tag \<Longrightarrow> cr_tag (the (h a)) = tag \<Longrightarrow>
      pend_find h tag p pre = Some (lastp pre xs, Some a)"
    by (induction xs arbitrary: p pre) (subst pend_find.simps, auto split: option.splits)+
qed

text \<open>How a reply ends a request: the error it is called back with.\<close>

definition verdict :: "Npfcall \<Rightarrow> Npfcall \<Rightarrow> cstring option \<times> int" where
  "verdict tc fc =
     (if fc_type fc = Rerror then (np_strdup (fc_pkt fc) (fc_ename fc), sint (fc_ecode fc))
      else if fc_type fc \<noteq> fc_type tc + 1 then (Some Emismatch, EIO)
      else (None, 0))"

lemma npc_receive_unknown:
  assumes "client_inv w us ps" "\<forall>a\<in>set ps. ctag w a \<noteq> fc_tag fc"
  shows "npc_receive fc w = Some w"
proof -
  have l: "nseg cr_next (cs_reqs w) (fs_pend_first (cs_fs w)) ps None" using client_invD(1) [OF assms(1)] by (simp add: lists_ok_def)
  have "cr_tag (the (cs_reqs w b)) \<noteq> fc_tag fc" if b: "b \<in> set ps" for b
    using assms(2) b nseg_alloc [OF l b] ctag_at by fastforce
  then show ?thesis using pend_find_ok(1) [OF l] by (simp add: npc_receive_def)
qed

lemma npc_receive_ok:
  assumes inv: "client_inv w us ps" and a: "a \<in> set ps" "ctag w a = fc_tag fc"
  shows "\<exists>w' tc. npc_receive fc w = Some w' \<and> client_inv w' us (remove1 a ps) \<and>
    (\<forall>b\<in>set (us @ ps) - {a}. qview w' b = qview w b) \<and> cr_tc (the (qview w a)) = Some tc \<and>
    cs_calls w' = cs_calls w @ [(ccb w a, fst (verdict tc fc), snd (verdict tc fc), Some fc)] \<and>
    npc_ids (fs_tagpool (cs_fs w')) = npc_ids (fs_tagpool (cs_fs w)) - {ucast (fc_tag fc)} \<and>
    cs_reqs w' a = None \<and> cs_out w' = cs_out w \<and> fs_rest w' = fs_rest w"
proof -
  note i = client_invD [OF inv]
  have l: "nseg cr_next (cs_reqs w) (fs_unsent_first (cs_fs w)) us None" "fs_unsent_last (cs_fs w) = lastp None us"
    "nseg cr_next (cs_reqs w) (fs_pend_first (cs_fs w)) ps None" "distinct (us @ ps)" "dom (cs_reqs w) = set (us @ ps)"
    "\<forall>b\<in>set (us @ ps). b < cs_nmalloc w"
    using i(1) by (auto simp: lists_ok_def)
  obtain xs ys where ps: "ps = xs @ a # ys" using a(1) by (meson split_list)
  have d: "a \<notin> set us" "a \<notin> set xs" "a \<notin> set ys" using l(4) ps by auto
  obtain r where r: "cs_reqs w a = Some r" using nseg_alloc [OF l(3) a(1)] by blast
  obtain tc cb where live: "cr_tc r = Some tc" "cr_cb r = Some cb" "\<not> cr_flushed r" "cr_ename r = None" "cr_ecode r = 0" "cr_tag r = fc_tag fc"
    using i(3) [of a] a qview_at [OF r] ctag_at [OF r] by (auto simp: creq_live_def)
  have other: "cr_tag (the (cs_reqs w b)) \<noteq> fc_tag fc" if b: "b \<in> set xs" for b
  proof -
    obtain s where s: "cs_reqs w b = Some s" using nseg_alloc [OF l(3), of b] ps b by auto
    have "ctag w b \<noteq> ctag w a" using i(5) b ps d(2) by (auto simp: inj_on_def)
    then show ?thesis using s a(2) ctag_at [OF s] by simp
  qed
  have find: "pend_find (cs_reqs w) (fc_tag fc) (fs_pend_first (cs_fs w)) None = Some (lastp None xs, Some a)"
    by (rule pend_find_ok(2)) (use l(3) ps other r live(6) in auto)
  have next_a: "cr_next r = headp ys None" "nseg cr_next (cs_reqs w) (cr_next r) ys None"
    "nseg cr_next (cs_reqs w) (fs_pend_first (cs_fs w)) xs (Some a)"
    using l(3) r ps nseg_head by (fastforce simp: nseg_append)+
  define w1 where "w1 = (case lastp None xs of None \<Rightarrow> upd_fs (fs_pend_first_update (\<lambda>_. cr_next r)) w
      | Some b \<Rightarrow> w\<lparr>cs_reqs := (cs_reqs w)(b \<mapsto> cr_next_update (\<lambda>_. cr_next r) (the (cs_reqs w b)))\<rparr>)"
  have last: "\<exists>zs. xs = zs @ [b]" if "lastp None xs = Some b" for b
    using that by (cases xs rule: rev_cases) (auto simp: lastp_def)
  have alloc: "\<exists>s. cs_reqs w b = Some s" if "b \<in> set ps" for b using nseg_alloc [OF l(3) that] .
  have step1: "(case lastp None xs of None \<Rightarrow> Some (upd_fs (fs_pend_first_update (\<lambda>_. cr_next r)) w)
      | Some b \<Rightarrow> do { h \<leftarrow> hupd b (cr_next_update (\<lambda>_. cr_next r)) (cs_reqs w); Some (w\<lparr>cs_reqs := h\<rparr>) }) = Some w1"
  proof (cases "lastp None xs")
    case (Some b)
    then obtain s where "cs_reqs w b = Some s" using last [OF Some] alloc ps by fastforce
    then show ?thesis using Some by (simp add: w1_def)
  qed (simp add: w1_def)
  have ra: "cs_reqs w1 a = Some r"
    using r last d(2) by (cases "lastp None xs") (auto simp: w1_def upd_fs_def)
  have q1: "qview w1 = qview w"
    using last alloc ps by (cases "lastp None xs") (fastforce simp: w1_def upd_fs_def qview_def hview_def fun_eq_iff)+
  have seg: "nseg cr_next (cs_reqs w1) (fs_pend_first (cs_fs w1)) (xs @ ys) None"
    "nseg cr_next (cs_reqs w1) (fs_unsent_first (cs_fs w1)) us None"
  proof -
    have "nseg cr_next (cs_reqs w1) (fs_pend_first (cs_fs w1)) xs (headp ys None) \<and> nseg cr_next (cs_reqs w1) (headp ys None) ys None"
    proof (cases xs rule: rev_cases)
      case Nil
      then show ?thesis using next_a by (simp add: w1_def upd_fs_def)
    next
      case (snoc zs b)
      have "nseg cr_next (cs_reqs w1) (fs_pend_first (cs_fs w)) (zs @ [b]) (headp ys None)"
        by (rule nseg_set_last [where h = "cs_reqs w" and q = "Some a" and r = "cr_next_update (\<lambda>_. cr_next r) (the (cs_reqs w b))"])
          (use next_a l(4) ps snoc in \<open>auto simp: w1_def\<close>)
      moreover have "nseg cr_next (cs_reqs w1) (headp ys None) ys None"
        using next_a(1,2) l(4) ps snoc by (auto simp: w1_def intro: nseg_cong)
      ultimately show ?thesis using snoc by (simp add: w1_def)
    qed
    then show "nseg cr_next (cs_reqs w1) (fs_pend_first (cs_fs w1)) (xs @ ys) None" by (simp add: nseg_append)
    have "map_option cr_next (cs_reqs w1 b) = map_option cr_next (cs_reqs w b)" if "b \<in> set us" for b
      using that last l(4) ps by (cases "lastp None xs") (fastforce simp: w1_def upd_fs_def)+
    moreover have "fs_unsent_first (cs_fs w1) = fs_unsent_first (cs_fs w)" by (simp add: w1_def upd_fs_def split: option.splits)
    ultimately show "nseg cr_next (cs_reqs w1) (fs_unsent_first (cs_fs w1)) us None" using nseg_cong [OF l(1)] by simp
  qed
  have rest1: "cs_nmalloc w1 = cs_nmalloc w" "cs_calls w1 = cs_calls w" "cs_out w1 = cs_out w" "fs_rest w1 = fs_rest w"
    "fs_tagpool (cs_fs w1) = fs_tagpool (cs_fs w)" "fs_unsent_last (cs_fs w1) = fs_unsent_last (cs_fs w)"
    by (simp_all add: w1_def upd_fs_def fs_rest_def split: option.splits)
  have dom1: "dom (cs_reqs w1) = dom (cs_reqs w)"
    using hview_eq_None [OF q1 [unfolded qview_def]] by (auto simp: dom_def)
  obtain v e where v: "verdict tc fc = (v, e)" by fastforce
  have tag_in: "ucast (fc_tag fc) \<in> npc_ids (fs_tagpool (cs_fs w))" using i(4) a by force
  then obtain p where p: "npc_put_id (fs_tagpool (cs_fs w)) (ucast (fc_tag fc)) = Some p" "npc_inv (ucast NOTAG) p"
    using npc.put_law [OF i(2)] by blast
  have ids: "npc_ids p = npc_ids (fs_tagpool (cs_fs w)) - {ucast (fc_tag fc)}" using npc.put_frees [OF i(2) tag_in p(1)] .
  define w' where "w' = w1\<lparr>cs_reqs := (cs_reqs w1)(a := None), cs_fs := fs_tagpool_update (\<lambda>_. p) (cs_fs w1),
    cs_calls := cs_calls w @ [(cb, v, e, Some fc)]\<rparr>"
  have run: "npc_receive fc w = Some w'"
    using find r step1 live ra v p(1) rest1
    by (simp add: npc_receive_def npc_call_back_def Let_def verdict_def upd_fs_def w'_def split: if_splits)
  have rm: "remove1 a ps = xs @ ys" using ps d by (simp add: remove1_append)
  have "nseg cr_next (cs_reqs w') (fs_pend_first (cs_fs w')) (xs @ ys) None" "nseg cr_next (cs_reqs w') (fs_unsent_first (cs_fs w')) us None"
    using seg d by (auto simp: w'_def intro: nseg_cong)
  then have ok: "lists_ok w' us (remove1 a ps)"
    unfolding rm using l(2,4-6) ps dom1 rest1 d by (auto simp: lists_ok_def w'_def)
  have qv: "qview w' b = qview w b" if "b \<noteq> a" for b using that q1 by (auto simp: w'_def qview_def hview_def fun_eq_iff)
  have tg: "ctag w' b = ctag w b" if "b \<noteq> a" for b using ctag_eq [OF qv [OF that]] .
  have na: "b \<noteq> a" if "b \<in> set (us @ remove1 a ps)" for b using that d rm by auto
  have all: "set (us @ ps) = insert a (set (us @ remove1 a ps))" using ps rm by auto
  have ne: "ctag w b \<noteq> fc_tag fc" if "b \<in> set (us @ remove1 a ps)" for b
    using inj_onD [OF i(5), of b a] na [OF that] a that all by (metis insertCI)
  have "(\<lambda>b. ucast (ctag w' b)) ` set (us @ remove1 a ps) = npc_ids p"
  proof -
    have "(\<lambda>b. ucast (ctag w' b)) ` set (us @ remove1 a ps) = (\<lambda>b. ucast (ctag w b)) ` set (us @ remove1 a ps)"
      by (rule image_cong) (use tg na in auto)
    also have "\<dots> = insert (ucast (fc_tag fc)) ((\<lambda>b. ucast (ctag w b)) ` set (us @ remove1 a ps)) - {ucast (fc_tag fc) :: u32}"
    proof -
      have "(ucast (fc_tag fc) :: u32) \<notin> (\<lambda>b. ucast (ctag w b)) ` set (us @ remove1 a ps)"
      proof
        assume "(ucast (fc_tag fc) :: u32) \<in> (\<lambda>b. ucast (ctag w b)) ` set (us @ remove1 a ps)"
        then obtain b where b: "b \<in> set (us @ remove1 a ps)" "(ucast (fc_tag fc) :: u32) = ucast (ctag w b)" by blast
        then have "ctag w b = fc_tag fc" by (metis ucast_ucast_id_tag)
        then show False using ne b(1) by blast
      qed
      then show ?thesis by blast
    qed
    also have "\<dots> = npc_ids p" unfolding ids i(4) all using a(2) by simp
    finally show ?thesis .
  qed
  moreover have "inj_on (ctag w') (set (us @ remove1 a ps))"
    using inj_on_subset [OF i(5), of "set (us @ remove1 a ps)"] all tg na by (metis inj_on_cong subset_insertI)
  moreover have "\<exists>r. qview w' b = Some r \<and> creq_live r" if "b \<in> set (us @ remove1 a ps)" for b
    using i(3) [of b] qv [OF na [OF that]] that all by (metis insertCI)
  ultimately have "client_inv w' us (remove1 a ps)"
    using ok p(2) by (auto simp: client_inv_def w'_def)
  moreover have "ccb w a = cb" using qview_at [OF r] live(2) by (simp add: ccb_def)
  moreover have "cs_reqs w' a = None" "cs_out w' = cs_out w" "fs_rest w' = fs_rest w" "npc_ids (fs_tagpool (cs_fs w')) = npc_ids p"
    "cs_calls w' = cs_calls w @ [(cb, v, e, Some fc)]"
    using rest1 by (simp_all add: w'_def fs_rest_def)
  moreover have "cr_tc (the (qview w a)) = Some tc" using qview_at [OF r] live(1) by simp
  ultimately show ?thesis using run qv v ids by (intro exI [of _ w'] exI [of _ tc]) auto
qed

lemma npc_abort_ok:
  "nseg cr_next (cs_reqs w) p xs None \<Longrightarrow> distinct xs \<Longrightarrow> \<forall>a\<in>set xs. \<exists>r. qview w a = Some r \<and> creq_live r \<Longrightarrow>
    \<exists>w'. npc_abort p w = Some w' \<and> cs_fs w' = cs_fs w \<and> cs_closed w' = cs_closed w \<and>
      (\<forall>b. cs_reqs w' b = (if b \<in> set xs then None else cs_reqs w b)) \<and>
      cs_calls w' = cs_calls w @ map (\<lambda>a. (ccb w a, Some Econn, ECONNABORTED, None)) xs"
proof (induction xs arbitrary: p w)
  case Nil
  then show ?case by (simp add: npc_abort.simps)
next
  case (Cons a xs)
  obtain r where r: "cs_reqs w a = Some r" "p = Some a" "nseg cr_next (cs_reqs w) (cr_next r) xs None"
    using Cons.prems(1) by (auto split: option.splits)
  obtain cb where live: "cr_cb r = Some cb" "cr_rc r = None"
    using Cons.prems(3) qview_at [OF r(1)] by (auto simp: creq_live_def)
  define w1 where "w1 = w\<lparr>cs_calls := cs_calls w @ [(cb, Some Econn, ECONNABORTED, None)], cs_reqs := (cs_reqs w)(a := None)\<rparr>"
  have run: "npc_abort p w = npc_abort (cr_next r) w1"
    using r(1,2) live by (subst npc_abort.simps) (simp add: npc_call_back_def w1_def Let_def)
  have na: "b \<noteq> a" if "b \<in> set xs" for b using that Cons.prems(2) by auto
  have q: "qview w1 b = qview w b" if "b \<in> set xs" for b using na [OF that] by (simp add: w1_def qview_def hview_def)
  have s1: "nseg cr_next (cs_reqs w1) (cr_next r) xs None" by (rule nseg_cong [OF r(3)]) (use na in \<open>auto simp: w1_def\<close>)
  have v1: "\<forall>a\<in>set xs. \<exists>r. qview w1 a = Some r \<and> creq_live r" using Cons.prems(3) q by simp
  obtain w' where w': "npc_abort (cr_next r) w1 = Some w'" "cs_fs w' = cs_fs w1" "cs_closed w' = cs_closed w1"
      "\<forall>b. cs_reqs w' b = (if b \<in> set xs then None else cs_reqs w1 b)"
      "cs_calls w' = cs_calls w1 @ map (\<lambda>a. (ccb w1 a, Some Econn, ECONNABORTED, None)) xs"
    using Cons.IH [OF s1 _ v1] Cons.prems(2) by auto
  have "ccb w a = cb" using qview_at [OF r(1)] live(1) by (simp add: ccb_def)
  moreover have "map (\<lambda>a. (ccb w1 a, Some Econn, ECONNABORTED, None)) xs = map (\<lambda>a. (ccb w a, Some Econn, ECONNABORTED, None)) xs"
    using ccb_eq [OF q] by simp
  ultimately show ?case using run w' by (auto simp: w1_def)
qed

lemma npc_read_end_ok:
  assumes inv: "client_inv w us ps"
  shows "\<exists>w'. npc_read_end w = Some w' \<and> cs_reqs w' = (\<lambda>_. None) \<and> fs_trans (cs_fs w') = None \<and>
    cs_calls w' = cs_calls w @ map (\<lambda>a. (ccb w a, Some Econn, ECONNABORTED, None)) (us @ ps)"
proof -
  note i = client_invD [OF inv]
  have l: "nseg cr_next (cs_reqs w) (fs_unsent_first (cs_fs w)) us None"
    "nseg cr_next (cs_reqs w) (fs_pend_first (cs_fs w)) ps None" "distinct (us @ ps)" "dom (cs_reqs w) = set (us @ ps)"
    using i(1) by (auto simp: lists_ok_def)
  define w0 where "w0 = upd_fs (fs_trans_update (\<lambda>_. None)) (case fs_trans (cs_fs w) of None \<Rightarrow> upd_fs (\<lambda>fs. fs\<lparr>fs_unsent_first := None, fs_pend_first := None\<rparr>) w
      | Some t \<Rightarrow> (upd_fs (\<lambda>fs. fs\<lparr>fs_unsent_first := None, fs_pend_first := None\<rparr>) w)\<lparr>cs_closed := cs_closed w @ [t]\<rparr>)"
  have w0: "cs_reqs w0 = cs_reqs w" "cs_calls w0 = cs_calls w" "fs_trans (cs_fs w0) = None"
    by (simp_all add: w0_def upd_fs_def split: option.splits)
  have run: "npc_read_end w = Option.bind (npc_abort (fs_unsent_first (cs_fs w)) w0) (npc_abort (fs_pend_first (cs_fs w)))"
    by (simp add: npc_read_end_def Let_def w0_def upd_fs_def split: option.splits)
  have q0: "qview w0 = qview w" by (simp add: qview_def w0)
  have lv: "\<forall>a\<in>set us. \<exists>r. qview w0 a = Some r \<and> creq_live r" using i(3) q0 by simp
  obtain w1 where w1: "npc_abort (fs_unsent_first (cs_fs w)) w0 = Some w1" "cs_fs w1 = cs_fs w0"
      "\<forall>b. cs_reqs w1 b = (if b \<in> set us then None else cs_reqs w b)"
      "cs_calls w1 = cs_calls w @ map (\<lambda>a. (ccb w0 a, Some Econn, ECONNABORTED, None)) us"
    using npc_abort_ok [of w0 _ us, OF _ _ lv] l(1,3) w0 by fastforce
  have nu: "b \<notin> set us" if "b \<in> set ps" for b using that l(3) by auto
  have q1: "qview w1 b = qview w b" if "b \<in> set ps" for b using w1(3) nu [OF that] by (simp add: qview_def hview_def)
  have s1: "nseg cr_next (cs_reqs w1) (fs_pend_first (cs_fs w)) ps None"
    by (rule nseg_cong [OF l(2)]) (use w1(3) nu in simp)
  have lv1: "\<forall>a\<in>set ps. \<exists>r. qview w1 a = Some r \<and> creq_live r" using i(3) q1 by simp
  obtain w2 where w2: "npc_abort (fs_pend_first (cs_fs w)) w1 = Some w2" "cs_fs w2 = cs_fs w1"
      "\<forall>b. cs_reqs w2 b = (if b \<in> set ps then None else cs_reqs w1 b)"
      "cs_calls w2 = cs_calls w1 @ map (\<lambda>a. (ccb w1 a, Some Econn, ECONNABORTED, None)) ps"
    using npc_abort_ok [OF s1 _ lv1] l(3) by auto
  have "cs_reqs w2 b = None" for b
    using w1(3) w2(3) l(4) by (auto simp: dom_def split: if_splits)
  moreover have "ccb w0 b = ccb w b" for b by (simp add: ccb_def q0)
  moreover have "ccb w1 b = ccb w b" if "b \<in> set ps" for b using ccb_eq [OF q1 [OF that]] .
  ultimately show ?thesis using run w1 w2 w0(3) by (intro exI [of _ w2]) auto
qed

section \<open>Runs\<close>

text \<open>
  The events of a client: a request is issued (with the outcome of the pool's allocation, the
  message and the callback), the writer makes a turn (with the result of the transport), a
  message is received. \<open>issued\<close> collects the callbacks of the requests that were queued.
\<close>

datatype cl_event = Issue bool Npfcall nat | Write int | Receive Npfcall

fun cl_run :: "cl_event list \<Rightarrow> nat list \<Rightarrow> cstate \<Rightarrow> (nat list \<times> cstate) option" where
  "cl_run [] issued w = Some (issued, w)"
| "cl_run (Issue mem tc cb # es) issued w = do {
     (r, w) \<leftarrow> npc_rpcnb True mem tc (Some cb) w;
     cl_run es (if r = Queued then issued @ [cb] else issued) w
   }"
| "cl_run (Write n # es) issued w = do { w \<leftarrow> npc_write_one n w; cl_run es issued w }"
| "cl_run (Receive fc # es) issued w = do { w \<leftarrow> npc_receive fc w; cl_run es issued w }"

definition cl_event_ok :: "cl_event \<Rightarrow> bool" where
  "cl_event_ok e = (case e of Issue mem tc cb \<Rightarrow> issuable tc | _ \<Rightarrow> True)"

text \<open>Callbacks made and callbacks still owed make up those issued.\<close>

definition balanced :: "cstate \<Rightarrow> addr list \<Rightarrow> nat list \<Rightarrow> bool" where
  "balanced w xs issued \<longleftrightarrow> mset (map fst (cs_calls w)) + mset (map (ccb w) xs) = mset issued"

lemma map_ccb_cong: "\<forall>b\<in>set xs. qview w' b = qview w b \<Longrightarrow> map (ccb w') xs = map (ccb w) xs"
  by (simp add: ccb_def)

lemma cl_run_inv:
  "client_inv w us ps \<Longrightarrow> \<forall>e\<in>set es. cl_event_ok e \<Longrightarrow> balanced w (us @ ps) issued \<Longrightarrow>
    \<exists>issued' w' us' ps'. cl_run es issued w = Some (issued', w') \<and> client_inv w' us' ps' \<and> balanced w' (us' @ ps') issued'"
proof (induction es arbitrary: w us ps issued)
  case Nil
  then show ?case by auto
next
  case (Cons e es)
  have ok: "\<forall>e\<in>set es. cl_event_ok e" using Cons.prems(2) by simp
  show ?case
  proof (cases e)
    case (Issue mem tc cb)
    have "issuable tc" using Cons.prems(2) Issue by (simp add: cl_event_ok_def)
    from npc_rpcnb_ok [OF Cons.prems(1) this, of mem cb] show ?thesis
    proof (elim disjE exE conjE)
      fix w'
      assume w': "npc_rpcnb True mem tc (Some cb) w = Some (Queued, w')" "client_inv w' (us @ [cs_nmalloc w]) ps"
        "\<forall>b\<in>set (us @ ps). qview w' b = qview w b" "ccb w' (cs_nmalloc w) = cb" "cs_calls w' = cs_calls w"
      have "map (ccb w') us = map (ccb w) us" "map (ccb w') ps = map (ccb w) ps"
        using map_ccb_cong [of us w' w] map_ccb_cong [of ps w' w] w'(3) by simp_all
      then have "balanced w' ((us @ [cs_nmalloc w]) @ ps) (issued @ [cb])"
        using Cons.prems(3) w'(4,5) by (simp add: balanced_def del: mset_map map_eq_conv)
      then show ?thesis using Cons.IH [OF w'(2) ok] w'(1) Issue by simp
    next
      fix r
      assume "r \<noteq> Queued" "npc_rpcnb True mem tc (Some cb) w = Some (r, w)"
      then show ?thesis using Cons.IH [OF Cons.prems(1) ok Cons.prems(3)] Issue by simp
    qed
  next
    case (Write n)
    show ?thesis
    proof (cases "fs_trans (cs_fs w) = None \<or> us = []")
      case True
      then have "npc_write_one n w = Some w"
        using client_invD(1) [OF Cons.prems(1)] by (auto simp: npc_write_one_def lists_ok_def split: option.splits)
      then show ?thesis using Cons.IH [OF Cons.prems(1) ok Cons.prems(3)] Write by simp
    next
      case False
      then obtain t a vs where t: "fs_trans (cs_fs w) = Some t" "us = a # vs" by (cases us) auto
      obtain w' where w': "npc_write_one n w = Some w'" "client_inv w' vs (a # ps)" "qview w' = qview w" "cs_calls w' = cs_calls w"
        using npc_write_one_ok [of w a vs ps t n] Cons.prems(1) t by auto
      have "ccb w' = ccb w" using w'(3) by (simp add: ccb_def fun_eq_iff)
      then have "balanced w' (vs @ a # ps) issued"
        using Cons.prems(3) w'(4) t(2) by (simp add: balanced_def)
      then show ?thesis using Cons.IH [OF w'(2) ok] w'(1) Write by simp
    qed
  next
    case (Receive fc)
    show ?thesis
    proof (cases "\<exists>a\<in>set ps. ctag w a = fc_tag fc")
      case False
      then have "npc_receive fc w = Some w" using npc_receive_unknown [OF Cons.prems(1)] by blast
      then show ?thesis using Cons.IH [OF Cons.prems(1) ok Cons.prems(3)] Receive by simp
    next
      case True
      then obtain a where a: "a \<in> set ps" "ctag w a = fc_tag fc" by blast
      obtain w' tc where w': "npc_receive fc w = Some w'" "client_inv w' us (remove1 a ps)"
          "\<forall>b\<in>set (us @ ps) - {a}. qview w' b = qview w b"
          "cs_calls w' = cs_calls w @ [(ccb w a, fst (verdict tc fc), snd (verdict tc fc), Some fc)]"
        using npc_receive_ok [OF Cons.prems(1) a] by blast
      have d: "distinct (us @ ps)" using client_invD(1) [OF Cons.prems(1)] by (simp add: lists_ok_def)
      have "map (ccb w') us = map (ccb w) us" "map (ccb w') (remove1 a ps) = map (ccb w) (remove1 a ps)"
        using map_ccb_cong [of us w' w] map_ccb_cong [of "remove1 a ps" w' w] w'(3) d a(1) by (auto dest: notin_set_remove1)
      moreover have "mset (map (ccb w) ps) = {#ccb w a#} + mset (map (ccb w) (remove1 a ps))"
        using a(1) by (simp add: mset_map mset_remove1) (metis image_mset_add_mset insert_DiffM set_mset_mset)
      ultimately have "balanced w' (us @ remove1 a ps) issued"
        using Cons.prems(3) w'(4) by (simp add: balanced_def del: mset_map map_eq_conv mset_remove1)
      then show ?thesis using Cons.IH [OF w'(2) ok] w'(1) Receive by simp
    qed
  qed
qed

section \<open>What a client can rely on\<close>

text \<open>A client just made: nothing queued or pending, a new pool of tags, an open transport.\<close>

definition new_client :: "nat \<Rightarrow> cstate" where
  "new_client t = \<lparr>cs_fs = \<lparr>fs_trans = Some t, fs_dotu = True, fs_tagpool = \<lparr>np_maxid = ucast NOTAG, np_map = replicate 32 0\<rparr>,
     fs_unsent_first = None, fs_unsent_last = None, fs_pend_first = None\<rparr>,
     cs_reqs = (\<lambda>_. None), cs_nmalloc = 0, cs_calls = [], cs_out = [], cs_closed = []\<rparr>"

lemma new_client_inv: "client_inv (new_client t) [] []"
proof -
  have "npc_create_pool (ucast NOTAG) True True = Inr \<lparr>np_maxid = ucast NOTAG, np_map = replicate 32 0\<rparr>"
    by (simp add: npc_create_pool_def)
  from npc_create_pool_ok [OF this] show ?thesis
    by (simp add: client_inv_def lists_ok_def new_client_def)
qed


definition sample_tc :: Npfcall where
  "sample_tc = npfcall_zero\<lparr>fc_type := Tclunk, fc_size := 7, fc_pkt := [7, 0, 0, 0, 120, 255, 255]\<rparr>"

definition sample_rc :: Npfcall where
  "sample_rc = npfcall_zero\<lparr>fc_type := Rclunk, fc_tag := 0\<rparr>"

lemma sample_tc_issuable: "issuable sample_tc"
  by (simp add: issuable_def sample_tc_def npfcall_zero_def Tclunk_def Tversion_def)




section \<open>What it cannot\<close>

text \<open>
  C38. The reply to the version request, the first message on every connection, makes the client
  give back the tag \<^verbatim>\<open>NOTAG\<close>, which the pool never handed out: \<^verbatim>\<open>npc_put_id\<close> writes far behind the
  32 bytes of the map.
\<close>

lemma put_notag: "npc_put_id \<lparr>np_maxid = m, np_map = replicate 32 0\<rparr> (ucast NOTAG) = None"
proof -
  have "unat ((ucast NOTAG :: u32) div 8) = 8191" unfolding notag_u32 by code_simp
  then show ?thesis by (simp add: npc_put_id_def drop_id_def)
qed

theorem npc_version_reply_faults:
  assumes "fc_type tv = Tversion" and "fc_tag tv = NOTAG" and "unat (fc_size tv) \<le> length (fc_pkt tv)" and "fc_tag fc = NOTAG"
  shows "cl_run [Issue mem tv cb, Write n, Receive fc] [] (new_client t) = None"
  using assms put_notag
  by (simp add: new_client_def npc_rpcnb_def npc_reqalloc_def npc_enqueue_def new_creq_def npc_write_one_def npc_receive_def
      npc_call_back_def Let_def upd_fs_def hupd_def pend_find.simps [of _ _ "Some _"] split: if_splits)

lemma npc_version_reply_faults_witness:
  "cl_run [Issue True (npfcall_zero\<lparr>fc_type := Tversion, fc_tag := NOTAG, fc_size := 7, fc_pkt := [7, 0, 0, 0, 100, 255, 255]\<rparr>) 5,
     Write 7, Receive (npfcall_zero\<lparr>fc_type := Rversion, fc_tag := NOTAG\<rparr>)] [] (new_client 3) = None"
  by (rule npc_version_reply_faults) (simp_all add: npfcall_zero_def)

text \<open>The first two tags of a new pool.\<close>

lemma first_tags:
  "npc_get_id mem \<lparr>np_maxid = ucast NOTAG, np_map = replicate 32 0\<rparr> = (Some 0, \<lparr>np_maxid = ucast NOTAG, np_map = 1 # replicate 31 0\<rparr>)"
  "npc_get_id mem \<lparr>np_maxid = ucast NOTAG, np_map = 1 # replicate 31 0\<rparr> = (Some 1, \<lparr>np_maxid = ucast NOTAG, np_map = 3 # replicate 31 0\<rparr>)"
  by (cases mem; simp only:; code_simp)+

text \<open>The message with its tag set, and the state after two requests.\<close>

definition tagged_tc :: "u16 \<Rightarrow> Npfcall \<Rightarrow> Npfcall" where
  "tagged_tc tag tc = tc\<lparr>fc_tag := tag, fc_pkt := (fc_pkt tc)[5 := ucast tag, 6 := ucast (drop_bit 8 tag)]\<rparr>"

definition two_requests :: "nat \<Rightarrow> Npfcall \<Rightarrow> nat \<Rightarrow> Npfcall \<Rightarrow> nat \<Rightarrow> cstate" where
  "two_requests t ta ca tb cb =
     \<lparr>cs_fs = \<lparr>fs_trans = Some t, fs_dotu = True, fs_tagpool = \<lparr>np_maxid = ucast NOTAG, np_map = 3 # replicate 31 0\<rparr>,
        fs_unsent_first = Some 0, fs_unsent_last = Some 1, fs_pend_first = None\<rparr>,
      cs_reqs = [0 \<mapsto> new_creq\<lparr>cr_tag := 0, cr_tc := Some (tagged_tc 0 ta), cr_cb := Some ca, cr_next := Some 1\<rparr>,
                 1 \<mapsto> new_creq\<lparr>cr_tag := 1, cr_tc := Some (tagged_tc 1 tb), cr_cb := Some cb, cr_prev := Some 0\<rparr>],
      cs_nmalloc = 2, cs_calls = [], cs_out = [], cs_closed = []\<rparr>"

lemma two_requests:
  assumes "issuable ta" "issuable tb"
  shows "cl_run [Issue m1 ta ca, Issue m2 tb cb] [] (new_client t) = Some ([ca, cb], two_requests t ta ca tb cb)"
  using assms
  by (simp add: new_client_def npc_rpcnb_def npc_reqalloc_def npc_enqueue_def new_creq_def issuable_def first_tags np_set_tag_def
      Let_def upd_fs_def hupd_def two_requests_def tagged_tc_def fun_upd_twist)

declare cancel_unsent.simps [simp del] cancel_pend.simps [simp del] cancel_report.simps [simp del]

lemma cancel_simps:
  "cancel_unsent fid None ureqs w = Some (ureqs, w)"
  "cancel_pend fid None ftags h = Some (ftags, h)"
  "cancel_report None w = Some w"
  by (simp_all add: cancel_unsent.simps cancel_pend.simps cancel_report.simps)

text \<open>
  Cancelling the requests of a fid loses those queued before them: of two requests that are
  queued, cancelling the fid of the second also takes the first off the queue. The first is
  never sent, and it is not called back, not even when the connection ends.
\<close>

theorem npc_cancel_loses_requests:
  assumes "issuable ta" and "issuable tb" and "fc_fid ta \<noteq> fid" and "fc_fid tb = fid"
  shows "\<exists>issued w w1 w2. cl_run [Issue m1 ta ca, Issue m2 tb cb] [] (new_client t) = Some (issued, w) \<and>
    npc_cancel_queued True fid w = Some (Some [], w1) \<and> map fst (cs_calls w1) = [cb] \<and>
    npc_write_one n w1 = Some w1 \<and> npc_read_end w1 = Some w2 \<and> map fst (cs_calls w2) = [cb] \<and> cs_reqs w2 \<noteq> (\<lambda>_. None)"
proof -
  let ?w = "two_requests t ta ca tb cb"
  have put: "npc_put_id \<lparr>np_maxid = ucast NOTAG, np_map = 3 # replicate 31 0\<rparr> 1 = Some \<lparr>np_maxid = ucast NOTAG, np_map = 1 # replicate 31 0\<rparr>"
    by code_simp
  have fid: "fc_fid (tagged_tc x ta) \<noteq> fid" "fc_fid (tagged_tc x tb) = fid" for x using assms(3,4) by (simp_all add: tagged_tc_def)
  define w1 where "w1 = ?w\<lparr>cs_fs := (cs_fs ?w)\<lparr>fs_unsent_first := None, fs_unsent_last := Some 0,
      fs_tagpool := \<lparr>np_maxid = ucast NOTAG, np_map = 1 # replicate 31 0\<rparr>\<rparr>,
    cs_reqs := [0 \<mapsto> new_creq\<lparr>cr_tag := 0, cr_tc := Some (tagged_tc 0 ta), cr_cb := Some ca, cr_next := None\<rparr>],
    cs_calls := [(cb, Some (cstr ''file closed''), EIO, None)]\<rparr>"
  have c: "npc_cancel_queued True fid ?w = Some (Some [], w1)"
    using fid put
    by (simp add: npc_cancel_queued_def two_requests_def cancel_unsent.simps [of _ "Some _"] cancel_report.simps [of "Some _"]
        cancel_simps hupd_def Let_def new_creq_def npc_call_back_def upd_fs_def w1_def fun_upd_twist)
  define w2 where "w2 = upd_fs (fs_trans_update (\<lambda>_. None)) (w1\<lparr>cs_closed := [t]\<rparr>)"
  have e: "npc_read_end w1 = Some w2"
    by (simp add: npc_read_end_def w1_def w2_def two_requests_def upd_fs_def Let_def npc_abort.simps [of None])
  have w: "npc_write_one n w1 = Some w1" by (simp add: npc_write_one_def w1_def two_requests_def)
  have l: "map fst (cs_calls w1) = [cb]" "map fst (cs_calls w2) = [cb]" by (simp_all add: w1_def w2_def upd_fs_def)
  have "cs_reqs w2 0 \<noteq> None" by (simp add: w1_def w2_def upd_fs_def)
  then have "cs_reqs w2 \<noteq> (\<lambda>_. None)" by auto
  then show ?thesis
    using two_requests [OF assms(1,2), of m1 ca m2 cb t] c e w l
    by - (rule exI, rule exI, rule exI, rule exI, intro conjI, assumption+)
qed

lemma sample_tc_at: "issuable (sample_tc\<lparr>fc_fid := k\<rparr>)"
  using sample_tc_issuable by (simp add: issuable_def)

lemma npc_cancel_loses_requests_witness:
  "\<exists>issued w w1 w2. cl_run [Issue True (sample_tc\<lparr>fc_fid := 1\<rparr>) 5, Issue True (sample_tc\<lparr>fc_fid := 2\<rparr>) 6] [] (new_client 3) = Some (issued, w) \<and>
    npc_cancel_queued True 2 w = Some (Some [], w1) \<and> map fst (cs_calls w1) = [6] \<and>
    npc_write_one 7 w1 = Some w1 \<and> npc_read_end w1 = Some w2 \<and> map fst (cs_calls w2) = [6] \<and> cs_reqs w2 \<noteq> (\<lambda>_. None)"
  by (rule npc_cancel_loses_requests [OF sample_tc_at sample_tc_at]) simp_all

lemma cl_run_append:
  "cl_run (es @ fs) issued w = do { (issued, w) \<leftarrow> cl_run es issued w; cl_run fs issued w }"
  by (induction es issued w rule: cl_run.induct) (auto split: Option.bind_splits)

text \<open>
  It also follows a stale link: \<^verbatim>\<open>npc_write_proc\<close> leaves the back link of the new head of the
  queue as it was. When the request sent last has been answered, and freed, cancelling the one
  behind it writes into the freed memory.
\<close>

theorem npc_cancel_uses_freed:
  assumes "issuable ta" and "issuable tb" and "fc_fid tb = fid" and "fc_tag fc = 0"
  shows "\<exists>issued w. cl_run [Issue m1 ta ca, Issue m2 tb cb, Write n, Receive fc] [] (new_client t) = Some (issued, w) \<and>
    fs_unsent_first (cs_fs w) \<noteq> None \<and> npc_cancel_queued True fid w = None"
proof -
  let ?w = "two_requests t ta ca tb cb"
  have put: "npc_put_id \<lparr>np_maxid = ucast NOTAG, np_map = 3 # replicate 31 0\<rparr> 0 = Some \<lparr>np_maxid = ucast NOTAG, np_map = 2 # replicate 31 0\<rparr>"
    by code_simp
  have live: "unat (fc_size (tagged_tc 0 ta)) \<le> length (fc_pkt (tagged_tc 0 ta))" using assms(1) by (simp add: issuable_def tagged_tc_def)
  have fid: "fc_fid (tagged_tc x tb) = fid" for x using assms(3) by (simp add: tagged_tc_def)
  obtain w1 where w1: "npc_write_one n ?w = Some w1"
      "cs_reqs w1 = [0 \<mapsto> new_creq\<lparr>cr_tag := 0, cr_tc := Some (tagged_tc 0 ta), cr_cb := Some ca\<rparr>,
                 1 \<mapsto> new_creq\<lparr>cr_tag := 1, cr_tc := Some (tagged_tc 1 tb), cr_cb := Some cb, cr_prev := Some 0\<rparr>]"
      "fs_unsent_first (cs_fs w1) = Some 1" "fs_pend_first (cs_fs w1) = Some 0"
      "fs_tagpool (cs_fs w1) = \<lparr>np_maxid = ucast NOTAG, np_map = 3 # replicate 31 0\<rparr>"
    using live by (cases "n < 0") (simp_all add: npc_write_one_def two_requests_def hupd_def Let_def upd_fs_def fun_upd_twist new_creq_def)
  obtain w2 where w2: "npc_receive fc w1 = Some w2" "fs_unsent_first (cs_fs w2) = Some 1"
      "cs_reqs w2 = [1 \<mapsto> new_creq\<lparr>cr_tag := 1, cr_tc := Some (tagged_tc 1 tb), cr_cb := Some cb, cr_prev := Some 0\<rparr>]"
    using w1(2-5) assms(4) put
    by (cases "fc_type fc = Rerror"; cases "fc_type fc = fc_type (tagged_tc 0 ta) + 1")
      (simp_all add: npc_receive_def pend_find.simps [of _ _ "Some _"] new_creq_def npc_call_back_def Let_def upd_fs_def fun_upd_twist hupd_def)
  have "cl_run [Write n, Receive fc] [ca, cb] ?w = Some ([ca, cb], w2)" using w1(1) w2(1) by simp
  then have "cl_run ([Issue m1 ta ca, Issue m2 tb cb] @ [Write n, Receive fc]) [] (new_client t) = Some ([ca, cb], w2)"
    unfolding cl_run_append two_requests [OF assms(1,2)] by (simp del: cl_run.simps)
  then have "cl_run [Issue m1 ta ca, Issue m2 tb cb, Write n, Receive fc] [] (new_client t) = Some ([ca, cb], w2)"
    by (simp del: cl_run.simps)
  moreover have "npc_cancel_queued True fid w2 = None"
    using w2(2,3) fid by (simp add: npc_cancel_queued_def cancel_unsent.simps [of _ "Some _"] hupd_def)
  ultimately show ?thesis using w2(2) by blast
qed

lemma npc_cancel_uses_freed_witness:
  "\<exists>issued w. cl_run [Issue True (sample_tc\<lparr>fc_fid := 1\<rparr>) 5, Issue True (sample_tc\<lparr>fc_fid := 2\<rparr>) 6, Write 7, Receive sample_rc] [] (new_client 3) = Some (issued, w) \<and>
    fs_unsent_first (cs_fs w) \<noteq> None \<and> npc_cancel_queued True 2 w = None"
  by (rule npc_cancel_uses_freed [OF sample_tc_at sample_tc_at]) (simp_all add: sample_rc_def)

end
