(* ===== verification/NpFile.thy ===== *)
theory NpFile
  imports FidPool NpCodec
begin

text \<open>
  The synthetic file layer, \<^verbatim>\<open>npfs/libnpfs/file.c\<close>: a tree of reference counted
  \<^verbatim>\<open>Npfile\<close>s behind the fids of the server. A file server supplies tables of file and
  directory operations (\<open>fileops\<close>, \<open>dirops\<close>), which are parameters here and act on
  the whole state; the layer turns the callbacks of \<^verbatim>\<open>Npsrv\<close> into calls of them.
  The layer's own store is the \<^verbatim>\<open>w_user\<close> part of the library's state. As elsewhere, a
  result \<open>None\<close> is a fault: a NULL or dangling pointer is followed, memory outside a
  buffer is accessed, or an assertion fails. The mutexes are left out.
\<close>

section \<open>Structures\<close>

text \<open>
  \<open>fl_ops\<close> is the untyped pointer \<^verbatim>\<open>ops\<close>, which the code reads as a
  \<^verbatim>\<open>Npdirops\<close> when the mode has \<^verbatim>\<open>Dmdir\<close> and as a
  \<^verbatim>\<open>Npfileops\<close> otherwise; reading it as the wrong one is a fault. The links at the
  end are for the file server's use.
\<close>

record Npfile =
  fl_refcount :: int
  fl_parent :: "addr option"
  fl_qid :: Npqid
  fl_mode :: u32
  fl_atime :: u32
  fl_mtime :: u32
  fl_length :: u64
  fl_name :: "cstring option"
  fl_uid :: "addr option"
  fl_gid :: "addr option"
  fl_muid :: "addr option"
  fl_extension :: "cstring option"
  fl_excl :: bool
  fl_ops :: "nat option"
  fl_aux :: "addr option"
  fl_next :: "addr option"
  fl_prev :: "addr option"
  fl_dirfirst :: "addr option"
  fl_dirlast :: "addr option"

record Npfilefid =
  ff_fid :: addr
  ff_file :: addr
  ff_omode :: int
  ff_diroffset :: u64
  ff_dirent :: "addr option"

text \<open>
  The store of the layer: files and their fids, \<^verbatim>\<open>Npfid.aux\<close>
  (\<open>fs_fidaux\<close>), the groups, \<^verbatim>\<open>srv->treeaux\<close> (\<open>fs_root\<close>), the clock,
  whose \<open>n\<close>-th reading is \<open>fs_clock n\<close>, and the file server's own state.
\<close>

record 'x fstore =
  fs_files :: "Npfile heap"
  fs_ffids :: "Npfilefid heap"
  fs_fidaux :: "addr \<Rightarrow> addr option"
  fs_groups :: "Npgroup heap"
  fs_root :: "addr option"
  fs_clock :: "nat \<Rightarrow> u32"
  fs_ticks :: nat
  fs_x :: 'x

type_synonym 'x fworld = "'x fstore world"

text \<open>
  The operation tables. A \<^verbatim>\<open>read\<close> is given the memory its \<^verbatim>\<open>data\<close>
  points to, up to the end of the packet, and returns it as it leaves it.
\<close>

record 'x fileops =
  fo_ref :: "(addr \<Rightarrow> addr \<Rightarrow> 'x fworld \<Rightarrow> 'x fworld option) option"
  fo_unref :: "(addr \<Rightarrow> addr \<Rightarrow> 'x fworld \<Rightarrow> 'x fworld option) option"
  fo_read :: "(addr \<Rightarrow> u64 \<Rightarrow> u32 \<Rightarrow> u8 list \<Rightarrow> addr \<Rightarrow> 'x fworld \<Rightarrow> (int \<times> u8 list \<times> 'x fworld) option) option"
  fo_write :: "(addr \<Rightarrow> u64 \<Rightarrow> u32 \<Rightarrow> u8 list \<Rightarrow> addr \<Rightarrow> 'x fworld \<Rightarrow> (int \<times> 'x fworld) option) option"
  fo_wstat :: "(addr \<Rightarrow> u8 list \<Rightarrow> Npstat \<Rightarrow> 'x fworld \<Rightarrow> (bool \<times> 'x fworld) option) option"
  fo_destroy :: "(addr \<Rightarrow> 'x fworld \<Rightarrow> 'x fworld option) option"
  fo_openfid :: "(addr \<Rightarrow> 'x fworld \<Rightarrow> (bool \<times> 'x fworld) option) option"
  fo_closefid :: "(addr \<Rightarrow> 'x fworld \<Rightarrow> 'x fworld option) option"

record 'x dirops =
  do_ref :: "(addr \<Rightarrow> addr \<Rightarrow> 'x fworld \<Rightarrow> 'x fworld option) option"
  do_unref :: "(addr \<Rightarrow> addr \<Rightarrow> 'x fworld \<Rightarrow> 'x fworld option) option"
  do_create :: "(addr \<Rightarrow> cstring \<Rightarrow> u32 \<Rightarrow> addr option \<Rightarrow> addr option \<Rightarrow> cstring option \<Rightarrow> 'x fworld \<Rightarrow>
    (addr option \<times> 'x fworld) option) option"
  do_first :: "(addr \<Rightarrow> 'x fworld \<Rightarrow> (addr option \<times> 'x fworld) option) option"
  do_next :: "(addr \<Rightarrow> addr \<Rightarrow> 'x fworld \<Rightarrow> (addr option \<times> 'x fworld) option) option"
  do_wstat :: "(addr \<Rightarrow> u8 list \<Rightarrow> Npstat \<Rightarrow> 'x fworld \<Rightarrow> (bool \<times> 'x fworld) option) option"
  do_remove :: "(addr \<Rightarrow> addr \<Rightarrow> 'x fworld \<Rightarrow> (bool \<times> 'x fworld) option) option"
  do_destroy :: "(addr \<Rightarrow> 'x fworld \<Rightarrow> 'x fworld option) option"

text \<open>The tables by their addresses, and the \<^verbatim>\<open>ismember\<close> of the user pool.\<close>

record 'x fenv =
  fe_fileops :: "nat \<Rightarrow> 'x fileops option"
  fe_dirops :: "nat \<Rightarrow> 'x dirops option"
  fe_ismember :: "addr \<Rightarrow> addr option \<Rightarrow> 'x fworld \<Rightarrow> bool option"

section \<open>Access\<close>

definition file_at :: "addr \<Rightarrow> 'x fworld \<Rightarrow> Npfile option" where
  "file_at a w = fs_files (w_user w) a"

definition ffid_at :: "addr \<Rightarrow> 'x fworld \<Rightarrow> Npfilefid option" where
  "ffid_at a w = fs_ffids (w_user w) a"

definition set_file :: "addr \<Rightarrow> Npfile option \<Rightarrow> 'x fworld \<Rightarrow> 'x fworld" where
  "set_file a f w = w\<lparr>w_user := (w_user w)\<lparr>fs_files := (fs_files (w_user w))(a := f)\<rparr>\<rparr>"

definition set_ffid :: "addr \<Rightarrow> Npfilefid option \<Rightarrow> 'x fworld \<Rightarrow> 'x fworld" where
  "set_ffid a f w = w\<lparr>w_user := (w_user w)\<lparr>fs_ffids := (fs_ffids (w_user w))(a := f)\<rparr>\<rparr>"

definition set_fidaux :: "addr \<Rightarrow> addr option \<Rightarrow> 'x fworld \<Rightarrow> 'x fworld" where
  "set_fidaux a p w = w\<lparr>w_user := (w_user w)\<lparr>fs_fidaux := (fs_fidaux (w_user w))(a := p)\<rparr>\<rparr>"

definition upd_file :: "addr \<Rightarrow> (Npfile \<Rightarrow> Npfile) \<Rightarrow> 'x fworld \<Rightarrow> 'x fworld option" where
  "upd_file a g w = map_option (\<lambda>f. set_file a (Some (g f)) w) (file_at a w)"

definition upd_ffid :: "addr \<Rightarrow> (Npfilefid \<Rightarrow> Npfilefid) \<Rightarrow> 'x fworld \<Rightarrow> 'x fworld option" where
  "upd_ffid a g w = map_option (\<lambda>f. set_ffid a (Some (g f)) w) (ffid_at a w)"

text \<open>\<^verbatim>\<open>time(NULL)\<close>.\<close>

definition time_now :: "'x fworld \<Rightarrow> u32 \<times> 'x fworld" where
  "time_now w = (fs_clock (w_user w) (fs_ticks (w_user w)),
     w\<lparr>w_user := (w_user w)\<lparr>fs_ticks := fs_ticks (w_user w) + 1\<rparr>\<rparr>)"

definition is_dir :: "Npfile \<Rightarrow> bool" where
  "is_dir f \<longleftrightarrow> fl_mode f AND Dmdir \<noteq> 0"

text \<open>\<^verbatim>\<open>(Npdirops *) f->ops\<close> and \<^verbatim>\<open>(Npfileops *) f->ops\<close>, dereferenced.\<close>

definition dops :: "'x fenv \<Rightarrow> Npfile \<Rightarrow> 'x dirops option" where
  "dops en f = Option.bind (fl_ops f) (fe_dirops en)"

definition fops :: "'x fenv \<Rightarrow> Npfile \<Rightarrow> 'x fileops option" where
  "fops en f = Option.bind (fl_ops f) (fe_fileops en)"

section \<open>Reference counts\<close>

definition npfile_incref_nolock :: "addr \<Rightarrow> 'x fworld \<Rightarrow> 'x fworld option" where
  "npfile_incref_nolock a w = do {
     f \<leftarrow> file_at a w;
     if fl_refcount f \<ge> 0 then upd_file a (fl_refcount_update (\<lambda>n. n + 1)) w else None
   }"

definition npfile_incref :: "addr option \<Rightarrow> 'x fworld \<Rightarrow> 'x fworld option" where
  "npfile_incref p w = (case p of None \<Rightarrow> Some w | Some a \<Rightarrow> npfile_incref_nolock a w)"

text \<open>The \<^verbatim>\<open>destroy\<close> of the file's own operation table, if it has one.\<close>

definition run_destroy :: "'x fenv \<Rightarrow> addr \<Rightarrow> Npfile \<Rightarrow> 'x fworld \<Rightarrow> 'x fworld option" where
  "run_destroy en a f w =
     (if fl_ops f = None then Some w
      else if is_dir f then do {
        d \<leftarrow> dops en f;
        (case do_destroy d of None \<Rightarrow> Some w | Some g \<Rightarrow> g a w)
      }
      else do {
        d \<leftarrow> fops en f;
        (case fo_destroy d of None \<Rightarrow> Some w | Some g \<Rightarrow> g a w)
      })"

text \<open>
  \<^verbatim>\<open>npfile_decrefimpl\<close>; the deliberate crash on a count that is not positive is a
  fault.
\<close>

definition npfile_decrefimpl :: "'x fenv \<Rightarrow> addr option \<Rightarrow> 'x fworld \<Rightarrow> (int \<times> 'x fworld) option" where
  "npfile_decrefimpl en p w =
     (case p of
        None \<Rightarrow> Some (0, w)
      | Some a \<Rightarrow> do {
          f \<leftarrow> file_at a w;
          if fl_refcount f \<le> 0 then None
          else do {
            w \<leftarrow> upd_file a (fl_refcount_update (\<lambda>n. n - 1)) w;
            if fl_refcount f = 1 then do {
              f \<leftarrow> file_at a w;
              w \<leftarrow> run_destroy en a f w;
              Some (0, set_file a None w)
            }
            else Some (fl_refcount f - 1, w)
          }
        })"

definition npfile_decref :: "'x fenv \<Rightarrow> addr option \<Rightarrow> 'x fworld \<Rightarrow> (int \<times> 'x fworld) option" where
  "npfile_decref en p w = npfile_decrefimpl en p w"

definition npfile_decref_unlock :: "'x fenv \<Rightarrow> addr option \<Rightarrow> 'x fworld \<Rightarrow> (int \<times> 'x fworld) option" where
  "npfile_decref_unlock en p w = npfile_decrefimpl en p w"

definition npfile_ref :: "'x fenv \<Rightarrow> addr \<Rightarrow> addr \<Rightarrow> 'x fworld \<Rightarrow> 'x fworld option" where
  "npfile_ref en a fid w = do {
     f \<leftarrow> file_at a w;
     if fl_ops f = None then Some w
     else if is_dir f then do {
       d \<leftarrow> dops en f;
       (case do_ref d of None \<Rightarrow> Some w | Some g \<Rightarrow> g a fid w)
     }
     else do {
       d \<leftarrow> fops en f;
       (case fo_ref d of None \<Rightarrow> Some w | Some g \<Rightarrow> g a fid w)
     }
   }"

definition npfile_unref :: "'x fenv \<Rightarrow> addr \<Rightarrow> addr \<Rightarrow> 'x fworld \<Rightarrow> 'x fworld option" where
  "npfile_unref en a fid w = do {
     f \<leftarrow> file_at a w;
     if fl_ops f = None then Some w
     else if is_dir f then do {
       d \<leftarrow> dops en f;
       (case do_unref d of None \<Rightarrow> Some w | Some g \<Rightarrow> g a fid w)
     }
     else do {
       d \<leftarrow> fops en f;
       (case fo_unref d of None \<Rightarrow> Some w | Some g \<Rightarrow> g a fid w)
     }
   }"

section \<open>Files\<close>

text \<open>
  The result of \<^verbatim>\<open>malloc\<close> is used unchecked; a failed \<^verbatim>\<open>strdup\<close> leaves the
  name NULL.
\<close>

definition npfile_alloc ::
  "addr option \<Rightarrow> cstring \<Rightarrow> u32 \<Rightarrow> u64 \<Rightarrow> nat option \<Rightarrow> addr option \<Rightarrow> 'x fworld \<Rightarrow> (addr \<times> 'x fworld) option"
where
  "npfile_alloc parent name mode qpath ops aux w =
     (case world_malloc w of
        (None, _) \<Rightarrow> None
      | (Some _, w1) \<Rightarrow>
          (let a = w_nmalloc w;
               (m, w) = world_malloc w1;
               nm = map_option (\<lambda>_. name) m;
               f = \<lparr>fl_refcount = 0, fl_parent = parent,
                 fl_qid = \<lparr>qid_type = ucast (drop_bit 24 mode), qid_version = 0, qid_path = qpath\<rparr>,
                 fl_mode = mode, fl_atime = 0, fl_mtime = 0, fl_length = 0, fl_name = nm, fl_uid = None,
                 fl_gid = None, fl_muid = None, fl_extension = None, fl_excl = False, fl_ops = ops,
                 fl_aux = aux, fl_next = None, fl_prev = None, fl_dirfirst = None, fl_dirlast = None\<rparr>;
               w = set_file a (Some f) w
           in (case parent of
                 None \<Rightarrow> Some (a, w)
               | Some d \<Rightarrow> do {
                   w \<leftarrow> npfile_incref_nolock d w;
                   p \<leftarrow> file_at d w;
                   w \<leftarrow> upd_file a (\<lambda>f. f\<lparr>fl_atime := fl_atime p, fl_mtime := fl_mtime p,
                     fl_uid := fl_uid p, fl_gid := fl_gid p, fl_muid := fl_uid p\<rparr>) w;
                   Some (a, w)
                 })))"

text \<open>
  The search of \<^verbatim>\<open>npfile_find\<close> through the children; on a cyclic list it need not
  end.
\<close>

partial_function (option) find_loop ::
  "'x fenv \<Rightarrow> (addr \<Rightarrow> 'x fworld \<Rightarrow> (addr option \<times> 'x fworld) option) \<Rightarrow> cstring \<Rightarrow>
     addr option \<Rightarrow> 'x fworld \<Rightarrow> (addr option \<times> 'x fworld) option"
where
  "find_loop en nx name p w =
     (case p of
        None \<Rightarrow> Some (None, w)
      | Some a \<Rightarrow> do {
          f \<leftarrow> file_at a w;
          nm \<leftarrow> fl_name f;
          if name = nm then Some (Some a, w)
          else do {
            (_, w) \<leftarrow> npfile_decref en (Some a) w;
            (p, w) \<leftarrow> nx a w;
            find_loop en nx name p w
          }
        })"

definition npfile_find :: "'x fenv \<Rightarrow> addr \<Rightarrow> cstring \<Rightarrow> 'x fworld \<Rightarrow> (addr option \<times> 'x fworld) option" where
  "npfile_find en dir name w = do {
     d \<leftarrow> file_at dir w;
     if name = cstr ''..'' then Some (fl_parent d, w)
     else do {
       ops \<leftarrow> dops en d;
       (case (do_first ops, do_next ops) of
          (Some first, Some nx) \<Rightarrow> do {
            (p, w) \<leftarrow> first dir w;
            find_loop en (nx dir) name p w
          }
        | _ \<Rightarrow> Some (None, np_werror (Some Eperm) EPERM w))
     }
   }"

section \<open>Permissions and stats\<close>

definition check_perm ::
  "'x fenv \<Rightarrow> u32 \<Rightarrow> addr option \<Rightarrow> addr option \<Rightarrow> addr option \<Rightarrow> u32 \<Rightarrow> 'x fworld \<Rightarrow> (bool \<times> 'x fworld) option"
where
  "check_perm en fperm fuid fgid user perm w =
     (case user of
        None \<Rightarrow> Some (False, np_werror (Some Eperm) EPERM w)
      | Some u \<Rightarrow>
          (let perm = perm AND 7 in
           if perm = 0 then Some (True, w)
           else if (fperm AND 7) AND perm \<noteq> 0 then Some (True, w)
           else if fuid = Some u \<and> (drop_bit 6 fperm AND 7) AND perm \<noteq> 0 then Some (True, w)
           else if (drop_bit 3 fperm AND 7) AND perm \<noteq> 0 then do {
             m \<leftarrow> fe_ismember en u fgid w;
             if m then Some (True, w) else Some (False, np_werror (Some Eperm) EPERM w)
           }
           else Some (False, np_werror (Some Eperm) EPERM w)))"

definition npfile_checkperm :: "'x fenv \<Rightarrow> addr \<Rightarrow> addr option \<Rightarrow> u32 \<Rightarrow> 'x fworld \<Rightarrow> (bool \<times> 'x fworld) option" where
  "npfile_checkperm en a user perm w = do {
     f \<leftarrow> file_at a w;
     check_perm en (fl_mode f) (fl_uid f) (fl_gid f) user perm w
   }"

definition file2wstat :: "Npfile \<Rightarrow> 'x fworld \<Rightarrow> Npwstat option" where
  "file2wstat f w = do {
     u \<leftarrow> Option.bind (fl_uid f) (w_users w);
     g \<leftarrow> Option.bind (fl_gid f) (fs_groups (w_user w));
     m \<leftarrow> Option.bind (fl_muid f) (w_users w);
     Some \<lparr>ws_size = 0, ws_type = 0, ws_dev = 0, ws_qid = fl_qid f, ws_mode = fl_mode f,
       ws_atime = fl_atime f, ws_mtime = fl_mtime f, ws_length = fl_length f, ws_name = fl_name f,
       ws_uid = Some (us_uname u), ws_gid = Some (gr_gname g), ws_muid = Some (us_uname m),
       ws_extension = fl_extension f, ws_n_uid = us_uid u, ws_n_gid = gr_gid g, ws_n_muid = us_uid m\<rparr>
   }"

definition blank_stat :: "Npstat \<Rightarrow> Npstat" where
  "blank_stat st = st\<lparr>st_size := 0, st_type := - 1, st_dev := - 1,
     st_qid := \<lparr>qid_type = - 1, qid_version = - 1, qid_path = - 1\<rparr>, st_mode := - 1, st_atime := - 1,
     st_mtime := - 1, st_length := - 1, st_name := (st_name st)\<lparr>str_len := 0\<rparr>,
     st_uid := (st_uid st)\<lparr>str_len := 0\<rparr>, st_gid := (st_gid st)\<lparr>str_len := 0\<rparr>,
     st_muid := (st_muid st)\<lparr>str_len := 0\<rparr>, st_extension := (st_extension st)\<lparr>str_len := 0\<rparr>,
     st_n_uid := - 1, st_n_gid := - 1, st_n_muid := - 1\<rparr>"

definition npfile_modified :: "addr \<Rightarrow> addr option \<Rightarrow> 'x fworld \<Rightarrow> 'x fworld option" where
  "npfile_modified a u w =
     (let (t, w) = time_now w in
      upd_file a (\<lambda>f. f\<lparr>fl_muid := u, fl_mtime := t, fl_atime := t,
        fl_qid := (fl_qid f)\<lparr>qid_version := qid_version (fl_qid f) + 1\<rparr>\<rparr>) w)"

section \<open>Fids\<close>

definition npfile_fidalloc :: "'x fenv \<Rightarrow> addr \<Rightarrow> addr \<Rightarrow> 'x fworld \<Rightarrow> (addr \<times> 'x fworld) option" where
  "npfile_fidalloc en file fid w =
     (case world_malloc w of
        (None, _) \<Rightarrow> None
      | (Some _, w1) \<Rightarrow> do {
          let b = w_nmalloc w;
          let w = set_ffid b (Some \<lparr>ff_fid = fid, ff_file = file, ff_omode = -1, ff_diroffset = 0,
            ff_dirent = None\<rparr>) w1;
          w \<leftarrow> npfile_incref (Some file) w;
          w \<leftarrow> npfile_ref en file b w;
          Some (b, w)
        })"

definition npfile_fiddestroy :: "'x fenv \<Rightarrow> addr \<Rightarrow> 'x fworld \<Rightarrow> 'x fworld option" where
  "npfile_fiddestroy en fid w =
     (case fs_fidaux (w_user w) fid of
        None \<Rightarrow> Some w
      | Some b \<Rightarrow> do {
          ff \<leftarrow> ffid_at b w;
          file \<leftarrow> file_at (ff_file ff) w;
          w \<leftarrow> (if ff_omode ff \<noteq> -1 then do {
                w \<leftarrow> (if is_dir file then Some w
                  else do {
                    ops \<leftarrow> fops en file;
                    (case fo_closefid ops of None \<Rightarrow> Some w | Some g \<Rightarrow> g b w)
                  });
                ff \<leftarrow> ffid_at b w;
                (_, w) \<leftarrow> npfile_decref en (ff_dirent ff) w;
                Some w
              }
              else Some w);
          w \<leftarrow> npfile_unref en (ff_file ff) b w;
          (_, w) \<leftarrow> npfile_decref en (Some (ff_file ff)) w;
          Some (set_ffid b None w)
        })"

text \<open>The \<^verbatim>\<open>Npfilefid\<close> of a fid, \<^verbatim>\<open>fid->aux\<close>, and its file.\<close>

definition fid_aux :: "addr \<Rightarrow> 'x fworld \<Rightarrow> (addr \<times> Npfilefid) option" where
  "fid_aux fid w = do {
     b \<leftarrow> fs_fidaux (w_user w) fid;
     ff \<leftarrow> ffid_at b w;
     Some (b, ff)
   }"

section \<open>The callbacks of the server\<close>

definition npfile_attach :: "'x fenv \<Rightarrow> addr \<Rightarrow> 'x fworld \<Rightarrow> (Npfcall option \<times> 'x fworld) option" where
  "npfile_attach en fid w = do {
     r \<leftarrow> w_fids w fid;
     root \<leftarrow> fs_root (w_user w);
     (ok, w) \<leftarrow> npfile_checkperm en root (fid_user r) 4 w;
     if \<not> ok then Some (None, w)
     else do {
       (b, w) \<leftarrow> npfile_fidalloc en root fid w;
       w \<leftarrow> np_fid_incref (Some fid) (set_fidaux fid (Some b) w);
       f \<leftarrow> file_at root w;
       Some (run_create (\<lambda>m. np_create_rattach m (fl_qid f)) w)
     }
   }"

definition npfile_clone :: "'x fenv \<Rightarrow> addr \<Rightarrow> addr \<Rightarrow> 'x fworld \<Rightarrow> (bool \<times> 'x fworld) option" where
  "npfile_clone en fid newfid w = do {
     (_, ff) \<leftarrow> fid_aux fid w;
     (nb, w) \<leftarrow> npfile_fidalloc en (ff_file ff) newfid w;
     Some (True, set_fidaux newfid (Some nb) w)
   }"

definition npfile_walk ::
  "'x fenv \<Rightarrow> addr \<Rightarrow> u8 list \<Rightarrow> Npstr \<Rightarrow> 'x fworld \<Rightarrow> (Npqid option \<times> 'x fworld) option"
where
  "npfile_walk en fid pkt wname w = do {
     r \<leftarrow> w_fids w fid;
     (b, ff) \<leftarrow> fid_aux fid w;
     (ok, w) \<leftarrow> npfile_checkperm en (ff_file ff) (fid_user r) 1 w;
     if \<not> ok then Some (None, w)
     else do {
       (name, w) \<leftarrow> run_strdup pkt wname w;
       name \<leftarrow> name;
       (nfile, w) \<leftarrow> npfile_find en (ff_file ff) name w;
       (case nfile of
          Some nf \<Rightarrow> do {
            w \<leftarrow> npfile_unref en (ff_file ff) b w;
            w \<leftarrow> upd_ffid b (ff_file_update (\<lambda>_. nf)) w;
            (_, w) \<leftarrow> npfile_decref en (Some (ff_file ff)) w;
            w \<leftarrow> npfile_ref en nf b w;
            f \<leftarrow> file_at nf w;
            Some (Some (fl_qid f), w)
          }
        | None \<Rightarrow> Some (None, if np_haserror w then w else np_werror (Some Enotfound) ENOENT w))
     }
   }"

definition mode2perm :: "u8 \<Rightarrow> u32" where
  "mode2perm mode =
     (let m = (if mode AND 3 = Oread then 4 else if mode AND 3 = Owrite then 2
               else if mode AND 3 = Ordwr then 6 else if mode AND 3 = Oexec then 1 else 0)
      in if mode AND Otrunc \<noteq> 0 then m OR 2 else m)"

text \<open>
  \<^verbatim>\<open>npfile_open\<close> after the permission check. The local \<^verbatim>\<open>stat\<close> starts
  with the unspecified contents \<open>st\<close>; its strings are empty when it is passed on.
\<close>

definition open_file :: "'x fenv \<Rightarrow> Npstat \<Rightarrow> addr \<Rightarrow> addr \<Rightarrow> u8 \<Rightarrow> 'x fworld \<Rightarrow> (bool \<times> 'x fworld) option" where
  "open_file en st b a mode w = do {
     f \<leftarrow> file_at a w;
     if is_dir f then do {
       w \<leftarrow> upd_ffid b (\<lambda>ff. ff\<lparr>ff_diroffset := 0, ff_dirent := None\<rparr>) w;
       Some (True, w)
     }
     else do {
       ops \<leftarrow> fops en f;
       (ok, w) \<leftarrow> (if mode AND Otrunc \<noteq> 0 then
             (case fo_wstat ops of
                None \<Rightarrow> Some (False, np_werror (Some Eperm) EPERM w)
              | Some g \<Rightarrow> g a [] ((blank_stat st)\<lparr>st_length := 0\<rparr>) w)
           else Some (True, w));
       if \<not> ok then Some (False, w)
       else (case fo_openfid ops of None \<Rightarrow> Some (True, w) | Some g \<Rightarrow> g b w)
     }
   }"

definition npfile_open :: "'x fenv \<Rightarrow> Npstat \<Rightarrow> addr \<Rightarrow> u8 \<Rightarrow> 'x fworld \<Rightarrow> (Npfcall option \<times> 'x fworld) option" where
  "npfile_open en st fid mode w = do {
     r \<leftarrow> w_fids w fid;
     (b, ff) \<leftarrow> fid_aux fid w;
     let a = ff_file ff;
     (ok, w) \<leftarrow> npfile_checkperm en a (fid_user r) (mode2perm mode) w;
     if \<not> ok then Some (None, w)
     else do {
       f \<leftarrow> file_at a w;
       if mode AND Oexcl \<noteq> 0 \<and> fl_excl f then Some (None, np_werror (Some Eopen) EPERM w)
       else do {
         w \<leftarrow> (if mode AND Oexcl \<noteq> 0 then upd_file a (fl_excl_update (\<lambda>_. True)) w else Some w);
         (ok, w) \<leftarrow> open_file en st b a mode w;
         (ret, w) \<leftarrow> (if \<not> ok then Some (None, w)
             else do {
               w \<leftarrow> upd_ffid b (ff_omode_update (\<lambda>_. uint mode)) w;
               f \<leftarrow> file_at a w;
               Some (run_create (\<lambda>m. np_create_ropen m (fl_qid f) 0) w)
             });
         if ret = None \<and> mode AND Oexcl \<noteq> 0 then do {
           w \<leftarrow> upd_file a (fl_excl_update (\<lambda>_. True)) w;
           Some (ret, w)
         }
         else Some (ret, w)
       }
     }
   }"

text \<open>\<^verbatim>\<open>npfile_create\<close> from the permission check on the directory on.\<close>

definition create_perm :: "u32 \<Rightarrow> u32 \<Rightarrow> u32" where
  "create_perm perm dmode =
     (let perm = (if perm AND Dmsymlink \<noteq> 0 then perm OR 0x1FF else perm)
      in if perm AND Dmdir \<noteq> 0 then perm AND (NOT 0x1FF OR (dmode AND 0x1FF))
         else perm AND (NOT 0x1B6 OR (dmode AND 0x1B6)))"

definition create_in ::
  "'x fenv \<Rightarrow> addr option \<Rightarrow> addr \<Rightarrow> addr \<Rightarrow> cstring \<Rightarrow> cstring option \<Rightarrow> u32 \<Rightarrow> u8 \<Rightarrow> 'x fworld \<Rightarrow>
     (Npfcall option \<times> 'x fworld) option"
where
  "create_in en user b dir sname sext perm mode w = do {
     (ok, w) \<leftarrow> npfile_checkperm en dir user 2 w;
     if \<not> ok then Some (None, w)
     else do {
       d \<leftarrow> file_at dir w;
       let perm = create_perm perm (fl_mode d);
       (ok, w) \<leftarrow> check_perm en perm user (fl_gid d) user (mode2perm mode) w;
       if \<not> ok then Some (None, w)
       else do {
         ops \<leftarrow> dops en d;
         (case do_create ops of
            None \<Rightarrow> Some (None, np_werror (Some Eperm) EPERM w)
          | Some create \<Rightarrow> do {
              (file, w) \<leftarrow> create dir sname perm user (fl_gid d) sext w;
              (case file of
                 None \<Rightarrow> Some (None, w)
               | Some a \<Rightarrow> do {
                   w \<leftarrow> npfile_modified dir user w;
                   w \<leftarrow> upd_ffid b (\<lambda>ff. ff\<lparr>ff_file := a, ff_omode := uint mode\<rparr>) w;
                   w \<leftarrow> (if mode AND Oexcl \<noteq> 0 then upd_file a (fl_excl_update (\<lambda>_. True)) w else Some w);
                   f \<leftarrow> file_at a w;
                   w \<leftarrow> (if is_dir f then upd_ffid b (\<lambda>ff. ff\<lparr>ff_diroffset := 0, ff_dirent := None\<rparr>) w
                     else do {
                       ops \<leftarrow> fops en f;
                       (case fo_openfid ops of None \<Rightarrow> Some w | Some g \<Rightarrow> map_option snd (g b w))
                     });
                   w \<leftarrow> upd_ffid b (ff_omode_update (\<lambda>_. uint mode)) w;
                   f \<leftarrow> file_at a w;
                   Some (run_create (\<lambda>m. np_create_rcreate m (fl_qid f) 0) w)
                 })
            })
       }
     }
   }"

definition npfile_create ::
  "'x fenv \<Rightarrow> addr \<Rightarrow> u8 list \<Rightarrow> Npstr \<Rightarrow> u32 \<Rightarrow> u8 \<Rightarrow> Npstr \<Rightarrow> 'x fworld \<Rightarrow> (Npfcall option \<times> 'x fworld) option"
where
  "npfile_create en fid pkt name perm mode extension w = do {
     r \<leftarrow> w_fids w fid;
     (b, ff) \<leftarrow> fid_aux fid w;
     let dir = ff_file ff;
     (sname, w) \<leftarrow> run_strdup pkt name w;
     (sext, w) \<leftarrow> run_strdup pkt extension w;
     sname \<leftarrow> sname;
     (nf, w) \<leftarrow> npfile_find en dir sname w;
     if np_haserror w then Some (None, w)
     else if nf \<noteq> None then Some (None, np_werror (Some Eexist) EEXIST w)
     else if sname = cstr ''.'' \<or> sname = cstr ''..'' then Some (None, np_werror (Some Eexist) EEXIST w)
     else create_in en (fid_user r) b dir sname sext perm mode w
   }"

text \<open>
  The loop of a directory read. \<open>mem\<close> is the memory from \<^verbatim>\<open>ret->data\<close> on
  (\<open>None\<close> when \<^verbatim>\<open>ret\<close> is NULL), \<open>n\<close> the bytes already put, which the
  comparison and the subtraction take as unsigned.
\<close>

partial_function (option) dir_loop ::
  "'x fenv \<Rightarrow> (addr \<Rightarrow> 'x fworld \<Rightarrow> (addr option \<times> 'x fworld) option) \<Rightarrow> u32 \<Rightarrow> bool \<Rightarrow> addr option \<Rightarrow>
     u32 \<Rightarrow> u8 list option \<Rightarrow> 'x fworld \<Rightarrow> (u32 \<times> u8 list option \<times> addr option \<times> 'x fworld) option"
where
  "dir_loop en nx count dotu cf n mem w =
     (case cf of
        None \<Rightarrow> Some (n, mem, None, w)
      | Some a \<Rightarrow>
          if \<not> n < count then Some (n, mem, Some a, w)
          else do {
            f \<leftarrow> file_at a w;
            wstat \<leftarrow> file2wstat f w;
            buf \<leftarrow> mem;
            if sint n < 0 then None
            else do {
              let (i, bf) = np_serialize_stat npstat_zero wstat (drop (nat (sint n)) buf) (sint (count - n - 1)) dotu;
              if cb_oob bf then None
              else do {
                let buf = take (nat (sint n)) buf @ cb_mem bf;
                if i = 0 then Some (n, Some buf, Some a, w)
                else do {
                  (cf1, w) \<leftarrow> nx a w;
                  (_, w) \<leftarrow> npfile_decref en (Some a) w;
                  dir_loop en nx count dotu cf1 (n + word_of_int i) (Some buf) w
                }
              }
            }
          })"

text \<open>Storing into the reply's data, and the count set at the end of \<^verbatim>\<open>npfile_read\<close>.\<close>

definition set_data :: "Npfcall option \<Rightarrow> u8 list option \<Rightarrow> Npfcall option" where
  "set_data rc mem = (case (rc, mem) of
     (Some rc, Some buf) \<Rightarrow> (case fc_data rc of
        None \<Rightarrow> Some rc
      | Some i \<Rightarrow> Some (rc\<lparr>fc_pkt := take (nat i) (fc_pkt rc) @ buf\<rparr>))
   | _ \<Rightarrow> rc)"

definition read_done :: "Npfcall option \<Rightarrow> u32 \<Rightarrow> 'x fworld \<Rightarrow> (Npfcall option \<times> 'x fworld) option" where
  "read_done rc n w = (case rc of
     None \<Rightarrow> Some (None, w)
   | Some rc \<Rightarrow> (case np_set_rread_count rc n of Inl _ \<Rightarrow> None | Inr rc \<Rightarrow> Some (Some rc, w)))"

definition ret_data :: "Npfcall option \<Rightarrow> u8 list option" where
  "ret_data rc = do { rc \<leftarrow> rc; i \<leftarrow> fc_data rc; Some (drop (nat i) (fc_pkt rc)) }"

definition read_dir ::
  "'x fenv \<Rightarrow> bool \<Rightarrow> addr \<Rightarrow> addr \<Rightarrow> Npfile \<Rightarrow> u64 \<Rightarrow> u32 \<Rightarrow> Npfcall option \<Rightarrow> 'x fworld \<Rightarrow> (Npfcall option \<times> 'x fworld) option"
where
  "read_dir en dotu b a f offset count rc w = do {
     ops \<leftarrow> dops en f;
     (case (do_first ops, do_next ops) of
        (Some first, Some nx) \<Rightarrow> do {
          w \<leftarrow> (if offset = 0 then do {
              ff \<leftarrow> ffid_at b w;
              (_, w) \<leftarrow> npfile_decref en (ff_dirent ff) w;
              (p, w) \<leftarrow> first a w;
              upd_ffid b (\<lambda>ff. ff\<lparr>ff_dirent := p, ff_diroffset := 0\<rparr>) w
            }
            else Some w);
          ff \<leftarrow> ffid_at b w;
          (n, mem, cf, w) \<leftarrow> dir_loop en (nx a) count dotu (ff_dirent ff) 0 (ret_data rc) w;
          w \<leftarrow> upd_ffid b (\<lambda>ff. ff\<lparr>ff_diroffset := ff_diroffset ff + scast n, ff_dirent := cf\<rparr>) w;
          let (t, w) = time_now w;
          w \<leftarrow> upd_file a (fl_atime_update (\<lambda>_. t)) w;
          read_done (set_data rc mem) n w
        }
      | _ \<Rightarrow> Some (rc, np_werror (Some Eperm) EPERM w))
   }"

definition npfile_read ::
  "'x fenv \<Rightarrow> addr \<Rightarrow> u64 \<Rightarrow> u32 \<Rightarrow> addr \<Rightarrow> 'x fworld \<Rightarrow> (Npfcall option \<times> 'x fworld) option"
where
  "npfile_read en fid offset count req w = do {
     r \<leftarrow> w_fids w fid;
     (b, ff) \<leftarrow> fid_aux fid w;
     let (rc, w) = run_create (\<lambda>m. np_alloc_rread m count) w;
     let a = ff_file ff;
     f \<leftarrow> file_at a w;
     if is_dir f then do {
       cn \<leftarrow> w_conns w (fid_conn r);
       read_dir en (cn_dotu cn) b a f offset count rc w
     }
     else do {
       ops \<leftarrow> fops en f;
       (case fo_read ops of
          None \<Rightarrow> Some (rc, np_werror (Some Eperm) EPERM w)
        | Some g \<Rightarrow> do {
            buf \<leftarrow> ret_data rc;
            (n, buf, w) \<leftarrow> g b offset count buf req w;
            let (t, w) = time_now w;
            w \<leftarrow> upd_file a (fl_atime_update (\<lambda>_. t)) w;
            if n < 0 then Some (None, w) else read_done (set_data rc (Some buf)) (word_of_int n) w
          })
     }
   }"

text \<open>\<^verbatim>\<open>f->omode\<close> is \<^verbatim>\<open>~0\<close> or the 8-bit mode of the open.\<close>

definition npfile_write ::
  "'x fenv \<Rightarrow> addr \<Rightarrow> u64 \<Rightarrow> u32 \<Rightarrow> u8 list \<Rightarrow> addr \<Rightarrow> 'x fworld \<Rightarrow> (Npfcall option \<times> 'x fworld) option"
where
  "npfile_write en fid offset count data req w = do {
     r \<leftarrow> w_fids w fid;
     (b, ff) \<leftarrow> fid_aux fid w;
     let a = ff_file ff;
     f \<leftarrow> file_at a w;
     let offset = (if ff_omode ff AND uint Oappend \<noteq> 0 then fl_length f else offset);
     ops \<leftarrow> fops en f;
     (case fo_write ops of
        None \<Rightarrow> Some (None, np_werror (Some Eperm) EPERM w)
      | Some g \<Rightarrow> do {
          (n, w) \<leftarrow> g b offset count data req w;
          w \<leftarrow> (if fst (np_rerror w) = None \<or> n < 0 then npfile_modified a (fid_user r) w else Some w);
          if n \<ge> 0 then Some (run_create (\<lambda>m. np_create_rwrite m (word_of_int n)) w) else Some (None, w)
        })
   }"

definition npfile_clunk :: "addr \<Rightarrow> 'x fworld \<Rightarrow> (Npfcall option \<times> 'x fworld) option" where
  "npfile_clunk fid w = Some (run_create np_create_rclunk w)"

definition remove_from ::
  "'x fenv \<Rightarrow> addr option \<Rightarrow> addr \<Rightarrow> 'x fworld \<Rightarrow> (Npfcall option \<times> 'x fworld) option"
where
  "remove_from en user a w = do {
     f \<leftarrow> file_at a w;
     parent \<leftarrow> fl_parent f;
     (ok, w) \<leftarrow> npfile_checkperm en parent user 2 w;
     if \<not> ok then Some (None, w)
     else do {
       p \<leftarrow> file_at parent w;
       ops \<leftarrow> dops en p;
       (case do_remove ops of
          None \<Rightarrow> Some (None, np_werror (Some Eperm) EPERM w)
        | Some remove \<Rightarrow> do {
            (ok, w) \<leftarrow> remove parent a w;
            if ok then do {
              w \<leftarrow> npfile_modified parent user w;
              (_, w) \<leftarrow> npfile_decref en (Some a) w;
              (_, w) \<leftarrow> npfile_decref_unlock en (Some parent) w;
              Some (run_create np_create_rremove w)
            }
            else Some (None, w)
          })
     }
   }"

definition npfile_remove :: "'x fenv \<Rightarrow> addr \<Rightarrow> 'x fworld \<Rightarrow> (Npfcall option \<times> 'x fworld) option" where
  "npfile_remove en fid w = do {
     r \<leftarrow> w_fids w fid;
     (b, ff) \<leftarrow> fid_aux fid w;
     let a = ff_file ff;
     f \<leftarrow> file_at a w;
     if is_dir f then do {
       ops \<leftarrow> dops en f;
       (case do_first ops of
          None \<Rightarrow> Some (None, np_werror (Some Eperm) EPERM w)
        | Some first \<Rightarrow> do {
            (cf, w) \<leftarrow> first a w;
            if cf \<noteq> None then do {
              (_, w) \<leftarrow> npfile_decref en cf w;
              Some (None, np_werror (Some Enotempty) EIO w)
            }
            else remove_from en (fid_user r) a w
          })
     }
     else remove_from en (fid_user r) a w
   }"

definition npfile_stat :: "addr \<Rightarrow> 'x fworld \<Rightarrow> (Npfcall option \<times> 'x fworld) option" where
  "npfile_stat fid w = do {
     r \<leftarrow> w_fids w fid;
     (b, ff) \<leftarrow> fid_aux fid w;
     f \<leftarrow> file_at (ff_file ff) w;
     wstat \<leftarrow> file2wstat f w;
     cn \<leftarrow> w_conns w (fid_conn r);
     Some (run_create (\<lambda>m. np_create_rstat m wstat (cn_dotu cn)) w)
   }"

text \<open>The \<^verbatim>\<open>wstat\<close> operation of a file's own table.\<close>

definition ops_wstat :: "'x fenv \<Rightarrow> Npfile \<Rightarrow> (addr \<Rightarrow> u8 list \<Rightarrow> Npstat \<Rightarrow> 'x fworld \<Rightarrow> (bool \<times> 'x fworld) option) option option" where
  "ops_wstat en f = (if is_dir f then map_option do_wstat (dops en f) else map_option fo_wstat (fops en f))"

definition npfile_wstat ::
  "'x fenv \<Rightarrow> addr \<Rightarrow> u8 list \<Rightarrow> Npstat \<Rightarrow> 'x fworld \<Rightarrow> (Npfcall option \<times> 'x fworld) option"
where
  "npfile_wstat en fid pkt st w = do {
     r \<leftarrow> w_fids w fid;
     (b, ff) \<leftarrow> fid_aux fid w;
     let a = ff_file ff;
     f \<leftarrow> file_at a w;
     (ok, w) \<leftarrow> (if str_len (st_name st) \<noteq> 0 then do {
         p \<leftarrow> fl_parent f;
         npfile_checkperm en p (fid_user r) 2 w
       }
       else Some (True, w));
     if \<not> ok then Some (None, w)
     else do {
       (ok, w) \<leftarrow> (if st_length st \<noteq> - 1 then npfile_checkperm en a (fid_user r) 2 w else Some (True, w));
       if \<not> ok then Some (None, w)
       else if st_mode st \<noteq> - 1 \<and> fl_uid f \<noteq> fid_user r then Some (None, np_werror (Some Eperm) EPERM w)
       else if st_mtime st \<noteq> - 1 \<and> fl_uid f \<noteq> fid_user r then Some (None, np_werror (Some Eperm) EPERM w)
       else do {
         g \<leftarrow> ops_wstat en f;
         (case g of
            None \<Rightarrow> Some (None, np_werror (Some Eperm) EPERM w)
          | Some g \<Rightarrow> do {
              (n, w) \<leftarrow> g a pkt st w;
              if n then Some (run_create np_create_rwstat w) else Some (None, w)
            })
       }
     }
   }"

text \<open>What \<^verbatim>\<open>npfile_init_srv\<close> sets besides the callbacks above.\<close>

definition npfile_init_srv :: "addr option \<Rightarrow> 'x fworld \<Rightarrow> 'x fworld" where
  "npfile_init_srv root w =
     w\<lparr>w_srv := (w_srv w)\<lparr>sv_dotu := True,
         sv_msize := (if sv_msize (w_srv w) > 0x7FFFFFFF then 0x7FFFFFFF else sv_msize (w_srv w))\<rparr>,
       w_user := (w_user w)\<lparr>fs_root := root\<rparr>\<rparr>"

end
