(* ===== verification/FileProps.thy ===== *)
theory FileProps
  imports NpFile
begin

text \<open>
  Lemmas on the file layer: what its steps leave of the files, the counting of references
  (\<open>addref\<close>), and the locale \<open>child_list\<close>, the contract between the layer and a file
  server's directory operations, in which the search for a name and the reading of a directory
  are proved once for all servers that keep it.
\<close>

section \<open>Access\<close>

named_theorems file_simps \<open>what the operations leave of the files and their fids\<close>

lemma w_user_malloc [file_simps]: "w_user (snd (world_malloc w)) = w_user w"
  by (simp add: world_malloc_def)

lemma w_user_werror [file_simps]: "w_user (np_werror e c w) = w_user w"
  by (simp add: np_werror_def np_vwerror_def world_malloc_def Let_def split: option.splits)

lemma w_user_create [file_simps]: "w_user (snd (run_create f w)) = w_user w"
  by (simp add: run_create_def world_malloc_def)

lemma file_at_cong: "w_user w' = w_user w \<Longrightarrow> file_at a w' = file_at a w"
  by (simp add: file_at_def)

lemma at_set [simp]:
  "file_at a (set_file b f w) = (if a = b then f else file_at a w)"
  "ffid_at a (set_file b f w) = ffid_at a w"
  "file_at a (set_ffid b g w) = file_at a w"
  "ffid_at a (set_ffid b g w) = (if a = b then g else ffid_at a w)"
  "file_at a (set_fidaux b p w) = file_at a w"
  "ffid_at a (set_fidaux b p w) = ffid_at a w"
  "file_at a (snd (time_now w)) = file_at a w"
  "ffid_at a (snd (time_now w)) = ffid_at a w"
  by (simp_all add: file_at_def ffid_at_def set_file_def set_ffid_def set_fidaux_def time_now_def)

lemma at_files_sel:
  "fs_files (w_user w) a = file_at a w" "fs_ffids (w_user w) a = ffid_at a w"
  by (simp_all add: file_at_def ffid_at_def)

lemma upd_file_Some [simp]: "file_at a w = Some f \<Longrightarrow> upd_file a g w = Some (set_file a (Some (g f)) w)"
  by (simp add: upd_file_def)

lemma upd_ffid_Some [simp]: "ffid_at a w = Some f \<Longrightarrow> upd_ffid a g w = Some (set_ffid a (Some (g f)) w)"
  by (simp add: upd_ffid_def)

lemma set_file_same [simp]: "set_file a f (set_file a g w) = set_file a f w"
  by (simp add: set_file_def)

lemma set_file_id [simp]: "file_at a w = f \<Longrightarrow> set_file a f w = w"
  by (auto simp: set_file_def file_at_def)

lemma set_file_commute: "a \<noteq> b \<Longrightarrow> set_file a f (set_file b g w) = set_file b g (set_file a f w)"
  by (simp add: set_file_def fun_upd_twist)

section \<open>Reference counts\<close>

text \<open>The state with \<open>k\<close> more references to a file.\<close>

definition addref :: "int \<Rightarrow> addr option \<Rightarrow> 'x fworld \<Rightarrow> 'x fworld" where
  "addref k p w = (case p of None \<Rightarrow> w | Some a \<Rightarrow>
     (case file_at a w of None \<Rightarrow> w | Some f \<Rightarrow> set_file a (Some (f\<lparr>fl_refcount := fl_refcount f + k\<rparr>)) w))"

lemma addref_None [simp]: "addref k None w = w"
  by (simp add: addref_def)

lemma file_at_addref:
  "file_at a (addref k p w) =
     (if p = Some a then map_option (\<lambda>f. f\<lparr>fl_refcount := fl_refcount f + k\<rparr>) (file_at a w) else file_at a w)"
  by (auto simp: addref_def split: option.splits)

lemma ffid_at_addref [simp]: "ffid_at b (addref k p w) = ffid_at b w"
  by (auto simp: addref_def split: option.splits)

lemma addref_commute: "addref k p (addref l q w) = addref l q (addref k p w)"
proof (cases "p = q")
  case True
  then show ?thesis
    by (auto simp: addref_def add.commute add.left_commute split: option.splits)
next
  case False
  then show ?thesis
    by (auto simp: addref_def set_file_commute split: option.splits)
qed

lemma refcount_inc: "fl_refcount_update (\<lambda>n. n + 1) f = f\<lparr>fl_refcount := fl_refcount f + 1\<rparr>"
  by (cases f) simp

lemma incref_addref:
  assumes "\<And>a. p = Some a \<Longrightarrow> \<exists>f. file_at a w = Some f \<and> 0 \<le> fl_refcount f"
  shows "npfile_incref p w = Some (addref 1 p w)"
proof (cases p)
  case (Some a)
  then obtain f where "file_at a w = Some f" "0 \<le> fl_refcount f" using assms by blast
  then show ?thesis using Some by (simp add: npfile_incref_def npfile_incref_nolock_def addref_def refcount_inc)
qed (simp add: npfile_incref_def)

lemma decref_addref:
  assumes "file_at a w = Some f" "1 \<le> fl_refcount f"
  shows "npfile_decref en (Some a) (addref 1 (Some a) w) = Some (fl_refcount f, w)"
  using assms by (simp add: npfile_decref_def npfile_decrefimpl_def addref_def)

lemma decref_None [simp]: "npfile_decref en None w = Some (0, w)"
  by (simp add: npfile_decref_def npfile_decrefimpl_def)


section \<open>Directory entries\<close>

text \<open>
  With the 9P2000.u fields at its end, an entry that does not fit is always noticed: the last
  field is four bytes and at most two of them are missing when the size check lets it through.
\<close>

lemma w32_short:
  "0 < length r \<Longrightarrow> length r < 4 \<Longrightarrow> w32 v (cbuf_at s d r t) = (cbuf_at s d r t)\<lparr>cb_p := int (length d) + int (length r) + 1\<rparr>"
  by (simp add: w32_def buf_put_int32_def buf_check_size_def)

lemma serialize_stat_short:
  assumes "wf_wstat w" "0 \<le> buflen" "buflen \<le> int (length buf)" "buflen < size_wstat (Some w) True + 2"
  shows "\<exists>b. np_serialize_stat st w buf buflen True = (0, b) \<and> \<not> cb_oob b \<and> length (cb_mem b) = length buf"
proof (cases "size_wstat (Some w) True > buflen")
  case True
  then show ?thesis by (simp add: np_serialize_stat_def buf_init_def)
next
  case False
  obtain k where k: "size_wstat (Some w) True = int k" "\<And>sz. length (lestat w sz True) = k + 2"
    using wf_stat_size [OF assms(1)] by blast
  obtain n where n: "buflen = int n" using assms(2) by (metis nonneg_int_cases)
  have kn: "k \<le> n" "n < k + 2" "n \<le> length buf" using False assms(3,4) n k by auto
  have b: "buf_init buf 0 (int n) False = cbuf_at 0 [] (take n buf) (drop n buf)"
    using kn by (simp add: buf_init_def cbuf_at_def)
  have len: "61 + length (opt_cstr (ws_name w)) + length (opt_cstr (ws_uid w)) + length (opt_cstr (ws_gid w)) +
      length (opt_cstr (ws_muid w)) + length (opt_cstr (ws_extension w)) = k"
    using k(2) [of 0] by (simp add: lestat_def)
  define r where "r = take n buf"
  have r: "length r = n" using kn by (simp add: r_def)
  show ?thesis
    using r kn len k(1)
    by (simp add: np_serialize_stat_def Let_def n b r_def [symmetric] codec_simps wwstat_def buf_put_wstat_def
        w32_short buf_check_overflow_def)
qed

definition entry :: "Npwstat \<Rightarrow> u8 list" where
  "entry s = lestat s (size_wstat (Some s) True) True"

lemma length_entry: "int (length (entry s)) = size_wstat (Some s) True + 2"
  by (simp add: entry_def int_length_lestat)

text \<open>One round of a directory read: the entry is put behind the \<open>n\<close> bytes before it, or
  does not fit and changes none of these.\<close>

lemma serialize_entry:
  assumes "wf_wstat s" "n < c" "length buf = c" "c < 2147483648"
  obtains i b where
    "np_serialize_stat npstat_zero s (drop n buf) (sint (word_of_nat c - word_of_nat n - 1 :: u32)) True = (i, b)"
    "\<not> cb_oob b" "length (take n buf @ cb_mem b) = c"
    "if n + length (entry s) + 1 \<le> c
     then i = int (length (entry s)) \<and> take (n + length (entry s)) (take n buf @ cb_mem b) = take n buf @ entry s
     else i = 0"
proof -
  have "word_of_nat c - word_of_nat n - 1 = (word_of_nat (c - n - 1) :: u32)"
    using assms(2) by (simp add: of_nat_diff)
  then have l: "sint (word_of_nat c - word_of_nat n - 1 :: u32) = int (c - n - 1)"
    using assms(4) by (simp only: sint_of_nat_u32)
  have bl: "int (c - n - 1) \<le> int (length (drop n buf))" using assms(3) by simp
  show thesis
  proof (cases "n + length (entry s) + 1 \<le> c")
    case True
    then have le: "size_wstat (Some s) True + 2 \<le> int (c - n - 1)"
      using length_entry [of s] by simp
    show thesis
    proof (rule that)
      show "np_serialize_stat npstat_zero s (drop n buf) (sint (word_of_nat c - word_of_nat n - 1 :: u32)) True =
        (size_wstat (Some s) True + 2, cbuf_at 0 (entry s)
          (drop (nat (size_wstat (Some s) True + 2)) (take (nat (int (c - n - 1))) (drop n buf)))
          (drop (nat (int (c - n - 1))) (drop n buf)))"
        using serialize_stat_at [OF assms(1) _ bl le, of npstat_zero] by (simp add: l entry_def)
    qed (use True le assms(2,3) length_entry [of s] in auto)
  next
    case False
    then have "c - n - 1 < length (entry s)" using assms(2) by linarith
    then have "int (c - n - 1) < int (length (entry s))" by (rule of_nat_less_iff [THEN iffD2])
    then have "int (c - n - 1) < size_wstat (Some s) True + 2"
      using length_entry [of s] by simp
    then obtain b where "np_serialize_stat npstat_zero s (drop n buf) (int (c - n - 1)) True = (0, b)"
      "\<not> cb_oob b" "length (cb_mem b) = length (drop n buf)"
      using serialize_stat_short [OF assms(1) _ bl, of npstat_zero] by auto
    then show thesis using that [of 0 b] False assms(2,3) l by simp
  qed
qed

section \<open>Read replies\<close>

lemma read_reply:
  assumes "np_alloc_rread (Some j) (word_of_nat c) = Some fc" "c + 11 < 2147483648"
  shows "\<exists>m. ret_data (Some fc) = Some m \<and> length m = c"
    and "length buf = c \<Longrightarrow> n \<le> c \<Longrightarrow> \<exists>rc. read_done (set_data (Some fc) (Some buf)) (word_of_nat n) w = Some (Some rc, w) \<and>
      take (unat (fc_size rc)) (fc_pkt rc) = wire nu dotu NOTAG (MRread (take n buf)) \<and> fc_count rc = word_of_nat n"
proof -
  obtain rest where fc: "length rest = c" "fc_pkt fc = hdr (int c + 4) Rread NOTAG @ le32 (word_of_nat c) @ rest"
    "fc_data fc = Some 11" "fc_count fc = word_of_nat c"
    using np_alloc_rread_at [of c j] assms by auto
  show "\<exists>m. ret_data (Some fc) = Some m \<and> length m = c" using fc by (simp add: ret_data_def)
  assume b: "length buf = c" "n \<le> c"
  let ?fc = "fc\<lparr>fc_pkt := wire nu dotu NOTAG (MRread buf)\<rparr>"
  have "set_data (Some fc) (Some buf) = Some ?fc"
    using fc b by (simp add: set_data_def wire_def add.commute)
  moreover obtain fc' where "np_set_rread_count ?fc (word_of_nat n) = Inr fc'"
    "fc_pkt fc' = wire nu dotu NOTAG (MRread (take n buf)) @ drop n buf" "unat (fc_size fc') = n + 11"
    "fc_count fc' = word_of_nat n"
    using set_rread_count_at [of buf n ?fc nu dotu NOTAG] b assms fc(4) by auto
  ultimately show "\<exists>rc. read_done (set_data (Some fc) (Some buf)) (word_of_nat n) w = Some (Some rc, w) \<and>
      take (unat (fc_size rc)) (fc_pkt rc) = wire nu dotu NOTAG (MRread (take n buf)) \<and> fc_count rc = word_of_nat n"
    using b by (simp add: read_done_def wire_def)
qed

section \<open>Directories\<close>

text \<open>
  The part of a file that the shape of the tree depends on, and states with the same tree and
  at least the references.
\<close>

definition tree_part :: "Npfile \<Rightarrow> Npfile" where
  "tree_part f = f\<lparr>fl_refcount := 0, fl_qid := npqid_zero, fl_atime := 0, fl_mtime := 0, fl_length := 0,
     fl_muid := None, fl_excl := False\<rparr>"

definition tree_le :: "'x fworld \<Rightarrow> 'x fworld \<Rightarrow> bool" where
  "tree_le w w' \<longleftrightarrow> (\<forall>a f. file_at a w = Some f \<longrightarrow>
     (\<exists>f'. file_at a w' = Some f' \<and> tree_part f' = tree_part f \<and> fl_refcount f \<le> fl_refcount f'))"

lemma tree_le_files: "(\<And>a. file_at a w' = file_at a w) \<Longrightarrow> tree_le w w'"
  by (simp add: tree_le_def)

lemma tree_le_trans: "tree_le w w' \<Longrightarrow> tree_le w' w'' \<Longrightarrow> tree_le w w''"
  unfolding tree_le_def
proof (intro allI impI)
  fix a f assume *: "\<forall>a f. file_at a w = Some f \<longrightarrow> (\<exists>f'. file_at a w' = Some f' \<and> tree_part f' = tree_part f \<and> fl_refcount f \<le> fl_refcount f')"
    "\<forall>a f. file_at a w' = Some f \<longrightarrow> (\<exists>f'. file_at a w'' = Some f' \<and> tree_part f' = tree_part f \<and> fl_refcount f \<le> fl_refcount f')"
    "file_at a w = Some f"
  then obtain f' where f': "file_at a w' = Some f'" "tree_part f' = tree_part f" "fl_refcount f \<le> fl_refcount f'" by blast
  then obtain f'' where "file_at a w'' = Some f''" "tree_part f'' = tree_part f'" "fl_refcount f' \<le> fl_refcount f''" using * by blast
  then show "\<exists>f'. file_at a w'' = Some f' \<and> tree_part f' = tree_part f \<and> fl_refcount f \<le> fl_refcount f'"
    using f' by auto
qed

lemma tree_le_addref: "0 \<le> k \<Longrightarrow> tree_le w (addref k p w)"
  by (auto simp: tree_le_def file_at_addref tree_part_def)

lemma tree_le_set_file:
  "file_at a w = Some f \<Longrightarrow> tree_part f' = tree_part f \<Longrightarrow> fl_refcount f' = fl_refcount f \<Longrightarrow>
    tree_le w (set_file a (Some f') w)"
  by (auto simp: tree_le_def)

definition names :: "cstring \<Rightarrow> 'x fworld \<Rightarrow> addr \<Rightarrow> bool" where
  "names name w a \<longleftrightarrow> (\<exists>f. file_at a w = Some f \<and> fl_name f = Some name)"

definition stat_at :: "'x fworld \<Rightarrow> addr \<Rightarrow> Npwstat option" where
  "stat_at w a = Option.bind (file_at a w) (\<lambda>f. file2wstat f w)"

text \<open>
  The interface between the layer and a file server's directories: \<open>kids d cs w\<close> says that
  the directory \<open>d\<close> has the children \<open>cs\<close>. \<^verbatim>\<open>first\<close> and
  \<^verbatim>\<open>next\<close> return the children in this order, each with a new reference, and the
  directory holds a reference to each of them.
\<close>

lemma addref_rest [simp]:
  "w_users (addref k p w) = w_users w" "fs_groups (w_user (addref k p w)) = fs_groups (w_user w)"
  "w_fids (addref k p w) = w_fids w" "w_conns (addref k p w) = w_conns w"
  by (auto simp: addref_def set_file_def split: option.splits)

lemma file2wstat_addref:
  "file2wstat (f\<lparr>fl_refcount := r\<rparr>) (addref k p w) = file2wstat f w" "file2wstat f (addref k p w) = file2wstat f w"
  "file2wstat (f\<lparr>fl_refcount := r\<rparr>) w = file2wstat f w"
  by (simp_all add: file2wstat_def)

lemma addref_commutes [simp]:
  "p \<noteq> Some a \<Longrightarrow> addref k p (set_file a f w) = set_file a f (addref k p w)"
  "addref k p (set_ffid b g w) = set_ffid b g (addref k p w)"
  "addref k p (w\<lparr>w_nmalloc := n\<rparr>) = (addref k p w)\<lparr>w_nmalloc := n\<rparr>"
  "time_now (addref k p w) = (fst (time_now w), addref k p (snd (time_now w)))"
  by (auto simp: addref_def set_file_def set_ffid_def time_now_def file_at_def fun_upd_twist split: option.splits)

lemma stat_at_set [simp]:
  "stat_at (set_ffid b g w) a = stat_at w a" "stat_at (snd (time_now w)) a = stat_at w a"
  "stat_at (w\<lparr>w_nmalloc := n\<rparr>) a = stat_at w a" "stat_at (addref k p w) a = stat_at w a"
  "a \<noteq> b \<Longrightarrow> stat_at (set_file b f w) a = stat_at w a"
proof -
  show "stat_at (addref k p w) a = stat_at w a"
  proof (cases "file_at a w")
    case (Some f)
    then show ?thesis by (simp add: stat_at_def file_at_addref file2wstat_addref)
  qed (simp add: stat_at_def file_at_addref)
qed (simp_all add: stat_at_def file2wstat_def set_ffid_def time_now_def file_at_def set_file_def)

text \<open>What a directory read keeps of the library's fids and of the links to the file fids.\<close>

definition fid_links :: "'x fworld \<Rightarrow> Npfid heap \<times> (addr \<Rightarrow> addr option) \<times> Npconn heap \<times> (nat \<Rightarrow> malloc)" where
  "fid_links w = (w_fids w, fs_fidaux (w_user w), w_conns w, w_mallocs w)"

lemma fid_links_set [simp]:
  "fid_links (set_file a f w) = fid_links w" "fid_links (set_ffid b g w) = fid_links w"
  "fid_links (snd (time_now w)) = fid_links w" "fid_links (addref k p w) = fid_links w"
  "fid_links (w\<lparr>w_nmalloc := n\<rparr>) = fid_links w"
  by (auto simp: fid_links_def set_file_def set_ffid_def time_now_def addref_def split: option.splits)

locale child_list =
  fixes kids :: "addr \<Rightarrow> addr list \<Rightarrow> 'x fworld \<Rightarrow> bool"
    and first :: "addr \<Rightarrow> 'x fworld \<Rightarrow> (addr option \<times> 'x fworld) option"
    and nx :: "addr \<Rightarrow> addr \<Rightarrow> 'x fworld \<Rightarrow> (addr option \<times> 'x fworld) option"
  assumes kids_file: "kids d cs w \<Longrightarrow> c \<in> set cs \<Longrightarrow>
      \<exists>f. file_at c w = Some f \<and> 1 \<le> fl_refcount f \<and> fl_name f \<noteq> None"
    and first_at: "kids d cs w \<Longrightarrow> first d w = Some (headp cs None, addref 1 (headp cs None) w)"
    and nx_at: "kids d (xs @ a # ys) w \<Longrightarrow> nx d a w = Some (headp ys None, addref 1 (headp ys None) w)"
    and kids_le: "kids d cs w \<Longrightarrow> tree_le w w' \<Longrightarrow> kids d cs w'"
    and kids_self: "kids d cs w \<Longrightarrow> d \<notin> set cs \<and> (\<exists>f. file_at d w = Some f)"
begin

lemma kids_addref: "kids d cs w \<Longrightarrow> 0 \<le> k \<Longrightarrow> kids d cs (addref k p w)"
  by (rule kids_le [OF _ tree_le_addref])

text \<open>Searching from a child on finds the first one with the name and keeps a reference to it.\<close>

lemma find_loop_at:
  "kids d (xs @ ys) w \<Longrightarrow> find_loop en (nx d) name (headp ys None) (addref 1 (headp ys None) w) =
     Some (find (names name w) ys, addref 1 (find (names name w) ys) w)"
proof (induction ys arbitrary: xs)
  case Nil
  then show ?case by (simp add: find_loop.simps)
next
  case (Cons a ys)
  obtain f nm where f: "file_at a w = Some f" "1 \<le> fl_refcount f" "fl_name f = Some nm"
    using kids_file [OF Cons.prems, of a] by auto
  have n: "nx d a w = Some (headp ys None, addref 1 (headp ys None) w)"
    using Cons.prems by (rule nx_at)
  have "kids d ((xs @ [a]) @ ys) w" using Cons.prems by simp
  note IH = Cons.IH [OF this]
  show ?case
    using f n IH decref_addref [OF f(1,2), of en]
    by (simp add: find_loop.simps [of _ _ _ "Some a"] file_at_addref names_def)
qed

lemma find_at:
  assumes "kids d cs w" "file_at d w = Some f" "dops en f = Some ops" "do_first ops = Some first"
    "do_next ops = Some nx" "name \<noteq> cstr ''..''"
  shows "npfile_find en d name w = Some (find (names name w) cs, addref 1 (find (names name w) cs) w)"
  using assms find_loop_at [of d "[]" cs w en name] first_at [OF assms(1)]
  by (simp add: npfile_find_def)

text \<open>Reading from a child on returns whole entries, as many as leave a byte of the space free.\<close>

lemma dir_loop_at:
  assumes "c < 2147483648"
  shows "kids d (xs @ ys) w \<Longrightarrow> n \<le> c \<Longrightarrow> length buf = c \<Longrightarrow>
    \<forall>y\<in>set ys. \<exists>s. stat_at w y = Some s \<and> wf_wstat s \<Longrightarrow>
    \<exists>k buf'. let bytes = concat (map (\<lambda>y. entry (the (stat_at w y))) (take k ys)); n' = n + length bytes in
      k \<le> length ys \<and> n' \<le> c \<and> length buf' = c \<and> take n' buf' = take n buf @ bytes \<and>
      (k < length ys \<longrightarrow> c \<le> n' + length (entry (the (stat_at w (ys ! k))))) \<and>
      dir_loop en (nx d) (word_of_nat c) True (headp ys None) (word_of_nat n) (Some buf) (addref 1 (headp ys None) w) =
        Some (word_of_nat n', Some buf', headp (drop k ys) None, addref 1 (headp (drop k ys) None) w)"
proof (induction ys arbitrary: xs n buf)
  case Nil
  then show ?case by (intro exI [of _ 0] exI [of _ buf]) (simp add: dir_loop.simps)
next
  case (Cons a ys)
  note c = Cons.prems(2,3)
  have lt: "(word_of_nat n < (word_of_nat c :: u32)) = (n < c)"
    using assms c(1) by (simp add: word_less_nat_alt)
  obtain f where f: "file_at a w = Some f" "1 \<le> fl_refcount f"
    using kids_file [OF Cons.prems(1), of a] by auto
  obtain s where s: "stat_at w a = Some s" "wf_wstat s" using Cons.prems(4) by auto
  have fw: "file2wstat (f\<lparr>fl_refcount := fl_refcount f + 1\<rparr>) (addref 1 (Some a) w) = Some s"
    using s(1) f(1) by (simp add: stat_at_def file2wstat_addref)
  have fa: "file_at a (addref 1 (Some a) w) = Some (f\<lparr>fl_refcount := fl_refcount f + 1\<rparr>)"
    using f by (simp add: file_at_addref)
  show ?case
  proof (cases "n < c")
    case False
    then show ?thesis using c
      by (intro exI [of _ 0] exI [of _ buf]) (simp add: dir_loop.simps [of _ _ _ _ "Some a"] lt)
  next
    case True
    obtain i b where ib:
      "np_serialize_stat npstat_zero s (drop n buf) (sint (word_of_nat c - word_of_nat n - 1 :: u32)) True = (i, b)"
      "\<not> cb_oob b" "length (take n buf @ cb_mem b) = c"
      "if n + length (entry s) + 1 \<le> c
       then i = int (length (entry s)) \<and> take (n + length (entry s)) (take n buf @ cb_mem b) = take n buf @ entry s
       else i = 0"
      using serialize_entry [OF s(2) True c(2) assms] .
    have sn: "sint (word_of_nat n :: u32) = int n"
      using assms True by (simp add: sint_of_nat_u32)
    note step = dir_loop.simps [of _ _ _ _ "Some a"] lt True fa fw sn ib(1,2)
    show ?thesis
    proof (cases "n + length (entry s) + 1 \<le> c")
      case False
      then show ?thesis using c ib(3,4)
        by (intro exI [of _ 0] exI [of _ "take n buf @ cb_mem b"]) (simp add: step s(1))
    next
      case fits: True
      let ?w = "addref 1 (headp ys None) w"
      have n0: "entry s \<noteq> []" using length_entry [of s] size_wstat_nonneg [of s True] by auto
      have nxt: "nx d a (addref 1 (Some a) w) = Some (headp ys None, addref 1 (Some a) ?w)"
        using nx_at [of d xs a ys "addref 1 (Some a) w"] kids_addref [OF Cons.prems(1), of 1]
        by (simp add: addref_commute)
      obtain f' where f': "file_at a ?w = Some f'" "1 \<le> fl_refcount f'"
        using f by (cases "headp ys None = Some a") (auto simp: file_at_addref)
      have k': "kids d ((xs @ [a]) @ ys) w" using Cons.prems(1) by simp
      have "word_of_nat n + word_of_int i = (word_of_nat (n + length (entry s)) :: u32)"
        using ib(4) fits by simp
      then have eq: "dir_loop en (nx d) (word_of_nat c) True (Some a) (word_of_nat n) (Some buf) (addref 1 (Some a) w) =
        dir_loop en (nx d) (word_of_nat c) True (headp ys None) (word_of_nat (n + length (entry s)))
          (Some (take n buf @ cb_mem b)) ?w"
        using n0 ib(4) fits nxt decref_addref [OF f', of en] by (simp add: step del: of_nat_add)
      obtain k buf' where k: "let bytes = concat (map (\<lambda>y. entry (the (stat_at w y))) (take k ys)); n' = n + length (entry s) + length bytes in
        k \<le> length ys \<and> n' \<le> c \<and> length buf' = c \<and> take n' buf' = take (n + length (entry s)) (take n buf @ cb_mem b) @ bytes \<and>
        (k < length ys \<longrightarrow> c \<le> n' + length (entry (the (stat_at w (ys ! k))))) \<and>
        dir_loop en (nx d) (word_of_nat c) True (headp ys None) (word_of_nat (n + length (entry s)))
          (Some (take n buf @ cb_mem b)) ?w =
        Some (word_of_nat n', Some buf', headp (drop k ys) None, addref 1 (headp (drop k ys) None) w)"
        using Cons.IH [OF k' _ ib(3), of "n + length (entry s)"] fits Cons.prems(4) by auto
      then show ?thesis using ib(4) fits eq s(1)
        by (intro exI [of _ "Suc k"] exI [of _ buf']) (simp add: Let_def add.assoc)
    qed
  qed
qed

text \<open>
  A directory read from the first child or from where the last one stopped. \<open>addref 1 p w\<close> is
  the state in which the fid holds a reference to the child \<open>p\<close> it has stopped at.
\<close>

lemma read_dir_at:
  assumes kids: "kids d (xs @ ys) w" and ff: "ffid_at b w = Some ff" "ff_dirent ff = headp ys None"
    and ops: "dops en f = Some ops" "do_first ops = Some first" "do_next ops = Some nx"
    and c: "np_alloc_rread (Some j) (word_of_nat c) = Some fc" "c + 11 < 2147483648"
    and stats: "\<forall>y\<in>set (xs @ ys). \<exists>s. stat_at w y = Some s \<and> wf_wstat s"
    and start: "start = (if offset = 0 then xs @ ys else ys)"
  shows "\<exists>k rc w'. let bytes = concat (map (\<lambda>y. entry (the (stat_at w y))) (take k start)) in
    k \<le> length start \<and> length bytes \<le> c \<and>
    (k < length start \<longrightarrow> c \<le> length bytes + length (entry (the (stat_at w (start ! k))))) \<and>
    read_dir en True b d f offset (word_of_nat c) (Some fc) (addref 1 (headp ys None) w) =
      Some (Some rc, addref 1 (headp (drop k start) None) w') \<and>
    take (unat (fc_size rc)) (fc_pkt rc) = wire nu dotu NOTAG (MRread bytes) \<and>
    kids d (xs @ ys) w' \<and> fid_links w' = fid_links w \<and> (\<forall>y\<in>set (xs @ ys). stat_at w' y = stat_at w y) \<and>
    ffid_at b w' = Some (ff\<lparr>ff_dirent := headp (drop k start) None,
      ff_diroffset := (if offset = 0 then 0 else ff_diroffset ff) + word_of_nat (length bytes)\<rparr>)"
proof -
  obtain mem where mem: "ret_data (Some fc) = Some mem" "length mem = c"
    using read_reply(1) [OF c] by blast
  define ff1 where "ff1 = ff\<lparr>ff_dirent := headp start None, ff_diroffset := (if offset = 0 then 0 else ff_diroffset ff)\<rparr>"
  define w1 where "w1 = set_ffid b (Some ff1) w"
  have le1: "tree_le w w1" by (rule tree_le_files) (simp add: w1_def)
  then have kids1: "kids d (xs @ ys) w1" using kids kids_le by blast
  obtain zs where zs: "xs @ ys = zs @ start" using start by (cases "offset = 0") auto
  have stats1: "\<forall>y\<in>set start. \<exists>s. stat_at w1 y = Some s \<and> wf_wstat s"
    using stats start by (auto simp: w1_def)
  have init: "(if offset = 0 then do {
        ff \<leftarrow> ffid_at b (addref 1 (headp ys None) w);
        (_, w) \<leftarrow> npfile_decref en (ff_dirent ff) (addref 1 (headp ys None) w);
        (p, w) \<leftarrow> first d w;
        upd_ffid b (\<lambda>ff. ff\<lparr>ff_dirent := p, ff_diroffset := 0\<rparr>) w
      } else Some (addref 1 (headp ys None) w)) = Some (addref 1 (headp start None) w1)"
  proof (cases "offset = 0")
    case True
    have "\<exists>r. npfile_decref en (headp ys None) (addref 1 (headp ys None) w) = Some (r, w)"
    proof (cases ys)
      case (Cons a ys')
      then obtain g where "file_at a w = Some g" "1 \<le> fl_refcount g" using kids_file [OF kids, of a] by auto
      then show ?thesis using decref_addref [of a w g en] Cons by simp
    qed simp
    then show ?thesis using True ff first_at [OF kids] start
      by (auto simp: w1_def ff1_def simp del: addref_commutes(3,4))
  next
    case False
    have "ff1 = ff" using False ff(2) start by (cases ff) (simp add: ff1_def)
    then have "w1 = w" using ff(1) by (simp add: w1_def set_ffid_def ffid_at_def fun_upd_idem)
    then show ?thesis using False start by simp
  qed
  obtain k buf' where loop: "k \<le> length start" "length (concat (map (\<lambda>y. entry (the (stat_at w1 y))) (take k start))) \<le> c"
    "length buf' = c"
    "take (length (concat (map (\<lambda>y. entry (the (stat_at w1 y))) (take k start)))) buf' = concat (map (\<lambda>y. entry (the (stat_at w1 y))) (take k start))"
    "k < length start \<longrightarrow> c \<le> length (concat (map (\<lambda>y. entry (the (stat_at w1 y))) (take k start))) + length (entry (the (stat_at w1 (start ! k))))"
    "dir_loop en (nx d) (word_of_nat c) True (headp start None) (word_of_nat 0) (Some mem) (addref 1 (headp start None) w1) =
        Some (word_of_nat (length (concat (map (\<lambda>y. entry (the (stat_at w1 y))) (take k start)))), Some buf', headp (drop k start) None, addref 1 (headp (drop k start) None) w1)"
    using dir_loop_at [of c d zs start w1 0 mem en] kids1 zs mem(2) c(2) stats1 unfolding Let_def by auto
  let ?bytes = "concat (map (\<lambda>y. entry (the (stat_at w y))) (take k start))"
  note loop' = loop [unfolded w1_def stat_at_set, folded w1_def]
  have sc: "scast (word_of_nat (length ?bytes) :: u32) = (word_of_nat (length ?bytes) :: u64)"
    using loop'(2) c(2) by (simp add: scast_eq sint_of_nat_u32)
  define w2 where "w2 = set_ffid b (Some (ff1\<lparr>ff_diroffset := ff_diroffset ff1 + word_of_nat (length ?bytes), ff_dirent := headp (drop k start) None\<rparr>)) w1"
  obtain g where g: "file_at d w = Some g" "d \<notin> set (xs @ ys)" using kids_self [OF kids] by blast
  have dk: "headp (drop k start) None \<noteq> Some d"
    using g(2) zs set_drop_subset [of k start] by (cases "drop k start") auto
  define w3 where "w3 = set_file d (Some (g\<lparr>fl_atime := fst (time_now w2)\<rparr>)) (snd (time_now w2))"
  have w2: "file_at d w2 = Some g" "\<And>a. file_at a w2 = file_at a w" using g(1) by (simp_all add: w2_def w1_def)
  obtain rc where rc: "read_done (set_data (Some fc) (Some buf')) (word_of_nat (length ?bytes)) (addref 1 (headp (drop k start) None) w3) =
      Some (Some rc, addref 1 (headp (drop k start) None) w3)"
    "take (unat (fc_size rc)) (fc_pkt rc) = wire nu dotu NOTAG (MRread ?bytes)"
    using read_reply(2) [OF c, of buf' "length ?bytes" "addref 1 (headp (drop k start) None) w3" nu dotu] loop' by auto
  have run: "read_dir en True b d f offset (word_of_nat c) (Some fc) (addref 1 (headp ys None) w) =
      Some (Some rc, addref 1 (headp (drop k start) None) w3)"
  proof -
    have s1: "ffid_at b (addref 1 p w1) = Some ff1" "ff_dirent ff1 = headp start None" for p
      by (simp_all add: w1_def ff1_def)
    have s2: "upd_ffid b (\<lambda>ff. ff\<lparr>ff_diroffset := ff_diroffset ff + scast (word_of_nat (length ?bytes) :: u32),
        ff_dirent := headp (drop k start) None\<rparr>) (addref 1 p w1) = Some (addref 1 p w2)" for p
      by (simp add: upd_ffid_Some [OF s1(1)] sc w2_def)
    have s3: "upd_file d (fl_atime_update (\<lambda>_. fst (time_now w2))) (addref 1 (headp (drop k start) None) (snd (time_now w2))) =
        Some (addref 1 (headp (drop k start) None) w3)"
      using dk w2(1) by (simp add: w3_def file_at_addref)
    show ?thesis
      unfolding read_dir_def ops option.case prod.case bind.bind_lunit init s1 mem(1) loop'(6) [simplified] s2
        addref_commutes(4) Let_def s3 using rc(1) by (simp add: s1 s2 s3 mem(1) loop'(6) [simplified] init ops)
  qed
  have "tree_le w w3"
    using g(1) w2 tree_le_trans [OF tree_le_files [of "snd (time_now w2)" w] tree_le_set_file [of d "snd (time_now w2)" g]]
    by (simp add: w3_def tree_part_def)
  then have "kids d (xs @ ys) w3" using kids kids_le by blast
  moreover have "fid_links w3 = fid_links w" by (simp add: w3_def w2_def w1_def)
  moreover have "stat_at w3 y = stat_at w y" if "y \<in> set (xs @ ys)" for y
  proof -
    have "y \<noteq> d" using that g(2) by blast
    then show ?thesis by (simp add: w3_def w2_def w1_def)
  qed
  moreover have "ffid_at b w3 = Some (ff\<lparr>ff_dirent := headp (drop k start) None,
      ff_diroffset := (if offset = 0 then 0 else ff_diroffset ff) + word_of_nat (length ?bytes)\<rparr>)"
    by (simp add: w3_def w2_def ff1_def)
  ultimately show ?thesis using loop'(1,2,5) run rc(2)
    by (intro exI [of _ k] exI [of _ rc] exI [of _ w3]) (simp add: Let_def)
qed

end

end
