(* ===== verification/Ramfs.thy ===== *)
theory Ramfs
  imports FileProps
begin

text \<open>
  A memory file server over the file layer, \<^verbatim>\<open>npfs/fs/ramfs2.c\<close>: files hold a buffer of
  whole blocks, directories keep their children in a doubly linked list. Its two operation
  tables make the layer of \<^verbatim>\<open>file.c\<close> a complete server.
\<close>

section \<open>State\<close>

text \<open>
  \<^verbatim>\<open>data\<close> is a buffer of \<^verbatim>\<open>datasize\<close> bytes or NULL.
\<close>

record File =
  fi_data :: "u8 list option"
  fi_datasize :: u64

record rfs =
  rf_aux :: "File heap"
  rf_qidpath :: u64
  rf_blksize :: int

type_synonym rworld = "rfs fworld"

definition Enospace :: cstring where "Enospace = cstr ''no space left''"
definition ROOTPERM :: u32 where "ROOTPERM = 0x1ED"

definition aux_at :: "addr \<Rightarrow> rworld \<Rightarrow> File option" where
  "aux_at a w = rf_aux (fs_x (w_user w)) a"

definition set_aux :: "addr \<Rightarrow> File option \<Rightarrow> rworld \<Rightarrow> rworld" where
  "set_aux a f w = w\<lparr>w_user := (w_user w)\<lparr>fs_x := (fs_x (w_user w))\<lparr>rf_aux := (rf_aux (fs_x (w_user w)))(a := f)\<rparr>\<rparr>\<rparr>"

text \<open>The \<^verbatim>\<open>File\<close> behind a file.\<close>

definition file_aux :: "addr \<Rightarrow> rworld \<Rightarrow> (Npfile \<times> addr \<times> File) option" where
  "file_aux a w = do { f \<leftarrow> file_at a w; x \<leftarrow> fl_aux f; d \<leftarrow> aux_at x w; Some (f, x, d) }"

section \<open>Buffers\<close>

definition file_alloc :: "rworld \<Rightarrow> (addr \<times> rworld) option" where
  "file_alloc w =
     (case world_malloc w of
        (None, _) \<Rightarrow> None
      | (Some _, w') \<Rightarrow> Some (w_nmalloc w, set_aux (w_nmalloc w) (Some \<lparr>fi_data = None, fi_datasize = 0\<rparr>) w'))"

text \<open>
  The size \<^verbatim>\<open>n\<close> of \<^verbatim>\<open>file_truncate\<close>, computed in 64 bits and cut to an
  \<^verbatim>\<open>int\<close>.
\<close>

definition round_blocks :: "int \<Rightarrow> u64 \<Rightarrow> int" where
  "round_blocks blksize sz =
     (let b = word_of_int blksize :: u64 in
      sint (ucast ((sz div b + (if sz mod b \<noteq> 0 then 1 else 0)) * b) :: u32))"

text \<open>
  The boolean is true for the result 0. The first bytes survive \<^verbatim>\<open>realloc\<close>, the rest of
  a longer buffer is whatever the allocator left there. A negative size is larger than any
  object when it becomes a \<^verbatim>\<open>size_t\<close>, and is refused. A zero block size divides by
  zero; the outcome of \<^verbatim>\<open>realloc\<close> to size zero is not specified; both are faults.
\<close>

definition file_truncate :: "addr \<Rightarrow> u64 \<Rightarrow> rworld \<Rightarrow> (bool \<times> rworld) option" where
  "file_truncate x sz w = do {
     f \<leftarrow> aux_at x w;
     if sz = 0 then Some (True, set_aux x (Some (f\<lparr>fi_data := None, fi_datasize := 0\<rparr>)) w)
     else if (word_of_int (rf_blksize (fs_x (w_user w))) :: u64) = 0 then None
     else
       (let n = round_blocks (rf_blksize (fs_x (w_user w))) sz in
        if n = 0 then None
        else case world_malloc w of
          (m, w) \<Rightarrow>
            (case (if n < 0 then None else m) of
               None \<Rightarrow> Some (False, w)
             | Some (_, junk) \<Rightarrow>
                 (let old = (case fi_data f of None \<Rightarrow> [] | Some d \<Rightarrow> take (nat n) d);
                      d = old @ map junk [length old..<nat n]
                  in Some (True, set_aux x (Some \<lparr>fi_data = Some d, fi_datasize = word_of_int n\<rparr>) w))))
   }"

text \<open>
  \<^verbatim>\<open>memmove\<close> and \<^verbatim>\<open>memset\<close> on a buffer that may be NULL; a length of zero touches
  nothing, and a negative one is larger than any object.
\<close>

definition buf_get :: "u8 list option \<Rightarrow> u64 \<Rightarrow> int \<Rightarrow> u8 list option" where
  "buf_get d i n =
     (if n = 0 then Some []
      else case d of
        None \<Rightarrow> None
      | Some d \<Rightarrow> if n < 0 \<or> int (length d) < uint i + n then None else Some (take (nat n) (drop (unat i) d)))"

definition buf_set :: "u8 list option \<Rightarrow> u64 \<Rightarrow> u8 list \<Rightarrow> u8 list option option" where
  "buf_set d i vs =
     (if vs = [] then Some d
      else case d of
        None \<Rightarrow> None
      | Some d \<Rightarrow> if length d < unat i + length vs then None
          else Some (Some (take (unat i) d @ vs @ drop (unat i + length vs) d)))"

section \<open>File operations\<close>

definition rfs_read :: "addr \<Rightarrow> u64 \<Rightarrow> u32 \<Rightarrow> u8 list \<Rightarrow> addr \<Rightarrow> rworld \<Rightarrow> (int \<times> u8 list \<times> rworld) option" where
  "rfs_read fid offset count buf req w = do {
     ff \<leftarrow> ffid_at fid w;
     (file, x, f) \<leftarrow> file_aux (ff_file ff) w;
     let n = sint count;
     let n = (if fl_length file < offset + ucast count then sint (ucast (fl_length file - offset) :: u32) else n);
     let n = (if n < 0 then 0 else n);
     bytes \<leftarrow> buf_get (fi_data f) offset n;
     if int (length buf) < n then None
     else Some (n, bytes @ drop (nat n) buf, w)
   }"

definition rfs_write :: "addr \<Rightarrow> u64 \<Rightarrow> u32 \<Rightarrow> u8 list \<Rightarrow> addr \<Rightarrow> rworld \<Rightarrow> (int \<times> rworld) option" where
  "rfs_write fid offset count data req w = do {
     ff \<leftarrow> ffid_at fid w;
     let a = ff_file ff;
     (file, x, f) \<leftarrow> file_aux a w;
     let offset = (if ff_omode ff AND uint Oappend \<noteq> 0 then fl_length file else offset);
     (n, w) \<leftarrow>
       (if fl_length file < offset + ucast count then do {
          (ok, w) \<leftarrow> file_truncate x (offset + ucast count) w;
          if \<not> ok then Some (None, np_werror (Some Enospace) ENOSPC w)
          else do {
            f \<leftarrow> aux_at x w;
            let n = (if offset + ucast count > fi_datasize f
              then (if fi_datasize f - offset > 0 then sint (ucast (fi_datasize f - offset) :: u32) else 0)
              else sint count);
            if n = 0 then Some (Some n, w)
            else do {
              d \<leftarrow> (if fl_length file < offset
                then buf_set (fi_data f) (fl_length file) (replicate (unat (offset - fl_length file)) 0)
                else Some (fi_data f));
              let w = set_aux x (Some (f\<lparr>fi_data := d\<rparr>)) w;
              w \<leftarrow> upd_file a (fl_length_update (\<lambda>_. offset + ucast count)) w;
              Some (Some n, w)
            }
          }
        }
        else Some (Some (sint count), w));
     (case n of
        None \<Rightarrow> Some (0, w)
      | Some n \<Rightarrow>
          if n = 0 then Some (n, w)
          else if n < 0 \<or> int (length data) < n then None
          else do {
            f \<leftarrow> aux_at x w;
            d \<leftarrow> buf_set (fi_data f) offset (take (nat n) data);
            Some (n, set_aux x (Some (f\<lparr>fi_data := d\<rparr>)) w)
          })
   }"

definition rfs_destroy :: "addr \<Rightarrow> rworld \<Rightarrow> rworld option" where
  "rfs_destroy a w = do { (_, x, _) \<leftarrow> file_aux a w; Some (set_aux x None w) }"

section \<open>Directory operations\<close>

definition rfs_fileops_addr :: nat where "rfs_fileops_addr = 0"
definition rfs_dirops_addr :: nat where "rfs_dirops_addr = 1"

definition rfs_create ::
  "addr \<Rightarrow> cstring \<Rightarrow> u32 \<Rightarrow> addr option \<Rightarrow> addr option \<Rightarrow> cstring option \<Rightarrow> rworld \<Rightarrow> (addr option \<times> rworld) option"
where
  "rfs_create dir name perm uid gid extension w =
     (if perm AND Dmlink \<noteq> 0 then Some (None, np_werror (Some Eperm) EPERM w)
      else do {
        (x, w) \<leftarrow> file_alloc w;
        let ops = (if perm AND Dmdir \<noteq> 0 then rfs_dirops_addr else rfs_fileops_addr);
        let q = rf_qidpath (fs_x (w_user w));
        let w = w\<lparr>w_user := (w_user w)\<lparr>fs_x := (fs_x (w_user w))\<lparr>rf_qidpath := q + 1\<rparr>\<rparr>\<rparr>;
        (a, w) \<leftarrow> npfile_alloc (Some dir) name perm q (Some ops) (Some x) w;
        w \<leftarrow> upd_file a (\<lambda>f. f\<lparr>fl_uid := uid, fl_gid := gid, fl_muid := uid\<rparr>) w;
        w \<leftarrow> npfile_incref (Some a) w;
        w \<leftarrow> npfile_incref (Some a) w;
        d \<leftarrow> file_at dir w;
        w \<leftarrow> (case fl_dirlast d of
            Some l \<Rightarrow> do {
              w \<leftarrow> upd_file l (fl_next_update (\<lambda>_. Some a)) w;
              upd_file a (fl_prev_update (\<lambda>_. Some l)) w
            }
          | None \<Rightarrow> upd_file dir (fl_dirfirst_update (\<lambda>_. Some a)) w);
        w \<leftarrow> upd_file dir (fl_dirlast_update (\<lambda>_. Some a)) w;
        ext \<leftarrow> extension;
        let (m, w) = world_malloc w;
        w \<leftarrow> upd_file a (fl_extension_update (\<lambda>_. map_option (\<lambda>_. ext) m)) w;
        Some (Some a, w)
      })"

definition rfs_first :: "addr \<Rightarrow> rworld \<Rightarrow> (addr option \<times> rworld) option" where
  "rfs_first dir w = do {
     d \<leftarrow> file_at dir w;
     w \<leftarrow> npfile_incref (fl_dirfirst d) w;
     d \<leftarrow> file_at dir w;
     Some (fl_dirfirst d, w)
   }"

definition rfs_next :: "addr \<Rightarrow> addr \<Rightarrow> rworld \<Rightarrow> (addr option \<times> rworld) option" where
  "rfs_next dir prevchild w = do {
     c \<leftarrow> file_at prevchild w;
     w \<leftarrow> npfile_incref (fl_next c) w;
     c \<leftarrow> file_at prevchild w;
     Some (fl_next c, w)
   }"

definition rfs_remove :: "addr \<Rightarrow> addr \<Rightarrow> rworld \<Rightarrow> (bool \<times> rworld) option" where
  "rfs_remove dir file w = do {
     d \<leftarrow> file_at dir w;
     f \<leftarrow> file_at file w;
     w \<leftarrow> (if fl_dirfirst d = Some file then upd_file dir (fl_dirfirst_update (\<lambda>_. fl_next f)) w
        else do { p \<leftarrow> fl_prev f; upd_file p (fl_next_update (\<lambda>_. fl_next f)) w });
     f \<leftarrow> file_at file w;
     w \<leftarrow> (case fl_next f of
          Some n \<Rightarrow> upd_file n (fl_prev_update (\<lambda>_. fl_prev f)) w
        | None \<Rightarrow> Some w);
     d \<leftarrow> file_at dir w;
     f \<leftarrow> file_at file w;
     w \<leftarrow> (if fl_dirlast d = Some file then upd_file dir (fl_dirlast_update (\<lambda>_. fl_prev f)) w else Some w);
     w \<leftarrow> upd_file file (\<lambda>f. f\<lparr>fl_prev := None, fl_next := None, fl_parent := None\<rparr>) w;
     Some (True, w)
   }"

section \<open>Changing a file's attributes\<close>

text \<open>
  The tables as \<^verbatim>\<open>npfile_find\<close> and the release of a reference use them; neither
  reaches the \<^verbatim>\<open>wstat\<close> entries.
\<close>

definition rfs_fileops0 :: "rfs fileops" where
  "rfs_fileops0 = \<lparr>fo_ref = None, fo_unref = None, fo_read = Some rfs_read, fo_write = Some rfs_write,
     fo_wstat = None, fo_destroy = Some rfs_destroy, fo_openfid = None, fo_closefid = None\<rparr>"

definition rfs_dirops0 :: "rfs dirops" where
  "rfs_dirops0 = \<lparr>do_ref = None, do_unref = None, do_create = Some rfs_create, do_first = Some rfs_first,
     do_next = Some rfs_next, do_wstat = None, do_remove = Some rfs_remove, do_destroy = Some rfs_destroy\<rparr>"

definition rfs_env0 :: "(addr \<Rightarrow> addr option \<Rightarrow> rworld \<Rightarrow> bool option) \<Rightarrow> rfs fenv" where
  "rfs_env0 member = \<lparr>fe_fileops = [rfs_fileops_addr \<mapsto> rfs_fileops0],
     fe_dirops = [rfs_dirops_addr \<mapsto> rfs_dirops0], fe_ismember = member\<rparr>"

text \<open>The part of \<^verbatim>\<open>rfs_wstat\<close> that sets the length; false is \<^verbatim>\<open>goto error\<close>.\<close>

definition rfs_set_length :: "addr \<Rightarrow> u64 \<Rightarrow> rworld \<Rightarrow> (bool \<times> rworld) option" where
  "rfs_set_length a len w = do {
     (_, x, _) \<leftarrow> file_aux a w;
     (ok, w) \<leftarrow> file_truncate x len w;
     if \<not> ok then Some (False, np_werror (Some Enospace) ENOSPC w)
     else do {
       f \<leftarrow> aux_at x w;
       file \<leftarrow> file_at a w;
       let len = (if len > fi_datasize f then fi_datasize f else len);
       d \<leftarrow> (if fl_length file < len
         then buf_set (fi_data f) (fl_length file) (replicate (unat (len - fl_length file)) 0)
         else Some (fi_data f));
       w \<leftarrow> upd_file a (fl_length_update (\<lambda>_. len)) (set_aux x (Some (f\<lparr>fi_data := d\<rparr>)) w);
       Some (True, w)
     }
   }"

text \<open>The part of \<^verbatim>\<open>rfs_wstat\<close> that renames, with the \<^verbatim>\<open>oldname\<close> it saves, and the code
  under its label \<^verbatim>\<open>error\<close>, which puts the old name and the old length back.\<close>

definition rfs_set_name ::
  "(addr \<Rightarrow> addr option \<Rightarrow> rworld \<Rightarrow> bool option) \<Rightarrow> addr \<Rightarrow> u8 list \<Rightarrow> Npstr \<Rightarrow> rworld \<Rightarrow>
   (bool \<times> cstring option \<times> rworld) option"
where
  "rfs_set_name member a pkt nm w = do {
     file \<leftarrow> file_at a w;
     p \<leftarrow> fl_parent file;
     (sname, w) \<leftarrow> run_strdup pkt nm w;
     sname \<leftarrow> sname;
     (nfile, w) \<leftarrow> npfile_find (rfs_env0 member) p sname w;
     if nfile \<noteq> None then Some (False, None, np_werror (Some Eexist) EEXIST w)
     else do {
       file \<leftarrow> file_at a w;
       w \<leftarrow> upd_file a (fl_name_update (\<lambda>_. Some sname)) w;
       Some (True, fl_name file, w)
     }
   }"

definition rfs_wstat_error ::
  "addr \<Rightarrow> cstring option \<Rightarrow> u64 \<Rightarrow> rworld \<Rightarrow> (bool \<times> rworld) option"
where
  "rfs_wstat_error a oldname oldlength w = do {
     w \<leftarrow> (if oldname \<noteq> None then upd_file a (fl_name_update (\<lambda>_. oldname)) w else Some w);
     w \<leftarrow> (if oldlength \<noteq> - 1 then do {
         w \<leftarrow> upd_file a (fl_length_update (\<lambda>_. oldlength)) w;
         (_, x, _) \<leftarrow> file_aux a w;
         map_option snd (file_truncate x oldlength w)
       }
       else Some w);
     Some (False, w)
   }"

definition rfs_wstat ::
  "(addr \<Rightarrow> addr option \<Rightarrow> rworld \<Rightarrow> bool option) \<Rightarrow> addr \<Rightarrow> u8 list \<Rightarrow> Npstat \<Rightarrow> rworld \<Rightarrow> (bool \<times> rworld) option"
where
  "rfs_wstat member a pkt st w = do {
     (ok, oldname, w) \<leftarrow>
       (if str_len (st_name st) \<noteq> 0 then rfs_set_name member a pkt (st_name st) w else Some (True, None, w));
     if \<not> ok then rfs_wstat_error a oldname (- 1) w
     else do {
       file \<leftarrow> file_at a w;
       let oldlength = (if st_length st \<noteq> - 1 then fl_length file else - 1);
       (ok, w) \<leftarrow> (if st_length st \<noteq> - 1 then rfs_set_length a (st_length st) w else Some (True, w));
       if \<not> ok then rfs_wstat_error a oldname oldlength w
       else do {
         w \<leftarrow> (if st_mode st \<noteq> - 1 then upd_file a (fl_mode_update (\<lambda>_. st_mode st)) w else Some w);
         w \<leftarrow> (if st_mtime st \<noteq> - 1 then upd_file a (fl_mtime_update (\<lambda>_. st_mtime st)) w else Some w);
         Some (True, w)
       }
     }
   }"

definition rfs_fileops :: "(addr \<Rightarrow> addr option \<Rightarrow> rworld \<Rightarrow> bool option) \<Rightarrow> rfs fileops" where
  "rfs_fileops member = rfs_fileops0\<lparr>fo_wstat := Some (rfs_wstat member)\<rparr>"

definition rfs_dirops :: "(addr \<Rightarrow> addr option \<Rightarrow> rworld \<Rightarrow> bool option) \<Rightarrow> rfs dirops" where
  "rfs_dirops member = rfs_dirops0\<lparr>do_wstat := Some (rfs_wstat member)\<rparr>"

definition rfs_env :: "(addr \<Rightarrow> addr option \<Rightarrow> rworld \<Rightarrow> bool option) \<Rightarrow> rfs fenv" where
  "rfs_env member = \<lparr>fe_fileops = [rfs_fileops_addr \<mapsto> rfs_fileops member],
     fe_dirops = [rfs_dirops_addr \<mapsto> rfs_dirops member], fe_ismember = member\<rparr>"

text \<open>The root directory that \<^verbatim>\<open>main\<close> makes, for the user it was given.\<close>

definition rfs_root :: "addr \<Rightarrow> rworld \<Rightarrow> (addr \<times> rworld) option" where
  "rfs_root user w = do {
     u \<leftarrow> w_users w user;
     (x, w) \<leftarrow> file_alloc w;
     let q = rf_qidpath (fs_x (w_user w));
     let w = w\<lparr>w_user := (w_user w)\<lparr>fs_x := (fs_x (w_user w))\<lparr>rf_qidpath := q + 1\<rparr>\<rparr>\<rparr>;
     (a, w) \<leftarrow> npfile_alloc None [] (ROOTPERM OR Dmdir) q (Some rfs_dirops_addr) (Some x) w;
     w \<leftarrow> npfile_incref (Some a) w;
     let (t, w) = time_now w;
     w \<leftarrow> upd_file a (\<lambda>f. f\<lparr>fl_parent := Some a, fl_atime := t, fl_mtime := t, fl_uid := Some user,
       fl_gid := us_dfltgroup u, fl_muid := Some user\<rparr>) w;
     Some (a, npfile_init_srv (Some a) w)
   }"

end
