(* ===== verification/RamfsTree.thy ===== *)
theory RamfsTree
  imports Ramfs
begin

text \<open>
  The directories of the memory file server: \<open>rdir\<close> says when a directory's linked list
  holds given children and keeps the contract of the file layer (\<open>child_list\<close>), and
  \<open>rfs_tree\<close> that the whole store is a map from directories to children in which every file
  has the operation table its mode asks for. Creating and removing act on that map.
\<close>

section \<open>Directories\<close>

text \<open>
  \<open>rdir d cs w\<close>: \<open>d\<close> is a directory of the server whose list of children is
  \<open>cs\<close>; each child has a name, has \<open>d\<close> as its parent and is referenced.
\<close>

definition rdir :: "addr \<Rightarrow> addr list \<Rightarrow> rworld \<Rightarrow> bool" where
  "rdir d cs w \<longleftrightarrow> distinct cs \<and> d \<notin> set cs \<and>
     (\<exists>f. file_at d w = Some f \<and> is_dir f \<and> fl_ops f = Some rfs_dirops_addr \<and>
       fl_dirlast f = lastp None cs \<and> fl_dirfirst f = headp cs None) \<and>
     dseg fl_next fl_prev (\<lambda>a. file_at a w) None (headp cs None) cs None \<and>
     (\<forall>c\<in>set cs. \<exists>g. file_at c w = Some g \<and> fl_parent g = Some d \<and> 1 \<le> fl_refcount g \<and> fl_name g \<noteq> None)"

definition dir_part :: "Npfile \<Rightarrow> bool \<times> nat option \<times> addr option \<times> addr option" where
  "dir_part f = (is_dir f, fl_ops f, fl_dirfirst f, fl_dirlast f)"

definition node_part :: "Npfile \<Rightarrow> addr option \<times> addr option \<times> addr option \<times> bool" where
  "node_part f = (fl_next f, fl_prev f, fl_parent f, fl_name f = None)"

lemma is_dir_upd [simp]:
  "is_dir (f\<lparr>fl_next := p\<rparr>) = is_dir f" "is_dir (f\<lparr>fl_prev := p\<rparr>) = is_dir f"
  "is_dir (f\<lparr>fl_parent := p\<rparr>) = is_dir f" "is_dir (f\<lparr>fl_refcount := n\<rparr>) = is_dir f"
  "is_dir (f\<lparr>fl_dirfirst := p\<rparr>) = is_dir f" "is_dir (f\<lparr>fl_dirlast := p\<rparr>) = is_dir f"
  "is_dir (f\<lparr>fl_name := s\<rparr>) = is_dir f" "is_dir (f\<lparr>fl_length := l\<rparr>) = is_dir f"
  "is_dir (f\<lparr>fl_mtime := t\<rparr>) = is_dir f" "is_dir (f\<lparr>fl_extension := s\<rparr>) = is_dir f"
  by (simp_all add: is_dir_def)

lemma rdir_cong:
  assumes r: "rdir d cs w"
    and d: "map_option dir_part (file_at d w') = map_option dir_part (file_at d w)"
    and c: "\<And>c. c \<in> set cs \<Longrightarrow> map_option node_part (file_at c w') = map_option node_part (file_at c w)"
    and n: "\<And>c g. c \<in> set cs \<Longrightarrow> file_at c w' = Some g \<Longrightarrow> 1 \<le> fl_refcount g"
  shows "rdir d cs w'"
proof -
  have s: "dseg fl_next fl_prev (\<lambda>a. file_at a w') None (headp cs None) cs None"
  proof (rule dseg_links_cong)
    show "dseg fl_next fl_prev (\<lambda>a. file_at a w) None (headp cs None) cs None"
      using r by (simp add: rdir_def)
    show "\<forall>a\<in>set cs. map_option (\<lambda>r. (fl_next r, fl_prev r)) (file_at a w') =
        map_option (\<lambda>r. (fl_next r, fl_prev r)) (file_at a w)"
    proof
      fix a assume "a \<in> set cs"
      from arg_cong [OF c [OF this], of "map_option (\<lambda>(n, p, _). (n, p))"]
      show "map_option (\<lambda>r. (fl_next r, fl_prev r)) (file_at a w') =
          map_option (\<lambda>r. (fl_next r, fl_prev r)) (file_at a w)"
        by (simp add: option.map_comp comp_def node_part_def)
    qed
  qed
  have f: "\<exists>f. file_at d w' = Some f \<and> is_dir f \<and> fl_ops f = Some rfs_dirops_addr \<and>
       fl_dirlast f = lastp None cs \<and> fl_dirfirst f = headp cs None"
    using r d by (auto simp: rdir_def dir_part_def)
  have "\<exists>g. file_at x w' = Some g \<and> fl_parent g = Some d \<and> 1 \<le> fl_refcount g \<and> fl_name g \<noteq> None"
    if x: "x \<in> set cs" for x
    using r c [OF x] n [OF x] x by (fastforce simp: rdir_def node_part_def)
  then show ?thesis using r s f by (simp add: rdir_def)
qed

lemma tree_part_parts:
  assumes "tree_part f' = tree_part f"
  shows "dir_part f' = dir_part f" "node_part f' = node_part f" "is_dir f' = is_dir f"
    "fl_ops f' = fl_ops f" "fl_aux f' = fl_aux f"
  using arg_cong [OF assms, of dir_part] arg_cong [OF assms, of node_part] arg_cong [OF assms, of is_dir]
    arg_cong [OF assms, of fl_ops] arg_cong [OF assms, of fl_aux]
  by (simp_all add: dir_part_def node_part_def is_dir_def tree_part_def)

lemma rdir_le:
  assumes "rdir d cs w" "tree_le w w'"
  shows "rdir d cs w'"
proof (rule rdir_cong [OF assms(1)])
  have part: "\<exists>f'. file_at a w' = Some f' \<and> dir_part f' = dir_part f \<and> node_part f' = node_part f \<and>
      fl_refcount f \<le> fl_refcount f'" if "file_at a w = Some f" for a f
    using assms(2) that tree_part_parts unfolding tree_le_def by blast
  show "map_option dir_part (file_at d w') = map_option dir_part (file_at d w)"
    using assms(1) part by (fastforce simp: rdir_def)
  fix c assume c: "c \<in> set cs"
  then obtain g where g: "file_at c w = Some g" "1 \<le> fl_refcount g" using assms(1) by (auto simp: rdir_def)
  show "map_option node_part (file_at c w') = map_option node_part (file_at c w)"
    using part [OF g(1)] g by auto
  show "1 \<le> fl_refcount f" if "file_at c w' = Some f" for f
    using part [OF g(1)] g that by auto
qed

lemma rdir_file: "rdir d cs w \<Longrightarrow> c \<in> set cs \<Longrightarrow> \<exists>f. file_at c w = Some f \<and> 1 \<le> fl_refcount f \<and> fl_name f \<noteq> None"
  by (auto simp: rdir_def)

lemma incref_child:
  assumes "rdir d (xs @ ys) w"
  shows "npfile_incref (headp ys None) w = Some (addref 1 (headp ys None) w)"
proof (rule incref_addref)
  fix a assume "headp ys None = Some a"
  then have "a \<in> set (xs @ ys)" by (cases ys) auto
  then show "\<exists>f. file_at a w = Some f \<and> 0 \<le> fl_refcount f" using rdir_file [OF assms] by force
qed

interpretation rl: child_list rdir rfs_first rfs_next
proof
  fix d cs c w assume "rdir d cs w" "c \<in> set cs"
  then show "\<exists>f. file_at c w = Some f \<and> 1 \<le> fl_refcount f \<and> fl_name f \<noteq> None" by (rule rdir_file)
next
  fix d cs w assume r: "rdir d cs w"
  then obtain f where "file_at d w = Some f" "fl_dirfirst f = headp cs None" by (auto simp: rdir_def)
  then show "rfs_first d w = Some (headp cs None, addref 1 (headp cs None) w)"
    using incref_child [of d "[]" cs w] r by (simp add: rfs_first_def file_at_addref)
next
  fix d xs a ys w assume r: "rdir d (xs @ a # ys) w"
  then have "dseg fl_next fl_prev (\<lambda>a. file_at a w) None (headp (xs @ a # ys) None) (xs @ a # ys) None"
    by (simp add: rdir_def)
  then obtain f where "file_at a w = Some f" "fl_next f = headp ys None" by (elim dseg_node)
  then show "rfs_next d a w = Some (headp ys None, addref 1 (headp ys None) w)"
    using incref_child [of d "xs @ [a]" ys w] r by (simp add: rfs_next_def file_at_addref)
next
  fix d cs and w w' :: rworld assume "rdir d cs w" "tree_le w w'"
  then show "rdir d cs w'" by (rule rdir_le)
next
  fix d cs and w :: rworld assume "rdir d cs w"
  then show "d \<notin> set cs \<and> (\<exists>f. file_at d w = Some f)" by (auto simp: rdir_def)
qed


interpretation fl: links fl_next fl_prev "\<lambda>v. fl_next_update (\<lambda>_. v)" "\<lambda>v. fl_prev_update (\<lambda>_. v)"
  "\<lambda>f. f\<lparr>fl_next := None, fl_prev := None\<rparr>"
  by unfold_locales auto

section \<open>Creating\<close>

definition typed :: "Npfile \<Rightarrow> bool" where
  "typed f \<longleftrightarrow> fl_ops f = Some (if is_dir f then rfs_dirops_addr else rfs_fileops_addr)"

text \<open>\<open>T\<close> maps the directories to their children.\<close>

definition rfs_tree :: "(addr \<Rightarrow> addr list option) \<Rightarrow> rworld \<Rightarrow> bool" where
  "rfs_tree T w \<longleftrightarrow> (\<forall>d cs. T d = Some cs \<longrightarrow> rdir d cs w) \<and>
     (\<forall>a f. file_at a w = Some f \<longrightarrow> a < w_nmalloc w \<and> typed f \<and> 0 \<le> fl_refcount f \<and>
       (is_dir f \<longrightarrow> T a \<noteq> None) \<and> (\<forall>p. fl_parent f = Some p \<longrightarrow> T p \<noteq> None))"

text \<open>What \<^verbatim>\<open>rfs_create\<close> leaves of the files, for a directory with the children
  \<open>cs\<close>.\<close>

definition created :: "addr \<Rightarrow> addr list \<Rightarrow> addr \<Rightarrow> Npfile \<Rightarrow> rworld \<Rightarrow> addr \<Rightarrow> Npfile option" where
  "created d cs a new w b =
     (if b = a then Some new
      else if b = d then map_option (\<lambda>f. f\<lparr>fl_refcount := fl_refcount f + 1, fl_dirlast := Some a,
        fl_dirfirst := headp cs (Some a)\<rparr>) (file_at d w)
      else if lastp None cs = Some b then map_option (fl_next_update (\<lambda>_. Some a)) (file_at b w)
      else file_at b w)"

lemma file_at_nmalloc [simp]: "file_at a (w\<lparr>w_nmalloc := n\<rparr>) = file_at a w"
  by (simp add: file_at_def)

lemma ffid_at_nmalloc [simp]: "ffid_at b (w\<lparr>w_nmalloc := n\<rparr>) = ffid_at b w"
  by (simp add: ffid_at_def)

lemma file_at_x [simp]:
  "file_at a (set_aux x g w) = file_at a w"
  "file_at a (w\<lparr>w_user := (w_user w)\<lparr>fs_x := y\<rparr>\<rparr>) = file_at a w"
  by (simp_all add: file_at_def set_aux_def)

lemma aux_at_set [simp]:
  "aux_at x (set_file a f w) = aux_at x w" "aux_at x (w\<lparr>w_nmalloc := n\<rparr>) = aux_at x w"
  "aux_at x (set_aux y g w) = (if x = y then g else aux_at x w)"
  by (simp_all add: aux_at_def set_file_def set_aux_def)

lemma w_rest [simp]:
  "w_mallocs (set_file a g w) = w_mallocs w" "w_nmalloc (set_file a g w) = w_nmalloc w"
  "w_mallocs (set_aux a h w) = w_mallocs w" "w_nmalloc (set_aux a h w) = w_nmalloc w"
  by (simp_all add: set_file_def set_aux_def)

lemma npfile_alloc_at:
  assumes m: "\<And>i. w_mallocs w i \<noteq> None" and d: "file_at d w = Some f" "0 \<le> fl_refcount f"
    and fresh: "file_at (w_nmalloc w) w = None"
  obtains w' new where "npfile_alloc (Some d) name mode q ops aux w = Some (w_nmalloc w, w')"
    "\<And>b. file_at b w' = (if b = w_nmalloc w then Some new
       else if b = d then Some (f\<lparr>fl_refcount := fl_refcount f + 1\<rparr>) else file_at b w)"
    "w_nmalloc w' = w_nmalloc w + 2" "w_mallocs w' = w_mallocs w" "fs_x (w_user w') = fs_x (w_user w)"
    "fl_refcount new = 0" "fl_parent new = Some d" "fl_mode new = mode" "fl_name new = Some name"
    "fl_length new = 0" "fl_next new = None" "fl_prev new = None" "fl_dirfirst new = None"
    "fl_dirlast new = None" "fl_ops new = ops" "fl_aux new = aux"
proof -
  have ne: "d \<noteq> w_nmalloc w" using d fresh by auto
  obtain m0 m1 where ms: "w_mallocs w (w_nmalloc w) = Some m0" "w_mallocs w (Suc (w_nmalloc w)) = Some m1"
    using m [of "w_nmalloc w"] m [of "Suc (w_nmalloc w)"] by auto
  show thesis
    by (rule that, simp add: npfile_alloc_def world_malloc_def ms Let_def npfile_incref_nolock_def d ne ne [symmetric])
      (auto simp: ne ne [symmetric] refcount_inc file_at_def set_file_def)
qed

lemma rfs_create_at:
  assumes r: "rdir d cs w" and fresh: "file_at (w_nmalloc w + 1) w = None"
    and m: "\<And>i. w_mallocs w i \<noteq> None" and perm: "perm AND Dmlink = 0"
    and d: "file_at d w = Some f" "0 \<le> fl_refcount f"
  obtains w' new where "rfs_create d name perm uid gid (Some ext) w = Some (Some (w_nmalloc w + 1), w')"
    "\<forall>b. file_at b w' = created d cs (w_nmalloc w + 1) new w b"
    "w_nmalloc w' = w_nmalloc w + 4"
    "fl_refcount new = 2" "fl_parent new = Some d" "fl_mode new = perm" "fl_name new = Some name"
    "fl_uid new = uid" "fl_gid new = gid" "fl_length new = 0" "fl_next new = None" "fl_prev new = lastp None cs"
    "fl_dirfirst new = None" "fl_dirlast new = None" "typed new" "fl_aux new = Some (w_nmalloc w)"
    "aux_at (w_nmalloc w) w' = Some \<lparr>fi_data = None, fi_datasize = 0\<rparr>"
proof -
  define a where a: "a = w_nmalloc w + 1"
  have f: "fl_dirlast f = lastp None cs" "fl_dirfirst f = headp cs None" "d \<notin> set cs"
    using r d by (auto simp: rdir_def)
  have ne: "d \<noteq> a" using d fresh a by auto
  let ?ops = "Some (if perm AND Dmdir \<noteq> 0 then rfs_dirops_addr else rfs_fileops_addr)"
  define w1 where "w1 = set_aux (w_nmalloc w) (Some \<lparr>fi_data = None, fi_datasize = 0\<rparr>) (w\<lparr>w_nmalloc := w_nmalloc w + 1\<rparr>)"
  define q where "q = rf_qidpath (fs_x (w_user w1))"
  define w2 where "w2 = w1\<lparr>w_user := (w_user w1)\<lparr>fs_x := (fs_x (w_user w1))\<lparr>rf_qidpath := q + 1\<rparr>\<rparr>\<rparr>"
  have a1: "file_alloc w = Some (w_nmalloc w, w1)"
    using m [of "w_nmalloc w"] by (auto simp: file_alloc_def world_malloc_def w1_def)
  have w2: "file_at b w2 = file_at b w" "w_nmalloc w2 = a" "w_mallocs w2 = w_mallocs w"
    "aux_at (w_nmalloc w) w2 = Some \<lparr>fi_data = None, fi_datasize = 0\<rparr>" for b
    by (simp_all add: w2_def w1_def aux_at_def set_aux_def file_at_def a)
  obtain w3 new where w3: "npfile_alloc (Some d) name perm q ?ops (Some (w_nmalloc w)) w2 = Some (a, w3)"
    "\<And>b. file_at b w3 = (if b = a then Some new
       else if b = d then Some (f\<lparr>fl_refcount := fl_refcount f + 1\<rparr>) else file_at b w)"
    "w_nmalloc w3 = w_nmalloc w + 3" "w_mallocs w3 = w_mallocs w" "fs_x (w_user w3) = fs_x (w_user w2)"
    and new: "fl_refcount new = 0" "fl_parent new = Some d" "fl_mode new = perm" "fl_name new = Some name"
    "fl_length new = 0" "fl_next new = None" "fl_prev new = None" "fl_dirfirst new = None"
    "fl_dirlast new = None" "fl_ops new = ?ops" "fl_aux new = Some (w_nmalloc w)"
    using npfile_alloc_at [of w2 d f name perm q ?ops "Some (w_nmalloc w)"] m d fresh unfolding w2 by (auto simp: numeral_3_eq_3 a)
  define rest where "rest w = do {
        w \<leftarrow> upd_file a (\<lambda>f. f\<lparr>fl_uid := uid, fl_gid := gid, fl_muid := uid\<rparr>) w;
        w \<leftarrow> npfile_incref (Some a) w;
        w \<leftarrow> npfile_incref (Some a) w;
        d' \<leftarrow> file_at d w;
        w \<leftarrow> (case fl_dirlast d' of
            Some l \<Rightarrow> do {
              w \<leftarrow> upd_file l (fl_next_update (\<lambda>_. Some a)) w;
              upd_file a (fl_prev_update (\<lambda>_. Some l)) w
            }
          | None \<Rightarrow> upd_file d (fl_dirfirst_update (\<lambda>_. Some a)) w);
        w \<leftarrow> upd_file d (fl_dirlast_update (\<lambda>_. Some a)) w;
        ext \<leftarrow> Some ext;
        let (m, w) = world_malloc w;
        w \<leftarrow> upd_file a (fl_extension_update (\<lambda>_. map_option (\<lambda>_. ext) m)) w;
        Some (Some a, w)
      }" for w :: rworld
  have eq: "rfs_create d name perm uid gid (Some ext) w = rest w3"
    using w3(1) perm by (simp add: rfs_create_def a1 Let_def q_def [symmetric] w2_def [symmetric] rest_def)
  obtain m4 where m4: "w_mallocs w (w_nmalloc w + 3) = Some m4" using m [of "w_nmalloc w + 3"] by auto
  have ax: "aux_at (w_nmalloc w) w3 = Some \<lparr>fi_data = None, fi_datasize = 0\<rparr>"
    using w2(4) w3(5) by (simp add: aux_at_def)
  define new' where "new' = new\<lparr>fl_refcount := 2, fl_prev := lastp None cs, fl_uid := uid, fl_gid := gid,
    fl_muid := uid, fl_extension := Some ext\<rparr>"
  note facts = rest_def npfile_incref_def npfile_incref_nolock_def w3(2-4) new ne ne [symmetric] f world_malloc_def m4 ax
    refcount_inc
  note final = w3(2) new ne ne [symmetric] created_def d(1) typed_def is_dir_def new'_def
  show thesis
  proof (cases cs rule: rev_cases)
    case Nil
    show thesis
      by (rule that [folded a, where new = new'], unfold eq, simp add: facts Nil, rule allI) (simp_all add: final Nil ax)
  next
    case (snoc zs l)
    then obtain g where g: "file_at l w = Some g" using r by (auto simp: rdir_def)
    then have ll: "l \<noteq> a" "a \<noteq> l" "l \<noteq> d" "d \<noteq> l" using fresh a f(3) snoc by auto
    have h: "headp cs (Some a) = headp cs None" using snoc by (cases zs) auto
    have lp: "lastp None cs = Some l" using snoc by simp
    show thesis
      by (rule that [folded a, where new = new'], unfold eq, simp add: facts ll g lp, rule allI)
        (simp_all add: final ll g ax lp h f(1,2), auto simp: g)
  qed
qed


lemma rdir_childE:
  assumes "rdir d cs w" "c \<in> set cs"
  obtains g where "file_at c w = Some g" "fl_parent g = Some d" "1 \<le> fl_refcount g" "fl_name g \<noteq> None" "c \<noteq> d"
  using assms unfolding rdir_def by blast

lemma rdir_created_same:
  assumes r: "rdir d cs w" and fresh: "file_at a w = None"
    and w': "\<And>b. file_at b w' = created d cs a new w b"
    and new: "fl_prev new = lastp None cs" "fl_next new = None" "fl_parent new = Some d" "1 \<le> fl_refcount new"
      "fl_name new \<noteq> None"
  shows "rdir d (cs @ [a]) w'"
proof -
  obtain f where f: "file_at d w = Some f" "is_dir f" "fl_ops f = Some rfs_dirops_addr" "distinct cs" "d \<notin> set cs"
    and seg: "dseg fl_next fl_prev (\<lambda>a. file_at a w) None (headp cs None) cs None"
    using r by (auto simp: rdir_def)
  have ne: "d \<noteq> a" "a \<notin> set cs" using f(1) fresh r by (auto simp: rdir_def)
  have 1: "dseg fl_next fl_prev (\<lambda>a. file_at a w') None (headp cs (Some a)) cs (Some a)"
  proof (cases cs rule: rev_cases)
    case (snoc zs l)
    then obtain g where g: "file_at l w = Some g" using r by (auto simp: rdir_def)
    have h: "headp cs (Some a) = headp cs None" using snoc by (cases zs) auto
    have lp: "lastp None cs = Some l" using snoc by simp
    have "dseg fl_next fl_prev ((\<lambda>a. file_at a w)(l \<mapsto> g\<lparr>fl_next := Some a\<rparr>)) None (headp cs None) cs (Some a)"
      using fl.set_last_next [of "\<lambda>a. file_at a w" None "headp cs None" zs l None g "Some a"] seg f(4) g snoc by simp
    then show ?thesis unfolding h
    proof (rule dseg_cong)
      fix b x assume b: "b \<in> set cs" "((\<lambda>a. file_at a w)(l \<mapsto> g\<lparr>fl_next := Some a\<rparr>)) b = Some x"
      then have "b \<noteq> a" "b \<noteq> d" using ne f(5) by auto
      then show "\<exists>r'. file_at b w' = Some r' \<and> fl_next r' = fl_next x \<and> fl_prev r' = fl_prev x"
        using b(2) g lp by (auto simp: w' created_def split: if_splits)
    qed
  qed simp
  have "dseg fl_next fl_prev (\<lambda>a. file_at a w') None (headp (cs @ [a]) None) (cs @ [a]) None"
    using 1 new by (simp add: dseg_append w' created_def)
  moreover have "\<exists>g. file_at c w' = Some g \<and> fl_parent g = Some d \<and> 1 \<le> fl_refcount g \<and> fl_name g \<noteq> None"
    if c: "c \<in> set (cs @ [a])" for c
  proof (cases "c = a")
    case True
    then show ?thesis using new by (simp add: w' created_def)
  next
    case False
    then have "c \<in> set cs" using c by simp
    then obtain g where "file_at c w = Some g" "fl_parent g = Some d" "1 \<le> fl_refcount g" "fl_name g \<noteq> None" "c \<noteq> d"
      by (rule rdir_childE [OF r])
    then show ?thesis using False by (simp add: w' created_def)
  qed
  ultimately show ?thesis using f ne
    by (auto simp: rdir_def w' created_def is_dir_def)
qed

lemma rdir_created_other:
  assumes r: "rdir d cs w" "rdir d' cs' w" "d' \<noteq> d" and fresh: "file_at a w = None"
    and w': "\<And>b. file_at b w' = created d cs a new w b"
  shows "rdir d' cs' w'"
proof (rule rdir_cong [OF r(2)])
  have "d' \<noteq> a" using r(2) fresh by (auto simp: rdir_def)
  then show "map_option dir_part (file_at d' w') = map_option dir_part (file_at d' w)"
    using r(3) by (auto simp: w' created_def option.map_comp comp_def dir_part_def [abs_def])
  fix c assume c: "c \<in> set cs'"
  obtain g where g: "file_at c w = Some g" "fl_parent g = Some d'" "1 \<le> fl_refcount g"
    using rdir_childE [OF r(2) c] .
  then have ca: "c \<noteq> a" using fresh by auto
  have "lastp None cs \<noteq> Some c"
    using r(1,3) g by (cases cs rule: rev_cases) (auto simp: rdir_def)
  then have eq: "file_at c w' = (if c = d then map_option (\<lambda>f. f\<lparr>fl_refcount := fl_refcount f + 1, fl_dirlast := Some a,
        fl_dirfirst := headp cs (Some a)\<rparr>) (file_at d w) else file_at c w)"
    using ca by (simp add: w' created_def)
  then show "map_option node_part (file_at c w') = map_option node_part (file_at c w)"
    by (auto simp: option.map_comp comp_def node_part_def [abs_def])
  show "1 \<le> fl_refcount x" if "file_at c w' = Some x" for x
    using eq g that by (auto split: if_splits)
qed

text \<open>C15. A file or directory made by \<^verbatim>\<open>rfs_create\<close> in a directory of a well formed tree is
  added behind the directory's children: the call returns a fresh file with the given name, mode, owner and group,
  no contents and two references, and the tree is that of before with the new file at its
  place (with no children of its own when it is a directory). Nothing else of the tree changes.\<close>

theorem rfs_create_refines:
  assumes "rfs_tree T w" and "T d = Some cs" and m: "\<And>i. w_mallocs w i \<noteq> None" and "perm AND Dmlink = 0"
  shows "\<exists>a w' f. rfs_create d name perm uid gid (Some ext) w = Some (Some a, w') \<and> file_at a w = None \<and>
    file_at a w' = Some f \<and> fl_name f = Some name \<and> fl_mode f = perm \<and> fl_uid f = uid \<and> fl_gid f = gid \<and>
    fl_length f = 0 \<and> fl_refcount f = 2 \<and>
    rfs_tree (T(d \<mapsto> cs @ [a], a := if perm AND Dmdir \<noteq> 0 then Some [] else None)) w'"
proof -
  let ?a = "w_nmalloc w + 1"
  have r: "rdir d cs w" and files: "\<And>a f. file_at a w = Some f \<Longrightarrow> a < w_nmalloc w \<and> typed f \<and> 0 \<le> fl_refcount f \<and>
       (is_dir f \<longrightarrow> T a \<noteq> None) \<and> (\<forall>p. fl_parent f = Some p \<longrightarrow> T p \<noteq> None)" and dirs: "\<And>d cs. T d = Some cs \<Longrightarrow> rdir d cs w"
    using assms(1,2) by (auto simp: rfs_tree_def)
  obtain f where f: "file_at d w = Some f" "0 \<le> fl_refcount f" using r files by (fastforce simp: rdir_def)
  have fresh: "file_at ?a w = None" using files [of ?a] by (cases "file_at ?a w") auto
  obtain w' new where w': "rfs_create d name perm uid gid (Some ext) w = Some (Some ?a, w')"
    "\<forall>b. file_at b w' = created d cs ?a new w b" "w_nmalloc w' = w_nmalloc w + 4"
    and new: "fl_refcount new = 2" "fl_parent new = Some d" "fl_mode new = perm" "fl_name new = Some name"
    "fl_uid new = uid" "fl_gid new = gid" "fl_length new = 0" "fl_next new = None" "fl_prev new = lastp None cs"
    "fl_dirfirst new = None" "fl_dirlast new = None" "typed new" "fl_aux new = Some (w_nmalloc w)"
    "aux_at (w_nmalloc w) w' = Some \<lparr>fi_data = None, fi_datasize = 0\<rparr>"
    using rfs_create_at [OF r fresh m assms(4) f, where name = name and uid = uid and gid = gid and ext = ext] .
  have at: "file_at b w' = created d cs ?a new w b" for b using w'(2) by blast
  let ?T = "T(d \<mapsto> cs @ [?a], ?a := if perm AND Dmdir \<noteq> 0 then Some [] else None)"
  have ne: "d \<noteq> ?a" using f(1) fresh by auto
  have Tn: "T ?a = None" using dirs [of ?a] fresh by (cases "T ?a") (auto simp: rdir_def)
  have "rdir d' cs' w'" if T: "?T d' = Some cs'" for d' cs'
  proof -
    show ?thesis
    proof (cases "d' = ?a")
      case True
      then have "perm AND Dmdir \<noteq> 0" "cs' = []" using T by (auto split: if_split_asm)
      then show ?thesis using new True by (simp add: rdir_def at created_def is_dir_def typed_def)
    next
      case na: False
      show ?thesis
      proof (cases "d' = d")
        case True
        then have "cs' = cs @ [?a]" using T na by simp
        then show ?thesis using rdir_created_same [OF r fresh at] new True by simp
      next
        case False
        then have "T d' = Some cs'" using T na by simp
        then show ?thesis using rdir_created_other [OF r dirs _ fresh at] False by simp
      qed
    qed
  qed
  moreover have "b < w_nmalloc w' \<and> typed g \<and> 0 \<le> fl_refcount g \<and> (is_dir g \<longrightarrow> ?T b \<noteq> None) \<and>
      (\<forall>p. fl_parent g = Some p \<longrightarrow> ?T p \<noteq> None)"
    if b: "file_at b w' = Some g" for b g
  proof (cases "b = ?a")
    case True
    then show ?thesis using b new at w'(3) ne by (auto simp: created_def is_dir_def)
  next
    case False
    then obtain g0 where g0: "file_at b w = Some g0" "fl_mode g = fl_mode g0" "fl_ops g = fl_ops g0" "fl_refcount g0 \<le> fl_refcount g"
      "fl_parent g = fl_parent g0"
      using b by (auto simp: at created_def split: if_splits)
    then show ?thesis using files [OF g0(1)] False w'(3) Tn by (auto simp: typed_def is_dir_def)
  qed
  ultimately have "rfs_tree ?T w'" by (simp add: rfs_tree_def)
  then show ?thesis using w'(1) at new fresh by (intro exI [of _ ?a] exI [of _ w'] exI [of _ new]) (simp add: created_def)
qed


section \<open>Removing\<close>

definition set_files :: "Npfile heap \<Rightarrow> rworld \<Rightarrow> rworld" where
  "set_files h w = w\<lparr>w_user := (w_user w)\<lparr>fs_files := h\<rparr>\<rparr>"

lemma set_files_at [simp]:
  "file_at a (set_files h w) = h a" "w_nmalloc (set_files h w) = w_nmalloc w"
  "set_file a f (set_files h w) = set_files (h(a := f)) w"
  by (simp_all add: set_files_def file_at_def set_file_def)

lemma set_files_id: "set_files (\<lambda>a. file_at a w) w = w"
  by (simp add: set_files_def file_at_def)

lemma upd_set_files: "upd_file a g (set_files h w) = map_option (\<lambda>h. set_files h w) (hupd a g h)"
  by (simp add: upd_file_def hupd_def split: option.split)

lemma rfs_remove_at:
  assumes r: "rdir d (xs @ a # ys) w"
  obtains f fd h where "file_at a w = Some f" "file_at d w = Some fd"
    "rfs_remove d a w = Some (True, set_files (h(d \<mapsto> fd\<lparr>fl_dirfirst := headp (xs @ ys) None, fl_dirlast := lastp None (xs @ ys)\<rparr>,
       a \<mapsto> f\<lparr>fl_prev := None, fl_next := None, fl_parent := None\<rparr>)) w)"
    "dseg fl_next fl_prev h None (headp (xs @ ys) None) (xs @ ys) None"
    "\<forall>b. b \<notin> set (xs @ ys) \<longrightarrow> h b = file_at b w"
    "hview (\<lambda>f. f\<lparr>fl_next := None, fl_prev := None\<rparr>) h = hview (\<lambda>f. f\<lparr>fl_next := None, fl_prev := None\<rparr>) (\<lambda>a. file_at a w)"
proof -
  let ?F = "\<lambda>a. file_at a w"
  obtain fd where fd: "?F d = Some fd" "fl_dirlast fd = lastp None (xs @ a # ys)" "fl_dirfirst fd = headp (xs @ a # ys) None"
    and dist: "distinct (xs @ a # ys)" "d \<notin> set (xs @ a # ys)"
    and seg: "dseg fl_next fl_prev ?F None (headp (xs @ a # ys) None) (xs @ a # ys) None"
    using r by (auto simp: rdir_def)
  obtain f where f: "?F a = Some f" using r by (auto simp: rdir_def)
  obtain h1 h2 where h1: "hupd_opt (fl_prev f) (fl_next_update (\<lambda>_. fl_next f)) ?F = Some h1" "h1 a = Some f"
    and h2: "hupd_opt (fl_next f) (fl_prev_update (\<lambda>_. fl_prev f)) h1 = Some h2" "h2 a = Some f"
    and seg2: "dseg fl_next fl_prev h2 None (headp (xs @ ys) None) (xs @ ys) None"
    and links: "fl_prev f = lastp None xs" "fl_next f = headp ys None"
    and oth: "\<forall>b. b \<notin> set (xs @ ys) \<longrightarrow> h2 b = ?F b"
    and view: "hview (\<lambda>f. f\<lparr>fl_next := None, fl_prev := None\<rparr>) h2 = hview (\<lambda>f. f\<lparr>fl_next := None, fl_prev := None\<rparr>) ?F"
    using fl.unlink [OF seg dist(1) f] by auto
  have ne: "d \<noteq> a" "a \<noteq> d" using dist by auto
  have "rfs_remove d a (set_files ?F w) = Some (True, set_files (h2(d \<mapsto> fd\<lparr>fl_dirfirst := headp (xs @ ys) None, fl_dirlast := lastp None (xs @ ys)\<rparr>,
       a \<mapsto> f\<lparr>fl_prev := None, fl_next := None, fl_parent := None\<rparr>)) w)"
  proof -
    have first: "fl_dirfirst fd = Some a \<longleftrightarrow> xs = []" and last: "fl_dirlast fd = Some a \<longleftrightarrow> ys = []"
      using fd(2,3) dist(1) by (cases xs; auto simp: lastp_def)+
    have hne: "headp xs None = None \<longleftrightarrow> xs = []" "lastp None xs = None \<longleftrightarrow> xs = []" by (cases xs; simp add: lastp_def)+
    note run = rfs_remove_def upd_set_files fd(1) f ne links first last fun_upd_twist [of a d]
    consider "xs = []" "ys = []" | y ys' where "xs = []" "ys = y # ys'" | zs p where "xs = zs @ [p]" "ys = []"
      | zs p y ys' where "xs = zs @ [p]" "ys = y # ys'"
      by (cases xs rule: rev_cases; cases ys) auto
    then show ?thesis
    proof cases
      case 1
      then have "h2 = ?F" using h1(1) h2(1) links by simp
      then show ?thesis using fd(2,3) unfolding 1 by (simp add: rfs_remove_def upd_set_files fd(1) f ne links 1 fun_upd_twist [of a d])
    next
      case 2
      then obtain g where g: "?F y = Some g" "h2 = ?F(y \<mapsto> fl_prev_update (\<lambda>_. None) g)"
        using h1 h2 links by (auto simp: hupd_def split: option.splits)
      have "y \<noteq> d" "y \<noteq> a" "d \<noteq> y" "a \<noteq> y" "lastp (Some y) ys' \<noteq> Some a"
        using dist 2 by (auto simp: lastp_def)
      then show ?thesis using 2 g fd by (cases fd) (simp add: run fun_upd_twist [of y d] fun_upd_twist [of y a])
    next
      case 3
      then obtain g where g: "?F p = Some g" "h2 = ?F(p \<mapsto> fl_next_update (\<lambda>_. None) g)"
        using h1 h2 links by (auto simp: hupd_def split: option.splits)
      have "p \<noteq> d" "p \<noteq> a" "d \<noteq> p" "a \<noteq> p" "headp zs (Some p) \<noteq> Some a"
        using dist 3 by (auto simp: headp_def split: list.splits)
      then show ?thesis using 3 g fd by (cases fd) (simp add: run fun_upd_twist [of p d] fun_upd_twist [of p a])
    next
      case 4
      then obtain g g' where g: "?F p = Some g" "?F y = Some g'"
        "h2 = ?F(p \<mapsto> fl_next_update (\<lambda>_. Some y) g, y \<mapsto> fl_prev_update (\<lambda>_. Some p) g')"
        using h1 h2 links dist(1) by (auto simp: hupd_def split: option.splits if_splits)
      have ne': "p \<noteq> d" "p \<noteq> a" "d \<noteq> p" "a \<noteq> p" "y \<noteq> d" "y \<noteq> a" "d \<noteq> y" "a \<noteq> y" "p \<noteq> y" "y \<noteq> p"
        "lastp (Some y) ys' \<noteq> Some a" "headp zs (Some p) \<noteq> Some a"
        using dist 4 by (auto simp: lastp_def headp_def split: list.splits)
      have eqfd: "fd\<lparr>fl_dirfirst := headp zs (Some p), fl_dirlast := lastp (Some y) ys'\<rparr> = fd"
        using fd(2,3) 4 by (cases fd) simp
      have eqF: "?F(d \<mapsto> fd) = ?F" using fd(1) by auto
      show ?thesis using ne' 4 g fd
        by (simp add: eqfd eqF run fun_upd_twist [of p d] fun_upd_twist [of p a] fun_upd_twist [of y d] fun_upd_twist [of y a])
    qed
  qed
  then show thesis using that [OF f fd(1) _ seg2 oth view] by (simp add: set_files_id)
qed


lemma rdir_removed_same:
  assumes r: "rdir d (xs @ a # ys) w"
    and h: "dseg fl_next fl_prev h None (headp (xs @ ys) None) (xs @ ys) None"
      "hview (\<lambda>f. f\<lparr>fl_next := None, fl_prev := None\<rparr>) h = hview (\<lambda>f. f\<lparr>fl_next := None, fl_prev := None\<rparr>) (\<lambda>a. file_at a w)"
    and fd: "file_at d w = Some fd"
  shows "rdir d (xs @ ys) (set_files (h(d \<mapsto> fd\<lparr>fl_dirfirst := headp (xs @ ys) None, fl_dirlast := lastp None (xs @ ys)\<rparr>,
       a \<mapsto> f')) w)"
proof -
  have dist: "distinct (xs @ a # ys)" "d \<notin> set (xs @ a # ys)" "is_dir fd" "fl_ops fd = Some rfs_dirops_addr"
    using r fd by (auto simp: rdir_def)
  have seg: "dseg fl_next fl_prev (h(d \<mapsto> g, a \<mapsto> f')) None (headp (xs @ ys) None) (xs @ ys) None" for g
    using dist by (intro dseg_upd_other h(1)) auto
  have "\<exists>g. h c = Some g \<and> fl_parent g = Some d \<and> 1 \<le> fl_refcount g \<and> fl_name g \<noteq> None"
    if "c \<in> set (xs @ ys)" for c
  proof -
    have "c \<in> set (xs @ a # ys)" using that by auto
    then obtain g where "file_at c w = Some g" "fl_parent g = Some d" "1 \<le> fl_refcount g" "fl_name g \<noteq> None"
      by (rule rdir_childE [OF r])
    then show ?thesis using hview_eqD [OF h(2), of c g] by (force dest: arg_cong [of _ _ fl_parent]
          arg_cong [of _ _ fl_refcount] arg_cong [of _ _ fl_name])
  qed
  moreover have "a \<notin> set (xs @ ys)" "d \<noteq> a" using dist by auto
  moreover have "dseg fl_next fl_prev (\<lambda>b. file_at b (set_files (h(d \<mapsto> fd\<lparr>fl_dirfirst := headp (xs @ ys) None,
      fl_dirlast := lastp None (xs @ ys)\<rparr>, a \<mapsto> f')) w)) None (headp (xs @ ys) None) (xs @ ys) None"
    unfolding set_files_at(1) by (rule seg)
  ultimately show ?thesis using dist unfolding rdir_def
    by (intro conjI; (assumption | auto simp: is_dir_def simp del: headp_simps lastp_simps))
qed

lemma rdir_removed_other:
  assumes r: "rdir d (xs @ a # ys) w" "rdir d' cs' w" "d' \<noteq> d"
    and h: "\<forall>b. b \<notin> set (xs @ ys) \<longrightarrow> h b = file_at b w"
      "hview (\<lambda>f. f\<lparr>fl_next := None, fl_prev := None\<rparr>) h = hview (\<lambda>f. f\<lparr>fl_next := None, fl_prev := None\<rparr>) (\<lambda>a. file_at a w)"
    and f: "file_at d w = Some fd" "file_at a w = Some f"
  shows "rdir d' cs' (set_files (h(d \<mapsto> fd\<lparr>fl_dirfirst := x, fl_dirlast := y\<rparr>,
       a \<mapsto> f\<lparr>fl_prev := None, fl_next := None, fl_parent := None\<rparr>)) w)"
proof (rule rdir_cong [OF r(2)])
  have a: "d \<noteq> a" using r(1) by (auto simp: rdir_def)
  obtain g0 where g0: "file_at d' w = Some g0" using r(2) by (auto simp: rdir_def)
  obtain g1 where "h d' = Some g1" "g1\<lparr>fl_next := None, fl_prev := None\<rparr> = g0\<lparr>fl_next := None, fl_prev := None\<rparr>"
    using hview_eqD [OF h(2) g0] by auto
  then have "dir_part g1 = dir_part g0" "h d' = Some g1"
    by (cases g0; cases g1; simp add: dir_part_def is_dir_def)+
  then show "map_option dir_part (file_at d' (set_files (h(d \<mapsto> fd\<lparr>fl_dirfirst := x, fl_dirlast := y\<rparr>,
       a \<mapsto> f\<lparr>fl_prev := None, fl_next := None, fl_parent := None\<rparr>)) w)) = map_option dir_part (file_at d' w)"
    using r(3) g0 f by (auto simp: dir_part_def)
  fix c assume c: "c \<in> set cs'"
  obtain g where g: "file_at c w = Some g" "fl_parent g = Some d'" "1 \<le> fl_refcount g"
    using rdir_childE [OF r(2) c] .
  have "c \<notin> set (xs @ a # ys)" using rdir_childE [OF r(1), of c] g r(3) by (metis option.inject)
  then have *: "h c = Some g" "c \<noteq> a" using h(1) g by auto
  show "map_option node_part (file_at c (set_files (h(d \<mapsto> fd\<lparr>fl_dirfirst := x, fl_dirlast := y\<rparr>,
       a \<mapsto> f\<lparr>fl_prev := None, fl_next := None, fl_parent := None\<rparr>)) w)) = map_option node_part (file_at c w)"
    using * g f by (auto simp: node_part_def)
  show "1 \<le> fl_refcount z" if "file_at c (set_files (h(d \<mapsto> fd\<lparr>fl_dirfirst := x, fl_dirlast := y\<rparr>,
       a \<mapsto> f\<lparr>fl_prev := None, fl_next := None, fl_parent := None\<rparr>)) w) = Some z" for z
    using * g f that by (auto split: if_splits)
qed

text \<open>C16. \<^verbatim>\<open>rfs_remove\<close> takes a child out of the list of its directory wherever it stands in it,
  leaves the child unlinked with its fields otherwise as they were, and the tree is that of before without the child
  in that directory.\<close>

theorem rfs_remove_refines:
  assumes "rfs_tree T w" and "T d = Some (xs @ a # ys)"
  shows "\<exists>w' f. rfs_remove d a w = Some (True, w') \<and> file_at a w = Some f \<and>
    file_at a w' = Some (f\<lparr>fl_prev := None, fl_next := None, fl_parent := None\<rparr>) \<and>
    rfs_tree (T(d \<mapsto> xs @ ys)) w'"
proof -
  have r: "rdir d (xs @ a # ys) w" and files: "\<And>a f. file_at a w = Some f \<Longrightarrow> a < w_nmalloc w \<and> typed f \<and> 0 \<le> fl_refcount f \<and>
       (is_dir f \<longrightarrow> T a \<noteq> None) \<and> (\<forall>p. fl_parent f = Some p \<longrightarrow> T p \<noteq> None)" and dirs: "\<And>d cs. T d = Some cs \<Longrightarrow> rdir d cs w"
    using assms by (auto simp: rfs_tree_def)
  obtain f fd h where f: "file_at a w = Some f" "file_at d w = Some fd"
    and run: "rfs_remove d a w = Some (True, set_files (h(d \<mapsto> fd\<lparr>fl_dirfirst := headp (xs @ ys) None, fl_dirlast := lastp None (xs @ ys)\<rparr>,
       a \<mapsto> f\<lparr>fl_prev := None, fl_next := None, fl_parent := None\<rparr>)) w)" (is "_ = Some (_, ?w)")
    and h: "dseg fl_next fl_prev h None (headp (xs @ ys) None) (xs @ ys) None"
    "\<forall>b. b \<notin> set (xs @ ys) \<longrightarrow> h b = file_at b w"
    "hview (\<lambda>f. f\<lparr>fl_next := None, fl_prev := None\<rparr>) h = hview (\<lambda>f. f\<lparr>fl_next := None, fl_prev := None\<rparr>) (\<lambda>a. file_at a w)"
    using rfs_remove_at [OF r] .
  have "rdir d' cs' ?w" if T: "(T(d \<mapsto> xs @ ys)) d' = Some cs'" for d' cs'
  proof (cases "d' = d")
    case True
    then show ?thesis using T rdir_removed_same [OF r h(1,3) f(2)] by simp
  next
    case False
    then have "rdir d' cs' w" using T dirs by simp
    then show ?thesis by (rule rdir_removed_other [OF r _ False h(2,3) f(2,1)])
  qed
  moreover have "b < w_nmalloc ?w \<and> typed g \<and> 0 \<le> fl_refcount g \<and> (is_dir g \<longrightarrow> (T(d \<mapsto> xs @ ys)) b \<noteq> None) \<and>
      (\<forall>p. fl_parent g = Some p \<longrightarrow> (T(d \<mapsto> xs @ ys)) p \<noteq> None)"
    if b: "file_at b ?w = Some g" for b g
  proof -
    have "\<exists>g0. file_at b w = Some g0 \<and> fl_mode g = fl_mode g0 \<and> fl_ops g = fl_ops g0 \<and> fl_refcount g = fl_refcount g0 \<and>
        (fl_parent g = None \<or> fl_parent g = fl_parent g0)"
    proof (cases "b = a \<or> b = d")
      case True
      then show ?thesis using b f by (auto split: if_splits)
    next
      case False
      then have "h b = Some g" using b by simp
      then have "map_option (\<lambda>f. f\<lparr>fl_next := None, fl_prev := None\<rparr>) (file_at b w) = Some (g\<lparr>fl_next := None, fl_prev := None\<rparr>)"
        using fun_cong [OF h(3), of b] by (simp add: hview_def)
      then obtain g0 where "file_at b w = Some g0" "g0\<lparr>fl_next := None, fl_prev := None\<rparr> = g\<lparr>fl_next := None, fl_prev := None\<rparr>"
        by auto
      then show ?thesis by (cases g0; cases g) simp
    qed
    then obtain g0 where g0: "file_at b w = Some g0" "fl_mode g = fl_mode g0" "fl_ops g = fl_ops g0"
      "fl_refcount g = fl_refcount g0" "fl_parent g = None \<or> fl_parent g = fl_parent g0" by blast
    then show ?thesis using files [OF g0(1)] by (auto simp: typed_def is_dir_def)
  qed
  ultimately have "rfs_tree (T(d \<mapsto> xs @ ys)) ?w" by (simp add: rfs_tree_def)
  then show ?thesis using run f by auto
qed

section \<open>A sample server\<close>

text \<open>
  A root directory (the object 3) that holds the file \<^verbatim>\<open>a\<close> (4) with the bytes 1, 2 and
  3; the fid 6 of the connection 0 stands for the file \<open>x\<close> through the object 8.
\<close>

definition sample_npfile :: Npfile where
  "sample_npfile = \<lparr>fl_refcount = 2, fl_parent = Some 3, fl_qid = npqid_zero, fl_mode = 0x1FF, fl_atime = 0,
     fl_mtime = 0, fl_length = 3, fl_name = Some (cstr ''a''), fl_uid = Some 1, fl_gid = Some 2, fl_muid = Some 1,
     fl_extension = None, fl_excl = False, fl_ops = Some rfs_fileops_addr, fl_aux = Some 5, fl_next = None,
     fl_prev = None, fl_dirfirst = None, fl_dirlast = None\<rparr>"

definition sample_root :: Npfile where
  "sample_root = sample_npfile\<lparr>fl_mode := ROOTPERM OR Dmdir, fl_refcount := 3, fl_name := Some [], fl_length := 0,
     fl_ops := Some rfs_dirops_addr, fl_aux := Some 9, fl_dirfirst := Some 4, fl_dirlast := Some 4\<rparr>"

definition sample_filefid :: "addr \<Rightarrow> Npfilefid" where
  "sample_filefid x = \<lparr>ff_fid = 6, ff_file = x, ff_omode = - 1, ff_diroffset = 0, ff_dirent = None\<rparr>"

definition sample_store :: "addr \<Rightarrow> rfs fstore" where
  "sample_store x =
     \<lparr>fs_files = [3 \<mapsto> sample_root, 4 \<mapsto> sample_npfile], fs_ffids = [8 \<mapsto> sample_filefid x],
      fs_fidaux = [6 \<mapsto> 8], fs_groups = [2 \<mapsto> \<lparr>gr_refcount = 1, gr_gname = cstr ''g'', gr_gid = 0\<rparr>],
      fs_root = Some 3, fs_clock = (\<lambda>_. 0), fs_ticks = 0,
      fs_x = \<lparr>rf_aux = [5 \<mapsto> \<lparr>fi_data = Some [1, 2, 3, 0], fi_datasize = 4\<rparr>,
          9 \<mapsto> \<lparr>fi_data = None, fi_datasize = 0\<rparr>], rf_qidpath = 2, rf_blksize = 4\<rparr>\<rparr>"

definition sample_rfs :: "addr \<Rightarrow> rworld" where
  "sample_rfs x = (sample_world (sample_store x))
    \<lparr>w_fids := [6 \<mapsto> (new_fid 0 6)\<lparr>fid_user := Some 1\<rparr>],
      w_users := [1 \<mapsto> \<lparr>us_uid = 0, us_refcount = 1, us_uname = cstr ''u'', us_dfltgroup = Some 2, us_groups = [2]\<rparr>],
      w_nmalloc := 10\<rparr>"

definition sample_member :: "addr \<Rightarrow> addr option \<Rightarrow> rworld \<Rightarrow> bool option" where
  "sample_member u g w = Some False"

lemma sample_rest [simp]:
  "w_user (sample_rfs x) = sample_store x"
  "w_mallocs (sample_rfs x) i = Some (npfcall_zero, \<lambda>_. 0)" "w_nmalloc (sample_rfs x) = 10"
  "w_fids (sample_rfs x) = [6 \<mapsto> (new_fid 0 6)\<lparr>fid_user := Some 1\<rparr>]"
  "w_conns (sample_rfs x) = [0 \<mapsto> sample_conn]"
  "w_users (sample_rfs x) = [1 \<mapsto> \<lparr>us_uid = 0, us_refcount = 1, us_uname = cstr ''u'', us_dfltgroup = Some 2, us_groups = [2]\<rparr>]"
  by (simp_all add: sample_rfs_def sample_world_def empty_world_def)

lemma sample_file_at [simp]: "file_at a (sample_rfs x) =
   (if a = 4 then Some sample_npfile else if a = 3 then Some sample_root else None)"
  "ffid_at 8 (sample_rfs x) = Some (sample_filefid x)" "fid_aux 6 (sample_rfs x) = Some (8, sample_filefid x)"
  by (simp_all add: file_at_def ffid_at_def fid_aux_def sample_store_def)

lemma sample_npfile_simps [simp]:
  "\<not> is_dir sample_npfile" "is_dir sample_root" "fl_refcount sample_npfile = 2" "fl_refcount sample_root = 3"
  "fl_parent sample_npfile = Some 3" "fl_parent sample_root = Some 3" "fl_ops sample_npfile = Some rfs_fileops_addr"
  "fl_ops sample_root = Some rfs_dirops_addr" "fl_next sample_npfile = None" "fl_prev sample_npfile = None"
  "fl_dirfirst sample_root = Some 4" "fl_dirlast sample_root = Some 4" "fl_name sample_npfile = Some (cstr ''a'')"
  "fl_aux sample_npfile = Some 5" "fl_length sample_npfile = 3" "fl_qid sample_npfile = npqid_zero" "fl_qid sample_root = npqid_zero"
  "fl_mode sample_npfile = 0x1FF" "fl_mode sample_root = ROOTPERM OR Dmdir"
  by (simp_all add: sample_root_def sample_npfile_def is_dir_def ROOTPERM_def Dmdir_def)

lemma sample_filefid_simps [simp]:
  "ff_file (sample_filefid x) = x" "ff_omode (sample_filefid x) = - 1" "ff_dirent (sample_filefid x) = None"
  by (simp_all add: sample_filefid_def)

lemma sample_rdir: "rdir 3 [4] (sample_rfs x)"
  by (simp add: rdir_def lastp_def)

lemma sample_tree: "rfs_tree [3 \<mapsto> [4]] (sample_rfs x)"
  using sample_rdir by (auto simp: rfs_tree_def typed_def)

section \<open>Witnesses\<close>

lemma rfs_create_refines_witness:
  "\<exists>a w'. rfs_create 3 [98] 0x1A4 (Some 1) (Some 2) (Some []) (sample_rfs 4) = Some (Some a, w') \<and>
    rfs_tree ([3 \<mapsto> [4, a]](a := None)) w'"
  using rfs_create_refines [OF sample_tree [of 4], of 3 "[4]" "0x1A4" "[98]" "Some 1" "Some 2" "[]"]
  by (simp add: Dmlink_def Dmdir_def) blast

lemma rfs_remove_refines_witness:
  "\<exists>w'. rfs_remove 3 4 (sample_rfs 4) = Some (True, w') \<and> rfs_tree [3 \<mapsto> []] w'"
  using rfs_remove_refines [OF sample_tree [of 4], of 3 "[]" 4 "[]"] by simp blast

end
