(* ===== verification/RamfsIO.thy ===== *)
theory RamfsIO
  imports RamfsTree
begin

text \<open>
  The contents of the memory file server's files: \<open>stores\<close> relates a file to the bytes it
  holds, \<^verbatim>\<open>rfs_write\<close> and \<^verbatim>\<open>rfs_read\<close> act on these bytes while all sizes
  fit an \<^verbatim>\<open>int\<close>, and past that a read leaves the buffer.
\<close>

section \<open>Contents\<close>

text \<open>\<open>stores a c w\<close>: the file \<open>a\<close> holds the bytes \<open>c\<close>, at the front of a
  buffer whose size an \<^verbatim>\<open>int\<close> can hold.\<close>

definition buf_holds :: "File \<Rightarrow> u8 list \<Rightarrow> bool" where
  "buf_holds d c \<longleftrightarrow> (case fi_data d of
     None \<Rightarrow> c = [] \<and> fi_datasize d = 0
   | Some b \<Rightarrow> length b < 2147483648 \<and> fi_datasize d = word_of_nat (length b) \<and>
       length c \<le> length b \<and> take (length c) b = c)"

definition stores :: "addr \<Rightarrow> u8 list \<Rightarrow> rworld \<Rightarrow> bool" where
  "stores a c w \<longleftrightarrow> (\<exists>f x d. file_at a w = Some f \<and> fl_aux f = Some x \<and> aux_at x w = Some d \<and>
     fl_length f = word_of_nat (length c) \<and> length c < 2147483648 \<and> buf_holds d c)"

declare unat_u64 [simp]

lemma unat_u64_add: "n + m < 18446744073709551616 \<Longrightarrow> unat (word_of_nat n + word_of_nat m :: u64) = n + m"
  by (metis of_nat_add unat_u64)

lemma sint_ucast_u64: "n < 2147483648 \<Longrightarrow> sint (ucast (word_of_nat n :: u64) :: u32) = int n"
proof -
  assume n: "n < 2147483648"
  have "(ucast (word_of_nat n :: u64) :: u32) = word_of_nat n"
    by (rule word_unat_eq_iff [THEN iffD2]) (use n in \<open>simp add: unsigned_ucast_eq take_bit_nat_eq_self\<close>)
  then show ?thesis using n by (simp add: sint_of_nat_u32)
qed

lemma round_blocks_at:
  assumes "0 < b" "0 < s" "s + b < 2147483648"
  obtains n where "round_blocks (int b) (word_of_nat s) = int n" "s \<le> n" "n < 2147483648" "0 < n"
proof
  let ?n = "(s div b + (if s mod b \<noteq> 0 then 1 else 0)) * b"
  have n: "s \<le> ?n" "?n < 2147483648"
  proof -
    define q where "q = s div b * b"
    define r where "r = s mod b"
    have e: "q + r = s" by (simp add: q_def r_def)
    have r: "r < b" using assms(1) by (simp add: r_def)
    have n: "?n = q + (if r \<noteq> 0 then b else 0)" by (simp add: q_def r_def add_mult_distrib)
    show "s \<le> ?n" unfolding n using e r by simp
    show "?n < 2147483648" unfolding n using e assms(3) by simp
  qed
  have u: "unat (word_of_nat s :: u64) = s" "unat (word_of_nat b :: u64) = b" using assms(3) by auto
  have "(word_of_nat s :: u64) div word_of_nat b = word_of_nat (s div b)"
    by (rule word_unat_eq_iff [THEN iffD2]) (use u assms(3) in \<open>simp add: unat_div order.strict_trans1 [OF div_le_dividend]\<close>)
  moreover have "(word_of_nat s :: u64) mod word_of_nat b = word_of_nat (s mod b)"
    by (rule word_unat_eq_iff [THEN iffD2]) (use u assms(3) in \<open>simp add: unat_mod order.strict_trans1 [OF mod_less_eq_dividend]\<close>)
  moreover have "(word_of_nat (s mod b) :: u64) = 0 \<longleftrightarrow> s mod b = 0"
    using u assms(3) order.strict_trans1 [OF mod_less_eq_dividend [of s b], of 18446744073709551616]
    by (auto simp: word_unat_eq_iff)
  ultimately have "round_blocks (int b) (word_of_nat s) = sint (ucast (word_of_nat ?n :: u64) :: u32)"
    by (simp add: round_blocks_def Let_def distrib_right add.commute)
  also have "\<dots> = int ?n" using n(2) by (rule sint_ucast_u64)
  finally show "round_blocks (int b) (word_of_nat s) = int ?n" .
  show "s \<le> ?n" "?n < 2147483648" using n .
  show "0 < ?n" using n(1) assms(2) by linarith
qed


definition patch :: "u8 list \<Rightarrow> nat \<Rightarrow> u8 list \<Rightarrow> u8 list" where
  "patch c off vs = take off (c @ replicate (off - length c) 0) @ vs @ drop (off + length vs) c"

lemma file_truncate_grow:
  assumes d: "aux_at x w = Some d" "buf_holds d c" "length c < s"
    and b: "rf_blksize (fs_x (w_user w)) = int b" "0 < b" "s + b < 2147483648"
    and m: "w_mallocs w (w_nmalloc w) \<noteq> None"
  obtains w' v where "file_truncate x (word_of_nat s) w = Some (True, w')"
    "w' = set_aux x (Some \<lparr>fi_data = Some v, fi_datasize = word_of_nat (length v)\<rparr>) (w\<lparr>w_nmalloc := w_nmalloc w + 1\<rparr>)"
    "s \<le> length v" "length v < 2147483648" "take (length c) v = c"
proof -
  obtain n where n: "round_blocks (int b) (word_of_nat s) = int n" "s \<le> n" "n < 2147483648" "0 < n"
    using round_blocks_at [OF b(2) _ b(3)] d(3) by auto
  obtain j junk where j: "w_mallocs w (w_nmalloc w) = Some (j, junk)" using m by auto
  define old where "old = (case fi_data d of None \<Rightarrow> [] | Some d \<Rightarrow> take (nat (int n)) d)"
  have s0: "(word_of_nat s :: u64) \<noteq> 0" and b0: "(word_of_nat b :: u64) \<noteq> 0"
    using d(3) b(2,3) by (auto simp: word_unat_eq_iff)
  have old: "length old \<le> n" "take (length c) old = c" "length c \<le> length old"
    using d(2,3) n(2) by (auto simp: old_def buf_holds_def min_def split: option.splits)
  let ?v = "old @ map junk [length old..<nat (int n)]"
  have v: "length ?v = n" "take (length c) ?v = c" using old by auto
  show thesis
    by (rule that [where v = ?v, OF _ refl]) (use v n in \<open>simp_all add: file_truncate_def d(1) s0 b0 b(1) n(1) world_malloc_def j
      Let_def n(4) old_def [symmetric] del: nat_int\<close>)
qed


lemma buf_set_Some:
  "i + length vs \<le> length d \<Longrightarrow> length d < 18446744073709551616 \<Longrightarrow>
    buf_set (Some d) (word_of_nat i) vs = Some (Some (take i d @ vs @ drop (i + length vs) d))"
  by (cases "vs = []") (simp_all add: buf_set_def)

lemma set_aux_twice [simp]: "set_aux x f (set_file a g (set_aux x h w)) = set_file a g (set_aux x f w)"
  "set_aux x f (set_aux x h w) = set_aux x f w"
  by (simp_all add: set_aux_def set_file_def)

lemma take_patch: "length (patch c off vs) = max (length c) (off + length vs)"
  by (auto simp: patch_def max_def)

text \<open>The state after \<^verbatim>\<open>rfs_write\<close>: only the file's length and its buffer have changed.\<close>

lemma rfs_write_at:
  assumes ff: "ffid_at b w = Some ff" "off = (if ff_omode ff AND uint Oappend \<noteq> 0 then length c else off0)"
    and f: "file_at (ff_file ff) w = Some f" "fl_aux f = Some x" "aux_at x w = Some d"
      "fl_length f = word_of_nat (length c)" "length c < 2147483648" "buf_holds d c"
    and blk: "rf_blksize (fs_x (w_user w)) = int blk" "0 < blk"
    and m: "w_mallocs w (w_nmalloc w) \<noteq> None"
    and n: "data \<noteq> []" "off + length data + blk < 2147483648"
  shows "\<exists>d' k. rfs_write b (word_of_nat off0) (word_of_nat (length data)) data req w =
      Some (int (length data), set_file (ff_file ff) (Some (f\<lparr>fl_length := word_of_nat (length (patch c off data))\<rparr>))
        (set_aux x (Some d') (w\<lparr>w_nmalloc := w_nmalloc w + k\<rparr>))) \<and> buf_holds d' (patch c off data)"
proof -
  let ?n = "length data" and ?a = "ff_file ff"
  have offs: "(if ff_omode ff AND uint Oappend \<noteq> 0 then fl_length f else word_of_nat off0) = (word_of_nat off :: u64)"
    using ff(2) f(4) by auto
  have cnt: "(ucast (word_of_nat ?n :: u32) :: u64) = word_of_nat ?n" "sint (word_of_nat ?n :: u32) = int ?n"
    using n(2) by (simp_all add: ucast_u64 sint_of_nat_u32)
  have grow: "word_of_nat (length c) < (word_of_nat off + word_of_nat ?n :: u64) \<longleftrightarrow> length c < off + ?n"
    "word_of_nat (length c) < (word_of_nat off :: u64) \<longleftrightarrow> length c < off"
    using less_u64 [of "length c" "off + ?n"] less_u64 [of "length c" off] f(5) n(2) by simp_all
  have aux: "file_aux ?a w = Some (f, x, d)" using f by (simp add: file_aux_def)
  show ?thesis
  proof (cases "length c < off + ?n")
    case True
    obtain w1 v where w1: "file_truncate x (word_of_nat (off + ?n)) w = Some (True, w1)"
      "w1 = set_aux x (Some \<lparr>fi_data = Some v, fi_datasize = word_of_nat (length v)\<rparr>) (w\<lparr>w_nmalloc := w_nmalloc w + 1\<rparr>)"
      and v: "off + ?n \<le> length v" "length v < 2147483648" "take (length c) v = c"
      using file_truncate_grow [OF f(3,6) True blk n(2) m] .
    let ?z = "replicate (off - length c) (0 :: u8)"
    define v1 where "v1 = (if length c < off then take (length c) v @ ?z @ drop off v else v)"
    have fits: "\<not> word_of_nat (length v) < (word_of_nat off + word_of_nat ?n :: u64)"
      using less_u64 [of "length v" "off + ?n"] v n(2) by simp
    have sub: "unat (word_of_nat off - word_of_nat (length c) :: u64) = off - length c" if "length c < off"
    proof -
      have "(word_of_nat off - word_of_nat (length c) :: u64) = word_of_nat (off - length c)"
        using that by (simp add: of_nat_diff)
      then show ?thesis using n(2) by simp
    qed
    have v1: "(if length c < off then buf_set (Some v) (word_of_nat (length c)) (replicate (unat (word_of_nat off - word_of_nat (length c) :: u64)) 0)
        else Some (Some v)) = Some (Some v1)" "length v1 = length v"
      using v buf_set_Some [of "length c" ?z v] sub by (auto simp: v1_def)
    define v2 where "v2 = take off v1 @ data @ drop (off + ?n) v1"
    have v2: "buf_set (Some v1) (word_of_nat off) data = Some (Some v2)" "length v2 = length v"
      using v v1(2) buf_set_Some [of off data v1] by (auto simp: v2_def)
    have p: "patch c off data = take (off + ?n) v2"
    proof -
      have "take off (c @ ?z) = take off v1"
      proof (cases "length c < off")
        case True
        then show ?thesis using v by (simp add: v1_def)
      next
        case False
        then have "take off v = take off (take (length c) v)" by (simp add: min_def)
        then show ?thesis using v(3) False by (simp add: v1_def)
      qed
      then show ?thesis using True v v1(2) by (simp add: patch_def v2_def)
    qed
    have lp: "length (patch c off data) = off + ?n" using True by (simp add: take_patch)
    have "rfs_write b (word_of_nat off0) (word_of_nat ?n) data req w =
      Some (int ?n, set_file ?a (Some (f\<lparr>fl_length := word_of_nat (length (patch c off data))\<rparr>))
        (set_aux x (Some \<lparr>fi_data = Some v2, fi_datasize = word_of_nat (length v)\<rparr>) (w\<lparr>w_nmalloc := w_nmalloc w + 1\<rparr>)))"
    proof (cases "length c < off")
      case lt: True
      then have "buf_set (Some v) (word_of_nat (length c)) (replicate (unat (word_of_nat off - word_of_nat (length c) :: u64)) 0) =
        Some (Some v1)" using v1(1) by simp
      then show ?thesis using w1 n(1) True v2 fits f(1) lt
        by (simp add: rfs_write_def ff(1) aux offs f(4) lp Let_def cnt grow)
    next
      case ge: False
      then have "v1 = v" using v1(1) by simp
      then show ?thesis using w1 n(1) True v2 fits f(1) ge
        by (simp add: rfs_write_def ff(1) aux offs f(4) lp Let_def cnt grow)
    qed
    moreover have "buf_holds \<lparr>fi_data = Some v2, fi_datasize = word_of_nat (length v)\<rparr> (patch c off data)"
      using v v2(2) lp p by (simp add: buf_holds_def)
    ultimately show ?thesis by blast
  next
    case False
    then obtain v where v: "fi_data d = Some v" "length v < 2147483648" "fi_datasize d = word_of_nat (length v)"
      "length c \<le> length v" "take (length c) v = c"
      using f(6) n(1) by (auto simp: buf_holds_def split: option.splits)
    define v2 where "v2 = take off v @ data @ drop (off + ?n) v"
    have v2: "buf_set (Some v) (word_of_nat off) data = Some (Some v2)" "length v2 = length v"
      using v False buf_set_Some [of off data v] by (auto simp: v2_def)
    have lp: "length (patch c off data) = length c" using False by (simp add: take_patch)
    have "patch c off data = take (length c) v2"
    proof -
      have "take off c = take off v" "drop (off + ?n) c = take (length c - (off + ?n)) (drop (off + ?n) v)"
        using v(5) False by (metis add_leD1 linorder_not_less min.absorb1 take_take, metis v(5) drop_take)
      then show ?thesis using False v by (simp add: patch_def v2_def)
    qed
    then have holds: "buf_holds (d\<lparr>fi_data := Some v2\<rparr>) (patch c off data)"
      using v v2(2) lp by (simp add: buf_holds_def)
    have eqf: "f\<lparr>fl_length := word_of_nat (length c)\<rparr> = f" using f(4) by (cases f) simp
    moreover have "set_file ?a (Some f) (set_aux x g w) = set_aux x g w" for g using f(1) by simp
    ultimately have "rfs_write b (word_of_nat off0) (word_of_nat ?n) data req w =
      Some (int ?n, set_file ?a (Some (f\<lparr>fl_length := word_of_nat (length (patch c off data))\<rparr>))
        (set_aux x (Some (d\<lparr>fi_data := Some v2\<rparr>)) (w\<lparr>w_nmalloc := w_nmalloc w + 0\<rparr>)))"
      using n(1) False v(1) v2 f(3) by (simp add: rfs_write_def ff(1) aux offs lp Let_def cnt grow f(4) eqf)
    with holds show ?thesis by blast
  qed
qed


lemma sint_ucast_int: "- 2147483648 \<le> i \<Longrightarrow> i < 2147483648 \<Longrightarrow> sint (ucast (word_of_int i :: u64) :: u32) = i"
  unfolding ucast_word_of_int by (simp add: signed_of_int signed_take_bit_int_eq_self)

lemma rfs_read_at:
  assumes ff: "ffid_at b w = Some ff" and s: "stores (ff_file ff) c w"
    and n: "off < 2147483648" "count < 2147483648" "count \<le> length buf"
  shows "rfs_read b (word_of_nat off) (word_of_nat count) buf req w =
    (let bytes = take count (drop off c) in Some (int (length bytes), bytes @ drop (length bytes) buf, w))"
proof -
  let ?a = "ff_file ff" and ?bytes = "take count (drop off c)"
  obtain f x d where f: "file_at ?a w = Some f" "fl_aux f = Some x" "aux_at x w = Some d"
      "fl_length f = word_of_nat (length c)" "length c < 2147483648" "buf_holds d c"
    using s by (auto simp: stores_def)
  have cnt: "(ucast (word_of_nat count :: u32) :: u64) = word_of_nat count" "sint (word_of_nat count :: u32) = int count"
    using n(2) by (simp_all add: ucast_u64 sint_of_nat_u32)
  have cmp: "word_of_nat (length c) < (word_of_nat off + word_of_nat count :: u64) \<longleftrightarrow> length c < off + count"
    using less_u64 [of "length c" "off + count"] f(5) n by simp
  have diff: "(word_of_nat (length c) - word_of_nat off :: u64) = word_of_int (int (length c) - int off)" by simp
  have sd: "sint (ucast (word_of_nat (length c) - word_of_nat off :: u64) :: u32) = int (length c) - int off"
    unfolding diff using f(5) n(1) by (intro sint_ucast_int) linarith+
  have get: "buf_get (fi_data d) (word_of_nat off) (int (length ?bytes)) = Some ?bytes"
  proof (cases "?bytes = []")
    case False
    then have "off < length c" by (auto simp: not_less)
    then obtain v where v: "fi_data d = Some v" "length c \<le> length v" "take (length c) v = c"
      using f(6) by (auto simp: buf_holds_def split: option.splits)
    have "uint (word_of_nat off :: u64) = int off" using n(1) by (simp add: unsigned_of_nat take_bit_nat_eq_self)
    moreover have "take (min (length c - off) count) (drop off v) = ?bytes"
      using v(3) by (metis drop_take min.commute take_take)
    moreover have "int off + int (min (length c - off) count) \<le> int (length v)"
      using v(2) \<open>off < length c\<close> by linarith
    ultimately show ?thesis using False v n(1) by (simp add: buf_get_def)
  next
    case True
    then show ?thesis unfolding True by (simp add: buf_get_def)
  qed
  have aux: "file_aux ?a w = Some (f, x, d)" using f by (simp add: file_aux_def)
  define k where "k = length ?bytes"
  have gk: "buf_get (fi_data d) (word_of_nat off) (int k) = Some ?bytes" "k \<le> length buf"
    using get n(3) by (simp_all add: k_def)
  note run = rfs_read_def ff aux f(4) cnt cmp sd Let_def
  consider "length c < off" "k = 0" | "off \<le> length c" "length c < off + count" "int (length c) - int off = int k"
    | "off + count \<le> length c" "k = count"
    by (cases "length c < off"; cases "length c < off + count") (auto simp: k_def)
  then show ?thesis
  proof cases
    case 1
    then show ?thesis using gk by (simp add: run k_def [symmetric] del: length_take)
  next
    case 2
    then have "length c - off = k" by linarith
    then show ?thesis using gk 2 by (simp add: run k_def [symmetric] del: length_take)
  next
    case 3
    then show ?thesis using gk by (simp add: run k_def [symmetric] del: length_take)
  qed
qed


text \<open>What the rest of a request leaves alone.\<close>

definition io_same :: "rworld \<Rightarrow> rworld \<Rightarrow> bool" where
  "io_same w w' \<longleftrightarrow> w_fids w' = w_fids w \<and> fs_fidaux (w_user w') = fs_fidaux (w_user w) \<and>
     fs_ffids (w_user w') = fs_ffids (w_user w) \<and> w_mallocs w' = w_mallocs w"

lemma io_same_simps [simp]:
  "io_same w w" "io_same w (snd (time_now w')) = io_same w w'"
  "io_same w (set_file a f w') = io_same w w'" "io_same w (set_aux x d w') = io_same w w'"
  "io_same w (w'\<lparr>w_nmalloc := k\<rparr>) = io_same w w'" "io_same w (snd (run_create g w')) = io_same w w'"
  "io_same w (snd (world_malloc w')) = io_same w w'"
  by (auto simp: io_same_def set_file_def set_aux_def time_now_def run_create_def world_malloc_def)

lemma io_same_trans: "io_same w w' \<Longrightarrow> io_same w' w'' \<Longrightarrow> io_same w w''"
  by (simp add: io_same_def)

lemma io_same_fid: "io_same w w' \<Longrightarrow> fid_aux fid w' = fid_aux fid w \<and> ffid_at b w' = ffid_at b w"
  by (simp add: io_same_def fid_aux_def ffid_at_def)

lemma npfile_modified_io:
  assumes "file_at a w = Some f"
  obtains w' f' where "npfile_modified a u w = Some w'" "file_at a w' = Some f'" "fl_length f' = fl_length f"
    "fl_aux f' = fl_aux f" "fl_mode f' = fl_mode f" "fl_ops f' = fl_ops f" "io_same w w'" "fs_x (w_user w') = fs_x (w_user w)"
  using assms by (auto simp: npfile_modified_def time_now_def upd_file_def file_at_def set_file_def io_same_def Let_def)

text \<open>The fid is open on a file with these bytes.\<close>

definition opened :: "nat \<Rightarrow> addr \<Rightarrow> u8 list \<Rightarrow> rworld \<Rightarrow> bool" where
  "opened blk fid c w \<longleftrightarrow> (\<exists>r b ff f. w_fids w fid = Some r \<and> fid_aux fid w = Some (b, ff) \<and>
     file_at (ff_file ff) w = Some f \<and> \<not> is_dir f \<and> fl_ops f = Some rfs_fileops_addr \<and> stores (ff_file ff) c w \<and>
     ff_omode ff AND uint Oappend = 0 \<and> rf_blksize (fs_x (w_user w)) = int blk \<and> 0 < blk \<and> (\<forall>i. w_mallocs w i \<noteq> None))"

lemma opened_read:
  assumes "opened blk fid c w" "off < 2147483648" "n + 11 < 2147483648"
  shows "\<exists>rc w'. npfile_read (rfs_env member) fid (word_of_nat off) (word_of_nat n) req w = Some (Some rc, w') \<and>
    take (unat (fc_size rc)) (fc_pkt rc) = wire nu dotu NOTAG (MRread (take n (drop off c))) \<and> opened blk fid c w'"
proof -
  obtain r b ff f where o: "w_fids w fid = Some r" "fid_aux fid w = Some (b, ff)" "file_at (ff_file ff) w = Some f" "\<not> is_dir f"
    "fl_ops f = Some rfs_fileops_addr" "stores (ff_file ff) c w" "ff_omode ff AND uint Oappend = 0"
    "rf_blksize (fs_x (w_user w)) = int blk" "0 < blk" "\<forall>i. w_mallocs w i \<noteq> None"
    using assms(1) by (auto simp: opened_def)
  let ?a = "ff_file ff" and ?d = "take n (drop off c)"
  have ffid: "ffid_at b w = Some ff" using o(2) by (auto simp: fid_aux_def ffid_at_def split: bind_splits)
  obtain j where j: "w_mallocs w (w_nmalloc w) = Some j" using o(10) [rule_format, of "w_nmalloc w"] by blast
  define w1 where "w1 = snd (world_malloc w)"
  have wm: "world_malloc w = (Some j, w1)" using j by (simp add: world_malloc_def w1_def)
  obtain fc where fc: "np_alloc_rread (Some j) (word_of_nat n) = Some fc" using np_alloc_rread_at [OF assms(3), of j] by auto
  obtain mem where mem: "ret_data (Some fc) = Some mem" "length mem = n" using read_reply(1) [OF fc assms(3)] by blast
  have w1: "file_at ?a w1 = Some f" "stores ?a c w1" "io_same w w1" "fs_x (w_user w1) = fs_x (w_user w)" "fs_x (w_user w1) = fs_x (w_user w)"
    using o(3,6) by (simp_all add: w1_def world_malloc_def stores_def)
  have rd: "rfs_read b (word_of_nat off) (word_of_nat n) mem req w1 = Some (int (length ?d), ?d @ drop (length ?d) mem, w1)"
    using rfs_read_at [of b w1 ff c off n mem req] io_same_fid [OF w1(3)] ffid w1(2) assms(2,3) mem by (simp add: Let_def)
  define w2 where "w2 = set_file ?a (Some (f\<lparr>fl_atime := fst (time_now w1)\<rparr>)) (snd (time_now w1))"
  have l: "length (?d @ drop (length ?d) mem) = n" "length ?d \<le> n" using mem(2) by simp_all
  have "take (length xs) (xs @ ys) = xs" for xs ys :: "u8 list" by simp
  then have t: "take (length ?d) (?d @ drop (length ?d) mem) = ?d" .
  obtain rc where rc: "read_done (set_data (Some fc) (Some (?d @ drop (length ?d) mem))) (word_of_nat (length ?d)) w2 = Some (Some rc, w2)"
    "take (unat (fc_size rc)) (fc_pkt rc) = wire nu dotu NOTAG (MRread ?d)"
    using read_reply(2) [OF fc assms(3) l, of w2 nu dotu] unfolding t by blast
  have "npfile_read (rfs_env member) fid (word_of_nat off) (word_of_nat n) req w = Some (Some rc, w2)"
    using o(1,2,4,5) w1 rc(1) rd mem(1) fc
    by (simp add: npfile_read_def run_create_def wm Let_def fops_def rfs_env_def rfs_fileops_def rfs_fileops0_def is_dir_def
        case_prod_unfold w2_def io_same_def del: length_take)
  moreover have "opened blk fid c w2"
  proof -
    have s: "io_same w w2" using w1(3) by (simp add: w2_def)
    have "file_at ?a w2 = Some (f\<lparr>fl_atime := fst (time_now w1)\<rparr>)" "stores ?a c w2" "fs_x (w_user w2) = fs_x (w_user w)"
      using w1 by (simp_all add: w2_def stores_def aux_at_def file_at_def file_simps set_file_def time_now_def)
    then show ?thesis
      using o s io_same_fid [OF s] unfolding opened_def io_same_def
      by (intro exI [of _ r] exI [of _ b] exI [of _ ff] exI [of _ "f\<lparr>fl_atime := fst (time_now w1)\<rparr>"]) (simp add: is_dir_def)
  qed
  ultimately show ?thesis using rc(2) by blast
qed

lemma opened_write:
  assumes "opened blk fid c w" "data \<noteq> []" "off + length data + blk < 2147483648"
  shows "\<exists>rc w'. npfile_write (rfs_env member) fid (word_of_nat off) (word_of_nat (length data)) data req w = Some (rc, w') \<and>
    emits nu dotu (MRwrite (word_of_nat (length data))) rc \<and> opened blk fid (patch c off data) w' \<and> fid_aux fid w' = fid_aux fid w"
proof -
  obtain r b ff f where o: "w_fids w fid = Some r" "fid_aux fid w = Some (b, ff)" "file_at (ff_file ff) w = Some f" "\<not> is_dir f"
    "fl_ops f = Some rfs_fileops_addr" "stores (ff_file ff) c w" "ff_omode ff AND uint Oappend = 0"
    "rf_blksize (fs_x (w_user w)) = int blk" "0 < blk" "\<forall>i. w_mallocs w i \<noteq> None"
    using assms(1) by (auto simp: opened_def)
  let ?a = "ff_file ff" and ?n = "length data"
  obtain x d where f: "fl_aux f = Some x" "aux_at x w = Some d" "fl_length f = word_of_nat (length c)" "length c < 2147483648" "buf_holds d c"
    using o(3,6) by (auto simp: stores_def)
  have ffid: "ffid_at b w = Some ff" using o(2) by (auto simp: fid_aux_def ffid_at_def split: bind_splits)
  have off: "off = (if ff_omode ff AND uint Oappend \<noteq> 0 then length c else off)" using o(7) by simp
  define f1 where "f1 = f\<lparr>fl_length := word_of_nat (length (patch c off data))\<rparr>"
  have m: "w_mallocs w (w_nmalloc w) \<noteq> None" using o(10) by blast
  obtain d' k where wr: "rfs_write b (word_of_nat off) (word_of_nat ?n) data req w =
      Some (int ?n, set_file ?a (Some f1) (set_aux x (Some d') (w\<lparr>w_nmalloc := w_nmalloc w + k\<rparr>)))" "buf_holds d' (patch c off data)"
    using rfs_write_at [OF ffid off o(3) f o(8,9) m assms(2,3)] unfolding f1_def by blast
  define w1 where "w1 = set_file ?a (Some f1) (set_aux x (Some d') (w\<lparr>w_nmalloc := w_nmalloc w + k\<rparr>))"
  have w1: "file_at ?a w1 = Some f1" "aux_at x w1 = Some d'" "io_same w w1" by (simp_all add: w1_def)
  obtain w2 f2 where w2: "(if fst (np_rerror w1) = None then npfile_modified ?a (fid_user r) w1 else Some w1) = Some w2"
    "file_at ?a w2 = Some f2" "fl_length f2 = fl_length f1" "fl_aux f2 = fl_aux f1" "fl_mode f2 = fl_mode f1" "fl_ops f2 = fl_ops f1"
    "io_same w1 w2" "fs_x (w_user w2) = fs_x (w_user w1)"
  proof (cases "fst (np_rerror w1) = None")
    case True
    obtain w' f' where "npfile_modified ?a (fid_user r) w1 = Some w'" "file_at ?a w' = Some f'" "fl_length f' = fl_length f1"
      "fl_aux f' = fl_aux f1" "fl_mode f' = fl_mode f1" "fl_ops f' = fl_ops f1" "io_same w1 w'" "fs_x (w_user w') = fs_x (w_user w1)"
      using npfile_modified_io [OF w1(1)] .
    then show ?thesis using that True by simp
  next
    case False
    then have e: "(if fst (np_rerror w1) = None then npfile_modified ?a (fid_user r) w1 else Some w1) = Some w1"
      by (rule if_not_P)
    show ?thesis using that [OF e w1(1)] by simp
  qed
  obtain j where j: "w_mallocs w2 (w_nmalloc w2) = Some j" using w2(7) w1(3) o(10) [rule_format, of "w_nmalloc w2"] by (auto simp: io_same_def)
  define w3 where "w3 = snd (run_create (\<lambda>m. np_create_rwrite m (word_of_nat ?n)) w2)"
  have rc: "run_create (\<lambda>m. np_create_rwrite m (word_of_nat ?n)) w2 = (np_create_rwrite (Some j) (word_of_nat ?n), w3)"
    using j by (simp add: run_create_def world_malloc_def w3_def)
  have wrt: "npfile_write (rfs_env member) fid (word_of_nat off) (word_of_nat ?n) data req w = Some (np_create_rwrite (Some j) (word_of_nat ?n), w3)"
    using o(1-5,7) wr(1) w2(1) rc
    by (simp add: npfile_write_def Let_def fops_def rfs_env_def rfs_fileops_def rfs_fileops0_def w1_def [symmetric])
  have w3: "file_at ?a w3 = Some f2" "aux_at x w3 = Some d'" "io_same w w3" "fs_x (w_user w3) = fs_x (w_user w1)"
    using w2(2,8) w1(2) io_same_trans [OF w1(3) w2(7)] by (simp_all add: w3_def file_at_def file_simps aux_at_def)
  have "stores ?a (patch c off data) w3"
    using w3 w2(3,4) wr(2) f(1,4) assms(3) by (auto simp: stores_def take_patch f1_def)
  moreover have "rf_blksize (fs_x (w_user w3)) = int blk"
    using o(8) unfolding w3(4) by (simp add: w1_def file_simps set_aux_def set_file_def)
  ultimately have "opened blk fid (patch c off data) w3"
    using o w3(1,3) w2(5,6) io_same_fid [OF w3(3)] unfolding opened_def io_same_def
    by (intro exI [of _ r] exI [of _ b] exI [of _ ff] exI [of _ f2]) (simp add: is_dir_def f1_def)
  then show ?thesis using wrt emit_fixed(9) io_same_fid [OF w3(3)] by blast
qed

text \<open>C17. What is written to an open file of the memory server through \<^verbatim>\<open>npfile_write\<close>, at
  any offset that keeps the sizes below \<open>2\<^sup>3\<^sup>1\<close>, is what \<^verbatim>\<open>npfile_read\<close> returns at that
  offset: the reply to the write counts all its bytes, the file holds its old bytes with the new
  ones over them (and zeros in a gap), and the reply to the read is the Rread of the bytes written.\<close>

theorem rfs_write_read:
  assumes fid: "w_fids w fid = Some r" "fid_aux fid w = Some (b, ff)"
    and f: "file_at (ff_file ff) w = Some f" "\<not> is_dir f" "fl_ops f = Some rfs_fileops_addr"
    and c: "stores (ff_file ff) c w" "ff_omode ff AND uint Oappend = 0"
    and blk: "rf_blksize (fs_x (w_user w)) = int blk" "0 < blk"
    and m: "\<And>i. w_mallocs w i \<noteq> None"
    and n: "data \<noteq> []" "off + length data + blk < 2147483648" "length data + 11 < 2147483648"
  shows "\<exists>rc w' rc' w''. npfile_write (rfs_env member) fid (word_of_nat off) (word_of_nat (length data)) data req w = Some (rc, w') \<and>
    emits nu dotu (MRwrite (word_of_nat (length data))) rc \<and> stores (ff_file ff) (patch c off data) w' \<and>
    npfile_read (rfs_env member) fid (word_of_nat off) (word_of_nat (length data)) req' w' = Some (Some rc', w'') \<and>
    take (unat (fc_size rc')) (fc_pkt rc') = wire nu dotu NOTAG (MRread data)"
proof -
  have "\<forall>i. w_mallocs w i \<noteq> None" using m by blast
  then have o: "opened blk fid c w" unfolding opened_def using assms(1-9) by blast
  obtain rc w' where wr: "npfile_write (rfs_env member) fid (word_of_nat off) (word_of_nat (length data)) data req w = Some (rc, w')"
    "emits nu dotu (MRwrite (word_of_nat (length data))) rc" "opened blk fid (patch c off data) w'" "fid_aux fid w' = fid_aux fid w"
    using opened_write [OF o n(1,2)] by blast
  have st: "stores (ff_file ff) (patch c off data) w'" using wr(3,4) fid(2) by (auto simp: opened_def)
  have d: "take (length data) (drop off (patch c off data)) = data" by (simp add: patch_def)
  obtain rc' w'' where "npfile_read (rfs_env member) fid (word_of_nat off) (word_of_nat (length data)) req' w' = Some (Some rc', w'')"
    "take (unat (fc_size rc')) (fc_pkt rc') = wire nu dotu NOTAG (MRread data)"
    using opened_read [OF wr(3), of off "length data"] n(2,3) unfolding d by force
  then show ?thesis using wr(1,2) st by blast
qed

text \<open>\<^verbatim>\<open>rfs_read\<close> cuts \<^verbatim>\<open>file->length - offset\<close> to an \<^verbatim>\<open>int\<close>: a read at an offset
  \<open>2\<^sup>3\<^sup>2 - k\<close> behind the end of the file takes it for \<open>k\<close> bytes left and copies from outside
  the buffer.\<close>

theorem rfs_read_wild:
  assumes "ffid_at b w = Some ff" and "stores (ff_file ff) c w" and "0 < k" and "k < 2147483648"
  shows "rfs_read b (word_of_nat (length c + 4294967296 - k)) count buf req w = None"
proof -
  define off where "off = length c + 4294967296 - k"
  obtain f x d where f: "file_at (ff_file ff) w = Some f" "fl_aux f = Some x" "aux_at x w = Some d"
      "fl_length f = word_of_nat (length c)" "length c < 2147483648" "buf_holds d c"
    using assms(2) by (auto simp: stores_def)
  have off: "length c < off" "off < 8589934592" "int off = int (length c) + 4294967296 - int k"
    using assms(3,4) f(5) by (simp_all add: off_def)
  define m where "m = unat count"
  have m: "count = word_of_nat m" "m < 4294967296" using unsigned_less [of count] by (simp_all add: m_def)
  have cnt: "(ucast count :: u64) = word_of_nat m" using m by (simp add: ucast_u64)
  have cmp: "word_of_nat (length c) < (word_of_nat off + word_of_nat m :: u64)"
    using less_u64 [of "length c" "off + m"] f(5) m(2) off by simp
  have "(word_of_nat (length c) - word_of_nat off :: u64) = word_of_int (int (length c) - int off)" by simp
  also have "int (length c) - int off = int k - 4294967296" using off by simp
  finally have "(ucast (word_of_nat (length c) - word_of_nat off :: u64) :: u32) = word_of_int (int k - 4294967296)"
    by (simp only: ucast_word_of_int)
  also have "\<dots> = word_of_nat k" by simp
  finally have sk: "sint (ucast (word_of_nat (length c) - word_of_nat off :: u64) :: u32) = int k"
    using assms(4) by (simp only: sint_of_nat_u32)
  have "uint (word_of_nat off :: u64) = int off" using off by (simp add: unsigned_of_nat take_bit_nat_eq_self)
  then have none: "buf_get (fi_data d) (word_of_nat off) (int k) = None"
    using f(6) assms(3,4) off by (auto simp: buf_get_def buf_holds_def split: option.splits)
  have aux: "file_aux (ff_file ff) w = Some (f, x, d)" using f by (simp add: file_aux_def)
  show ?thesis unfolding off_def [symmetric] using cmp none assms(3)
    by (simp add: rfs_read_def assms(1) aux f(4) cnt sk)
qed

section \<open>Witnesses\<close>

lemma sample_stores: "stores 4 [1, 2, 3] (sample_rfs x)"
  by (simp add: stores_def buf_holds_def aux_at_def sample_store_def)

lemma rfs_read_wild_witness:
  "rfs_read 8 (word_of_nat (3 + 4294967296 - 1)) 1 [0] 0 (sample_rfs 4) = None"
  using rfs_read_wild [of 8 "sample_rfs 4" "sample_filefid 4" "[1, 2, 3]" 1 1 "[0]" 0] sample_stores by simp

lemma rfs_write_read_witness:
  "let w = set_ffid 8 (Some ((sample_filefid 4)\<lparr>ff_omode := 2\<rparr>)) (sample_rfs 4) in
   \<exists>rc w' rc' w''. npfile_write (rfs_env sample_member) 6 2 2 [7, 8] 0 w = Some (rc, w') \<and>
    stores 4 [1, 2, 7, 8] w' \<and> npfile_read (rfs_env sample_member) 6 2 2 0 w' = Some (Some rc', w'') \<and>
    take (unat (fc_size rc')) (fc_pkt rc') = wire 0 True NOTAG (MRread [7, 8])"
proof -
  let ?ff = "(sample_filefid 4)\<lparr>ff_omode := 2\<rparr>"
  define w where "w = set_ffid 8 (Some ?ff) (sample_rfs 4)"
  have w: "w_fids w = w_fids (sample_rfs 4)" "fid_aux 6 w = Some (8, ?ff)" "file_at 4 w = Some sample_npfile"
    "rf_blksize (fs_x (w_user w)) = int 4" "w_mallocs w i \<noteq> None" for i
    by (simp_all add: w_def fid_aux_def set_ffid_def sample_store_def ffid_at_def file_at_def)
  have st: "stores 4 [1, 2, 3] w"
    by (simp add: stores_def buf_holds_def aux_at_def w_def) (simp add: set_ffid_def sample_store_def)
  have ap: "ff_omode ?ff AND uint Oappend = 0" by (simp add: Oappend_def)
  show ?thesis unfolding Let_def w_def [symmetric]
    using rfs_write_read [of w 6 _ 8 ?ff sample_npfile "[1, 2, 3]" 4 "[7, 8]" 2 sample_member 0 0 True 0] w st ap
    by (simp add: patch_def) blast
qed

end
