(* ===== verification/RamfsWalk.thy ===== *)
theory RamfsWalk
  imports RamfsTree
begin

text \<open>
  Walking in the memory file server: a name is looked up among the children of the fid's
  directory, and the fid's reference moves from the directory to the child. The name
  \<^verbatim>\<open>..\<close> leads to the parent without a reference to it.
\<close>

lemma w_user_strdup: "run_strdup pkt s w = Some (r, w') \<Longrightarrow> w_user w' = w_user w"
  by (auto simp: run_strdup_def world_malloc_def split: option.splits)

lemma strdup_ok:
  assumes "w_mallocs w (w_nmalloc w) \<noteq> None" "np_strdup pkt s = Some cs"
  shows "run_strdup pkt s w = Some (Some cs, w\<lparr>w_nmalloc := w_nmalloc w + 1\<rparr>)"
  using assms by (auto simp: run_strdup_def world_malloc_def)




lemma haserror_werror:
  assumes "\<And>i. w_mallocs w i \<noteq> None"
  shows "np_haserror (np_werror (Some e) c w)"
proof -
  have m: "\<exists>j. w_mallocs w i = Some j" for i using assms by auto
  show ?thesis
  proof (cases "w_errs w (w_self w)")
    case None
    then show ?thesis using m [of "w_nmalloc w"] m [of "w_nmalloc w + 1"]
      by (auto simp: np_werror_def np_vwerror_def np_haserror_def world_malloc_def Let_def)
  next
    case (Some e)
    then show ?thesis using m [of "w_nmalloc w"]
      by (auto simp: np_werror_def np_vwerror_def np_haserror_def world_malloc_def Let_def)
  qed
qed

lemma fid_aux_ffid: "fid_aux fid w = Some (b, ff) \<Longrightarrow> ffid_at b w = Some ff"
  by (auto simp: fid_aux_def split: bind_splits)

lemma decref_shared:
  assumes "file_at a w = Some f" "2 \<le> fl_refcount f"
  shows "npfile_decref en (Some a) w = Some (fl_refcount f - 1, addref (- 1) (Some a) w)"
  using assms by (simp add: npfile_decref_def npfile_decrefimpl_def addref_def)
    (cases f; simp)

text \<open>The server's tables have no operations that follow the fids of a file.\<close>

lemma rfs_ref_unref:
  assumes "file_at a w = Some f" "typed f"
  shows "npfile_ref (rfs_env member) a b w = Some w" "npfile_unref (rfs_env member) a b w = Some w"
  using assms
  by (auto simp: npfile_ref_def npfile_unref_def typed_def dops_def fops_def rfs_env_def rfs_dirops_def rfs_dirops0_def
      rfs_fileops_def rfs_fileops0_def)

text \<open>C18. A walk of one name from a directory that the user may search finds the first child
  with the name. If there is one, the fid stands for it, it has one reference more and the directory one less, no
  other file changes, and its qid is returned; if there is none, the walk fails with an error set and the files and
  fids are unchanged.\<close>

theorem rfs_walk:
  assumes t: "rfs_tree T w" and d: "T (ff_file ff) = Some cs"
    and fid: "w_fids w fid = Some r" "fid_aux fid w = Some (b, ff)"
    and f: "file_at (ff_file ff) w = Some f" "2 \<le> fl_refcount f"
    and ok: "npfile_checkperm (rfs_env member) (ff_file ff) (fid_user r) 1 w = Some (True, w)"
    and m: "\<And>i. w_mallocs w i \<noteq> None" and nm: "np_strdup pkt wname = Some name" "name \<noteq> cstr ''..''"
  shows "case find (names name w) cs of
      None \<Rightarrow> \<exists>w'. npfile_walk (rfs_env member) fid pkt wname w = Some (None, w') \<and> np_haserror w' \<and> w_user w' = w_user w
    | Some a \<Rightarrow> \<exists>w' g. npfile_walk (rfs_env member) fid pkt wname w = Some (Some (fl_qid g), w') \<and>
        file_at a w = Some g \<and> fl_name g = Some name \<and> ffid_at b w' = Some (ff\<lparr>ff_file := a\<rparr>) \<and>
        (\<forall>c. file_at c w' = map_option (\<lambda>f. f\<lparr>fl_refcount := fl_refcount f + (if c = a then 1 else 0) -
          (if c = ff_file ff then 1 else 0)\<rparr>) (file_at c w))"
proof -
  let ?d = "ff_file ff" and ?w1 = "w\<lparr>w_nmalloc := w_nmalloc w + 1\<rparr>"
  let ?r = "find (names name w) cs"
  have r: "rdir ?d cs w" using t d by (simp add: rfs_tree_def)
  have r1: "rdir ?d cs ?w1" by (rule rl.kids_le [OF r tree_le_files]) simp
  have sd: "run_strdup pkt wname w = Some (Some name, ?w1)" by (rule strdup_ok [OF m nm(1)])
  have ops: "dops (rfs_env member) f = Some (rfs_dirops member)" "do_first (rfs_dirops member) = Some rfs_first"
    "do_next (rfs_dirops member) = Some rfs_next"
    using r f by (auto simp: rdir_def dops_def rfs_env_def rfs_dirops_def rfs_dirops0_def)
  have nms: "names name ?w1 = names name w" by (auto simp: names_def fun_eq_iff)
  have fnd: "npfile_find (rfs_env member) ?d name ?w1 = Some (?r, addref 1 ?r ?w1)"
    using rl.find_at [OF r1 _ ops nm(2)] f(1) nms by simp
  show ?thesis
  proof (cases ?r)
    case None
    have "\<exists>w'. npfile_walk (rfs_env member) fid pkt wname w =
        Some (None, if np_haserror ?w1 then ?w1 else np_werror (Some Enotfound) ENOENT ?w1)"
      using fid ok sd fnd None by (simp add: npfile_walk_def)
    moreover have "np_haserror (np_werror (Some Enotfound) ENOENT ?w1)" using m by (intro haserror_werror) simp
    ultimately show ?thesis using None by (auto simp: file_simps)
  next
    case (Some a)
    have a: "a \<in> set cs" "names name w a" using Some by (auto simp: find_Some_iff)
    then obtain g where g: "file_at a w = Some g" "fl_name g = Some name" "a \<noteq> ?d"
      using r by (auto simp: names_def rdir_def)
    have tf: "typed f" "typed g" using t f(1) g(1) by (auto simp: rfs_tree_def)
    define w2 where "w2 = set_ffid b (Some (ff\<lparr>ff_file := a\<rparr>)) ?w1"
    define w3 where "w3 = addref (- 1) (Some ?d) (addref 1 (Some a) w2)"
    have g1: "file_at a (addref 1 (Some a) ?w1) = Some (g\<lparr>fl_refcount := fl_refcount g + 1\<rparr>)"
      "file_at ?d (addref 1 (Some a) ?w1) = Some f" "file_at ?d (addref 1 (Some a) w2) = Some f"
      using g f(1) by (auto simp: file_at_addref w2_def)
    have u: "npfile_unref (rfs_env member) ?d b (addref 1 (Some a) ?w1) = Some (addref 1 (Some a) ?w1)"
      by (rule rfs_ref_unref [OF g1(2) tf(1)])
    have m1: "upd_ffid b (ff_file_update (\<lambda>_. a)) (addref 1 (Some a) ?w1) = Some (addref 1 (Some a) w2)"
      using fid_aux_ffid [OF fid(2)] by (simp add: w2_def upd_ffid_def)
    have dr: "npfile_decref (rfs_env member) (Some ?d) (addref 1 (Some a) w2) = Some (fl_refcount f - 1, w3)"
      unfolding w3_def by (rule decref_shared [OF g1(3) f(2)])
    have g3: "file_at a w3 = Some (g\<lparr>fl_refcount := fl_refcount g + 1\<rparr>)"
      using g by (auto simp: w3_def file_at_addref w2_def)
    have rf: "npfile_ref (rfs_env member) a b w3 = Some w3"
      by (rule rfs_ref_unref [OF g3]) (use tf(2) in \<open>simp add: typed_def\<close>)
    have "npfile_walk (rfs_env member) fid pkt wname w = Some (Some (fl_qid g), w3)"
      using fid ok sd fnd Some u m1 dr rf g3 by (simp add: npfile_walk_def)
    moreover have "ffid_at b w3 = Some (ff\<lparr>ff_file := a\<rparr>)" by (simp add: w3_def w2_def)
    moreover have "file_at c w3 = map_option (\<lambda>f. f\<lparr>fl_refcount := fl_refcount f + (if c = a then 1 else 0) -
        (if c = ?d then 1 else 0)\<rparr>) (file_at c w)" for c
      using g(3) by (auto simp: w3_def w2_def file_at_addref option.map_comp comp_def option.map_ident)
    ultimately show ?thesis using Some g by auto
  qed
qed

text \<open>C40. A walk to \<^verbatim>\<open>..\<close> moves the fid to the parent without a new reference to the parent,
  but the reference is dropped when the fid is destroyed: after both, the parent has one reference less than before,
  and so is freed too early.\<close>

theorem rfs_walk_dotdot:
  assumes t: "rfs_tree T w" and fid: "w_fids w fid = Some r" "fid_aux fid w = Some (b, ff)" "ff_omode ff = - 1"
    and f: "file_at (ff_file ff) w = Some f" "2 \<le> fl_refcount f"
    and p: "fl_parent f = Some p" "p \<noteq> ff_file ff" "file_at p w = Some g" "2 \<le> fl_refcount g"
    and ok: "npfile_checkperm (rfs_env member) (ff_file ff) (fid_user r) 1 w = Some (True, w)"
    and m: "w_mallocs w (w_nmalloc w) \<noteq> None" and nm: "np_strdup pkt wname = Some (cstr ''..'')"
  shows "\<exists>w' w''. npfile_walk (rfs_env member) fid pkt wname w = Some (Some (fl_qid g), w') \<and>
    ffid_at b w' = Some (ff\<lparr>ff_file := p\<rparr>) \<and> file_at p w' = Some g \<and>
    npfile_fiddestroy (rfs_env member) fid w' = Some w'' \<and>
    file_at p w'' = Some (g\<lparr>fl_refcount := fl_refcount g - 1\<rparr>)"
proof -
  let ?d = "ff_file ff" and ?w1 = "w\<lparr>w_nmalloc := w_nmalloc w + 1\<rparr>" and ?en = "rfs_env member"
  define w2 where "w2 = set_ffid b (Some (ff\<lparr>ff_file := p\<rparr>)) ?w1"
  define w3 where "w3 = addref (- 1) (Some ?d) w2"
  define w4 where "w4 = addref (- 1) (Some p) w3"
  have sd: "run_strdup pkt wname w = Some (Some (cstr ''..''), ?w1)" by (rule strdup_ok [OF m nm])
  have fnd: "npfile_find ?en ?d (cstr ''..'') ?w1 = Some (Some p, ?w1)"
    using f(1) p(1) by (simp add: npfile_find_def)
  have tf: "typed f" "typed g" using t f(1) p(3) by (auto simp: rfs_tree_def)
  have u: "npfile_unref ?en ?d b ?w1 = Some ?w1" by (rule rfs_ref_unref [OF _ tf(1)]) (simp add: f(1))
  have m1: "upd_ffid b (ff_file_update (\<lambda>_. p)) ?w1 = Some w2"
    using fid_aux_ffid [OF fid(2)] by (simp add: w2_def)
  have d2: "file_at ?d w2 = Some f" using f(1) by (simp add: w2_def)
  have dr: "npfile_decref ?en (Some ?d) w2 = Some (fl_refcount f - 1, w3)"
    unfolding w3_def by (rule decref_shared [OF d2 f(2)])
  have g3: "file_at p w3 = Some g" using p(2,3) by (simp add: w3_def w2_def file_at_addref)
  have rf: "npfile_ref ?en p b w3 = Some w3" by (rule rfs_ref_unref [OF g3 tf(2)])
  have walk: "npfile_walk ?en fid pkt wname w = Some (Some (fl_qid g), w3)"
    using fid ok sd fnd u m1 dr rf g3 by (simp add: npfile_walk_def)
  have b3: "ffid_at b w3 = Some (ff\<lparr>ff_file := p\<rparr>)" by (simp add: w3_def w2_def)
  have a3: "fs_fidaux (w_user w3) fid = Some b"
    using fid(2) by (auto simp: fid_aux_def w3_def w2_def addref_def set_ffid_def set_file_def split: bind_splits option.splits)
  have u3: "npfile_unref ?en p b w3 = Some w3" by (rule rfs_ref_unref [OF g3 tf(2)])
  have dr3: "npfile_decref ?en (Some p) w3 = Some (fl_refcount g - 1, w4)"
    unfolding w4_def by (rule decref_shared [OF g3 p(4)])
  have "npfile_fiddestroy ?en fid w3 = Some (set_ffid b None w4)"
    using a3 b3 g3 u3 dr3 fid(3) by (simp add: npfile_fiddestroy_def)
  moreover have "file_at p (set_ffid b None w4) = Some (g\<lparr>fl_refcount := fl_refcount g - 1\<rparr>)"
    using g3 by (simp add: w4_def file_at_addref)
  ultimately show ?thesis using walk b3 g3 by blast
qed

section \<open>Witnesses\<close>

lemma sample_perm: "npfile_checkperm (rfs_env sample_member) 3 (fid_user ((new_fid 0 6)\<lparr>fid_user := Some 1\<rparr>)) 1 (sample_rfs x) = Some (True, sample_rfs x)"
  "npfile_checkperm (rfs_env sample_member) 4 (fid_user ((new_fid 0 6)\<lparr>fid_user := Some 1\<rparr>)) 1 (sample_rfs x) = Some (True, sample_rfs x)"
  by (simp_all add: npfile_checkperm_def check_perm_def ROOTPERM_def Dmdir_def)

lemma sample_find: "find (names (cstr ''a'') (sample_rfs x)) [4] = Some 4"
  by (simp add: names_def)

lemma rfs_walk_witness:
  "\<exists>w'. npfile_walk (rfs_env sample_member) 6 [97] \<lparr>str_len = 1, str_ptr = Some 0\<rparr> (sample_rfs 3) = Some (Some npqid_zero, w') \<and>
    ffid_at 8 w' = Some (sample_filefid 4)"
proof -
  have nm: "np_strdup [97] \<lparr>str_len = 1, str_ptr = Some 0\<rparr> = Some (cstr ''a'')" by code_simp
  have dd: "cstr ''a'' \<noteq> cstr ''..''" by code_simp
  have "sample_filefid 3\<lparr>ff_file := 4\<rparr> = sample_filefid 4" by (simp add: sample_filefid_def)
  then show ?thesis
    using rfs_walk [OF sample_tree [of 3] _ _ _ _ _ _ _ nm dd, where ff = "sample_filefid 3" and cs = "[4]" and fid = 6 and b = 8 and f = sample_root and member = sample_member]
      sample_perm(1) [of 3] sample_find [of 3] by simp metis
qed

lemma rfs_walk_dotdot_witness:
  "\<exists>w' w''. npfile_walk (rfs_env sample_member) 6 [46, 46] \<lparr>str_len = 2, str_ptr = Some 0\<rparr> (sample_rfs 4) = Some (Some npqid_zero, w') \<and>
    file_at 3 w' = Some sample_root \<and> npfile_fiddestroy (rfs_env sample_member) 6 w' = Some w'' \<and>
    file_at 3 w'' = Some (sample_root\<lparr>fl_refcount := 2\<rparr>)"
proof -
  have nm: "np_strdup [46, 46] \<lparr>str_len = 2, str_ptr = Some 0\<rparr> = Some (cstr ''..'')" by code_simp
  show ?thesis
    using rfs_walk_dotdot [OF sample_tree [of 4] _ _ _ _ _ _ _ _ _ _ _ nm, where ff = "sample_filefid 4" and fid = 6 and b = 8 and f = sample_npfile and p = 3 and g = sample_root and member = sample_member]
      sample_perm(2) [of 4] by auto
qed

end
