(* ===== verification/RamfsWstat.thy ===== *)
theory RamfsWstat
  imports RamfsIO
begin

text \<open>
  Changing the attributes of a file of the memory server: whatever is changed, the tree keeps
  its form and every file its kind, as long as the mode in the request does not change it.
\<close>

section \<open>Changing attributes\<close>

lemma rfs_tree_le:
  assumes t: "rfs_tree T w" and le: "tree_le w w'" and n: "w_nmalloc w \<le> w_nmalloc w'"
    and dom: "\<And>a. file_at a w' \<noteq> None \<Longrightarrow> file_at a w \<noteq> None"
  shows "rfs_tree T w'"
proof -
  have "rdir d cs w'" if "T d = Some cs" for d cs
    using t that rdir_le [OF _ le] by (simp add: rfs_tree_def)
  moreover have "a < w_nmalloc w' \<and> typed g \<and> 0 \<le> fl_refcount g \<and> (is_dir g \<longrightarrow> T a \<noteq> None) \<and>
      (\<forall>p. fl_parent g = Some p \<longrightarrow> T p \<noteq> None)" if g: "file_at a w' = Some g" for a g
  proof -
    obtain f where f: "file_at a w = Some f" using dom g by force
    then obtain g' where "file_at a w' = Some g'" "tree_part g' = tree_part f" "fl_refcount f \<le> fl_refcount g'"
      using le unfolding tree_le_def by blast
    then have "tree_part g = tree_part f" "fl_refcount f \<le> fl_refcount g" using g by auto
    moreover have "fl_parent g = fl_parent f" using arg_cong [OF calculation(1), of fl_parent] by (simp add: tree_part_def)
    ultimately show ?thesis using t f n tree_part_parts [of g f] unfolding rfs_tree_def typed_def by fastforce
  qed
  ultimately show ?thesis by (simp add: rfs_tree_def)
qed

lemma rfs_tree_same:
  "rfs_tree T w \<Longrightarrow> (\<And>a. file_at a w' = file_at a w) \<Longrightarrow> w_nmalloc w \<le> w_nmalloc w' \<Longrightarrow> rfs_tree T w'"
  by (rule rfs_tree_le) (auto intro: tree_le_files)

lemma addref_nmalloc: "w_nmalloc (addref k p w) = w_nmalloc w"
  by (auto simp: addref_def set_file_def split: option.splits)

lemma rfs_tree_addref: "rfs_tree T w \<Longrightarrow> rfs_tree T (addref 1 p w)"
  by (rule rfs_tree_le [OF _ tree_le_addref])
    (auto simp: file_at_addref addref_nmalloc split: if_splits)

definition shape :: "Npfile \<Rightarrow> bool \<times> nat option \<times> int \<times> addr option \<times> addr option \<times> addr option \<times> addr option \<times> addr option" where
  "shape f = (is_dir f, fl_ops f, fl_refcount f, fl_parent f, fl_next f, fl_prev f, fl_dirfirst f, fl_dirlast f)"

lemma rfs_tree_set:
  assumes t: "rfs_tree T w" and f: "file_at a w = Some f" and s: "shape f' = shape f"
    and n: "fl_name f' = None \<longrightarrow> fl_name f = None"
  shows "rfs_tree T (set_file a (Some f') w)"
proof -
  let ?w = "set_file a (Some f') w"
  have "rdir d cs ?w" if T: "T d = Some cs" for d cs
  proof -
    have r: "rdir d cs w" using t T by (simp add: rfs_tree_def)
    show ?thesis
    proof (rule rdir_cong [OF r])
      show "map_option dir_part (file_at d ?w) = map_option dir_part (file_at d w)"
        using f s by (auto simp: shape_def dir_part_def)
      fix c assume c: "c \<in> set cs"
      obtain g where g: "file_at c w = Some g" "1 \<le> fl_refcount g" "fl_name g \<noteq> None" using rdir_childE [OF r c] .
      show "map_option node_part (file_at c ?w) = map_option node_part (file_at c w)"
        using f s n g by (auto simp: shape_def node_part_def)
      show "1 \<le> fl_refcount x" if "file_at c ?w = Some x" for x
        using that f s g by (auto simp: shape_def split: if_splits)
    qed
  qed
  moreover have "b < w_nmalloc ?w \<and> typed g \<and> 0 \<le> fl_refcount g \<and> (is_dir g \<longrightarrow> T b \<noteq> None) \<and>
      (\<forall>p. fl_parent g = Some p \<longrightarrow> T p \<noteq> None)" if g: "file_at b ?w = Some g" for b g
  proof (cases "b = a")
    case True
    then have "shape g = shape f" using g s by simp
    then show ?thesis using t f True unfolding rfs_tree_def by (auto simp: shape_def typed_def)
  next
    case False
    then show ?thesis using t g unfolding rfs_tree_def by simp
  qed
  ultimately show ?thesis by (simp add: rfs_tree_def)
qed

text \<open>The tree is kept and \<open>a\<close> is still a file of its kind.\<close>

definition kept :: "(addr \<Rightarrow> addr list option) \<Rightarrow> addr \<Rightarrow> bool \<Rightarrow> rworld \<Rightarrow> bool" where
  "kept T a k w \<longleftrightarrow> rfs_tree T w \<and> (\<exists>g. file_at a w = Some g \<and> is_dir g = k)"

lemma kept_upd:
  assumes "kept T a k w" "upd_file a h w = Some w'"
    and "\<And>g. is_dir g = k \<Longrightarrow> shape (h g) = shape g \<and> (fl_name (h g) = None \<longrightarrow> fl_name g = None)"
  shows "kept T a k w'"
proof -
  obtain g where g: "rfs_tree T w" "file_at a w = Some g" "is_dir g = k" using assms(1) by (auto simp: kept_def)
  then have "w' = set_file a (Some (h g)) w" using assms(2) by simp
  then show ?thesis using g assms(3) [OF g(3)] rfs_tree_set [OF g(1,2)]
    by (auto simp: kept_def shape_def)
qed

lemma kept_same:
  assumes "kept T a k w" "\<And>b. file_at b w' = file_at b w" "w_nmalloc w \<le> w_nmalloc w'"
  shows "kept T a k w'"
  using assms rfs_tree_same [of T w w'] by (auto simp: kept_def)

lemma kept_addref: "kept T a k w \<Longrightarrow> kept T a k (addref 1 p w)"
  by (auto simp: kept_def rfs_tree_addref file_at_addref)

lemma kept_werror: "kept T a k w \<Longrightarrow> kept T a k (np_werror e c w)"
  by (rule kept_same) (simp_all add: file_at_def file_simps, rule same_coreD(11) [OF same_core_werror])

lemma kept_set_aux: "kept T a k w \<Longrightarrow> kept T a k (set_aux x d w)"
  by (rule kept_same) auto

lemma kept_malloc: "kept T a k w \<Longrightarrow> kept T a k (snd (world_malloc w))"
  by (rule kept_same) (auto simp: world_malloc_def)

lemma kept_strdup: "kept T a k w \<Longrightarrow> run_strdup pkt s w = Some (r, w') \<Longrightarrow> kept T a k w'"
  using kept_malloc [of T a k w] by (auto simp: run_strdup_def split: option.splits prod.splits)

lemma kept_truncate: "kept T a k w \<Longrightarrow> file_truncate x sz w = Some (ok, w') \<Longrightarrow> kept T a k w'"
  using kept_malloc [of T a k w] kept_set_aux
  by (auto simp: file_truncate_def Let_def kept_set_aux split: bind_splits option.splits prod.splits if_splits)


lemma kept_set_length:
  assumes "kept T a k w" "rfs_set_length a len w = Some (ok, w')"
  shows "kept T a k w'"
proof -
  obtain f x d where a: "file_aux a w = Some (f, x, d)"
    using assms(2) by (auto simp: rfs_set_length_def split: bind_splits)
  obtain ok1 w1 where t: "file_truncate x len w = Some (ok1, w1)"
    using assms(2) a by (auto simp: rfs_set_length_def split: bind_splits)
  then have k1: "kept T a k w1" using kept_truncate assms(1) by blast
  show ?thesis
  proof (cases ok1)
    case True
    then obtain d l w2 where "upd_file a (fl_length_update (\<lambda>_. l)) (set_aux x (Some d) w1) = Some w'"
      using assms(2) a t by (auto simp: rfs_set_length_def Let_def split: bind_splits)
    then show ?thesis
      by (rule kept_upd [OF kept_set_aux [OF k1]]) (simp add: shape_def)
  next
    case False
    then show ?thesis using assms(2) a t kept_werror [OF k1] by (auto simp: rfs_set_length_def)
  qed
qed

lemma kept_find:
  assumes "kept T a k w" "T p = Some cs" "npfile_find (rfs_env0 member) p name w = Some (r, w')"
  shows "kept T a k w'"
proof (cases "name = cstr ''..''")
  case True
  then show ?thesis using assms by (auto simp: npfile_find_def split: bind_splits)
next
  case False
  have r: "rdir p cs w" using assms(1,2) by (auto simp: kept_def rfs_tree_def)
  then obtain f where f: "file_at p w = Some f" "fl_ops f = Some rfs_dirops_addr" by (auto simp: rdir_def)
  have "dops (rfs_env0 member) f = Some rfs_dirops0" "do_first rfs_dirops0 = Some rfs_first" "do_next rfs_dirops0 = Some rfs_next"
    using f(2) by (simp_all add: dops_def rfs_env0_def rfs_dirops0_def)
  then show ?thesis using rl.find_at [OF r f(1) _ _ _ False] assms(3) kept_addref [OF assms(1)] by auto
qed

lemma kept_set_name:
  assumes "kept T a k w" "rfs_set_name member a pkt nm w = Some (ok, oldname, w')"
  shows "kept T a k w'"
proof -
  obtain f p sname w2 nfile w3 where s: "file_at a w = Some f" "fl_parent f = Some p"
    "run_strdup pkt nm w = Some (Some sname, w2)" "npfile_find (rfs_env0 member) p sname w2 = Some (nfile, w3)"
    using assms(2) by (auto simp: rfs_set_name_def split: bind_splits)
  have "T p \<noteq> None" using assms(1) s(1,2) by (auto simp: kept_def rfs_tree_def)
  then have k3: "kept T a k w3" using kept_find [OF kept_strdup [OF assms(1) s(3)] _ s(4)] by auto
  show ?thesis
  proof (cases "nfile = None")
    case True
    then have "upd_file a (fl_name_update (\<lambda>_. Some sname)) w3 = Some w'"
      using assms(2) s by (auto simp: rfs_set_name_def split: bind_splits)
    then show ?thesis by (rule kept_upd [OF k3]) (simp add: shape_def)
  next
    case False
    then show ?thesis using assms(2) s kept_werror [OF k3] by (auto simp: rfs_set_name_def)
  qed
qed

lemma kept_wstat_error:
  assumes k: "kept T a k w" and e: "rfs_wstat_error a oldname len w = Some (ok, w')"
  shows "kept T a k w'"
proof -
  obtain w3 where m: "(if oldname \<noteq> None then upd_file a (fl_name_update (\<lambda>_. oldname)) w else Some w) = Some w3"
    using e by (auto simp: rfs_wstat_error_def split: bind_splits)
  have k3: "kept T a k w3"
    using m k kept_upd [OF k, of "fl_name_update (\<lambda>_. oldname)" w3]
    by (cases "oldname = None") (auto simp: shape_def)
  show ?thesis
  proof (cases "len = - 1")
    case True
    then show ?thesis using e m k3 by (simp add: rfs_wstat_error_def)
  next
    case False
    then obtain w4 x r where u: "upd_file a (fl_length_update (\<lambda>_. len)) w3 = Some w4"
      "file_truncate x len w4 = Some (r, w')"
      using e m by (auto simp: rfs_wstat_error_def split: bind_splits)
    have "kept T a k w4" by (rule kept_upd [OF k3 u(1)]) (simp add: shape_def)
    then show ?thesis by (rule kept_truncate [OF _ u(2)])
  qed
qed


section \<open>Witness\<close>

definition sample_wstat :: Npstat where
  "sample_wstat = (blank_stat npstat_zero)\<lparr>st_mode := 0x1A4\<rparr>"


end
