(* ===== verification/RamfsDir.thy ===== *)
theory RamfsDir
  imports RamfsIO RamfsWalk
begin

text \<open>
  Reading the directories of the memory file server: each read returns whole entries from
  where the last one stopped, and a client that reads until a reply is empty gets the entries
  of all children and stops.
\<close>

section \<open>Reading directories\<close>

text \<open>
  \<open>reading d cs ys ff w\<close>: the fid \<open>ff\<close> reads the directory \<open>d\<close> with the children
  \<open>cs\<close>, has the children \<open>ys\<close> still to read and holds a reference to the first of
  them.
\<close>

definition reading :: "addr \<Rightarrow> addr list \<Rightarrow> addr list \<Rightarrow> Npfilefid \<Rightarrow> rworld \<Rightarrow> bool" where
  "reading d cs ys ff w \<longleftrightarrow> ff_file ff = d \<and> ff_dirent ff = headp ys None \<and>
     (\<exists>xs w0. cs = xs @ ys \<and> rdir d cs w0 \<and> w = addref 1 (headp ys None) w0)"

definition listing :: "rworld \<Rightarrow> addr list \<Rightarrow> u8 list" where
  "listing w cs = concat (map (\<lambda>y. entry (the (stat_at w y))) cs)"

lemma listing_cong: "\<forall>y\<in>set cs. stat_at w' y = stat_at w y \<Longrightarrow> listing w' cs = listing w cs"
  by (induction cs) (auto simp: listing_def)

definition good_stats :: "rworld \<Rightarrow> addr list \<Rightarrow> bool" where
  "good_stats w cs \<longleftrightarrow> (\<forall>y\<in>set cs. \<exists>s. stat_at w y = Some s \<and> wf_wstat s)"

text \<open>The fid \<open>fid\<close> of a 9P2000.u connection is open on the file fid \<open>b\<close>.\<close>

definition dotu_fid :: "addr \<Rightarrow> addr \<Rightarrow> rworld \<Rightarrow> bool" where
  "dotu_fid fid b w \<longleftrightarrow> fs_fidaux (w_user w) fid = Some b \<and>
     (\<exists>r cn. w_fids w fid = Some r \<and> w_conns w (fid_conn r) = Some cn \<and> cn_dotu cn)"

lemma dotu_fid_links: "fid_links w' = fid_links w \<Longrightarrow> dotu_fid fid b w' = dotu_fid fid b w"
  by (simp add: dotu_fid_def fid_links_def)

text \<open>C19. A read of a directory over a 9P2000.u connection, from the start or from where the last one
  stopped, returns the entries of the next children, all whole and as many as leave a byte of the count free; the fid
  then stands before the first child not returned, with its offset advanced by the bytes returned, and the
  directory and its entries are unchanged.\<close>

theorem rfs_readdir:
  assumes fid: "dotu_fid fid b w" "ffid_at b w = Some ff"
    and rd: "reading d cs ys ff w" and stats: "good_stats w cs"
    and m: "w_mallocs w (w_nmalloc w) \<noteq> None" and c: "c + 11 < 2147483648"
    and start: "start = (if offset = 0 then cs else ys)"
  shows "\<exists>k rc w' ff'. npfile_read (rfs_env member) fid offset (word_of_nat c) req w = Some (Some rc, w') \<and>
    take (unat (fc_size rc)) (fc_pkt rc) = wire nu dotu NOTAG (MRread (listing w (take k start))) \<and>
    k \<le> length start \<and> length (listing w (take k start)) \<le> c \<and>
    (k < length start \<longrightarrow> c \<le> length (listing w (take (Suc k) start))) \<and>
    fid_links w' = fid_links w \<and> ffid_at b w' = Some ff' \<and> reading d cs (drop k start) ff' w' \<and>
    ff_diroffset ff' = (if offset = 0 then 0 else ff_diroffset ff) + word_of_nat (length (listing w (take k start))) \<and>
    (\<forall>y\<in>set cs. stat_at w' y = stat_at w y)"
proof -
  obtain xs w0 where w0: "cs = xs @ ys" "rdir d cs w0" "w = addref 1 (headp ys None) w0"
    and ff: "ff_file ff = d" "ff_dirent ff = headp ys None"
    using rd by (auto simp: reading_def)
  obtain r cn where r: "fs_fidaux (w_user w) fid = Some b" "w_fids w fid = Some r" "w_conns w (fid_conn r) = Some cn" "cn_dotu cn"
    using fid(1) by (auto simp: dotu_fid_def)
  have fa: "fid_aux fid w = Some (b, ff)" using r(1) fid(2) by (simp add: fid_aux_def)
  obtain j where j: "w_mallocs w (w_nmalloc w) = Some j" using m by auto
  define w1 where "w1 = w0\<lparr>w_nmalloc := Suc (w_nmalloc w)\<rparr>"
  have wm: "world_malloc w = (Some j, addref 1 (headp ys None) w1)"
    using j by (simp add: world_malloc_def w1_def w0(3))
  have kids: "rdir d (xs @ ys) w1"
    using rl.kids_le [OF w0(2) tree_le_files [of w1 w0]] w0(1) by (simp add: w1_def)
  obtain fc where fc: "np_alloc_rread (Some j) (word_of_nat c) = Some fc"
    using np_alloc_rread_at [OF c, of j] by auto
  obtain f where f: "file_at d w0 = Some f" "is_dir f" "fl_ops f = Some rfs_dirops_addr"
    using w0(2) by (auto simp: rdir_def)
  have ops: "dops (rfs_env member) f = Some (rfs_dirops member)" "do_first (rfs_dirops member) = Some rfs_first"
    "do_next (rfs_dirops member) = Some rfs_next"
    using f(3) by (simp_all add: dops_def rfs_env_def rfs_dirops_def rfs_dirops0_def)
  have st: "stat_at w1 y = stat_at w y" for y by (simp add: w1_def w0(3))
  have "headp ys None \<noteq> Some d" using w0(1,2) by (cases ys) (auto simp: rdir_def)
  then have fd: "file_at d (addref 1 (headp ys None) w1) = Some f"
    using f(1) by (simp add: w1_def file_at_addref)
  have ff1: "ffid_at b w1 = Some ff" using fid(2) by (simp add: w1_def w0(3))
  obtain k rc w' where k: "k \<le> length start" "length (listing w (take k start)) \<le> c"
    "k < length start \<longrightarrow> c \<le> length (listing w (take k start)) + length (entry (the (stat_at w (start ! k))))"
    and run: "read_dir (rfs_env member) True b d f offset (word_of_nat c) (Some fc) (addref 1 (headp ys None) w1) =
      Some (Some rc, addref 1 (headp (drop k start) None) w')"
    "take (unat (fc_size rc)) (fc_pkt rc) = wire nu dotu NOTAG (MRread (listing w (take k start)))"
    "rdir d (xs @ ys) w'" "fid_links w' = fid_links w1" "\<forall>y\<in>set (xs @ ys). stat_at w' y = stat_at w y"
    "ffid_at b w' = Some (ff\<lparr>ff_dirent := headp (drop k start) None,
      ff_diroffset := (if offset = 0 then 0 else ff_diroffset ff) + word_of_nat (length (listing w (take k start)))\<rparr>)"
    using rl.read_dir_at [OF kids ff1 ff(2) ops fc c _ refl, where offset = offset and nu = nu and dotu = dotu]
      stats start w0(1) by (auto simp: Let_def st listing_def good_stats_def)
  let ?w' = "addref 1 (headp (drop k start) None) w'"
  let ?ff' = "ff\<lparr>ff_dirent := headp (drop k start) None,
      ff_diroffset := (if offset = 0 then 0 else ff_diroffset ff) + word_of_nat (length (listing w (take k start)))\<rparr>"
  have read: "npfile_read (rfs_env member) fid offset (word_of_nat c) req w = Some (Some rc, ?w')"
    using r fa fc wm f(2) fd run(1)
    by (simp add: npfile_read_def run_create_def Let_def ff(1) case_prod_unfold w1_def w0(3))
  obtain xs' where "cs = xs' @ drop k start"
    using start w0(1) by (metis append_assoc append_take_drop_id)
  then have "reading d cs (drop k start) ?ff' ?w'"
    using run(3) ff(1) w0(1) by (auto simp: reading_def)
  moreover have "k < length start \<longrightarrow> c \<le> length (listing w (take (Suc k) start))"
    using k(3) by (simp add: listing_def take_Suc_conv_app_nth)
  moreover have "fid_links ?w' = fid_links w" using run(4) by (simp add: w1_def w0(3))
  moreover have "ffid_at b ?w' = Some ?ff'" "\<forall>y\<in>set cs. stat_at ?w' y = stat_at w y" using run(5,6) w0(1) by auto
  ultimately show ?thesis using read run(2) k(1,2)
    by (intro exI [of _ k] exI [of _ rc] exI [of _ ?w'] exI [of _ ?ff'] conjI) simp_all
qed


text \<open>
  A client that reads a directory from its start until a reply is empty, at most \<open>n\<close> times;
  each read is at the offset behind the bytes it has got.
\<close>

definition reply_data :: "Npfcall \<Rightarrow> u8 list" where
  "reply_data rc = drop 11 (take (unat (fc_size rc)) (fc_pkt rc))"

fun read_all :: "nat \<Rightarrow> (u64 \<Rightarrow> rworld \<Rightarrow> (Npfcall option \<times> rworld) option) \<Rightarrow> u64 \<Rightarrow> rworld \<Rightarrow> (u8 list \<times> rworld) option" where
  "read_all 0 rd off w = None"
| "read_all (Suc n) rd off w = do {
     (rc, w) \<leftarrow> rd off w;
     rc \<leftarrow> rc;
     if reply_data rc = [] then Some ([], w)
     else do {
       (rest, w) \<leftarrow> read_all n rd (off + word_of_nat (length (reply_data rc))) w;
       Some (reply_data rc @ rest, w)
     }
   }"

lemma reply_data_wire:
  "take (unat (fc_size rc)) (fc_pkt rc) = wire nu dotu NOTAG (MRread bytes) \<Longrightarrow> reply_data rc = bytes"
  by (simp add: reply_data_def wire_def)

lemma listing_append: "listing w (xs @ ys) = listing w xs @ listing w ys"
  by (simp add: listing_def)

lemma listing_empty: "listing w cs = [] \<longleftrightarrow> cs = []"
proof (cases cs)
  case (Cons a as)
  have "int (length (entry (the (stat_at w a)))) \<ge> 2" using length_entry size_wstat_nonneg by simp
  then have "entry (the (stat_at w a)) \<noteq> []" by auto
  then show ?thesis using Cons by (simp add: listing_def)
qed (simp add: listing_def)

lemma read_all_at:
  assumes "\<And>i. M i \<noteq> None" "c + 11 < 2147483648"
  shows "dotu_fid fid b w \<Longrightarrow> ffid_at b w = Some ff \<Longrightarrow> reading d cs ys ff w \<Longrightarrow> good_stats w cs \<Longrightarrow> w_mallocs w = M \<Longrightarrow>
    \<forall>y\<in>set cs. length (entry (the (stat_at w y))) < c \<Longrightarrow> length (listing w cs) < 18446744073709551616 \<Longrightarrow>
    start = (if off = 0 then cs else ys) \<Longrightarrow> cs = zs @ start \<Longrightarrow> off = word_of_nat (length (listing w zs)) \<Longrightarrow>
    length start < n \<Longrightarrow>
    \<exists>w'. read_all n (\<lambda>off. npfile_read (rfs_env member) fid off (word_of_nat c) req) off w = Some (listing w start, w')"
proof (induction n arbitrary: w ff ys start zs off)
  case (Suc n w ff ys start zs off)
  have "w_mallocs w (w_nmalloc w) \<noteq> None" using Suc.prems(5) assms(1) by simp
  then obtain k rc w' ff' where rd: "npfile_read (rfs_env member) fid off (word_of_nat c) req w = Some (Some rc, w')"
    "take (unat (fc_size rc)) (fc_pkt rc) = wire 0 True NOTAG (MRread (listing w (take k start)))" "k \<le> length start"
    "k < length start \<longrightarrow> c \<le> length (listing w (take (Suc k) start))"
    and w': "fid_links w' = fid_links w" "ffid_at b w' = Some ff'" "reading d cs (drop k start) ff' w'"
    "\<forall>y\<in>set cs. stat_at w' y = stat_at w y"
    using rfs_readdir [OF Suc.prems(1-4) _ assms(2) Suc.prems(8), of member req 0 True] by blast
  note rd' = rd(1) reply_data_wire [OF rd(2)]
  show ?case
  proof (cases "start = []")
    case True
    then show ?thesis using rd' by (simp add: listing_def)
  next
    case False
    have "k \<noteq> 0"
    proof
      assume "k = 0"
      then obtain y ys' where y: "start = y # ys'" "c \<le> length (listing w [y])" using rd(4) False by (cases start) auto
      then show False using Suc.prems(6,9) by (simp add: listing_def)
    qed
    then have ne: "take k start \<noteq> []" using False by simp
    have w'l: "listing w' vs = listing w vs" if "set vs \<subseteq> set cs" for vs
      using w'(4) that by (intro listing_cong) auto
    let ?zs = "zs @ take k start" and ?off = "off + word_of_nat (length (listing w (take k start)))"
    have cs: "cs = ?zs @ drop k start" using Suc.prems(9) by simp
    have off: "?off = word_of_nat (length (listing w ?zs))" using Suc.prems(10) by (simp add: listing_append)
    have "listing w cs = listing w ?zs @ listing w (drop k start)" using cs listing_append by metis
    then have "length (listing w ?zs) < 18446744073709551616" "listing w ?zs \<noteq> []"
      using Suc.prems(7) listing_empty [of w ?zs] ne by (simp_all del: append_assoc)
    then have off0: "?off \<noteq> 0" unfolding off by (auto simp: word_unat_eq_iff)
    have sub: "set ?zs \<subseteq> set cs" "set (drop k start) \<subseteq> set cs"
      by (subst cs, simp only: set_append, blast)+
    have "\<exists>w''. read_all n (\<lambda>off. npfile_read (rfs_env member) fid off (word_of_nat c) req) ?off w' =
        Some (listing w' (drop k start), w'')"
    proof (rule Suc.IH)
      show "dotu_fid fid b w'" using Suc.prems(1) dotu_fid_links [OF w'(1)] by simp
      show "ffid_at b w' = Some ff'" "reading d cs (drop k start) ff' w'" using w' by auto
      show "good_stats w' cs" using Suc.prems(4) w'(4) by (simp add: good_stats_def)
      show "w_mallocs w' = M" using Suc.prems(5) w'(1) by (simp add: fid_links_def)
      show "\<forall>y\<in>set cs. length (entry (the (stat_at w' y))) < c" using Suc.prems(6) w'(4) by simp
      show "length (listing w' cs) < 18446744073709551616" using Suc.prems(7) w'l by simp
      show "drop k start = (if ?off = 0 then cs else drop k start)" using off0 by simp
      show "cs = ?zs @ drop k start" by (rule cs)
      show "?off = word_of_nat (length (listing w' ?zs))" using off w'l [OF sub(1)] by simp
      show "length (drop k start) < n" using Suc.prems(11) \<open>k \<noteq> 0\<close> False by (cases start) auto
    qed
    then obtain w'' where "read_all n (\<lambda>off. npfile_read (rfs_env member) fid off (word_of_nat c) req) ?off w' =
        Some (listing w (drop k start), w'')"
      using w'l [OF sub(2)] by auto
    moreover have "listing w start = listing w (take k start) @ listing w (drop k start)"
      by (metis append_take_drop_id listing_append)
    ultimately show ?thesis using rd' ne by (simp add: listing_empty)
  qed
qed simp

text \<open>C20. A client that reads a directory until a reply is empty stops after at most one
  read more than there are children, and what it got are the entries of all children, once each and in order,
  when no entry is as long as its reads.\<close>

theorem rfs_list_terminates:
  assumes "dotu_fid fid b w" and "ffid_at b w = Some ff" and "reading d cs [] ff w" and "good_stats w cs"
    and "\<And>i. w_mallocs w i \<noteq> None" and "c + 11 < 2147483648"
    and "\<forall>y\<in>set cs. length (entry (the (stat_at w y))) < c" and "length (listing w cs) < 18446744073709551616"
    and "length cs < n"
  shows "\<exists>w'. read_all n (\<lambda>off. npfile_read (rfs_env member) fid off (word_of_nat c) req) 0 w = Some (listing w cs, w')"
  using read_all_at [of "w_mallocs w" c fid b w ff d cs "[]" cs 0 "[]" n member req] assms
  by (simp add: listing_def)

section \<open>Witnesses\<close>

lemma sample_reading: "reading 3 [4] [] (sample_filefid 3) (sample_rfs x)"
  using sample_rdir by (auto simp: reading_def)

lemma sample_dotu: "dotu_fid 6 8 (sample_rfs x)"
  by (simp add: dotu_fid_def sample_store_def new_fid_def sample_conn_def)

lemma sample_stat: "\<exists>s. stat_at (sample_rfs x) 4 = Some s \<and> wf_wstat s \<and> length (entry s) = 67"
proof -
  have "cstr ''a'' = [97]" "cstr ''u'' = [117]" "cstr ''g'' = [103]" by code_simp+
  then show ?thesis
    by (simp add: stat_at_def file2wstat_def sample_npfile_def sample_store_def wf_wstat_def wf_str_def entry_def lestat_def)
qed

lemma sample_stats: "good_stats (sample_rfs x) [4]"
  using sample_stat by (auto simp: good_stats_def)

lemma rfs_readdir_witness:
  "\<exists>k rc w'. npfile_read (rfs_env sample_member) 6 0 80 0 (sample_rfs 3) = Some (Some rc, w') \<and> k \<le> 1 \<and>
    take (unat (fc_size rc)) (fc_pkt rc) = wire 0 True NOTAG (MRread (listing (sample_rfs 3) (take k [4])))"
  using rfs_readdir [OF sample_dotu _ sample_reading sample_stats, of 3 80 "[4]" 0 sample_member 0 0 True] by simp blast

lemma rfs_list_terminates_witness:
  "\<exists>w'. read_all 2 (\<lambda>off. npfile_read (rfs_env sample_member) 6 off 80 0) 0 (sample_rfs 3) =
    Some (listing (sample_rfs 3) [4], w')"
proof -
  have "length (entry (the (stat_at (sample_rfs 3) 4))) = 67" using sample_stat [of 3] by auto
  then show ?thesis
    using rfs_list_terminates [OF sample_dotu _ sample_reading sample_stats, of 3 80 2 sample_member 0]
    by (simp add: listing_def)
qed

end
