(* ===== verification/XcpuPipe.thy ===== *)
theory XcpuPipe
  imports Strutil
begin

text \<open>
  The pipes of a session of \<^verbatim>\<open>xcpufs\<close>, \<^verbatim>\<open>xcpufs/pipe.c\<close>, between 9P requests and the
  standard files of a process. Data read from the process is kept in a buffer that all readers
  share; requests wait in a list sorted by fid. The descriptors belong to the kernel: what each
  \<^verbatim>\<open>read\<close> and \<^verbatim>\<open>write\<close> returns is part of the state (\<open>pio\<close>), like the
  outcome of the allocations; the answers given are recorded there in order. A result
  \<open>None\<close> is a fault.
\<close>

section \<open>State\<close>

datatype pdir = PRead | PWrite

text \<open>The flags of an \<^verbatim>\<open>Spfd\<close>, which the poll loop sets.\<close>

record Spfd =
  sf_readable :: bool
  sf_writable :: bool
  sf_error :: bool

text \<open>A waiting request: the number of its fid, and what the code reads of its message.\<close>

record Xpipereq =
  pr_fid :: u32
  pr_req :: addr
  pr_count :: u32
  pr_data :: "u8 list"

record Xfilepipe =
  xp_err :: int
  xp_lfd :: int
  xp_rfd :: int
  xp_direction :: pdir
  xp_lspfd :: "Spfd option"
  xp_buf :: "u8 list"
  xp_buflen :: int
  xp_bufsize :: int
  xp_reqs :: "Xpipereq list"

datatype xreply = RRead "u8 list" | RWrite u32

text \<open>
  The outcome of the \<open>n\<close>-th \<^verbatim>\<open>read\<close> (\<open>None\<close> for an error), \<^verbatim>\<open>write\<close> and
  allocation (with the contents of the memory) and how many there were; the bytes read and
  written so far; the descriptors closed; the requests answered.
\<close>

record pio =
  io_reads :: "nat \<Rightarrow> u8 list option"
  io_nreads :: nat
  io_writes :: "nat \<Rightarrow> int"
  io_nwrites :: nat
  io_allocs :: "nat \<Rightarrow> (nat \<Rightarrow> u8) option"
  io_nallocs :: nat
  io_got :: "u8 list"
  io_sent :: "u8 list"
  io_closed :: "int list"
  io_out :: "(addr \<times> xreply) list"

definition io_alloc :: "pio \<Rightarrow> (nat \<Rightarrow> u8) option \<times> pio" where
  "io_alloc io = (io_allocs io (io_nallocs io), io\<lparr>io_nallocs := io_nallocs io + 1\<rparr>)"

definition io_close :: "int \<Rightarrow> pio \<Rightarrow> pio" where
  "io_close fd io = io\<lparr>io_closed := io_closed io @ [fd]\<rparr>"

definition respond :: "addr \<Rightarrow> xreply \<Rightarrow> pio \<Rightarrow> pio" where
  "respond req rc io = io\<lparr>io_out := io_out io @ [(req, rc)]\<rparr>"

text \<open>
  \<^verbatim>\<open>spfd_read\<close> and \<^verbatim>\<open>spfd_write\<close>; the kernel takes and gives no more than it is asked to.
\<close>

definition spfd_read :: "Spfd \<Rightarrow> int \<Rightarrow> pio \<Rightarrow> int \<times> u8 list \<times> Spfd \<times> pio" where
  "spfd_read s buflen io =
     (let s = s\<lparr>sf_readable := False\<rparr> in
      if buflen = 0 then (0, [], s, io)
      else
        (let r = io_reads io (io_nreads io); io = io\<lparr>io_nreads := io_nreads io + 1\<rparr> in
         case r of
           None \<Rightarrow> (- 1, [], s, io)
         | Some bytes \<Rightarrow>
             (let got = take (nat buflen) bytes
              in (int (length got), got, s, io\<lparr>io_got := io_got io @ got\<rparr>))))"

definition spfd_write :: "Spfd \<Rightarrow> u8 list \<Rightarrow> pio \<Rightarrow> int \<times> Spfd \<times> pio" where
  "spfd_write s data io =
     (let s = s\<lparr>sf_writable := False\<rparr> in
      if data = [] then (0, s, io)
      else
        (let r = io_writes io (io_nwrites io); io = io\<lparr>io_nwrites := io_nwrites io + 1\<rparr>;
             n = min r (int (length data))
         in (n, s, io\<lparr>io_sent := io_sent io @ take (nat n) data\<rparr>)))"

section \<open>Reading\<close>

text \<open>
  The inner loop of \<^verbatim>\<open>pip_read_buf\<close>, over the requests of one fid: \<open>kept\<close> are the
  requests behind which \<^verbatim>\<open>ppreq\<close> points.
\<close>

fun pip_read_group ::
  "Xfilepipe \<Rightarrow> u32 \<Rightarrow> int \<Rightarrow> Xpipereq list \<Rightarrow> Xpipereq list \<Rightarrow> pio \<Rightarrow>
     (int \<times> Xpipereq list \<times> Xpipereq list \<times> pio) option"
where
  "pip_read_group p fid n kept [] io = Some (n, kept, [], io)"
| "pip_read_group p fid n kept (r # rs) io =
     (if pr_fid r \<noteq> fid then Some (n, kept, r # rs, io)
      else if n \<le> xp_buflen p \<or> xp_lspfd p = None then
        (let m = (if n < xp_buflen p then xp_buflen p - n else 0);
             m = (if pr_count r < word_of_int m then sint (pr_count r) else m)
         in if int (length (xp_buf p)) < n + m then None
            else pip_read_group p fid (n + m) kept rs
              (respond (pr_req r) (RRead (take (nat m) (drop (nat n) (xp_buf p)))) io))
      else pip_read_group p fid n (kept @ [r]) rs io)"

lemma pip_read_group_rest:
  "pip_read_group p fid n kept rs io = Some (n', kept', rest, io') \<Longrightarrow> length rest \<le> length rs"
  by (induction rs arbitrary: n kept io) (fastforce simp: Let_def split: if_splits)+

lemma pip_read_group_less:
  "pip_read_group p (pr_fid r) n kept (r # rs) io = Some (n', kept', rest, io') \<Longrightarrow> length rest < Suc (length rs)"
  by (auto simp: Let_def less_Suc_eq_le dest: pip_read_group_rest split: if_splits)

function pip_read_groups ::
  "Xfilepipe \<Rightarrow> int \<Rightarrow> Xpipereq list \<Rightarrow> Xpipereq list \<Rightarrow> pio \<Rightarrow> (int \<times> Xpipereq list \<times> pio) option"
where
  "pip_read_groups p len kept [] io = Some (len, kept, io)"
| "pip_read_groups p len kept (r # rs) io =
     (case pip_read_group p (pr_fid r) 0 kept (r # rs) io of
        None \<Rightarrow> None
      | Some (n, kept, rest, io) \<Rightarrow> pip_read_groups p (if len > n then n else len) kept rest io)"
  by pat_completeness auto
termination
  by (relation "measure (\<lambda>(p, len, kept, rs, io). length rs)") (auto simp del: pip_read_group.simps dest: pip_read_group_less)

declare pip_read_groups.simps [simp del]

definition pip_read_buf :: "Xfilepipe \<Rightarrow> pio \<Rightarrow> (Xfilepipe \<times> pio) option" where
  "pip_read_buf p io =
     (if xp_reqs p = [] then Some (p, io)
      else do {
        (len, reqs, io) \<leftarrow> pip_read_groups p (xp_buflen p) [] (xp_reqs p) io;
        buf \<leftarrow> (if len \<noteq> xp_buflen p then memmove (xp_buf p) 0 (xp_buf p) len (xp_buflen p - len) else Some (xp_buf p));
        Some (p\<lparr>xp_reqs := reqs, xp_buf := buf, xp_buflen := xp_buflen p - len\<rparr>, io)
      })"

text \<open>Reading into the buffer behind its contents, which for a pipe that is written may seem to fill
  more than the buffer.\<close>

definition pip_fill :: "Xfilepipe \<Rightarrow> pio \<Rightarrow> (int \<times> Xfilepipe \<times> pio) option" where
  "pip_fill p io = do {
     s \<leftarrow> xp_lspfd p;
     if int (length (xp_buf p)) < xp_bufsize p then None
     else
       (let (n, got, s, io) = spfd_read s (xp_bufsize p - xp_buflen p) io;
            l = nat (xp_buflen p)
        in if xp_bufsize p < xp_buflen p \<and> n \<ge> 0 then None
           else Some (n, p\<lparr>xp_lspfd := Some s, xp_buf := take l (xp_buf p) @ got @ drop (l + length got) (xp_buf p)\<rparr>, io))
   }"

text \<open>All that is left; the buffer grows by 32 bytes at a time, and past the range of \<^verbatim>\<open>int\<close>
  is a fault.\<close>

partial_function (option) pip_read_eof :: "Xfilepipe \<Rightarrow> pio \<Rightarrow> (Xfilepipe \<times> pio) option" where
  "pip_read_eof p io =
     (if xp_bufsize p \<ge> 2147483616 then None
      else case (if xp_buflen p + 32 > xp_bufsize p
        then (let (m, io) = io_alloc io in
          (map_option (\<lambda>junk. p\<lparr>xp_buf := xp_buf p @ map junk [0..<32], xp_bufsize := xp_bufsize p + 32\<rparr>) m, io))
        else (Some p, io)) of
        (None, io) \<Rightarrow> Some (p, io)
      | (Some p, io) \<Rightarrow> do {
          (n, p, io) \<leftarrow> pip_fill p io;
          if n \<le> 0 then Some (p, io)
          else pip_read_eof (p\<lparr>xp_buflen := xp_buflen p + n\<rparr>) io
        })"

definition pip_read :: "Xfilepipe \<Rightarrow> pio \<Rightarrow> (Xfilepipe \<times> pio) option" where
  "pip_read p io = do {
     s \<leftarrow> xp_lspfd p;
     if sf_error s then do {
       (p, io) \<leftarrow> pip_read_eof p io;
       pip_read_buf p io
     }
     else if xp_direction p \<noteq> PRead then Some (p, io)
     else do {
       (p, io) \<leftarrow> (if xp_buflen p < xp_bufsize p then do {
           (n, p, io) \<leftarrow> pip_fill p io;
           Some (if n > 0 then p\<lparr>xp_buflen := xp_buflen p + n\<rparr> else p, io)
         }
         else Some (p, io));
       pip_read_buf p io
     }
   }"

section \<open>Writing\<close>

text \<open>\<open>xp_buflen\<close> counts the bytes of the first request that are written. The data of a
  request has \<^verbatim>\<open>count\<close> bytes; an offset behind it is a fault.\<close>

definition pip_write :: "Xfilepipe \<Rightarrow> pio \<Rightarrow> (Xfilepipe \<times> pio) option" where
  "pip_write p io =
     (case xp_reqs p of
        [] \<Rightarrow> Some (p, io)
      | preq # rest \<Rightarrow>
          if xp_direction p \<noteq> PWrite then Some (p, io)
          else do {
            s \<leftarrow> xp_lspfd p;
            if xp_buflen p < 0 \<or> int (length (pr_data preq)) < sint (pr_count preq) \<or> sint (pr_count preq) < xp_buflen p then None
            else
              (let (n, s, io) = spfd_write s (drop (nat (xp_buflen p)) (take (unat (pr_count preq)) (pr_data preq))) io;
                   p = p\<lparr>xp_lspfd := Some s\<rparr>
               in if n \<le> 0 then Some (p, io)
                  else
                    (let p = p\<lparr>xp_buflen := xp_buflen p + n\<rparr> in
                     if word_of_int (xp_buflen p) = pr_count preq
                     then Some (p\<lparr>xp_reqs := rest, xp_buflen := 0\<rparr>,
                       respond (pr_req preq) (RWrite (word_of_int (xp_buflen p))) io)
                     else Some (p, io)))
          })"

section \<open>The end of a pipe\<close>

fun answer_writes :: "int \<Rightarrow> Xpipereq list \<Rightarrow> pio \<Rightarrow> int \<times> pio" where
  "answer_writes n [] io = (n, io)"
| "answer_writes n (r # rs) io = answer_writes 0 rs (respond (pr_req r) (RWrite (word_of_int n)) io)"

definition EPIPE :: int where "EPIPE = 32"

definition pip_disconnect :: "Xfilepipe \<Rightarrow> pio \<Rightarrow> (Xfilepipe \<times> pio) option" where
  "pip_disconnect p io =
     (let p = p\<lparr>xp_lspfd := None, xp_err := EPIPE\<rparr> in
      case xp_direction p of
        PRead \<Rightarrow> pip_read_buf p io
      | PWrite \<Rightarrow> (let (n, io) = answer_writes (xp_buflen p) (xp_reqs p) io in Some (p\<lparr>xp_reqs := [], xp_buflen := n\<rparr>, io)))"

definition pip_notify :: "Xfilepipe \<Rightarrow> pio \<Rightarrow> (Xfilepipe \<times> pio) option" where
  "pip_notify p io = do {
     s \<leftarrow> xp_lspfd p;
     (p, io) \<leftarrow> (if xp_buflen p > 0 \<or> xp_direction p = PRead \<and> sf_readable s then pip_read p io else Some (p, io));
     s \<leftarrow> xp_lspfd p;
     (p, io) \<leftarrow> (if sf_writable s then pip_write p io else Some (p, io));
     s \<leftarrow> xp_lspfd p;
     if sf_error s then do {
       (p, io) \<leftarrow> pip_read_eof p io;
       pip_disconnect p io
     }
     else Some (p, io)
   }"

section \<open>Requests\<close>

text \<open>The place of a request is behind those of the same and of smaller fids.\<close>

fun pip_insert :: "Xpipereq \<Rightarrow> Xpipereq list \<Rightarrow> Xpipereq list" where
  "pip_insert r [] = [r]"
| "pip_insert r (q # qs) = (if pr_fid q > pr_fid r then r # q # qs else q # pip_insert r qs)"

text \<open>The result is false for 0; with \<^verbatim>\<open>EPIPE\<close> the request stays in the list.\<close>

definition pip_addreq :: "Xpipereq \<Rightarrow> Xfilepipe \<Rightarrow> pio \<Rightarrow> (bool \<times> Xfilepipe \<times> pio) option" where
  "pip_addreq r p io =
     (case io_alloc io of
        (None, io) \<Rightarrow> Some (False, p, io)
      | (Some _, io) \<Rightarrow>
          (let p = p\<lparr>xp_reqs := pip_insert r (xp_reqs p)\<rparr> in
           if xp_lspfd p \<noteq> None then map_option (Pair True) (pip_notify p io)
           else case xp_direction p of
             PRead \<Rightarrow>
               if xp_buflen p = 0 then Some (True, p, respond (pr_req r) (RRead []) io)
               else map_option (Pair True) (pip_read_buf p io)
           | PWrite \<Rightarrow> Some (False, p, io)))"

fun pip_flushreq_list :: "addr \<Rightarrow> Xpipereq list \<Rightarrow> bool \<times> Xpipereq list" where
  "pip_flushreq_list req [] = (False, [])"
| "pip_flushreq_list req (q # qs) =
     (if pr_req q = req then (True, qs) else (let (found, qs) = pip_flushreq_list req qs in (found, q # qs)))"

definition pip_flushreq :: "addr \<Rightarrow> Xfilepipe \<Rightarrow> bool \<times> Xfilepipe" where
  "pip_flushreq req p = (let (found, qs) = pip_flushreq_list req (xp_reqs p) in (found, p\<lparr>xp_reqs := qs\<rparr>))"

definition pip_close_remote :: "Xfilepipe \<Rightarrow> pio \<Rightarrow> Xfilepipe \<times> pio" where
  "pip_close_remote p io = (p\<lparr>xp_rfd := - 1\<rparr>, if xp_rfd p \<ge> 0 then io_close (xp_rfd p) io else io)"

definition pip_close_local :: "Xfilepipe \<Rightarrow> pio \<Rightarrow> Xfilepipe \<times> pio" where
  "pip_close_local p io = (p\<lparr>xp_lfd := - 1\<rparr>, if xp_lfd p \<ge> 0 then io_close (xp_lfd p) io else io)"

text \<open>
  \<^verbatim>\<open>pip_create\<close>: \<open>fds\<close> is the outcome of \<^verbatim>\<open>pipe\<close>; \<^verbatim>\<open>spfd_add\<close> fails without memory.
  \<^verbatim>\<open>pip_destroy\<close> frees the pipe with the requests that wait in it.
\<close>

definition pip_create :: "pdir \<Rightarrow> (int \<times> int) option \<Rightarrow> pio \<Rightarrow> Xfilepipe option \<times> pio" where
  "pip_create direction fds io =
     (case io_alloc io of
        (None, io) \<Rightarrow> (None, io)
      | (Some _, io) \<Rightarrow>
          (case io_alloc io of
             (None, io) \<Rightarrow> (None, io)
           | (Some junk, io) \<Rightarrow>
               (case fds of
                  None \<Rightarrow> (None, io)
                | Some (r, w) \<Rightarrow>
                    (let (m, io) = io_alloc io in
                     (Some \<lparr>xp_err = 0, xp_lfd = (if direction = PRead then r else w),
                        xp_rfd = (if direction = PRead then w else r), xp_direction = direction,
                        xp_lspfd = map_option (\<lambda>_. \<lparr>sf_readable = False, sf_writable = False, sf_error = False\<rparr>) m,
                        xp_buf = map junk [0..<256], xp_buflen = 0, xp_bufsize = 256, xp_reqs = []\<rparr>, io)))))"

definition pip_destroy :: "Xfilepipe \<Rightarrow> pio \<Rightarrow> pio" where
  "pip_destroy p io =
     (let io = (if xp_lfd p \<ge> 0 then io_close (xp_lfd p) io else io)
      in if xp_rfd p \<ge> 0 then io_close (xp_rfd p) io else io)"


section \<open>Sharing the buffer\<close>

definition content :: "Xfilepipe \<Rightarrow> u8 list" where
  "content p = take (nat (xp_buflen p)) (xp_buf p)"

definition pipe_ok :: "Xfilepipe \<Rightarrow> bool" where
  "pipe_ok p \<longleftrightarrow> 0 \<le> xp_buflen p \<and> xp_buflen p \<le> xp_bufsize p \<and> xp_bufsize p = int (length (xp_buf p)) \<and>
     xp_bufsize p < 2147483648"

lemma length_content: "pipe_ok p \<Longrightarrow> int (length (content p)) = xp_buflen p"
  by (auto simp: pipe_ok_def content_def min_def)

lemma take_content: "pipe_ok p \<Longrightarrow> n + m \<le> length (content p) \<Longrightarrow> take m (drop n (content p)) = take m (drop n (xp_buf p))"
proof -
  assume "n + m \<le> length (content p)"
  then have "m \<le> nat (xp_buflen p) - n" by (simp add: content_def) linarith
  then show ?thesis by (simp add: content_def drop_take min_absorb1)
qed

fun chunks :: "u8 list \<Rightarrow> nat list \<Rightarrow> u8 list list" where
  "chunks d [] = []"
| "chunks d (c # cs) = take c d # chunks (drop c d) cs"

definition wants :: "Xpipereq list \<Rightarrow> nat list" where
  "wants rs = map (\<lambda>r. unat (pr_count r)) rs"

text \<open>The requests of one fid are answered with consecutive pieces of the data.\<close>

definition answers :: "u8 list \<Rightarrow> Xpipereq list \<Rightarrow> (addr \<times> xreply) list" where
  "answers d rs = zip (map pr_req rs) (map RRead (chunks d (wants rs)))"

lemma answers_simps [simp]:
  "answers d [] = []" "answers d (r # rs) = (pr_req r, RRead (take (unat (pr_count r)) d)) # answers (drop (unat (pr_count r)) d) rs"
  "wants [] = []" "wants (r # rs) = unat (pr_count r) # wants rs"
  by (simp_all add: answers_def wants_def)

lemma want_word:
  assumes "l < 2147483648"
  shows "(if c < word_of_int (int l) then sint c else int l) = int (min (unat (c :: u32)) l)"
proof (cases "unat c < l")
  case True
  then have "c < word_of_int (int l)" using assms by (simp add: word_less_nat_alt)
  moreover have "sint (word_of_nat (unat c) :: u32) = int (unat c)" using True assms by (intro sint_of_nat_u32) simp
  ultimately show ?thesis using True by simp
next
  case False
  then show ?thesis using assms by (simp add: word_less_nat_alt)
qed

lemma respond_out: "respond a rc (io\<lparr>io_out := out\<rparr>) = io\<lparr>io_out := out @ [(a, rc)]\<rparr>"
  by (simp add: respond_def)

lemma pip_read_group_at:
  assumes ok: "pipe_ok p" and rest: "rest = [] \<or> pr_fid (hd rest) \<noteq> fid"
  shows "\<forall>r\<in>set g. pr_fid r = fid \<Longrightarrow> n \<le> length (content p) \<Longrightarrow>
    pip_read_group p fid (int n) kept (g @ rest) (io\<lparr>io_out := out\<rparr>) =
      Some (int (min (n + sum_list (wants g)) (length (content p))), kept, rest,
        io\<lparr>io_out := out @ answers (drop n (content p)) g\<rparr>)"
proof (induction g arbitrary: n out)
  case Nil
  then show ?case using rest by (cases rest) simp_all
next
  case (Cons r g)
  let ?c = "unat (pr_count r)" and ?L = "length (content p)"
  define m where "m = min ?c (?L - n)"
  have L: "int ?L = xp_buflen p" using length_content [OF ok] .
  have le: "int ?L \<le> int (length (xp_buf p))" "?L < 2147483648" using ok L by (auto simp: pipe_ok_def)
  have m1: "(if int n < xp_buflen p then xp_buflen p - int n else 0) = int (?L - n)"
    using L Cons.prems(2) by (auto simp: of_nat_diff)
  have m2: "(if pr_count r < word_of_int (int (?L - n)) then sint (pr_count r) else int (?L - n)) = int m"
    unfolding m_def using le(2) by (intro want_word) simp
  have nm: "n + m \<le> ?L" using Cons.prems(2) by (simp add: m_def)
  have data: "take m (drop n (xp_buf p)) = take ?c (drop n (content p))"
    using take_content [OF ok nm] Cons.prems(2) by (simp add: m_def min_def not_le split: if_splits)
  have rest': "drop (n + m) (content p) = drop ?c (drop n (content p))"
    using Cons.prems(2) by (cases "?c \<le> ?L - n") (simp_all add: m_def add.commute)
  have mn: "min (n + m + sum_list (wants g)) ?L = min (n + sum_list (wants (r # g))) ?L"
    using Cons.prems(2) by (auto simp: m_def min_def)
  have ih: "pip_read_group p fid (int (n + m)) kept (g @ rest) (io\<lparr>io_out := out @ [(pr_req r, RRead (take m (drop n (xp_buf p))))]\<rparr>) =
      Some (int (min (n + m + sum_list (wants g)) ?L), kept, rest,
        io\<lparr>io_out := (out @ [(pr_req r, RRead (take m (drop n (xp_buf p))))]) @ answers (drop (n + m) (content p)) g\<rparr>)"
    using Cons.prems(1) nm by (intro Cons.IH) simp_all
  have step: "pip_read_group p fid (int n) kept ((r # g) @ rest) (io\<lparr>io_out := out\<rparr>) =
      pip_read_group p fid (int (n + m)) kept (g @ rest) (io\<lparr>io_out := out @ [(pr_req r, RRead (take m (drop n (xp_buf p))))]\<rparr>)"
  proof -
    have c: "pr_fid r = fid" "int n \<le> xp_buflen p \<or> xp_lspfd p = None" "\<not> int (length (xp_buf p)) < int (n + m)"
      "int n + int m = int (n + m)" "nat (int k) = k" for k
      using Cons.prems L le(1) nm by simp_all
    show ?thesis
      by (simp only: append_Cons pip_read_group.simps Let_def m1 m2 c if_False if_True respond_out simp_thms)
  qed
  show ?case unfolding step ih mn by (simp add: data rest')
qed


text \<open>The runs of requests with the same fid.\<close>

function fid_groups :: "Xpipereq list \<Rightarrow> Xpipereq list list" where
  "fid_groups [] = []"
| "fid_groups (r # rs) =
     (r # takeWhile (\<lambda>q. pr_fid q = pr_fid r) rs) # fid_groups (dropWhile (\<lambda>q. pr_fid q = pr_fid r) rs)"
  by pat_completeness auto
termination by (relation "measure length") (auto simp: less_Suc_eq_le length_dropWhile_le)

lemma concat_fid_groups: "concat (fid_groups rs) = rs"
  by (induction rs rule: fid_groups.induct) auto

definition consumed :: "u8 list \<Rightarrow> Xpipereq list \<Rightarrow> nat" where
  "consumed d rs = min (sum_list (wants rs)) (length d)"

lemma pip_read_groups_at:
  assumes ok: "pipe_ok p"
  shows "pip_read_groups p (int len) kept rs (io\<lparr>io_out := out\<rparr>) =
    Some (int (fold min (map (consumed (content p)) (fid_groups rs)) len), kept,
      io\<lparr>io_out := out @ concat (map (answers (content p)) (fid_groups rs))\<rparr>)"
proof (induction rs arbitrary: len out rule: fid_groups.induct)
  case 1
  then show ?case by (simp add: pip_read_groups.simps)
next
  case (2 r rs)
  let ?g = "r # takeWhile (\<lambda>q. pr_fid q = pr_fid r) rs" and ?rest = "dropWhile (\<lambda>q. pr_fid q = pr_fid r) rs"
  have rs: "r # rs = ?g @ ?rest" by simp
  have rest: "?rest = [] \<or> pr_fid (hd ?rest) \<noteq> pr_fid r" using hd_dropWhile [of "\<lambda>q. pr_fid q = pr_fid r" rs] by auto
  have g: "\<forall>q\<in>set ?g. pr_fid q = pr_fid r" by (auto dest: set_takeWhileD)
  have group: "pip_read_group p (pr_fid r) 0 kept (r # rs) (io\<lparr>io_out := out\<rparr>) =
      Some (int (consumed (content p) ?g), kept, ?rest, io\<lparr>io_out := out @ answers (content p) ?g\<rparr>)"
    using pip_read_group_at [OF ok rest g, where n = 0 and kept = kept and io = io and out = out] unfolding rs [symmetric] by (simp only: consumed_def) simp
  have mn: "(if int len > int (consumed (content p) ?g) then int (consumed (content p) ?g) else int len) =
      int (min (consumed (content p) ?g) len)" by simp
  show ?case unfolding pip_read_groups.simps group option.case prod.case mn 2 by simp
qed

lemma fold_min_le: "fold min xs (n::nat) \<le> n"
proof (induction xs arbitrary: n)
  case (Cons x xs)
  have "fold min xs (min x n) \<le> min x n" by (rule Cons.IH)
  then show ?case by simp
qed simp

lemma pip_read_buf_at:
  assumes ok: "pipe_ok p"
  defines "k \<equiv> (if xp_reqs p = [] then 0 else fold min (map (consumed (content p)) (fid_groups (xp_reqs p))) (length (content p)))"
  shows "\<exists>p'. pip_read_buf p io = Some (p', io\<lparr>io_out := io_out io @ concat (map (answers (content p)) (fid_groups (xp_reqs p)))\<rparr>) \<and>
    pipe_ok p' \<and> content p' = drop k (content p) \<and> xp_reqs p' = [] \<and> xp_lspfd p' = xp_lspfd p \<and>
    xp_direction p' = xp_direction p \<and> xp_bufsize p' = xp_bufsize p"
proof (cases "xp_reqs p = []")
  case True
  then show ?thesis using ok by (simp add: pip_read_buf_def k_def)
next
  case False
  have L: "xp_buflen p = int (length (content p))" using length_content [OF ok] by simp
  have k: "k = fold min (map (consumed (content p)) (fid_groups (xp_reqs p))) (length (content p))" using False by (simp add: k_def)
  have kL: "k \<le> length (content p)" unfolding k by (rule fold_min_le)
  let ?io = "io\<lparr>io_out := io_out io @ concat (map (answers (content p)) (fid_groups (xp_reqs p)))\<rparr>"
  have run: "pip_read_groups p (xp_buflen p) [] (xp_reqs p) io = Some (int k, [], ?io)"
    using pip_read_groups_at [OF ok, where len = "length (content p)" and kept = "[]" and rs = "xp_reqs p" and io = io and out = "io_out io"] unfolding L k by simp
  define l where "l = length (content p)"
  have le: "l \<le> length (xp_buf p)" by (simp add: l_def content_def)
  obtain buf where buf: "(if int k \<noteq> xp_buflen p then memmove (xp_buf p) 0 (xp_buf p) (int k) (xp_buflen p - int k) else Some (xp_buf p)) = Some buf"
    "take (l - k) buf = drop k (content p)" "length buf = length (xp_buf p)"
  proof (cases "k = l")
    case True
    then show ?thesis using that [of "xp_buf p"] L by (simp add: l_def)
  next
    case False
    have c: "content p = take l (xp_buf p)" using L by (simp add: content_def l_def)
    have "memmove (xp_buf p) 0 (xp_buf p) (int k) (int (l - k)) =
        Some (take (l - k) (drop k (xp_buf p)) @ drop (l - k) (xp_buf p))"
      using kL le by (simp add: memmove_def l_def nat_diff_distrib of_nat_diff)
    then show ?thesis using that False kL le L
      by (simp add: l_def [symmetric] of_nat_diff c drop_take)
  qed
  define p' where "p' = p\<lparr>xp_reqs := [], xp_buf := buf, xp_buflen := xp_buflen p - int k\<rparr>"
  have "pip_read_buf p io = Some (p', ?io)"
    unfolding pip_read_buf_def if_not_P [OF False] run bind.bind_lunit prod.case buf(1) p'_def by simp
  moreover have "nat (xp_buflen p - int k) = l - k" using L kL by (simp add: l_def nat_diff_distrib)
  then have "content p' = drop k (content p)" using buf(2) unfolding content_def [of p'] by (simp add: p'_def)
  moreover have "pipe_ok p'" using ok kL L buf(3) by (simp add: pipe_ok_def p'_def)
  ultimately show ?thesis by (intro exI [of _ p'] conjI) (simp_all add: p'_def)
qed




section \<open>One reader\<close>

fun reply_bytes :: "xreply \<Rightarrow> u8 list" where
  "reply_bytes (RRead d) = d"
| "reply_bytes (RWrite n) = []"

definition delivered :: "pio \<Rightarrow> u8 list" where
  "delivered io = concat (map (\<lambda>(_, rc). reply_bytes rc) (io_out io))"

text \<open>
  From the \<open>k\<close>-th on the reads find nothing, and allocations succeed; \<open>feed k io\<close> counts the bytes the
  reads before may still bring.
\<close>

definition feed :: "nat \<Rightarrow> pio \<Rightarrow> nat" where
  "feed k io = sum_list (map (\<lambda>i. length (case io_reads io i of None \<Rightarrow> [] | Some d \<Rightarrow> d)) [io_nreads io..<k])"

definition os_ok :: "nat \<Rightarrow> pio \<Rightarrow> bool" where
  "os_ok k io \<longleftrightarrow> (\<forall>i\<ge>k. io_reads io i = None \<or> io_reads io i = Some []) \<and> (\<forall>i. io_allocs io i \<noteq> None) \<and>
     length (io_got io) + feed k io < 1073741824"

definition fifo_inv :: "u32 \<Rightarrow> nat \<Rightarrow> Xfilepipe \<Rightarrow> pio \<Rightarrow> bool" where
  "fifo_inv fid k p io \<longleftrightarrow> pipe_ok p \<and> xp_direction p = PRead \<and> (\<forall>r\<in>set (xp_reqs p). pr_fid r = fid) \<and>
     delivered io @ content p = io_got io \<and> xp_bufsize p \<le> int (length (io_got io)) + 320 \<and> os_ok k io"

lemma feed_read:
  assumes "os_ok k io" "io_reads io (io_nreads io) = Some d"
  shows "length d + feed k (io\<lparr>io_nreads := Suc (io_nreads io)\<rparr>) \<le> feed k io"
proof (cases "io_nreads io < k")
  case True
  then show ?thesis using assms by (simp add: feed_def upt_conv_Cons)
next
  case False
  then have "io_reads io (io_nreads io) = None \<or> io_reads io (io_nreads io) = Some []"
    using assms(1) unfolding os_ok_def by (meson not_less)
  then have "d = []" using assms(2) by simp
  then show ?thesis using False by (simp add: feed_def)
qed

lemma feed_skip: "feed k (io\<lparr>io_nreads := Suc (io_nreads io)\<rparr>) \<le> feed k io"
proof (cases "io_nreads io < k")
  case True
  then show ?thesis by (simp add: feed_def upt_conv_Cons)
next
  case False
  then show ?thesis by (simp add: feed_def)
qed

lemma feed_same [simp]: "feed k (io\<lparr>io_got := g\<rparr>) = feed k io" "feed k (io\<lparr>io_out := out\<rparr>) = feed k io"
  "feed k (io\<lparr>io_nallocs := n\<rparr>) = feed k io"
  by (simp_all add: feed_def)

lemma pip_fill_at:
  assumes "pipe_ok p" "xp_lspfd p = Some s" "os_ok k io"
  shows "\<exists>n p' io' got. pip_fill p io = Some (n, p', io') \<and> xp_lspfd p' = Some (s\<lparr>sf_readable := False\<rparr>) \<and>
    (let q = if n > 0 then p'\<lparr>xp_buflen := xp_buflen p' + n\<rparr> else p' in
     pipe_ok q \<and> content q = content p @ got \<and> xp_reqs q = xp_reqs p \<and> xp_direction q = xp_direction p \<and>
     xp_bufsize q = xp_bufsize p) \<and>
    io_got io' = io_got io @ got \<and> io_out io' = io_out io \<and> os_ok k io' \<and>
    (xp_buflen p < xp_bufsize p \<longrightarrow> io_nreads io' = Suc (io_nreads io)) \<and> (n > 0 \<longrightarrow> io_nreads io < k)"
proof -
  let ?l = "nat (xp_buflen p)" and ?s = "s\<lparr>sf_readable := False\<rparr>"
  have ok: "0 \<le> xp_buflen p" "xp_buflen p \<le> xp_bufsize p" "xp_bufsize p = int (length (xp_buf p))" "xp_bufsize p < 2147483648"
    using assms(1) by (auto simp: pipe_ok_def)
  define room where "room = nat (xp_bufsize p - xp_buflen p)"
  obtain n got io' where rd: "spfd_read ?s (xp_bufsize p - xp_buflen p) io = (n, got, ?s, io')"
    "spfd_read s (xp_bufsize p - xp_buflen p) io = (n, got, ?s, io')"
    "n = - 1 \<and> got = [] \<or> n = int (length got)" "length got \<le> room" "io_got io' = io_got io @ got"
    "io_out io' = io_out io" "os_ok k io'" "xp_buflen p < xp_bufsize p \<longrightarrow> io_nreads io' = Suc (io_nreads io)"
    "n > 0 \<longrightarrow> io_nreads io < k"
  proof -
    let ?io = "io\<lparr>io_nreads := Suc (io_nreads io)\<rparr>"
    show ?thesis
    proof (cases "xp_bufsize p = xp_buflen p")
      case True
      then show ?thesis using that [of 0 "[]" io] assms(3) by (simp add: spfd_read_def)
    next
      case False
      show ?thesis
      proof (cases "io_reads io (io_nreads io)")
        case None
        have "os_ok k ?io" using assms(3) feed_skip [of k io] by (auto simp: os_ok_def)
        then show ?thesis using that [of "- 1" "[]" ?io] False None by (simp add: spfd_read_def Let_def)
      next
        case (Some d)
        let ?got = "take room d"
        have f: "length d + feed k ?io \<le> feed k io" by (rule feed_read [OF assms(3) Some])
        have "os_ok k (?io\<lparr>io_got := io_got io @ ?got\<rparr>)" using assms(3) f by (auto simp: os_ok_def)
        moreover have "io_nreads io < k" if "0 < length ?got"
        proof (rule ccontr)
          assume "\<not> io_nreads io < k"
          then have "d = []" using assms(3) Some by (auto simp: os_ok_def not_less)
          then show False using that by simp
        qed
        ultimately show ?thesis using that [of "int (length ?got)" ?got "?io\<lparr>io_got := io_got io @ ?got\<rparr>"] False Some
          by (simp add: spfd_read_def Let_def room_def)
      qed
    qed
  qed
  define p' where "p' = p\<lparr>xp_lspfd := Some ?s, xp_buf := take ?l (xp_buf p) @ got @ drop (?l + length got) (xp_buf p)\<rparr>"
  have len: "?l + length got \<le> length (xp_buf p)" using rd(4) ok by (simp add: room_def)
  have run: "pip_fill p io = Some (n, p', io')"
    using assms(2) ok rd(2) by (simp add: pip_fill_def Let_def p'_def)
  let ?q = "if n > 0 then p'\<lparr>xp_buflen := xp_buflen p' + n\<rparr> else p'"
  have gn: "n > 0 \<or> got = []" "n > 0 \<Longrightarrow> n = int (length got)" using rd(3) by auto
  have "pipe_ok ?q" using ok len gn by (auto simp: pipe_ok_def p'_def)
  moreover have "content ?q = content p @ got"
    using gn len ok by (auto simp: content_def p'_def nat_add_distrib)
  ultimately show ?thesis using run rd(5-9) by (auto simp: p'_def Let_def)
qed


definition fifo_at :: "u32 \<Rightarrow> nat \<Rightarrow> Spfd \<Rightarrow> Xfilepipe \<Rightarrow> pio \<Rightarrow> bool" where
  "fifo_at fid k s p io \<longleftrightarrow> fifo_inv fid k p io \<and>
     (\<exists>r. xp_lspfd p = Some (s\<lparr>sf_readable := r\<rparr>))"

lemma fifo_fill:
  assumes "fifo_at fid k s p io"
  shows "\<exists>n p' io'. pip_fill p io = Some (n, p', io') \<and>
    fifo_at fid k s (if n > 0 then p'\<lparr>xp_buflen := xp_buflen p' + n\<rparr> else p') io' \<and>
    (xp_buflen p < xp_bufsize p \<longrightarrow> io_nreads io' = Suc (io_nreads io)) \<and> (n > 0 \<longrightarrow> io_nreads io < k)"
proof -
  obtain r where inv: "fifo_inv fid k p io" "xp_lspfd p = Some (s\<lparr>sf_readable := r\<rparr>)" using assms by (auto simp: fifo_at_def)
  obtain n p' io' got where f: "pip_fill p io = Some (n, p', io')" "xp_lspfd p' = Some (s\<lparr>sf_readable := False\<rparr>)"
    "let q = if n > 0 then p'\<lparr>xp_buflen := xp_buflen p' + n\<rparr> else p' in
     pipe_ok q \<and> content q = content p @ got \<and> xp_reqs q = xp_reqs p \<and> xp_direction q = xp_direction p \<and>
     xp_bufsize q = xp_bufsize p"
    "io_got io' = io_got io @ got" "io_out io' = io_out io" "os_ok k io'"
    "xp_buflen p < xp_bufsize p \<longrightarrow> io_nreads io' = Suc (io_nreads io)" "n > 0 \<longrightarrow> io_nreads io < k"
    using pip_fill_at [of p "s\<lparr>sf_readable := r\<rparr>" k io] inv by (auto simp: fifo_inv_def)
  let ?q = "if n > 0 then p'\<lparr>xp_buflen := xp_buflen p' + n\<rparr> else p'"
  have "xp_lspfd ?q = Some (s\<lparr>sf_readable := False\<rparr>)" using f(2) by simp
  moreover have "fifo_inv fid k ?q io'"
    using inv(1) f(3-6) by (simp add: fifo_inv_def Let_def delivered_def)
  ultimately show ?thesis using f(1,7,8) by (auto simp: fifo_at_def)
qed

lemma fifo_eof:
  "fifo_at fid k s p io \<Longrightarrow> \<exists>p' io'. pip_read_eof p io = Some (p', io') \<and> fifo_at fid k s p' io'"
proof (induction "k - io_nreads io" arbitrary: p io rule: less_induct)
  case less
  have inv: "fifo_inv fid k p io" using less.prems by (simp add: fifo_at_def)
  have ok: "pipe_ok p" "os_ok k io" "xp_bufsize p \<le> int (length (io_got io)) + 320" using inv by (auto simp: fifo_inv_def)
  then have small: "xp_bufsize p < 2147483616" by (auto simp: os_ok_def)
  have cg: "xp_buflen p \<le> int (length (io_got io))"
  proof -
    have "io_got io = delivered io @ content p" using inv by (simp add: fifo_inv_def)
    then show ?thesis using length_content [OF ok(1)] by simp
  qed
  obtain p1 io1 where g: "(if xp_buflen p + 32 > xp_bufsize p
        then (let (m, io) = io_alloc io in
          (map_option (\<lambda>junk. p\<lparr>xp_buf := xp_buf p @ map junk [0..<32], xp_bufsize := xp_bufsize p + 32\<rparr>) m, io))
        else (Some p, io)) = (Some p1, io1)" "fifo_at fid k s p1 io1" "io_nreads io1 = io_nreads io" "xp_buflen p1 < xp_bufsize p1"
  proof (cases "xp_buflen p + 32 > xp_bufsize p")
    case True
    obtain junk where j: "io_allocs io (io_nallocs io) = Some junk" using ok(2) by (fastforce simp: os_ok_def)
    let ?p = "p\<lparr>xp_buf := xp_buf p @ map junk [0..<32], xp_bufsize := xp_bufsize p + 32\<rparr>"
    let ?io = "io\<lparr>io_nallocs := io_nallocs io + 1\<rparr>"
    have "content ?p = content p" using ok(1) by (simp add: content_def pipe_ok_def nat_le_iff)
    moreover have "pipe_ok ?p" using ok(1) small by (auto simp: pipe_ok_def)
    moreover have "os_ok k ?io" using ok(2) by (simp add: os_ok_def)
    ultimately have "fifo_inv fid k ?p ?io" using inv True cg
      by (simp add: fifo_inv_def delivered_def)
    then have "fifo_at fid k s ?p ?io" using less.prems by (simp add: fifo_at_def)
    then show ?thesis using that [of ?p ?io] True j ok(1) by (simp add: io_alloc_def pipe_ok_def)
  next
    case False
    then show ?thesis using that [of p io] less.prems by simp
  qed
  obtain n p2 io2 where f: "pip_fill p1 io1 = Some (n, p2, io2)"
    "fifo_at fid k s (if n > 0 then p2\<lparr>xp_buflen := xp_buflen p2 + n\<rparr> else p2) io2"
    "io_nreads io2 = Suc (io_nreads io)" "n > 0 \<longrightarrow> io_nreads io < k"
    using fifo_fill [OF g(2)] g(3,4) by auto
  show ?case
  proof (cases "n > 0")
    case True
    have lt: "k - io_nreads io2 < k - io_nreads io" using f(3,4) True by linarith
    obtain p' io' where "pip_read_eof (p2\<lparr>xp_buflen := xp_buflen p2 + n\<rparr>) io2 = Some (p', io')" "fifo_at fid k s p' io'"
      using less.hyps [OF lt, of "p2\<lparr>xp_buflen := xp_buflen p2 + n\<rparr>"] f(2) True by auto
    then show ?thesis using True small g(1) f(1) by (subst pip_read_eof.simps) simp
  next
    case False
    then show ?thesis using small g(1) f by (subst pip_read_eof.simps) simp
  qed
qed

lemma fid_groups_one:
  "\<forall>r\<in>set rs. pr_fid r = fid \<Longrightarrow> fid_groups rs = (if rs = [] then [] else [rs])"
proof (cases rs)
  case (Cons r rs')
  assume "\<forall>r\<in>set rs. pr_fid r = fid"
  then have tw: "takeWhile (\<lambda>q. pr_fid q = pr_fid r) rs' = rs'" "dropWhile (\<lambda>q. pr_fid q = pr_fid r) rs' = []"
    using Cons by (auto simp: takeWhile_eq_all_conv dropWhile_eq_Nil_conv)
  show ?thesis unfolding Cons fid_groups.simps tw by simp
qed simp

lemma answers_bytes: "concat (map (\<lambda>(_, rc). reply_bytes rc) (answers d rs)) = take (sum_list (wants rs)) d"
  by (induction rs arbitrary: d) (auto simp: take_add)

lemma fifo_read_buf:
  assumes "fifo_inv fid k p io"
  shows "\<exists>p' io'. pip_read_buf p io = Some (p', io') \<and> fifo_inv fid k p' io' \<and> xp_lspfd p' = xp_lspfd p"
proof -
  have inv: "pipe_ok p" "\<forall>r\<in>set (xp_reqs p). pr_fid r = fid" using assms by (auto simp: fifo_inv_def)
  define d where "d = (if xp_reqs p = [] then 0 else min (length (content p)) (sum_list (wants (xp_reqs p))))"
  have "\<exists>p'. pip_read_buf p io = Some (p', io\<lparr>io_out := io_out io @ answers (content p) (xp_reqs p)\<rparr>) \<and>
    pipe_ok p' \<and> content p' = drop d (content p) \<and> xp_reqs p' = [] \<and> xp_lspfd p' = xp_lspfd p \<and>
    xp_direction p' = xp_direction p \<and> xp_bufsize p' = xp_bufsize p"
    using pip_read_buf_at [OF inv(1), of io] by (cases "xp_reqs p = []") (auto simp: fid_groups_one [OF inv(2)] d_def consumed_def min.commute)
  then obtain p' where p': "pip_read_buf p io = Some (p', io\<lparr>io_out := io_out io @ answers (content p) (xp_reqs p)\<rparr>)"
    "pipe_ok p'" "content p' = drop d (content p)" "xp_reqs p' = []" "xp_lspfd p' = xp_lspfd p"
    "xp_direction p' = xp_direction p" "xp_bufsize p' = xp_bufsize p" by blast
  have "take (sum_list (wants (xp_reqs p))) (content p) @ drop d (content p) = content p"
    by (cases "xp_reqs p = []") (auto simp: d_def min_def)
  then have "fifo_inv fid k p' (io\<lparr>io_out := io_out io @ answers (content p) (xp_reqs p)\<rparr>)"
    using assms p' by (simp add: fifo_inv_def delivered_def answers_bytes os_ok_def)
  then show ?thesis using p'(1,5) by blast
qed


lemma fifo_atI: "fifo_inv fid k p io \<Longrightarrow> xp_lspfd p = Some (s\<lparr>sf_readable := r\<rparr>) \<Longrightarrow> fifo_at fid k s p io"
  by (auto simp: fifo_at_def)

lemma fifo_at_buf:
  assumes "fifo_at fid k s p io"
  shows "\<exists>p' io'. pip_read_buf p io = Some (p', io') \<and> fifo_at fid k s p' io'"
proof -
  obtain r where "fifo_inv fid k p io" "xp_lspfd p = Some (s\<lparr>sf_readable := r\<rparr>)" using assms by (auto simp: fifo_at_def)
  then show ?thesis using fifo_read_buf [of fid k p io] fifo_atI by fastforce
qed

lemma fifo_read:
  assumes "fifo_at fid k s p io"
  shows "\<exists>p' io'. pip_read p io = Some (p', io') \<and> fifo_at fid k s p' io'"
proof -
  obtain r where p: "xp_lspfd p = Some (s\<lparr>sf_readable := r\<rparr>)" "xp_direction p = PRead"
    using assms by (auto simp: fifo_at_def fifo_inv_def)
  show ?thesis
  proof (cases "sf_error s")
    case True
    obtain p1 io1 where "pip_read_eof p io = Some (p1, io1)" "fifo_at fid k s p1 io1" using fifo_eof [OF assms] by blast
    then show ?thesis using p True fifo_at_buf [of fid k s p1 io1] by (simp add: pip_read_def)
  next
    case False
    obtain p1 io1 where "(if xp_buflen p < xp_bufsize p then do {
           (n, p, io) \<leftarrow> pip_fill p io;
           Some (if n > 0 then p\<lparr>xp_buflen := xp_buflen p + n\<rparr> else p, io)
         } else Some (p, io)) = Some (p1, io1)" "fifo_at fid k s p1 io1"
      using fifo_fill [OF assms] assms by (cases "xp_buflen p < xp_bufsize p") auto
    then show ?thesis using p False fifo_at_buf [of fid k s p1 io1] by (simp add: pip_read_def)
  qed
qed

lemma fifo_notify:
  assumes "fifo_at fid k s p io"
  shows "\<exists>p' io'. pip_notify p io = Some (p', io') \<and> fifo_inv fid k p' io'"
proof -
  obtain r where p: "xp_lspfd p = Some (s\<lparr>sf_readable := r\<rparr>)" "xp_direction p = PRead"
    using assms by (auto simp: fifo_at_def fifo_inv_def)
  obtain p1 io1 where 1: "(if xp_buflen p > 0 \<or> xp_direction p = PRead \<and> r then pip_read p io else Some (p, io)) = Some (p1, io1)"
    "fifo_at fid k s p1 io1"
    using fifo_read [OF assms] assms by (cases "xp_buflen p > 0 \<or> xp_direction p = PRead \<and> r") auto
  obtain r1 where p1: "xp_lspfd p1 = Some (s\<lparr>sf_readable := r1\<rparr>)" "xp_direction p1 = PRead"
    using 1(2) by (auto simp: fifo_at_def fifo_inv_def)
  have w: "(if sf_writable s then pip_write p1 io1 else Some (p1, io1)) = Some (p1, io1)"
    using p1 by (simp add: pip_write_def split: list.split)
  show ?thesis
  proof (cases "sf_error s")
    case False
    then show ?thesis using p 1 p1 w by (simp add: pip_notify_def fifo_at_def)
  next
    case True
    obtain p2 io2 where 2: "pip_read_eof p1 io1 = Some (p2, io2)" "fifo_at fid k s p2 io2" using fifo_eof [OF 1(2)] by blast
    let ?p = "p2\<lparr>xp_lspfd := None, xp_err := EPIPE\<rparr>"
    have "fifo_inv fid k ?p io2" "xp_direction p2 = PRead"
      using 2(2) by (auto simp: fifo_at_def fifo_inv_def pipe_ok_def content_def)
    then obtain p' io' where "pip_disconnect p2 io2 = Some (p', io')" "fifo_inv fid k p' io'"
      using fifo_read_buf [of fid k ?p io2] by (auto simp: pip_disconnect_def)
    then show ?thesis using p 1 p1 w 2 True by (simp add: pip_notify_def)
  qed
qed

lemma set_pip_insert: "set (pip_insert r qs) = insert r (set qs)"
  by (induction qs) auto

lemma fifo_addreq:
  assumes "fifo_inv fid k p io" "pr_fid r = fid"
  shows "\<exists>p' io'. pip_addreq r p io = Some (True, p', io') \<and> fifo_inv fid k p' io'"
proof -
  let ?p = "p\<lparr>xp_reqs := pip_insert r (xp_reqs p)\<rparr>" and ?io = "io\<lparr>io_nallocs := io_nallocs io + 1\<rparr>"
  obtain junk where j: "io_alloc io = (Some junk, ?io)"
    using assms(1) by (fastforce simp: io_alloc_def fifo_inv_def os_ok_def)
  have inv: "fifo_inv fid k ?p ?io"
    using assms by (auto simp: fifo_inv_def set_pip_insert pipe_ok_def content_def delivered_def os_ok_def)
  show ?thesis
  proof (cases "xp_lspfd p")
    case (Some s)
    have "s\<lparr>sf_readable := sf_readable s\<rparr> = s" by simp
    then have "fifo_at fid k s ?p ?io" using inv Some by (intro fifo_atI [where r = "sf_readable s"]) simp_all
    then show ?thesis using fifo_notify [of fid k s ?p ?io] j Some by (auto simp: pip_addreq_def)
  next
    case None
    have dir: "xp_direction p = PRead" using assms(1) by (simp add: fifo_inv_def)
    show ?thesis
    proof (cases "xp_buflen p = 0")
      case True
      have "fifo_inv fid k ?p (respond (pr_req r) (RRead []) ?io)"
        using inv by (simp add: fifo_inv_def respond_def delivered_def os_ok_def)
      then show ?thesis using j None dir True by (simp add: pip_addreq_def Let_def)
    next
      case False
      then show ?thesis using fifo_read_buf [OF inv] j None dir by (auto simp: pip_addreq_def Let_def)
    qed
  qed
qed

text \<open>Runs of a pipe: requests arrive, and the poll loop reports what it found.\<close>

datatype pipe_event = PAdd Xpipereq | PPoll bool bool bool

fun pipe_step :: "pipe_event \<Rightarrow> Xfilepipe \<Rightarrow> pio \<Rightarrow> (Xfilepipe \<times> pio) option" where
  "pipe_step (PAdd r) p io = map_option snd (pip_addreq r p io)"
| "pipe_step (PPoll rd wr er) p io =
     (case xp_lspfd p of
        None \<Rightarrow> Some (p, io)
      | Some s \<Rightarrow> pip_notify (p\<lparr>xp_lspfd := Some (s\<lparr>sf_readable := sf_readable s \<or> rd, sf_writable := sf_writable s \<or> wr,
          sf_error := sf_error s \<or> er\<rparr>)\<rparr>) io)"

fun pipe_run :: "pipe_event list \<Rightarrow> Xfilepipe \<Rightarrow> pio \<Rightarrow> (Xfilepipe \<times> pio) option" where
  "pipe_run [] p io = Some (p, io)"
| "pipe_run (e # es) p io = do { (p, io) \<leftarrow> pipe_step e p io; pipe_run es p io }"

lemma fifo_step:
  assumes "fifo_inv fid k p io" "\<forall>r. e = PAdd r \<longrightarrow> pr_fid r = fid"
  shows "\<exists>p' io'. pipe_step e p io = Some (p', io') \<and> fifo_inv fid k p' io'"
proof (cases e)
  case (PAdd r)
  then show ?thesis using fifo_addreq [OF assms(1), of r] assms(2) by auto
next
  case (PPoll rd wr er)
  show ?thesis
  proof (cases "xp_lspfd p")
    case None
    then show ?thesis using PPoll assms(1) by simp
  next
    case (Some s)
    let ?s = "s\<lparr>sf_readable := sf_readable s \<or> rd, sf_writable := sf_writable s \<or> wr, sf_error := sf_error s \<or> er\<rparr>"
    have "fifo_inv fid k (p\<lparr>xp_lspfd := Some ?s\<rparr>) io"
      using assms(1) by (simp add: fifo_inv_def pipe_ok_def content_def)
    moreover have "?s\<lparr>sf_readable := sf_readable ?s\<rparr> = ?s" by simp
    ultimately have "fifo_at fid k ?s (p\<lparr>xp_lspfd := Some ?s\<rparr>) io"
      by (intro fifo_atI [where r = "sf_readable ?s"]) simp_all
    then show ?thesis using fifo_notify [of fid k ?s "p\<lparr>xp_lspfd := Some ?s\<rparr>" io] Some PPoll by simp
  qed
qed

text \<open>C21. A pipe with one reader is a queue of bytes: whatever requests of one fid arrive and whatever the
  poll loop reports, in any order, no step faults, and the bytes sent to the reader followed by those in the buffer are
  exactly those read from the process, in order, nothing lost and nothing sent twice. That the
  system has no more than \<open>2\<^sup>3\<^sup>0\<close> bytes and at some point no more bytes is assumed.\<close>

theorem pipe_fifo:
  assumes "fst (pip_create PRead (Some (r, w)) io0) = Some p0" and "snd (pip_create PRead (Some (r, w)) io0) = io"
    and "io_got io0 = []" and "io_out io0 = []" and "os_ok k io0"
    and "\<forall>r. PAdd r \<in> set es \<longrightarrow> pr_fid r = fid"
  shows "\<exists>p io'. pipe_run es p0 io = Some (p, io') \<and> delivered io' @ content p = io_got io'"
proof -
  have "fifo_inv fid k p0 io"
    using assms(1-5) by (auto simp: pip_create_def io_alloc_def fifo_inv_def pipe_ok_def content_def delivered_def os_ok_def
        split: option.splits)
  then have "\<exists>p io'. pipe_run es p0 io = Some (p, io') \<and> fifo_inv fid k p io'"
    using assms(6)
  proof (induction es arbitrary: p0 io)
    case (Cons e es)
    obtain p1 io1 where "pipe_step e p0 io = Some (p1, io1)" "fifo_inv fid k p1 io1"
      using fifo_step [OF Cons.prems(1)] Cons.prems(2) by (metis list.set_intros(1))
    then show ?case using Cons.IH [of p1 io1] Cons.prems(2) by auto
  qed auto
  then show ?thesis by (auto simp: fifo_inv_def)
qed


section \<open>Two writers\<close>

text \<open>\<^verbatim>\<open>pip_addreq\<close> puts a write before one that is partly written when its fid is smaller, and the count of
  bytes written is then taken for the new one: its first bytes are never sent although the answer counts them, and the other is
  sent from its start once more.\<close>

theorem pip_write_interleaves:
  assumes "xp_direction p = PWrite" and "xp_reqs p = a # rest" and "xp_buflen p = int k" and "0 < k"
    and "xp_lspfd p = Some s" and "sf_writable s" and "\<not> sf_error s"
    and "pr_fid b < pr_fid a" and "length (pr_data b) = n" and "pr_count b = word_of_nat n" and "n < 2147483648" and "k < n"
    and "io_allocs io (io_nallocs io) \<noteq> None" and "int n \<le> io_writes io (io_nwrites io)"
  shows "\<exists>p' io'. pip_addreq b p io = Some (True, p', io') \<and> io_sent io' = io_sent io @ drop k (pr_data b) \<and>
    io_out io' = io_out io @ [(pr_req b, RWrite (word_of_nat n))] \<and> xp_reqs p' = a # rest \<and> xp_buflen p' = 0"
proof -
  obtain junk where j: "io_alloc io = (Some junk, io\<lparr>io_nallocs := io_nallocs io + 1\<rparr>)"
    using assms(13) by (auto simp: io_alloc_def)
  have cnt: "sint (pr_count b) = int n" "unat (pr_count b) = n"
    using assms(10,11) by (simp_all add: sint_of_nat_u32)
  have mn: "min (io_writes io (io_nwrites io)) (int (n - k)) = int (n - k)" using assms(12,14) by simp
  have eq: "int k + int (n - k) = int n" using assms(12) by simp
  have ne: "drop k (pr_data b) \<noteq> []" using assms(9,12) by simp
  define p1 where "p1 = p\<lparr>xp_reqs := b # a # rest\<rparr>"
  have p1: "xp_direction p1 = PWrite" "xp_reqs p1 = b # a # rest" "xp_buflen p1 = int k" "xp_lspfd p1 = Some s"
    using assms by (simp_all add: p1_def)
  have rd: "pip_read p1 io' = Some (p1, io')" for io' using p1 assms(7) by (simp add: pip_read_def)
  let ?io = "io\<lparr>io_nallocs := io_nallocs io + 1\<rparr>"
  define p2 where "p2 = p1\<lparr>xp_lspfd := Some (s\<lparr>sf_writable := False\<rparr>), xp_reqs := a # rest, xp_buflen := 0\<rparr>"
  have wr: "pip_write p1 ?io = Some (p2,
      respond (pr_req b) (RWrite (word_of_nat n)) (?io\<lparr>io_nwrites := io_nwrites io + 1, io_sent := io_sent io @ drop k (pr_data b)\<rparr>))"
    using p1 assms(9,10,12) cnt ne mn eq
    by (simp add: pip_write_def spfd_write_def Let_def p2_def)
  have "pip_notify p1 ?io = Some (p2,
      respond (pr_req b) (RWrite (word_of_nat n)) (?io\<lparr>io_nwrites := io_nwrites io + 1, io_sent := io_sent io @ drop k (pr_data b)\<rparr>))"
    using p1 assms(4,6,7) rd wr by (simp add: pip_notify_def p2_def)
  then show ?thesis
    using j assms(2,5,8) p1(4) by (simp add: pip_addreq_def Let_def p1_def [symmetric] respond_def p2_def)
qed

section \<open>Witnesses\<close>

definition sample_pipe :: Xfilepipe where
  "sample_pipe = \<lparr>xp_err = 0, xp_lfd = 3, xp_rfd = 4, xp_direction = PRead,
     xp_lspfd = Some \<lparr>sf_readable = False, sf_writable = False, sf_error = False\<rparr>,
     xp_buf = [1, 2, 3, 4], xp_buflen = 3, xp_bufsize = 4,
     xp_reqs = [\<lparr>pr_fid = 1, pr_req = 10, pr_count = 2, pr_data = []\<rparr>, \<lparr>pr_fid = 1, pr_req = 11, pr_count = 5, pr_data = []\<rparr>,
       \<lparr>pr_fid = 2, pr_req = 12, pr_count = 1, pr_data = []\<rparr>]\<rparr>"

definition sample_pio :: pio where
  "sample_pio = \<lparr>io_reads = (\<lambda>i. if i = 0 then Some [7, 8, 9] else None), io_nreads = 0, io_writes = (\<lambda>_. 100), io_nwrites = 0,
     io_allocs = (\<lambda>_. Some (\<lambda>_. 0)), io_nallocs = 0, io_got = [], io_sent = [], io_closed = [], io_out = []\<rparr>"


lemma pipe_fifo_witness:
  "\<exists>p io'. pipe_run [PAdd \<lparr>pr_fid = 1, pr_req = 10, pr_count = 2, pr_data = []\<rparr>, PPoll True False False]
      (the (fst (pip_create PRead (Some (3, 4)) sample_pio))) (snd (pip_create PRead (Some (3, 4)) sample_pio)) = Some (p, io') \<and>
    delivered io' @ content p = io_got io'"
proof -
  have "\<exists>p0. fst (pip_create PRead (Some (3, 4)) sample_pio) = Some p0"
    by (simp add: pip_create_def io_alloc_def sample_pio_def)
  then obtain p0 where p0: "fst (pip_create PRead (Some (3, 4)) sample_pio) = Some p0" by blast
  have "os_ok 1 sample_pio" "io_got sample_pio = []" "io_out sample_pio = []"
    by (auto simp: os_ok_def sample_pio_def feed_def)
  then show ?thesis
    using pipe_fifo [OF p0 refl, of 1 "[PAdd \<lparr>pr_fid = 1, pr_req = 10, pr_count = 2, pr_data = []\<rparr>, PPoll True False False]" 1] p0
    by simp
qed

lemma pip_write_interleaves_witness:
  "let p = sample_pipe\<lparr>xp_direction := PWrite, xp_buflen := 1, xp_lspfd := Some \<lparr>sf_readable = False, sf_writable = True, sf_error = False\<rparr>,
        xp_reqs := [\<lparr>pr_fid = 5, pr_req = 10, pr_count = 2, pr_data = [21, 22]\<rparr>]\<rparr>;
      b = \<lparr>pr_fid = 3, pr_req = 11, pr_count = 3, pr_data = [31, 32, 33]\<rparr>
   in \<exists>p' io'. pip_addreq b p sample_pio = Some (True, p', io') \<and> io_sent io' = [32, 33] \<and> io_out io' = [(11, RWrite 3)] \<and>
     xp_buflen p' = 0"
  unfolding Let_def
  using pip_write_interleaves [where k = 1 and n = 3 and io = sample_pio and b = "\<lparr>pr_fid = 3, pr_req = 11, pr_count = 3, pr_data = [31, 32, 33]\<rparr>"
    and p = "sample_pipe\<lparr>xp_direction := PWrite, xp_buflen := 1, xp_lspfd := Some \<lparr>sf_readable = False, sf_writable = True, sf_error = False\<rparr>,
        xp_reqs := [\<lparr>pr_fid = 5, pr_req = 10, pr_count = 2, pr_data = [21, 22]\<rparr>]\<rparr>"
    and s = "\<lparr>sf_readable = False, sf_writable = True, sf_error = False\<rparr>"
    and a = "\<lparr>pr_fid = 5, pr_req = 10, pr_count = 2, pr_data = [21, 22]\<rparr>" and rest = "[]"]
  by (simp add: sample_pio_def) blast

end
