(* ===== verification/XcpuBuf.thy ===== *)
theory XcpuBuf
  imports Strutil
begin

text \<open>
  The text files of \<^verbatim>\<open>xcpufs\<close> (\<^verbatim>\<open>argv\<close>, \<^verbatim>\<open>env\<close>, \<^verbatim>\<open>state\<close> and others) are kept in
  buffers that grow with what is written: the functions \<^verbatim>\<open>buf\<dots>\<close> of \<^verbatim>\<open>xcpufs.c\<close> and
  the file operations over them. A result \<open>None\<close> is an access outside the buffer.
\<close>

section \<open>Buffers\<close>

record Xfilebuf =
  xb_size :: int
  xb_buf :: "u8 list option"

definition bufinit :: Xfilebuf where
  "bufinit = \<lparr>xb_size = 0, xb_buf = None\<rparr>"

text \<open>
  The comparison is one of 64 bit unsigned numbers, to which the \<^verbatim>\<open>int\<close> size is extended; the
  difference is cut to the 32 bits of \<^verbatim>\<open>count\<close>, which is never negative.
\<close>

definition buf_count :: "Xfilebuf \<Rightarrow> u64 \<Rightarrow> u32 \<Rightarrow> u32" where
  "buf_count b offset count =
     (if offset + ucast count > word_of_int (xb_size b) then ucast (word_of_int (xb_size b) - offset) else count)"

definition bufread :: "Xfilebuf \<Rightarrow> u64 \<Rightarrow> u32 \<Rightarrow> u8 list \<Rightarrow> (int \<times> u8 list) option" where
  "bufread b offset count data =
     (let count = buf_count b offset count in
      if count = 0 then Some (0, data)
      else do {
        buf \<leftarrow> xb_buf b;
        data \<leftarrow> memmove data 0 buf (uint offset) (uint count);
        Some (sint count, data)
      })"

text \<open>\<open>m\<close> is the outcome of \<^verbatim>\<open>realloc\<close>: NULL, or what the new memory holds behind the old.\<close>

definition buf_grow :: "(nat \<Rightarrow> u8) option \<Rightarrow> Xfilebuf \<Rightarrow> u64 \<Rightarrow> Xfilebuf" where
  "buf_grow m b n =
     (if n > word_of_int (xb_size b) then
        (case m of
           None \<Rightarrow> b
         | Some junk \<Rightarrow>
             (let old = take (unat n) (case xb_buf b of None \<Rightarrow> [] | Some buf \<Rightarrow> buf)
              in \<lparr>xb_size = sint (ucast n :: u32), xb_buf = Some (old @ map junk [length old..<unat n])\<rparr>))
      else b)"

definition bufwrite :: "(nat \<Rightarrow> u8) option \<Rightarrow> Xfilebuf \<Rightarrow> u64 \<Rightarrow> u32 \<Rightarrow> u8 list \<Rightarrow> (int \<times> Xfilebuf) option" where
  "bufwrite m b offset count data =
     (let b = buf_grow m b (offset + ucast count);
          count = buf_count b offset count
      in if count = 0 then Some (0, b)
         else do {
           buf \<leftarrow> xb_buf b;
           buf \<leftarrow> memmove buf (uint offset) data 0 (uint count);
           Some (sint count, b\<lparr>xb_buf := Some buf\<rparr>)
         })"

definition bufsetsize :: "(nat \<Rightarrow> u8) option \<Rightarrow> Xfilebuf \<Rightarrow> int \<Rightarrow> Xfilebuf option" where
  "bufsetsize m b sz =
     (if xb_size b < sz then map_option snd (bufwrite m b (word_of_int sz) 0 [])
      else Some (b\<lparr>xb_size := sz\<rparr>))"

section \<open>Files\<close>

text \<open>
  The operations on a file whose \<^verbatim>\<open>aux\<close> is a buffer. \<^verbatim>\<open>filebuf_wstat\<close> is given the
  length in the file and the one of the request and always succeeds.
\<close>

definition filebuf_read :: "Xfilebuf \<Rightarrow> u64 \<Rightarrow> u32 \<Rightarrow> u8 list \<Rightarrow> (int \<times> u8 list) option" where
  "filebuf_read b offset count data = bufread b offset count data"

definition filebuf_write :: "(nat \<Rightarrow> u8) option \<Rightarrow> Xfilebuf \<Rightarrow> u64 \<Rightarrow> u32 \<Rightarrow> u8 list \<Rightarrow> (int \<times> Xfilebuf) option" where
  "filebuf_write m b offset count data = bufwrite m b offset count data"

definition filebuf_wstat :: "(nat \<Rightarrow> u8) option \<Rightarrow> u64 \<Rightarrow> u64 \<Rightarrow> Xfilebuf \<Rightarrow> Xfilebuf option" where
  "filebuf_wstat m flength len b =
     (if flength \<noteq> len then bufsetsize m b (sint (ucast len :: u32)) else Some b)"

section \<open>Contents\<close>

text \<open>A buffer that holds a text.\<close>

definition holds_text :: "Xfilebuf \<Rightarrow> u8 list \<Rightarrow> bool" where
  "holds_text b t \<longleftrightarrow> xb_size b = int (length t) \<and> length t < 2147483648 \<and>
     (case xb_buf b of None \<Rightarrow> t = [] | Some buf \<Rightarrow> length t \<le> length buf \<and> take (length t) buf = t)"

lemma holds_textI:
  "xb_size b = int n \<Longrightarrow> n < 2147483648 \<Longrightarrow> xb_buf b = Some buf \<Longrightarrow> n \<le> length buf \<Longrightarrow> take n buf = t \<Longrightarrow> holds_text b t"
  by (auto simp: holds_text_def)

lemma u64_add_u32:
  "n < 4294967296 \<Longrightarrow> word_of_nat m + ucast (word_of_nat n :: u32) = (word_of_nat (m + n) :: u64)"
  by (simp add: ucast_u64)

lemma u32_of_diff:
  "(ucast (word_of_nat n - word_of_nat m :: u64) :: u32) = word_of_int (int n - int m)"
proof -
  have "(word_of_nat n - word_of_nat m :: u64) = word_of_int (int n - int m)" by simp
  then show ?thesis by (metis ucast_word_of_int)
qed

lemma u32_of_nat_diff:
  "m \<le> n \<Longrightarrow> (ucast (word_of_nat n - word_of_nat m :: u64) :: u32) = word_of_nat (n - m)"
  by (simp add: u32_of_diff of_nat_diff)

lemma buf_count_buf [simp]: "buf_count (b\<lparr>xb_buf := x\<rparr>) off n = buf_count b off n"
  by (simp add: buf_count_def)

lemma buf_count_at:
  assumes "xb_size b = int s" "s < 2147483648" "off \<le> s" "n < 2147483648"
  shows "buf_count b (word_of_nat off) (word_of_nat n) = word_of_nat (min n (s - off))"
proof -
  have "(word_of_nat s < (word_of_nat off + ucast (word_of_nat n :: u32) :: u64)) = (s < off + n)" if "n < 4294967296"
    unfolding u64_add_u32 [OF that] by (rule less_u64) (use assms in auto)
  then show ?thesis using assms u32_of_nat_diff [of off s] by (auto simp: buf_count_def min_def)
qed

lemma buf_grow_at:
  assumes "xb_size b = int s" "s < 2147483648" "n < 2147483648" "n \<le> s \<Longrightarrow> (\<exists>buf. xb_buf b = Some buf \<and> s \<le> length buf) \<or> n = 0"
  shows "\<exists>buf. let b' = buf_grow (Some junk) b (word_of_nat n) in
    xb_size b' = int (max s n) \<and> (n = 0 \<or> xb_buf b' = Some buf \<and> max s n \<le> length buf) \<and>
    (n \<le> s \<longrightarrow> b' = b) \<and>
    (s < n \<longrightarrow> length buf = n \<and> (\<forall>old. xb_buf b = Some old \<longrightarrow> take (length old) buf = take n old))"
proof (cases "s < n")
  case True
  let ?old = "take n (case xb_buf b of None \<Rightarrow> [] | Some buf \<Rightarrow> buf)"
  have c: "word_of_nat n > (word_of_int (xb_size b) :: u64)" using True assms by (simp add: less_u64)
  have "sint (ucast (word_of_nat n :: u64) :: u32) = int n"
    using u32_of_nat_diff [of 0 n] assms(3) by (simp add: sint_of_nat_u32)
  then have g: "buf_grow (Some junk) b (word_of_nat n) =
      \<lparr>xb_size = int n, xb_buf = Some (?old @ map junk [length ?old..<n])\<rparr>"
    using c assms(3) by (simp add: buf_grow_def unat_u64 uint_u64 Let_def)
  show ?thesis unfolding g
  proof (rule exI [of _ "?old @ map junk [length ?old..<n]"])
    have "take (length old) (take n old @ map junk [min (length old) n..<n]) = take n old" for old :: "u8 list"
      by (cases "length old \<le> n") simp_all
    then show "let b' = \<lparr>xb_size = int n, xb_buf = Some (?old @ map junk [length ?old..<n])\<rparr> in
        xb_size b' = int (max s n) \<and> (n = 0 \<or> xb_buf b' = Some (?old @ map junk [length ?old..<n]) \<and>
          max s n \<le> length (?old @ map junk [length ?old..<n])) \<and> (n \<le> s \<longrightarrow> b' = b) \<and>
        (s < n \<longrightarrow> length (?old @ map junk [length ?old..<n]) = n \<and>
          (\<forall>old. xb_buf b = Some old \<longrightarrow> take (length old) (?old @ map junk [length ?old..<n]) = take n old))"
      using True by (auto simp: max_def split: option.splits)
  qed
next
  case False
  have c: "\<not> word_of_nat n > (word_of_int (xb_size b) :: u64)" using False assms by (simp add: less_u64)
  then show ?thesis using False assms by (auto simp: buf_grow_def Let_def max_def)
qed

lemma bufwrite_at:
  assumes t: "holds_text b t" and n: "off + length data < 2147483648" and mem: "length mem = length data"
  shows "\<exists>b'. bufwrite (Some junk) b (word_of_nat off) (word_of_nat (length data)) data = Some (int (length data), b') \<and>
    bufread b' (word_of_nat off) (word_of_nat (length data)) mem = Some (int (length data), data) \<and>
    (off \<le> length t \<longrightarrow> holds_text b' (take off t @ data @ drop (off + length data) t))"
proof -
  let ?n = "length data" and ?s = "length t"
  have s: "xb_size b = int ?s" "?s < 2147483648" using t by (auto simp: holds_text_def)
  define b1 where "b1 = buf_grow (Some junk) b (word_of_nat (off + ?n))"
  have add: "word_of_nat off + ucast (word_of_nat ?n :: u32) = (word_of_nat (off + ?n) :: u64)"
    using n by (intro u64_add_u32) simp
  have "off + ?n \<le> ?s \<Longrightarrow> (\<exists>buf. xb_buf b = Some buf \<and> ?s \<le> length buf) \<or> off + ?n = 0"
    using t by (auto simp: holds_text_def split: option.splits)
  then obtain buf where b1: "xb_size b1 = int (max ?s (off + ?n))" "off + ?n = 0 \<or> xb_buf b1 = Some buf \<and> max ?s (off + ?n) \<le> length buf"
    "off + ?n \<le> ?s \<longrightarrow> b1 = b" "?s < off + ?n \<longrightarrow> length buf = off + ?n \<and> (\<forall>old. xb_buf b = Some old \<longrightarrow> take (length old) buf = take (off + ?n) old)"
    using buf_grow_at [OF s n, of junk] by (auto simp: b1_def Let_def)
  have cnt: "buf_count b1 (word_of_nat off) (word_of_nat ?n) = word_of_nat ?n"
    using buf_count_at [OF b1(1), of off ?n] s n by simp
  have w: "uint (word_of_nat off :: u64) = int off" "uint (word_of_nat ?n :: u32) = int ?n" "sint (word_of_nat ?n :: u32) = int ?n"
    "(word_of_nat ?n :: u32) = 0 \<longleftrightarrow> ?n = 0"
    using n by (simp_all add: unat_u64 uint_u64 sint_of_nat_u32 word_unat_eq_iff unsigned_of_nat take_bit_nat_eq_self)
  show ?thesis
  proof (cases "data = []")
    case True
    have z: "buf_count b' (word_of_nat off) (word_of_nat 0) = 0" if "b' = b1" for b' using cnt True that by simp
    have "holds_text b1 (take off t @ data @ drop (off + ?n) t)" if "off \<le> ?s" using that b1(3) t True by simp
    then show ?thesis using True z [OF refl] mem by (simp add: bufwrite_def bufread_def
        b1_def [symmetric, simplified True, simplified] Let_def)
  next
    case False
    let ?new = "take off buf @ data @ drop (off + ?n) buf"
    have buf: "xb_buf b1 = Some buf" "max ?s (off + ?n) \<le> length buf" using b1(2) False by auto
    have mv: "memmove buf (int off) data 0 (int ?n) = Some ?new"
      using buf(2) by (simp add: memmove_def nat_add_distrib)
    have wr: "bufwrite (Some junk) b (word_of_nat off) (word_of_nat ?n) data = Some (int ?n, b1\<lparr>xb_buf := Some ?new\<rparr>)"
      unfolding bufwrite_def add Let_def b1_def [symmetric] cnt using False buf(1) mv w by simp
    have "memmove mem 0 ?new (int off) (int ?n) = Some data"
      using buf(2) mem by (simp add: memmove_def)
    moreover have "buf_count (b1\<lparr>xb_buf := Some ?new\<rparr>) (word_of_nat off) (word_of_nat ?n) = word_of_nat ?n"
      using cnt by simp
    ultimately have "bufread (b1\<lparr>xb_buf := Some ?new\<rparr>) (word_of_nat off) (word_of_nat ?n) mem = Some (int ?n, data)"
      using False w by (simp add: bufread_def)
    moreover have "holds_text (b1\<lparr>xb_buf := Some ?new\<rparr>) (take off t @ data @ drop (off + ?n) t)" if "off \<le> ?s"
    proof -
      have nb: "length ?new = length buf" using buf(2) by simp
      let ?t = "take off t @ data @ drop (off + ?n) t"
      have len: "length ?t = max ?s (off + ?n)" using that by (auto simp: max_def)
      have tk: "take (max ?s (off + ?n)) ?new = ?t"
      proof (cases "?s < off + ?n")
        case True
        then have lb: "length buf = off + ?n" "max ?s (off + ?n) = off + ?n" using b1(4) by auto
        have "take off buf = take off t"
        proof (cases "xb_buf b")
          case None
          then have "t = []" using t by (simp add: holds_text_def)
          then show ?thesis using that by simp
        next
          case (Some old)
          then have old: "?s \<le> length old" "take ?s old = t" using t by (simp_all add: holds_text_def)
          have "take (length old) buf = take (off + ?n) old" using b1(4) True Some by blast
          then have "take off (take (length old) buf) = take off (take (off + ?n) old)" by simp
          then have "take off buf = take off old" using that old(1) by (simp add: min_def)
          moreover have "take off old = take off t" using arg_cong [OF old(2), of "take off"] that by (simp add: min_def)
          ultimately show ?thesis by simp
        qed
        then show ?thesis using lb True by simp
      next
        case False
        then have "b1 = b" "max ?s (off + ?n) = ?s" using b1(3) by auto
        then have tt: "take ?s buf = t" using t buf(1) by (simp add: holds_text_def)
        have "take off buf = take off t" using arg_cong [OF tt, of "take off"] that by (simp add: min_def)
        moreover have "take (?s - (off + ?n)) (drop (off + ?n) buf) = drop (off + ?n) t"
          using arg_cong [OF tt, of "drop (off + ?n)"] by (simp add: drop_take)
        ultimately show ?thesis using False \<open>max ?s (off + ?n) = ?s\<close> buf(2) by simp
      qed
      show ?thesis
        by (rule holds_textI [OF _ _ _ _ tk]) (use b1(1) n s(2) nb buf(2) in \<open>simp_all only: nb, simp_all\<close>)
    qed
    ultimately show ?thesis using wr by blast
  qed
qed


text \<open>C24. What is written to a text file is what a read of the same place returns, and a write inside the text or
  at its end replaces or appends exactly those bytes.\<close>

theorem bufwrite_read:
  assumes t: "holds_text b t" and n: "off + length data < 2147483648" and mem: "length mem = length data"
  shows "\<exists>b'. filebuf_write (Some junk) b (word_of_nat off) (word_of_nat (length data)) data = Some (int (length data), b') \<and>
    filebuf_read b' (word_of_nat off) (word_of_nat (length data)) mem = Some (int (length data), data) \<and>
    (off \<le> length t \<longrightarrow> holds_text b' (take off t @ data @ drop (off + length data) t))"
  using bufwrite_at [OF assms] by (simp add: filebuf_write_def filebuf_read_def)

lemma bufsetsize_shrinks:
  assumes "holds_text b t" "n \<le> length t"
  shows "\<exists>b'. bufsetsize m b (int n) = Some b' \<and> holds_text b' (take n t)"
proof -
  have "holds_text (b\<lparr>xb_size := int n\<rparr>) (take n t)"
    using assms by (cases "xb_buf b") (auto simp: holds_text_def min_def dest: arg_cong [of _ _ "take n"])
  then show ?thesis using assms by (simp add: bufsetsize_def holds_text_def)
qed

text \<open>C25. A read of a text file is the window of its text as far as it goes up to the end of the text; a read from
  behind the end leaves the buffer, because the number of bytes left is cut to an unsigned 32 bit number before it is compared
  with 0.\<close>

theorem filebuf_read_window:
  assumes t: "holds_text b t" and n: "n < 2147483648" "n = length mem" and off: "off < 2147483648"
    and len: "\<forall>buf. xb_buf b = Some buf \<longrightarrow> length buf = length t"
  shows "filebuf_read b (word_of_nat off) (word_of_nat n) mem =
    (if off \<le> length t
     then Some (int (min n (length t - off)), take n (drop off t) @ drop (length t - off) mem)
     else None)"
proof (cases "off \<le> length t")
  case True
  let ?k = "min n (length t - off)"
  have s: "xb_size b = int (length t)" "length t < 2147483648" using t by (auto simp: holds_text_def)
  have cnt: "buf_count b (word_of_nat off) (word_of_nat n) = word_of_nat ?k"
    using buf_count_at [OF s(1) s(2) True n(1)] .
  have w: "uint (word_of_nat off :: u64) = int off" "uint (word_of_nat ?k :: u32) = int ?k" "sint (word_of_nat ?k :: u32) = int ?k"
    "(word_of_nat ?k :: u32) = 0 \<longleftrightarrow> ?k = 0"
    using n off by (simp_all add: unat_u64 uint_u64 sint_of_nat_u32 word_unat_eq_iff unsigned_of_nat take_bit_nat_eq_self min_def)
  show ?thesis
  proof (cases "?k = 0")
    case True
    then have "take n (drop off t) @ drop (length t - off) mem = mem" using n by (auto simp: min_def split: if_splits)
    then show ?thesis using True \<open>off \<le> length t\<close> unfolding filebuf_read_def bufread_def cnt Let_def w(4) by simp
  next
    case False
    then obtain buf where buf: "xb_buf b = Some buf" using t by (cases "xb_buf b") (auto simp: holds_text_def)
    then have bt: "buf = t" using t len by (auto simp: holds_text_def)
    have tk: "take ?k (drop off t) = take n (drop off t)" by (simp add: min_def)
    have dr: "drop ?k mem = drop (length t - off) mem" using n by (simp add: min_def)
    have "memmove mem 0 t (int off) (int ?k) = Some (take n (drop off t) @ drop (length t - off) mem)"
      using n True tk dr by (auto simp: memmove_def)
    then show ?thesis
      unfolding filebuf_read_def bufread_def cnt Let_def w(4) if_not_P [OF False] buf bt by (simp add: w True)
  qed
next
  case False
  have s: "xb_size b = int (length t)" "length t < off" using t False by (auto simp: holds_text_def)
  have gt: "(word_of_nat (length t) < (word_of_nat off + ucast (word_of_nat n :: u32) :: u64))"
  proof -
    have "n < 4294967296" using n by simp
    from u64_add_u32 [OF this, of off] show ?thesis using s(2) n off less_u64 [of "length t" "off + n"] by simp
  qed
  let ?c = "ucast (word_of_nat (length t) - word_of_nat off :: u64) :: u32"
  have "?c = - word_of_nat (off - length t)"
    unfolding u32_of_diff using s(2) by (simp add: of_nat_diff)
  moreover have "unat (word_of_nat (off - length t) :: u32) \<noteq> 0"
    using s(2) off by (simp only: of_nat_unat_len32)
  then have "(word_of_nat (off - length t) :: u32) \<noteq> 0" by (metis unsigned_0)
  ultimately have c: "?c \<noteq> 0" by simp
  have "uint (word_of_nat off :: u64) = int off" using off by (simp add: unat_u64 uint_u64)
  moreover have "memmove mem 0 buf (int off) (uint ?c) = None" if "length buf = length t" for buf
  proof -
    have "int (length buf) < int off + uint ?c" using s(2) that uint_ge_0 [of ?c] by linarith
    then show ?thesis by (simp add: memmove_def)
  qed
  ultimately show ?thesis using False gt c s len
    by (cases "xb_buf b") (simp_all add: filebuf_read_def bufread_def buf_count_def)
qed

text \<open>A \<^verbatim>\<open>wstat\<close> that leaves the length alone, as one that changes the mode does, has the length \<open>-1\<close>; it
  sets the size of the text to \<open>-1\<close>, and every read of more than the buffer holds then leaves the buffer instead of stopping at the
  end.\<close>

theorem filebuf_wstat_untouched:
  assumes t: "holds_text b t" and "flength \<noteq> - 1" and "off < 2147483648" "n < 2147483648"
    and big: "\<forall>buf. xb_buf b = Some buf \<longrightarrow> length buf < off + n" "0 < n"
  shows "\<exists>b'. filebuf_wstat m flength (- 1) b = Some b' \<and> xb_size b' = - 1 \<and>
    filebuf_read b' (word_of_nat off) (word_of_nat n) mem = None"
proof (intro exI conjI)
  let ?b = "b\<lparr>xb_size := - 1\<rparr>"
  show "filebuf_wstat m flength (- 1) b = Some ?b"
  proof -
    have "sint (ucast (- 1 :: u64) :: u32) = - 1" by code_simp
    then show ?thesis using t assms(2) by (simp only: filebuf_wstat_def bufsetsize_def) (simp add: holds_text_def)
  qed
  show "xb_size ?b = - 1" by simp
  have "buf_count ?b (word_of_nat off) (word_of_nat n) = word_of_nat n"
    by (simp add: buf_count_def not_less)
  moreover have "uint (word_of_nat off :: u64) = int off" "uint (word_of_nat n :: u32) = int n" "(word_of_nat n :: u32) \<noteq> 0"
    using assms(3,4) big(2) by (simp_all add: unat_u64 uint_u64 word_unat_eq_iff unsigned_of_nat take_bit_nat_eq_self)
  moreover have "memmove mem 0 buf (int off) (int n) = None" if "xb_buf b = Some buf" for buf
    using big that by (force simp: memmove_def)
  ultimately show "filebuf_read ?b (word_of_nat off) (word_of_nat n) mem = None"
    by (cases "xb_buf b") (simp_all add: filebuf_read_def bufread_def)
qed

section \<open>Witnesses\<close>

lemma bufwrite_read_witness:
  "\<exists>b'. filebuf_write (Some (\<lambda>_. 7)) \<lparr>xb_size = 3, xb_buf = Some [1, 2, 3]\<rparr> 2 2 [8, 9] = Some (2, b') \<and>
    filebuf_read b' 2 2 [0, 0] = Some (2, [8, 9]) \<and> holds_text b' [1, 2, 8, 9]"
proof -
  have "holds_text \<lparr>xb_size = 3, xb_buf = Some [1, 2, 3]\<rparr> [1, 2, 3]" by (simp add: holds_text_def)
  from bufwrite_read [OF this, where off = 2 and data = "[8, 9]" and mem = "[0, 0]" and junk = "\<lambda>_. 7"]
  show ?thesis by simp
qed

lemma filebuf_read_window_witness:
  "filebuf_read \<lparr>xb_size = 3, xb_buf = Some [1, 2, 3]\<rparr> 1 4 [0, 0, 0, 0] = Some (2, [2, 3, 0, 0]) \<and>
    filebuf_read \<lparr>xb_size = 3, xb_buf = Some [1, 2, 3]\<rparr> 4 1 [0] = None"
proof -
  have t: "holds_text \<lparr>xb_size = 3, xb_buf = Some [1, 2, 3]\<rparr> [1, 2, 3]" by (simp add: holds_text_def)
  from filebuf_read_window [OF t, where off = 1 and n = 4 and mem = "[0, 0, 0, 0]"]
    filebuf_read_window [OF t, where off = 4 and n = 1 and mem = "[0]"]
  show ?thesis by simp
qed

lemma filebuf_wstat_untouched_witness:
  "\<exists>b'. filebuf_wstat None 0 (- 1) \<lparr>xb_size = 3, xb_buf = Some [1, 2, 3]\<rparr> = Some b' \<and> filebuf_read b' 0 4 [0, 0, 0, 0] = None"
proof -
  have t: "holds_text \<lparr>xb_size = 3, xb_buf = Some [1, 2, 3]\<rparr> [1, 2, 3]" by (simp add: holds_text_def)
  from filebuf_wstat_untouched [OF t, where flength = 0 and off = 0 and n = 4 and m = None and mem = "[0, 0, 0, 0]"]
  show ?thesis by auto
qed

end
