(* ===== verification/XcpuSession.thy ===== *)
theory XcpuSession
  imports XcpuPipe XcpuBuf
begin

text \<open>
  The sessions of \<^verbatim>\<open>xcpufs\<close> (\<^verbatim>\<open>xcpufs.c\<close>): a session is made by opening \<^verbatim>\<open>clone\<close>, shows a
  directory of control files, runs a process on the command \<^verbatim>\<open>exec\<close> and goes away with its last
  reference. A session is an object of a heap; the directory it is shown under is kept in it, as
  the number of references to it and the names of its files, and as a place in the list of the
  root directory. The kernel is part of the state: the outcomes of the system calls, the processes
  started, the signals sent. A result \<open>None\<close> is a fault.
\<close>

section \<open>State\<close>

datatype xstate = Initializing | Running | Finished | Wiped

datatype xmode = Normal | Persistent

text \<open>Requests that wait, with what the code reads of their messages and connections.\<close>

record Xwaitreq =
  wr_req :: addr
  wr_offset :: u64
  wr_count :: u32

record Xctlreq =
  cq_req :: addr
  cq_count :: u32
  cq_address :: cstring

text \<open>The directory of a session: an \<^verbatim>\<open>Spfile\<close> with a list of files.\<close>

record Sroot =
  sr_refcount :: int
  sr_children :: "cstring list"

text \<open>\<open>xs_ctl\<close> is the memory of the commands, with the zeros in it.\<close>

record Xsession =
  xs_refcount :: int
  xs_sid :: int
  xs_state :: xstate
  xs_mode :: xmode
  xs_argv :: Xfilebuf
  xs_env :: Xfilebuf
  xs_gid :: "cstring option"
  xs_lid :: int
  xs_ctl :: "u8 list option"
  xs_ctlreq :: "Xctlreq option"
  xs_ctlpos :: nat
  xs_stin :: Xfilepipe
  xs_stout :: Xfilepipe
  xs_sterr :: Xfilepipe
  xs_stinfname :: "cstring option"
  xs_stoutfname :: "cstring option"
  xs_sterrfname :: "cstring option"
  xs_dirpath :: cstring
  xs_execpath :: "cstring option"
  xs_pid :: int
  xs_exitstatus :: "cstring option"
  xs_sroot :: "Sroot option"
  xs_waitreqs :: "Xwaitreq list"

datatype xsreply = SRead "u8 list" | SWrite u32 | SError cstring int

text \<open>What a new process is given.\<close>

record Xproc =
  pc_pid :: int
  pc_path :: cstring
  pc_argv :: "cstring list option"
  pc_env :: "cstring list option"
  pc_cwd :: cstring
  pc_fds :: "int \<times> int \<times> int"
  pc_uid :: u32
  pc_gid :: u32

text \<open>
  \<open>xw_sys\<close> holds the results of the system calls, the negated error number for a failure;
  \<open>xw_pipes\<close> and \<open>xw_tmpname\<close> what \<^verbatim>\<open>pipe\<close> and \<^verbatim>\<open>mkdtemp\<close> give at the same place.
  \<open>xw_uninit\<close> is the contents of a variable that is read before it is set.
\<close>

record xworld =
  xw_sess :: "addr \<Rightarrow> Xsession option"
  xw_naddr :: addr
  xw_sessions :: "addr list"
  xw_root :: "addr list"
  xw_next_id :: int
  xw_envbuf :: Xfilebuf
  xw_tmppath :: cstring
  xw_io :: pio
  xw_ename :: cstring
  xw_ecode :: int
  xw_out :: "(addr \<times> xsreply) list"
  xw_sys :: "nat \<Rightarrow> int"
  xw_pipes :: "nat \<Rightarrow> (int \<times> int) option"
  xw_tmpname :: "nat \<Rightarrow> cstring"
  xw_nsys :: nat
  xw_errno :: int
  xw_strerror :: "int \<Rightarrow> cstring"
  xw_kills :: "(int \<times> int) list"
  xw_procs :: "Xproc list"
  xw_chld_fd :: int
  xw_uninit :: u32

definition upd_sess :: "addr \<Rightarrow> (Xsession \<Rightarrow> Xsession) \<Rightarrow> xworld \<Rightarrow> xworld option" where
  "upd_sess x f w = map_option (\<lambda>s. w\<lparr>xw_sess := (xw_sess w)(x := Some (f s))\<rparr>) (xw_sess w x)"

definition x_alloc :: "xworld \<Rightarrow> (nat \<Rightarrow> u8) option \<times> xworld" where
  "x_alloc w = (let (m, io) = io_alloc (xw_io w) in (m, w\<lparr>xw_io := io\<rparr>))"

definition x_sys :: "xworld \<Rightarrow> int \<times> xworld" where
  "x_sys w =
     (let r = xw_sys w (xw_nsys w); w = w\<lparr>xw_nsys := xw_nsys w + 1\<rparr>
      in if r < 0 then (- 1, w\<lparr>xw_errno := - r\<rparr>) else (r, w))"

definition x_pipe :: "xworld \<Rightarrow> (int \<times> int) option \<times> xworld" where
  "x_pipe w =
     (let p = xw_pipes w (xw_nsys w); r = xw_sys w (xw_nsys w); w = w\<lparr>xw_nsys := xw_nsys w + 1\<rparr>
      in (p, if p = None then w\<lparr>xw_errno := - r\<rparr> else w))"

definition x_close :: "int \<Rightarrow> xworld \<Rightarrow> xworld" where
  "x_close fd w = w\<lparr>xw_io := io_close fd (xw_io w)\<rparr>"

definition x_respond :: "addr \<Rightarrow> xsreply \<Rightarrow> xworld \<Rightarrow> xworld" where
  "x_respond req rc w = w\<lparr>xw_out := xw_out w @ [(req, rc)]\<rparr>"

definition x_kill :: "int \<Rightarrow> int \<Rightarrow> xworld \<Rightarrow> xworld" where
  "x_kill pid sig w = w\<lparr>xw_kills := xw_kills w @ [(pid, sig)]\<rparr>"

text \<open>
  The error record of \<^verbatim>\<open>spfs/libspfs/error.c\<close>. A NULL name resets the number and keeps the text;
  the messages of \<^verbatim>\<open>xcpufs\<close> hold no conversions and fit the buffer.
\<close>

definition sp_werror :: "cstring option \<Rightarrow> int \<Rightarrow> xworld \<Rightarrow> xworld" where
  "sp_werror ename ecode w =
     (let w = w\<lparr>xw_ecode := ecode\<rparr> in case ename of None \<Rightarrow> w | Some e \<Rightarrow> w\<lparr>xw_ename := e\<rparr>)"

definition sp_rerror :: "xworld \<Rightarrow> cstring option \<times> int" where
  "sp_rerror w = (if xw_ecode w \<noteq> 0 then Some (xw_ename w) else None, xw_ecode w)"

definition sp_uerror :: "int \<Rightarrow> xworld \<Rightarrow> xworld" where
  "sp_uerror ecode w = sp_werror (Some (xw_strerror w ecode)) ecode w"

definition Enomem :: cstring where "Enomem = cstr ''not enough memory''"

definition sp_malloc :: "xworld \<Rightarrow> (nat \<Rightarrow> u8) option \<times> xworld" where
  "sp_malloc w = (case x_alloc w of
     (None, w) \<Rightarrow> (None, sp_werror (Some Enomem) ENOMEM w)
   | (Some m, w) \<Rightarrow> (Some m, w))"

section \<open>The end of a session\<close>

text \<open>\<^verbatim>\<open>session_destroy\<close> without the removal of the files in its directory.\<close>

definition session_destroy :: "addr \<Rightarrow> xworld \<Rightarrow> xworld option" where
  "session_destroy x w = do {
     s \<leftarrow> xw_sess w x;
     let io = pip_destroy (xs_sterr s) (pip_destroy (xs_stout s) (pip_destroy (xs_stin s) (xw_io w)));
     let w = w\<lparr>xw_sessions := remove1 x (xw_sessions w), xw_io := io\<rparr>;
     let w = (if xs_pid s \<noteq> - 1 then x_kill (xs_pid s) 15 w else w);
     Some (w\<lparr>xw_sess := (xw_sess w)(x := None)\<rparr>)
   }"

text \<open>\<^verbatim>\<open>spfile_decref\<close> on the directory of a session, whose \<^verbatim>\<open>destroy\<close> is \<^verbatim>\<open>session_destroy\<close>.\<close>

definition sroot_decref :: "addr \<Rightarrow> xworld \<Rightarrow> xworld option" where
  "sroot_decref x w = do {
     s \<leftarrow> xw_sess w x;
     (case xs_sroot s of
        None \<Rightarrow> Some w
      | Some r \<Rightarrow>
          if sr_refcount r \<le> 0 then None
          else do {
            w \<leftarrow> upd_sess x (xs_sroot_update (\<lambda>_. Some (r\<lparr>sr_refcount := sr_refcount r - 1\<rparr>))) w;
            if sr_refcount r - 1 = 0 then session_destroy x w else Some w
          })
   }"

fun decref_parents :: "cstring list \<Rightarrow> addr \<Rightarrow> xworld \<Rightarrow> xworld option" where
  "decref_parents [] x w = Some w"
| "decref_parents (c # cs) x w = do { w \<leftarrow> sroot_decref x w; decref_parents cs x w }"

text \<open>The root directory has other files in front, so a directory that is not linked has no
  \<^verbatim>\<open>prev\<close> to follow.\<close>

definition session_remove_dir :: "addr \<Rightarrow> xworld \<Rightarrow> xworld option" where
  "session_remove_dir x w = do {
     s \<leftarrow> xw_sess w x;
     r \<leftarrow> xs_sroot s;
     if x \<notin> set (xw_root w) then None
     else do {
       let w = w\<lparr>xw_root := remove1 x (xw_root w)\<rparr>;
       w \<leftarrow> upd_sess x (xs_sroot_update (\<lambda>_. Some (r\<lparr>sr_children := []\<rparr>))) w;
       decref_parents (sr_children r) x w
     }
   }"

text \<open>A read of \<^verbatim>\<open>wait\<close> is answered with its window of the exit status.\<close>

definition answer_wait :: "cstring option \<Rightarrow> Xwaitreq \<Rightarrow> xworld \<Rightarrow> xworld option" where
  "answer_wait exitstatus wr w =
     (case sp_malloc w of
        (None, w) \<Rightarrow> None
      | (Some junk, w) \<Rightarrow> do {
          (n, data) \<leftarrow> cutstr (map junk [0..<unat (wr_count wr)]) (int_of_u64 (wr_offset wr)) (sint (wr_count wr)) exitstatus 0;
          Some (x_respond (wr_req wr) (SRead (take (nat n) data)) w)
        })"

fun answer_waits :: "cstring option \<Rightarrow> Xwaitreq list \<Rightarrow> xworld \<Rightarrow> xworld option" where
  "answer_waits exitstatus [] w = Some w"
| "answer_waits exitstatus (wr # wrs) w = do { w \<leftarrow> answer_wait exitstatus wr w; answer_waits exitstatus wrs w }"

definition session_wipe :: "addr \<Rightarrow> xworld \<Rightarrow> xworld option" where
  "session_wipe x w = do {
     s \<leftarrow> xw_sess w x;
     if xs_state s = Wiped then Some w
     else do {
       w \<leftarrow> upd_sess x (xs_state_update (\<lambda>_. Wiped)) w;
       w \<leftarrow> session_remove_dir x w;
       s \<leftarrow> xw_sess w x;
       let w = (if xs_pid s \<noteq> - 1 then x_kill (xs_pid s) 15 w else w);
       w \<leftarrow> upd_sess x (xs_waitreqs_update (\<lambda>_. [])) w;
       answer_waits (xs_exitstatus s) (xs_waitreqs s) w
     }
   }"

definition session_incref :: "addr \<Rightarrow> xworld \<Rightarrow> xworld option" where
  "session_incref x w = upd_sess x (\<lambda>s. s\<lparr>xs_refcount := xs_refcount s + 1\<rparr>) w"

definition session_decref :: "addr \<Rightarrow> xworld \<Rightarrow> xworld option" where
  "session_decref x w = do {
     s \<leftarrow> xw_sess w x;
     let refs = xs_refcount s - 1;
     w \<leftarrow> upd_sess x (xs_refcount_update (\<lambda>_. refs)) w;
     if refs \<noteq> 0 then Some w
     else do {
       w \<leftarrow> (if xs_mode s = Normal \<and> xs_state s \<noteq> Running then session_wipe x w else Some w);
       sroot_decref x w
     }
   }"

section \<open>Creation\<close>

text \<open>
  The place of a new session in the list, which is kept by number: \<open>ps\<close> are the sessions before
  it. The loop of the code over equal numbers starts behind a comparison that has just been made
  false.
\<close>

fun sid_scan :: "(addr \<Rightarrow> Xsession option) \<Rightarrow> int \<Rightarrow> addr list \<Rightarrow> addr list \<Rightarrow> (addr list \<times> addr list) option" where
  "sid_scan h sid ps [] = Some (ps, [])"
| "sid_scan h sid ps (x # xs) = do {
     s \<leftarrow> h x;
     if xs_sid s \<ge> sid then Some (ps, x # xs) else sid_scan h sid (ps @ [x]) xs
   }"

partial_function (option) sid_skip ::
  "(addr \<Rightarrow> Xsession option) \<Rightarrow> addr list \<Rightarrow> int \<Rightarrow> addr list \<Rightarrow> addr list \<Rightarrow> (int \<times> addr list \<times> addr list) option"
where
  "sid_skip h all sid ps xs =
     (case xs of
        [] \<Rightarrow> Some (sid, ps, [])
      | x # xs' \<Rightarrow> do {
          s \<leftarrow> h x;
          if sid \<noteq> xs_sid s then Some (sid, ps, xs)
          else
            (let sid = sid + 1
             in if sid = 2147483647 then sid_skip h all 0 [] all else sid_skip h all sid (ps @ [x]) xs')
        })"

definition sid_place :: "(addr \<Rightarrow> Xsession option) \<Rightarrow> int \<Rightarrow> addr list \<Rightarrow> (int \<times> addr list \<times> addr list) option" where
  "sid_place h sid all = do {
     (ps, xs) \<leftarrow> sid_scan h sid [] all;
     (case xs of
        [] \<Rightarrow> Some (sid, ps, xs)
      | x # _ \<Rightarrow> do {
          s \<leftarrow> h x;
          if xs_sid s = sid then sid_skip h all (sid + 1) ps xs else Some (sid, ps, xs)
        })
   }"

text \<open>The three pipes; those that exist are destroyed when a later one cannot be made.\<close>

definition x_pip_create :: "pdir \<Rightarrow> xworld \<Rightarrow> Xfilepipe option \<times> xworld" where
  "x_pip_create direction w =
     (let (fds, w) = x_pipe w; (p, io) = pip_create direction fds (xw_io w)
      in (p, w\<lparr>xw_io := io\<rparr>))"

fun x_pip_destroy :: "Xfilepipe list \<Rightarrow> xworld \<Rightarrow> xworld" where
  "x_pip_destroy [] w = w"
| "x_pip_destroy (p # ps) w = x_pip_destroy ps (w\<lparr>xw_io := pip_destroy p (xw_io w)\<rparr>)"

definition session_pipes :: "xworld \<Rightarrow> (Xfilepipe \<times> Xfilepipe \<times> Xfilepipe) option \<times> xworld" where
  "session_pipes w =
     (case x_pip_create PWrite w of
        (None, w) \<Rightarrow> (None, w)
      | (Some i, w) \<Rightarrow>
          (case x_pip_create PRead w of
             (None, w) \<Rightarrow> (None, x_pip_destroy [i] w)
           | (Some out, w) \<Rightarrow>
               (case x_pip_create PRead w of
                  (None, w) \<Rightarrow> (None, x_pip_destroy [i, out] w)
                | (Some e, w) \<Rightarrow> (Some (i, out, e), w))))"

definition new_session ::
  "int \<Rightarrow> Xfilebuf \<Rightarrow> cstring option \<Rightarrow> cstring \<Rightarrow> Xfilepipe \<times> Xfilepipe \<times> Xfilepipe \<Rightarrow> Xsession"
where
  "new_session sid env gid tmp = (\<lambda>(i, out, e).
     \<lparr>xs_refcount = 1, xs_sid = sid, xs_state = Initializing, xs_mode = Normal, xs_argv = bufinit, xs_env = env, xs_gid = gid,
      xs_lid = 0, xs_ctl = None, xs_ctlreq = None, xs_ctlpos = 0, xs_stin = i, xs_stout = out, xs_sterr = e,
      xs_stinfname = None, xs_stoutfname = None, xs_sterrfname = None, xs_dirpath = tmp, xs_execpath = None, xs_pid = - 1,
      xs_exitstatus = None, xs_sroot = None, xs_waitreqs = []\<rparr>)"

text \<open>\<^verbatim>\<open>mkdtemp\<close> makes the directory of the session; its error is that of the system call.\<close>

definition session_create :: "xworld \<Rightarrow> (addr option \<times> xworld) option" where
  "session_create w =
     (case sp_malloc w of
        (None, w) \<Rightarrow> Some (None, w)
      | (Some _, w) \<Rightarrow> do {
          let (g, w) = x_alloc w;
          let (m, w) = x_alloc w;
          data \<leftarrow> (case xb_buf (xw_envbuf w) of None \<Rightarrow> Some [] | Some b \<Rightarrow> Some b);
          (n, env) \<leftarrow> bufwrite m bufinit 0 (word_of_int (xb_size (xw_envbuf w))) data;
          (case sp_malloc w of
             (None, w) \<Rightarrow> Some (None, w)
           | (Some _, w) \<Rightarrow>
               (let tmp = xw_tmpname w (xw_nsys w); (r, w) = x_sys w in
                if r < 0 then Some (None, sp_uerror (xw_errno w) w)
                else
                  (case session_pipes w of
                     (None, w) \<Rightarrow> Some (None, w)
                   | (Some pipes, w) \<Rightarrow> do {
                       let x = xw_naddr w;
                       (sid, ps, xs) \<leftarrow> sid_place (xw_sess w) (xw_next_id w) (xw_sessions w);
                       let s = new_session sid env (map_option (\<lambda>_. []) g) tmp pipes;
                       Some (Some x, w\<lparr>xw_naddr := x + 1, xw_next_id := xw_next_id w + 1,
                         xw_sess := (xw_sess w)(x := Some s), xw_sessions := ps @ x # xs\<rparr>)
                     })))
        })"

text \<open>
  \<^verbatim>\<open>create_file\<close> takes memory for the file and for its name, links the file at the end of its
  directory and takes a reference to both.
\<close>

definition create_file_mem :: "xworld \<Rightarrow> bool \<times> xworld" where
  "create_file_mem w =
     (case sp_malloc w of
        (None, w) \<Rightarrow> (False, w)
      | (Some _, w) \<Rightarrow>
          (case x_alloc w of
             (None, w) \<Rightarrow> (False, sp_werror (Some Enomem) ENOMEM w)
           | (Some _, w) \<Rightarrow> (True, w)))"

definition session_files :: "cstring list" where
  "session_files = map cstr [''ctl'', ''exec'', ''argv'', ''env'', ''stdin'', ''stdout'', ''stderr'', ''stdio'', ''wait'', ''id'', ''fs'']"

fun create_files :: "cstring list \<Rightarrow> addr \<Rightarrow> xworld \<Rightarrow> (bool \<times> xworld) option" where
  "create_files [] x w = Some (True, w)"
| "create_files (c # cs) x w =
     (case create_file_mem w of
        (False, w) \<Rightarrow> do { w \<leftarrow> session_remove_dir x w; Some (False, w) }
      | (True, w) \<Rightarrow> do {
          s \<leftarrow> xw_sess w x;
          r \<leftarrow> xs_sroot s;
          w \<leftarrow> upd_sess x (xs_sroot_update (\<lambda>_.
            Some \<lparr>sr_refcount = sr_refcount r + 1, sr_children = sr_children r @ [c]\<rparr>)) w;
          create_files cs x w
        })"

definition session_add_dir :: "addr \<Rightarrow> xworld \<Rightarrow> (bool \<times> xworld) option" where
  "session_add_dir x w =
     (case create_file_mem w of
        (False, w) \<Rightarrow> Some (False, w)
      | (True, w) \<Rightarrow> do {
          let w = w\<lparr>xw_root := xw_root w @ [x]\<rparr>;
          w \<leftarrow> upd_sess x (xs_sroot_update (\<lambda>_. Some \<lparr>sr_refcount = 1, sr_children = []\<rparr>)) w;
          create_files session_files x w
        })"

text \<open>The file \<^verbatim>\<open>clone\<close>: the \<^verbatim>\<open>aux\<close> of its fid is the session made by the open.\<close>

definition clone_openfid :: "xworld \<Rightarrow> (addr option \<times> xworld) option" where
  "clone_openfid w = do {
     (r, w) \<leftarrow> session_create w;
     (case r of
        None \<Rightarrow> Some (None, w)
      | Some x \<Rightarrow> do {
          (ok, w) \<leftarrow> session_add_dir x w;
          Some (if ok then Some x else None, w)
        })
   }"

definition clone_closefid :: "addr option \<Rightarrow> xworld \<Rightarrow> xworld option" where
  "clone_closefid aux w = (case aux of None \<Rightarrow> Some w | Some x \<Rightarrow> session_decref x w)"

definition clone_read :: "addr option \<Rightarrow> u64 \<Rightarrow> u32 \<Rightarrow> u8 list \<Rightarrow> xworld \<Rightarrow> (int \<times> u8 list) option" where
  "clone_read aux offset count data w = do {
     x \<leftarrow> aux;
     s \<leftarrow> xw_sess w x;
     cutstr data (int_of_u64 offset) (sint count) (Some (dec_int (xs_sid s))) 0
   }"

section \<open>Waiting\<close>

text \<open>The result \<open>- 1\<close> is that of a request that is answered later.\<close>

definition wait_read :: "addr \<Rightarrow> Xwaitreq \<Rightarrow> u8 list \<Rightarrow> xworld \<Rightarrow> (int \<times> u8 list \<times> xworld) option" where
  "wait_read x wr data w = do {
     s \<leftarrow> xw_sess w x;
     if xs_state s = Finished \<or> xs_state s = Wiped then do {
       (n, data) \<leftarrow> cutstr data (int_of_u64 (wr_offset wr)) (sint (wr_count wr)) (xs_exitstatus s) 0;
       Some (n, data, w)
     }
     else
       (case x_alloc w of
          (None, w) \<Rightarrow> Some (0, data, sp_werror (Some Enomem) ENOMEM w)
        | (Some _, w) \<Rightarrow> do {
            w \<leftarrow> upd_sess x (xs_waitreqs_update (\<lambda>_. wr # xs_waitreqs s)) w;
            Some (- 1, data, w)
          })
   }"

fun wait_flush_list :: "addr \<Rightarrow> Xwaitreq list \<Rightarrow> bool \<times> Xwaitreq list" where
  "wait_flush_list req [] = (False, [])"
| "wait_flush_list req (wr # wrs) =
     (if wr_req wr = req then (True, wrs) else (let (found, wrs) = wait_flush_list req wrs in (found, wr # wrs)))"

definition wait_flush :: "addr \<Rightarrow> addr \<Rightarrow> xworld \<Rightarrow> (bool \<times> xworld) option" where
  "wait_flush x req w = do {
     s \<leftarrow> xw_sess w x;
     let (found, wrs) = wait_flush_list req (xs_waitreqs s);
     w \<leftarrow> upd_sess x (xs_waitreqs_update (\<lambda>_. wrs)) w;
     Some (found, w)
   }"

text \<open>The end of a process, as \<^verbatim>\<open>waitpid\<close> reports it.\<close>

fun pid_find :: "(addr \<Rightarrow> Xsession option) \<Rightarrow> int \<Rightarrow> addr list \<Rightarrow> addr option option" where
  "pid_find h pid [] = Some None"
| "pid_find h pid (x # xs) = do { s \<leftarrow> h x; if xs_pid s = pid then Some (Some x) else pid_find h pid xs }"

definition x_close_local :: "(Xsession \<Rightarrow> Xfilepipe) \<Rightarrow> ((Xfilepipe \<Rightarrow> Xfilepipe) \<Rightarrow> Xsession \<Rightarrow> Xsession) \<Rightarrow> addr \<Rightarrow> xworld \<Rightarrow> xworld option"
where
  "x_close_local get upd x w = do {
     s \<leftarrow> xw_sess w x;
     let (p, io) = pip_close_local (get s) (xw_io w);
     upd_sess x (upd (\<lambda>_. p)) (w\<lparr>xw_io := io\<rparr>)
   }"

definition x_close_remote :: "(Xsession \<Rightarrow> Xfilepipe) \<Rightarrow> ((Xfilepipe \<Rightarrow> Xfilepipe) \<Rightarrow> Xsession \<Rightarrow> Xsession) \<Rightarrow> addr \<Rightarrow> xworld \<Rightarrow> xworld option"
where
  "x_close_remote get upd x w = do {
     s \<leftarrow> xw_sess w x;
     let (p, io) = pip_close_remote (get s) (xw_io w);
     upd_sess x (upd (\<lambda>_. p)) (w\<lparr>xw_io := io\<rparr>)
   }"

definition sigchld_child :: "int \<Rightarrow> int \<Rightarrow> xworld \<Rightarrow> xworld option" where
  "sigchld_child pid status w = do {
     r \<leftarrow> pid_find (xw_sess w) pid (xw_sessions w);
     (case r of
        None \<Rightarrow> Some w
      | Some x \<Rightarrow> do {
          let (m, w) = x_alloc w;
          w \<leftarrow> upd_sess x (\<lambda>s. s\<lparr>xs_state := (if xs_state s \<noteq> Wiped then Finished else Wiped), xs_pid := - 1,
            xs_exitstatus := map_option (\<lambda>_. dec_int status) m\<rparr>) w;
          w \<leftarrow> x_close_local xs_stin xs_stin_update x w;
          s \<leftarrow> xw_sess w x;
          w \<leftarrow> upd_sess x (xs_waitreqs_update (\<lambda>_. [])) w;
          w \<leftarrow> answer_waits (xs_exitstatus s) (xs_waitreqs s) w;
          session_decref x w
        })
   }"

fun sigchld_children :: "(int \<times> int) list \<Rightarrow> xworld \<Rightarrow> xworld option" where
  "sigchld_children [] w = Some w"
| "sigchld_children ((pid, status) # cs) w =
     (if pid \<le> 0 then Some w else do { w \<leftarrow> sigchld_child pid status w; sigchld_children cs w })"

definition sigchld_setup_pipe :: "xworld \<Rightarrow> xworld" where
  "sigchld_setup_pipe w = (case x_pipe w of (None, w) \<Rightarrow> w | (Some (r, wr), w) \<Rightarrow> w\<lparr>xw_chld_fd := wr\<rparr>)"

text \<open>\<open>cs\<close> is what \<^verbatim>\<open>waitpid\<close> returns until it has nothing more.\<close>

definition sigchld_notify :: "bool \<Rightarrow> int \<Rightarrow> (int \<times> int) list \<Rightarrow> xworld \<Rightarrow> xworld option" where
  "sigchld_notify error fd cs w = (if \<not> error then Some w else sigchld_children cs (sigchld_setup_pipe (x_close fd w)))"

section \<open>Numbers and signals\<close>

text \<open>
  \<^verbatim>\<open>strtol\<close> in base 10 of the C library, a 64 bit \<^verbatim>\<open>long\<close>, with the rest of the string behind the
  number; the code keeps the result in an \<^verbatim>\<open>int\<close>.
\<close>

definition is_space :: "u8 \<Rightarrow> bool" where
  "is_space c \<longleftrightarrow> c = 32 \<or> 9 \<le> c \<and> c \<le> 13"

definition is_digit :: "u8 \<Rightarrow> bool" where
  "is_digit c \<longleftrightarrow> 48 \<le> c \<and> c \<le> 57"

definition strtol :: "cstring \<Rightarrow> int \<times> cstring" where
  "strtol s =
     (let t = dropWhile is_space s;
          (neg, u) = (case t of [] \<Rightarrow> (False, t) | c # cs \<Rightarrow> if c = 45 then (True, cs) else if c = 43 then (False, cs) else (False, t));
          ds = takeWhile is_digit u;
          v = foldl (\<lambda>n d. n * 10 + (uint d - 48)) 0 ds;
          v = (if neg then - v else v)
      in if ds = [] then (0, s)
         else (max (- 9223372036854775808) (min 9223372036854775807 v), drop (length ds) u))"

definition int_of_long :: "int \<Rightarrow> int" where
  "int_of_long v = sint (word_of_int v :: u32)"

definition signals :: "(cstring \<times> int) list" where
  "signals =
    [(cstr ''SIGHUP'', 1), (cstr ''SIGINT'', 2), (cstr ''SIGQUIT'', 3), (cstr ''SIGILL'', 4), (cstr ''SIGTRAP'', 5),
     (cstr ''SIGABRT'', 6), (cstr ''SIGIOT'', 6), (cstr ''SIGBUS'', 7), (cstr ''SIGFPE'', 8), (cstr ''SIGKILL'', 9),
     (cstr ''SIGUSR1'', 10), (cstr ''SIGSEGV'', 11), (cstr ''SIGUSR2'', 12), (cstr ''SIGPIPE'', 13), (cstr ''SIGALRM'', 14),
     (cstr ''SIGTERM'', 15), (cstr ''SIGSTKFLT'', 16), (cstr ''SIGCLD'', 17), (cstr ''SIGCHLD'', 17), (cstr ''SIGCONT'', 18),
     (cstr ''SIGSTOP'', 19), (cstr ''SIGTSTP'', 20), (cstr ''SIGTTIN'', 21), (cstr ''SIGTTOU'', 22), (cstr ''SIGURG'', 23),
     (cstr ''SIGXCPU'', 24), (cstr ''SIGXFSZ'', 25), (cstr ''SIGVTALRM'', 26), (cstr ''SIGPROF'', 27), (cstr ''SIGWINCH'', 28),
     (cstr ''SIGPOLL'', 29), (cstr ''SIGIO'', 29), (cstr ''SIGPWR'', 30), (cstr ''SIGSYS'', 31), (cstr ''SIGUNUSED'', 31)]"

definition signame2signo :: "cstring \<Rightarrow> int" where
  "signame2signo sig =
     (let (n, e) = strtol sig
      in if e = [] then int_of_long n else case map_of signals sig of Some k \<Rightarrow> k | None \<Rightarrow> - 1)"

section \<open>Running a process\<close>

definition xcpupath :: "Xsession \<Rightarrow> cstring \<Rightarrow> cstring \<Rightarrow> cstring" where
  "xcpupath s gid address =
     10 # cstr ''XCPUPATH='' @ xs_dirpath s @ (10 # cstr ''XCPUSID='') @ dec_int (xs_sid s) @
     (10 # cstr ''XCPUID='') @ gid @ cstr ''/'' @ dec_int (xs_lid s) @ (10 # cstr ''LD_LIBRARY_PATH='') @ xs_dirpath s @
     (10 # cstr ''XCPU_PARENT='') @ address"

text \<open>
  A buffer is copied with a zero behind it and split into words; when that fails
  \<^verbatim>\<open>tokenize\<close> leaves a NULL for them and returns a positive number, so that the code goes on.
  The result \<open>None\<close> inside is that of the copy without memory.
\<close>

definition buf_words :: "Xfilebuf \<Rightarrow> xworld \<Rightarrow> (cstring list option option \<times> xworld) option" where
  "buf_words b w =
     (case sp_malloc w of
        (None, w) \<Rightarrow> Some (None, w)
      | (Some junk, w) \<Rightarrow> do {
          m \<leftarrow> (if xb_size b = 0 then Some []
            else do { t \<leftarrow> xb_buf b; if 0 \<le> xb_size b \<and> xb_size b \<le> int (length t) then Some (take (nat (xb_size b)) t) else None });
          let (mem, w) = x_alloc w;
          r \<leftarrow> tokenize (mem \<noteq> None) (c_string (m @ [0]));
          Some (Some (case r of Inl e \<Rightarrow> None | Inr toks \<Rightarrow> Some toks), w)
        })"

text \<open>
  The three standard files: a file of its own or the end of a pipe. The third test looks at the
  wrong descriptor. With an error all three are closed, the ends of pipes as well.
\<close>

definition x_open :: "xworld \<Rightarrow> int \<times> xworld" where
  "x_open w = (let (r, w) = x_sys w in if r < 0 then (- 1, sp_uerror (xw_errno w) w) else (r, w))"

definition xexec_fds :: "Xsession \<Rightarrow> xworld \<Rightarrow> bool \<times> (int \<times> int \<times> int) \<times> xworld" where
  "xexec_fds s w =
     (let (ifd, w) = (case xs_stinfname s of Some _ \<Rightarrow> x_open w | None \<Rightarrow> (xp_rfd (xs_stin s), w)) in
      if xs_stinfname s \<noteq> None \<and> ifd < 0 then (False, (ifd, - 1, - 1), w)
      else
        (let (ofd, w) = (case xs_stoutfname s of Some _ \<Rightarrow> x_open w | None \<Rightarrow> (xp_rfd (xs_stout s), w)) in
         if xs_stoutfname s \<noteq> None \<and> ofd < 0 then (False, (ifd, ofd, - 1), w)
         else
           (case xs_sterrfname s of
              None \<Rightarrow> (True, (ifd, ofd, xp_rfd (xs_sterr s)), w)
            | Some e \<Rightarrow>
                if xs_stoutfname s = Some e then (True, (ifd, ofd, ofd), w)
                else (let (efd, w) = x_sys w
                      in if ofd < 0 then (False, (ifd, ofd, efd), sp_uerror (xw_errno w) w)
                         else (True, (ifd, ofd, efd), w)))))"

text \<open>
  The parent, when the process has started: the remote ends of the pipes are closed, and a byte to
  the child lets it go on.
\<close>

definition xexec_parent :: "addr \<Rightarrow> int \<Rightarrow> int \<Rightarrow> int \<Rightarrow> xworld \<Rightarrow> (int \<times> xworld) option" where
  "xexec_parent x pid p0 p1 w = do {
     w \<leftarrow> upd_sess x (xs_state_update (\<lambda>_. Running)) w;
     w \<leftarrow> session_incref x w;
     w \<leftarrow> x_close_remote xs_stin xs_stin_update x w;
     w \<leftarrow> x_close_remote xs_stout xs_stout_update x w;
     w \<leftarrow> x_close_remote xs_sterr xs_sterr_update x w;
     w \<leftarrow> upd_sess x (xs_pid_update (\<lambda>_. pid)) w;
     Some (1, x_close p1 (x_close p0 w))
   }"

text \<open>What the child does up to \<^verbatim>\<open>execve\<close> is recorded in \<open>xw_procs\<close>, provided it has memory for
  the path.\<close>

definition xexec_fork ::
  "addr \<Rightarrow> cstring \<Rightarrow> cstring \<Rightarrow> Spuser \<Rightarrow> cstring list option \<Rightarrow> cstring list option \<Rightarrow> xworld \<Rightarrow> (int \<times> xworld) option"
where
  "xexec_fork x exec cwd user envtok argvtok w = do {
     s \<leftarrow> xw_sess w x;
     (case x_pipe w of
        (None, w) \<Rightarrow> Some (0, sp_uerror (xw_errno w) w)
      | (Some (p0, p1), w) \<Rightarrow>
          (case xexec_fds s w of
             (False, (ifd, ofd, efd), w) \<Rightarrow> Some (0, x_close efd (x_close ofd (x_close ifd w)))
           | (True, fds, w) \<Rightarrow>
               (let (pid, w) = x_sys w in
                if pid < 0 then Some (0, sp_werror (Some (cstr ''cannot fork'')) (xw_errno w) w)
                else
                  (let path = (if take 1 exec = [47] then exec else xs_dirpath s @ [47] @ exec);
                       pc = \<lparr>pc_pid = pid, pc_path = path, pc_argv = argvtok, pc_env = envtok, pc_cwd = cwd, pc_fds = fds,
                         pc_uid = su_uid user, pc_gid = sg_gid (su_dfltgroup user)\<rparr>
                   in xexec_parent x pid p0 p1 (w\<lparr>xw_procs := xw_procs w @ [pc]\<rparr>)))))
   }"

text \<open>The words of the environment, with the variables of the session at its end, and of the arguments.\<close>

definition xexec_words :: "addr \<Rightarrow> cstring \<Rightarrow> cstring \<Rightarrow> Spuser \<Rightarrow> cstring \<Rightarrow> xworld \<Rightarrow> (int \<times> xworld) option" where
  "xexec_words x exec cwd user t w = do {
     s \<leftarrow> xw_sess w x;
     let (m, w) = x_alloc w;
     (_, env) \<leftarrow> bufwrite m (xs_env s) (word_of_int (xb_size (xs_env s))) (word_of_nat (length t)) t;
     w \<leftarrow> upd_sess x (xs_env_update (\<lambda>_. env)) w;
     (envtok, w) \<leftarrow> buf_words env w;
     (case envtok of
        None \<Rightarrow> Some (0, w)
      | Some envtok \<Rightarrow> do {
          (argvtok, w) \<leftarrow> buf_words (xs_argv s) w;
          (case argvtok of
             None \<Rightarrow> Some (0, w)
           | Some argvtok \<Rightarrow> xexec_fork x exec cwd user envtok argvtok w)
        })
   }"

text \<open>
  The room for the variables is computed without the number, the group and the second copy of the
  directory; printing past it is a fault. The result is 1 with the process started.
\<close>

definition xexec :: "addr \<Rightarrow> cstring option \<Rightarrow> cstring option \<Rightarrow> Spuser \<Rightarrow> xworld \<Rightarrow> (int \<times> xworld) option" where
  "xexec x exec cwd user w = do {
     s \<leftarrow> xw_sess w x;
     (case exec of
        None \<Rightarrow> Some (0, sp_werror (Some (cstr ''executable not found'')) EIO w)
      | Some exec \<Rightarrow>
          if xs_state s = Wiped then Some (0, sp_werror (Some (cstr ''session wiped'')) EIO w)
          else do {
            q \<leftarrow> xs_ctlreq s;
            (case sp_malloc w of
               (None, w) \<Rightarrow> Some (0, w)
             | (Some _, w) \<Rightarrow> do {
                 gid \<leftarrow> xs_gid s;
                 let t = xcpupath s gid (cq_address q);
                 if length t + 1 > length (xs_dirpath s) + length (cq_address q) + 256 then None
                 else xexec_words x exec (case cwd of None \<Rightarrow> xs_dirpath s | Some d \<Rightarrow> d) user t w
               })
          })
   }"

section \<open>Commands\<close>

definition session_set_id :: "addr \<Rightarrow> cstring \<Rightarrow> xworld \<Rightarrow> (int \<times> xworld) option" where
  "session_set_id x idt w = do {
     let gid = takeWhile (\<lambda>c. c \<noteq> 47) idt;
     let p = drop (Suc (length gid)) idt;
     let (lid, t) = strtol p;
     let lid = int_of_long lid;
     if p \<noteq> [] \<and> t \<noteq> [] then Some (0, sp_werror (Some (cstr ''syntax error'')) EIO w)
     else if p \<noteq> [] \<and> lid < 0 then Some (0, sp_werror (Some (cstr ''negative id not permitted'')) EIO w)
     else do {
       let (m, w) = (if gid \<noteq> [] then x_alloc w else (None, w));
       w \<leftarrow> (if gid \<noteq> [] then upd_sess x (xs_gid_update (\<lambda>_. map_option (\<lambda>_. gid) m)) w else Some w);
       w \<leftarrow> (if p \<noteq> [] then upd_sess x (xs_lid_update (\<lambda>_. lid)) w else Some w);
       Some (1, w)
     }
   }"

text \<open>
  One command. The first word and the arguments are pointers of a list that ends with a NULL:
  comparing a missing one is a fault. \<^verbatim>\<open>redirect\<close> compares with the sense turned around. The
  distribution to other nodes that \<^verbatim>\<open>clone\<close> starts (\<^verbatim>\<open>tspawn.c\<close>) is known by its result only.
\<close>

definition execute_session_command :: "addr \<Rightarrow> Spuser \<Rightarrow> cstring \<Rightarrow> xworld \<Rightarrow> (int \<times> xworld) option" where
  "execute_session_command x user line w = do {
     let (mem, w) = x_alloc w;
     toks \<leftarrow> tokenize (mem \<noteq> None) line;
     (case toks of
        Inr (cmd # args) \<Rightarrow>
          (let arg = (\<lambda>i. if i < length args then Some (args ! i) else None);
               bad = (\<lambda>msg w. Some (0, sp_werror (Some (cstr msg)) EIO w))
           in
           if cmd = cstr ''exec'' then do {
             s \<leftarrow> xw_sess w x;
             (case arg 0 of
                None \<Rightarrow> xexec x (xs_execpath s) None user w
              | Some path \<Rightarrow> xexec x (Some path) (if arg 1 = Some [] then None else arg 1) user w)
           }
           else if cmd = cstr ''clone'' then
             (if arg 0 = None \<or> arg 1 = None then bad ''too few arguments'' w
              else if snd (strtol (the (arg 0))) \<noteq> [] then bad ''invalid maxsession format'' w
              else (let (r, w) = x_sys w in if r < 0 then Some (0, sp_uerror (xw_errno w) w) else Some (- 1, w)))
           else if cmd = cstr ''wipe'' then do { w \<leftarrow> session_wipe x w; Some (1, w) }
           else if cmd = cstr ''signal'' then do {
             sig \<leftarrow> arg 0;
             s \<leftarrow> xw_sess w x;
             let n = signame2signo sig;
             if n < 0 then bad ''unsupported signal'' w
             else Some (1, if xs_pid s \<noteq> - 1 then x_kill (xs_pid s) n w else w)
           }
           else if cmd = cstr ''type'' then do {
             t \<leftarrow> arg 0;
             if t = cstr ''normal'' then do { w \<leftarrow> upd_sess x (xs_mode_update (\<lambda>_. Normal)) w; Some (1, w) }
             else if t = cstr ''persistent'' then do { w \<leftarrow> upd_sess x (xs_mode_update (\<lambda>_. Persistent)) w; Some (1, w) }
             else bad ''invalid session type'' w
           }
           else if cmd = cstr ''close'' then do {
             t \<leftarrow> arg 0;
             if t = cstr ''stdin'' then do { w \<leftarrow> x_close_local xs_stin xs_stin_update x w; Some (1, w) }
             else if t = cstr ''stdout'' then do { w \<leftarrow> x_close_local xs_stout xs_stout_update x w; Some (1, w) }
             else if t = cstr ''stderr'' then do { w \<leftarrow> x_close_local xs_sterr xs_sterr_update x w; Some (1, w) }
             else bad ''invalid argument'' w
           }
           else if cmd = cstr ''id'' then
             (case arg 0 of None \<Rightarrow> bad ''argument expected'' w | Some t \<Rightarrow> session_set_id x t w)
           else if cmd = cstr ''add'' \<or> cmd = cstr ''del'' then Some (0, w)
           else if cmd = cstr ''redirect'' then
             (if arg 0 = None \<or> arg 1 = None then bad ''too few arguments'' w
              else do {
                let (m, w) = x_alloc w;
                let buf = map_option (\<lambda>_. the (arg 1)) m;
                w \<leftarrow> (if arg 0 \<noteq> Some (cstr ''stdin'') then upd_sess x (xs_stinfname_update (\<lambda>_. buf)) w
                  else upd_sess x (xs_stoutfname_update (\<lambda>_. buf)) w);
                Some (1, w)
              })
           else bad ''unknown command'' w)
      | _ \<Rightarrow> None)
   }"

section \<open>The control file\<close>

text \<open>\<^verbatim>\<open>strchr\<close> in the memory \<open>m\<close> from \<open>i\<close>; a memory without a zero is a fault.\<close>

function strchr :: "u8 list \<Rightarrow> u8 \<Rightarrow> nat \<Rightarrow> nat option option" where
  "strchr m c i =
     (if length m \<le> i then None
      else if m ! i = c then Some (Some i)
      else if m ! i = 0 then Some None
      else strchr m c (Suc i))"
  by pat_completeness auto
termination by (relation "measure (\<lambda>(m, c, i). length m - i)") auto

declare strchr.simps [simp del]

lemma strchr_bounds: "strchr m c i = Some (Some p) \<Longrightarrow> i \<le> p \<and> p < length m"
proof (induction m c i rule: strchr.induct)
  case (1 m c i)
  then show ?case by (auto simp: strchr.simps [of m c i] split: if_splits)
qed

text \<open>
  The loop of \<^verbatim>\<open>sctl_execute_commands\<close> over the memory \<open>m\<close>, which no command changes, from
  \<open>xs_ctlpos\<close>; \<open>cmd\<close> is \<^verbatim>\<open>execute_session_command\<close>. The result is that of the last command, or
  nothing when there was none.
\<close>

function sctl_loop ::
  "(cstring \<Rightarrow> xworld \<Rightarrow> (int \<times> xworld) option) \<Rightarrow> addr \<Rightarrow> u8 list \<Rightarrow> nat \<Rightarrow> int option \<Rightarrow> xworld \<Rightarrow>
     (int option \<times> u8 list \<times> nat \<times> xworld) option"
where
  "sctl_loop cmd x m pos n w =
     (case strchr m 10 pos of
        None \<Rightarrow> None
      | Some None \<Rightarrow> Some (n, m, pos, w)
      | Some (Some p) \<Rightarrow> do {
          w \<leftarrow> upd_sess x (xs_ctl_update (\<lambda>_. Some (m[p := 0]))) w;
          (n, w) \<leftarrow> cmd (c_string (drop pos (m[p := 0]))) w;
          w \<leftarrow> upd_sess x (xs_ctlpos_update (\<lambda>_. Suc p)) w;
          if n \<le> 0 then Some (Some n, m[p := 0], Suc p, w)
          else sctl_loop cmd x (m[p := 0]) (Suc p) (Some n) w
        })"
  by pat_completeness auto
termination
  by (relation "measure (\<lambda>(cmd, x, m, pos, n, w). length m - pos)") (auto dest: strchr_bounds)

declare sctl_loop.simps [simp del]

text \<open>
  An error is answered with the name kept by \<^verbatim>\<open>sp_werror\<close>; without one the code follows a NULL.
  That the name is the constant \<^verbatim>\<open>Enomem\<close> itself is never the case. The count of the answer is not
  set when no command was complete.
\<close>

definition sctl_finish :: "addr \<Rightarrow> xsreply \<Rightarrow> xworld \<Rightarrow> xworld option" where
  "sctl_finish x rc w = do {
     s \<leftarrow> xw_sess w x;
     q \<leftarrow> xs_ctlreq s;
     upd_sess x (\<lambda>s. s\<lparr>xs_ctlreq := None, xs_ctlpos := 0\<rparr>) (x_respond (cq_req q) rc w)
   }"

text \<open>The commands were carried out: the answer counts what is not kept for the next write.\<close>

definition sctl_done :: "addr \<Rightarrow> Xctlreq \<Rightarrow> u8 list \<Rightarrow> nat \<Rightarrow> xworld \<Rightarrow> xworld option" where
  "sctl_done x q m pos w = do {
     let rest = c_string (drop pos m);
     let k = cq_count q - word_of_nat (length rest);
     let (m', n) = (if rest = [] then (None, cq_count q)
       else if pos > 0 then (Some (rest @ [0] @ drop (Suc (length rest)) m), if sint k < 0 then cq_count q else k)
       else (Some m, xw_uninit w));
     w \<leftarrow> upd_sess x (xs_ctl_update (\<lambda>_. m')) w;
     sctl_finish x (SWrite n) w
   }"

definition sctl_execute_with :: "(cstring \<Rightarrow> xworld \<Rightarrow> (int \<times> xworld) option) \<Rightarrow> addr \<Rightarrow> xworld \<Rightarrow> xworld option" where
  "sctl_execute_with cmd x w = do {
     s \<leftarrow> xw_sess w x;
     (case xs_ctlreq s of
        None \<Rightarrow> Some w
      | Some q \<Rightarrow> do {
          m \<leftarrow> xs_ctl s;
          (n, m, pos, w) \<leftarrow> sctl_loop cmd x m (xs_ctlpos s) None w;
          if n = Some 0 then do {
            ename \<leftarrow> fst (sp_rerror w);
            sctl_finish x (SError ename (snd (sp_rerror w))) (sp_werror None 0 w)
          }
          else if (\<exists>k. n = Some k \<and> k < 0) then Some w
          else sctl_done x q m pos w
        })
   }"

definition sctl_execute_commands :: "addr \<Rightarrow> Spuser \<Rightarrow> xworld \<Rightarrow> xworld option" where
  "sctl_execute_commands x user w = sctl_execute_with (execute_session_command x user) x w"

text \<open>The result of a write is always \<open>- 1\<close>: it is answered by the commands, or by the error set.\<close>

definition sctl_write_with ::
  "(cstring \<Rightarrow> xworld \<Rightarrow> (int \<times> xworld) option) \<Rightarrow> addr \<Rightarrow> Xctlreq \<Rightarrow> u8 list \<Rightarrow> xworld \<Rightarrow> xworld option"
where
  "sctl_write_with cmd x q data w = do {
     s \<leftarrow> xw_sess w x;
     if xs_ctlreq s \<noteq> None then Some (sp_werror (Some (cstr ''cannot write while the session is cloning'')) EIO w)
     else do {
       old \<leftarrow> (case xs_ctl s of None \<Rightarrow> Some [] | Some m \<Rightarrow> if 0 \<in> set m then Some (c_string m) else None);
       (case x_alloc w of
          (None, w) \<Rightarrow> Some (sp_werror (Some Enomem) ENOMEM w)
        | (Some _, w) \<Rightarrow>
            if length data < unat (cq_count q) then None
            else do {
              w \<leftarrow> upd_sess x (\<lambda>s. s\<lparr>xs_ctl := Some (old @ take (unat (cq_count q)) data @ [0]), xs_ctlreq := Some q, xs_ctlpos := 0\<rparr>) w;
              sctl_execute_with cmd x w
            })
     }
   }"

definition sctl_write :: "addr \<Rightarrow> Xctlreq \<Rightarrow> u8 list \<Rightarrow> Spuser \<Rightarrow> xworld \<Rightarrow> xworld option" where
  "sctl_write x q data user w = sctl_write_with (execute_session_command x user) x q data w"

definition sctl_wstat :: "addr \<Rightarrow> u64 \<Rightarrow> xworld \<Rightarrow> (bool \<times> xworld) option" where
  "sctl_wstat x len w =
     (if len = 0 then do { w \<leftarrow> upd_sess x (xs_ctl_update (\<lambda>_. None)) w; Some (True, w) }
      else Some (False, sp_werror (Some (cstr ''unsupported operation'')) EPERM w))"

section \<open>Other files of a session\<close>

definition sctl_read :: "addr \<Rightarrow> u64 \<Rightarrow> u32 \<Rightarrow> u8 list \<Rightarrow> xworld \<Rightarrow> (int \<times> u8 list) option" where
  "sctl_read x offset count data w = do {
     s \<leftarrow> xw_sess w x;
     cutstr data (int_of_u64 offset) (sint count) (Some (dec_int (xs_pid s))) 0
   }"

definition id_read :: "addr \<Rightarrow> u64 \<Rightarrow> u32 \<Rightarrow> u8 list \<Rightarrow> xworld \<Rightarrow> (int \<times> u8 list \<times> xworld) option" where
  "id_read x offset count data w = do {
     s \<leftarrow> xw_sess w x;
     gid \<leftarrow> xs_gid s;
     (case sp_malloc w of
        (None, w) \<Rightarrow> Some (- 1, data, w)
      | (Some _, w) \<Rightarrow> do {
          (n, data) \<leftarrow> cutstr data (int_of_u64 offset) (sint count) (Some (gid @ [47] @ dec_int (xs_lid s))) 0;
          Some (n, data, w)
        })
   }"

text \<open>The length shown for \<^verbatim>\<open>env\<close>.\<close>

definition env_openfid :: "addr \<Rightarrow> xworld \<Rightarrow> u64 option" where
  "env_openfid x w = do { s \<leftarrow> xw_sess w x; Some (word_of_int (xb_size (xs_env s))) }"

text \<open>Reads and writes of the standard files; the result says whether the request waits.\<close>

definition x_addreq ::
  "(Xsession \<Rightarrow> Xfilepipe) \<Rightarrow> ((Xfilepipe \<Rightarrow> Xfilepipe) \<Rightarrow> Xsession \<Rightarrow> Xsession) \<Rightarrow> addr \<Rightarrow> Xpipereq \<Rightarrow> xworld \<Rightarrow> (bool \<times> xworld) option"
where
  "x_addreq get upd x r w = do {
     s \<leftarrow> xw_sess w x;
     (ok, p, io) \<leftarrow> pip_addreq r (get s) (xw_io w);
     w \<leftarrow> upd_sess x (upd (\<lambda>_. p)) (w\<lparr>xw_io := io\<rparr>);
     Some (ok, w)
   }"

definition filepipe_read ::
  "(Xsession \<Rightarrow> Xfilepipe) \<Rightarrow> ((Xfilepipe \<Rightarrow> Xfilepipe) \<Rightarrow> Xsession \<Rightarrow> Xsession) \<Rightarrow> addr \<Rightarrow> Xpipereq \<Rightarrow> xworld \<Rightarrow> (bool \<times> xworld) option"
where
  "filepipe_read get upd x r w = do {
     s \<leftarrow> xw_sess w x;
     if xp_direction (get s) \<noteq> PRead then Some (False, sp_werror (Some (cstr ''Cannot read'')) EPERM w)
     else x_addreq get upd x r w
   }"

definition filepipe_write ::
  "(Xsession \<Rightarrow> Xfilepipe) \<Rightarrow> ((Xfilepipe \<Rightarrow> Xfilepipe) \<Rightarrow> Xsession \<Rightarrow> Xsession) \<Rightarrow> addr \<Rightarrow> Xpipereq \<Rightarrow> xworld \<Rightarrow> (bool \<times> xworld) option"
where
  "filepipe_write get upd x r w = do {
     s \<leftarrow> xw_sess w x;
     if xp_direction (get s) \<noteq> PWrite then Some (False, sp_werror (Some (cstr ''Cannot write'')) EPERM w)
     else x_addreq get upd x r w
   }"

definition stdio_read :: "addr \<Rightarrow> Xpipereq \<Rightarrow> xworld \<Rightarrow> (bool \<times> xworld) option" where
  "stdio_read x r w = x_addreq xs_stout xs_stout_update x r w"

definition stdio_write :: "addr \<Rightarrow> Xpipereq \<Rightarrow> xworld \<Rightarrow> (bool \<times> xworld) option" where
  "stdio_write x r w = x_addreq xs_stin xs_stin_update x r w"

lemma upd_sess_at: "xw_sess w x = Some s \<Longrightarrow> upd_sess x f w = Some (w\<lparr>xw_sess := (xw_sess w)(x := Some (f s))\<rparr>)"
  by (simp add: upd_sess_def)

section \<open>A state\<close>

definition sample_session :: Xsession where
  "sample_session = (new_session 0 \<lparr>xb_size = 3, xb_buf = Some [65, 61, 49]\<rparr> (Some []) [47, 116]
       (sample_pipe\<lparr>xp_direction := PWrite, xp_reqs := [], xp_buflen := 0\<rparr>, sample_pipe\<lparr>xp_reqs := []\<rparr>, sample_pipe\<lparr>xp_reqs := []\<rparr>))
     \<lparr>xs_refcount := 2, xs_argv := \<lparr>xb_size = 7, xb_buf = Some [97, 32, 39, 98, 32, 99, 39]\<rparr>,
      xs_sroot := Some \<lparr>sr_refcount = 12, sr_children = session_files\<rparr>\<rparr>"

definition sample_xworld :: xworld where
  "sample_xworld = \<lparr>xw_sess = (\<lambda>a. if a = 1 then Some sample_session else None), xw_naddr = 2, xw_sessions = [1], xw_root = [1],
     xw_next_id = 1, xw_envbuf = bufinit, xw_tmppath = [47, 116], xw_io = sample_pio, xw_ename = [], xw_ecode = 0, xw_out = [],
     xw_sys = (\<lambda>i. if i = 1 then 77 else 5), xw_pipes = (\<lambda>_. Some (8, 9)), xw_tmpname = (\<lambda>_. [47, 116]), xw_nsys = 0,
     xw_errno = 0, xw_strerror = (\<lambda>_. []), xw_kills = [], xw_procs = [], xw_chld_fd = 0, xw_uninit = 0\<rparr>"

end
