(* ===== verification/XcpuCtl.thy ===== *)
theory XcpuCtl
  imports XcpuSession
begin

text \<open>
  The control file of a session: the lines written to it are carried out as commands, in whatever
  pieces they arrive, and what a command that fails leaves behind.
\<close>

section \<open>Lines\<close>

text \<open>The complete lines of a text that goes on behind \<open>cur\<close>, and what is left of it.\<close>

fun cmd_lines :: "u8 list \<Rightarrow> u8 list \<Rightarrow> u8 list list \<times> u8 list" where
  "cmd_lines cur [] = ([], cur)"
| "cmd_lines cur (c # t) =
     (if c = 10 then (let (ls, r) = cmd_lines [] t in (cur # ls, r)) else cmd_lines (cur @ [c]) t)"

lemma cmd_lines_append:
  "cmd_lines cur (a @ b) = (let (ls, r) = cmd_lines cur a; (ls', r') = cmd_lines r b in (ls @ ls', r'))"
  by (induction cur a rule: cmd_lines.induct) (auto simp: Let_def split: prod.splits)

lemma cmd_lines_none: "10 \<notin> set t \<Longrightarrow> cmd_lines cur t = ([], cur @ t)"
  by (induction t arbitrary: cur) auto

lemma cmd_lines_cons:
  "10 \<notin> set a \<Longrightarrow> cmd_lines cur (a @ 10 # b) = ((cur @ a) # fst (cmd_lines [] b), snd (cmd_lines [] b))"
  by (simp add: cmd_lines_append cmd_lines_none split: prod.splits)

lemma cmd_lines_rest: "10 \<notin> set cur \<Longrightarrow> 10 \<notin> set (snd (cmd_lines cur t))"
  by (induction cur t rule: cmd_lines.induct) (auto split: prod.splits)

lemma cmd_lines_rest_set: "set (snd (cmd_lines cur t)) \<subseteq> set cur \<union> set t"
  by (induction cur t rule: cmd_lines.induct) (auto split: prod.splits)

lemma cmd_lines_rest_length: "length (snd (cmd_lines cur t)) \<le> length cur + length t"
  by (induction cur t rule: cmd_lines.induct) (fastforce split: prod.splits)+

lemma cmd_lines_rest_new: "10 \<in> set t \<Longrightarrow> length (snd (cmd_lines cur t)) < length t"
proof -
  assume "10 \<in> set t"
  then obtain a b where t: "t = a @ 10 # b" "10 \<notin> set a" by (meson split_list_first)
  then show ?thesis using cmd_lines_rest_length [of "[]" b] by (simp add: cmd_lines_cons)
qed

lemma strchr_at: "c \<notin> set a \<Longrightarrow> 0 \<notin> set a \<Longrightarrow> strchr (pre @ a @ b) c (length pre) = strchr (pre @ a @ b) c (length pre + length a)"
proof (induction a arbitrary: pre)
  case (Cons d a)
  have "strchr (pre @ (d # a) @ b) c (length pre) = strchr ((pre @ [d]) @ a @ b) c (length (pre @ [d]))"
    using Cons.prems by (subst strchr.simps) auto
  moreover have "strchr ((pre @ [d]) @ a @ b) c (length (pre @ [d])) = strchr ((pre @ [d]) @ a @ b) c (length (pre @ [d]) + length a)"
    using Cons.IH [of "pre @ [d]"] Cons.prems by auto
  ultimately show ?case by simp
qed simp

lemma strchr_found: "c \<notin> set a \<Longrightarrow> 0 \<notin> set a \<Longrightarrow> strchr (pre @ a @ c # b) c (length pre) = Some (Some (length pre + length a))"
  by (simp add: strchr_at) (simp add: strchr.simps nth_append)

lemma strchr_none: "c \<notin> set a \<Longrightarrow> 0 \<notin> set a \<Longrightarrow> c \<noteq> 0 \<Longrightarrow> strchr (pre @ a @ 0 # b) c (length pre) = Some None"
  by (simp add: strchr_at) (simp add: strchr.simps nth_append)

lemma c_string_zero: "0 \<notin> set a \<Longrightarrow> c_string (a @ 0 # b) = a"
  by (rule c_string_at)

section \<open>What the control file leaves alone\<close>

definition ctl_view :: "addr \<Rightarrow> xworld \<Rightarrow> xworld" where
  "ctl_view x w = w\<lparr>xw_out := [], xw_io := (xw_io w)\<lparr>io_nallocs := 0\<rparr>,
     xw_sess := (xw_sess w)(x := map_option (\<lambda>s. s\<lparr>xs_ctl := None, xs_ctlreq := None, xs_ctlpos := 0\<rparr>) (xw_sess w x))\<rparr>"

text \<open>
  From \<open>w\<close> the commands were carried out one after the other with success, and nothing else
  happened but to the memory of the commands, the requests that wait for them and the answers.
\<close>

fun carried :: "(cstring \<Rightarrow> xworld \<Rightarrow> (int \<times> xworld) option) \<Rightarrow> addr \<Rightarrow> cstring list \<Rightarrow> xworld \<Rightarrow> xworld \<Rightarrow> bool" where
  "carried cmd x [] w w' \<longleftrightarrow> ctl_view x w' = ctl_view x w"
| "carried cmd x (l # ls) w w' \<longleftrightarrow>
     (\<exists>w1 n w2. ctl_view x w1 = ctl_view x w \<and> cmd l w1 = Some (n, w2) \<and> n > 0 \<and> carried cmd x ls w2 w')"

lemma carried_start: "ctl_view x v = ctl_view x w \<Longrightarrow> carried cmd x ls v w' = carried cmd x ls w w'"
  by (cases ls) auto

lemma carried_end: "carried cmd x ls w v \<Longrightarrow> ctl_view x w' = ctl_view x v \<Longrightarrow> carried cmd x ls w w'"
  by (induction ls arbitrary: w) auto

lemma carried_append: "carried cmd x ls w v \<Longrightarrow> carried cmd x ls' v w' \<Longrightarrow> carried cmd x (ls @ ls') w w'"
  by (induction ls arbitrary: w) (auto dest: carried_start)

lemma ctl_view_upd:
  "upd_sess x f w = Some w' \<Longrightarrow> (\<And>s. (f s)\<lparr>xs_ctl := None, xs_ctlreq := None, xs_ctlpos := 0\<rparr> = s\<lparr>xs_ctl := None, xs_ctlreq := None, xs_ctlpos := 0\<rparr>) \<Longrightarrow>
    ctl_view x w' = ctl_view x w"
  by (auto simp: upd_sess_def ctl_view_def)

lemma ctl_view_out [simp]: "ctl_view x (x_respond req rc w) = ctl_view x w"
  by (simp add: ctl_view_def x_respond_def)

lemma ctl_view_alloc: "x_alloc w = (m, w') \<Longrightarrow> ctl_view x w' = ctl_view x w"
  by (auto simp: x_alloc_def io_alloc_def ctl_view_def)

lemma cmd_lines_start: "10 \<notin> set r \<Longrightarrow> cmd_lines r d = cmd_lines [] (r @ d)"
  by (simp add: cmd_lines_append cmd_lines_none split: prod.splits)

text \<open>What is kept of the commands for the next write.\<close>

definition ctl_holds :: "Xsession \<Rightarrow> u8 list \<Rightarrow> bool" where
  "ctl_holds s r \<longleftrightarrow> (case xs_ctl s of None \<Rightarrow> r = [] | Some m \<Rightarrow> 0 \<in> set m \<and> c_string m = r)"

text \<open>The count in the answer to a write of \<open>d\<close> behind \<open>r\<close>, without a line that of a variable not set.\<close>

definition ctl_count :: "u32 \<Rightarrow> u8 list \<Rightarrow> u8 list \<Rightarrow> u32" where
  "ctl_count u r d =
     (let rest = snd (cmd_lines r d)
      in if rest = [] then word_of_nat (length d)
         else if 10 \<in> set d then word_of_nat (length d - length rest) else u)"

lemma sctl_done_at:
  assumes "xw_sess w x = Some s" "xs_ctlreq s = Some q" "m = pre @ rest @ [0]" "0 \<notin> set rest" "pos = length pre"
    and "cq_count q = word_of_nat n" "n < 2147483648" "pre \<noteq> [] \<longrightarrow> length rest \<le> n"
  shows "\<exists>w' s'. sctl_done x q m pos w = Some w' \<and> ctl_view x w' = ctl_view x w \<and> xw_sess w' x = Some s' \<and> ctl_holds s' rest \<and>
    xs_ctlreq s' = None \<and> xw_out w' = xw_out w @ [(cq_req q, SWrite (if rest = [] then word_of_nat n
      else if pre \<noteq> [] then word_of_nat (n - length rest) else xw_uninit w))] \<and>
    xw_uninit w' = xw_uninit w \<and> io_allocs (xw_io w') = io_allocs (xw_io w)"
proof -
  have cs: "c_string (drop pos m) = rest" using assms(3-5) c_string_zero [of rest "[]"] by simp
  let ?k = "cq_count q - word_of_nat (length rest)"
  let ?n = "if rest = [] then cq_count q else if pos > 0 then if sint ?k < 0 then cq_count q else ?k else xw_uninit w"
  let ?m = "if rest = [] then None else if pos > 0 then Some (rest @ [0] @ drop (Suc (length rest)) m) else Some m"
  have n: "?n = (if rest = [] then word_of_nat n else if pre \<noteq> [] then word_of_nat (n - length rest) else xw_uninit w)"
  proof (cases "pre = []")
    case False
    then have le: "length rest \<le> n" using assms(8) by simp
    then have "?k = word_of_nat (n - length rest)" using assms(6) by (simp add: of_nat_diff)
    moreover have "sint (word_of_nat (n - length rest) :: u32) \<ge> 0" using assms(7) by (simp only: sint_of_nat_u32)
    ultimately show ?thesis using False assms(5,6) by simp
  qed (use assms(5,6) in simp)
  let ?s = "s\<lparr>xs_ctl := ?m, xs_ctlreq := None, xs_ctlpos := 0\<rparr>"
  let ?w = "w\<lparr>xw_sess := (xw_sess w)(x := Some ?s), xw_out := xw_out w @ [(cq_req q, SWrite ?n)]\<rparr>"
  have "sctl_done x q m pos w = Some ?w"
    using assms(1,2) by (simp add: sctl_done_def cs Let_def upd_sess_def sctl_finish_def x_respond_def)
  moreover have "ctl_view x ?w = ctl_view x w" using assms(1) by (simp add: ctl_view_def)
  moreover have "ctl_holds ?s rest"
    using assms(3-5) cs c_string_zero [of rest] by (simp add: ctl_holds_def)
  ultimately show ?thesis using n by simp
qed

fun sctl_writes :: "(cstring \<Rightarrow> xworld \<Rightarrow> (int \<times> xworld) option) \<Rightarrow> addr \<Rightarrow> (Xctlreq \<times> u8 list) list \<Rightarrow> xworld \<Rightarrow> xworld option" where
  "sctl_writes cmd x [] w = Some w"
| "sctl_writes cmd x ((q, d) # ws) w = do { w \<leftarrow> sctl_write_with cmd x q d w; sctl_writes cmd x ws w }"

fun ctl_answers :: "u32 \<Rightarrow> u8 list \<Rightarrow> (Xctlreq \<times> u8 list) list \<Rightarrow> (addr \<times> xsreply) list" where
  "ctl_answers u r [] = []"
| "ctl_answers u r ((q, d) # ws) = (cq_req q, SWrite (ctl_count u r d)) # ctl_answers u (snd (cmd_lines r d)) ws"

section \<open>The contract of the commands\<close>

text \<open>
  What the control file relies on in a command: it succeeds, keeps the session, and touches
  neither the control file, nor the answers, nor what is known of the memory.
\<close>

locale control_commands =
  fixes cmd :: "cstring \<Rightarrow> xworld \<Rightarrow> (int \<times> xworld) option" and x :: addr and plain :: "cstring \<Rightarrow> bool"
  assumes carries: "plain l \<Longrightarrow> xw_sess w x = Some s \<Longrightarrow> \<forall>i. io_allocs (xw_io w) i \<noteq> None \<Longrightarrow> \<exists>n w' s'. cmd l w = Some (n, w') \<and> n > 0 \<and> xw_sess w' x = Some s' \<and>
      xs_ctl s' = xs_ctl s \<and> xs_ctlreq s' = xs_ctlreq s \<and> xs_ctlpos s' = xs_ctlpos s \<and> xw_out w' = xw_out w \<and>
      xw_uninit w' = xw_uninit w \<and> io_allocs (xw_io w') = io_allocs (xw_io w)"
begin

lemma sctl_loop_at:
  assumes "0 \<notin> set t" "\<forall>l\<in>set (fst (cmd_lines [] t)). plain l"
    and "xw_sess w x = Some s" "\<forall>i. io_allocs (xw_io w) i \<noteq> None"
    and "xs_ctl s = Some (pre @ t @ [0])"
  shows "\<exists>n' pre' w' s'. sctl_loop cmd x (pre @ t @ [0]) (length pre) n w =
      Some (n', pre' @ snd (cmd_lines [] t) @ [0], length pre', w') \<and>
    carried cmd x (fst (cmd_lines [] t)) w w' \<and> (10 \<notin> set t \<longrightarrow> n' = n \<and> pre' = pre) \<and> (10 \<in> set t \<longrightarrow> (\<exists>k>0. n' = Some k) \<and> pre' \<noteq> []) \<and>
    xw_sess w' x = Some s' \<and> xs_ctlreq s' = xs_ctlreq s \<and> xw_out w' = xw_out w \<and> xw_uninit w' = xw_uninit w \<and>
    io_allocs (xw_io w') = io_allocs (xw_io w)"
  using assms
proof (induction "length t" arbitrary: t pre n w s rule: less_induct)
  case less
  show ?case
  proof (cases "10 \<in> set t")
    case False
    have "strchr (pre @ t @ 0 # []) 10 (length pre) = Some None" using False less.prems(1) by (intro strchr_none) auto
    then show ?thesis using False less.prems(3,4)
      by (subst sctl_loop.simps) (simp add: cmd_lines_none)
  next
    case True
    then obtain a b where t: "t = a @ 10 # b" "10 \<notin> set a" by (meson split_list_first)
    let ?m = "pre @ t @ [0]" and ?pre = "pre @ a @ [0]"
    have z: "0 \<notin> set a" "0 \<notin> set b" using less.prems(1) t by auto
    have f: "strchr ?m 10 (length pre) = Some (Some (length pre + length a))"
      using strchr_found [of 10 a pre "b @ [0]"] t z by simp
    have m: "?m[length pre + length a := 0] = ?pre @ b @ [0]" using t by (simp add: list_update_append)
    have c: "c_string (drop (length pre) (?pre @ b @ [0])) = a" using c_string_zero [OF z(1), of "b @ [0]"] by simp
    have ls: "fst (cmd_lines [] t) = a # fst (cmd_lines [] b)" "snd (cmd_lines [] t) = snd (cmd_lines [] b)"
      using t cmd_lines_cons [of a "[]" b] by simp_all
    define w1 where "w1 = w\<lparr>xw_sess := (xw_sess w)(x := Some (s\<lparr>xs_ctl := Some (?pre @ b @ [0])\<rparr>))\<rparr>"
    have u1: "upd_sess x (xs_ctl_update (\<lambda>_. Some (?pre @ b @ [0]))) w = Some w1"
      using less.prems(3) by (simp add: upd_sess_at w1_def)
    have v1: "ctl_view x w1 = ctl_view x w" by (rule ctl_view_upd [OF u1]) simp
    have "plain a" using less.prems(2) ls by simp
    moreover have "xw_sess w1 x = Some (s\<lparr>xs_ctl := Some (?pre @ b @ [0])\<rparr>)" "\<forall>i. io_allocs (xw_io w1) i \<noteq> None"
      using less.prems(4) by (simp_all add: w1_def)
    ultimately obtain k w2 s2 where 2: "cmd a w1 = Some (k, w2)" "k > 0" "xw_sess w2 x = Some s2"
      "xs_ctl s2 = Some (?pre @ b @ [0])" "xs_ctlreq s2 = xs_ctlreq s" "xw_out w2 = xw_out w" "xw_uninit w2 = xw_uninit w"
      "io_allocs (xw_io w2) = io_allocs (xw_io w)"
      using carries [of a w1] by (fastforce simp: w1_def)
    define w3 where "w3 = w2\<lparr>xw_sess := (xw_sess w2)(x := Some (s2\<lparr>xs_ctlpos := Suc (length pre + length a)\<rparr>))\<rparr>"
    have u3: "upd_sess x (xs_ctlpos_update (\<lambda>_. Suc (length pre + length a))) w2 = Some w3"
      using 2(3) by (simp add: upd_sess_at w3_def)
    have v3: "ctl_view x w3 = ctl_view x w2" by (rule ctl_view_upd [OF u3]) simp
    have 3: "xw_sess w3 x = Some (s2\<lparr>xs_ctlpos := Suc (length pre + length a)\<rparr>)" "\<forall>i. io_allocs (xw_io w3) i \<noteq> None"
      using 2 less.prems(4) by (simp_all add: w3_def)
    have "sctl_loop cmd x ?m (length pre) n w = sctl_loop cmd x (?pre @ b @ [0]) (length ?pre) (Some k) w3"
      using 2(2) by (subst sctl_loop.simps) (simp only: f m option.simps u1 bind_simps c, simp add: 2(1) u3)
    moreover have "length b < length t" "\<forall>l\<in>set (fst (cmd_lines [] b)). plain l"
      "xs_ctl (s2\<lparr>xs_ctlpos := Suc (length pre + length a)\<rparr>) = Some (?pre @ b @ [0])"
      using t less.prems(2) ls 2(4) by simp_all
    note less.hyps [OF this(1) z(2) this(2) 3 this(3), of "Some k"]
    then obtain n' pre' w' s' where ih: "sctl_loop cmd x (?pre @ b @ [0]) (length ?pre) (Some k) w3 =
        Some (n', pre' @ snd (cmd_lines [] b) @ [0], length pre', w')" "carried cmd x (fst (cmd_lines [] b)) w3 w'"
      "10 \<notin> set b \<longrightarrow> n' = Some k \<and> pre' = ?pre" "10 \<in> set b \<longrightarrow> (\<exists>k>0. n' = Some k) \<and> pre' \<noteq> []"
      "xw_sess w' x = Some s'" "xs_ctlreq s' = xs_ctlreq (s2\<lparr>xs_ctlpos := Suc (length pre + length a)\<rparr>)"
      "xw_out w' = xw_out w3" "xw_uninit w' = xw_uninit w3" "io_allocs (xw_io w') = io_allocs (xw_io w3)"
      by blast
    moreover have "xs_ctlreq s' = xs_ctlreq s" "xw_out w' = xw_out w" "xw_uninit w' = xw_uninit w"
      "io_allocs (xw_io w') = io_allocs (xw_io w)"
      using ih(6-9) 2(5-8) by (simp_all add: w3_def)
    moreover have "carried cmd x (a # fst (cmd_lines [] b)) w w'"
      using v1 2(1,2) carried_start [OF v3, of cmd "fst (cmd_lines [] b)" w'] ih(2) by auto
    moreover have "(\<exists>k>0. n' = Some k) \<and> pre' \<noteq> []" using ih(3,4) 2(2) by (cases "10 \<in> set b") auto
    ultimately show ?thesis using True ls by (metis append.assoc)
  qed
qed

lemma sctl_write_at:
  assumes s: "xw_sess w x = Some s" "ctl_holds s r" "xs_ctlreq s = None" "\<forall>i. io_allocs (xw_io w) i \<noteq> None"
    and t: "10 \<notin> set r" "0 \<notin> set r" "0 \<notin> set d" "cq_count q = word_of_nat (length d)" "length d < 2147483648"
    and p: "\<forall>l\<in>set (fst (cmd_lines r d)). plain l"
  shows "\<exists>w' s'. sctl_write_with cmd x q d w = Some w' \<and> carried cmd x (fst (cmd_lines r d)) w w' \<and> xw_sess w' x = Some s' \<and>
    ctl_holds s' (snd (cmd_lines r d)) \<and> xs_ctlreq s' = None \<and>
    xw_out w' = xw_out w @ [(cq_req q, SWrite (ctl_count (xw_uninit w) r d))] \<and> xw_uninit w' = xw_uninit w \<and>
    io_allocs (xw_io w') = io_allocs (xw_io w)"
proof -
  let ?t = "r @ d" and ?rest = "snd (cmd_lines r d)"
  have start: "cmd_lines [] ?t = cmd_lines r d" using cmd_lines_start [OF t(1)] by simp
  obtain m w0 where a: "x_alloc w = (Some m, w0)" "xw_sess w0 = xw_sess w" "xw_out w0 = xw_out w" "xw_uninit w0 = xw_uninit w"
    "io_allocs (xw_io w0) = io_allocs (xw_io w)"
    using s(4) by (fastforce simp: x_alloc_def io_alloc_def)
  have old: "(case xs_ctl s of None \<Rightarrow> Some [] | Some m \<Rightarrow> if 0 \<in> set m then Some (c_string m) else None) = Some r"
    using s(2) by (auto simp: ctl_holds_def split: option.splits)
  have len: "unat (cq_count q) = length d" using t(4,5) by simp
  define s1 where "s1 = s\<lparr>xs_ctl := Some (r @ d @ [0]), xs_ctlreq := Some q, xs_ctlpos := 0\<rparr>"
  define w1 where "w1 = w0\<lparr>xw_sess := (xw_sess w0)(x := Some s1)\<rparr>"
  have v1: "ctl_view x w1 = ctl_view x w"
    using ctl_view_alloc [OF a(1), of x] s(1) a(2) by (simp add: w1_def s1_def ctl_view_def)
  have 1: "xw_sess w1 x = Some s1" "xw_out w1 = xw_out w" "xw_uninit w1 = xw_uninit w" "io_allocs (xw_io w1) = io_allocs (xw_io w)"
    "xs_ctl s1 = Some ([] @ ?t @ [0])" "xs_ctlreq s1 = Some q" "xs_ctlpos s1 = 0"
    using a by (simp_all add: w1_def s1_def)
  have wr: "sctl_write_with cmd x q d w = sctl_execute_with cmd x w1"
    using s(1,3) a(1,2) old len by (simp add: sctl_write_with_def upd_sess_at w1_def s1_def)
  have "0 \<notin> set ?t" "\<forall>l\<in>set (fst (cmd_lines [] ?t)). plain l" "\<forall>i. io_allocs (xw_io w1) i \<noteq> None"
    using t p start s(4) 1(4) by auto
  from sctl_loop_at [OF this(1,2) 1(1) this(3) 1(5), of None, unfolded start 1(2-4,6) append_Nil list.size(3)]
  obtain n' pre' w2 s2 where l: "sctl_loop cmd x (?t @ [0]) 0 None w1 = Some (n', pre' @ ?rest @ [0], length pre', w2)"
    "carried cmd x (fst (cmd_lines r d)) w1 w2" "10 \<notin> set ?t \<longrightarrow> n' = None \<and> pre' = []" "10 \<in> set ?t \<longrightarrow> (\<exists>k>0. n' = Some k) \<and> pre' \<noteq> []"
    "xw_sess w2 x = Some s2" "xs_ctlreq s2 = Some q" "xw_out w2 = xw_out w" "xw_uninit w2 = xw_uninit w"
    "io_allocs (xw_io w2) = io_allocs (xw_io w)"
    by blast
  have e: "sctl_execute_with cmd x w1 = sctl_done x q (pre' @ ?rest @ [0]) (length pre') w2"
  proof -
    have "n' \<noteq> Some 0" "\<not> (\<exists>k. n' = Some k \<and> k < 0)" using l(3,4) by (cases "10 \<in> set ?t"; auto)+
    then show ?thesis using 1 l(1) by (auto simp: sctl_execute_with_def)
  qed
  have "0 \<notin> set ?rest" using cmd_lines_rest_set [of r d] t by blast
  moreover have "length ?rest \<le> length d" if "pre' \<noteq> []"
    using that l(3) t(1) cmd_lines_rest_new [of d r] by (cases "10 \<in> set d") auto
  ultimately obtain w' s' where d: "sctl_done x q (pre' @ ?rest @ [0]) (length pre') w2 = Some w'" "ctl_view x w' = ctl_view x w2"
    "xw_sess w' x = Some s'" "ctl_holds s' ?rest" "xs_ctlreq s' = None"
    "xw_out w' = xw_out w2 @ [(cq_req q, SWrite (if ?rest = [] then word_of_nat (length d)
      else if pre' \<noteq> [] then word_of_nat (length d - length ?rest) else xw_uninit w2))]"
    "xw_uninit w' = xw_uninit w2" "io_allocs (xw_io w') = io_allocs (xw_io w2)"
    using sctl_done_at [OF l(5,6) refl _ refl t(4,5)] by blast
  have "pre' \<noteq> [] \<longleftrightarrow> 10 \<in> set d" using l(3,4) t(1) by auto
  then have c: "(if ?rest = [] then word_of_nat (length d) else if pre' \<noteq> [] then word_of_nat (length d - length ?rest) else xw_uninit w2) =
      ctl_count (xw_uninit w) r d"
    using l(8) by (simp add: ctl_count_def)
  have "carried cmd x (fst (cmd_lines r d)) w w'"
    using carried_end [OF l(2) d(2)] carried_start [OF v1] by simp
  then show ?thesis using wr e d l(7-9) unfolding c by auto
qed

text \<open>Writes one after the other.\<close>

lemma sctl_writes_at:
  assumes "xw_sess w x = Some s" "ctl_holds s r" "xs_ctlreq s = None" "\<forall>i. io_allocs (xw_io w) i \<noteq> None"
    and "10 \<notin> set r" "0 \<notin> set r"
    and "\<forall>(q, d)\<in>set ws. 0 \<notin> set d \<and> cq_count q = word_of_nat (length d) \<and> length d < 2147483648"
    and "\<forall>l\<in>set (fst (cmd_lines r (concat (map snd ws)))). plain l"
  shows "\<exists>w' s'. sctl_writes cmd x ws w = Some w' \<and> carried cmd x (fst (cmd_lines r (concat (map snd ws)))) w w' \<and>
    xw_sess w' x = Some s' \<and> ctl_holds s' (snd (cmd_lines r (concat (map snd ws)))) \<and>
    xw_out w' = xw_out w @ ctl_answers (xw_uninit w) r ws"
  using assms
proof (induction ws arbitrary: w s r)
  case (Cons qd ws)
  obtain q d where qd: "qd = (q, d)" by (cases qd)
  let ?r = "snd (cmd_lines r d)" and ?all = "concat (map snd ws)"
  have ap: "fst (cmd_lines r (d @ ?all)) = fst (cmd_lines r d) @ fst (cmd_lines ?r ?all)"
    "snd (cmd_lines r (d @ ?all)) = snd (cmd_lines ?r ?all)"
    by (simp_all add: cmd_lines_append split: prod.splits)
  have d: "0 \<notin> set d" "cq_count q = word_of_nat (length d)" "length d < 2147483648" using Cons.prems(7) qd by auto
  have p: "\<forall>l\<in>set (fst (cmd_lines r d)). plain l" "\<forall>l\<in>set (fst (cmd_lines ?r ?all)). plain l"
    using Cons.prems(8) qd ap(1) by auto
  obtain w1 s1 where 1: "sctl_write_with cmd x q d w = Some w1" "carried cmd x (fst (cmd_lines r d)) w w1" "xw_sess w1 x = Some s1"
    "ctl_holds s1 ?r" "xs_ctlreq s1 = None" "xw_out w1 = xw_out w @ [(cq_req q, SWrite (ctl_count (xw_uninit w) r d))]"
    "xw_uninit w1 = xw_uninit w" "io_allocs (xw_io w1) = io_allocs (xw_io w)"
    using sctl_write_at [OF Cons.prems(1-6) d p(1)] by blast
  have "10 \<notin> set ?r" "0 \<notin> set ?r"
    using cmd_lines_rest [OF Cons.prems(5)] cmd_lines_rest_set [of r d] Cons.prems(6) d(1) by auto
  then obtain w' s' where 2: "sctl_writes cmd x ws w1 = Some w'" "carried cmd x (fst (cmd_lines ?r ?all)) w1 w'"
    "xw_sess w' x = Some s'" "ctl_holds s' (snd (cmd_lines ?r ?all))" "xw_out w' = xw_out w1 @ ctl_answers (xw_uninit w1) ?r ws"
    using Cons.IH [OF 1(3-5)] Cons.prems(4,7) 1(8) p(2) by auto
  then show ?case using 1 carried_append [OF 1(2) 2(2)] qd by (auto simp: ap)
qed (simp add: ctl_view_def)

end

section \<open>The commands that need nothing of the system\<close>

text \<open>
  Commands that set an attribute of the session, send a signal or close a pipe; the others start a
  process, another node or the end of the session, and are seen in full elsewhere.
\<close>

definition plain_words :: "cstring list \<Rightarrow> bool" where
  "plain_words ws \<longleftrightarrow>
     (\<exists>t \<in> {cstr ''normal'', cstr ''persistent''}. ws = [cstr ''type'', t]) \<or>
     (\<exists>t \<in> {cstr ''stdin'', cstr ''stdout'', cstr ''stderr''}. ws = [cstr ''close'', t]) \<or>
     (case ws of [c, t] \<Rightarrow> c = cstr ''signal'' \<and> 0 \<le> signame2signo t \<or> c = cstr ''id'' \<and> 47 \<notin> set t
      | [c, a, b] \<Rightarrow> c = cstr ''redirect'' | _ \<Rightarrow> False)"

definition plain_command :: "cstring \<Rightarrow> bool" where
  "plain_command l \<longleftrightarrow> (\<exists>ws. tokenize True l = Some (Inr ws) \<and> plain_words ws)"

lemma cmd_words [simp]:
  "cstr ''type'' \<noteq> cstr ''exec''" "cstr ''type'' \<noteq> cstr ''clone''" "cstr ''type'' \<noteq> cstr ''wipe''" "cstr ''type'' \<noteq> cstr ''signal''"
  "cstr ''close'' \<noteq> cstr ''exec''" "cstr ''close'' \<noteq> cstr ''clone''" "cstr ''close'' \<noteq> cstr ''wipe''" "cstr ''close'' \<noteq> cstr ''signal''"
  "cstr ''close'' \<noteq> cstr ''type''"
  "cstr ''signal'' \<noteq> cstr ''exec''" "cstr ''signal'' \<noteq> cstr ''clone''" "cstr ''signal'' \<noteq> cstr ''wipe''"
  "cstr ''id'' \<noteq> cstr ''exec''" "cstr ''id'' \<noteq> cstr ''clone''" "cstr ''id'' \<noteq> cstr ''wipe''" "cstr ''id'' \<noteq> cstr ''signal''"
  "cstr ''id'' \<noteq> cstr ''type''" "cstr ''id'' \<noteq> cstr ''close''"
  "cstr ''redirect'' \<noteq> cstr ''exec''" "cstr ''redirect'' \<noteq> cstr ''clone''" "cstr ''redirect'' \<noteq> cstr ''wipe''" "cstr ''redirect'' \<noteq> cstr ''signal''"
  "cstr ''redirect'' \<noteq> cstr ''type''" "cstr ''redirect'' \<noteq> cstr ''close''" "cstr ''redirect'' \<noteq> cstr ''id''"
  "cstr ''redirect'' \<noteq> cstr ''add''" "cstr ''redirect'' \<noteq> cstr ''del''"
  "cstr ''persistent'' \<noteq> cstr ''normal''" "cstr ''stdout'' \<noteq> cstr ''stdin''" "cstr ''stderr'' \<noteq> cstr ''stdin''" "cstr ''stderr'' \<noteq> cstr ''stdout''"
  by code_simp+

lemma x_alloc_at:
  assumes "\<forall>i. io_allocs (xw_io w) i \<noteq> None"
  shows "\<exists>m. x_alloc w = (Some m, w\<lparr>xw_io := (xw_io w)\<lparr>io_nallocs := io_nallocs (xw_io w) + 1\<rparr>\<rparr>)"
  using assms by (fastforce simp: x_alloc_def io_alloc_def)

lemma x_close_local_at:
  "xw_sess w x = Some s \<Longrightarrow> \<exists>w' p. x_close_local get upd x w = Some w' \<and> xw_sess w' x = Some (upd (\<lambda>_. p) s) \<and>
    xw_out w' = xw_out w \<and> xw_uninit w' = xw_uninit w \<and> io_allocs (xw_io w') = io_allocs (xw_io w)"
  by (auto simp: x_close_local_def pip_close_local_def io_close_def upd_sess_def)

lemma plain_wordsE:
  assumes "plain_words ws"
  obtains (type_) t where "ws = [cstr ''type'', t]" "t = cstr ''normal'' \<or> t = cstr ''persistent''"
    | (close) t where "ws = [cstr ''close'', t]" "t = cstr ''stdin'' \<or> t = cstr ''stdout'' \<or> t = cstr ''stderr''"
    | (signal) t where "ws = [cstr ''signal'', t]" "0 \<le> signame2signo t"
    | (id_) t where "ws = [cstr ''id'', t]" "47 \<notin> set t"
    | (redirect) a b where "ws = [cstr ''redirect'', a, b]"
  using assms by (auto simp: plain_words_def split: list.splits)

lemma takeWhile_no: "c \<notin> set t \<Longrightarrow> takeWhile (\<lambda>d. d \<noteq> c) t = t"
  by (induction t) auto

lemma execute_plain:
  assumes "plain_command l" "xw_sess w x = Some s" "\<forall>i. io_allocs (xw_io w) i \<noteq> None"
  shows "\<exists>n w' s'. execute_session_command x user l w = Some (n, w') \<and> n > 0 \<and> xw_sess w' x = Some s' \<and>
      xs_ctl s' = xs_ctl s \<and> xs_ctlreq s' = xs_ctlreq s \<and> xs_ctlpos s' = xs_ctlpos s \<and> xw_out w' = xw_out w \<and>
      xw_uninit w' = xw_uninit w \<and> io_allocs (xw_io w') = io_allocs (xw_io w)"
proof -
  obtain ws where ws: "tokenize True l = Some (Inr ws)" "plain_words ws" using assms(1) by (auto simp: plain_command_def)
  let ?w = "w\<lparr>xw_io := (xw_io w)\<lparr>io_nallocs := io_nallocs (xw_io w) + 1\<rparr>\<rparr>"
  obtain m where m: "x_alloc w = (Some m, ?w)" using x_alloc_at [OF assms(3)] by blast
  have s: "xw_sess ?w x = Some s" using assms(2) by simp
  note ex = execute_session_command_def
  from ws(2) show ?thesis
  proof (cases rule: plain_wordsE)
    case (type_ t)
    then show ?thesis using ws(1) m upd_sess_at [OF s] by (auto simp: ex Let_def)
  next
    case (close t)
    have c: "execute_session_command x user l w =
        do { w \<leftarrow> (if t = cstr ''stdin'' then x_close_local xs_stin xs_stin_update x ?w
               else if t = cstr ''stdout'' then x_close_local xs_stout xs_stout_update x ?w
               else x_close_local xs_sterr xs_sterr_update x ?w); Some (1, w) }"
      using close ws(1) m by (auto simp: ex Let_def)
    consider "t = cstr ''stdin''" | "t = cstr ''stdout''" | "t = cstr ''stderr''" using close by blast
    then show ?thesis
    proof cases
      case 1
      then show ?thesis using x_close_local_at [OF s, of xs_stin xs_stin_update] unfolding c by auto
    next
      case 2
      then show ?thesis using x_close_local_at [OF s, of xs_stout xs_stout_update] unfolding c by auto
    next
      case 3
      then show ?thesis using x_close_local_at [OF s, of xs_sterr xs_sterr_update] unfolding c by auto
    qed
  next
    case (signal t)
    then show ?thesis using ws(1) m s by (simp add: ex Let_def x_kill_def)
  next
    case (id_ t)
    obtain m2 where m2: "x_alloc ?w = (Some m2, ?w\<lparr>xw_io := (xw_io ?w)\<lparr>io_nallocs := io_nallocs (xw_io ?w) + 1\<rparr>\<rparr>)"
      using x_alloc_at [of ?w] assms(3) by auto
    have c: "execute_session_command x user l w = session_set_id x t ?w"
      using id_ ws(1) m by (simp add: ex Let_def)
    show ?thesis unfolding c
      using m2 s id_(2) by (cases "t = []") (auto simp: session_set_id_def takeWhile_no upd_sess_at split: prod.splits)
  next
    case (redirect a b)
    obtain m2 where m2: "x_alloc ?w = (Some m2, ?w\<lparr>xw_io := (xw_io ?w)\<lparr>io_nallocs := io_nallocs (xw_io ?w) + 1\<rparr>\<rparr>)"
      using x_alloc_at [of ?w] assms(3) by auto
    then show ?thesis using redirect ws(1) m s by (simp add: ex Let_def upd_sess_def)
  qed
qed

interpretation session_commands: control_commands "execute_session_command x user" x plain_command for x user
  by unfold_locales (rule execute_plain)

section \<open>The control file of a session\<close>


section \<open>A command that fails\<close>

lemma execute_unknown:
  assumes "tokenize True l = Some (Inr (c # args))"
    and "c \<notin> set (map cstr [''exec'', ''clone'', ''wipe'', ''signal'', ''type'', ''close'', ''id'', ''add'', ''del'', ''redirect''])"
    and "x_alloc w = (Some m, w0)"
  shows "execute_session_command x user l w = Some (0, sp_werror (Some (cstr ''unknown command'')) EIO w0)"
  using assms by (simp add: execute_session_command_def Let_def)

text \<open>C26. A command that is refused is not forgotten: its line stays in the memory of the control file, without its newline, and the
  next line that is written is carried out with the refused one in front of it.\<close>

theorem sctl_failed_line_stays:
  assumes s: "xw_sess w x = Some s" "xs_ctl s = None" "xs_ctlreq s = None" "\<forall>i. io_allocs (xw_io w) i \<noteq> None"
    and l: "0 \<notin> set l" "10 \<notin> set l" "cq_count q = word_of_nat (length l + 1)" "length l < 1073741824"
    and u: "tokenize True l = Some (Inr (c # args))"
      "c \<notin> set (map cstr [''exec'', ''clone'', ''wipe'', ''signal'', ''type'', ''close'', ''id'', ''add'', ''del'', ''redirect''])"
    and d: "0 \<notin> set d" "10 \<notin> set d" "cq_count q' = word_of_nat (length d + 1)" "length d < 1073741824" "plain_command (l @ d)"
  shows "\<exists>w1 w2. sctl_write x q (l @ [10]) user w = Some w1 \<and>
    xw_out w1 = xw_out w @ [(cq_req q, SError (cstr ''unknown command'') EIO)] \<and>
    sctl_write x q' (d @ [10]) user w1 = Some w2 \<and> carried (execute_session_command x user) x [l @ d] w1 w2 \<and>
    xw_out w2 = xw_out w1 @ [(cq_req q', SWrite (word_of_nat (length d + 1)))]"
proof -
  let ?w0 = "w\<lparr>xw_io := (xw_io w)\<lparr>io_nallocs := io_nallocs (xw_io w) + 1\<rparr>\<rparr>"
  obtain m where a: "x_alloc w = (Some m, ?w0)" using x_alloc_at [OF s(4)] by blast
  let ?m = "l @ [10, 0]" and ?m' = "l @ [0, 0]" and ?cmd = "execute_session_command x user"
  define s1 where "s1 = s\<lparr>xs_ctl := Some ?m, xs_ctlreq := Some q, xs_ctlpos := 0\<rparr>"
  define w1 where "w1 = ?w0\<lparr>xw_sess := (xw_sess w)(x := Some s1)\<rparr>"
  define s2 where "s2 = s1\<lparr>xs_ctl := Some ?m'\<rparr>"
  define w2 where "w2 = w1\<lparr>xw_sess := (xw_sess w1)(x := Some s2)\<rparr>"
  have w1: "xw_sess w1 x = Some s1" "xs_ctl s1 = Some ?m" "xs_ctlreq s1 = Some q" "xs_ctlpos s1 = 0" "xw_out w1 = xw_out w"
    "io_allocs (xw_io w1) = io_allocs (xw_io w)" by (simp_all add: w1_def s1_def)
  have w2: "xw_sess w2 x = Some s2" "xs_ctlreq s2 = Some q" "xw_out w2 = xw_out w" "io_allocs (xw_io w2) = io_allocs (xw_io w)"
    "upd_sess x (xs_ctl_update (\<lambda>_. Some ?m')) w1 = Some w2"
    using w1 by (simp_all add: w2_def s2_def upd_sess_def)
  have "unat (cq_count q) = length l + 1" unfolding l(3) using l(4) by (intro of_nat_unat_len32) simp
  then have wr: "sctl_write x q (l @ [10]) user w = sctl_execute_with ?cmd x w1"
    using s a by (simp add: sctl_write_def sctl_write_with_def upd_sess_at w1_def s1_def)
  have f: "strchr ?m 10 0 = Some (Some (length l))" using strchr_found [OF l(2,1), of "[]" "[0]"] by simp
  have up: "?m[length l := 0] = ?m'" by (simp add: list_update_append)
  have c: "c_string (drop 0 ?m') = l" using c_string_zero [OF l(1), of "[0]"] by simp
  have "\<forall>i. io_allocs (xw_io w2) i \<noteq> None" using s(4) w2(4) by simp
  then obtain k where a2: "x_alloc w2 = (Some k, w2\<lparr>xw_io := (xw_io w2)\<lparr>io_nallocs := io_nallocs (xw_io w2) + 1\<rparr>\<rparr>)" (is "_ = (_, ?w3)")
    using x_alloc_at by blast
  define w4 where "w4 = sp_werror (Some (cstr ''unknown command'')) EIO ?w3"
  have ex: "?cmd l w2 = Some (0, w4)" unfolding w4_def by (rule execute_unknown [OF u a2])
  have w4: "xw_sess w4 x = Some s2" "xw_out w4 = xw_out w" "io_allocs (xw_io w4) = io_allocs (xw_io w)"
    "sp_rerror w4 = (Some (cstr ''unknown command''), EIO)"
    using w2 by (simp_all add: w4_def sp_werror_def sp_rerror_def EIO_def)
  define w5 where "w5 = w4\<lparr>xw_sess := (xw_sess w4)(x := Some (s2\<lparr>xs_ctlpos := Suc (length l)\<rparr>))\<rparr>"
  have u5: "upd_sess x (xs_ctlpos_update (\<lambda>_. Suc (length l))) w4 = Some w5" using w4(1) by (simp add: upd_sess_at w5_def)
  have loop: "sctl_loop ?cmd x ?m 0 None w1 = Some (Some 0, ?m', Suc (length l), w5)"
    by (subst sctl_loop.simps) (simp only: f up option.simps w2(5) bind_simps c, simp add: ex u5)
  let ?s5 = "s2\<lparr>xs_ctlreq := None, xs_ctlpos := 0\<rparr>"
  obtain w6 where w6: "sctl_execute_with ?cmd x w1 = Some w6" "xw_sess w6 x = Some ?s5"
    "xw_out w6 = xw_out w @ [(cq_req q, SError (cstr ''unknown command'') EIO)]" "io_allocs (xw_io w6) = io_allocs (xw_io w)"
  proof -
    let ?w = "sp_werror None 0 w5"
    have "sp_rerror w5 = sp_rerror w4" by (simp add: w5_def sp_rerror_def)
    then have "sctl_execute_with ?cmd x w1 = sctl_finish x (SError (cstr ''unknown command'') EIO) ?w"
      using w1 loop w4(4) by (simp add: sctl_execute_with_def)
    moreover have "xw_sess ?w x = Some (s2\<lparr>xs_ctlpos := Suc (length l)\<rparr>)" "xw_out ?w = xw_out w" "io_allocs (xw_io ?w) = io_allocs (xw_io w)"
      using w4 by (simp_all add: sp_werror_def w5_def)
    ultimately show ?thesis using that w2(2) by (simp add: sctl_finish_def x_respond_def upd_sess_def)
  qed
  have h: "ctl_holds ?s5 l" using c by (simp add: ctl_holds_def s2_def)
  have lines: "cmd_lines l (d @ [10]) = ([l @ d], [])" using cmd_lines_cons [OF d(2), of l "[]"] by simp
  have ok: "xs_ctlreq ?s5 = None" "\<forall>i. io_allocs (xw_io w6) i \<noteq> None" "0 \<notin> set (d @ [10])" "cq_count q' = word_of_nat (length (d @ [10]))"
    "length (d @ [10]) < 2147483648" "\<forall>k\<in>set (fst (cmd_lines l (d @ [10]))). plain_command k"
    using w6(4) s(4) d lines by simp_all
  obtain w7 where "sctl_write_with (execute_session_command x user) x q' (d @ [10]) w6 = Some w7"
    "carried (execute_session_command x user) x [l @ d] w6 w7"
    "xw_out w7 = xw_out w6 @ [(cq_req q', SWrite (ctl_count (xw_uninit w6) l (d @ [10])))]"
    using session_commands.sctl_write_at [OF w6(2) h ok(1,2) l(2,1) ok(3-6), of user] lines by auto
  then show ?thesis using wr w6(1,3) lines by (simp add: sctl_write_def ctl_count_def)
qed

section \<open>Witnesses\<close>

definition sample_user :: Spuser where
  "sample_user = \<lparr>su_uname = [117], su_uid = 7, su_dfltgroup = \<lparr>sg_gname = [103], sg_gid = 8\<rparr>, su_groups = []\<rparr>"


lemma sctl_failed_line_stays_witness:
  "\<exists>w1 w2. sctl_write 1 \<lparr>cq_req = 10, cq_count = 2, cq_address = []\<rparr> (cstr ''t'' @ [10]) sample_user sample_xworld = Some w1 \<and>
    xw_out w1 = [(10, SError (cstr ''unknown command'') 5)] \<and>
    sctl_write 1 \<lparr>cq_req = 11, cq_count = 11, cq_address = []\<rparr> (cstr ''ype normal'' @ [10]) sample_user w1 = Some w2 \<and>
    carried (execute_session_command 1 sample_user) 1 [cstr ''type normal''] w1 w2"
proof -
  have t: "tokenize True (cstr ''t'') = Some (Inr [cstr ''t''])" by code_simp
  have u: "cstr ''t'' \<notin> set (map cstr [''exec'', ''clone'', ''wipe'', ''signal'', ''type'', ''close'', ''id'', ''add'', ''del'', ''redirect''])"
    by code_simp
  have "tokenize True (cstr ''t'' @ cstr ''ype normal'') = Some (Inr [cstr ''type'', cstr ''normal''])" by code_simp
  then have p: "plain_command (cstr ''t'' @ cstr ''ype normal'')" by (simp add: plain_command_def plain_words_def)
  have j: "cstr ''t'' @ cstr ''ype normal'' = cstr ''type normal''" by code_simp
  have s: "xw_sess sample_xworld 1 = Some sample_session" "xs_ctl sample_session = None" "xs_ctlreq sample_session = None"
    "\<forall>i. io_allocs (xw_io sample_xworld) i \<noteq> None" "xw_out sample_xworld = []"
    by (simp_all add: sample_xworld_def sample_session_def new_session_def sample_pio_def)
  have n: "0 \<notin> set (cstr ''t'')" "10 \<notin> set (cstr ''t'')" "(2 :: u32) = word_of_nat (length (cstr ''t'') + 1)" "length (cstr ''t'') < 1073741824"
    "0 \<notin> set (cstr ''ype normal'')" "10 \<notin> set (cstr ''ype normal'')" "(11 :: u32) = word_of_nat (length (cstr ''ype normal'') + 1)"
    "length (cstr ''ype normal'') < 1073741824"
    by (simp_all add: cstr_def)
  have "cq_count \<lparr>cq_req = 10, cq_count = 2, cq_address = []\<rparr> = word_of_nat (length (cstr ''t'') + 1)"
    "cq_count \<lparr>cq_req = 11, cq_count = 11, cq_address = []\<rparr> = word_of_nat (length (cstr ''ype normal'') + 1)"
    using n(3,7) by simp_all
  from sctl_failed_line_stays [OF s(1-4) n(1,2) this(1) n(4) t u n(5,6) this(2) n(8) p, of sample_user]
  show ?thesis unfolding s(5) j append_Nil by (simp add: EIO_def del: carried.simps) blast
qed

end
