(* ===== verification/XcpuLife.thy ===== *)
theory XcpuLife
  imports XcpuSession
begin

text \<open>
  The life of a session: who holds a reference to it, and that it is there as long as someone
  does.
\<close>

section \<open>What the operations leave alone\<close>

definition xmem :: "xworld \<Rightarrow> bool" where
  "xmem w \<longleftrightarrow> (\<forall>i. io_allocs (xw_io w) i \<noteq> None)"

definition xcore :: "xworld \<Rightarrow> xworld \<Rightarrow> bool" where
  "xcore w w' \<longleftrightarrow> xw_sess w' = xw_sess w \<and> xw_naddr w' = xw_naddr w \<and> xw_sessions w' = xw_sessions w \<and> xw_root w' = xw_root w \<and>
     io_allocs (xw_io w') = io_allocs (xw_io w)"

definition xframe :: "addr \<Rightarrow> xworld \<Rightarrow> xworld \<Rightarrow> bool" where
  "xframe x w w' \<longleftrightarrow> (\<forall>y. y \<noteq> x \<longrightarrow> xw_sess w' y = xw_sess w y) \<and> xw_naddr w' = xw_naddr w \<and> xw_sessions w' = xw_sessions w \<and>
     xw_root w' = xw_root w \<and> io_allocs (xw_io w') = io_allocs (xw_io w)"

lemma xcore_refl [simp]: "xcore w w" by (simp add: xcore_def)
lemma xcore_trans: "xcore w v \<Longrightarrow> xcore v w' \<Longrightarrow> xcore w w'" by (simp add: xcore_def)
lemma xframe_refl [simp]: "xframe x w w" by (simp add: xframe_def)
lemma xframe_trans: "xframe x w v \<Longrightarrow> xframe x v w' \<Longrightarrow> xframe x w w'" by (simp add: xframe_def)
lemma xcore_frame: "xcore w w' \<Longrightarrow> xframe x w w'" by (simp add: xcore_def xframe_def)
lemma xmem_core: "xcore w w' \<Longrightarrow> xmem w' = xmem w" by (simp add: xcore_def xmem_def)
lemma xmem_frame: "xframe x w w' \<Longrightarrow> xmem w' = xmem w" by (simp add: xframe_def xmem_def)
lemma xcoreD: "xcore w w' \<Longrightarrow> xw_sess w' = xw_sess w" by (simp add: xcore_def)

lemma x_alloc_mem: "xmem w \<Longrightarrow> \<exists>m w'. x_alloc w = (Some m, w') \<and> xcore w w' \<and> xw_out w' = xw_out w"
  by (fastforce simp: x_alloc_def io_alloc_def xcore_def xmem_def)

lemma sp_malloc_mem: "xmem w \<Longrightarrow> \<exists>m w'. sp_malloc w = (Some m, w') \<and> xcore w w' \<and> xw_out w' = xw_out w"
  using x_alloc_mem [of w] by (auto simp: sp_malloc_def)

lemma upd_sess_frame:
  "xw_sess w x = Some s \<Longrightarrow> \<exists>w'. upd_sess x f w = Some w' \<and> xframe x w w' \<and> xw_sess w' x = Some (f s) \<and> xw_out w' = xw_out w"
  by (auto simp: upd_sess_def xframe_def)

lemma cutstr_safe:
  assumes "length target = nat c" "0 \<le> c"
  shows "\<exists>n d. cutstr target off c src 0 = Some (n, d)"
proof (cases src)
  case (Some s)
  show ?thesis
  proof (cases "off > int (length s) \<or> 0 > off + c")
    case False
    then show ?thesis using Some assms by (auto simp: cutstr_def cutbuf_def memmove_def Let_def)
  qed (use Some in \<open>auto simp: cutstr_def cutbuf_def\<close>)
qed (simp add: cutstr_def)

definition count_ok :: "Xwaitreq \<Rightarrow> bool" where
  "count_ok wr \<longleftrightarrow> 0 \<le> sint (wr_count wr)"

lemma sint_of_int: "- 2147483648 \<le> i \<Longrightarrow> i < 2147483648 \<Longrightarrow> sint (word_of_int i :: u32) = i"
  by (simp add: signed_of_int signed_take_bit_int_eq_self)

lemma nat_sint_u32:
  assumes "0 \<le> sint (c :: u32)"
  shows "nat (sint c) = unat c"
proof (cases "unat c < 2147483648")
  case True
  then show ?thesis using sint_of_nat_u32 [of "unat c"] by simp
next
  case False
  have eq: "(word_of_int (uint c - 4294967296) :: u32) = word_of_int (uint c)"
    unfolding word_of_int_eq_iff by (simp add: take_bit_eq_mod mod_diff_right_eq [of _ 4294967296, symmetric])
  have "sint c = sint (word_of_int (uint c - 4294967296) :: u32)" by (simp only: eq word_of_int_uint)
  also have "\<dots> = uint c - 4294967296"
  proof (rule sint_of_int)
    have "uint c = int (unat c)" by simp
    then show "- 2147483648 \<le> uint c - 4294967296" using False by linarith
    show "uint c - 4294967296 < 2147483648" using uint_lt2p [of c] by simp
  qed
  finally show ?thesis using assms uint_lt2p [of c] by simp
qed

text \<open>What a read of \<^verbatim>\<open>wait\<close> is to get.\<close>

definition wait_text :: "cstring \<Rightarrow> Xwaitreq \<Rightarrow> u8 list" where
  "wait_text t wr = window (int_of_u64 (wr_offset wr)) (sint (wr_count wr)) t"

lemma cutstr_window:
  assumes "length target = nat c" "0 \<le> c" "0 \<le> off" "cutstr target off c (Some s) 0 = Some (n, d)"
  shows "take (nat n) d = window off c s"
proof (cases "off > int (length s)")
  case True
  then show ?thesis using assms(4) by (simp add: cutstr_def cutbuf_def window_def)
next
  case False
  define e where "e = (if int (length s) > off + c then off + c else int (length s))"
  have "memmove target 0 s off (e - off) = Some d" "n = e - off"
    using assms False by (auto simp: cutstr_def cutbuf_def e_def Let_def split: bind_splits if_splits)
  then have "take (nat n) d = take (nat (e - off)) (drop (nat off) s)"
    using assms(3) False by (auto simp: memmove_def split: if_splits)
  also have "\<dots> = take (nat c) (drop (nat off) s)"
  proof (cases "int (length s) > off + c")
    case False
    then have "nat (e - off) = length (drop (nat off) s)" "length (drop (nat off) s) \<le> nat c"
      using assms(3) \<open>\<not> off > int (length s)\<close> by (simp_all add: e_def nat_diff_distrib)
    then show ?thesis by simp
  qed (simp add: e_def)
  finally show ?thesis by (simp add: window_def)
qed

lemma answer_wait_at:
  assumes "xmem w" "count_ok wr"
  shows "\<exists>d w'. answer_wait st wr w = Some w' \<and> xcore w w' \<and> xw_out w' = xw_out w @ [(wr_req wr, SRead d)] \<and>
    (\<forall>t. st = Some t \<and> 0 \<le> int_of_u64 (wr_offset wr) \<longrightarrow> d = wait_text t wr)"
proof -
  obtain m w1 where m: "sp_malloc w = (Some m, w1)" "xcore w w1" "xw_out w1 = xw_out w" using sp_malloc_mem [OF assms(1)] by blast
  let ?target = "map m [0..<unat (wr_count wr)]"
  have len: "length ?target = nat (sint (wr_count wr))" "0 \<le> sint (wr_count wr)"
    using assms(2) by (simp_all add: count_ok_def nat_sint_u32)
  then obtain n d where nd: "cutstr ?target (int_of_u64 (wr_offset wr)) (sint (wr_count wr)) st 0 = Some (n, d)"
    using cutstr_safe by blast
  have "take (nat n) d = wait_text t wr" if "st = Some t" "0 \<le> int_of_u64 (wr_offset wr)" for t
    using cutstr_window [OF len that(2)] nd that(1) by (simp add: wait_text_def)
  moreover have "answer_wait st wr w = Some (x_respond (wr_req wr) (SRead (take (nat n) d)) w1)"
    using m(1) nd by (simp add: answer_wait_def)
  ultimately show ?thesis using m by (intro exI [of _ "take (nat n) d"]) (auto simp: x_respond_def xcore_def)
qed

lemma answer_waits_at:
  "xmem w \<Longrightarrow> \<forall>wr\<in>set wrs. count_ok wr \<Longrightarrow>
    \<exists>w' ds. answer_waits st wrs w = Some w' \<and> xcore w w' \<and> xw_out w' = xw_out w @ zip (map wr_req wrs) (map SRead ds) \<and> length ds = length wrs \<and>
      (\<forall>t. st = Some t \<and> (\<forall>wr\<in>set wrs. 0 \<le> int_of_u64 (wr_offset wr)) \<longrightarrow> ds = map (wait_text t) wrs)"
proof (induction wrs arbitrary: w)
  case (Cons wr wrs)
  obtain d w1 where 1: "answer_wait st wr w = Some w1" "xcore w w1" "xw_out w1 = xw_out w @ [(wr_req wr, SRead d)]"
    "\<forall>t. st = Some t \<and> 0 \<le> int_of_u64 (wr_offset wr) \<longrightarrow> d = wait_text t wr"
    using answer_wait_at [OF Cons.prems(1)] Cons.prems(2) by (meson list.set_intros(1))
  have "xmem w1" using 1(2) Cons.prems(1) by (simp add: xmem_core)
  then obtain w' ds where 2: "answer_waits st wrs w1 = Some w'" "xcore w1 w'"
      "xw_out w' = xw_out w1 @ zip (map wr_req wrs) (map SRead ds)" "length ds = length wrs"
      "\<forall>t. st = Some t \<and> (\<forall>wr\<in>set wrs. 0 \<le> int_of_u64 (wr_offset wr)) \<longrightarrow> ds = map (wait_text t) wrs"
    using Cons.IH [of w1] Cons.prems(2) by (meson list.set_intros(2))
  then show ?case using 1 xcore_trans [OF 1(2) 2(2)] by (intro exI [of _ w'] exI [of _ "d # ds"]) simp
qed simp

section \<open>The end of a session\<close>

lemma decref_parents_at:
  "xw_sess w x = Some s \<Longrightarrow> xs_sroot s = Some r \<Longrightarrow> sr_refcount r = k + int (length cs) \<Longrightarrow> 0 < k \<Longrightarrow>
    decref_parents cs x w = Some (w\<lparr>xw_sess := (xw_sess w)(x := Some (s\<lparr>xs_sroot := Some (r\<lparr>sr_refcount := k\<rparr>)\<rparr>))\<rparr>)"
proof (induction cs arbitrary: w s r)
  case Nil
  have "r\<lparr>sr_refcount := sr_refcount r\<rparr> = r" "s\<lparr>xs_sroot := xs_sroot s\<rparr> = s" by simp_all
  then have "s\<lparr>xs_sroot := Some (r\<lparr>sr_refcount := k\<rparr>)\<rparr> = s" using Nil by simp
  then have "(xw_sess w)(x := Some (s\<lparr>xs_sroot := Some (r\<lparr>sr_refcount := k\<rparr>)\<rparr>)) = xw_sess w" using Nil by auto
  then show ?case by simp
next
  case (Cons c cs)
  let ?r = "r\<lparr>sr_refcount := sr_refcount r - 1\<rparr>"
  let ?s = "s\<lparr>xs_sroot := Some ?r\<rparr>"
  let ?w = "w\<lparr>xw_sess := (xw_sess w)(x := Some ?s)\<rparr>"
  have "sroot_decref x w = Some ?w"
    using Cons.prems by (simp add: sroot_decref_def upd_sess_def)
  moreover have "decref_parents cs x ?w = Some (?w\<lparr>xw_sess := (xw_sess ?w)(x := Some (?s\<lparr>xs_sroot := Some (?r\<lparr>sr_refcount := k\<rparr>)\<rparr>))\<rparr>)"
    using Cons.prems by (intro Cons.IH) simp_all
  ultimately show ?case by (simp del: fun_upd_apply)
qed

lemma session_remove_dir_at:
  assumes "xw_sess w x = Some s" "xs_sroot s = Some r" "sr_refcount r = 1 + int (length (sr_children r))" "x \<in> set (xw_root w)"
  shows "session_remove_dir x w = Some (w\<lparr>xw_root := remove1 x (xw_root w),
      xw_sess := (xw_sess w)(x := Some (s\<lparr>xs_sroot := Some \<lparr>sr_refcount = 1, sr_children = []\<rparr>\<rparr>))\<rparr>)"
proof -
  let ?r = "r\<lparr>sr_children := []\<rparr>"
  let ?w = "w\<lparr>xw_root := remove1 x (xw_root w), xw_sess := (xw_sess w)(x := Some (s\<lparr>xs_sroot := Some ?r\<rparr>))\<rparr>"
  have "session_remove_dir x w = decref_parents (sr_children r) x ?w"
    using assms by (simp add: session_remove_dir_def upd_sess_def)
  also have "\<dots> = Some (?w\<lparr>xw_sess := (xw_sess ?w)(x := Some ((s\<lparr>xs_sroot := Some ?r\<rparr>)\<lparr>xs_sroot := Some (?r\<lparr>sr_refcount := 1\<rparr>)\<rparr>))\<rparr>)"
    using assms(3) by (intro decref_parents_at) simp_all
  also have "?r\<lparr>sr_refcount := 1\<rparr> = \<lparr>sr_refcount = 1, sr_children = []\<rparr>" by simp
  finally show ?thesis by (simp del: fun_upd_apply)
qed

lemma sroot_last:
  assumes "xw_sess w x = Some s" "xs_sroot s = Some r" "sr_refcount r = 1"
  shows "\<exists>w'. sroot_decref x w = Some w' \<and> xw_sess w' = (xw_sess w)(x := None) \<and> xw_naddr w' = xw_naddr w \<and>
    xw_sessions w' = remove1 x (xw_sessions w) \<and> xw_root w' = xw_root w \<and> io_allocs (xw_io w') = io_allocs (xw_io w) \<and> xw_out w' = xw_out w"
  using assms by (simp add: sroot_decref_def upd_sess_def session_destroy_def x_kill_def pip_destroy_def io_close_def Let_def)

text \<open>What keeps the directory of a session in order.\<close>

definition dir_ok :: "xworld \<Rightarrow> addr \<Rightarrow> Xsession \<Rightarrow> bool" where
  "dir_ok w x s \<longleftrightarrow>
     (if xs_state s = Wiped then xs_sroot s = Some \<lparr>sr_refcount = 1, sr_children = []\<rparr> \<and> x \<notin> set (xw_root w)
      else xs_sroot s = Some \<lparr>sr_refcount = 12, sr_children = session_files\<rparr> \<and> x \<in> set (xw_root w))"

lemma length_session_files [simp]: "length session_files = 11"
  by (simp add: session_files_def)

lemma session_wipe_at:
  assumes "xw_sess w x = Some s" "dir_ok w x s" "xmem w" "\<forall>wr\<in>set (xs_waitreqs s). count_ok wr"
  shows "\<exists>w' s'. session_wipe x w = Some w' \<and> xw_sess w' = (xw_sess w)(x := Some s') \<and> xw_naddr w' = xw_naddr w \<and>
    xw_sessions w' = xw_sessions w \<and> xw_root w' = remove1 x (xw_root w) \<and> io_allocs (xw_io w') = io_allocs (xw_io w) \<and>
    xs_state s' = Wiped \<and> xs_sroot s' = Some \<lparr>sr_refcount = 1, sr_children = []\<rparr> \<and> xs_refcount s' = xs_refcount s \<and>
    xs_mode s' = xs_mode s \<and> xs_pid s' = xs_pid s \<and> set (xs_waitreqs s') \<subseteq> set (xs_waitreqs s)"
proof (cases "xs_state s = Wiped")
  case True
  then have "session_wipe x w = Some w" "x \<notin> set (xw_root w)" "xs_sroot s = Some \<lparr>sr_refcount = 1, sr_children = []\<rparr>"
    using assms(1,2) by (simp_all add: session_wipe_def dir_ok_def)
  moreover have "xw_sess w = (xw_sess w)(x := Some s)" using assms(1) by auto
  ultimately show ?thesis using True by (intro exI [of _ w] exI [of _ s]) (simp add: remove1_idem)
next
  case False
  then have d: "xs_sroot s = Some \<lparr>sr_refcount = 12, sr_children = session_files\<rparr>" "x \<in> set (xw_root w)"
    using assms(2) by (simp_all add: dir_ok_def)
  define s1 where "s1 = s\<lparr>xs_state := Wiped\<rparr>"
  define w1 where "w1 = w\<lparr>xw_sess := (xw_sess w)(x := Some s1)\<rparr>"
  define s2 where "s2 = s1\<lparr>xs_sroot := Some \<lparr>sr_refcount = 1, sr_children = []\<rparr>\<rparr>"
  define w2 where "w2 = w1\<lparr>xw_root := remove1 x (xw_root w1), xw_sess := (xw_sess w1)(x := Some s2)\<rparr>"
  define w3 where "w3 = (if xs_pid s2 \<noteq> - 1 then x_kill (xs_pid s2) 15 w2 else w2)"
  define s4 where "s4 = s2\<lparr>xs_waitreqs := []\<rparr>"
  define w4 where "w4 = w3\<lparr>xw_sess := (xw_sess w3)(x := Some s4)\<rparr>"
  have w1: "upd_sess x (xs_state_update (\<lambda>_. Wiped)) w = Some w1" "xw_sess w1 x = Some s1"
    using assms(1) by (simp_all add: upd_sess_def w1_def s1_def)
  have w2: "session_remove_dir x w1 = Some w2" "xw_sess w2 x = Some s2"
    using session_remove_dir_at [OF w1(2)] d by (simp_all add: w2_def s2_def) (simp_all add: s1_def w1_def)
  have s3: "xw_sess w3 x = Some s2" using w2(2) by (simp add: w3_def x_kill_def)
  have w4: "upd_sess x (xs_waitreqs_update (\<lambda>_. [])) w3 = Some w4"
    using s3 by (simp add: upd_sess_def w4_def s4_def)
  have sel: "xw_sess w4 = (xw_sess w)(x := Some s4)" "xw_naddr w4 = xw_naddr w" "xw_sessions w4 = xw_sessions w"
    "xw_root w4 = remove1 x (xw_root w)" "io_allocs (xw_io w4) = io_allocs (xw_io w)"
    by (simp_all add: w4_def w3_def w2_def w1_def x_kill_def)
  have "xmem w4" using assms(3) sel(5) by (simp add: xmem_def)
  moreover have "\<forall>wr\<in>set (xs_waitreqs s2). count_ok wr" using assms(4) by (simp add: s2_def s1_def)
  ultimately obtain w' ds where 5: "answer_waits (xs_exitstatus s2) (xs_waitreqs s2) w4 = Some w'" "xcore w4 w'"
    using answer_waits_at by blast
  have "session_wipe x w = Some w'"
    using assms(1) False w1(1) w2 w4 5(1) unfolding session_wipe_def w3_def by simp
  then show ?thesis using 5(2) sel by (intro exI [of _ w'] exI [of _ s4]) (simp add: xcore_def s4_def s2_def s1_def)
qed

text \<open>Dropping a reference that is not the last, and the last.\<close>

lemma session_decref_more:
  assumes "xw_sess w x = Some s" "xs_refcount s \<noteq> 1"
  shows "session_decref x w = Some (w\<lparr>xw_sess := (xw_sess w)(x := Some (s\<lparr>xs_refcount := xs_refcount s - 1\<rparr>))\<rparr>)"
  using assms by (simp add: session_decref_def upd_sess_def Let_def)

lemma session_decref_last:
  assumes s: "xw_sess w x = Some s" "xs_refcount s = 1" "xs_mode s = Normal" "xs_state s \<noteq> Running"
    and "dir_ok w x s" "xmem w" "\<forall>wr\<in>set (xs_waitreqs s). count_ok wr"
  shows "\<exists>w'. session_decref x w = Some w' \<and> xw_sess w' = (xw_sess w)(x := None) \<and> xw_naddr w' = xw_naddr w \<and>
    xw_sessions w' = remove1 x (xw_sessions w) \<and> xw_root w' = remove1 x (xw_root w) \<and> io_allocs (xw_io w') = io_allocs (xw_io w)"
proof -
  define s1 where "s1 = s\<lparr>xs_refcount := 0\<rparr>"
  define w1 where "w1 = w\<lparr>xw_sess := (xw_sess w)(x := Some s1)\<rparr>"
  have u: "upd_sess x (xs_refcount_update (\<lambda>_. 0)) w = Some w1" using s(1) by (simp add: upd_sess_def w1_def s1_def)
  have "xw_sess w1 x = Some s1" "dir_ok w1 x s1" "xmem w1" "\<forall>wr\<in>set (xs_waitreqs s1). count_ok wr"
    using assms by (simp_all add: w1_def s1_def dir_ok_def xmem_def)
  from session_wipe_at [OF this] obtain w2 s2 where 2: "session_wipe x w1 = Some w2" "xw_sess w2 = (xw_sess w1)(x := Some s2)"
    "xw_naddr w2 = xw_naddr w1" "xw_sessions w2 = xw_sessions w1" "xw_root w2 = remove1 x (xw_root w1)"
    "io_allocs (xw_io w2) = io_allocs (xw_io w1)" "xs_sroot s2 = Some \<lparr>sr_refcount = 1, sr_children = []\<rparr>"
    by blast
  have "xw_sess w2 x = Some s2" using 2(2) by simp
  from sroot_last [OF this 2(7)] obtain w' where 3: "sroot_decref x w2 = Some w'" "xw_sess w' = (xw_sess w2)(x := None)" "xw_naddr w' = xw_naddr w2"
    "xw_sessions w' = remove1 x (xw_sessions w2)" "xw_root w' = xw_root w2" "io_allocs (xw_io w') = io_allocs (xw_io w2)"
    by auto
  have "session_decref x w = Some w'"
    using s u 2(1) 3(1) by (simp add: session_decref_def Let_def)
  then show ?thesis using 2 3 by (intro exI [of _ w']) (simp add: w1_def)
qed

section \<open>The invariant\<close>

text \<open>
  \<open>h x\<close> is the number of fids that hold a reference to \<open>x\<close>; a process that runs holds one more.
  (A second \<^verbatim>\<open>exec\<close> takes another reference that nothing gives back.)
\<close>

definition held :: "xworld \<Rightarrow> (addr \<Rightarrow> nat) \<Rightarrow> addr \<Rightarrow> Xsession \<Rightarrow> bool" where
  "held w h x s \<longleftrightarrow> x \<in> set (xw_sessions w) \<and> xs_mode s = Normal \<and> dir_ok w x s \<and> 0 < xs_refcount s \<and>
     int (h x) + (if xs_pid s \<noteq> - 1 then 1 else 0) \<le> xs_refcount s \<and> (xs_state s = Running \<longrightarrow> xs_pid s \<noteq> - 1) \<and>
     (\<forall>wr\<in>set (xs_waitreqs s). count_ok wr)"

definition life_inv :: "xworld \<Rightarrow> (addr \<Rightarrow> nat) \<Rightarrow> bool" where
  "life_inv w h \<longleftrightarrow> xmem w \<and> distinct (xw_sessions w) \<and> distinct (xw_root w) \<and> (\<forall>x. xw_naddr w \<le> x \<longrightarrow> xw_sess w x = None) \<and>
     (\<forall>x. case xw_sess w x of None \<Rightarrow> h x = 0 \<and> x \<notin> set (xw_sessions w) \<and> x \<notin> set (xw_root w) | Some s \<Rightarrow> held w h x s)"

lemma life_held: "life_inv w h \<Longrightarrow> xw_sess w x = Some s \<Longrightarrow> held w h x s"
  unfolding life_inv_def by (metis option.simps(5))

lemma life_none: "life_inv w h \<Longrightarrow> xw_sess w x = None \<Longrightarrow> h x = 0 \<and> x \<notin> set (xw_sessions w) \<and> x \<notin> set (xw_root w)"
  unfolding life_inv_def by (metis option.simps(4))

lemma life_upd:
  assumes inv: "life_inv w h" and s: "xw_sess w x = Some s" and w': "xw_sess w' = (xw_sess w)(x := Some s')" "xw_naddr w' = xw_naddr w"
    "xw_sessions w' = xw_sessions w" "xw_root w' = xw_root w \<or> xw_root w' = remove1 x (xw_root w)"
    "io_allocs (xw_io w') = io_allocs (xw_io w)" "held w' h' x s'" "\<And>y. y \<noteq> x \<Longrightarrow> h' y = h y"
  shows "life_inv w' h'"
proof -
  have d: "distinct (xw_root w)" "distinct (xw_sessions w)" "xmem w" "\<And>y. xw_naddr w \<le> y \<Longrightarrow> xw_sess w y = None"
    using inv by (simp_all add: life_inv_def)
  have r: "distinct (xw_root w')" "\<And>y. y \<noteq> x \<Longrightarrow> y \<in> set (xw_root w') \<longleftrightarrow> y \<in> set (xw_root w)"
    using w'(4) d(1) by auto
  have "case xw_sess w' y of None \<Rightarrow> h' y = 0 \<and> y \<notin> set (xw_sessions w') \<and> y \<notin> set (xw_root w') | Some s \<Rightarrow> held w' h' y s" for y
  proof (cases "y = x")
    case True
    then show ?thesis using w'(1,6) by simp
  next
    case False
    then show ?thesis using w' r(2) life_none [OF inv, of y] life_held [OF inv, of y]
      by (auto simp: held_def dir_ok_def split: option.splits)
  qed
  moreover have "xw_naddr w' \<le> y \<longrightarrow> xw_sess w' y = None" for y using w'(1,2) d(4) [of y] d(4) [of x] s by auto
  moreover have "xmem w'" using d(3) w'(5) by (simp add: xmem_def)
  ultimately show ?thesis using r(1) d(2) w'(3) by (simp add: life_inv_def)
qed

lemma life_remove:
  assumes inv: "life_inv w h" and s: "xw_sess w x = Some s" and w': "xw_sess w' = (xw_sess w)(x := None)" "xw_naddr w' = xw_naddr w"
    "xw_sessions w' = remove1 x (xw_sessions w)" "xw_root w' = remove1 x (xw_root w)"
    "io_allocs (xw_io w') = io_allocs (xw_io w)" "h' x = 0" "\<And>y. y \<noteq> x \<Longrightarrow> h' y = h y"
  shows "life_inv w' h'"
proof -
  have d: "distinct (xw_root w)" "distinct (xw_sessions w)" "xmem w" "\<And>y. xw_naddr w \<le> y \<Longrightarrow> xw_sess w y = None"
    using inv by (simp_all add: life_inv_def)
  have "case xw_sess w' y of None \<Rightarrow> h' y = 0 \<and> y \<notin> set (xw_sessions w') \<and> y \<notin> set (xw_root w') | Some s \<Rightarrow> held w' h' y s" for y
  proof (cases "y = x")
    case True
    then show ?thesis using w' d by simp
  next
    case False
    then show ?thesis using w' life_none [OF inv, of y] life_held [OF inv, of y]
      by (auto simp: held_def dir_ok_def split: option.splits)
  qed
  then show ?thesis using d w' by (auto simp: life_inv_def xmem_def)
qed

lemma life_core: "xcore w w' \<Longrightarrow> life_inv w h \<Longrightarrow> life_inv w' h"
proof -
  assume c: "xcore w w'" and i: "life_inv w h"
  have "held w' h = held w h" using c by (intro ext) (simp add: xcore_def held_def dir_ok_def)
  moreover have "xw_sessions w' = xw_sessions w" "xw_root w' = xw_root w" "xw_sess w' = xw_sess w" "xw_naddr w' = xw_naddr w" "xmem w' = xmem w"
    using c xmem_core [OF c] by (simp_all add: xcore_def)
  ultimately show "life_inv w' h" using i by (simp only: life_inv_def) blast
qed

section \<open>The operations keep it\<close>

lemma life_incref:
  assumes "life_inv w h" "xw_sess w x = Some s"
  shows "\<exists>w'. session_incref x w = Some w' \<and> life_inv w' (h(x := h x + 1))"
proof -
  let ?s = "s\<lparr>xs_refcount := xs_refcount s + 1\<rparr>"
  let ?w = "w\<lparr>xw_sess := (xw_sess w)(x := Some ?s)\<rparr>"
  have "held ?w (h(x := h x + 1)) x ?s" using life_held [OF assms] by (simp add: held_def dir_ok_def)
  then have "life_inv ?w (h(x := h x + 1))" by (intro life_upd [OF assms, of ?w ?s]) simp_all
  then show ?thesis using assms(2) by (simp add: session_incref_def upd_sess_at)
qed

lemma life_decref:
  assumes inv: "life_inv w h" "xw_sess w x = Some s" and h: "int (h' x) + (if xs_pid s \<noteq> - 1 then 1 else 0) \<le> xs_refcount s - 1"
    "\<And>y. y \<noteq> x \<Longrightarrow> h' y = h y"
  shows "\<exists>w'. session_decref x w = Some w' \<and> life_inv w' h'"
proof (cases "xs_refcount s = 1")
  case False
  let ?s = "s\<lparr>xs_refcount := xs_refcount s - 1\<rparr>"
  let ?w = "w\<lparr>xw_sess := (xw_sess w)(x := Some ?s)\<rparr>"
  have "held ?w h' x ?s" using life_held [OF inv] h(1) False by (simp add: held_def dir_ok_def)
  then have "life_inv ?w h'" using h(2) by (intro life_upd [OF inv, of ?w ?s]) simp_all
  then show ?thesis using session_decref_more [OF inv(2) False] by simp
next
  case True
  have x: "held w h x s" "xmem w" using life_held [OF inv] inv(1) by (simp_all add: life_inv_def)
  have z: "h' x = 0" "xs_pid s = - 1" using h(1) True by (auto split: if_splits)
  then obtain w' where "session_decref x w = Some w'" "xw_sess w' = (xw_sess w)(x := None)" "xw_naddr w' = xw_naddr w"
    "xw_sessions w' = remove1 x (xw_sessions w)" "xw_root w' = remove1 x (xw_root w)" "io_allocs (xw_io w') = io_allocs (xw_io w)"
    using session_decref_last [OF inv(2) True] x by (auto simp: held_def)
  then show ?thesis using life_remove [OF inv, of w' h'] z(1) h(2) by blast
qed

lemma life_wipe:
  assumes inv: "life_inv w h" "xw_sess w x = Some s"
  shows "\<exists>w'. session_wipe x w = Some w' \<and> life_inv w' h"
proof -
  have x: "held w h x s" "xmem w" using life_held [OF inv] inv(1) by (simp_all add: life_inv_def)
  then obtain w' s' where w': "session_wipe x w = Some w'" "xw_sess w' = (xw_sess w)(x := Some s')" "xw_naddr w' = xw_naddr w"
    "xw_sessions w' = xw_sessions w" "xw_root w' = remove1 x (xw_root w)" "io_allocs (xw_io w') = io_allocs (xw_io w)"
    "xs_state s' = Wiped" "xs_sroot s' = Some \<lparr>sr_refcount = 1, sr_children = []\<rparr>" "xs_refcount s' = xs_refcount s"
    "xs_mode s' = xs_mode s" "xs_pid s' = xs_pid s" "set (xs_waitreqs s') \<subseteq> set (xs_waitreqs s)"
    using session_wipe_at [OF inv(2)] by (auto simp: held_def)
  have "x \<notin> set (xw_root w')" using w'(5) inv(1) by (simp add: life_inv_def)
  then have "held w' h x s'" using x(1) w' by (auto simp: held_def dir_ok_def)
  then show ?thesis using life_upd [OF inv w'(2-4) _ w'(6)] w'(1,5) by blast
qed

lemma life_wait:
  assumes inv: "life_inv w h" "xw_sess w x = Some s" and "count_ok wr" "wait_read x wr data w = Some (n, d, w')"
  shows "life_inv w' h"
proof (cases "xs_state s = Finished \<or> xs_state s = Wiped")
  case True
  then show ?thesis using assms by (auto simp: wait_read_def split: bind_splits)
next
  case False
  have m: "xmem w" using inv(1) by (simp add: life_inv_def)
  obtain j w1 where a: "x_alloc w = (Some j, w1)" "xcore w w1" using x_alloc_mem [OF m] by blast
  let ?s = "s\<lparr>xs_waitreqs := wr # xs_waitreqs s\<rparr>"
  let ?w = "w1\<lparr>xw_sess := (xw_sess w1)(x := Some ?s)\<rparr>"
  have s1: "xw_sess w1 x = Some s" "life_inv w1 h" using a(2) inv life_core by (auto simp: xcore_def)
  have "w' = ?w" using assms(4) False inv(2) a(1) s1(1) by (simp add: wait_read_def upd_sess_at)
  moreover have "held ?w h x ?s" using life_held [OF s1(2,1)] assms(3) by (simp add: held_def dir_ok_def)
  then have "life_inv ?w h" by (intro life_upd [OF s1(2,1), of ?w ?s]) simp_all
  ultimately show ?thesis by simp
qed

text \<open>The end of a process: the status is kept, all that wait are answered, its reference is dropped.\<close>

lemma pid_find_at:
  "\<forall>x\<in>set xs. h x \<noteq> None \<Longrightarrow> \<exists>r. pid_find h pid xs = Some r \<and> (\<forall>x. r = Some x \<longrightarrow> x \<in> set xs \<and> (\<exists>s. h x = Some s \<and> xs_pid s = pid))"
  by (induction xs) auto

lemma x_close_local_frame:
  "xw_sess w x = Some s \<Longrightarrow> \<exists>w' p. x_close_local get upd x w = Some w' \<and> xframe x w w' \<and> xw_sess w' x = Some (upd (\<lambda>_. p) s) \<and> xw_out w' = xw_out w"
  by (auto simp: x_close_local_def pip_close_local_def io_close_def upd_sess_def xframe_def)

lemma sigchld_child_at:
  assumes f: "pid_find (xw_sess w) pid (xw_sessions w) = Some (Some x)" and s: "xw_sess w x = Some s" "xmem w" "\<forall>wr\<in>set (xs_waitreqs s). count_ok wr"
  shows "\<exists>w' s' ds. sigchld_child pid status w = session_decref x w' \<and> xframe x w w' \<and> xw_sess w' x = Some s' \<and>
    xs_state s' = (if xs_state s = Wiped then Wiped else Finished) \<and> xs_pid s' = - 1 \<and> xs_exitstatus s' = Some (dec_int status) \<and>
    xs_waitreqs s' = [] \<and> xs_refcount s' = xs_refcount s \<and> xs_mode s' = xs_mode s \<and> xs_sroot s' = xs_sroot s \<and>
    xw_out w' = xw_out w @ zip (map wr_req (xs_waitreqs s)) (map SRead ds) \<and>
    ((\<forall>wr\<in>set (xs_waitreqs s). 0 \<le> int_of_u64 (wr_offset wr)) \<longrightarrow> ds = map (wait_text (dec_int status)) (xs_waitreqs s))"
proof -
  obtain m w1 where 1: "x_alloc w = (Some m, w1)" "xcore w w1" "xw_out w1 = xw_out w" using x_alloc_mem [OF s(2)] by blast
  define f2 :: "Xsession \<Rightarrow> Xsession" where "f2 = (\<lambda>s. s\<lparr>xs_state := (if xs_state s \<noteq> Wiped then Finished else Wiped), xs_pid := - 1,
            xs_exitstatus := Some (dec_int status)\<rparr>)"
  have "xw_sess w1 x = Some s" using 1(2) s(1) by (simp add: xcore_def)
  from upd_sess_frame [OF this, of f2] obtain w2 where 2: "upd_sess x f2 w1 = Some w2" "xframe x w1 w2" "xw_sess w2 x = Some (f2 s)" "xw_out w2 = xw_out w1" by blast
  obtain w3 p where 3: "x_close_local xs_stin xs_stin_update x w2 = Some w3" "xframe x w2 w3"
    "xw_sess w3 x = Some ((f2 s)\<lparr>xs_stin := p\<rparr>)" "xw_out w3 = xw_out w2"
    using x_close_local_frame [OF 2(3), of xs_stin xs_stin_update] by blast
  obtain w4 where 4: "upd_sess x (xs_waitreqs_update (\<lambda>_. [])) w3 = Some w4" "xframe x w3 w4"
    "xw_sess w4 x = Some ((f2 s)\<lparr>xs_stin := p, xs_waitreqs := []\<rparr>)" "xw_out w4 = xw_out w3"
    using upd_sess_frame [OF 3(3)] by blast
  have fr: "xframe x w w4" using 1(2) 2(2) 3(2) 4(2) xcore_frame xframe_trans by metis
  then have "xmem w4" using s(2) xmem_frame by blast
  then obtain w5 ds where 5: "answer_waits (Some (dec_int status)) (xs_waitreqs s) w4 = Some w5" "xcore w4 w5"
    "xw_out w5 = xw_out w4 @ zip (map wr_req (xs_waitreqs s)) (map SRead ds)"
    "(\<forall>wr\<in>set (xs_waitreqs s). 0 \<le> int_of_u64 (wr_offset wr)) \<longrightarrow> ds = map (wait_text (dec_int status)) (xs_waitreqs s)"
    using answer_waits_at s(3) by blast
  have fr5: "xframe x w w5" using fr 5(2) xcore_frame xframe_trans by blast
  have s5: "xw_sess w5 x = Some ((f2 s)\<lparr>xs_stin := p, xs_waitreqs := []\<rparr>)" using 4(3) 5(2) by (simp add: xcore_def)
  have st: "xs_exitstatus ((f2 s)\<lparr>xs_stin := p\<rparr>) = Some (dec_int status)" "xs_waitreqs ((f2 s)\<lparr>xs_stin := p\<rparr>) = xs_waitreqs s"
    by (simp_all add: f2_def)
  have "sigchld_child pid status w = session_decref x w5"
    using f 1(1) 2(1) 3(1,3) 4(1) 5(1) unfolding st [symmetric]
    by (simp add: sigchld_child_def f2_def [symmetric])
  moreover have "xw_out w5 = xw_out w @ zip (map wr_req (xs_waitreqs s)) (map SRead ds)"
    using 1(3) 2(4) 3(4) 4(4) 5(3) by simp
  ultimately show ?thesis using fr5 s5 5(4)
    by (intro exI [of _ w5] exI [of _ "(f2 s)\<lparr>xs_stin := p, xs_waitreqs := []\<rparr>"] exI [of _ ds]) (simp add: f2_def)
qed

lemma xframe_sess: "xframe x w w' \<Longrightarrow> xw_sess w' x = Some s' \<Longrightarrow> xw_sess w' = (xw_sess w)(x := Some s')"
  by (auto simp: xframe_def)

lemma life_exit:
  assumes inv: "life_inv w h" and "0 < pid"
  shows "\<exists>w'. sigchld_child pid status w = Some w' \<and> life_inv w' h"
proof -
  have "\<forall>x\<in>set (xw_sessions w). xw_sess w x \<noteq> None" using life_none [OF inv] by blast
  from pid_find_at [OF this] obtain r where r: "pid_find (xw_sess w) pid (xw_sessions w) = Some r"
    "\<forall>x. r = Some x \<longrightarrow> x \<in> set (xw_sessions w) \<and> (\<exists>s. xw_sess w x = Some s \<and> xs_pid s = pid)" by blast
  show ?thesis
  proof (cases r)
    case None
    then show ?thesis using r(1) inv by (simp add: sigchld_child_def)
  next
    case (Some x)
    then obtain s where s: "xw_sess w x = Some s" "xs_pid s = pid" using r(2) by blast
    have x: "held w h x s" "xmem w" using life_held [OF inv s(1)] inv by (simp_all add: life_inv_def)
    obtain w1 s1 where 1: "sigchld_child pid status w = session_decref x w1" "xframe x w w1" "xw_sess w1 x = Some s1"
      "xs_state s1 = (if xs_state s = Wiped then Wiped else Finished)" "xs_pid s1 = - 1" "xs_waitreqs s1 = []"
      "xs_refcount s1 = xs_refcount s" "xs_mode s1 = xs_mode s" "xs_sroot s1 = xs_sroot s"
      using sigchld_child_at [OF r(1) [unfolded Some] s(1) x(2)] x(1) unfolding held_def by blast
    have "int (h x) \<le> xs_refcount s" using x(1) by (simp add: held_def split: if_splits)
    then have "held w1 h x s1" using x(1) 1 by (auto simp: held_def dir_ok_def xframe_def)
    then have "life_inv w1 h" using 1(2) by (intro life_upd [OF inv s(1) xframe_sess [OF 1(2,3)]]) (simp_all add: xframe_def)
    moreover have "int (h x) + (if xs_pid s1 \<noteq> - 1 then 1 else 0) \<le> xs_refcount s1 - 1"
      using x(1) s(2) assms(2) 1(5,7) by (simp add: held_def)
    ultimately show ?thesis using life_decref [of w1 h x s1 h] 1(1,3) by simp
  qed
qed

section \<open>New sessions\<close>

lemma core_prims:
  "x_alloc w = (m, w') \<Longrightarrow> xcore w w'" "sp_malloc w = (m, w') \<Longrightarrow> xcore w w'" "x_sys w = (r, w') \<Longrightarrow> xcore w w'" "x_pipe w = (fds, w') \<Longrightarrow> xcore w w'"
  "xcore w (sp_uerror e w)" "xcore w (sp_werror n e w)" "xcore w (x_close fd w)"
  by (auto simp: x_alloc_def sp_malloc_def io_alloc_def x_sys_def x_pipe_def sp_uerror_def sp_werror_def x_close_def io_close_def xcore_def Let_def
      split: option.splits if_splits)

lemma x_pip_create_core: "x_pip_create d w = (p, w') \<Longrightarrow> xcore w w'"
  by (auto simp: x_pip_create_def pip_create_def io_alloc_def x_pipe_def xcore_def Let_def split: option.splits prod.splits)

lemma x_pip_destroy_core: "xcore w (x_pip_destroy ps w)"
proof (induction ps arbitrary: w)
  case (Cons p ps)
  have "xcore w (w\<lparr>xw_io := pip_destroy p (xw_io w)\<rparr>)" by (simp add: xcore_def pip_destroy_def io_close_def Let_def)
  then show ?case using Cons xcore_trans by fastforce
qed simp

lemma session_pipes_core: "session_pipes w = (r, w') \<Longrightarrow> xcore w w'"
  by (auto simp: session_pipes_def split: prod.splits option.splits
      dest!: x_pip_create_core simp del: x_pip_destroy.simps) (metis xcore_trans x_pip_destroy_core)+

lemma sid_scan_list: "sid_scan h sid ps xs = Some (ps', xs') \<Longrightarrow> ps' @ xs' = ps @ xs"
  by (induction xs arbitrary: ps) (auto split: bind_splits if_splits)

lemma sid_place_list:
  assumes "sid_place h sid all = Some (sid', ps, xs)"
  shows "ps @ xs = all"
proof -
  obtain ps0 xs0 where sc: "sid_scan h sid [] all = Some (ps0, xs0)" using assms by (auto simp: sid_place_def split: bind_splits)
  then have "ps0 @ xs0 = all" using sid_scan_list by fastforce
  moreover have "(ps, xs) = (ps0, xs0)"
    using assms sc by (auto simp: sid_place_def sid_skip.simps split: bind_splits list.splits if_splits)
  ultimately show ?thesis by simp
qed

lemma session_create_result:
  assumes "session_create w = Some (r, w')"
  shows "(r = None \<and> xcore w w') \<or>
    (\<exists>s ps xs. r = Some (xw_naddr w) \<and> xw_naddr w' = xw_naddr w + 1 \<and> xw_sess w' = (xw_sess w)(xw_naddr w := Some s) \<and>
      xw_sessions w = ps @ xs \<and> xw_sessions w' = ps @ xw_naddr w # xs \<and> xw_root w' = xw_root w \<and>
      io_allocs (xw_io w') = io_allocs (xw_io w) \<and> xs_refcount s = 1 \<and> xs_state s = Initializing \<and> xs_mode s = Normal \<and> xs_pid s = - 1 \<and>
      xs_waitreqs s = [])"
proof -
  obtain m1 w1 where 1: "sp_malloc w = (m1, w1)" "xcore w w1" using core_prims(2) by (cases "sp_malloc w") auto
  show ?thesis
  proof (cases m1)
    case None
    then show ?thesis using assms 1 by (simp add: session_create_def)
  next
    case (Some _)
    obtain g w2 where 2: "x_alloc w1 = (g, w2)" "xcore w1 w2" using core_prims(1) by (cases "x_alloc w1") auto
    obtain m w3 where 3: "x_alloc w2 = (m, w3)" "xcore w2 w3" using core_prims(1) by (cases "x_alloc w2") auto
    obtain m4 w4 where 4: "sp_malloc w3 = (m4, w4)" "xcore w3 w4" using core_prims(2) by (cases "sp_malloc w3") auto
    obtain q w5 where 5: "x_sys w4 = (q, w5)" "xcore w4 w5" using core_prims(3) by (cases "x_sys w4") auto
    obtain ps w6 where 6: "session_pipes w5 = (ps, w6)" "xcore w5 w6" using session_pipes_core by (cases "session_pipes w5") auto
    have c: "xcore w w4" "xcore w w6" using 1 2 3 4 5 6 xcore_trans by metis+
    have c5: "xcore w (sp_uerror (xw_errno w5) w5)" using c(1) 5(2) core_prims(5) xcore_trans by metis
    show ?thesis
    proof (cases "m4 = None \<or> q < 0 \<or> ps = None")
      case True
      then have "r = None \<and> (w' = w4 \<or> w' = sp_uerror (xw_errno w5) w5 \<or> w' = w6)"
        using assms 1(1) 2(1) 3(1) 4(1) 5(1) 6(1) Some
        by (auto simp: session_create_def Let_def split: bind_splits if_splits option.splits)
      then show ?thesis using c c5 by auto
    next
      case False
      then obtain pipes j where j: "m4 = Some j" "ps = Some pipes" "\<not> q < 0" by auto
      then obtain sid env gid tmp a b where "r = Some (xw_naddr w6)" "a @ b = xw_sessions w6"
        "w' = w6\<lparr>xw_naddr := xw_naddr w6 + 1, xw_next_id := xw_next_id w6 + 1,
          xw_sess := (xw_sess w6)(xw_naddr w6 := Some (new_session sid env gid tmp pipes)), xw_sessions := a @ xw_naddr w6 # b\<rparr>"
        using assms 1(1) 2(1) 3(1) 4(1) 5(1) 6(1) Some
        by (auto simp: session_create_def Let_def split: bind_splits dest!: sid_place_list)
      then show ?thesis using c(2) by (intro disjI2 exI [of _ "new_session sid env gid tmp pipes"] exI [of _ a] exI [of _ b])
        (auto simp: xcore_def new_session_def split: prod.splits)
    qed
  qed
qed

lemma create_file_mem_ok: "xmem w \<Longrightarrow> \<exists>w'. create_file_mem w = (True, w') \<and> xcore w w'"
proof -
  assume m: "xmem w"
  obtain j w1 where 1: "sp_malloc w = (Some j, w1)" "xcore w w1" using sp_malloc_mem [OF m] by blast
  then obtain k w2 where "x_alloc w1 = (Some k, w2)" "xcore w1 w2" using m x_alloc_mem [of w1] xmem_core by blast
  then show ?thesis using 1 xcore_trans by (auto simp: create_file_mem_def)
qed

lemma create_files_ok:
  "xmem w \<Longrightarrow> xw_sess w x = Some s \<Longrightarrow> xs_sroot s = Some r \<Longrightarrow>
    \<exists>w'. create_files cs x w = Some (True, w') \<and> xframe x w w' \<and>
      xw_sess w' x = Some (s\<lparr>xs_sroot := Some \<lparr>sr_refcount = sr_refcount r + int (length cs), sr_children = sr_children r @ cs\<rparr>\<rparr>)"
proof (induction cs arbitrary: w s r)
  case Nil
  have "s\<lparr>xs_sroot := Some \<lparr>sr_refcount = sr_refcount r, sr_children = sr_children r\<rparr>\<rparr> = s" using Nil by simp
  then show ?case using Nil by simp
next
  case (Cons c cs)
  obtain w1 where 1: "create_file_mem w = (True, w1)" "xcore w w1" using create_file_mem_ok [OF Cons.prems(1)] by blast
  let ?r = "\<lparr>sr_refcount = sr_refcount r + 1, sr_children = sr_children r @ [c]\<rparr>"
  have s1: "xw_sess w1 x = Some s" using 1(2) Cons.prems(2) by (simp add: xcore_def)
  obtain w2 where 2: "upd_sess x (xs_sroot_update (\<lambda>_. Some ?r)) w1 = Some w2" "xframe x w1 w2" "xw_sess w2 x = Some (s\<lparr>xs_sroot := Some ?r\<rparr>)"
    using upd_sess_frame [OF s1] by blast
  have f2: "xframe x w w2" using 1(2) 2(2) xcore_frame xframe_trans by blast
  then have "xmem w2" using Cons.prems(1) xmem_frame by blast
  from Cons.IH [OF this 2(3), of ?r] obtain w' where "create_files cs x w2 = Some (True, w')" "xframe x w2 w'"
    "xw_sess w' x = Some (s\<lparr>xs_sroot := Some \<lparr>sr_refcount = sr_refcount r + 1 + int (length cs), sr_children = (sr_children r @ [c]) @ cs\<rparr>\<rparr>)"
    by auto
  then show ?case using 1(1) 2(1) s1 Cons.prems(3) f2 xframe_trans by (auto simp: algebra_simps)
qed

lemma life_clone:
  assumes inv: "life_inv w h" and c: "clone_openfid w = Some (r, w')"
  shows "life_inv w' (case r of None \<Rightarrow> h | Some x \<Rightarrow> h(x := h x + 1))"
proof -
  obtain r1 w1 where 1: "session_create w = Some (r1, w1)" using c by (auto simp: clone_openfid_def split: bind_splits)
  have mem: "xmem w" using inv by (simp add: life_inv_def)
  consider "r1 = None" "xcore w w1" |
    s ps xs where "r1 = Some (xw_naddr w)" "xw_naddr w1 = xw_naddr w + 1" "xw_sess w1 = (xw_sess w)(xw_naddr w := Some s)"
      "xw_sessions w = ps @ xs" "xw_sessions w1 = ps @ xw_naddr w # xs" "xw_root w1 = xw_root w"
      "io_allocs (xw_io w1) = io_allocs (xw_io w)" "xs_refcount s = 1" "xs_state s = Initializing" "xs_mode s = Normal" "xs_pid s = - 1"
      "xs_waitreqs s = []"
    using session_create_result [OF 1] by blast
  then show ?thesis
  proof cases
    case 1
    then have "r = None" "w' = w1" using c \<open>session_create w = Some (r1, w1)\<close> by (simp_all add: clone_openfid_def)
    then show ?thesis using life_core [OF 1(2) inv] by simp
  next
    case (2 s ps xs)
    let ?x = "xw_naddr w"
    have fresh: "xw_sess w ?x = None" using inv by (simp add: life_inv_def)
    then have free: "h ?x = 0" "?x \<notin> set (xw_sessions w)" "?x \<notin> set (xw_root w)" using life_none [OF inv] by blast+
    have "xmem w1" using mem 2(7) by (simp add: xmem_def)
    then obtain w2 where w2: "create_file_mem w1 = (True, w2)" "xcore w1 w2" using create_file_mem_ok by blast
    define w3 where "w3 = w2\<lparr>xw_root := xw_root w2 @ [?x]\<rparr>"
    have s3: "xw_sess w3 ?x = Some s" using w2(2) 2(3) by (simp add: w3_def xcore_def)
    obtain w4 where w4: "upd_sess ?x (xs_sroot_update (\<lambda>_. Some \<lparr>sr_refcount = 1, sr_children = []\<rparr>)) w3 = Some w4" "xframe ?x w3 w4"
      "xw_sess w4 ?x = Some (s\<lparr>xs_sroot := Some \<lparr>sr_refcount = 1, sr_children = []\<rparr>\<rparr>)"
      using upd_sess_frame [OF s3] by blast
    have "xmem w4" using \<open>xmem w1\<close> w2(2) w4(2) by (simp add: xmem_def w3_def xcore_def xframe_def)
    then obtain w5 where w5: "create_files session_files ?x w4 = Some (True, w5)" "xframe ?x w4 w5"
      "xw_sess w5 ?x = Some (s\<lparr>xs_sroot := Some \<lparr>sr_refcount = 12, sr_children = session_files\<rparr>\<rparr>)"
      using create_files_ok [OF _ w4(3), of "\<lparr>sr_refcount = 1, sr_children = []\<rparr>" session_files] by auto
    have r: "r = Some ?x" "w' = w5"
      using c 1 2(1) w2(1) w4(1) w5(1) by (simp_all add: clone_openfid_def session_add_dir_def w3_def Let_def)
    let ?s = "s\<lparr>xs_sroot := Some \<lparr>sr_refcount = 12, sr_children = session_files\<rparr>\<rparr>"
    have sel: "xw_sess w5 = (xw_sess w)(?x := Some ?s)" "xw_naddr w5 = ?x + 1" "xw_sessions w5 = ps @ ?x # xs"
      "xw_root w5 = xw_root w @ [?x]" "io_allocs (xw_io w5) = io_allocs (xw_io w)"
      using w5(2,3) w4(2) w2(2) 2(2,3,5,6,7) by (auto simp: xframe_def xcore_def w3_def)
    have hx: "held w5 (h(?x := 1)) ?x ?s" using sel 2 by (simp add: held_def dir_ok_def)
    have "case xw_sess w5 y of None \<Rightarrow> (h(?x := 1)) y = 0 \<and> y \<notin> set (xw_sessions w5) \<and> y \<notin> set (xw_root w5)
        | Some t \<Rightarrow> held w5 (h(?x := 1)) y t" for y
    proof (cases "y = ?x")
      case True
      then show ?thesis using sel(1) hx by simp
    next
      case False
      then show ?thesis using sel 2(4) life_none [OF inv, of y] life_held [OF inv, of y]
        by (auto simp: held_def dir_ok_def split: option.splits)
    qed
    moreover have "distinct (xw_sessions w5)" "distinct (xw_root w5)" "xmem w5" "\<forall>y. xw_naddr w5 \<le> y \<longrightarrow> xw_sess w5 y = None"
      using sel 2(4) free inv by (auto simp: life_inv_def xmem_def)
    ultimately have "life_inv w5 (h(?x := 1))" unfolding life_inv_def by blast
    then show ?thesis using r free(1) by simp
  qed
qed

section \<open>Processes\<close>

lemma buf_words_core: "buf_words b w = Some (r, w') \<Longrightarrow> xcore w w'"
  by (auto simp: buf_words_def Let_def split: option.splits bind_splits prod.splits if_splits
      dest!: core_prims(1,2) intro: xcore_trans)

lemma x_open_core: "x_open w = (r, w') \<Longrightarrow> xcore w w'"
  by (auto simp: x_open_def Let_def split: prod.splits if_splits dest!: core_prims(3) intro: xcore_trans core_prims(5))

lemma xexec_fds_core: "xexec_fds s w = (ok, fds, w') \<Longrightarrow> xcore w w'"
  by (auto simp: xexec_fds_def Let_def split: prod.splits if_splits option.splits
      dest!: x_open_core core_prims(3) intro: xcore_trans core_prims(5))

text \<open>The parts of a session its life depends on.\<close>

definition same_life :: "Xsession \<Rightarrow> Xsession \<Rightarrow> bool" where
  "same_life s s' \<longleftrightarrow> xs_mode s' = xs_mode s \<and> xs_sroot s' = xs_sroot s \<and> xs_waitreqs s' = xs_waitreqs s"

lemma x_close_remote_frame:
  "xw_sess w x = Some s \<Longrightarrow> x_close_remote get upd x w = Some w' \<Longrightarrow> \<exists>p. xframe x w w' \<and> xw_sess w' x = Some (upd (\<lambda>_. p) s)"
  by (auto simp: x_close_remote_def pip_close_remote_def io_close_def upd_sess_def xframe_def Let_def)

definition exec_effect :: "addr \<Rightarrow> xworld \<Rightarrow> xworld \<Rightarrow> bool" where
  "exec_effect x w w' \<longleftrightarrow> xframe x w w' \<and> (\<forall>s. xw_sess w x = Some s \<longrightarrow> (\<exists>s'. xw_sess w' x = Some s' \<and> same_life s s' \<and>
    (xs_state s' = xs_state s \<and> xs_refcount s' = xs_refcount s \<and> xs_pid s' = xs_pid s \<or>
     xs_state s' = Running \<and> xs_refcount s' = xs_refcount s + 1 \<and> xs_pid s' \<noteq> - 1)))"

lemma exec_effect_core: "xcore w w' \<Longrightarrow> exec_effect x w w'"
  by (auto simp: exec_effect_def xcore_def xframe_def same_life_def)

lemma exec_effect_after: "xcore w v \<Longrightarrow> exec_effect x v w' \<Longrightarrow> exec_effect x w w'"
  by (auto simp: exec_effect_def xcore_def xframe_def)

lemma xexec_parent_life:
  assumes "xexec_parent x pid p0 p1 w = Some (r, w')" "pid \<noteq> - 1"
  shows "exec_effect x w w'"
proof -
  obtain s where s: "xw_sess w x = Some s" using assms(1) by (auto simp: xexec_parent_def upd_sess_def split: bind_splits)
  obtain w1 where 1: "upd_sess x (xs_state_update (\<lambda>_. Running)) w = Some w1" "xframe x w w1" "xw_sess w1 x = Some (s\<lparr>xs_state := Running\<rparr>)"
    using upd_sess_frame [OF s] by blast
  let ?s2 = "s\<lparr>xs_state := Running, xs_refcount := xs_refcount s + 1\<rparr>"
  obtain w2 where 2: "session_incref x w1 = Some w2" "xframe x w1 w2" "xw_sess w2 x = Some ?s2"
    using upd_sess_frame [OF 1(3), of "\<lambda>s. s\<lparr>xs_refcount := xs_refcount s + 1\<rparr>"] by (auto simp: session_incref_def)
  obtain w3 w4 w5 w6 where c: "x_close_remote xs_stin xs_stin_update x w2 = Some w3" "x_close_remote xs_stout xs_stout_update x w3 = Some w4"
    "x_close_remote xs_sterr xs_sterr_update x w4 = Some w5" "upd_sess x (xs_pid_update (\<lambda>_. pid)) w5 = Some w6" "w' = x_close p1 (x_close p0 w6)"
    using assms(1) 1(1) 2(1) by (auto simp: xexec_parent_def split: bind_splits)
  obtain pa where 3: "xframe x w2 w3" "xw_sess w3 x = Some (?s2\<lparr>xs_stin := pa\<rparr>)" using x_close_remote_frame [OF 2(3) c(1)] by blast
  obtain pb where 4: "xframe x w3 w4" "xw_sess w4 x = Some (?s2\<lparr>xs_stin := pa, xs_stout := pb\<rparr>)" using x_close_remote_frame [OF 3(2) c(2)] by blast
  obtain pc where 5: "xframe x w4 w5" "xw_sess w5 x = Some (?s2\<lparr>xs_stin := pa, xs_stout := pb, xs_sterr := pc\<rparr>)"
    using x_close_remote_frame [OF 4(2) c(3)] by blast
  have 6: "xframe x w5 w6" "xw_sess w6 x = Some (?s2\<lparr>xs_stin := pa, xs_stout := pb, xs_sterr := pc, xs_pid := pid\<rparr>)"
    using upd_sess_frame [OF 5(2), of "xs_pid_update (\<lambda>_. pid)"] c(4) by auto
  have "xframe x w w6" using 1(2) 2(2) 3(1) 4(1) 5(1) 6(1) xframe_trans by metis
  moreover have "xcore w6 w'" unfolding c(5) using core_prims(7) xcore_trans by blast
  ultimately show ?thesis using s 6(2) assms(2) by (auto simp: exec_effect_def xcore_def xframe_def same_life_def)
qed

lemma xexec_fork_life:
  assumes "xexec_fork x exec cwd user envtok argvtok w = Some (r, w')"
  shows "exec_effect x w w'"
proof -
  obtain s where s: "xw_sess w x = Some s" using assms by (auto simp: xexec_fork_def split: bind_splits)
  obtain pip w1 where 1: "x_pipe w = (pip, w1)" "xcore w w1" using core_prims(4) by (cases "x_pipe w") auto
  obtain ok ifd ofd efd w2 where 2: "xexec_fds s w1 = (ok, (ifd, ofd, efd), w2)" "xcore w1 w2"
    using xexec_fds_core by (cases "xexec_fds s w1") auto
  obtain pid w3 where 3: "x_sys w2 = (pid, w3)" "xcore w2 w3" using core_prims(3) by (cases "x_sys w2") auto
  have c: "xcore w w2" "xcore w w3" using 1(2) 2(2) 3(2) xcore_trans by blast+
  consider "pip = None" | "pip \<noteq> None" "\<not> ok" | p0 p1 where "pip = Some (p0, p1)" "ok" by (cases pip; cases ok) auto
  then show ?thesis
  proof cases
    case 1
    then have "w' = sp_uerror (xw_errno w1) w1" using assms s \<open>x_pipe w = (pip, w1)\<close> by (simp add: xexec_fork_def)
    then show ?thesis using exec_effect_core [OF xcore_trans [OF \<open>xcore w w1\<close> core_prims(5)]] by simp
  next
    case 2
    then have "w' = x_close efd (x_close ofd (x_close ifd w2))"
      using assms s 1(1) \<open>xexec_fds s w1 = _\<close> by (auto simp: xexec_fork_def)
    then show ?thesis using exec_effect_core [OF xcore_trans [OF c(1) xcore_trans [OF core_prims(7) xcore_trans [OF core_prims(7) core_prims(7)]]]] by simp
  next
    case (3 p0 p1)
    show ?thesis
    proof (cases "pid < 0")
      case True
      then have "w' = sp_werror (Some (cstr ''cannot fork'')) (xw_errno w3) w3"
        using assms s 1(1) 2(1) 3 \<open>x_sys w2 = _\<close> by (simp add: xexec_fork_def)
      then show ?thesis using exec_effect_core [OF xcore_trans [OF c(2) core_prims(6)]] by simp
    next
      case False
      then obtain pc where "xexec_parent x pid p0 p1 (w3\<lparr>xw_procs := pc\<rparr>) = Some (r, w')"
        using assms s 1(1) 2(1) 3 \<open>x_sys w2 = _\<close> by (auto simp: xexec_fork_def Let_def)
      moreover have "xcore w (w3\<lparr>xw_procs := pc\<rparr>)" using c(2) by (simp add: xcore_def)
      ultimately show ?thesis using xexec_parent_life False exec_effect_after by fastforce
    qed
  qed
qed

lemma xexec_words_life:
  assumes "xexec_words x exec cwd user t w = Some (r, w')"
  shows "exec_effect x w w'"
proof -
  obtain s where s: "xw_sess w x = Some s" using assms by (auto simp: xexec_words_def split: bind_splits)
  obtain m w1 where 1: "x_alloc w = (m, w1)" "xcore w w1" using core_prims(1) by (cases "x_alloc w") auto
  obtain n env where b: "bufwrite m (xs_env s) (word_of_int (xb_size (xs_env s))) (word_of_nat (length t)) t = Some (n, env)"
    using assms s 1(1) by (auto simp: xexec_words_def split: bind_splits)
  have s1: "xw_sess w1 x = Some s" using s 1(2) by (simp add: xcore_def)
  obtain w2 where 2: "upd_sess x (xs_env_update (\<lambda>_. env)) w1 = Some w2" "xframe x w1 w2" "xw_sess w2 x = Some (s\<lparr>xs_env := env\<rparr>)"
    using upd_sess_frame [OF s1] by blast
  obtain envtok w3 where 3: "buf_words env w2 = Some (envtok, w3)" using assms s 1(1) b 2(1) by (auto simp: xexec_words_def split: bind_splits)
  have c3: "xcore w2 w3" using buf_words_core 3 by blast
  have "exec_effect x w2 w'"
  proof (cases envtok)
    case None
    then have "w' = w3" using assms s 1(1) b 2(1) 3 by (simp add: xexec_words_def)
    then show ?thesis using c3 exec_effect_core by simp
  next
    case (Some et)
    then obtain argvtok w4 where 4: "buf_words (xs_argv s) w3 = Some (argvtok, w4)"
      using assms s 1(1) b 2(1) 3 by (auto simp: xexec_words_def split: bind_splits)
    have c4: "xcore w2 w4" using buf_words_core [OF 4] c3 xcore_trans by blast
    show ?thesis
    proof (cases argvtok)
      case None
      then have "w' = w4" using assms s 1(1) b 2(1) 3 4 Some by (simp add: xexec_words_def)
      then show ?thesis using c4 exec_effect_core by simp
    next
      case (Some at)
      then have "xexec_fork x exec cwd user et at w4 = Some (r, w')"
        using assms s 1(1) b 2(1) 3 4 \<open>envtok = Some et\<close> by (simp add: xexec_words_def)
      then show ?thesis using xexec_fork_life c4 exec_effect_after by blast
    qed
  qed
  moreover have "xframe x w w2" using 1(2) 2(2) xcore_frame xframe_trans by blast
  ultimately show ?thesis using s 2(3) by (auto simp: exec_effect_def same_life_def xframe_def)
qed

lemma xexec_life:
  assumes "xexec x exec cwd user w = Some (r, w')"
  shows "exec_effect x w w'" "xw_sess w x = Some s \<Longrightarrow> xs_state s = Wiped \<Longrightarrow> xcore w w'"
proof -
  obtain s' where s: "xw_sess w x = Some s'" using assms by (auto simp: xexec_def split: bind_splits)
  show w: "xcore w w'" if "xw_sess w x = Some s" "xs_state s = Wiped"
    using that assms by (auto simp: xexec_def intro: core_prims split: option.splits)
  obtain m1 w1 where 1: "sp_malloc w = (m1, w1)" "xcore w w1" using core_prims(2) by (cases "sp_malloc w") auto
  consider "xcore w w'" | e c t where "xexec_words x e c user t w1 = Some (r, w')"
    using assms s 1 by (auto simp: xexec_def Let_def intro: core_prims split: option.splits if_splits bind_splits)
  then show "exec_effect x w w'"
  proof cases
    case 1
    then show ?thesis by (rule exec_effect_core)
  next
    case (2 e c t)
    then show ?thesis using xexec_words_life 1(2) exec_effect_after by blast
  qed
qed

lemma life_exec:
  assumes inv: "life_inv w h" and "xexec x exec cwd user w = Some (r, w')"
  shows "life_inv w' h"
proof -
  obtain s where s: "xw_sess w x = Some s" using assms(2) by (auto simp: xexec_def split: bind_splits)
  note x = life_held [OF inv s] xexec_life(1) [OF assms(2)]
  show ?thesis
  proof (cases "xs_state s = Wiped")
    case True
    then show ?thesis using life_core [OF xexec_life(2) [OF assms(2) s] inv] by simp
  next
    case False
    obtain s' where s': "xw_sess w' x = Some s'" "same_life s s'"
      "xs_state s' = xs_state s \<and> xs_refcount s' = xs_refcount s \<and> xs_pid s' = xs_pid s \<or>
       xs_state s' = Running \<and> xs_refcount s' = xs_refcount s + 1 \<and> xs_pid s' \<noteq> - 1" "xframe x w w'"
      using x(2) s unfolding exec_effect_def by blast
    have d: "xs_sroot s = Some \<lparr>sr_refcount = 12, sr_children = session_files\<rparr>" "x \<in> set (xw_root w)"
      using x(1) False by (auto simp: held_def dir_ok_def)
    have "held w' h x s'"
      using x(1) s'(2-4) d False unfolding held_def dir_ok_def same_life_def xframe_def by (auto split: if_splits)
    then show ?thesis
      using s'(4) by (intro life_upd [OF inv s xframe_sess [OF s'(4,1)]]) (simp_all add: xframe_def)
  qed
qed

section \<open>Every run\<close>

text \<open>
  The steps of the server that concern sessions: \<^verbatim>\<open>clone\<close> is opened, which makes the first
  reference; a file of a session is opened, by way of the root directory or from another file of
  it; a file is closed; the command \<^verbatim>\<open>wipe\<close>; the command \<^verbatim>\<open>exec\<close>; a read of
  \<^verbatim>\<open>wait\<close>; a process ends. All sessions have the type \<^verbatim>\<open>normal\<close>.
\<close>

inductive life_step :: "xworld \<times> (addr \<Rightarrow> nat) \<Rightarrow> xworld \<times> (addr \<Rightarrow> nat) \<Rightarrow> bool" where
  clone: "clone_openfid w = Some (r, w') \<Longrightarrow> life_step (w, h) (w', case r of None \<Rightarrow> h | Some x \<Rightarrow> h(x := h x + 1))"
| opened: "x \<in> set (xw_root w) \<or> 0 < h x \<Longrightarrow> session_incref x w = Some w' \<Longrightarrow> life_step (w, h) (w', h(x := h x + 1))"
| closed: "0 < h x \<Longrightarrow> session_decref x w = Some w' \<Longrightarrow> life_step (w, h) (w', h(x := h x - 1))"
| wiped: "0 < h x \<Longrightarrow> session_wipe x w = Some w' \<Longrightarrow> life_step (w, h) (w', h)"
| started: "0 < h x \<Longrightarrow> xexec x exec cwd user w = Some (r, w') \<Longrightarrow> life_step (w, h) (w', h)"
| waited: "0 < h x \<Longrightarrow> count_ok wr \<Longrightarrow> wait_read x wr data w = Some (n, d, w') \<Longrightarrow> life_step (w, h) (w', h)"
| ended: "0 < pid \<Longrightarrow> sigchld_child pid status w = Some w' \<Longrightarrow> life_step (w, h) (w', h)"

inductive_cases life_stepE: "life_step (w, h) v"

lemma held_session: "life_inv w h \<Longrightarrow> 0 < h x \<or> x \<in> set (xw_root w) \<Longrightarrow> \<exists>s. xw_sess w x = Some s"
  using life_none by fastforce

lemma life_close:
  assumes inv: "life_inv w h" "xw_sess w x = Some s" and "0 < h x"
  shows "\<exists>w'. session_decref x w = Some w' \<and> life_inv w' (h(x := h x - 1))"
  using life_decref [OF inv, of "h(x := h x - 1)"] life_held [OF inv] assms(3) by (auto simp: held_def)

lemma life_step_inv:
  assumes "life_step (w, h) (w', h')" "life_inv w h"
  shows "life_inv w' h'"
  using assms(1)
proof cases
  case (clone r)
  then show ?thesis using life_clone [OF assms(2)] by simp
next
  case (opened x)
  then obtain s where "xw_sess w x = Some s" using held_session [OF assms(2)] by blast
  from life_incref [OF assms(2) this] show ?thesis using opened by auto
next
  case (closed x)
  then obtain s where "xw_sess w x = Some s" using held_session [OF assms(2)] by blast
  from life_close [OF assms(2) this] show ?thesis using closed by auto
next
  case (wiped x)
  then obtain s where "xw_sess w x = Some s" using held_session [OF assms(2)] by blast
  from life_wipe [OF assms(2) this] show ?thesis using wiped by auto
next
  case (started x)
  then show ?thesis using life_exec [OF assms(2)] by blast
next
  case (waited x)
  then obtain s where "xw_sess w x = Some s" using held_session [OF assms(2)] by blast
  from life_wait [OF assms(2) this] show ?thesis using waited by blast
next
  case (ended pid status)
  then show ?thesis using life_exit [OF assms(2), of pid status] by auto
qed

lemma life_steps_inv:
  assumes "life_step\<^sup>*\<^sup>* a b" "life_inv (fst a) (snd a)"
  shows "life_inv (fst b) (snd b)"
  using assms by (induction rule: rtranclp_induct) (auto dest: life_step_inv)


section \<open>Persistent sessions\<close>

text \<open>A file of the session is opened and closed again.\<close>

fun reopen :: "nat \<Rightarrow> addr \<Rightarrow> xworld \<Rightarrow> xworld option" where
  "reopen 0 x w = Some w"
| "reopen (Suc n) x w = do { w \<leftarrow> session_incref x w; w \<leftarrow> session_decref x w; reopen n x w }"

text \<open>C39. A session of the type \<^verbatim>\<open>persistent\<close> is freed while it is still shown: with no reference left every open and close
  takes away one of the references to its directory, after as many as that has the session is destroyed, and the next open of the
  directory, which the root still lists, follows a pointer to freed memory.\<close>

theorem persistent_session_freed:
  assumes "xw_sess w x = Some s" and "xs_mode s = Persistent" and "xs_refcount s = 0" and "xs_sroot s = Some r"
    and "sr_refcount r = int n" and "0 < n" and "x \<in> set (xw_root w)"
  shows "\<exists>w'. reopen n x w = Some w' \<and> xw_sess w' x = None \<and> x \<in> set (xw_root w') \<and> session_incref x w' = None"
  using assms
proof (induction n arbitrary: w s r)
  case (Suc n)
  let ?r = "r\<lparr>sr_refcount := int n\<rparr>"
  let ?s1 = "s\<lparr>xs_refcount := 1\<rparr>" and ?s2 = "s\<lparr>xs_refcount := 0, xs_sroot := Some ?r\<rparr>"
  let ?w1 = "w\<lparr>xw_sess := (xw_sess w)(x := Some ?s1)\<rparr>"
  let ?w2 = "w\<lparr>xw_sess := (xw_sess w)(x := Some (s\<lparr>xs_refcount := 0\<rparr>))\<rparr>"
  let ?w3 = "w\<lparr>xw_sess := (xw_sess w)(x := Some ?s2)\<rparr>"
  have i: "session_incref x w = Some ?w1" using Suc.prems by (simp add: session_incref_def upd_sess_at)
  have d: "session_decref x ?w1 = sroot_decref x ?w2"
    using Suc.prems by (simp add: session_decref_def upd_sess_def Let_def)
  show ?case
  proof (cases n)
    case 0
    then obtain w' where "sroot_decref x ?w2 = Some w'" "xw_sess w' x = None" "xw_root w' = xw_root w"
      using sroot_last [of ?w2 x "s\<lparr>xs_refcount := 0\<rparr>" r] Suc.prems(4,5) by auto
    moreover from this(2) have "session_incref x w' = None" by (simp add: session_incref_def upd_sess_def)
    ultimately show ?thesis using i d 0 Suc.prems(7) by simp
  next
    case (Suc m)
    then have "sroot_decref x ?w2 = Some ?w3"
      using Suc.prems by (simp add: sroot_decref_def upd_sess_def)
    moreover have "\<exists>w'. reopen n x ?w3 = Some w' \<and> xw_sess w' x = None \<and> x \<in> set (xw_root w') \<and> session_incref x w' = None"
      using Suc Suc.prems by (intro Suc.IH [of ?w3 ?s2 ?r]) simp_all
    ultimately show ?thesis using i d by simp
  qed
qed simp

section \<open>Waiting for the end\<close>

text \<open>C23. When a process ends, every read of \<^verbatim>\<open>wait\<close> that was waiting is answered once, in the order of the list, with
  its window of the exit status, and no request is left waiting; the session is then finished, or stays wiped.\<close>

theorem sigchld_answers_waits:
  assumes "pid_find (xw_sess w) pid (xw_sessions w) = Some (Some x)" and "xw_sess w x = Some s"
    and "\<forall>i. io_allocs (xw_io w) i \<noteq> None" and "xs_refcount s \<noteq> 1"
    and "\<forall>wr\<in>set (xs_waitreqs s). 0 \<le> sint (wr_count wr) \<and> 0 \<le> int_of_u64 (wr_offset wr)"
  shows "\<exists>w' s'. sigchld_child pid status w = Some w' \<and> xw_sess w' x = Some s' \<and> xs_waitreqs s' = [] \<and> xs_pid s' = - 1 \<and>
    xs_state s' = (if xs_state s = Wiped then Wiped else Finished) \<and> xs_refcount s' = xs_refcount s - 1 \<and>
    xs_exitstatus s' = Some (dec_int status) \<and>
    xw_out w' = xw_out w @ map (\<lambda>wr. (wr_req wr, SRead (window (int_of_u64 (wr_offset wr)) (sint (wr_count wr)) (dec_int status)))) (xs_waitreqs s)"
proof -
  have "xmem w" "\<forall>wr\<in>set (xs_waitreqs s). count_ok wr" using assms(3,5) by (simp_all add: xmem_def count_ok_def)
  from sigchld_child_at [OF assms(1,2) this, of status] obtain w1 s1 ds where 1: "sigchld_child pid status w = session_decref x w1"
    "xw_sess w1 x = Some s1" "xs_state s1 = (if xs_state s = Wiped then Wiped else Finished)" "xs_pid s1 = - 1"
    "xs_exitstatus s1 = Some (dec_int status)" "xs_waitreqs s1 = []" "xs_refcount s1 = xs_refcount s"
    "xw_out w1 = xw_out w @ zip (map wr_req (xs_waitreqs s)) (map SRead ds)"
    "(\<forall>wr\<in>set (xs_waitreqs s). 0 \<le> int_of_u64 (wr_offset wr)) \<longrightarrow> ds = map (wait_text (dec_int status)) (xs_waitreqs s)"
    by blast
  have "xs_refcount s1 \<noteq> 1" using 1(7) assms(4) by simp
  moreover have "zip (map wr_req wrs) (map SRead (map (wait_text t) wrs)) =
      map (\<lambda>wr. (wr_req wr, SRead (window (int_of_u64 (wr_offset wr)) (sint (wr_count wr)) t))) wrs" for t and wrs :: "Xwaitreq list"
    by (induction wrs) (simp_all add: wait_text_def)
  ultimately show ?thesis using session_decref_more [OF 1(2)] 1 assms(5) by simp
qed

section \<open>Witnesses\<close>

definition empty_xworld :: xworld where
  "empty_xworld = sample_xworld\<lparr>xw_sess := \<lambda>_. None, xw_sessions := [], xw_root := []\<rparr>"


lemma persistent_session_freed_witness:
  "\<exists>w'. reopen 12 1 (sample_xworld\<lparr>xw_sess := \<lambda>a. if a = 1 then Some (sample_session\<lparr>xs_mode := Persistent, xs_refcount := 0\<rparr>) else None\<rparr>) = Some w' \<and>
    xw_sess w' 1 = None \<and> 1 \<in> set (xw_root w')"
proof -
  let ?w = "sample_xworld\<lparr>xw_sess := \<lambda>a. if a = 1 then Some (sample_session\<lparr>xs_mode := Persistent, xs_refcount := 0\<rparr>) else None\<rparr>"
  have "xw_sess ?w 1 = Some (sample_session\<lparr>xs_mode := Persistent, xs_refcount := 0\<rparr>)"
    "xs_mode (sample_session\<lparr>xs_mode := Persistent, xs_refcount := 0\<rparr>) = Persistent"
    "xs_refcount (sample_session\<lparr>xs_mode := Persistent, xs_refcount := 0\<rparr>) = 0"
    "xs_sroot (sample_session\<lparr>xs_mode := Persistent, xs_refcount := 0\<rparr>) = Some \<lparr>sr_refcount = 12, sr_children = session_files\<rparr>"
    "sr_refcount \<lparr>sr_refcount = 12, sr_children = session_files\<rparr> = int 12" "(0 :: nat) < 12" "1 \<in> set (xw_root ?w)"
    by (simp_all add: sample_xworld_def sample_session_def)
  from persistent_session_freed [OF this] show ?thesis by blast
qed

lemma sigchld_answers_waits_witness:
  "\<exists>w'. sigchld_child 7 256 (sample_xworld\<lparr>xw_sess := \<lambda>a. if a = 1 then Some (sample_session\<lparr>xs_pid := 7, xs_state := Running,
      xs_waitreqs := [\<lparr>wr_req = 20, wr_offset = 0, wr_count = 10\<rparr>, \<lparr>wr_req = 21, wr_offset = 1, wr_count = 1\<rparr>]\<rparr>) else None\<rparr>) = Some w' \<and>
    xw_out w' = [(20, SRead [50, 53, 54]), (21, SRead [53])]"
proof -
  let ?s = "sample_session\<lparr>xs_pid := 7, xs_state := Running,
      xs_waitreqs := [\<lparr>wr_req = 20, wr_offset = 0, wr_count = 10\<rparr>, \<lparr>wr_req = 21, wr_offset = 1, wr_count = 1\<rparr>]\<rparr>"
  let ?w = "sample_xworld\<lparr>xw_sess := \<lambda>a. if a = 1 then Some ?s else None\<rparr>"
  have "pid_find (xw_sess ?w) 7 (xw_sessions ?w) = Some (Some 1)" "xw_sess ?w 1 = Some ?s" "\<forall>i. io_allocs (xw_io ?w) i \<noteq> None"
    "xs_refcount ?s \<noteq> 1" "\<forall>wr\<in>set (xs_waitreqs ?s). 0 \<le> sint (wr_count wr) \<and> 0 \<le> int_of_u64 (wr_offset wr)" "xw_out ?w = []"
    by (simp_all add: sample_xworld_def sample_session_def sample_pio_def int_of_u64_def)
  note h = this
  have d: "dec_int 256 = [50, 53, 54]" by code_simp
  from sigchld_answers_waits [OF h(1-5), of 256] show ?thesis
    unfolding h(6) d by (auto simp: window_def int_of_u64_def)
qed

end
