(* ===== verification/XcpuExec.thy ===== *)
theory XcpuExec
  imports XcpuLife XcpuCtl
begin

text \<open>
  What a process of a session is started with, and states of the program to try the theorems of
  sessions on.
\<close>

section \<open>The words of a buffer\<close>

lemma blank_32: "blank 32"
  by (simp add: blank_def)

lemma buf_words_at:
  assumes "holds_text b t" "0 \<notin> set t" "xmem w" "tokenize True t = Some (Inr ws)"
  shows "\<exists>w'. buf_words b w = Some (Some (Some ws), w') \<and> xcore w w' \<and> xw_procs w' = xw_procs w \<and> xw_nsys w' = xw_nsys w \<and>
    xw_sys w' = xw_sys w \<and> xw_pipes w' = xw_pipes w"
proof -
  obtain j w1 where 1: "sp_malloc w = (Some j, w1)" "xcore w w1" using sp_malloc_mem [OF assms(3)] by blast
  then obtain k w2 where 2: "x_alloc w1 = (Some k, w2)" "xcore w1 w2" using x_alloc_mem [of w1] assms(3) xmem_core by blast
  have same: "xw_procs w2 = xw_procs w" "xw_nsys w2 = xw_nsys w" "xw_sys w2 = xw_sys w" "xw_pipes w2 = xw_pipes w"
    using 1(1) 2(1) by (auto simp: sp_malloc_def x_alloc_def io_alloc_def split: option.splits)
  have "(if xb_size b = 0 then Some []
            else do { t \<leftarrow> xb_buf b; if 0 \<le> xb_size b \<and> xb_size b \<le> int (length t) then Some (take (nat (xb_size b)) t) else None }) = Some t"
    using assms(1) by (auto simp: holds_text_def split: option.splits)
  moreover have "c_string (t @ [0]) = t" using c_string_at [OF assms(2), of "[]"] by simp
  ultimately have "buf_words b w = Some (Some (Some ws), w2)"
    using 1(1) 2(1) assms(4) by (simp add: buf_words_def)
  then show ?thesis using 1(2) 2(2) xcore_trans same by blast
qed

lemma x_alloc_same:
  "x_alloc w = (m, w') \<Longrightarrow> xw_procs w' = xw_procs w \<and> xw_nsys w' = xw_nsys w \<and> xw_sys w' = xw_sys w \<and> xw_pipes w' = xw_pipes w"
  by (auto simp: x_alloc_def io_alloc_def)

lemma upd_sess_same:
  "upd_sess x f w = Some w' \<Longrightarrow> xw_procs w' = xw_procs w \<and> xw_nsys w' = xw_nsys w \<and> xw_sys w' = xw_sys w \<and> xw_pipes w' = xw_pipes w"
  by (auto simp: upd_sess_def)

lemma x_close_remote_at:
  "xw_sess w x = Some s \<Longrightarrow> \<exists>w'. x_close_remote get upd x w = Some w' \<and> xw_procs w' = xw_procs w \<and>
    xw_sess w' x = Some (upd (\<lambda>_. (get s)\<lparr>xp_rfd := - 1\<rparr>) s)"
  by (auto simp: x_close_remote_def pip_close_remote_def io_close_def upd_sess_def Let_def)

lemma xexec_parent_at:
  assumes "xw_sess w x = Some s"
  shows "\<exists>w' s'. xexec_parent x pid p0 p1 w = Some (1, w') \<and> xw_procs w' = xw_procs w \<and> xw_sess w' x = Some s' \<and> xs_state s' = Running \<and>
    xs_pid s' = pid \<and> xs_refcount s' = xs_refcount s + 1 \<and> xp_rfd (xs_stin s') = - 1 \<and> xp_rfd (xs_stout s') = - 1 \<and> xp_rfd (xs_sterr s') = - 1"
proof -
  let ?s1 = "s\<lparr>xs_state := Running, xs_refcount := xs_refcount s + 1\<rparr>"
  define w2 where "w2 = w\<lparr>xw_sess := (xw_sess w)(x := Some ?s1)\<rparr>"
  have 2: "xw_sess w2 x = Some ?s1" "xw_procs w2 = xw_procs w" by (simp_all add: w2_def)
  obtain w3 where 3: "x_close_remote xs_stin xs_stin_update x w2 = Some w3" "xw_procs w3 = xw_procs w2"
    "xw_sess w3 x = Some (?s1\<lparr>xs_stin := (xs_stin s)\<lparr>xp_rfd := - 1\<rparr>\<rparr>)" using x_close_remote_at [OF 2(1)] by fastforce
  obtain w4 where 4: "x_close_remote xs_stout xs_stout_update x w3 = Some w4" "xw_procs w4 = xw_procs w3"
    "xw_sess w4 x = Some (?s1\<lparr>xs_stin := (xs_stin s)\<lparr>xp_rfd := - 1\<rparr>, xs_stout := (xs_stout s)\<lparr>xp_rfd := - 1\<rparr>\<rparr>)"
    using x_close_remote_at [OF 3(3)] by fastforce
  obtain w5 where 5: "x_close_remote xs_sterr xs_sterr_update x w4 = Some w5" "xw_procs w5 = xw_procs w4"
    "xw_sess w5 x = Some (?s1\<lparr>xs_stin := (xs_stin s)\<lparr>xp_rfd := - 1\<rparr>, xs_stout := (xs_stout s)\<lparr>xp_rfd := - 1\<rparr>,
      xs_sterr := (xs_sterr s)\<lparr>xp_rfd := - 1\<rparr>\<rparr>)"
    using x_close_remote_at [OF 4(3)] by fastforce
  let ?w6 = "w5\<lparr>xw_sess := (xw_sess w5)(x := Some (the (xw_sess w5 x)\<lparr>xs_pid := pid\<rparr>))\<rparr>"
  have "xexec_parent x pid p0 p1 w = Some (1, x_close p1 (x_close p0 ?w6))"
    using assms 3(1) 4(1) 5(1,3) unfolding w2_def
    by (simp add: xexec_parent_def session_incref_def upd_sess_at)
  then show ?thesis using 2 3 4 5 by (simp add: x_close_def)
qed

text \<open>C13. The command \<^verbatim>\<open>exec\<close> starts one process with the words that were put into the file \<^verbatim>\<open>argv\<close>, each as it was quoted, the
  words of the environment with the variables of the session behind them, the directory of the session as its own and the remote
  ends of the three pipes as its standard files; the session runs with one more reference and has closed those ends.\<close>

theorem xexec_starts_argv:
  assumes s: "xw_sess w x = Some s" "xs_state s \<noteq> Wiped" "xs_ctlreq s = Some q" "xs_gid s = Some gid"
      "xs_stinfname s = None" "xs_stoutfname s = None" "xs_sterrfname s = None"
    and mem: "\<forall>i. io_allocs (xw_io w) i \<noteq> None"
    and argv: "holds_text (xs_argv s) (join_words args)" "\<forall>a\<in>set args. ok_word a"
    and env: "holds_text (xs_env s) t" "vars = xcpupath s gid (cq_address q)" "0 \<notin> set (t @ vars)"
      "tokenize True (t @ vars) = Some (Inr es)" "length (t @ vars) < 2147483648" "length vars < length (xs_dirpath s) + length (cq_address q) + 256"
    and sys: "xw_pipes w (xw_nsys w) = Some (p0, p1)" "xw_sys w (Suc (xw_nsys w)) = pid" "0 < pid"
    and path: "exec = 47 # rest"
  shows "\<exists>w' s'. xexec x (Some exec) None user w = Some (1, w') \<and>
    xw_procs w' = xw_procs w @ [\<lparr>pc_pid = pid, pc_path = exec, pc_argv = Some args, pc_env = Some es, pc_cwd = xs_dirpath s,
      pc_fds = (xp_rfd (xs_stin s), xp_rfd (xs_stout s), xp_rfd (xs_sterr s)), pc_uid = su_uid user, pc_gid = sg_gid (su_dfltgroup user)\<rparr>] \<and>
    xw_sess w' x = Some s' \<and> xs_state s' = Running \<and> xs_pid s' = pid \<and> xs_refcount s' = xs_refcount s + 1 \<and>
    xp_rfd (xs_stin s') = - 1 \<and> xp_rfd (xs_stout s') = - 1 \<and> xp_rfd (xs_sterr s') = - 1"
proof -
  have m: "xmem w" using mem by (simp add: xmem_def)
  obtain j w1 where 1: "sp_malloc w = (Some j, w1)" "xcore w w1" using sp_malloc_mem [OF m] by blast
  obtain k w2 where 2: "x_alloc w1 = (Some k, w2)" "xcore w1 w2" using x_alloc_mem [of w1] xmem_core [OF 1(2)] m by blast
  have same2: "xw_procs w2 = xw_procs w" "xw_nsys w2 = xw_nsys w" "xw_sys w2 = xw_sys w" "xw_pipes w2 = xw_pipes w"
    using 1(1) x_alloc_same [OF 2(1)] by (auto simp: sp_malloc_def x_alloc_def io_alloc_def split: option.splits)
  have s2: "xw_sess w1 x = Some s" "xw_sess w2 x = Some s" using 1(2) 2(2) s(1) by (simp_all add: xcore_def)
  have size: "word_of_int (xb_size (xs_env s)) = word_of_nat (length t)" using env(1) by (simp add: holds_text_def)
  obtain env' where e: "bufwrite (Some k) (xs_env s) (word_of_int (xb_size (xs_env s))) (word_of_nat (length vars)) vars =
      Some (int (length vars), env')" "holds_text env' (t @ vars)"
    using bufwrite_at [OF env(1), of "length t" vars vars k] env(5) unfolding size by auto
  obtain w3 where 3: "upd_sess x (xs_env_update (\<lambda>_. env')) w2 = Some w3" "xframe x w2 w3" "xw_sess w3 x = Some (s\<lparr>xs_env := env'\<rparr>)"
    using upd_sess_frame [OF s2(2)] by blast
  have same3: "xw_procs w3 = xw_procs w" "xw_nsys w3 = xw_nsys w" "xw_sys w3 = xw_sys w" "xw_pipes w3 = xw_pipes w"
    using upd_sess_same [OF 3(1)] same2 by simp_all
  have m3: "xmem w3" using m 1(2) 2(2) 3(2) xmem_core xmem_frame by metis
  obtain w4 where 4: "buf_words env' w3 = Some (Some (Some es), w4)" "xcore w3 w4" "xw_procs w4 = xw_procs w3" "xw_nsys w4 = xw_nsys w3"
    "xw_sys w4 = xw_sys w3" "xw_pipes w4 = xw_pipes w3"
    using buf_words_at [OF e(2) env(3) m3 env(4)] by blast
  have m4: "xmem w4" using m3 4(2) xmem_core by blast
  obtain w5 where 5: "buf_words (xs_argv s) w4 = Some (Some (Some args), w5)" "xcore w4 w5" "xw_procs w5 = xw_procs w4" "xw_nsys w5 = xw_nsys w4"
    "xw_sys w5 = xw_sys w4" "xw_pipes w5 = xw_pipes w4"
    using buf_words_at [OF argv(1) join_with_nonzero [OF _ argv(2), of 32, simplified] m4 tokenize_join [OF blank_32 argv(2)]] by blast
  have s5: "xw_sess w5 x = Some (s\<lparr>xs_env := env'\<rparr>)" using 3(3) 4(2) 5(2) by (simp add: xcore_def)
  let ?w6 = "w5\<lparr>xw_nsys := Suc (xw_nsys w)\<rparr>" and ?w7 = "w5\<lparr>xw_nsys := Suc (Suc (xw_nsys w))\<rparr>"
  have pip: "x_pipe w5 = (Some (p0, p1), ?w6)"
    using sys(1) same3 4(4,6) 5(4,6) by (simp add: x_pipe_def)
  have fds: "xexec_fds (s\<lparr>xs_env := env'\<rparr>) ?w6 = (True, (xp_rfd (xs_stin s), xp_rfd (xs_stout s), xp_rfd (xs_sterr s)), ?w6)"
    using s(5-7) by (simp add: xexec_fds_def)
  have frk: "x_sys ?w6 = (pid, ?w7)"
    using sys(2,3) same3 4(5) 5(5) by (simp add: x_sys_def Let_def)
  let ?pc = "\<lparr>pc_pid = pid, pc_path = exec, pc_argv = Some args, pc_env = Some es, pc_cwd = xs_dirpath s,
      pc_fds = (xp_rfd (xs_stin s), xp_rfd (xs_stout s), xp_rfd (xs_sterr s)), pc_uid = su_uid user, pc_gid = sg_gid (su_dfltgroup user)\<rparr>"
  let ?w8 = "?w7\<lparr>xw_procs := xw_procs ?w7 @ [?pc]\<rparr>"
  have fork: "xexec_fork x exec (xs_dirpath s) user (Some es) (Some args) w5 = xexec_parent x pid p0 p1 ?w8"
    using s5 pip fds frk sys(3) path by (simp add: xexec_fork_def)
  have words: "xexec_words x exec (xs_dirpath s) user vars w1 = xexec_parent x pid p0 p1 ?w8"
    using s2(1) 2(1) e(1) 3(1) 4(1) 5(1) fork by (simp add: xexec_words_def)
  have run: "xexec x (Some exec) None user w = xexec_parent x pid p0 p1 ?w8"
    using s(1-4) 1(1) env(2,6) words by (simp add: xexec_def)
  have "xw_sess ?w8 x = Some (s\<lparr>xs_env := env'\<rparr>)" using s5 by simp
  from xexec_parent_at [OF this, of pid p0 p1] show ?thesis unfolding run using same3(1) 4(3) 5(3) by fastforce
qed

text \<open>The room for the variables of a session is computed from its directory and the address only; a session whose
  identifier and directory together are long writes behind it on \<^verbatim>\<open>exec\<close>, whatever is started.\<close>

theorem xexec_long_id:
  assumes "xw_sess w x = Some s" "xs_state s \<noteq> Wiped" "xs_ctlreq s = Some q" "xs_gid s = Some gid"
    and "\<forall>i. io_allocs (xw_io w) i \<noteq> None" and "198 \<le> length (xs_dirpath s) + length gid"
  shows "xexec x (Some exec) cwd user w = None"
proof -
  obtain j w1 where "sp_malloc w = (Some j, w1)" using sp_malloc_mem [of w] assms(5) by (auto simp: xmem_def)
  moreover have "length (xcpupath s gid (cq_address q)) + 1 > length (xs_dirpath s) + length (cq_address q) + 256"
    using assms(6) by (simp add: xcpupath_def cstr_def)
  ultimately show ?thesis using assms(1-4) by (simp add: xexec_def Let_def)
qed

section \<open>Witnesses\<close>

definition exec_session :: Xsession where
  "exec_session = sample_session\<lparr>xs_ctlreq := Some \<lparr>cq_req = 10, cq_count = 5, cq_address = [97]\<rparr>\<rparr>"

definition exec_world :: xworld where
  "exec_world = sample_xworld\<lparr>xw_sess := \<lambda>a. if a = 1 then Some exec_session else None\<rparr>"

definition exec_env :: "cstring list" where
  "exec_env = [[65, 61, 49], cstr ''XCPUPATH=/t'', cstr ''XCPUSID=0'', cstr ''XCPUID=/0'', cstr ''LD_LIBRARY_PATH=/t'', cstr ''XCPU_PARENT=a'']"

lemma blank_10: "blank 10"
  by (simp add: blank_def)

lemma xexec_starts_argv_witness:
  "\<exists>w' pc. xexec 1 (Some (cstr ''/bin/ls'')) None sample_user exec_world = Some (1, w') \<and> xw_procs w' = [pc] \<and>
    pc_argv pc = Some [[97], [98, 32, 99]] \<and> pc_env pc = Some exec_env \<and> pc_pid pc = 77"
proof -
  let ?args = "[[97], [98, 32, 99]] :: cstring list" and ?vars = "xcpupath exec_session [] [97]"
  have a: "holds_text (xs_argv exec_session) (join_words ?args)" "\<forall>a\<in>set ?args. ok_word a"
    by (simp_all add: exec_session_def sample_session_def holds_text_def quoted_def needs_quotes_def ok_word_def)
  have e: "holds_text (xs_env exec_session) [65, 61, 49]" by (simp add: exec_session_def sample_session_def new_session_def holds_text_def)
  have q: "xs_ctlreq exec_session = Some \<lparr>cq_req = 10, cq_count = 5, cq_address = [97]\<rparr>" "xs_gid exec_session = Some []"
    "xw_sess exec_world 1 = Some exec_session" "xs_state exec_session \<noteq> Wiped" "xs_stinfname exec_session = None" "xs_stoutfname exec_session = None"
    "xs_sterrfname exec_session = None" "\<forall>i. io_allocs (xw_io exec_world) i \<noteq> None"
    by (simp_all add: exec_session_def exec_world_def sample_session_def new_session_def sample_xworld_def sample_pio_def)
  have j: "[65, 61, 49] @ ?vars = join_with 10 exec_env" by code_simp
  have "\<forall>a\<in>set exec_env. ok_word a" by (simp add: exec_env_def ok_word_def needs_quotes_def cstr_def)
  then have t: "tokenize True ([65, 61, 49] @ ?vars) = Some (Inr exec_env)"
    unfolding j by (rule tokenize_join [of 10, OF blank_10])
  have l: "length ([65, 61, 49] @ ?vars) < 200"
    unfolding j by (simp add: exec_env_def cstr_def quoted_def needs_quotes_def)
  have v: "0 \<notin> set ([65, 61, 49] @ ?vars)" unfolding j
    using join_with_nonzero [of 10 exec_env] by (simp add: exec_env_def ok_word_def needs_quotes_def cstr_def)
  have n: "length ([65, 61, 49] @ ?vars) < 2147483648"
    "length ?vars < length (xs_dirpath exec_session) + length (cq_address \<lparr>cq_req = 10, cq_count = 5, cq_address = [97]\<rparr>) + 256"
    using l unfolding length_append by simp_all
  have w: "xw_pipes exec_world (xw_nsys exec_world) = Some (8, 9)" "xw_sys exec_world (Suc (xw_nsys exec_world)) = 77" "(0 :: int) < 77"
    by (simp_all add: exec_world_def sample_xworld_def)
  have vars: "?vars = xcpupath exec_session [] (cq_address \<lparr>cq_req = 10, cq_count = 5, cq_address = [97]\<rparr>)" by simp
  have p: "cstr ''/bin/ls'' = 47 # cstr ''bin/ls''" "xw_procs exec_world = []"
    by (simp_all add: cstr_def exec_world_def sample_xworld_def)
  from xexec_starts_argv [OF q(3,4,1,2,5-8) a e vars v t n w p(1), of sample_user]
  show ?thesis unfolding p(2) append_Nil by (elim exE conjE) (rule exI, rule exI, intro conjI, assumption, assumption, simp_all)
qed

lemma xexec_long_id_witness:
  "xexec 1 (Some [47]) None sample_user (sample_xworld\<lparr>xw_sess := \<lambda>a. if a = 1 then Some (exec_session\<lparr>xs_gid := Some (replicate 200 97)\<rparr>) else None\<rparr>) = None"
  by (rule xexec_long_id [where s = "exec_session\<lparr>xs_gid := Some (replicate 200 97)\<rparr>"
      and q = "\<lparr>cq_req = 10, cq_count = 5, cq_address = [97]\<rparr>" and gid = "replicate 200 97"])
    (simp_all add: exec_session_def sample_session_def new_session_def sample_xworld_def sample_pio_def)

end
