(* ===== verification/SpcFsys.thy ===== *)
theory SpcFsys
  imports IdPool NpCodec
begin

text \<open>
  The single threaded client library, \<^verbatim>\<open>spfs/libspclient/fsys.c\<close>: requests are written to a socket and
  read from it as the poll loop finds it ready, in pieces of any size. A request waits in the list
  \<^verbatim>\<open>pend\<close> until it is written, then in \<^verbatim>\<open>sent\<close> until a reply with its tag comes; its callback is
  told the reply, or NULL and the error that is set. A request can be flushed: a \<^verbatim>\<open>Tflush\<close> is sent
  for it, and it is reported as flushed when the answer to that comes first.

  The result \<open>None\<close> is a fault. The requests live in a heap; the lists \<^verbatim>\<open>pend_first\<close> and
  \<^verbatim>\<open>sent_reqs\<close> are given by the addresses of their members, and walking over a member that was freed
  is a fault.
\<close>

section \<open>The state\<close>

definition ECONNRESET :: int where "ECONNRESET = 104"
definition spc_Enomem :: cstring where "spc_Enomem = cstr ''not enough memory''"
definition spc_Econn :: cstring where "spc_Econn = cstr ''connection closed''"
definition spc_Emismatch :: cstring where "spc_Emismatch = cstr ''response mismatch''"
definition Eflush :: cstring where "Eflush = cstr ''request flushed''"

text \<open>
  A callback is a number of the caller, \<^verbatim>\<open>spc_rpc_cb\<close> with the record on the stack of \<^verbatim>\<open>spc_rpc\<close>,
  or \<^verbatim>\<open>spc_flush_cb\<close> with a request.
\<close>

datatype scb = Cb nat | RpcCb | FlushCb addr

record Spcreq =
  sq_tag :: u16
  sq_tc :: Npfcall
  sq_cb :: scb
  sq_flushed :: bool

text \<open>
  \<open>sf_ifcall\<close> is the packet that is being read, with the bytes of it so far. \<open>sf_spfd\<close> says that the
  socket is in the poll set; the root fid and the authentication fid are known by their numbers.
\<close>

record Spcfsys =
  sf_fd :: int
  sf_spfd :: bool
  sf_dotu :: bool
  sf_msize :: u32
  sf_root :: "u32 option"
  sf_afid :: "u32 option"
  sf_ename :: "cstring option"
  sf_ecode :: int
  sf_tagpool :: Spcpool
  sf_fidpool :: Spcpool
  sf_ifcall :: "(Npfcall \<times> u8 list) option"
  sf_pend_pos :: nat
  sf_pend :: "addr list"
  sf_sent :: "addr list"

text \<open>
  The state: the requests, the outcome of each allocation, the calls made of callbacks (with the
  reply and the error set), what \<^verbatim>\<open>spc_rpc_cb\<close> put into the record of \<^verbatim>\<open>spc_rpc\<close>, the bytes written,
  and the error of \<^verbatim>\<open>error.c\<close>.
\<close>

record spcstate =
  sc_fs :: Spcfsys
  sc_reqs :: "Spcreq heap"
  sc_mallocs :: "nat \<Rightarrow> malloc"
  sc_nmalloc :: nat
  sc_calls :: "(nat \<times> Npfcall option \<times> (cstring \<times> int) option) list"
  sc_rpc :: "Npfcall option \<times> (cstring \<times> int) option"
  sc_out :: "u8 list"
  sc_ename :: cstring
  sc_ecode :: int

definition upd_sf :: "(Spcfsys \<Rightarrow> Spcfsys) \<Rightarrow> spcstate \<Rightarrow> spcstate" where
  "upd_sf f w = w\<lparr>sc_fs := f (sc_fs w)\<rparr>"

definition sc_alloc :: "spcstate \<Rightarrow> malloc \<times> spcstate" where
  "sc_alloc w = (sc_mallocs w (sc_nmalloc w), w\<lparr>sc_nmalloc := sc_nmalloc w + 1\<rparr>)"

lemma upd_sf_simps [simp]:
  "sc_fs (upd_sf f w) = f (sc_fs w)" "sc_reqs (upd_sf f w) = sc_reqs w" "sc_calls (upd_sf f w) = sc_calls w"
  "sc_out (upd_sf f w) = sc_out w" "sc_nmalloc (upd_sf f w) = sc_nmalloc w" "sc_rpc (upd_sf f w) = sc_rpc w"
  "sc_mallocs (upd_sf f w) = sc_mallocs w"
  by (simp_all add: upd_sf_def)

text \<open>The error record of \<^verbatim>\<open>spfs/libspfs/error.c\<close>, and saving it around calls that change it.\<close>

definition sc_werror :: "cstring option \<Rightarrow> int \<Rightarrow> spcstate \<Rightarrow> spcstate" where
  "sc_werror ename ecode w =
     (let w = w\<lparr>sc_ecode := ecode\<rparr> in case ename of None \<Rightarrow> w | Some e \<Rightarrow> w\<lparr>sc_ename := e\<rparr>)"

definition sc_error :: "spcstate \<Rightarrow> (cstring \<times> int) option" where
  "sc_error w = (if sc_ecode w \<noteq> 0 then Some (sc_ename w, sc_ecode w) else None)"

definition sc_save :: "spcstate \<Rightarrow> (cstring option \<times> int) \<times> spcstate" where
  "sc_save w =
     (case sc_error w of
        None \<Rightarrow> ((None, 0), w)
      | Some (e, c) \<Rightarrow> (case sc_alloc w of (None, w) \<Rightarrow> ((None, c), w) | (Some _, w) \<Rightarrow> ((Some e, c), w)))"

definition sc_malloc :: "spcstate \<Rightarrow> malloc \<times> spcstate" where
  "sc_malloc w = (case sc_alloc w of
     (None, w) \<Rightarrow> (None, sc_werror (Some spc_Enomem) ENOMEM w)
   | (Some m, w) \<Rightarrow> (Some m, w))"

text \<open>
  \<^verbatim>\<open>spc_create_fsys\<close>: \<open>polled\<close> says whether the socket could be added to the poll set. The pools take
  two allocations each. Otherwise the socket is closed and the result is NULL.
\<close>

definition spc_create_fsys :: "int \<Rightarrow> u32 \<Rightarrow> bool \<Rightarrow> (nat \<Rightarrow> malloc) \<Rightarrow> spcstate option" where
  "spc_create_fsys fd msize polled mem = do {
     _ \<leftarrow> mem 0;
     _ \<leftarrow> (if polled then Some () else None);
     tagpool \<leftarrow> spc_create_pool (ucast NOTAG) (mem 1 \<noteq> None) (mem 2 \<noteq> None);
     fidpool \<leftarrow> spc_create_pool NOFID (mem 3 \<noteq> None) (mem 4 \<noteq> None);
     Some \<lparr>sc_fs = \<lparr>sf_fd = fd, sf_spfd = True, sf_dotu = False, sf_msize = msize, sf_root = None, sf_afid = None,
         sf_ename = None, sf_ecode = 0, sf_tagpool = tagpool, sf_fidpool = fidpool, sf_ifcall = None, sf_pend_pos = 0,
         sf_pend = [], sf_sent = []\<rparr>,
       sc_reqs = Map.empty, sc_mallocs = mem, sc_nmalloc = 5, sc_calls = [], sc_rpc = (None, None), sc_out = [],
       sc_ename = [], sc_ecode = 0\<rparr>
   }"

text \<open>
  The parser of \<^verbatim>\<open>spfs/libspfs/np.c\<close>. It reads a message as that of \<^verbatim>\<open>npfs/libnpfs/np.c\<close> does;
  in addition it reads the user number at the end of \<^verbatim>\<open>Tauth\<close> and \<^verbatim>\<open>Tattach\<close>, and gives
  defaults to what a message without extensions does not have.
\<close>

definition no_extensions :: "Npstat \<Rightarrow> Npstat" where
  "no_extensions st =
     st\<lparr>st_extension := (st_extension st)\<lparr>str_len := 0\<rparr>, st_n_uid := - 1, st_n_gid := - 1, st_n_muid := - 1\<rparr>"

definition sp_deserialize_body :: "bool \<Rightarrow> cbuf \<times> Npfcall \<Rightarrow> (cbuf \<times> Npfcall) option" where
  "sp_deserialize_body dotu s = do {
     (b, fc) \<leftarrow> np_deserialize_body dotu s;
     let t = fc_type fc;
     Some
       (if t = Tauth \<or> t = Tattach then
          (if dotu \<and> cb_p b \<noteq> cb_ep b then get32 fc_n_uname_update (b, fc) else (b, fc\<lparr>fc_n_uname := - 1\<rparr>))
        else if t = Tcreate \<and> \<not> dotu then (b, fc\<lparr>fc_extension := npstr_zero\<rparr>)
        else if (t = Rstat \<or> t = Twstat) \<and> \<not> dotu then (b, fc\<lparr>fc_stat := no_extensions (fc_stat fc)\<rparr>)
        else (b, fc))
   }"

definition sp_deserialize :: "Npfcall \<Rightarrow> u8 list \<Rightarrow> bool \<Rightarrow> Npfcall option \<times> bool" where
  "sp_deserialize fc data dotu =
     (let s = np_deserialize_start fc data in
      case sp_deserialize_body dotu s of
        None \<Rightarrow> (None, cb_oob (fst s))
      | Some s \<Rightarrow>
          (if buf_check_overflow (fst s) then None
           else if fc_size (snd s) = 0 then None else Some (snd s), cb_oob (fst s)))"

text \<open>The packets it takes, and that it stays inside the memory.\<close>

lemma sp_body_safe:
  assumes "safe_buf (fst s)" "sp_deserialize_body dotu s = Some s'"
  shows "\<not> cb_oob (fst s')"
proof -
  obtain b fc where b: "np_deserialize_body dotu s = Some (b, fc)" using assms(2) by (auto simp: sp_deserialize_body_def bind_eq_Some_conv)
  have o: "\<not> cb_oob b" using body_safe [OF assms(1) b] by simp
  have "fc_type fc = fc_type (snd s)" using body_head [OF b] by (simp add: head_fields_def)
  then have "fc_type fc = Tauth \<or> fc_type fc = Tattach \<Longrightarrow> safe_buf b"
    using b assms(1) by (auto simp: np_deserialize_body_def Let_def msg_type_defs safe_reads dest!: arg_cong [where f = fst])
  then have "fc_type fc = Tauth \<or> fc_type fc = Tattach \<Longrightarrow> \<not> cb_oob (fst (get32 fc_n_uname_update (b, fc)))"
    by (intro safe_no_oob safe_reads) simp
  then show ?thesis using assms(2) b o by (auto simp: sp_deserialize_body_def Let_def split: if_splits)
qed

lemma sp_deserialize_safe:
  assumes "4 \<le> length data" "unat (of_le32 data) \<le> length data"
  shows "\<not> snd (sp_deserialize fc data dotu)"
  using sp_body_safe [OF start_safe [OF assms]] start_safe [OF assms, of fc]
  by (auto simp: sp_deserialize_def Let_def safe_buf_def split: option.splits)

lemma sp_deserialize_size:
  assumes "4 \<le> length data" "fst (sp_deserialize fc data dotu) = Some fc'"
  shows "0 < unat (of_le32 data)"
proof (rule ccontr)
  assume "\<not> 0 < unat (of_le32 data)"
  then have z: "of_le32 data = 0" by (simp add: unat_gt_0)
  obtain s where "sp_deserialize_body dotu (np_deserialize_start fc data) = Some s"
    using assms(2) by (auto simp: sp_deserialize_def Let_def split: option.splits)
  then obtain s' where "np_deserialize_body dotu (np_deserialize_start fc data) = Some s'"
    by (auto simp: sp_deserialize_body_def bind_eq_Some_conv)
  then have "100 \<le> fc_type (snd (np_deserialize_start fc data))" using body_type by blast
  then show False using start_head(2) [OF assms(1), of fc] z by simp
qed

text \<open>Other messages are read as by \<^verbatim>\<open>np_deserialize\<close>.\<close>

lemma sp_deserialize_np:
  assumes "np_deserialize fc data dotu = (Some fc', o')" "fc_type fc' \<notin> {Tauth, Tattach, Tcreate, Rstat, Twstat}"
  shows "sp_deserialize fc data dotu = (Some fc', o')"
  using assms by (auto simp: np_deserialize_def sp_deserialize_def sp_deserialize_body_def Let_def split: option.splits if_splits)

section \<open>Callbacks and flushed requests\<close>

text \<open>\<^verbatim>\<open>spc_rpc_cb\<close>: without an error of its own it takes the one the connection was closed with.\<close>

definition spc_rpc_cb :: "Npfcall option \<Rightarrow> spcstate \<Rightarrow> spcstate" where
  "spc_rpc_cb rc w =
     (let (ename, ecode) = (if sc_ecode w = 0 then (sf_ename (sc_fs w), sf_ecode (sc_fs w)) else (Some (sc_ename w), sc_ecode w))
      in if ecode = 0 then w\<lparr>sc_rpc := (rc, snd (sc_rpc w))\<rparr>
         else (case sc_alloc w of
                 (None, w) \<Rightarrow> w\<lparr>sc_rpc := (rc, Some (spc_Enomem, ENOMEM))\<rparr>
               | (Some _, w) \<Rightarrow> w\<lparr>sc_rpc := (rc, map_option (\<lambda>e. (e, ecode)) ename)\<rparr>))"

text \<open>The search for a request in a list, which reads the members before it.\<close>

fun sent_scan :: "Spcreq heap \<Rightarrow> addr \<Rightarrow> addr list \<Rightarrow> bool option" where
  "sent_scan h r [] = Some False"
| "sent_scan h r (a # as) = (if a = r then Some True else if h a = None then None else sent_scan h r as)"

lemma sent_scan_in: "sent_scan h r as = Some True \<Longrightarrow> r \<in> set as"
  by (induction as) (auto split: if_splits)

lemma sent_scan_shorter: "sent_scan h r as = Some True \<Longrightarrow> length (remove1 r as) < length as"
  using length_pos_if_in_set [OF sent_scan_in] by (auto simp: length_remove1 dest: sent_scan_in)

text \<open>The end of a request: its tag goes back and its memory is freed.\<close>

definition spc_release :: "addr \<Rightarrow> spcstate \<Rightarrow> spcstate option" where
  "spc_release r w = do {
     q \<leftarrow> sc_reqs w r;
     p \<leftarrow> spc_put_id (sf_tagpool (sc_fs w)) (ucast (sq_tag q));
     Some (upd_sf (sf_tagpool_update (\<lambda>_. p)) (w\<lparr>sc_reqs := (sc_reqs w)(r := None)\<rparr>))
   }"

lemma sc_error_upd_sf [simp]: "sc_error (upd_sf f w) = sc_error w"
  by (simp add: sc_error_def upd_sf_def)

lemma sc_save_fs [simp]: "sc_fs (snd (sc_save w)) = sc_fs w"
  by (auto simp: sc_save_def sc_alloc_def split: option.splits)

lemma sc_werror_fs [simp]: "sc_fs (sc_werror e c w) = sc_fs w"
  by (auto simp: sc_werror_def Let_def split: option.splits)

text \<open>
  \<^verbatim>\<open>spc_request_flushed\<close>: a request that is still on the list of those sent is reported with
  \<^verbatim>\<open>Eflush\<close>; the error set before is kept.
\<close>

function spc_request_flushed :: "addr \<Rightarrow> spcstate \<Rightarrow> spcstate option" where
  "spc_request_flushed r w =
     (case sent_scan (sc_reqs w) r (sf_sent (sc_fs w)) of
        None \<Rightarrow> None
      | Some False \<Rightarrow> spc_release r w
      | Some True \<Rightarrow> do {
          q \<leftarrow> sc_reqs w r;
          let sw = sc_save (upd_sf (sf_sent_update (remove1 r)) w);
          let w1 = sc_werror (Some Eflush) EIO (snd sw);
          w \<leftarrow> (case sq_cb q of
              Cb n \<Rightarrow> Some (w1\<lparr>sc_calls := sc_calls w1 @ [(n, None, sc_error w1)]\<rparr>)
            | RpcCb \<Rightarrow> Some (spc_rpc_cb None w1)
            | FlushCb r' \<Rightarrow> spc_request_flushed r' w1);
          spc_release r (sc_werror (fst (fst sw)) (snd (fst sw)) w)
        })"
  by pat_completeness auto
termination
  by (relation "measure (\<lambda>(r, w). length (sf_sent (sc_fs w)))") (auto simp: upd_sf_def dest: sent_scan_shorter)

declare spc_request_flushed.simps [simp del]

definition spc_call :: "scb \<Rightarrow> Npfcall option \<Rightarrow> spcstate \<Rightarrow> spcstate option" where
  "spc_call cb rc w =
     (case cb of
        Cb n \<Rightarrow> Some (w\<lparr>sc_calls := sc_calls w @ [(n, rc, sc_error w)]\<rparr>)
      | RpcCb \<Rightarrow> Some (spc_rpc_cb rc w)
      | FlushCb r \<Rightarrow> spc_request_flushed r w)"

section \<open>The end of the connection\<close>

text \<open>
  \<^verbatim>\<open>spc_disconnect_fsys\<close>: the error is kept for later requests, the socket is closed, and every
  request is called back with NULL. The list \<^verbatim>\<open>sent_reqs\<close> still has its freed members while the
  others are called back.
\<close>

definition drop_fid :: "u32 option \<Rightarrow> spcstate \<Rightarrow> spcstate option" where
  "drop_fid fid w =
     (case fid of
        None \<Rightarrow> Some w
      | Some k \<Rightarrow> map_option (\<lambda>p. upd_sf (sf_fidpool_update (\<lambda>_. p)) w) (spc_put_id (sf_fidpool (sc_fs w)) k))"

fun abort_pend :: "addr list \<Rightarrow> spcstate \<Rightarrow> spcstate option" where
  "abort_pend [] w = Some w"
| "abort_pend (req # reqs) w = do {
     q \<leftarrow> sc_reqs w req;
     w \<leftarrow> spc_call (sq_cb q) None w;
     q \<leftarrow> sc_reqs w req;
     abort_pend reqs (w\<lparr>sc_reqs := (sc_reqs w)(req := None)\<rparr>)
   }"

fun next_in :: "addr list \<Rightarrow> addr \<Rightarrow> addr option" where
  "next_in [] a = None"
| "next_in (x # xs) a = (if x = a then (case xs of [] \<Rightarrow> None | y # _ \<Rightarrow> Some y) else next_in xs a)"

partial_function (option) abort_sent :: "addr option \<Rightarrow> spcstate \<Rightarrow> spcstate option" where
  "abort_sent p w =
     (case p of
        None \<Rightarrow> Some w
      | Some req \<Rightarrow> do {
          q \<leftarrow> sc_reqs w req;
          w \<leftarrow> spc_call (sq_cb q) None w;
          q \<leftarrow> sc_reqs w req;
          abort_sent (next_in (sf_sent (sc_fs w)) req) (w\<lparr>sc_reqs := (sc_reqs w)(req := None)\<rparr>)
        })"

definition disconnect_socket :: "spcstate \<Rightarrow> spcstate option" where
  "disconnect_socket w = do {
     let err = sc_error w;
     let (mem, w) = (if err = None then (None, w) else sc_alloc w);
     let w = upd_sf (\<lambda>fs. fs\<lparr>sf_ename := map_option (\<lambda>(e, c). if mem = None then spc_Enomem else e) err,
       sf_ecode := (case err of None \<Rightarrow> 0 | Some (e, c) \<Rightarrow> c)\<rparr>) w;
     w \<leftarrow> drop_fid (sf_root (sc_fs w)) w;
     w \<leftarrow> drop_fid (sf_afid (sc_fs w)) w;
     Some (upd_sf (\<lambda>fs. fs\<lparr>sf_root := None, sf_afid := None, sf_fd := - 1, sf_spfd := False\<rparr>) w)
   }"

definition disconnect_requests :: "spcstate \<Rightarrow> spcstate option" where
  "disconnect_requests w = do {
     w \<leftarrow> abort_pend (sf_pend (sc_fs w)) w;
     let w = upd_sf (sf_pend_update (\<lambda>_. [])) w;
     w \<leftarrow> abort_sent (case sf_sent (sc_fs w) of [] \<Rightarrow> None | req # _ \<Rightarrow> Some req) w;
     Some (upd_sf (sf_sent_update (\<lambda>_. [])) w)
   }"

definition spc_disconnect_fsys :: "spcstate \<Rightarrow> spcstate option" where
  "spc_disconnect_fsys w = do {
     w \<leftarrow> disconnect_socket w;
     let err = sc_error w;
     let (mem, w) = (if err = None then (None, w) else sc_alloc w);
     let (ename, ecode) = (case err of None \<Rightarrow> (None, 0)
       | Some (e, c) \<Rightarrow> if mem = None then (Some spc_Enomem, ENOMEM) else (Some e, c));
     w \<leftarrow> disconnect_requests (sc_werror (Some spc_Econn) ECONNRESET w);
     Some (sc_werror ename ecode w)
   }"

section \<open>Writing\<close>

text \<open>
  \<^verbatim>\<open>spc_fd_write\<close> writes what is left of the first request; \<open>n\<close> is how much the socket takes, or the
  error it returns. A request that is shorter than what was written of the one before it is a fault.
\<close>

definition spc_fd_write :: "int \<Rightarrow> spcstate \<Rightarrow> spcstate option" where
  "spc_fd_write n w =
     (case sf_pend (sc_fs w) of
        [] \<Rightarrow> Some w
      | req # rest \<Rightarrow> do {
          q \<leftarrow> sc_reqs w req;
          let sz = unat (fc_size (sq_tc q));
          let pos = sf_pend_pos (sc_fs w);
          if length (fc_pkt (sq_tc q)) < sz \<or> sz < pos then None
          else
            (let n = min n (int (sz - pos)) in
             if n = 0 then spc_disconnect_fsys w
             else if n < 0 then Some w
             else
               (let w = w\<lparr>sc_out := sc_out w @ take (nat n) (drop pos (fc_pkt (sq_tc q)))\<rparr>;
                    pos = pos + nat n
                in Some (upd_sf (\<lambda>fs.
                     if pos = sz then fs\<lparr>sf_pend_pos := 0, sf_pend := rest, sf_sent := req # sf_sent fs\<rparr>
                     else fs\<lparr>sf_pend_pos := pos\<rparr>) w)))
        })"

text \<open>
  \<^verbatim>\<open>spc_rpcnb\<close>: the request gets a tag and is queued; when it is alone and the socket can be written,
  \<open>wr\<close> is what it takes. On an error the callback is called at once.
\<close>

definition spc_tag :: "Npfcall \<Rightarrow> spcstate \<Rightarrow> (Npfcall option \<times> spcstate) option" where
  "spc_tag tc w =
     (if fc_type tc = Tversion then Some (Some tc, w)
      else do {
        let (mem, w) = (if length (sp_map (sf_tagpool (sc_fs w))) \<le> free_byte (sp_map (sf_tagpool (sc_fs w)))
          then sc_alloc w else (None, w));
        let (k, p) = spc_get_id (mem \<noteq> None) (sf_tagpool (sc_fs w));
        let w = upd_sf (sf_tagpool_update (\<lambda>_. p)) w;
        if (ucast k :: u16) = NOTAG then Some (None, sc_werror (Some (cstr ''tag pool full'')) EIO w)
        else (case np_set_tag tc (ucast k) of Inl _ \<Rightarrow> None | Inr tc \<Rightarrow> Some (Some tc, w))
      })"

definition spc_rpcnb :: "Npfcall option \<Rightarrow> scb \<Rightarrow> int option \<Rightarrow> spcstate \<Rightarrow> (int \<times> spcstate) option" where
  "spc_rpcnb tc cb wr w =
     (let fail = (\<lambda>w. map_option (\<lambda>w. (- 1, w)) (spc_call cb None w)) in
      if \<not> sf_spfd (sc_fs w) then fail (sc_werror (Some (cstr ''disconnected'')) ECONNRESET w)
      else if sf_ename (sc_fs w) \<noteq> None then fail (sc_werror (sf_ename (sc_fs w)) (sf_ecode (sc_fs w)) w)
      else
        (case sc_malloc w of
           (None, w) \<Rightarrow> fail w
         | (Some _, w1) \<Rightarrow> do {
             tc \<leftarrow> tc;
             (tc, w2) \<leftarrow> spc_tag tc w1;
             (case tc of
                None \<Rightarrow> fail w2
              | Some tc \<Rightarrow> do {
                  let req = sc_nmalloc w;
                  let w = w2\<lparr>sc_reqs := (sc_reqs w2)(req := Some \<lparr>sq_tag = fc_tag tc, sq_tc = tc, sq_cb = cb, sq_flushed = False\<rparr>)\<rparr>;
                  let w = upd_sf (\<lambda>fs. fs\<lparr>sf_pend := sf_pend fs @ [req]\<rparr>) w;
                  w \<leftarrow> (case wr of None \<Rightarrow> Some w
                    | Some n \<Rightarrow> if sf_pend (sc_fs w) = [req] then spc_fd_write n w else Some w);
                  Some (0, w)
                })
           }))"

section \<open>Reading\<close>

text \<open>The request a reply is for: the first of those sent that has its tag.\<close>

fun find_tag :: "Spcreq heap \<Rightarrow> u16 \<Rightarrow> addr list \<Rightarrow> addr option option" where
  "find_tag h tag [] = Some None"
| "find_tag h tag (a # as) = do { q \<leftarrow> h a; if tag = sq_tag q then Some (Some a) else find_tag h tag as }"

text \<open>
  \<^verbatim>\<open>spc_fd_read\<close> from \<^verbatim>\<open>again\<close> on: as long as there is a whole packet, it is parsed, the bytes behind
  it are moved into a new one, and its request is called back. The size is compared as unsigned with
  \<^verbatim>\<open>msize\<close>.
\<close>

definition spc_reply :: "Npfcall \<Rightarrow> addr \<Rightarrow> spcstate \<Rightarrow> spcstate option" where
  "spc_reply fc req w = do {
     q \<leftarrow> sc_reqs w req;
     let w = upd_sf (sf_sent_update (remove1 req)) w;
     let (rc, w) = (if fc_type fc \<noteq> Rerror \<and> uint (fc_type (sq_tc q)) + 1 \<noteq> uint (fc_type fc)
       then (None, sc_werror (Some spc_Emismatch) EIO w) else (Some fc, w));
     w \<leftarrow> spc_call (sq_cb q) rc w;
     q \<leftarrow> sc_reqs w req;
     if sq_flushed q then Some w else spc_release req w
   }"

definition spc_fd_one :: "spcstate \<Rightarrow> (bool \<times> spcstate) option" where
  "spc_fd_one w =
     (let stop = map_option (\<lambda>w. (False, w)) in
      case sf_ifcall (sc_fs w) of
        None \<Rightarrow> None
      | Some (fc, buf) \<Rightarrow>
          if length buf < 4 then Some (False, w)
          else if of_le32 buf > sf_msize (sc_fs w)
          then stop (spc_disconnect_fsys (sc_werror (Some (cstr ''invalid fcall size greater than msize'')) EIO w))
          else if length buf < unat (of_le32 buf) then Some (False, w)
          else
            (case sp_deserialize (fc\<lparr>fc_pkt := buf\<rparr>) buf (sf_dotu (sc_fs w)) of
               (_, True) \<Rightarrow> None
             | (None, False) \<Rightarrow> stop (spc_disconnect_fsys (sc_werror (Some (cstr ''invalid fcall'')) EIO w))
             | (Some fc, False) \<Rightarrow>
                 (case sc_malloc w of
                    (None, w) \<Rightarrow> stop (spc_disconnect_fsys (upd_sf (sf_ifcall_update (\<lambda>_. None)) w))
                  | (Some (junk, _), w) \<Rightarrow> do {
                      let w = upd_sf (sf_ifcall_update (\<lambda>_. Some (junk, drop (unat (of_le32 buf)) buf))) w;
                      p \<leftarrow> find_tag (sc_reqs w) (fc_tag fc) (sf_sent (sc_fs w));
                      (case p of
                         None \<Rightarrow> Some (False, sc_werror (Some (cstr ''unexpected fcall'')) EIO w)
                       | Some req \<Rightarrow> do {
                           w \<leftarrow> spc_reply fc req w;
                           (_, buf) \<leftarrow> sf_ifcall (sc_fs w);
                           Some (buf \<noteq> [], w)
                         })
                    })))"

partial_function (option) spc_fd_again :: "spcstate \<Rightarrow> spcstate option" where
  "spc_fd_again w = do { (more, w) \<leftarrow> spc_fd_one w; if more then spc_fd_again w else Some w }"

text \<open>What the socket gives: an error, the end (no bytes), or bytes.\<close>

definition spc_fd_read :: "u8 list option \<Rightarrow> spcstate \<Rightarrow> spcstate option" where
  "spc_fd_read data w =
     (case (case sf_ifcall (sc_fs w) of
          Some _ \<Rightarrow> (True, w)
        | None \<Rightarrow>
            (case sc_malloc w of
               (None, w) \<Rightarrow> (False, w)
             | (Some (junk, _), w) \<Rightarrow> (True, upd_sf (sf_ifcall_update (\<lambda>_. Some (junk, []))) w))) of
        (False, w) \<Rightarrow> spc_disconnect_fsys w
      | (True, w) \<Rightarrow>
          (case data of
             None \<Rightarrow> Some w
           | Some [] \<Rightarrow> spc_disconnect_fsys w
           | Some bs \<Rightarrow> spc_fd_again (upd_sf (sf_ifcall_update (map_option (\<lambda>(fc, buf). (fc, buf @ bs)))) w)))"

text \<open>One turn of the poll loop: what is read, what the socket takes, and whether it has an error.\<close>

definition spc_notify :: "u8 list option option \<Rightarrow> int option \<Rightarrow> bool \<Rightarrow> spcstate \<Rightarrow> spcstate option" where
  "spc_notify rd wr err w = do {
     let w = sc_werror None 0 (snd (sc_save w));
     w \<leftarrow> (case rd of None \<Rightarrow> Some w | Some data \<Rightarrow> spc_fd_read data w);
     w \<leftarrow> (if \<not> sf_spfd (sc_fs w) then Some w
       else do {
         w \<leftarrow> (case wr of None \<Rightarrow> Some w | Some n \<Rightarrow> spc_fd_write n w);
         if err then spc_disconnect_fsys w else Some w
       });
     Some (if sc_ecode w \<noteq> 0 then sc_werror None 0 w else w)
   }"

section \<open>Flushing\<close>

text \<open>A message structure as \<^verbatim>\<open>sp_create_common\<close> clears it.\<close>

definition sp_zero :: "malloc \<Rightarrow> malloc" where
  "sp_zero m = map_option (\<lambda>(fc, junk). (npfcall_zero, junk)) m"

text \<open>
  \<^verbatim>\<open>spc_flush_request\<close> inside the poll loop: a \<^verbatim>\<open>Tflush\<close> is issued, of which \<open>wr\<close> may be written.
\<close>

definition spc_flush_request :: "int option \<Rightarrow> addr \<Rightarrow> spcstate \<Rightarrow> spcstate option" where
  "spc_flush_request wr req w = do {
     q \<leftarrow> sc_reqs w req;
     if sq_flushed q then Some w
     else do {
       let w = w\<lparr>sc_reqs := (sc_reqs w)(req := Some (q\<lparr>sq_flushed := True\<rparr>))\<rparr>;
       let (mem, w) = sc_malloc w;
       (_, w) \<leftarrow> spc_rpcnb (np_create_tflush (sp_zero mem) (sq_tag q)) (FlushCb req) wr w;
       Some w
     }
   }"

text \<open>
  \<^verbatim>\<open>spc_flush_requests\<close>: requests of the fid that are not written are dropped, with no regard for one
  that is written in part and without giving the tag back; for those sent a \<^verbatim>\<open>Tflush\<close> is issued, and
  the search starts again. \<open>wrs\<close> is what the socket takes of each.
\<close>

fun flush_pend :: "u32 \<Rightarrow> addr list \<Rightarrow> spcstate \<Rightarrow> spcstate option" where
  "flush_pend fid [] w = Some w"
| "flush_pend fid (req # reqs) w = do {
     q \<leftarrow> sc_reqs w req;
     if fc_fid (sq_tc q) = fid then do {
       w \<leftarrow> spc_call (sq_cb q) None (upd_sf (sf_pend_update (remove1 req)) w);
       q \<leftarrow> sc_reqs w req;
       flush_pend fid reqs (w\<lparr>sc_reqs := (sc_reqs w)(req := None)\<rparr>)
     }
     else flush_pend fid reqs w
   }"

partial_function (option) flush_sent :: "u32 \<Rightarrow> addr option \<Rightarrow> int option list \<Rightarrow> spcstate \<Rightarrow> spcstate option" where
  "flush_sent fid p wrs w =
     (case p of
        None \<Rightarrow> Some w
      | Some req \<Rightarrow> do {
          q \<leftarrow> sc_reqs w req;
          if fc_fid (sq_tc q) = fid \<and> \<not> sq_flushed q then do {
            w \<leftarrow> spc_flush_request (case wrs of [] \<Rightarrow> None | wr # _ \<Rightarrow> wr) req w;
            flush_sent fid (case sf_sent (sc_fs w) of [] \<Rightarrow> None | req # _ \<Rightarrow> Some req) (tl wrs) w
          }
          else flush_sent fid (next_in (sf_sent (sc_fs w)) req) wrs w
        })"

definition spc_flush_requests :: "u32 \<Rightarrow> int option list \<Rightarrow> spcstate \<Rightarrow> spcstate option" where
  "spc_flush_requests fid wrs w =
     (if sf_fd (sc_fs w) < 0 then Some w
      else do {
        let ((ename, ecode), w) = sc_save w;
        let w = sc_werror (Some Eflush) EIO w;
        w \<leftarrow> flush_pend fid (sf_pend (sc_fs w)) w;
        w \<leftarrow> flush_sent fid (case sf_sent (sc_fs w) of [] \<Rightarrow> None | req # _ \<Rightarrow> Some req) wrs w;
        Some (sc_werror ename ecode w)
      })"

section \<open>Calls that wait for the reply\<close>

text \<open>
  \<^verbatim>\<open>spc_rpc\<close> turns the poll loop until its callback was called. Here the socket takes the whole
  request at once, and the other end, a function \<open>peer\<close> with a state of its own, answers it with one
  packet, or with nothing when it closes the connection. The result is the reply, or \<open>None\<close> with the
  error set.
\<close>

type_synonym 's peer = "'s \<Rightarrow> u8 list \<Rightarrow> u8 list \<times> 's"
type_synonym 's spcworld = "spcstate \<times> 's"

definition spc_exchange :: "'s peer \<Rightarrow> Npfcall option \<Rightarrow> 's spcworld \<Rightarrow> 's spcworld option" where
  "spc_exchange peer tc = (\<lambda>(w, s). do {
     let old = length (sc_out w);
     (r, w) \<leftarrow> spc_rpcnb tc RpcCb (map_option (\<lambda>tc. int (unat (fc_size tc))) tc) (w\<lparr>sc_rpc := (None, None)\<rparr>);
     if sc_rpc w \<noteq> (None, None) then Some (w, s)
     else do {
       let (reply, s) = peer s (drop old (sc_out w));
       w \<leftarrow> spc_notify (Some (Some reply)) None False w;
       Some (w, s)
     }
   })"

definition spc_rpc :: "'s peer \<Rightarrow> Npfcall option \<Rightarrow> 's spcworld \<Rightarrow> (Npfcall option \<times> 's spcworld) option" where
  "spc_rpc peer tc v =
     (if sf_fd (sc_fs (fst v)) < 0 then Some (None, v)
      else do {
        (w, s) \<leftarrow> spc_exchange peer tc v;
        (case sc_rpc w of
           (None, None) \<Rightarrow> None
         | (rc, Some (e, c)) \<Rightarrow> Some (None, sc_werror (Some e) c w, s)
         | (Some rc, None) \<Rightarrow>
             if fc_type rc = Rerror then
               (case sc_malloc w of
                  (None, w) \<Rightarrow> Some (None, w, s)
                | (Some _, w) \<Rightarrow> do {
                    e \<leftarrow> np_strdup (fc_pkt rc) (fc_ename rc);
                    Some (None, sc_werror (Some e) (sint (fc_ecode rc)) w, s)
                  })
             else Some (Some rc, w, s))
      })"

section \<open>Fids\<close>

record Spcfid =
  sd_fid :: u32
  sd_iounit :: u32
  sd_mode :: u8
  sd_offset :: u64

definition spc_fid_alloc :: "spcstate \<Rightarrow> (Spcfid option \<times> spcstate)" where
  "spc_fid_alloc w =
     (case sc_malloc w of
        (None, w) \<Rightarrow> (None, w)
      | (Some (fc, junk), w) \<Rightarrow>
          (let (mem, w) = (if length (sp_map (sf_fidpool (sc_fs w))) \<le> free_byte (sp_map (sf_fidpool (sc_fs w)))
             then sc_alloc w else (None, w));
               (k, p) = spc_get_id (mem \<noteq> None) (sf_fidpool (sc_fs w));
               w = upd_sf (sf_fidpool_update (\<lambda>_. p)) w
           in if k = NOFID then (None, sc_werror (Some (cstr ''fid pool full'')) EIO w)
              else (Some \<lparr>sd_fid = k, sd_iounit = 0, sd_mode = junk 0, sd_offset = 0\<rparr>, w)))"

definition spc_fid_free :: "Spcfid \<Rightarrow> spcstate \<Rightarrow> spcstate option" where
  "spc_fid_free fid w = drop_fid (Some (sd_fid fid)) w"

text \<open>A request that is created and answered; without memory the request is NULL.\<close>

definition spc_ask :: "'s peer \<Rightarrow> (malloc \<Rightarrow> Npfcall option) \<Rightarrow> 's spcworld \<Rightarrow> (Npfcall option \<times> 's spcworld) option" where
  "spc_ask peer create = (\<lambda>(w, s). (let (mem, w) = sc_malloc w in spc_rpc peer (create (sp_zero mem)) (w, s)))"

definition spc_clunk :: "'s peer \<Rightarrow> Spcfid \<Rightarrow> 's spcworld \<Rightarrow> (int \<times> 's spcworld) option" where
  "spc_clunk peer fid v = do {
     (rc, w, s) \<leftarrow> spc_ask peer (\<lambda>m. np_create_tclunk m (sd_fid fid)) v;
     (case rc of
        None \<Rightarrow> Some (- 1, w, s)
      | Some _ \<Rightarrow> do { w \<leftarrow> spc_fid_free fid w; Some (0, w, s) })
   }"

text \<open>Closing with no other request of the fid under way, so that nothing is flushed.\<close>

definition spc_close :: "'s peer \<Rightarrow> Spcfid \<Rightarrow> 's spcworld \<Rightarrow> (int \<times> 's spcworld) option" where
  "spc_close peer fid = (\<lambda>(w, s). do {
     w \<leftarrow> spc_flush_requests (sd_fid fid) [] w;
     spc_clunk peer fid (w, s)
   })"

section \<open>Walking\<close>

text \<open>
  The names for one \<^verbatim>\<open>Twalk\<close> out of a path, at most \<^verbatim>\<open>MAXWELEM\<close>, with whether the last had a slash
  behind it (\<open>t\<close>) and the rest of the path. Without a slash the rest is not moved on.
\<close>

function walk_names :: "nat \<Rightarrow> bool \<Rightarrow> cstring \<Rightarrow> cstring list \<times> bool \<times> cstring" where
  "walk_names n t s =
     (if n \<ge> MAXWELEM \<or> s = [] then ([], t, s)
      else if hd s = 47 then walk_names n t (tl s)
      else if 47 \<notin> set s then ([s], False, s)
      else (let (ns, t, r) = walk_names (Suc n) True (tl (dropWhile (\<lambda>c. c \<noteq> 47) s))
            in (takeWhile (\<lambda>c. c \<noteq> 47) s # ns, t, r)))"
  by pat_completeness auto
termination
proof (relation "measure (\<lambda>(n, t, s). length s)")
  fix n t and s :: cstring
  assume "\<not> (n \<ge> MAXWELEM \<or> s = [])" "hd s \<noteq> 47" "\<not> 47 \<notin> set s"
  then show "((Suc n, True, tl (dropWhile (\<lambda>c. c \<noteq> 47) s)), n, t, s) \<in> measure (\<lambda>(n, t, s). length s)"
    using length_dropWhile_le [of "\<lambda>c. c \<noteq> 47" s] by (cases s) (auto simp: less_Suc_eq_le intro: le_trans [OF _ length_dropWhile_le])
qed (auto simp: neq_Nil_conv)

declare walk_names.simps [simp del]

text \<open>
  The end of a walk that failed: the error is kept while the fid is clunked, when it was walked to.
\<close>

definition walk_fail :: "'s peer \<Rightarrow> u32 \<Rightarrow> Spcfid \<Rightarrow> 's spcworld \<Rightarrow> (Spcfid option \<times> 's spcworld) option" where
  "walk_fail peer nfid fid = (\<lambda>(w, s).
     if nfid = sd_fid fid then do {
       let ((ename, ecode), w) = sc_save w;
       (_, w, s) \<leftarrow> spc_clunk peer fid (sc_werror None 0 w, s);
       Some (None, sc_werror ename ecode w, s)
     }
     else Some (None, w, s))"

partial_function (option) walk_loop ::
  "'s peer \<Rightarrow> u32 \<Rightarrow> Spcfid \<Rightarrow> bool \<Rightarrow> cstring \<Rightarrow> 's spcworld \<Rightarrow> (Spcfid option \<times> 's spcworld) option"
where
  "walk_loop peer nfid fid t path v =
     (case walk_names 0 t path of (ns, t, path') \<Rightarrow>
        if sf_fd (sc_fs (fst v)) < 0 then None
        else do {
          (rc, v) \<leftarrow> spc_ask peer (\<lambda>m. np_create_twalk m nfid (sd_fid fid) (word_of_nat (length ns)) (nth ns)) v;
          (case rc of
             None \<Rightarrow> walk_fail peer nfid fid v
           | Some rc \<Rightarrow>
               if unat (fc_nwqid rc) \<noteq> length ns
               then walk_fail peer (sd_fid fid) fid (sc_werror (Some (cstr ''file not found'')) ENOENT (fst v), snd v)
               else if \<not> t \<or> path' = [] then Some (Some fid, v)
               else walk_loop peer (sd_fid fid) fid t path' v)
        })"

definition spc_walk :: "'s peer \<Rightarrow> cstring \<Rightarrow> 's spcworld \<Rightarrow> (Spcfid option \<times> 's spcworld) option" where
  "spc_walk peer path = (\<lambda>(w, s).
     (case sf_root (sc_fs w) of
        None \<Rightarrow> Some (None, w, s)
      | Some root \<Rightarrow> do {
          let (mem, w) = sc_alloc w;
          let (fid, w) = spc_fid_alloc w;
          _ \<leftarrow> mem;
          fid \<leftarrow> fid;
          walk_loop peer root fid True (dropWhile (\<lambda>c. c = 47) path) (w, s)
        }))"

section \<open>Opening and creating\<close>

definition set_iounit :: "u8 \<Rightarrow> Npfcall \<Rightarrow> spcstate \<Rightarrow> Spcfid \<Rightarrow> Spcfid" where
  "set_iounit mode rc w fid =
     (let most = sf_msize (sc_fs w) - IOHDRSZ
      in fid\<lparr>sd_iounit := (if fc_iounit rc = 0 \<or> fc_iounit rc > most then most else fc_iounit rc), sd_mode := mode\<rparr>)"

definition spc_open :: "'s peer \<Rightarrow> cstring \<Rightarrow> u8 \<Rightarrow> 's spcworld \<Rightarrow> (Spcfid option \<times> 's spcworld) option" where
  "spc_open peer path mode v = do {
     (fid, v) \<leftarrow> spc_walk peer path v;
     (case fid of
        None \<Rightarrow> Some (None, v)
      | Some fid \<Rightarrow> do {
          (rc, v) \<leftarrow> spc_ask peer (\<lambda>m. np_create_topen m (sd_fid fid) mode) v;
          (case rc of
             None \<Rightarrow> do { (_, v) \<leftarrow> spc_clunk peer fid v; Some (None, v) }
           | Some rc \<Rightarrow> Some (Some (set_iounit mode rc (fst v) fid), v))
        })
   }"

text \<open>
  The message of \<^verbatim>\<open>sp_create_tcreate\<close> ends with the extension, which is empty here. \<^verbatim>\<open>spc_create\<close> cuts
  the path at its last slash; without one it frees the constant string it took for the directory, and
  when the walk fails it clunks a NULL.
\<close>

definition sp_create_tcreate :: "malloc \<Rightarrow> u32 \<Rightarrow> cstring \<Rightarrow> u32 \<Rightarrow> u8 \<Rightarrow> cstring option \<Rightarrow> bool \<Rightarrow> Npfcall option" where
  "sp_create_tcreate m fid name perm mode extension dotu =
     np_build m (4 + 2 + int (length name) + 4 + 1 + (if dotu then 2 + opt_strlen extension else 0)) Tcreate
       ([put32 fid fc_fid_update,
         putstr (Some name) fc_name fc_name_update,
         put32 perm fc_perm_update,
         put8 mode fc_mode_update] @
        (if dotu then [putstr extension fc_extension fc_extension_update] else []))"

definition strrchr :: "u8 \<Rightarrow> cstring \<Rightarrow> (cstring \<times> cstring) option" where
  "strrchr c s =
     (if c \<notin> set s then None
      else Some (rev (tl (dropWhile (\<lambda>x. x \<noteq> c) (rev s))), rev (takeWhile (\<lambda>x. x \<noteq> c) (rev s))))"

definition spc_create :: "'s peer \<Rightarrow> cstring \<Rightarrow> u32 \<Rightarrow> u8 \<Rightarrow> 's spcworld \<Rightarrow> (Spcfid option \<times> 's spcworld) option" where
  "spc_create peer path perm mode = (\<lambda>(w, s).
     (case sc_alloc w of
        (None, w) \<Rightarrow> Some (None, w, s)
      | (Some _, w) \<Rightarrow> do {
          let (pname, fname) = (case strrchr 47 path of None \<Rightarrow> ([], path) | Some p \<Rightarrow> p);
          (fid, w, s) \<leftarrow> spc_walk peer pname (w, s);
          fid \<leftarrow> fid;
          (rc, w, s) \<leftarrow> spc_ask peer (\<lambda>m. sp_create_tcreate m (sd_fid fid) fname perm mode None (sf_dotu (sc_fs w))) (w, s);
          if 47 \<notin> set path then None
          else
            (case rc of
               None \<Rightarrow> do {
                 let ((ename, ecode), w) = sc_save w;
                 (_, w, s) \<leftarrow> spc_clunk peer fid (sc_werror None 0 w, s);
                 Some (None, sc_werror ename ecode w, s)
               }
             | Some rc \<Rightarrow> Some (Some (set_iounit mode rc w fid), w, s))
        }))"

section \<open>Reading and writing\<close>

text \<open>
  \<^verbatim>\<open>spc_read\<close>: one request after the other until there are \<open>count\<close> bytes or an answer is empty. The
  result is the number of bytes, or \<open>- 1\<close>, with the buffer.
\<close>

definition rread_data :: "u32 \<Rightarrow> Npfcall \<Rightarrow> u8 list option" where
  "rread_data count rc = data_bytes (fc_pkt rc) (fc_data rc) (if fc_count rc > count then count else fc_count rc)"

partial_function (option) read_loop ::
  "'s peer \<Rightarrow> u32 \<Rightarrow> u32 \<Rightarrow> u64 \<Rightarrow> nat \<Rightarrow> u8 list \<Rightarrow> 's spcworld \<Rightarrow> (int \<times> u8 list \<times> 's spcworld) option"
where
  "read_loop peer fid count offset n buf v =
     (if count \<le> word_of_nat n then Some (int n, buf, v)
      else do {
        let most = sf_msize (sc_fs (fst v)) - IOHDRSZ;
        let i = (if count - word_of_nat n > most then most else count - word_of_nat n);
        (rc, v) \<leftarrow> spc_ask peer (\<lambda>m. np_create_tread m fid (offset + word_of_nat n) i) v;
        (case rc of
           None \<Rightarrow> Some (- 1, buf, v)
         | Some rc \<Rightarrow> do {
             data \<leftarrow> rread_data count rc;
             if length buf < n + length data then None
             else
               (let buf = take n buf @ data @ drop (n + length data) buf
                in if data = [] then Some (int n, buf, v) else read_loop peer fid count offset (n + length data) buf v)
           })
      })"

definition spc_read :: "'s peer \<Rightarrow> Spcfid \<Rightarrow> u8 list \<Rightarrow> u32 \<Rightarrow> u64 \<Rightarrow> 's spcworld \<Rightarrow> (int \<times> u8 list \<times> 's spcworld) option" where
  "spc_read peer fid buf count offset v = read_loop peer (sd_fid fid) count offset 0 buf v"

text \<open>\<^verbatim>\<open>spc_write\<close> gives the start of the buffer to every request.\<close>

partial_function (option) write_loop ::
  "'s peer \<Rightarrow> u32 \<Rightarrow> u8 list \<Rightarrow> u32 \<Rightarrow> u64 \<Rightarrow> nat \<Rightarrow> 's spcworld \<Rightarrow> (int \<times> 's spcworld) option"
where
  "write_loop peer fid buf count offset n v =
     (if count \<le> word_of_nat n then Some (int n, v)
      else do {
        let most = sf_msize (sc_fs (fst v)) - IOHDRSZ;
        let i = (if count - word_of_nat n > most then most else count - word_of_nat n);
        if length buf < unat i then None
        else do {
          (rc, v) \<leftarrow> spc_ask peer (\<lambda>m. np_create_twrite m fid (offset + word_of_nat n) i buf) v;
          (case rc of
             None \<Rightarrow> Some (- 1, v)
           | Some rc \<Rightarrow>
               if fc_count rc = 0 then Some (int n, v) else write_loop peer fid buf count offset (n + unat (fc_count rc)) v)
        }
      })"

definition spc_write :: "'s peer \<Rightarrow> Spcfid \<Rightarrow> u8 list \<Rightarrow> u32 \<Rightarrow> u64 \<Rightarrow> 's spcworld \<Rightarrow> (int \<times> 's spcworld) option" where
  "spc_write peer fid buf count offset v = write_loop peer (sd_fid fid) buf count offset 0 v"

section \<open>Directory entries\<close>

text \<open>The strings of an entry are copied behind the structures, with a zero each.\<close>

definition spc_strcopy :: "u8 list \<Rightarrow> Npstr \<Rightarrow> cstring option" where
  "spc_strcopy mem str = (if str_len str = 0 then Some [] else np_strdup mem str)"

definition spc_stat2wstat :: "u8 list \<Rightarrow> Npstat \<Rightarrow> Npwstat option" where
  "spc_stat2wstat mem st = do {
     n \<leftarrow> spc_strcopy mem (st_name st);
     u \<leftarrow> spc_strcopy mem (st_uid st);
     g \<leftarrow> spc_strcopy mem (st_gid st);
     m \<leftarrow> spc_strcopy mem (st_muid st);
     e \<leftarrow> spc_strcopy mem (st_extension st);
     Some \<lparr>ws_size = st_size st, ws_type = st_type st, ws_dev = st_dev st, ws_qid = st_qid st, ws_mode = st_mode st,
       ws_atime = st_atime st, ws_mtime = st_mtime st, ws_length = st_length st, ws_name = Some n, ws_uid = Some u,
       ws_gid = Some g, ws_muid = Some m, ws_extension = Some e, ws_n_uid = st_n_uid st, ws_n_gid = st_n_gid st,
       ws_n_muid = st_n_muid st\<rparr>
   }"

definition sp_deserialize_stat :: "Npstat \<Rightarrow> u8 list \<Rightarrow> int \<Rightarrow> bool \<Rightarrow> int \<times> Npstat" where
  "sp_deserialize_stat st buf buflen dotu =
     (let (n, st) = np_deserialize_stat st buf buflen dotu in (n, if dotu then st else no_extensions st))"

text \<open>
  The loops over the entries of a buffer: the first counts them, and finds an error, the second
  converts them; here in one. The structure \<^verbatim>\<open>stat\<close> on the stack is used for all.
\<close>

function dir_stats :: "bool \<Rightarrow> nat \<Rightarrow> nat \<Rightarrow> u8 list \<Rightarrow> Npstat \<Rightarrow> Npwstat list option option" where
  "dir_stats dotu n i buf st =
     (if n \<le> i then Some (Some [])
      else
        (case sp_deserialize_stat st (drop i buf) (int (length buf - i)) dotu of (sz, st) \<Rightarrow>
           if sz \<le> 0 then Some None
           else do {
             e \<leftarrow> spc_stat2wstat (drop i buf) st;
             r \<leftarrow> dir_stats dotu n (i + nat sz) buf st;
             Some (map_option (\<lambda>es. e # es) r)
           }))"
  by pat_completeness auto
termination
  by (relation "measure (\<lambda>(dotu, n, i, buf, st). n - i)") auto

declare dir_stats.simps [simp del]

definition spc_dirread :: "'s peer \<Rightarrow> Npstat \<Rightarrow> Spcfid \<Rightarrow> 's spcworld \<Rightarrow> ((int \<times> Npwstat list) \<times> Spcfid \<times> 's spcworld) option" where
  "spc_dirread peer st fid = (\<lambda>(w, s).
     (let buflen = sf_msize (sc_fs w) - IOHDRSZ in
      case sc_malloc w of
        (None, w) \<Rightarrow> Some ((- 1, []), fid, w, s)
      | (Some (fc, junk), w) \<Rightarrow> do {
          (n, buf, w, s) \<leftarrow> spc_read peer fid (map junk [0..<unat buflen]) buflen (sd_offset fid) (w, s);
          if n < 0 then Some ((n, []), fid, w, s)
          else do {
            let fid = fid\<lparr>sd_offset := sd_offset fid + word_of_int n\<rparr>;
            r \<leftarrow> dir_stats (sf_dotu (sc_fs w)) (nat n) 0 buf st;
            (case r of
               None \<Rightarrow> Some ((- 1, []), fid, sc_werror (Some (cstr ''stat error'')) EIO w, s)
             | Some es \<Rightarrow>
                 (case sc_malloc w of
                    (None, w) \<Rightarrow> Some ((- 1, []), fid, w, s)
                  | (Some _, w) \<Rightarrow> Some ((int (length es), es), fid, w, s)))
          }
        }))"

section \<open>Operations on a path\<close>

text \<open>The fid that was walked to is given back by \<^verbatim>\<open>spc_remove\<close> after a success only, by the others after an error only.\<close>

definition spc_stat :: "'s peer \<Rightarrow> cstring \<Rightarrow> 's spcworld \<Rightarrow> (Npwstat option \<times> 's spcworld) option" where
  "spc_stat peer path v = do {
     (fid, v) \<leftarrow> spc_walk peer path v;
     (case fid of
        None \<Rightarrow> Some (None, v)
      | Some fid \<Rightarrow> do {
          (rc, w, s) \<leftarrow> spc_ask peer (\<lambda>m. np_create_tstat m (sd_fid fid)) v;
          (case rc of
             None \<Rightarrow> do { (_, v) \<leftarrow> spc_close peer fid (w, s); Some (None, v) }
           | Some rc \<Rightarrow>
               (case sc_malloc w of
                  (None, w) \<Rightarrow> do { (_, v) \<leftarrow> spc_close peer fid (w, s); Some (None, v) }
                | (Some _, w) \<Rightarrow> do { e \<leftarrow> spc_stat2wstat (fc_pkt rc) (fc_stat rc); Some (Some e, w, s) }))
        })
   }"

definition spc_wstat :: "'s peer \<Rightarrow> cstring \<Rightarrow> Npwstat \<Rightarrow> 's spcworld \<Rightarrow> (int \<times> 's spcworld) option" where
  "spc_wstat peer path wst v = do {
     (fid, v) \<leftarrow> spc_walk peer path v;
     (case fid of
        None \<Rightarrow> Some (- 1, v)
      | Some fid \<Rightarrow> do {
          (rc, v) \<leftarrow> spc_ask peer (\<lambda>m. np_create_twstat m (sd_fid fid) wst (sf_dotu (sc_fs (fst v)))) v;
          (case rc of
             None \<Rightarrow> do { (_, v) \<leftarrow> spc_close peer fid v; Some (- 1, v) }
           | Some _ \<Rightarrow> Some (0, v))
        })
   }"

definition spc_remove :: "'s peer \<Rightarrow> cstring \<Rightarrow> 's spcworld \<Rightarrow> (int \<times> 's spcworld) option" where
  "spc_remove peer path v = do {
     (fid, v) \<leftarrow> spc_walk peer path v;
     (case fid of
        None \<Rightarrow> Some (- 1, v)
      | Some fid \<Rightarrow> do {
          (rc, w, s) \<leftarrow> spc_ask peer (\<lambda>m. np_create_tremove m (sd_fid fid)) v;
          (case rc of
             None \<Rightarrow> Some (- 1, w, s)
           | Some _ \<Rightarrow> do { w \<leftarrow> spc_fid_free fid w; Some (0, w, s) })
        })
   }"

end
