(* ===== verification/SpcRun.thy ===== *)
theory SpcRun
  imports SpcFsys "HOL-Library.Multiset" "HOL-Library.Sublist"
begin

text \<open>
  Runs of the single threaded client of \<^verbatim>\<open>SpcFsys\<close> that do not flush: the invariant of its two lists of
  requests, that every operation keeps it and reports every request once, and that the bytes written are the
  packets in order.
\<close>

section \<open>Pools\<close>

definition tags_ok :: "Spcpool \<Rightarrow> bool" where
  "tags_ok p \<longleftrightarrow> spc_ok p \<and> sp_maxid p = ucast NOTAG \<and> length (sp_map p) \<le> 8192"

definition in_pool :: "Spcpool \<Rightarrow> u32 \<Rightarrow> bool" where
  "in_pool p k \<longleftrightarrow> sp_maxid p \<le> k \<or> unat k < 8 * length (sp_map p)"

lemma notag_spc: "(ucast NOTAG :: u32) = 0xFFFF"
  by code_simp

lemma ids_bounded:
  assumes "length mp \<le> 8192"
  shows "card (ids mp) < 2 ^ 31"
proof -
  have "ids mp \<subseteq> (of_nat :: nat \<Rightarrow> u32) ` {..<65536}"
  proof
    fix k assume "k \<in> ids mp"
    then have "unat k < 65536" using assms by (auto simp: ids_def)
    then show "k \<in> (of_nat :: nat \<Rightarrow> u32) ` {..<65536}" by (intro image_eqI [where x = "unat k"]) auto
  qed
  then have "card (ids mp) \<le> card {..<65536 :: nat}" by (meson card_image_le card_mono finite_imageI finite_lessThan order_trans)
  then show ?thesis by simp
qed

lemma spc_get_longer: "spc_get_id mem p = (k, p') \<Longrightarrow> length (sp_map p) \<le> length (sp_map p')"
  by (auto simp: spc_get_id_def grow_map_def take_id_def Let_def split: if_splits option.splits prod.splits)

lemma spc_get_in:
  assumes "tags_ok p" "spc_get_id mem p = (k, p')"
  shows "tags_ok p' \<and> unat k < 65536 \<and> in_pool p' k \<and> length (sp_map p) \<le> length (sp_map p')"
proof -
  have p: "spc_ok p" "sp_maxid p = 0xFFFF" "length (sp_map p) \<le> 8192" using assms(1) by (simp_all add: tags_ok_def notag_spc)
  have c: "card (spc_ids p) < 2 ^ 31" using ids_bounded [OF p(3)] by (simp add: spc_ids_def)
  note g = spc_get_id_ok [OF p(1) c assms(2)]
  have l: "length (sp_map p') * 8 \<le> max (length (sp_map p) * 8) 65543" using g p(2) by simp
  then have l2: "length (sp_map p') \<le> 8192" using p(3) by (simp add: max_def split: if_splits)
  have m: "32 \<le> length (sp_map p')" using g by (auto simp: spc_ok_def map_ok_def)
  have k: "unat k < 8 * length (sp_map p')"
  proof (cases "length (sp_map p') \<le> free_byte (sp_map p)")
    case True
    then have "k = of_nat (length (sp_map p'))" using g by simp
    then have "unat k = length (sp_map p')" using l2 by (simp add: unat_of_nat take_bit_nat_eq_self)
    then show ?thesis using m by linarith
  next
    case False
    then show ?thesis using g by (simp add: mult.commute)
  qed
  then show ?thesis using g p l2 spc_get_longer [OF assms(2)] by (simp add: tags_ok_def in_pool_def notag_spc)
qed

lemma put_in:
  assumes "in_pool p k"
  shows "\<exists>p'. spc_put_id p k = Some p' \<and> length (sp_map p') = length (sp_map p) \<and> sp_maxid p' = sp_maxid p"
  using assms by (auto simp: spc_put_id_def drop_id_def in_pool_def unat_div)

lemma in_pool_keep: "in_pool p k \<Longrightarrow> length (sp_map p) \<le> length (sp_map p') \<Longrightarrow> sp_maxid p' = sp_maxid p \<Longrightarrow> in_pool p' k"
  by (auto simp: in_pool_def)

lemma tags_put: "tags_ok p \<Longrightarrow> length (sp_map p') = length (sp_map p) \<Longrightarrow> sp_maxid p' = sp_maxid p \<Longrightarrow> tags_ok p'"
  by (simp add: tags_ok_def spc_ok_def map_ok_def)

section \<open>The invariant\<close>

text \<open>A request that waits, and the number of its callback.\<close>

definition req_ok :: "Spcreq heap \<Rightarrow> Spcpool \<Rightarrow> addr \<Rightarrow> bool" where
  "req_ok h p a \<longleftrightarrow> (\<exists>q k. h a = Some q \<and> sq_cb q = Cb k \<and> \<not> sq_flushed q \<and>
     unat (fc_size (sq_tc q)) \<le> length (fc_pkt (sq_tc q)) \<and> in_pool p (ucast (sq_tag q)))"

definition rcb :: "Spcreq heap \<Rightarrow> addr \<Rightarrow> nat" where
  "rcb h a = (case sq_cb (the (h a)) of Cb k \<Rightarrow> k | _ \<Rightarrow> 0)"

definition rpkt :: "Spcreq heap \<Rightarrow> addr \<Rightarrow> u8 list" where
  "rpkt h a = take (unat (fc_size (sq_tc (the (h a))))) (fc_pkt (sq_tc (the (h a))))"

text \<open>How far the first request is written.\<close>

definition pos_ok :: "Spcreq heap \<Rightarrow> addr list \<Rightarrow> nat \<Rightarrow> bool" where
  "pos_ok h as pos \<longleftrightarrow> (case as of [] \<Rightarrow> pos = 0 | a # _ \<Rightarrow> pos \<le> length (rpkt h a))"

definition part_of :: "Spcreq heap \<Rightarrow> addr list \<Rightarrow> nat \<Rightarrow> u8 list" where
  "part_of h as pos = (case as of [] \<Rightarrow> [] | a # _ \<Rightarrow> take pos (rpkt h a))"

definition reqs_of :: "spcstate \<Rightarrow> addr list" where
  "reqs_of w = sf_pend (sc_fs w) @ sf_sent (sc_fs w)"

definition open_inv :: "spcstate \<Rightarrow> bool" where
  "open_inv w \<longleftrightarrow> sf_spfd (sc_fs w) \<and> distinct (reqs_of w) \<and> dom (sc_reqs w) = set (reqs_of w) \<and>
     (\<forall>a\<in>set (reqs_of w). req_ok (sc_reqs w) (sf_tagpool (sc_fs w)) a \<and> a < sc_nmalloc w) \<and> tags_ok (sf_tagpool (sc_fs w)) \<and>
     (\<forall>k. sf_root (sc_fs w) = Some k \<or> sf_afid (sc_fs w) = Some k \<longrightarrow> in_pool (sf_fidpool (sc_fs w)) k) \<and>
     pos_ok (sc_reqs w) (sf_pend (sc_fs w)) (sf_pend_pos (sc_fs w))"

definition closed_inv :: "spcstate \<Rightarrow> bool" where
  "closed_inv w \<longleftrightarrow> \<not> sf_spfd (sc_fs w) \<and> reqs_of w = [] \<and> sc_reqs w = Map.empty \<and> sf_root (sc_fs w) = None \<and> sf_afid (sc_fs w) = None"

text \<open>The bytes written are those of the packets accepted, up to where the first request is.\<close>

definition stream_at :: "spcstate \<Rightarrow> u8 list list \<Rightarrow> bool" where
  "stream_at w ps \<longleftrightarrow>
     (if sf_spfd (sc_fs w) then
        \<exists>ds. ps = ds @ map (rpkt (sc_reqs w)) (sf_pend (sc_fs w)) \<and>
          sc_out w = concat ds @ part_of (sc_reqs w) (sf_pend (sc_fs w)) (sf_pend_pos (sc_fs w))
      else prefix (sc_out w) (concat ps))"

definition waiting :: "spcstate \<Rightarrow> nat multiset" where
  "waiting w = image_mset (rcb (sc_reqs w)) (mset (reqs_of w))"

definition called :: "spcstate \<Rightarrow> nat multiset" where
  "called w = mset (map fst (sc_calls w))"

text \<open>What an operation without a new request leaves.\<close>

definition carries_on :: "spcstate \<Rightarrow> spcstate \<Rightarrow> bool" where
  "carries_on w w' \<longleftrightarrow> (open_inv w' \<or> closed_inv w') \<and> called w' + waiting w' = called w + waiting w \<and>
     (\<forall>ps. stream_at w ps \<longrightarrow> stream_at w' ps)"

lemma stream_prefix: "stream_at w ps \<Longrightarrow> prefix (sc_out w) (concat ps)"
  by (auto simp: stream_at_def part_of_def take_is_prefix prefix_append intro: prefix_order.trans split: if_splits list.splits)

text \<open>States that differ in nothing of this.\<close>

definition same_run :: "spcstate \<Rightarrow> spcstate \<Rightarrow> bool" where
  "same_run w w' \<longleftrightarrow> sc_reqs w' = sc_reqs w \<and> sc_nmalloc w \<le> sc_nmalloc w' \<and> sc_calls w' = sc_calls w \<and> sc_out w' = sc_out w \<and>
     sf_spfd (sc_fs w') = sf_spfd (sc_fs w) \<and> sf_pend (sc_fs w') = sf_pend (sc_fs w) \<and> sf_sent (sc_fs w') = sf_sent (sc_fs w) \<and>
     sf_pend_pos (sc_fs w') = sf_pend_pos (sc_fs w) \<and> sf_tagpool (sc_fs w') = sf_tagpool (sc_fs w) \<and>
     sf_fidpool (sc_fs w') = sf_fidpool (sc_fs w) \<and> sf_root (sc_fs w') = sf_root (sc_fs w) \<and> sf_afid (sc_fs w') = sf_afid (sc_fs w)"

lemma same_run_refl [simp]: "same_run w w"
  by (simp add: same_run_def)

lemma same_run_trans: "same_run w w' \<Longrightarrow> same_run w' w'' \<Longrightarrow> same_run w w''"
  by (auto simp: same_run_def)

lemma same_run_open: "same_run w w' \<Longrightarrow> open_inv w \<Longrightarrow> open_inv w'"
  by (auto simp: same_run_def open_inv_def reqs_of_def intro: order_less_le_trans)

lemma same_run_on: "same_run w w' \<Longrightarrow> open_inv w \<Longrightarrow> carries_on w w'"
  using same_run_open [of w w']
  by (simp add: carries_on_def called_def waiting_def stream_at_def reqs_of_def same_run_def)

lemma carries_on_trans: "carries_on w w' \<Longrightarrow> carries_on w' w'' \<Longrightarrow> carries_on w w''"
  by (simp add: carries_on_def)

lemma same_run_werror [simp]: "same_run w (sc_werror e c w)"
  by (auto simp: same_run_def sc_werror_def Let_def split: option.splits)

lemma same_run_alloc: "sc_alloc w = (m, w') \<Longrightarrow> same_run w w' \<and> sc_nmalloc w < sc_nmalloc w'"
  by (auto simp: same_run_def sc_alloc_def)

lemma same_run_malloc: "sc_malloc w = (m, w') \<Longrightarrow> same_run w w' \<and> sc_nmalloc w < sc_nmalloc w'"
  by (auto simp: same_run_def sc_malloc_def sc_alloc_def sc_werror_def Let_def split: option.splits)

lemma same_run_save: "sc_save w = (e, w') \<Longrightarrow> same_run w w'"
  by (auto simp: same_run_def sc_save_def sc_alloc_def split: option.splits prod.splits)

lemma same_run_ifcall [simp]: "same_run w (upd_sf (sf_ifcall_update f) w)"
  by (simp add: same_run_def upd_sf_def)


section \<open>The end of the connection\<close>

text \<open>What is called back when the connection ends.\<close>

definition aborted :: "spcstate \<Rightarrow> addr list \<Rightarrow> (nat \<times> Npfcall option \<times> (cstring \<times> int) option) list" where
  "aborted w as = map (\<lambda>a. (rcb (sc_reqs w) a, None, sc_error w)) as"

definition has_cb :: "Spcreq heap \<Rightarrow> addr \<Rightarrow> bool" where
  "has_cb h a \<longleftrightarrow> (\<exists>q k. h a = Some q \<and> sq_cb q = Cb k)"

text \<open>One request is called back with NULL and freed.\<close>

definition abort_one :: "addr \<Rightarrow> spcstate \<Rightarrow> spcstate" where
  "abort_one a w = w\<lparr>sc_calls := sc_calls w @ [(rcb (sc_reqs w) a, None, sc_error w)], sc_reqs := (sc_reqs w)(a := None)\<rparr>"

lemma spc_call_cb:
  assumes "has_cb (sc_reqs w) a"
  obtains q where "sc_reqs w a = Some q"
    "spc_call (sq_cb q) rc w = Some (w\<lparr>sc_calls := sc_calls w @ [(rcb (sc_reqs w) a, rc, sc_error w)]\<rparr>)"
  using assms that by (auto simp: has_cb_def spc_call_def rcb_def)

lemma abort_one_fields [simp]:
  "sc_fs (abort_one a w) = sc_fs w" "sc_out (abort_one a w) = sc_out w" "sc_error (abort_one a w) = sc_error w"
  "sc_reqs (abort_one a w) = (sc_reqs w)(a := None)" "sc_calls (abort_one a w) = sc_calls w @ [(rcb (sc_reqs w) a, None, sc_error w)]"
  "sc_nmalloc (abort_one a w) = sc_nmalloc w"
  by (simp_all add: abort_one_def sc_error_def)

lemma aborted_upd: "b \<notin> set as \<Longrightarrow> aborted (abort_one b w) as = aborted w as"
  by (simp add: aborted_def rcb_def)

lemma has_cb_upd: "b \<noteq> a \<Longrightarrow> has_cb (h(b := v)) a = has_cb h a"
  by (simp add: has_cb_def)

definition abort_all :: "addr list \<Rightarrow> spcstate \<Rightarrow> spcstate" where
  "abort_all as w = fold abort_one as w"

lemma abort_all_at:
  "distinct as \<Longrightarrow> sc_fs (abort_all as w) = sc_fs w \<and> sc_out (abort_all as w) = sc_out w \<and> sc_error (abort_all as w) = sc_error w \<and>
    sc_nmalloc (abort_all as w) = sc_nmalloc w \<and> sc_reqs (abort_all as w) = (\<lambda>a. if a \<in> set as then None else sc_reqs w a) \<and>
    sc_calls (abort_all as w) = sc_calls w @ aborted w as"
proof (induction as arbitrary: w)
  case Nil
  then show ?case by (simp add: abort_all_def aborted_def)
next
  case (Cons a as)
  have e: "abort_all (a # as) w = abort_all as (abort_one a w)" by (simp add: abort_all_def)
  have c: "aborted w (a # as) = (rcb (sc_reqs w) a, None, sc_error w) # aborted (abort_one a w) as"
    using Cons.prems aborted_upd [of a as w] by (simp add: aborted_def)
  show ?case using Cons.IH [of "abort_one a w"] Cons.prems unfolding e c by (auto simp: fun_eq_iff)
qed

lemma abort_pend_ok:
  "distinct as \<Longrightarrow> \<forall>a\<in>set as. has_cb (sc_reqs w) a \<Longrightarrow> abort_pend as w = Some (abort_all as w)"
proof (induction as arbitrary: w)
  case Nil
  then show ?case by (simp add: abort_all_def)
next
  case (Cons a as)
  obtain q where q: "sc_reqs w a = Some q"
    "spc_call (sq_cb q) None w = Some (w\<lparr>sc_calls := sc_calls w @ [(rcb (sc_reqs w) a, None, sc_error w)]\<rparr>)"
    using spc_call_cb [of w a None] Cons.prems(2) by auto
  have "abort_pend (a # as) w = abort_pend as (abort_one a w)" using q by (simp add: abort_one_def)
  also have "\<dots> = Some (abort_all as (abort_one a w))" using Cons.prems by (intro Cons.IH) (auto simp: has_cb_def)
  finally show ?case by (simp add: abort_all_def)
qed

lemma next_in_append: "a \<notin> set pre \<Longrightarrow> next_in (pre @ a # as) a = (case as of [] \<Rightarrow> None | b # _ \<Rightarrow> Some b)"
  by (induction pre) auto

lemma abort_sent_ok:
  "sf_sent (sc_fs w) = pre @ as \<Longrightarrow> distinct (pre @ as) \<Longrightarrow> \<forall>a\<in>set as. has_cb (sc_reqs w) a \<Longrightarrow>
    abort_sent (case as of [] \<Rightarrow> None | a # _ \<Rightarrow> Some a) w = Some (abort_all as w)"
proof (induction as arbitrary: pre w)
  case Nil
  then show ?case by (simp add: abort_sent.simps abort_all_def)
next
  case (Cons a as)
  obtain q where q: "sc_reqs w a = Some q"
    "spc_call (sq_cb q) None w = Some (w\<lparr>sc_calls := sc_calls w @ [(rcb (sc_reqs w) a, None, sc_error w)]\<rparr>)"
    using spc_call_cb [of w a None] Cons.prems(3) by auto
  have n: "next_in (sf_sent (sc_fs w)) a = (case as of [] \<Rightarrow> None | b # _ \<Rightarrow> Some b)"
    using Cons.prems(1,2) next_in_append [of a pre as] by simp
  have "abort_sent (Some a) w = abort_sent (case as of [] \<Rightarrow> None | b # _ \<Rightarrow> Some b) (abort_one a w)"
    using q n by (subst abort_sent.simps) (simp add: abort_one_def)
  also have "\<dots> = Some (abort_all as (abort_one a w))"
    using Cons.prems by (intro Cons.IH [of "abort_one a w" "pre @ [a]"]) (auto simp: has_cb_def)
  finally show ?case by (simp add: abort_all_def)
qed

lemma drop_fid_ok:
  assumes "\<forall>k. fid = Some k \<longrightarrow> in_pool (sf_fidpool (sc_fs w)) k"
  shows "\<exists>p. drop_fid fid w = Some (upd_sf (sf_fidpool_update (\<lambda>_. p)) w) \<and> length (sp_map p) = length (sp_map (sf_fidpool (sc_fs w))) \<and>
    sp_maxid p = sp_maxid (sf_fidpool (sc_fs w))"
proof (cases fid)
  case None
  have "upd_sf (sf_fidpool_update (\<lambda>_. sf_fidpool (sc_fs w))) w = w" by (simp add: upd_sf_def)
  then show ?thesis using None by (intro exI [of _ "sf_fidpool (sc_fs w)"]) (simp add: drop_fid_def)
next
  case (Some k)
  then show ?thesis using put_in [of "sf_fidpool (sc_fs w)" k] assms by (auto simp: drop_fid_def)
qed


text \<open>What the end of a connection relies on.\<close>

definition can_end :: "spcstate \<Rightarrow> bool" where
  "can_end w \<longleftrightarrow> distinct (reqs_of w) \<and> dom (sc_reqs w) = set (reqs_of w) \<and> (\<forall>a\<in>set (reqs_of w). has_cb (sc_reqs w) a) \<and>
     (\<forall>k. sf_root (sc_fs w) = Some k \<or> sf_afid (sc_fs w) = Some k \<longrightarrow> in_pool (sf_fidpool (sc_fs w)) k)"

lemma open_can_end: "open_inv w \<Longrightarrow> can_end w"
  by (auto simp: open_inv_def can_end_def req_ok_def has_cb_def)

lemma closed_can_end: "closed_inv w \<Longrightarrow> can_end w"
  by (simp add: closed_inv_def can_end_def)

lemma same_run_can_end: "same_run w w' \<Longrightarrow> can_end w \<Longrightarrow> can_end w'"
  by (simp add: same_run_def can_end_def reqs_of_def)

lemma disconnect_socket_ok:
  assumes "can_end w"
  shows "\<exists>w'. disconnect_socket w = Some w' \<and> \<not> sf_spfd (sc_fs w') \<and> sc_reqs w' = sc_reqs w \<and> sf_pend (sc_fs w') = sf_pend (sc_fs w) \<and>
    sf_sent (sc_fs w') = sf_sent (sc_fs w) \<and> sc_calls w' = sc_calls w \<and> sc_out w' = sc_out w \<and>
    sf_root (sc_fs w') = None \<and> sf_afid (sc_fs w') = None"
proof -
  obtain m1 w1 where 1: "(if sc_error w = None then (None, w) else sc_alloc w) = (m1, w1)" by fastforce
  have s1: "same_run w w1" using 1 same_run_alloc by (auto split: if_splits)
  define w2 where "w2 = upd_sf (\<lambda>fs. fs\<lparr>sf_ename := map_option (\<lambda>(e, c). if m1 = None then spc_Enomem else e) (sc_error w),
       sf_ecode := (case sc_error w of None \<Rightarrow> 0 | Some (e, c) \<Rightarrow> c)\<rparr>) w1"
  have s2: "same_run w w2" using s1 by (simp add: w2_def same_run_def)
  have r2: "\<forall>k. sf_root (sc_fs w2) = Some k \<or> sf_afid (sc_fs w2) = Some k \<longrightarrow> in_pool (sf_fidpool (sc_fs w2)) k"
    using same_run_can_end [OF s2 assms] by (simp add: can_end_def)
  obtain p3 where 3: "drop_fid (sf_root (sc_fs w2)) w2 = Some (upd_sf (sf_fidpool_update (\<lambda>_. p3)) w2)"
    "length (sp_map p3) = length (sp_map (sf_fidpool (sc_fs w2)))" "sp_maxid p3 = sp_maxid (sf_fidpool (sc_fs w2))"
    using drop_fid_ok [of "sf_root (sc_fs w2)" w2] r2 by blast
  define w3 where "w3 = upd_sf (sf_fidpool_update (\<lambda>_. p3)) w2"
  have "\<forall>k. sf_afid (sc_fs w3) = Some k \<longrightarrow> in_pool (sf_fidpool (sc_fs w3)) k"
    using r2 3(2,3) by (simp add: w3_def in_pool_def)
  then obtain p4 where 4: "drop_fid (sf_afid (sc_fs w3)) w3 = Some (upd_sf (sf_fidpool_update (\<lambda>_. p4)) w3)"
    using drop_fid_ok [of "sf_afid (sc_fs w3)" w3] by blast
  have "disconnect_socket w = Some (upd_sf (\<lambda>fs. fs\<lparr>sf_root := None, sf_afid := None, sf_fd := - 1, sf_spfd := False\<rparr>)
      (upd_sf (sf_fidpool_update (\<lambda>_. p4)) w3))"
    unfolding disconnect_socket_def Let_def 1 prod.case w2_def [symmetric] 3(1) bind.bind_lunit w3_def [symmetric] 4 by simp
  then show ?thesis using s2 by (simp add: w3_def same_run_def)
qed

lemma disconnect_requests_ok:
  assumes "distinct (reqs_of w)" "dom (sc_reqs w) = set (reqs_of w)" "\<forall>a\<in>set (reqs_of w). has_cb (sc_reqs w) a" "\<not> sf_spfd (sc_fs w)"
    "sf_root (sc_fs w) = None" "sf_afid (sc_fs w) = None"
  shows "\<exists>w'. disconnect_requests w = Some w' \<and> closed_inv w' \<and> sc_out w' = sc_out w \<and>
    sc_calls w' = sc_calls w @ aborted w (reqs_of w)"
proof -
  let ?pend = "sf_pend (sc_fs w)" and ?sent = "sf_sent (sc_fs w)"
  have d: "distinct ?pend" "distinct ?sent" "set ?pend \<inter> set ?sent = {}" "\<forall>a\<in>set ?pend. has_cb (sc_reqs w) a"
    using assms by (auto simp: reqs_of_def)
  define w1 where "w1 = upd_sf (sf_pend_update (\<lambda>_. [])) (abort_all ?pend w)"
  note a1 = abort_all_at [OF d(1), of w]
  have f1: "sc_reqs w1 = (\<lambda>a. if a \<in> set ?pend then None else sc_reqs w a)" "sf_sent (sc_fs w1) = ?sent" "sf_pend (sc_fs w1) = []"
    "sc_calls w1 = sc_calls w @ aborted w ?pend" "sc_out w1 = sc_out w" "\<not> sf_spfd (sc_fs w1)" "sc_error w1 = sc_error w"
    "sf_root (sc_fs w1) = None" "sf_afid (sc_fs w1) = None"
    using a1 assms(4-6) by (simp_all add: w1_def)
  have "\<forall>a\<in>set ?sent. has_cb (sc_reqs w1) a" using assms(3) d(3) by (auto simp: f1(1) has_cb_def reqs_of_def)
  then have s1: "abort_sent (case sf_sent (sc_fs w1) of [] \<Rightarrow> None | req # _ \<Rightarrow> Some req) w1 = Some (abort_all ?sent w1)"
    using abort_sent_ok [of w1 "[]" ?sent] f1(2) d(2) by simp
  define w2 where "w2 = upd_sf (sf_sent_update (\<lambda>_. [])) (abort_all ?sent w1)"
  note a2 = abort_all_at [OF d(2), of w1]
  have ab: "aborted w1 ?sent = aborted w ?sent" using d(3) by (auto simp: aborted_def f1(1,7) rcb_def)
  have "sc_reqs w a = None" if "a \<notin> set ?pend" "a \<notin> set ?sent" for a using assms(2) that by (auto simp: reqs_of_def)
  then have f2: "sc_reqs w2 = Map.empty" "sf_sent (sc_fs w2) = []" "sf_pend (sc_fs w2) = []" "\<not> sf_spfd (sc_fs w2)" "sc_out w2 = sc_out w"
    "sc_calls w2 = sc_calls w @ aborted w ?pend @ aborted w1 ?sent" "sf_root (sc_fs w2) = None" "sf_afid (sc_fs w2) = None"
    using a2 f1 by (auto simp: w2_def fun_eq_iff)
  have "disconnect_requests w = Some w2"
    unfolding disconnect_requests_def Let_def abort_pend_ok [OF d(1,4)] bind.bind_lunit w1_def [symmetric] s1 w2_def ..
  then show ?thesis using f2 ab by (auto simp: closed_inv_def reqs_of_def aborted_def)
qed

lemma spc_disconnect_ok:
  assumes "can_end w"
  shows "\<exists>w'. spc_disconnect_fsys w = Some w' \<and> closed_inv w' \<and> sc_out w' = sc_out w \<and>
    sc_calls w' = sc_calls w @ map (\<lambda>a. (rcb (sc_reqs w) a, None, Some (spc_Econn, ECONNRESET))) (reqs_of w)"
proof -
  obtain w1 where 1: "disconnect_socket w = Some w1" "\<not> sf_spfd (sc_fs w1)" "sc_reqs w1 = sc_reqs w" "sf_pend (sc_fs w1) = sf_pend (sc_fs w)"
    "sf_sent (sc_fs w1) = sf_sent (sc_fs w)" "sc_calls w1 = sc_calls w" "sc_out w1 = sc_out w"
    "sf_root (sc_fs w1) = None" "sf_afid (sc_fs w1) = None"
    using disconnect_socket_ok [OF assms] by blast
  obtain m2 w2 where 2: "(if sc_error w1 = None then (None, w1) else sc_alloc w1) = (m2, w2)" by fastforce
  have s2: "same_run w1 w2" using 2 same_run_alloc by (auto split: if_splits)
  define w3 where "w3 = sc_werror (Some spc_Econn) ECONNRESET w2"
  have f3: "sc_reqs w3 = sc_reqs w" "reqs_of w3 = reqs_of w" "sc_calls w3 = sc_calls w" "sc_out w3 = sc_out w"
    "\<not> sf_spfd (sc_fs w3)" "sc_error w3 = Some (spc_Econn, ECONNRESET)"
    "sf_root (sc_fs w3) = None" "sf_afid (sc_fs w3) = None"
    using same_run_trans [OF s2 same_run_werror, of "Some spc_Econn" ECONNRESET] 1(2-9)
    by (simp_all add: w3_def same_run_def reqs_of_def) (simp add: sc_error_def sc_werror_def ECONNRESET_def)
  obtain w4 where 4: "disconnect_requests w3 = Some w4" "closed_inv w4" "sc_out w4 = sc_out w3" "sc_calls w4 = sc_calls w3 @ aborted w3 (reqs_of w3)"
    using disconnect_requests_ok [of w3] f3 assms by (auto simp: can_end_def)
  obtain e c where ec: "(case sc_error w1 of None \<Rightarrow> (None, 0)
       | Some (e, c) \<Rightarrow> if m2 = None then (Some spc_Enomem, ENOMEM) else (Some e, c)) = (e, c)" by fastforce
  have "spc_disconnect_fsys w = Some (sc_werror e c w4)"
    unfolding spc_disconnect_fsys_def Let_def 1(1) bind.bind_lunit 2 prod.case ec w3_def [symmetric] 4(1) ..
  moreover have "same_run w4 (sc_werror e c w4)" by simp
  moreover have "aborted w3 (reqs_of w3) = map (\<lambda>a. (rcb (sc_reqs w) a, None, Some (spc_Econn, ECONNRESET))) (reqs_of w)"
    by (simp add: aborted_def f3)
  moreover have "closed_inv (sc_werror e c w4)" using 4(2) same_run_werror [of w4 e c] by (simp add: closed_inv_def reqs_of_def same_run_def)
  ultimately show ?thesis using 4(3,4) f3(3,4) by (intro exI [of _ "sc_werror e c w4"]) (simp add: same_run_def)
qed


lemma spc_disconnect_on:
  assumes "open_inv w \<or> closed_inv w"
  shows "\<exists>w'. spc_disconnect_fsys w = Some w' \<and> carries_on w w' \<and> closed_inv w'"
proof -
  obtain w' where w': "spc_disconnect_fsys w = Some w'" "closed_inv w'" "sc_out w' = sc_out w"
    "sc_calls w' = sc_calls w @ map (\<lambda>a. (rcb (sc_reqs w) a, None, Some (spc_Econn, ECONNRESET))) (reqs_of w)"
    using spc_disconnect_ok [of w] assms open_can_end closed_can_end by blast
  have "called w' + waiting w' = called w + waiting w"
    using w'(2,4) by (simp add: called_def waiting_def closed_inv_def o_def)
  moreover have "stream_at w' ps" if "stream_at w ps" for ps
    using stream_prefix [OF that] w'(2,3) by (simp add: stream_at_def closed_inv_def)
  ultimately show ?thesis using w'(1,2) by (auto simp: carries_on_def)
qed

lemma disconnect_same_run:
  assumes "open_inv w" "same_run w w1"
  shows "\<exists>w'. spc_disconnect_fsys w1 = Some w' \<and> carries_on w w' \<and> closed_inv w'"
  using spc_disconnect_on [OF disjI1 [OF same_run_open [OF assms(2,1)]]] carries_on_trans [OF same_run_on [OF assms(2,1)]] by blast

section \<open>Writing\<close>

lemma open_req:
  assumes "open_inv w" "a \<in> set (reqs_of w)"
  obtains q k where "sc_reqs w a = Some q" "sq_cb q = Cb k" "rcb (sc_reqs w) a = k" "\<not> sq_flushed q" "unat (fc_size (sq_tc q)) \<le> length (fc_pkt (sq_tc q))"
    "in_pool (sf_tagpool (sc_fs w)) (ucast (sq_tag q))" "a < sc_nmalloc w"
    "rpkt (sc_reqs w) a = take (unat (fc_size (sq_tc q))) (fc_pkt (sq_tc q))"
  using assms by (auto simp: open_inv_def req_ok_def rcb_def rpkt_def)

lemma spc_fd_write_on:
  assumes "open_inv w"
  shows "\<exists>w'. spc_fd_write n w = Some w' \<and> carries_on w w'"
proof (cases "sf_pend (sc_fs w)")
  case Nil
  then show ?thesis using same_run_on [OF same_run_refl assms] by (simp add: spc_fd_write_def)
next
  case (Cons a rest)
  have "a \<in> set (reqs_of w)" by (simp add: reqs_of_def Cons)
  then obtain q k where q: "sc_reqs w a = Some q" "unat (fc_size (sq_tc q)) \<le> length (fc_pkt (sq_tc q))"
    "rpkt (sc_reqs w) a = take (unat (fc_size (sq_tc q))) (fc_pkt (sq_tc q))"
    using open_req [OF assms] by metis
  let ?sz = "unat (fc_size (sq_tc q))" and ?pos = "sf_pend_pos (sc_fs w)"
  have pos: "?pos \<le> ?sz" using assms q(2,3) by (simp add: open_inv_def pos_ok_def Cons)
  define m where "m = min n (int (?sz - ?pos))"
  define w' where "w' = upd_sf (\<lambda>fs. if ?pos + nat m = ?sz
      then fs\<lparr>sf_pend_pos := 0, sf_pend := rest, sf_sent := a # sf_sent fs\<rparr> else fs\<lparr>sf_pend_pos := ?pos + nat m\<rparr>)
      (w\<lparr>sc_out := sc_out w @ take (nat m) (drop ?pos (fc_pkt (sq_tc q)))\<rparr>)"
  have guard: "(length (fc_pkt (sq_tc q)) < ?sz \<or> ?sz < ?pos) = False" using q(2) pos by auto
  have step: "spc_fd_write n w = (if m = 0 then spc_disconnect_fsys w else if m < 0 then Some w else Some w')"
    unfolding spc_fd_write_def Cons list.case q(1) bind.bind_lunit Let_def guard if_False m_def [symmetric] w'_def ..
  show ?thesis
  proof (cases "0 < m")
    case False
    then show ?thesis
      using step spc_disconnect_on [OF disjI1 [OF assms]] same_run_on [OF same_run_refl assms] by auto
  next
    case True
    have run: "spc_fd_write n w = Some w'" using True step by simp
    have "m \<le> int (?sz - ?pos)" unfolding m_def by (rule min.cobounded2)
    then have le: "?pos + nat m \<le> ?sz" using pos by linarith
    have same: "sc_reqs w' = sc_reqs w" "sc_calls w' = sc_calls w" "sc_nmalloc w' = sc_nmalloc w" "sf_spfd (sc_fs w') = sf_spfd (sc_fs w)"
      "sf_tagpool (sc_fs w') = sf_tagpool (sc_fs w)" "sf_fidpool (sc_fs w') = sf_fidpool (sc_fs w)"
      "sf_root (sc_fs w') = sf_root (sc_fs w)" "sf_afid (sc_fs w') = sf_afid (sc_fs w)"
      by (simp_all add: w'_def)
    have ls: "mset (reqs_of w') = mset (reqs_of w)" "set (reqs_of w') = set (reqs_of w)" "distinct (reqs_of w') = distinct (reqs_of w)"
      by (auto simp: w'_def reqs_of_def Cons)
    have out: "sc_out w' = sc_out w @ take (nat m) (drop ?pos (rpkt (sc_reqs w) a))"
      using le by (simp add: w'_def q(3) drop_take min_def)
    have pd: "if ?pos + nat m = ?sz then sf_pend (sc_fs w') = rest \<and> sf_pend_pos (sc_fs w') = 0
        else sf_pend (sc_fs w') = a # rest \<and> sf_pend_pos (sc_fs w') = ?pos + nat m"
      by (simp add: w'_def Cons)
    have len: "length (rpkt (sc_reqs w) a) = ?sz" using q(2,3) by simp
    have tk: "take ?pos xs @ take (nat m) (drop ?pos xs) = take (?pos + nat m) xs" for xs :: "u8 list" by (simp add: take_add)
    have "pos_ok (sc_reqs w') (sf_pend (sc_fs w')) (sf_pend_pos (sc_fs w'))"
      using pd le len by (auto simp: pos_ok_def same split: if_splits list.splits)
    then have "open_inv w'" using assms ls(2,3) by (simp add: open_inv_def same)
    moreover have "called w' + waiting w' = called w + waiting w" using ls(1) by (simp add: called_def waiting_def same)
    moreover have "stream_at w' ps" if st: "stream_at w ps" for ps
    proof -
      have sp: "sf_spfd (sc_fs w)" using assms by (simp add: open_inv_def)
      obtain ds where d: "ps = ds @ map (rpkt (sc_reqs w)) (a # rest)" "sc_out w = concat ds @ take ?pos (rpkt (sc_reqs w) a)"
        using st sp by (auto simp: stream_at_def part_of_def Cons)
      have o: "sc_out w' = concat ds @ take (?pos + nat m) (rpkt (sc_reqs w) a)" using out d(2) tk by simp
      show ?thesis
      proof (cases "?pos + nat m = ?sz")
        case True
        have "ps = (ds @ [rpkt (sc_reqs w) a]) @ map (rpkt (sc_reqs w)) rest" "sc_out w' = concat (ds @ [rpkt (sc_reqs w) a])"
          using d(1) o True len by simp_all
        then show ?thesis using sp pd True unfolding stream_at_def same by (auto simp: part_of_def split: list.splits)
      next
        case False
        then show ?thesis using sp pd d(1) o unfolding stream_at_def same by (auto simp: part_of_def)
      qed
    qed
    ultimately show ?thesis using run by (auto simp: carries_on_def)
  qed
qed


section \<open>Reading\<close>

lemma remove1_mset: "a \<in> set xs \<Longrightarrow> mset xs = add_mset a (mset (remove1 a xs))"
  by (induction xs) auto

definition matches :: "Npfcall \<Rightarrow> Spcreq \<Rightarrow> bool" where
  "matches fc q \<longleftrightarrow> fc_type fc = Rerror \<or> uint (fc_type (sq_tc q)) + 1 = uint (fc_type fc)"

lemma sc_error_upd [simp]: "sc_error (w\<lparr>sc_calls := c\<rparr>) = sc_error w" "sc_error (w\<lparr>sc_reqs := h\<rparr>) = sc_error w"
  by (simp_all add: sc_error_def)

lemma sc_error_werror: "sc_error (sc_werror (Some e) c w) = (if c = 0 then None else Some (e, c))"
  by (simp add: sc_error_def sc_werror_def)

lemma sc_werror_mem: "sc_nmalloc (sc_werror e c w) = sc_nmalloc w \<and> sc_mallocs (sc_werror e c w) = sc_mallocs w"
  by (simp add: sc_werror_def Let_def split: option.splits)

lemma spc_reply_at:
  assumes "open_inv w" "a \<in> set (sf_sent (sc_fs w))" "sc_reqs w a = Some q"
  shows "\<exists>w' p. spc_reply fc a w = Some w' \<and> sc_fs w' = sf_sent_update (remove1 a) (sc_fs w)\<lparr>sf_tagpool := p\<rparr> \<and>
    length (sp_map p) = length (sp_map (sf_tagpool (sc_fs w))) \<and> sp_maxid p = sp_maxid (sf_tagpool (sc_fs w)) \<and>
    sc_reqs w' = (sc_reqs w)(a := None) \<and> sc_out w' = sc_out w \<and> sc_nmalloc w' = sc_nmalloc w \<and> sc_mallocs w' = sc_mallocs w \<and>
    sc_calls w' = sc_calls w @ [if matches fc q then (rcb (sc_reqs w) a, Some fc, sc_error w)
      else (rcb (sc_reqs w) a, None, Some (spc_Emismatch, EIO))] \<and>
    sc_error w' = (if matches fc q then sc_error w else Some (spc_Emismatch, EIO))"
proof -
  obtain k where k: "sq_cb q = Cb k" "rcb (sc_reqs w) a = k" "\<not> sq_flushed q" "in_pool (sf_tagpool (sc_fs w)) (ucast (sq_tag q))"
    using open_req [OF assms(1), of a] assms(2,3) by (auto simp: reqs_of_def)
  obtain p where p: "spc_put_id (sf_tagpool (sc_fs w)) (ucast (sq_tag q)) = Some p" "length (sp_map p) = length (sp_map (sf_tagpool (sc_fs w)))"
    "sp_maxid p = sp_maxid (sf_tagpool (sc_fs w))"
    using put_in [OF k(4)] by blast
  define w1 where "w1 = upd_sf (sf_sent_update (remove1 a)) w"
  define w2 where "w2 = (if matches fc q then w1 else sc_werror (Some spc_Emismatch) EIO w1)"
  define rc where "rc = (if matches fc q then Some fc else None)"
  define w3 where "w3 = w2\<lparr>sc_calls := sc_calls w2 @ [(k, rc, sc_error w2)]\<rparr>"
  have pair: "(if fc_type fc \<noteq> Rerror \<and> uint (fc_type (sq_tc q)) + 1 \<noteq> uint (fc_type fc)
       then (None, sc_werror (Some spc_Emismatch) EIO w1) else (Some fc, w1)) = (rc, w2)"
    by (auto simp: rc_def w2_def matches_def)
  have f2: "sc_fs w2 = sc_fs w1" "sc_reqs w2 = sc_reqs w" "sc_out w2 = sc_out w" "sc_nmalloc w2 = sc_nmalloc w" "sc_mallocs w2 = sc_mallocs w"
    "sc_calls w2 = sc_calls w" "sc_error w2 = (if matches fc q then sc_error w else Some (spc_Emismatch, EIO))"
    using same_run_werror [of w1 "Some spc_Emismatch" EIO]
    by (simp_all add: w2_def w1_def same_run_def sc_error_werror sc_werror_mem EIO_def)
  have run: "spc_reply fc a w = Some (upd_sf (sf_tagpool_update (\<lambda>_. p)) (w3\<lparr>sc_reqs := (sc_reqs w3)(a := None)\<rparr>))"
    unfolding spc_reply_def assms(3) bind.bind_lunit Let_def w1_def [symmetric] pair prod.case
    using k(1,3) p(1) assms(3) by (simp add: spc_call_def spc_release_def w3_def f2(1,2)) (simp add: w1_def)
  show ?thesis unfolding run
    by (rule exI, rule exI [of _ p], intro conjI, rule refl) (use p(2,3) in \<open>simp_all add: w3_def f2 w1_def k(2) rc_def\<close>)
qed

lemma spc_reply_on:
  assumes "open_inv w" "a \<in> set (sf_sent (sc_fs w))"
  shows "\<exists>w'. spc_reply fc a w = Some w' \<and> open_inv w' \<and> carries_on w w' \<and> sf_ifcall (sc_fs w') = sf_ifcall (sc_fs w)"
proof -
  obtain q where q: "sc_reqs w a = Some q" using open_req [OF assms(1), of a] assms(2) by (auto simp: reqs_of_def)
  obtain w' p where w': "spc_reply fc a w = Some w'" "sc_fs w' = sf_sent_update (remove1 a) (sc_fs w)\<lparr>sf_tagpool := p\<rparr>"
    "length (sp_map p) = length (sp_map (sf_tagpool (sc_fs w)))" "sp_maxid p = sp_maxid (sf_tagpool (sc_fs w))"
    "sc_reqs w' = (sc_reqs w)(a := None)" "sc_out w' = sc_out w" "sc_nmalloc w' = sc_nmalloc w"
    "map fst (sc_calls w') = map fst (sc_calls w) @ [rcb (sc_reqs w) a]"
    using spc_reply_at [OF assms q, of fc] by (auto split: if_splits)
  have d: "distinct (reqs_of w)" "dom (sc_reqs w) = set (reqs_of w)" "a \<notin> set (sf_pend (sc_fs w))"
    using assms by (auto simp: open_inv_def reqs_of_def)
  have l: "reqs_of w' = sf_pend (sc_fs w) @ remove1 a (sf_sent (sc_fs w))" by (simp add: reqs_of_def w'(2))
  have s: "set (reqs_of w') = set (reqs_of w) - {a}" unfolding l using d assms(2) by (auto simp: reqs_of_def)
  have ds: "distinct (reqs_of w')" unfolding l using d(1) by (auto simp: reqs_of_def dest: notin_set_remove1)
  have rp: "rpkt (sc_reqs w') b = rpkt (sc_reqs w) b" "rcb (sc_reqs w') b = rcb (sc_reqs w) b" if "b \<noteq> a" for b
    using that by (simp_all add: rpkt_def rcb_def w'(5))
  have pok: "pos_ok (sc_reqs w') (sf_pend (sc_fs w')) (sf_pend_pos (sc_fs w')) = pos_ok (sc_reqs w) (sf_pend (sc_fs w)) (sf_pend_pos (sc_fs w))"
    "part_of (sc_reqs w') (sf_pend (sc_fs w')) (sf_pend_pos (sc_fs w')) = part_of (sc_reqs w) (sf_pend (sc_fs w)) (sf_pend_pos (sc_fs w))"
    using rp(1) d(3) by (auto simp: pos_ok_def part_of_def w'(2) split: list.splits)
  have ok: "req_ok (sc_reqs w') (sf_tagpool (sc_fs w')) b" if "b \<in> set (reqs_of w')" for b
  proof -
    have "req_ok (sc_reqs w) (sf_tagpool (sc_fs w)) b" "b \<noteq> a" using assms(1) that s by (auto simp: open_inv_def)
    then show ?thesis using w'(3,4) by (auto simp: req_ok_def w'(2,5) in_pool_def)
  qed
  have "open_inv w'"
    using assms(1) ds s ok pok(1) w'(3,4) d(2) by (auto simp: open_inv_def w'(2,5,7) tags_ok_def spc_ok_def map_ok_def)
  moreover have "called w' + waiting w' = called w + waiting w"
  proof -
    have "mset (reqs_of w) = add_mset a (mset (reqs_of w'))" unfolding l using remove1_mset [OF assms(2)] by (simp add: reqs_of_def)
    moreover have "image_mset (rcb (sc_reqs w')) (mset (reqs_of w')) = image_mset (rcb (sc_reqs w)) (mset (reqs_of w'))"
      using s rp(2) by (intro image_mset_cong) auto
    ultimately show ?thesis by (simp add: called_def waiting_def w'(8))
  qed
  moreover have "stream_at w' ps" if "stream_at w ps" for ps
  proof -
    have "map (rpkt (sc_reqs w')) (sf_pend (sc_fs w)) = map (rpkt (sc_reqs w)) (sf_pend (sc_fs w))" using rp(1) d(3) by (intro map_cong refl) metis
    then show ?thesis using that assms(1) unfolding stream_at_def pok(2) by (simp add: w'(2,6) open_inv_def del: map_eq_conv)
  qed
  ultimately show ?thesis using w'(1,2) by (auto simp: carries_on_def)
qed

lemma find_tag_ok:
  "\<forall>a\<in>set as. h a \<noteq> None \<Longrightarrow> \<exists>p. find_tag h tag as = Some p \<and> (\<forall>a. p = Some a \<longrightarrow> a \<in> set as \<and> sq_tag (the (h a)) = tag)"
  by (induction as) auto


lemma spc_fd_one_on:
  assumes "open_inv w" "sf_ifcall (sc_fs w) = Some (fc0, buf)"
  shows "\<exists>more w'. spc_fd_one w = Some (more, w') \<and> carries_on w w' \<and>
    (more \<longrightarrow> open_inv w' \<and> (\<exists>fc0' buf'. sf_ifcall (sc_fs w') = Some (fc0', buf') \<and> length buf' < length buf))"
proof -
  have stay: "\<exists>more w'. Some (False, w1) = Some (more, w') \<and> carries_on w w' \<and>
      (more \<longrightarrow> open_inv w' \<and> (\<exists>fc0' buf'. sf_ifcall (sc_fs w') = Some (fc0', buf') \<and> length buf' < length buf))" if "same_run w w1" for w1
    using same_run_on [OF that assms(1)] by (intro exI [of _ False] exI [of _ w1]) simp
  have down: "\<exists>more w'. map_option (\<lambda>w. (False, w)) (spc_disconnect_fsys w1) = Some (more, w') \<and> carries_on w w' \<and>
      (more \<longrightarrow> open_inv w' \<and> (\<exists>fc0' buf'. sf_ifcall (sc_fs w') = Some (fc0', buf') \<and> length buf' < length buf))" if "same_run w w1" for w1
    using disconnect_same_run [OF assms(1) that] by auto
  let ?n = "unat (of_le32 buf)"
  consider (small) "length buf < 4 \<or> (of_le32 buf \<le> sf_msize (sc_fs w) \<and> length buf < ?n)" | (big) "\<not> length buf < 4" "of_le32 buf > sf_msize (sc_fs w)"
    | (whole) "\<not> length buf < 4" "\<not> of_le32 buf > sf_msize (sc_fs w)" "\<not> length buf < ?n"
    by (meson linorder_not_less)
  then show ?thesis
  proof cases
    case small
    then have "spc_fd_one w = Some (False, w)" by (auto simp: spc_fd_one_def assms(2) not_less Let_def)
    then show ?thesis using stay [OF same_run_refl] by simp
  next
    case big
    then show ?thesis using down [of "sc_werror (Some (cstr ''invalid fcall size greater than msize'')) EIO w"]
      by (simp add: spc_fd_one_def assms(2))
  next
    case whole
    have safe: "\<not> snd (sp_deserialize (fc0\<lparr>fc_pkt := buf\<rparr>) buf (sf_dotu (sc_fs w)))"
      using sp_deserialize_safe [of buf] whole by simp
    show ?thesis
    proof (cases "fst (sp_deserialize (fc0\<lparr>fc_pkt := buf\<rparr>) buf (sf_dotu (sc_fs w)))")
      case None
      then have "sp_deserialize (fc0\<lparr>fc_pkt := buf\<rparr>) buf (sf_dotu (sc_fs w)) = (None, False)" using safe by (simp add: prod_eq_iff)
      then show ?thesis using whole down [of "sc_werror (Some (cstr ''invalid fcall'')) EIO w"] by (simp add: spc_fd_one_def assms(2))
    next
      case (Some fc)
      then have d: "sp_deserialize (fc0\<lparr>fc_pkt := buf\<rparr>) buf (sf_dotu (sc_fs w)) = (Some fc, False)" using safe by (simp add: prod_eq_iff)
      have n: "0 < ?n" 
        by (rule sp_deserialize_size [of buf "fc0\<lparr>fc_pkt := buf\<rparr>" "sf_dotu (sc_fs w)" fc]) (use whole(1) d in simp_all)
      obtain m w1 where 1: "sc_malloc w = (m, w1)" by fastforce
      have s1: "same_run w w1" using same_run_malloc [OF 1] by blast
      show ?thesis
      proof (cases m)
        case None
        then show ?thesis using whole d 1 down [OF same_run_trans [OF s1 same_run_ifcall]] by (simp add: spc_fd_one_def assms(2))
      next
        case (Some mm)
        obtain junk bytes where mm: "mm = (junk, bytes)" by fastforce
        define w2 where "w2 = upd_sf (sf_ifcall_update (\<lambda>_. Some (junk, drop ?n buf))) w1"
        have s2: "same_run w w2" using same_run_trans [OF s1 same_run_ifcall] by (simp add: w2_def)
        note o2 = same_run_open [OF s2 assms(1)]
        have f2: "sc_reqs w2 = sc_reqs w1" "sf_sent (sc_fs w2) = sf_sent (sc_fs w1)" by (simp_all add: w2_def)
        have "\<forall>a\<in>set (sf_sent (sc_fs w2)). sc_reqs w2 a \<noteq> None" using o2 by (auto simp: open_inv_def reqs_of_def)
        then obtain p where p: "find_tag (sc_reqs w2) (fc_tag fc) (sf_sent (sc_fs w2)) = Some p" "\<forall>a. p = Some a \<longrightarrow> a \<in> set (sf_sent (sc_fs w2))"
          using find_tag_ok by blast
        have run: "spc_fd_one w = (case p of
            None \<Rightarrow> Some (False, sc_werror (Some (cstr ''unexpected fcall'')) EIO w2)
          | Some req \<Rightarrow> do {
              w \<leftarrow> spc_reply fc req w2;
              (_, buf) \<leftarrow> sf_ifcall (sc_fs w);
              Some (buf \<noteq> [], w)
            })"
          using whole d 1 p(1) [unfolded f2] by (simp add: spc_fd_one_def assms(2) Some mm flip: w2_def)
        show ?thesis
        proof (cases p)
          case None
          then show ?thesis unfolding run using stay [OF same_run_trans [OF s2 same_run_werror]] by simp
        next
          case (Some a)
          obtain w3 where w3: "spc_reply fc a w2 = Some w3" "open_inv w3" "carries_on w2 w3" "sf_ifcall (sc_fs w3) = sf_ifcall (sc_fs w2)"
            using spc_reply_on [OF o2, of a fc] p(2) Some by blast
          have i: "sf_ifcall (sc_fs w3) = Some (junk, drop ?n buf)" using w3(4) by (simp add: w2_def)
          show ?thesis unfolding run using Some w3(1,2) carries_on_trans [OF same_run_on [OF s2 assms(1)] w3(3)] i n whole by (simp, linarith)
        qed
      qed
    qed
  qed
qed

lemma spc_fd_again_on:
  "open_inv w \<Longrightarrow> sf_ifcall (sc_fs w) = Some (fc0, buf) \<Longrightarrow> \<exists>w'. spc_fd_again w = Some w' \<and> carries_on w w'"
proof (induction "length buf" arbitrary: w fc0 buf rule: less_induct)
  case less
  obtain more w' where 1: "spc_fd_one w = Some (more, w')" "carries_on w w'"
    "more \<longrightarrow> open_inv w' \<and> (\<exists>fc0' buf'. sf_ifcall (sc_fs w') = Some (fc0', buf') \<and> length buf' < length buf)"
    using spc_fd_one_on [OF less.prems] by blast
  show ?case
  proof (cases more)
    case False
    then show ?thesis using 1(1,2) by (subst spc_fd_again.simps) simp
  next
    case True
    then obtain fc0' buf' where b: "open_inv w'" "sf_ifcall (sc_fs w') = Some (fc0', buf')" "length buf' < length buf" using 1(3) by blast
    obtain w'' where "spc_fd_again w' = Some w''" "carries_on w' w''" using less.hyps [OF b(3,1,2)] by blast
    then show ?thesis using 1(1) True carries_on_trans [OF 1(2)] by (subst spc_fd_again.simps) auto
  qed
qed


lemma spc_fd_read_on:
  assumes "open_inv w"
  shows "\<exists>w'. spc_fd_read data w = Some w' \<and> carries_on w w'"
proof -
  obtain b w1 where 1: "(case sf_ifcall (sc_fs w) of
          Some _ \<Rightarrow> (True, w)
        | None \<Rightarrow>
            (case sc_malloc w of
               (None, w) \<Rightarrow> (False, w)
             | (Some (junk, _), w) \<Rightarrow> (True, upd_sf (sf_ifcall_update (\<lambda>_. Some (junk, []))) w))) = (b, w1)" by fastforce
  have s1: "same_run w w1 \<and> (b \<longrightarrow> sf_ifcall (sc_fs w1) \<noteq> None)"
  proof (cases "sf_ifcall (sc_fs w)")
    case None
    obtain m w0 where 0: "sc_malloc w = (m, w0)" by fastforce
    show ?thesis using None 1 0 same_run_trans [OF conjunct1 [OF same_run_malloc [OF 0]] same_run_ifcall] same_run_malloc [OF 0]
      by (auto split: option.splits)
  next
    case (Some a)
    then show ?thesis using 1 by auto
  qed
  have run: "spc_fd_read data w = (if b then (case data of
             None \<Rightarrow> Some w1
           | Some [] \<Rightarrow> spc_disconnect_fsys w1
           | Some bs \<Rightarrow> spc_fd_again (upd_sf (sf_ifcall_update (map_option (\<lambda>(fc, buf). (fc, buf @ bs)))) w1)) else spc_disconnect_fsys w1)"
    unfolding spc_fd_read_def 1 by (cases b) simp_all
  show ?thesis
  proof (cases "b \<and> data \<noteq> Some []")
    case False
    then show ?thesis unfolding run using disconnect_same_run [OF assms] s1 by auto
  next
    case True
    show ?thesis
    proof (cases data)
      case None
      then show ?thesis unfolding run using True same_run_on [OF _ assms] s1 by simp
    next
      case (Some bs)
      define w2 where "w2 = upd_sf (sf_ifcall_update (map_option (\<lambda>(fc, buf). (fc, buf @ bs)))) w1"
      have s2: "same_run w w2" using same_run_trans [OF conjunct1 [OF s1] same_run_ifcall] by (simp add: w2_def)
      obtain fc buf where i: "sf_ifcall (sc_fs w2) = Some (fc, buf)" using s1 True by (auto simp: w2_def)
      obtain w' where "spc_fd_again w2 = Some w'" "carries_on w2 w'"
        using spc_fd_again_on [OF same_run_open [OF s2 assms] i] by blast
      then show ?thesis unfolding run using True Some carries_on_trans [OF same_run_on [OF s2 assms]]
        by (auto simp: w2_def split: list.splits)
    qed
  qed
qed

lemma spc_notify_on:
  assumes "open_inv w"
  shows "\<exists>w'. spc_notify rd wr err w = Some w' \<and> carries_on w w'"
proof -
  define w1 where "w1 = sc_werror None 0 (snd (sc_save w))"
  have s1: "same_run w w1" unfolding w1_def by (rule same_run_trans [OF _ same_run_werror]) (metis prod.collapse same_run_save)
  obtain w2 where 2: "(case rd of None \<Rightarrow> Some w1 | Some data \<Rightarrow> spc_fd_read data w1) = Some w2" "carries_on w w2"
  proof (cases rd)
    case None
    then show ?thesis using that same_run_on [OF s1 assms] by simp
  next
    case (Some d)
    then show ?thesis using that spc_fd_read_on [OF same_run_open [OF s1 assms], of d] carries_on_trans [OF same_run_on [OF s1 assms]] by auto
  qed
  obtain w3 where 3: "(if \<not> sf_spfd (sc_fs w2) then Some w2
       else do {
         w \<leftarrow> (case wr of None \<Rightarrow> Some w2 | Some n \<Rightarrow> spc_fd_write n w2);
         if err then spc_disconnect_fsys w else Some w
       }) = Some w3" "carries_on w w3"
  proof (cases "sf_spfd (sc_fs w2)")
    case False
    then show ?thesis using that 2(2) by simp
  next
    case True
    then have o2: "open_inv w2" using 2(2) by (auto simp: carries_on_def closed_inv_def)
    obtain w where w: "(case wr of None \<Rightarrow> Some w2 | Some n \<Rightarrow> spc_fd_write n w2) = Some w" "carries_on w2 w"
      using spc_fd_write_on [OF o2] same_run_on [OF same_run_refl o2] by (cases wr) auto
    have oc: "open_inv w \<or> closed_inv w" using w(2) by (simp add: carries_on_def)
    show ?thesis
    proof (cases err)
      case True
      then show ?thesis using that \<open>sf_spfd (sc_fs w2)\<close> w spc_disconnect_on [OF oc] carries_on_trans [OF carries_on_trans [OF 2(2) w(2)]] by auto
    next
      case False
      then show ?thesis using that \<open>sf_spfd (sc_fs w2)\<close> w carries_on_trans [OF 2(2) w(2)] by simp
    qed
  qed
  have "spc_notify rd wr err w = Some (if sc_ecode w3 \<noteq> 0 then sc_werror None 0 w3 else w3)"
    unfolding spc_notify_def Let_def w1_def [symmetric] 2(1) bind.bind_lunit 3(1) ..
  moreover have "carries_on w (sc_werror None 0 w3)"
    using 3(2) same_run_werror [of w3 None 0] same_run_open [of w3 "sc_werror None 0 w3"]
    by (auto simp: carries_on_def same_run_def called_def waiting_def stream_at_def reqs_of_def closed_inv_def)
  ultimately show ?thesis using 3(2) by auto
qed


section \<open>Issuing a request\<close>

text \<open>A request a client may issue, and what is written for it: its packet, with some tag.\<close>

definition issuable_tc :: "Npfcall \<Rightarrow> bool" where
  "issuable_tc tc \<longleftrightarrow> 7 \<le> length (fc_pkt tc) \<and> unat (fc_size tc) \<le> length (fc_pkt tc) \<and> (fc_type tc = Tversion \<longrightarrow> fc_tag tc = NOTAG)"

definition packet_of :: "Npfcall \<Rightarrow> u8 list \<Rightarrow> bool" where
  "packet_of tc p \<longleftrightarrow> (\<exists>tc'. (tc' = tc \<or> (\<exists>tag. np_set_tag tc tag = Inr tc')) \<and> p = take (unat (fc_size tc)) (fc_pkt tc'))"

definition new_tags :: "spcstate \<Rightarrow> spcstate \<Rightarrow> bool" where
  "new_tags w w' \<longleftrightarrow> (\<exists>p. tags_ok p \<and> length (sp_map (sf_tagpool (sc_fs w))) \<le> length (sp_map p) \<and> same_run (upd_sf (sf_tagpool_update (\<lambda>_. p)) w) w')"

lemma new_tags_on:
  assumes "new_tags w w'" "open_inv w"
  shows "open_inv w' \<and> carries_on w w'"
proof -
  obtain p where p: "tags_ok p" "length (sp_map (sf_tagpool (sc_fs w))) \<le> length (sp_map p)"
    "same_run (upd_sf (sf_tagpool_update (\<lambda>_. p)) w) w'" using assms(1) by (auto simp: new_tags_def)
  let ?w1 = "upd_sf (sf_tagpool_update (\<lambda>_. p)) w"
  have m: "sp_maxid p = sp_maxid (sf_tagpool (sc_fs w))" using p(1) assms(2) by (simp add: tags_ok_def open_inv_def)
  have "req_ok (sc_reqs w) p a" if "req_ok (sc_reqs w) (sf_tagpool (sc_fs w)) a" for a
    using that in_pool_keep [OF _ p(2) m] by (auto simp: req_ok_def)
  then have o: "open_inv ?w1" using assms(2) p(1) by (simp add: open_inv_def reqs_of_def)
  have "carries_on w ?w1" using o by (simp add: carries_on_def called_def waiting_def stream_at_def reqs_of_def)
  then show ?thesis using same_run_open [OF p(3) o] same_run_on [OF p(3) o] carries_on_trans by blast
qed

lemma new_tags_refl: "same_run w w' \<Longrightarrow> open_inv w \<Longrightarrow> new_tags w w'"
  by (rule ccontr) (simp add: new_tags_def open_inv_def same_run_def)

lemma np_set_tag_at: "7 \<le> length (fc_pkt tc) \<Longrightarrow> \<exists>tc'. np_set_tag tc tag = Inr tc' \<and> fc_size tc' = fc_size tc \<and>
    length (fc_pkt tc') = length (fc_pkt tc) \<and> fc_tag tc' = tag"
  by (simp add: np_set_tag_def)

lemma spc_tag_ok:
  assumes "open_inv w" "issuable_tc tc"
  shows "\<exists>r w'. spc_tag tc w = Some (r, w') \<and> new_tags w w' \<and>
    (\<forall>tc'. r = Some tc' \<longrightarrow> packet_of tc (take (unat (fc_size tc')) (fc_pkt tc')) \<and> unat (fc_size tc') \<le> length (fc_pkt tc') \<and>
      in_pool (sf_tagpool (sc_fs w')) (ucast (fc_tag tc')))"
proof (cases "fc_type tc = Tversion")
  case True
  then have "in_pool (sf_tagpool (sc_fs w)) (ucast (fc_tag tc))"
    using assms by (simp add: open_inv_def tags_ok_def in_pool_def issuable_tc_def)
  then show ?thesis using True assms new_tags_refl [OF same_run_refl assms(1)]
    by (auto simp: spc_tag_def packet_of_def issuable_tc_def)
next
  case False
  obtain m w1 where 1: "(if length (sp_map (sf_tagpool (sc_fs w))) \<le> free_byte (sp_map (sf_tagpool (sc_fs w)))
      then sc_alloc w else (None, w)) = (m, w1)" by fastforce
  have s1: "same_run w w1" using 1 same_run_alloc by (auto split: if_splits)
  have t1: "sf_tagpool (sc_fs w1) = sf_tagpool (sc_fs w)" "tags_ok (sf_tagpool (sc_fs w))" using s1 assms(1) by (simp_all add: same_run_def open_inv_def)
  obtain k p where k: "spc_get_id (m \<noteq> None) (sf_tagpool (sc_fs w1)) = (k, p)" by fastforce
  note g = spc_get_in [OF t1(2) k [unfolded t1(1)]]
  define w2 where "w2 = upd_sf (sf_tagpool_update (\<lambda>_. p)) w1"
  have n2: "new_tags w w'" if "same_run w2 w'" for w'
    using g that s1 by (auto simp: new_tags_def w2_def same_run_def intro!: exI [of _ p])
  have k2: "(ucast (ucast k :: u16) :: u32) = k" using g by (simp add: word_unat_eq_iff unsigned_ucast_eq unsigned_take_bit_eq take_bit_nat_eq_self)
  obtain tc' where tc': "np_set_tag tc (ucast k) = Inr tc'" "fc_size tc' = fc_size tc" "length (fc_pkt tc') = length (fc_pkt tc)" "fc_tag tc' = ucast k"
    using np_set_tag_at [of tc "ucast k"] assms(2) by (auto simp: issuable_tc_def)
  have run: "spc_tag tc w = (if (ucast k :: u16) = NOTAG then Some (None, sc_werror (Some (cstr ''tag pool full'')) EIO w2)
      else Some (Some tc', w2))"
    unfolding spc_tag_def Let_def 1 prod.case k w2_def [symmetric] using False tc'(1) by simp
  show ?thesis
  proof (cases "(ucast k :: u16) = NOTAG")
    case True
    then show ?thesis unfolding run using n2 [OF same_run_werror] by simp
  next
    case False
    have "packet_of tc (take (unat (fc_size tc')) (fc_pkt tc'))" using tc'(1,2) by (auto simp: packet_of_def)
    then show ?thesis unfolding run using False n2 [OF same_run_refl] tc' g k2 assms(2) by (simp add: issuable_tc_def w2_def)
  qed
qed


lemma spc_rpcnb_on:
  assumes "open_inv w" "issuable_tc tc"
  shows "\<exists>r w'. spc_rpcnb (Some tc) (Cb k) wr w = Some (r, w') \<and> (open_inv w' \<or> closed_inv w') \<and>
    called w' + waiting w' = add_mset k (called w + waiting w) \<and>
    (\<forall>ps. stream_at w ps \<longrightarrow> (if r = 0 then \<exists>p. packet_of tc p \<and> stream_at w' (ps @ [p]) else stream_at w' ps))"
proof -
  let ?R = "\<lambda>r w'. (open_inv w' \<or> closed_inv w') \<and> called w' + waiting w' = add_mset k (called w + waiting w) \<and>
    (\<forall>ps. stream_at w ps \<longrightarrow> (if r = (0 :: int) then \<exists>p. packet_of tc p \<and> stream_at w' (ps @ [p]) else stream_at w' ps))"
  have fail: "\<exists>r w'. map_option (\<lambda>w. (- 1, w)) (spc_call (Cb k) None w1) = Some (r, w') \<and> ?R r w'"
    if "carries_on w w1" "open_inv w1" for w1
  proof -
    let ?w = "w1\<lparr>sc_calls := sc_calls w1 @ [(k, None, sc_error w1)]\<rparr>"
    have "open_inv ?w" "waiting ?w = waiting w1" "called ?w = add_mset k (called w1)" "stream_at ?w = stream_at w1"
      using that(2) by (simp_all add: open_inv_def reqs_of_def waiting_def called_def stream_at_def fun_eq_iff)
    then show ?thesis using that(1) by (simp add: spc_call_def carries_on_def)
  qed
  have sp: "sf_spfd (sc_fs w)" using assms(1) by (simp add: open_inv_def)
  show ?thesis
  proof (cases "sf_ename (sc_fs w) \<noteq> None")
    case True
    let ?w = "sc_werror (sf_ename (sc_fs w)) (sf_ecode (sc_fs w)) w"
    have sw: "same_run w ?w" by simp
    show ?thesis using fail [OF same_run_on [OF sw assms(1)] same_run_open [OF sw assms(1)]] sp True by (simp add: spc_rpcnb_def)
  next
    case e: False
    obtain m w1 where 1: "sc_malloc w = (m, w1)" by fastforce
    have s1: "same_run w w1" "sc_nmalloc w < sc_nmalloc w1" using same_run_malloc [OF 1] by blast+
    note o1 = same_run_open [OF s1(1) assms(1)] same_run_on [OF s1(1) assms(1)]
    show ?thesis
    proof (cases m)
      case None
      then show ?thesis using fail [OF o1(2,1)] sp e 1 by (simp add: spc_rpcnb_def)
    next
      case (Some mm)
      obtain t w2 where t: "spc_tag tc w1 = Some (t, w2)" "new_tags w1 w2"
        "\<forall>tc'. t = Some tc' \<longrightarrow> packet_of tc (take (unat (fc_size tc')) (fc_pkt tc')) \<and> unat (fc_size tc') \<le> length (fc_pkt tc') \<and>
          in_pool (sf_tagpool (sc_fs w2)) (ucast (fc_tag tc'))"
        using spc_tag_ok [OF o1(1) assms(2)] by blast
      note o2 = new_tags_on [OF t(2) o1(1)]
      have c2: "carries_on w w2" using carries_on_trans [OF o1(2) conjunct2 [OF o2]] .
      show ?thesis
      proof (cases t)
        case None
        then show ?thesis using fail [OF c2 conjunct1 [OF o2]] sp e 1 Some t(1) by (simp add: spc_rpcnb_def)
      next
        case (Some tc')
        define req where "req = sc_nmalloc w"
        define q where "q = \<lparr>sq_tag = fc_tag tc', sq_tc = tc', sq_cb = Cb k, sq_flushed = False\<rparr>"
        define w3 where "w3 = upd_sf (\<lambda>fs. fs\<lparr>sf_pend := sf_pend fs @ [req]\<rparr>) (w2\<lparr>sc_reqs := (sc_reqs w2)(req := Some q)\<rparr>)"
        note q3 = t(3) [rule_format, OF Some]
        have n2: "req \<notin> set (reqs_of w2)" "req < sc_nmalloc w2"
        proof -
          have r2: "reqs_of w2 = reqs_of w" "sc_nmalloc w1 \<le> sc_nmalloc w2"
            using s1(1) t(2) by (auto simp: reqs_of_def new_tags_def same_run_def)
          show "req < sc_nmalloc w2" using s1(2) r2(2) by (simp add: req_def)
          show "req \<notin> set (reqs_of w2)" using assms(1) by (auto simp: r2(1) req_def open_inv_def)
        qed
        have f3: "reqs_of w3 = sf_pend (sc_fs w2) @ req # sf_sent (sc_fs w2)" "sc_reqs w3 = (sc_reqs w2)(req := Some q)"
          "sf_pend (sc_fs w3) = sf_pend (sc_fs w2) @ [req]" "sc_calls w3 = sc_calls w2" "sc_out w3 = sc_out w2"
          by (simp_all add: w3_def reqs_of_def)
        have keep: "rpkt (sc_reqs w3) a = rpkt (sc_reqs w2) a" "rcb (sc_reqs w3) a = rcb (sc_reqs w2) a" if "a \<in> set (reqs_of w2)" for a
          using that n2(1) by (auto simp: rpkt_def rcb_def f3(2))
        have new: "rpkt (sc_reqs w3) req = take (unat (fc_size tc')) (fc_pkt tc')" "rcb (sc_reqs w3) req = k"
          by (simp_all add: rpkt_def rcb_def f3(2) q_def)
        have part: "part_of (sc_reqs w3) (sf_pend (sc_fs w3)) (sf_pend_pos (sc_fs w3)) = part_of (sc_reqs w2) (sf_pend (sc_fs w2)) (sf_pend_pos (sc_fs w2))"
            "pos_ok (sc_reqs w3) (sf_pend (sc_fs w3)) (sf_pend_pos (sc_fs w3))"
        proof -
          have p3: "sf_pend_pos (sc_fs w3) = sf_pend_pos (sc_fs w2)" by (simp add: w3_def)
          have "sf_pend (sc_fs w2) = [] \<Longrightarrow> sf_pend_pos (sc_fs w2) = 0" using o2 by (simp add: open_inv_def pos_ok_def)
          then show "part_of (sc_reqs w3) (sf_pend (sc_fs w3)) (sf_pend_pos (sc_fs w3)) = part_of (sc_reqs w2) (sf_pend (sc_fs w2)) (sf_pend_pos (sc_fs w2))"
            "pos_ok (sc_reqs w3) (sf_pend (sc_fs w3)) (sf_pend_pos (sc_fs w3))"
            using keep(1) o2 unfolding p3 by (auto simp: part_of_def pos_ok_def f3(3) reqs_of_def open_inv_def split: list.splits)
        qed
        have o3: "open_inv w3"
        proof -
          have "req_ok (sc_reqs w3) (sf_tagpool (sc_fs w2)) a" if "a \<in> set (reqs_of w2)" for a
            using o2 that n2(1) by (auto simp: open_inv_def req_ok_def f3(2))
          moreover have "req_ok (sc_reqs w3) (sf_tagpool (sc_fs w2)) req" using q3 by (simp add: req_ok_def f3(2) q_def)
          moreover have "sf_tagpool (sc_fs w3) = sf_tagpool (sc_fs w2)" "sc_nmalloc w3 = sc_nmalloc w2" "set (reqs_of w3) = insert req (set (reqs_of w2))"
            "distinct (reqs_of w3)"
            using n2(1) o2 unfolding f3(1) by (auto simp: w3_def reqs_of_def open_inv_def)
          ultimately show ?thesis using o2 n2(2) part(2) by (auto simp: open_inv_def f3(2)) (simp_all add: w3_def)
        qed
        have acc: "called w3 + waiting w3 = add_mset k (called w + waiting w)"
        proof -
          have "mset (reqs_of w3) = add_mset req (mset (reqs_of w2))" unfolding f3(1) by (simp add: reqs_of_def)
          moreover have "image_mset (rcb (sc_reqs w3)) (mset (reqs_of w2)) = image_mset (rcb (sc_reqs w2)) (mset (reqs_of w2))"
            using keep(2) by (intro image_mset_cong) simp
          ultimately show ?thesis using c2 new(2) by (simp add: carries_on_def waiting_def called_def f3(4))
        qed
        have st: "stream_at w3 (ps @ [take (unat (fc_size tc')) (fc_pkt tc')])" if "stream_at w ps" for ps
        proof -
          have sp2: "sf_spfd (sc_fs w2)" "sf_spfd (sc_fs w3)" using o2 o3 by (simp_all add: open_inv_def)
          have "stream_at w2 ps" using c2 that by (simp add: carries_on_def)
          then obtain ds where ds: "ps = ds @ map (rpkt (sc_reqs w2)) (sf_pend (sc_fs w2))"
            "sc_out w2 = concat ds @ part_of (sc_reqs w2) (sf_pend (sc_fs w2)) (sf_pend_pos (sc_fs w2))" using sp2 by (auto simp: stream_at_def)
          have "map (rpkt (sc_reqs w2)) (sf_pend (sc_fs w2)) = map (rpkt (sc_reqs w3)) (sf_pend (sc_fs w2))"
            using keep(1) by (intro map_cong) (auto simp: reqs_of_def)
          then show ?thesis using ds sp2(2) part(1) new(1) by (simp add: stream_at_def f3(3,5) del: map_eq_conv)
        qed
        have fin: "?R 0 w4" if "carries_on w3 w4" for w4
          using that acc st q3 by (auto simp: carries_on_def)
        have run: "spc_rpcnb (Some tc) (Cb k) wr w = map_option (\<lambda>w. (0, w)) (case wr of None \<Rightarrow> Some w3
            | Some n \<Rightarrow> if sf_pend (sc_fs w3) = [req] then spc_fd_write n w3 else Some w3)"
          using sp e 1 \<open>m = Some mm\<close> t(1) Some
          by (cases wr; cases "sf_pend (sc_fs w2) = []"; cases "spc_fd_write (the wr) w3")
            (simp_all add: spc_rpcnb_def Let_def q_def req_def w3_def)
        obtain w4 where "(case wr of None \<Rightarrow> Some w3
            | Some n \<Rightarrow> if sf_pend (sc_fs w3) = [req] then spc_fd_write n w3 else Some w3) = Some w4" "carries_on w3 w4"
          using spc_fd_write_on [OF o3] same_run_on [OF same_run_refl o3] by (cases wr; cases "sf_pend (sc_fs w3) = [req]") fastforce+
        then show ?thesis unfolding run using fin by auto
      qed
    qed
  qed
qed

section \<open>Runs\<close>

text \<open>
  What happens to a client that does not flush: it issues a request with its callback, of which the
  socket may take \<open>wr\<close> at once, or the poll loop turns, as long as the socket is in the poll set.
\<close>

datatype spcev = Issue Npfcall nat "int option" | Turn "u8 list option option" "int option" bool

text \<open>With the state, the callbacks handed over and the requests that \<^verbatim>\<open>spc_rpcnb\<close> accepted are counted.\<close>

type_synonym spcrun = "spcstate \<times> nat list \<times> Npfcall list"

fun spc_event :: "spcev \<Rightarrow> spcrun \<Rightarrow> spcrun option" where
  "spc_event (Issue tc k wr) (w, ks, tcs) = do {
     (r, w) \<leftarrow> spc_rpcnb (Some tc) (Cb k) wr w;
     Some (w, ks @ [k], if r = 0 then tcs @ [tc] else tcs)
   }"
| "spc_event (Turn rd wr err) (w, ks, tcs) =
     (if sf_spfd (sc_fs w) then do { w \<leftarrow> spc_notify rd wr err w; Some (w, ks, tcs) } else Some (w, ks, tcs))"

fun spc_events :: "spcev list \<Rightarrow> spcrun \<Rightarrow> spcrun option" where
  "spc_events [] r = Some r"
| "spc_events (e # es) r = do { r \<leftarrow> spc_event e r; spc_events es r }"

definition issued :: "spcev list \<Rightarrow> (Npfcall \<times> nat) list" where
  "issued es = concat (map (\<lambda>e. case e of Issue tc k _ \<Rightarrow> [(tc, k)] | _ \<Rightarrow> []) es)"

definition run_inv :: "spcrun \<Rightarrow> bool" where
  "run_inv = (\<lambda>(w, ks, tcs). (open_inv w \<or> closed_inv w) \<and> called w + waiting w = mset ks \<and>
     (\<exists>ps. list_all2 packet_of tcs ps \<and> stream_at w ps))"

lemma spc_rpcnb_closed:
  assumes "closed_inv w"
  shows "\<exists>w'. spc_rpcnb (Some tc) (Cb k) wr w = Some (- 1, w') \<and> closed_inv w' \<and>
    called w' + waiting w' = add_mset k (called w + waiting w) \<and> stream_at w' = stream_at w"
  using assms same_run_werror [of w "Some (cstr ''disconnected'')" ECONNRESET]
  by (simp add: spc_rpcnb_def spc_call_def closed_inv_def called_def waiting_def stream_at_def reqs_of_def fun_eq_iff same_run_def)

lemma spc_event_inv:
  assumes "run_inv r" "\<forall>(tc, k)\<in>set (issued [e]). issuable_tc tc"
  shows "\<exists>r'. spc_event e r = Some r' \<and> run_inv r' \<and> fst (snd r') = fst (snd r) @ map snd (issued [e])"
proof -
  obtain w ks tcs where r: "r = (w, ks, tcs)" by (cases r)
  obtain ps where i: "open_inv w \<or> closed_inv w" "called w + waiting w = mset ks" "list_all2 packet_of tcs ps" "stream_at w ps"
    using assms(1) by (auto simp: run_inv_def r)
  show ?thesis
  proof (cases e)
    case (Issue tc k wr)
    have "\<exists>v w'. spc_rpcnb (Some tc) (Cb k) wr w = Some (v, w') \<and> (open_inv w' \<or> closed_inv w') \<and>
        called w' + waiting w' = add_mset k (called w + waiting w) \<and>
        (if v = 0 then \<exists>p. packet_of tc p \<and> stream_at w' (ps @ [p]) else stream_at w' ps)"
      using i(1)
    proof
      assume "open_inv w"
      then show ?thesis using spc_rpcnb_on [of w tc k wr] assms(2) i(4) Issue by (fastforce simp: issued_def)
    next
      assume "closed_inv w"
      then obtain w' where "spc_rpcnb (Some tc) (Cb k) wr w = Some (- 1, w')" "closed_inv w'"
        "called w' + waiting w' = add_mset k (called w + waiting w)" "stream_at w' = stream_at w"
        using spc_rpcnb_closed by blast
      then show ?thesis using i(4) by (intro exI [of _ "- 1"] exI [of _ w']) simp
    qed
    then obtain v w' where w': "spc_rpcnb (Some tc) (Cb k) wr w = Some (v, w')" "open_inv w' \<or> closed_inv w'"
      "called w' + waiting w' = add_mset k (mset ks)" "if v = 0 then \<exists>p. packet_of tc p \<and> stream_at w' (ps @ [p]) else stream_at w' ps"
      by (auto simp: i(2))
    have "\<exists>ps. list_all2 packet_of (if v = 0 then tcs @ [tc] else tcs) ps \<and> stream_at w' ps"
    proof (cases "v = 0")
      case True
      then obtain p where "packet_of tc p" "stream_at w' (ps @ [p])" using w'(4) by auto
      then show ?thesis using i(3) True by (intro exI [of _ "ps @ [p]"]) (simp add: list_all2_appendI)
    next
      case False
      then show ?thesis using w'(4) i(3) by auto
    qed
    then show ?thesis using w'(1-3) by (simp add: r Issue issued_def run_inv_def)
  next
    case (Turn rd wr err)
    show ?thesis
    proof (cases "sf_spfd (sc_fs w)")
      case True
      then have "open_inv w" using i(1) by (auto simp: closed_inv_def)
      then obtain w' where w': "spc_notify rd wr err w = Some w'" "carries_on w w'" using spc_notify_on by blast
      then have "run_inv (w', ks, tcs)" using i by (auto simp: run_inv_def carries_on_def)
      then show ?thesis using True w'(1) by (simp add: r Turn issued_def)
    qed (use assms(1) in \<open>simp add: r Turn issued_def\<close>)
  qed
qed

lemma issued_Cons: "issued (e # es) = issued [e] @ issued es"
  by (simp add: issued_def)

lemma spc_events_inv:
  "run_inv r \<Longrightarrow> \<forall>(tc, k)\<in>set (issued es). issuable_tc tc \<Longrightarrow>
    \<exists>r'. spc_events es r = Some r' \<and> run_inv r' \<and> fst (snd r') = fst (snd r) @ map snd (issued es)"
proof (induction es arbitrary: r)
  case Nil
  then show ?case by (simp add: issued_def)
next
  case (Cons e es)
  obtain r1 where 1: "spc_event e r = Some r1" "run_inv r1" "fst (snd r1) = fst (snd r) @ map snd (issued [e])"
    using spc_event_inv [OF Cons.prems(1), of e] Cons.prems(2) by (auto simp: issued_Cons [of e es])
  then show ?case using Cons.IH [OF 1(2)] Cons.prems(2) by (auto simp: issued_Cons [of e es])
qed

lemma create_inv:
  assumes "spc_create_fsys fd msize polled mem = Some w"
  shows "run_inv (w, [], [])"
proof -
  have p: "tags_ok \<lparr>sp_maxid = ucast NOTAG, sp_map = replicate 32 0\<rparr>"
    by (simp add: tags_ok_def spc_ok_def map_ok_def)
  have "open_inv w" "called w + waiting w = {#}" "stream_at w []"
    using assms p by (auto simp: spc_create_fsys_def spc_create_pool_def open_inv_def reqs_of_def pos_ok_def called_def waiting_def
        stream_at_def part_of_def bind_eq_Some_conv split: if_splits)
  then show ?thesis by (auto simp: run_inv_def)
qed

text \<open>
  C8. From \<^verbatim>\<open>spc_create_fsys\<close> on, whatever requests are issued, however the socket takes and
  gives bytes (pieces, errors, the end, garbage) and whichever allocations fail, the single threaded
  client never faults, and each callback is called exactly once or its request still waits; when the connection is
  gone none waits. The bytes written are those of the accepted packets, with their tags, in the order they were issued,
  up to some point.
\<close>

theorem spc_calls_back_once:
  assumes "spc_create_fsys fd msize polled mem = Some w"
    and "\<forall>(tc, k)\<in>set (issued es). issuable_tc tc"
  shows "\<exists>w' tcs ps. spc_events es (w, [], []) = Some (w', map snd (issued es), tcs) \<and>
    called w' + waiting w' = mset (map snd (issued es)) \<and> (\<not> sf_spfd (sc_fs w') \<longrightarrow> waiting w' = {#}) \<and>
    list_all2 packet_of tcs ps \<and> prefix (sc_out w') (concat ps)"
proof -
  obtain w' ks tcs where r: "spc_events es (w, [], []) = Some (w', ks, tcs)" "run_inv (w', ks, tcs)" "ks = map snd (issued es)"
    using spc_events_inv [OF create_inv [OF assms(1)] assms(2)] by auto
  then obtain ps where "list_all2 packet_of tcs ps" "stream_at w' ps" by (auto simp: run_inv_def)
  moreover have "\<not> sf_spfd (sc_fs w') \<longrightarrow> waiting w' = {#}"
    using r(2) by (auto simp: run_inv_def open_inv_def closed_inv_def waiting_def)
  ultimately show ?thesis using r stream_prefix [of w' ps] by (auto simp: run_inv_def intro!: exI [of _ tcs] exI [of _ ps])
qed

text \<open>A client that issues two \<^verbatim>\<open>Tclunk\<close>, the second written in part, reads the answer to the first and then the end.\<close>

definition sample_mem :: "nat \<Rightarrow> malloc" where
  "sample_mem n = Some (npfcall_zero, \<lambda>_. 0)"

definition sample_run :: "spcev list" where
  "sample_run =
     (let tc = the (np_create_tclunk (sample_mem 0) 5) in
      [Issue tc 1 (Some 100), Issue tc 2 (Some 4), Turn (Some (Some (le32 7 @ [Rclunk] @ le16 0))) (Some 3) False,
       Turn (Some (Some [])) None False])"

lemma spc_calls_back_once_witness:
  "\<exists>w' tcs ps. spc_events sample_run (the (spc_create_fsys 4 8216 True sample_mem), [], []) = Some (w', [1, 2], tcs) \<and>
    called w' + waiting w' = {#1, 2#} \<and> (\<not> sf_spfd (sc_fs w') \<longrightarrow> waiting w' = {#}) \<and>
    list_all2 packet_of tcs ps \<and> prefix (sc_out w') (concat ps)"
proof -
  have c: "spc_create_fsys 4 8216 True sample_mem = Some (the (spc_create_fsys 4 8216 True sample_mem))"
    by (simp add: spc_create_fsys_def sample_mem_def spc_create_pool_def)
  have "list_all (\<lambda>(tc, k). issuable_tc tc) (issued sample_run)" "map snd (issued sample_run) = [1, 2]" by code_simp+
  then show ?thesis using spc_calls_back_once [OF c, of sample_run] by (simp add: list_all_iff)
qed

end
