(* ===== verification/SpcWire.thy ===== *)
theory SpcWire
  imports SpcFsys RamfsIO
begin

text \<open>
  A call of the single threaded client that waits for its reply, from the message to the parsed answer, and
  over it reading and writing of a file that the other end holds; what is relied on at the other end is
  the locale \<open>file_peer\<close>.
\<close>

section \<open>A client at rest\<close>

definition all_tags :: Spcpool where
  "all_tags = \<lparr>sp_maxid = ucast NOTAG, sp_map = replicate 32 0\<rparr>"

definition idle :: "spcstate \<Rightarrow> bool" where
  "idle w \<longleftrightarrow> 0 \<le> sf_fd (sc_fs w) \<and> sf_spfd (sc_fs w) \<and> sf_ename (sc_fs w) = None \<and> sf_ecode (sc_fs w) = 0 \<and>
     sf_pend (sc_fs w) = [] \<and> sf_sent (sc_fs w) = [] \<and> sf_pend_pos (sc_fs w) = 0 \<and> sf_tagpool (sc_fs w) = all_tags \<and>
     (\<forall>fc buf. sf_ifcall (sc_fs w) = Some (fc, buf) \<longrightarrow> buf = []) \<and> (\<forall>n. sc_mallocs w n \<noteq> None)"

text \<open>What a call that waits leaves of the client.\<close>

definition settings :: "spcstate \<Rightarrow> u32 \<times> bool \<times> u32 option \<times> Spcpool" where
  "settings w = (sf_msize (sc_fs w), sf_dotu (sc_fs w), sf_root (sc_fs w), sf_fidpool (sc_fs w))"

definition tag0_taken :: Spcpool where
  "tag0_taken = \<lparr>sp_maxid = ucast NOTAG, sp_map = 1 # replicate 31 0\<rparr>"

lemma tag0: "free_byte (sp_map all_tags) = 0" "length (sp_map all_tags) = 32" "spc_get_id mem all_tags = (0, tag0_taken)"
  "spc_put_id tag0_taken 0 = Some all_tags"
  by (cases mem; code_simp)+

lemma malloc_ok:
  assumes "\<forall>n. sc_mallocs w n \<noteq> None"
  shows "\<exists>j junk. sc_malloc w = (Some (j, junk), w\<lparr>sc_nmalloc := sc_nmalloc w + 1\<rparr>)"
  using assms [rule_format, of "sc_nmalloc w"] by (auto simp: sc_malloc_def sc_alloc_def)

text \<open>A request at rest: written whole and waiting for its answer under the tag 0.\<close>

definition asked :: "spcstate \<Rightarrow> Npfcall \<Rightarrow> spcstate" where
  "asked w tc = w\<lparr>sc_fs := (sc_fs w)\<lparr>sf_tagpool := tag0_taken, sf_sent := [sc_nmalloc w]\<rparr>,
     sc_reqs := (sc_reqs w)(sc_nmalloc w := Some \<lparr>sq_tag = 0, sq_tc = tc, sq_cb = RpcCb, sq_flushed = False\<rparr>),
     sc_nmalloc := sc_nmalloc w + 1, sc_out := sc_out w @ fc_pkt tc\<rparr>"

lemma spc_rpcnb_whole:
  assumes i: "idle w" and tc: "fc_pkt tc = wire nu dotu NOTAG m" "unat (fc_size tc) = length (fc_pkt tc)" "fc_type tc \<noteq> Tversion"
  shows "\<exists>tc'. spc_rpcnb (Some tc) RpcCb (Some (int (unat (fc_size tc)))) w = Some (0, asked w tc') \<and>
    fc_pkt tc' = wire nu dotu 0 m \<and> fc_type tc' = fc_type tc"
proof -
  obtain tc' where t: "np_set_tag tc 0 = Inr tc'" "fc_pkt tc' = wire nu dotu 0 m" "fc_tag tc' = 0" "fc_size tc' = fc_size tc" "fc_type tc' = fc_type tc"
    using set_tag_wire [OF tc(1), of 0] by auto
  obtain j junk where mm: "sc_malloc w = (Some (j, junk), w\<lparr>sc_nmalloc := sc_nmalloc w + 1\<rparr>)"
    using malloc_ok i unfolding idle_def by blast
  have tag: "spc_tag tc (w\<lparr>sc_nmalloc := sc_nmalloc w + 1\<rparr>) =
      Some (Some tc', upd_sf (sf_tagpool_update (\<lambda>_. tag0_taken)) (w\<lparr>sc_nmalloc := sc_nmalloc w + 1\<rparr>))"
    using i tc(3) t(1) by (simp add: spc_tag_def idle_def tag0 NOTAG_def)
  have l: "unat (fc_size tc') = length (fc_pkt tc')" "0 < length (fc_pkt tc')" using t(2,4) tc(1,2) by (simp_all add: wire_def)
  show ?thesis
    using i mm tag t(2-5) l tc(2) unfolding idle_def
    by (intro exI [of _ tc']) (simp add: spc_rpcnb_def Let_def spc_fd_write_def asked_def upd_sf_def)
qed

text \<open>What the client looks like while the answer is read.\<close>

definition hears :: "spcstate \<Rightarrow> (Npfcall \<times> u8 list) option \<Rightarrow> spcstate \<Rightarrow> bool" where
  "hears W b w \<longleftrightarrow> sc_reqs w = sc_reqs W \<and> sc_mallocs w = sc_mallocs W \<and> sc_rpc w = sc_rpc W \<and> sc_ecode w = 0 \<and>
     sc_fs w = (sc_fs W)\<lparr>sf_ifcall := b\<rparr>"

lemma hears_steps:
  "hears W b w \<Longrightarrow> hears W b (w\<lparr>sc_nmalloc := k\<rparr>)"
  "hears W b w \<Longrightarrow> hears W (f b) (upd_sf (sf_ifcall_update f) w)"
  by (simp_all add: hears_def upd_sf_def)

lemma hears_start: "hears W (sf_ifcall (sc_fs W)) (sc_werror None 0 (snd (sc_save W)))"
  by (auto simp: hears_def sc_werror_def sc_save_def sc_alloc_def split: option.splits)

definition answer_to :: "Npfcall \<Rightarrow> npmsg \<Rightarrow> bool" where
  "answer_to tc r \<longleftrightarrow> wf_msg r \<and> (msg_type r = Rerror \<or> uint (fc_type tc) + 1 = uint (msg_type r)) \<and>
     msg_type r \<notin> {Tauth, Tattach, Tcreate, Rstat, Twstat}"

lemma parse_answer:
  assumes "answer_to tc r"
  shows "\<exists>rc. sp_deserialize (fc0\<lparr>fc_pkt := wire nu dotu 0 r\<rparr>) (wire nu dotu 0 r) dotu = (Some rc, False) \<and>
    np_view dotu (fc_pkt rc) rc = Some (norm_msg dotu r) \<and> fc_type rc = msg_type r \<and> fc_tag rc = 0"
proof -
  let ?p = "wire nu dotu 0 r"
  have wf: "wf_msg r" using assms by (simp add: answer_to_def)
  obtain rc where rc: "np_deserialize (fc0\<lparr>fc_pkt := ?p\<rparr>) ?p dotu = (Some rc, False)"
    "np_view dotu ?p rc = Some (norm_msg dotu r)" "head_fields rc = (word_of_nat (length ?p), msg_type r, 0)"
    using parse_all [OF wf, of nu dotu 0 "[]" "fc0\<lparr>fc_pkt := ?p\<rparr>"] by (auto simp: parses_def)
  have "fc_pkt rc = ?p" using deserialize_kept [of "fc0\<lparr>fc_pkt := ?p\<rparr>" ?p dotu rc] rc(1) by (simp add: kept_fields_def)
  moreover have "fc_type rc = msg_type r" "fc_tag rc = 0" using rc(3) by (simp_all add: head_fields_def)
  ultimately show ?thesis using sp_deserialize_np [OF rc(1)] rc(2) assms by (simp add: answer_to_def)
qed

lemma wire_size:
  assumes "wf_msg r"
  shows "7 \<le> length (wire nu dotu tag r)" "of_le32 (wire nu dotu tag r) = word_of_nat (length (wire nu dotu tag r))"
    "unat (of_le32 (wire nu dotu tag r)) = length (wire nu dotu tag r)"
proof -
  show "7 \<le> length (wire nu dotu tag r)" by (simp add: wire_def)
  show 2: "of_le32 (wire nu dotu tag r) = word_of_nat (length (wire nu dotu tag r))"
  proof -
    have "of_le32 (wire nu dotu tag r) = of_le32 (le32 (word_of_int (int (length (payload nu dotu r)) + 7)))"
      by (simp add: wire_def hdr_def of_le32_def le32_def)
    then show ?thesis by (simp add: wire_def)
  qed
  show "unat (of_le32 (wire nu dotu tag r)) = length (wire nu dotu tag r)"
    unfolding 2 by (rule unat_wire_length [OF assms])
qed

lemma spc_notify_answer:
  assumes i: "idle w0" and r: "answer_to tc r" "length (wire nu dotu 0 r) \<le> unat (sf_msize (sc_fs w0))" "dotu = sf_dotu (sc_fs w0)"
    and W: "W = (asked w0 tc)\<lparr>sc_rpc := (None, None)\<rparr>"
  shows "\<exists>w' rc. spc_notify (Some (Some (wire nu dotu 0 r))) None False W = Some w' \<and> sc_rpc w' = (Some rc, None) \<and> idle w' \<and>
    settings w' = settings w0 \<and> np_view dotu (fc_pkt rc) rc = Some (norm_msg dotu r) \<and> fc_type rc = msg_type r"
proof -
  let ?p = "wire nu dotu 0 r" and ?a = "sc_nmalloc w0"
  have wf: "wf_msg r" using r(1) by (simp add: answer_to_def)
  note ws = wire_size [OF wf, of nu dotu 0]
  have mem: "\<forall>n. sc_mallocs w n \<noteq> None" if "hears W b w" for w b
    using i that by (auto simp: hears_def W asked_def idle_def)
  have fW: "sc_fs W = (sc_fs w0)\<lparr>sf_tagpool := tag0_taken, sf_sent := [?a]\<rparr>" "sc_rpc W = (None, None)"
    "sc_reqs W ?a = Some \<lparr>sq_tag = 0, sq_tc = tc, sq_cb = RpcCb, sq_flushed = False\<rparr>" by (simp_all add: W asked_def)
  define w1 where "w1 = sc_werror None 0 (snd (sc_save W))"
  have h1: "hears W (sf_ifcall (sc_fs w0)) w1" using hears_start [of W] by (simp add: w1_def fW)
  obtain fc0 w2 where w2: "(case sf_ifcall (sc_fs w1) of
          Some _ \<Rightarrow> (True, w1)
        | None \<Rightarrow>
            (case sc_malloc w1 of
               (None, w) \<Rightarrow> (False, w)
             | (Some (junk, _), w) \<Rightarrow> (True, upd_sf (sf_ifcall_update (\<lambda>_. Some (junk, []))) w))) = (True, w2)"
      "hears W (Some (fc0, [])) w2"
  proof (cases "sf_ifcall (sc_fs w1)")
    case None
    obtain j junk where m: "sc_malloc w1 = (Some (j, junk), w1\<lparr>sc_nmalloc := sc_nmalloc w1 + 1\<rparr>)" using malloc_ok [OF mem [OF h1]] by blast
    show ?thesis
      by (rule that [of "upd_sf (sf_ifcall_update (\<lambda>_. Some (j, []))) (w1\<lparr>sc_nmalloc := sc_nmalloc w1 + 1\<rparr>)" j])
        (use None m hears_steps(2) [OF hears_steps(1) [OF h1], of "\<lambda>_. Some (j, [])"] in simp_all)
  next
    case (Some x)
    then obtain fc where "sf_ifcall (sc_fs w1) = Some (fc, [])" using i h1 by (cases x) (auto simp: hears_def fW idle_def)
    then show ?thesis using that h1 by (simp add: hears_def)
  qed
  define w3 where "w3 = upd_sf (sf_ifcall_update (map_option (\<lambda>(fc, buf). (fc, buf @ ?p)))) w2"
  have h3: "hears W (Some (fc0, ?p)) w3" 
    using hears_steps(2) [OF w2(2), of "map_option (\<lambda>(fc, buf). (fc, buf @ ?p))"] by (simp add: w3_def)
  obtain rc where rc: "sp_deserialize (fc0\<lparr>fc_pkt := ?p\<rparr>) ?p dotu = (Some rc, False)"
    "np_view dotu (fc_pkt rc) rc = Some (norm_msg dotu r)" "fc_type rc = msg_type r" "fc_tag rc = 0"
    using parse_answer [OF r(1)] by blast
  obtain j junk where m3: "sc_malloc w3 = (Some (j, junk), w3\<lparr>sc_nmalloc := sc_nmalloc w3 + 1\<rparr>)" using malloc_ok [OF mem [OF h3]] by blast
  define w4 where "w4 = upd_sf (sf_ifcall_update (\<lambda>_. Some (j, []))) (w3\<lparr>sc_nmalloc := sc_nmalloc w3 + 1\<rparr>)"
  have h4: "hears W (Some (j, [])) w4" using hears_steps(2) [OF hears_steps(1) [OF h3]] by (simp add: w4_def)
  define w5 where "w5 = (upd_sf (\<lambda>fs. fs\<lparr>sf_sent := [], sf_tagpool := all_tags\<rparr>) w4)\<lparr>sc_rpc := (Some rc, None), sc_reqs := (sc_reqs W)(?a := None)\<rparr>"
  have f4: "sc_fs w4 = (sc_fs w0)\<lparr>sf_tagpool := tag0_taken, sf_sent := [?a], sf_ifcall := Some (j, [])\<rparr>" "sc_reqs w4 = sc_reqs W"
    "sc_rpc w4 = (None, None)" "sc_ecode w4 = 0" using h4 fW by (simp_all add: hears_def)
  have match: "(fc_type rc \<noteq> Rerror \<and> uint (fc_type tc) + 1 \<noteq> uint (fc_type rc)) = False" using r(1) rc(3) by (auto simp: answer_to_def)
  define w6 where "w6 = upd_sf (sf_sent_update (remove1 ?a)) w4"
  have f6: "sf_ename (sc_fs w6) = None" "sf_ecode (sc_fs w6) = 0" "sc_ecode w6 = 0" "sc_rpc w6 = (None, None)"
    using f4 i by (simp_all add: w6_def idle_def) (simp_all add: upd_sf_def)
  have call: "spc_call RpcCb (Some rc) w6 = Some (w6\<lparr>sc_rpc := (Some rc, None)\<rparr>)"
    using f6 by (simp add: spc_call_def spc_rpc_cb_def)
  have rel: "spc_release ?a (w6\<lparr>sc_rpc := (Some rc, None)\<rparr>) = Some w5"
    using f4 fW(3) by (simp add: spc_release_def tag0 w6_def w5_def upd_sf_def)
  have r6: "sc_reqs (w6\<lparr>sc_rpc := (Some rc, None)\<rparr>) ?a = Some \<lparr>sq_tag = 0, sq_tc = tc, sq_cb = RpcCb, sq_flushed = False\<rparr>"
    using f4(2) fW(3) by (simp add: w6_def)
  have "spc_reply rc ?a w4 = Some w5"
    unfolding spc_reply_def f4(2) fW(3) bind.bind_lunit Let_def w6_def [symmetric] Spcreq.simps match if_False prod.case call r6 rel
    by simp
  moreover have "\<not> sf_msize (sc_fs w0) < of_le32 ?p"
    using r(2) ws(3) by (simp add: word_less_nat_alt)
  ultimately have one: "spc_fd_one w3 = Some (False, w5)"
    using h3 ws r(3) rc(1,4) m3 f4 fW w4_def
    by (simp add: spc_fd_one_def hears_def Let_def w5_def flip: w4_def)
  have again: "spc_fd_again w3 = Some w5" by (subst spc_fd_again.simps) (simp add: one)
  have ne: "?p \<noteq> []" using ws(1) by auto
  have rd: "spc_fd_read (Some ?p) w1 = Some w5"
    using again ne unfolding spc_fd_read_def w2(1) w3_def by (cases "wire nu dotu 0 r") simp_all
  have f5: "sf_spfd (sc_fs w5)" "sc_ecode w5 = 0" using f4 i by (simp_all add: w5_def idle_def) (simp_all add: upd_sf_def)
  have "spc_notify (Some (Some ?p)) None False W = Some w5"
    using rd f5 by (simp add: spc_notify_def Let_def flip: w1_def)
  moreover have "idle w5" "settings w5 = settings w0" "sc_rpc w5 = (Some rc, None)"
    using i f4 mem [OF h4] by (simp_all add: idle_def settings_def w5_def)
  ultimately show ?thesis using rc by blast
qed

text \<open>
  A call that waits, on a client at rest: the message is asked, the answer comes back parsed, and the
  client is at rest again.
\<close>

lemma spc_ask_answered:
  assumes i: "idle w" and m: "wf_msg m" "\<And>j. emits nu d m (create (Some j))" "msg_type m \<noteq> Tversion"
    and peer: "peer s (wire nu d 0 m) = (wire nu' dotu 0 r, s')"
    and r: "wf_msg r" "uint (msg_type m) + 1 = uint (msg_type r)" "msg_type r \<notin> {Rerror, Tauth, Tattach, Tcreate, Rstat, Twstat}"
      "length (wire nu' dotu 0 r) \<le> unat (sf_msize (sc_fs w))" "dotu = sf_dotu (sc_fs w)"
  shows "\<exists>rc w'. spc_ask peer create (w, s) = Some (Some rc, w', s') \<and> idle w' \<and> settings w' = settings w \<and>
    np_view dotu (fc_pkt rc) rc = Some (norm_msg dotu r) \<and> fc_type rc = msg_type r"
proof -
  obtain j junk where mm: "sc_malloc w = (Some (j, junk), w\<lparr>sc_nmalloc := sc_nmalloc w + 1\<rparr>)"
    using malloc_ok i unfolding idle_def by blast
  define w0 where "w0 = w\<lparr>sc_nmalloc := sc_nmalloc w + 1, sc_rpc := (None, None)\<rparr>"
  have i0: "idle w0" "sf_msize (sc_fs w0) = sf_msize (sc_fs w)" "sf_dotu (sc_fs w0) = sf_dotu (sc_fs w)" "settings w0 = settings w"
    "0 \<le> sf_fd (sc_fs w)"
    using i by (simp_all add: w0_def idle_def settings_def)
  obtain tc where tc: "create (Some (npfcall_zero, junk)) = Some tc" "fc_pkt tc = wire nu d NOTAG m"
    "fc_size tc = word_of_nat (length (wire nu d NOTAG m))" "fc_type tc = msg_type m"
    using m(2) [of "(npfcall_zero, junk)"] by (auto simp: emits_def head_fields_def)
  have sz: "unat (fc_size tc) = length (fc_pkt tc)" using tc(2,3) unat_wire_length [OF m(1)] by simp
  obtain tc' where tc': "spc_rpcnb (Some tc) RpcCb (Some (int (unat (fc_size tc)))) w0 = Some (0, asked w0 tc')"
    "fc_pkt tc' = wire nu d 0 m" "fc_type tc' = fc_type tc"
    using spc_rpcnb_whole [OF i0(1) tc(2) sz] tc(4) m(3) by auto
  have a: "answer_to tc' r" using r(1-3) tc(4) tc'(3) by (simp add: answer_to_def)
  obtain w' rc where n: "spc_notify (Some (Some (wire nu' dotu 0 r))) None False (asked w0 tc') = Some w'" "sc_rpc w' = (Some rc, None)"
    "idle w'" "settings w' = settings w0" "np_view dotu (fc_pkt rc) rc = Some (norm_msg dotu r)" "fc_type rc = msg_type r"
    using spc_notify_answer [OF i0(1) a, of nu' dotu "asked w0 tc'"] r(4,5) i0(2,3) by (auto simp: w0_def asked_def)
  have "spc_exchange peer (Some tc) (w\<lparr>sc_nmalloc := sc_nmalloc w + 1\<rparr>, s) = Some (w', s')"
    using tc'(1,2) n(1) peer by (simp add: spc_exchange_def w0_def asked_def)
  then have "spc_rpc peer (Some tc) (w\<lparr>sc_nmalloc := sc_nmalloc w + 1\<rparr>, s) = Some (Some rc, w', s')"
    using i0(5) n(2,6) r(3) by (simp add: spc_rpc_def)
  then have "spc_ask peer create (w, s) = Some (Some rc, w', s')"
    using mm tc(1) by (simp add: spc_ask_def sp_zero_def)
  then show ?thesis using n i0(4) by auto
qed

section \<open>A file at the other end\<close>

text \<open>
  What the client relies on: the other end holds the bytes of a file under the fid, answers a read
  with the bytes that are there, and a write with its count after patching them in.
\<close>

locale file_peer =
  fixes peer :: "'s \<Rightarrow> u8 list \<Rightarrow> u8 list \<times> 's" and fid :: u32 and has :: "u8 list \<Rightarrow> 's \<Rightarrow> bool" and room :: nat
  assumes room: "room \<le> 2147483648"
    and reads: "has c s \<Longrightarrow> off < room \<Longrightarrow> n + 11 < 2147483648 \<Longrightarrow>
      \<exists>s'. peer s (wire 0 False 0 (MTread fid (word_of_nat off) (word_of_nat n))) =
        (wire 0 False 0 (MRread (take n (drop off c))), s') \<and> has c s'"
    and writes: "has c s \<Longrightarrow> data \<noteq> [] \<Longrightarrow> off + length data < room \<Longrightarrow> length data + 23 < 2147483648 \<Longrightarrow>
      \<exists>s'. peer s (wire 0 False 0 (MTwrite fid (word_of_nat off) data)) =
        (wire 0 False 0 (MRwrite (word_of_nat (length data))), s') \<and> has (patch c off data) s'"

lemma wire_plain: "wire 0 dotu tag (MRread d) = wire 0 False tag (MRread d)" "wire 0 dotu tag (MRwrite n) = wire 0 False tag (MRwrite n)"
  by (simp_all add: wire_def)

lemma data_bytes_length:
  assumes "data_bytes pkt p n = Some d"
  shows "length d = unat n"
proof (cases p)
  case None
  then show ?thesis using assms by (simp add: data_bytes_def split: if_splits)
next
  case (Some i)
  then have "d = take (unat n) (drop (nat i) pkt)" "0 \<le> i" "i + uint n \<le> int (length pkt)"
    using assms by (simp_all add: data_bytes_def split: if_splits)
  moreover have "uint n = int (unat n)" by simp
  ultimately have "nat i + unat n \<le> length pkt" by linarith
  then show ?thesis using \<open>d = _\<close> by simp
qed

text \<open>The sizes of a message and of what is left.\<close>

lemma most_words:
  assumes "24 < unat (ms :: u32)" "n < count" "count < 4294967296"
  shows "(if word_of_nat count - word_of_nat n > ms - IOHDRSZ then ms - IOHDRSZ else word_of_nat count - word_of_nat n) =
    (word_of_nat (min (unat ms - 24) (count - n)) :: u32)" "\<not> (word_of_nat count :: u32) \<le> word_of_nat n"
proof -
  have d: "(word_of_nat count - word_of_nat n :: u32) = word_of_nat (count - n)" using assms(2) by (simp add: of_nat_diff)
  have m: "ms - IOHDRSZ = word_of_nat (unat ms - 24)"
    using assms(1) by (simp add: IOHDRSZ_def of_nat_diff)
  have u: "unat (word_of_nat (count - n) :: u32) = count - n" "unat (word_of_nat (unat ms - 24) :: u32) = unat ms - 24"
    "unat (word_of_nat count :: u32) = count" "unat (word_of_nat n :: u32) = n"
  proof -
    have v: "unat (word_of_nat k :: u32) = k" if "k < 4294967296" for k using that by (simp add: unsigned_of_nat take_bit_nat_eq_self)
    have "unat ms < 4294967296" by (rule order_less_le_trans [OF unsigned_less]) simp
    then show "unat (word_of_nat (count - n) :: u32) = count - n" "unat (word_of_nat (unat ms - 24) :: u32) = unat ms - 24"
      "unat (word_of_nat count :: u32) = count" "unat (word_of_nat n :: u32) = n"
      using assms(2,3) by (auto intro!: v simp del: of_nat_diff)
  qed
  show "(if word_of_nat count - word_of_nat n > ms - IOHDRSZ then ms - IOHDRSZ else word_of_nat count - word_of_nat n) =
    (word_of_nat (min (unat ms - 24) (count - n)) :: u32)"
    unfolding d m by (simp only: word_less_nat_alt u min_def split: if_splits) auto
  show "\<not> (word_of_nat count :: u32) \<le> word_of_nat n"
    using assms(2) by (simp add: word_le_nat_alt u)
qed

text \<open>What a client writes: the start of the buffer in every message.\<close>

definition repeats :: "nat \<Rightarrow> nat \<Rightarrow> u8 list \<Rightarrow> u8 list" where
  "repeats m n buf = map (\<lambda>j. buf ! (j mod m)) [0..<n]"

lemma repeats_0 [simp]: "repeats m 0 buf = []"
  by (simp add: repeats_def)

lemma length_repeats [simp]: "length (repeats m n buf) = n"
  by (simp add: repeats_def)

lemma repeats_more:
  assumes "n mod m = 0" "i \<le> m" "i \<le> length buf"
  shows "repeats m (n + i) buf = repeats m n buf @ take i buf"
proof -
  have "(n + j) mod m = j" if "j < i" for j using assms(1,2) that by (metis add_0 mod_add_left_eq mod_less order_less_le_trans)
  then have "map (\<lambda>j. buf ! ((n + j) mod m)) [0..<i] = map (\<lambda>j. buf ! j) [0..<i]" by simp
  also have "\<dots> = take i buf" using assms(3) by (simp add: list_eq_iff_nth_eq)
  finally have "map (\<lambda>j. buf ! ((n + j) mod m)) [0..<i] = take i buf" .
  moreover have "map (\<lambda>j. buf ! (j mod m)) [n..<n + i] = map (\<lambda>j. buf ! ((n + j) mod m)) [0..<i]"
    by (simp add: list_eq_iff_nth_eq)
  ultimately show ?thesis by (simp add: repeats_def upt_add_eq_append [of 0 n i])
qed

lemma repeats_small: "n \<le> m \<Longrightarrow> n \<le> length buf \<Longrightarrow> repeats m n buf = take n buf"
  using repeats_more [of 0 m n buf] by (simp add: repeats_def)

lemma patch_more: "patch (patch c off a) (off + length a) b = patch c off (a @ b)"
proof -
  define x where "x = take off (c @ replicate (off - length c) 0)"
  have x: "length x = off" by (simp add: x_def)
  have p: "patch c off v = x @ v @ drop (off + length v) c" for v by (simp add: patch_def x_def)
  show ?thesis unfolding p [of a] p [of "a @ b"] by (simp add: patch_def x add.commute add.left_commute)
qed

lemma twrite_take:
  assumes "i \<le> length buf" "i < 4294967296"
  shows "np_create_twrite k fid off (word_of_nat i) (take i buf) = np_create_twrite k fid off (word_of_nat i) buf"
proof -
  have u: "unat (word_of_nat i :: u32) = i" using assms(2) by (simp add: unsigned_of_nat take_bit_nat_eq_self)
  have t: "(length (take i buf) < i) = (length buf < i)" "take i (take i buf) = take i buf" using assms(1) by auto
  show ?thesis unfolding np_create_twrite_def u t ..
qed

context file_peer
begin

lemma ask_read:
  assumes "idle w" "has c s" "off < room" "n + 11 < 2147483648" "n + 11 \<le> unat (sf_msize (sc_fs w))"
  shows "\<exists>rc w' s'. spc_ask peer (\<lambda>m. np_create_tread m fid (word_of_nat off) (word_of_nat n)) (w, s) = Some (Some rc, w', s') \<and>
    idle w' \<and> settings w' = settings w \<and> has c s' \<and>
    data_bytes (fc_pkt rc) (fc_data rc) (fc_count rc) = Some (take n (drop off c))"
proof -
  let ?d = "take n (drop off c)"
  obtain s' where p: "peer s (wire 0 False 0 (MTread fid (word_of_nat off) (word_of_nat n))) = (wire 0 False 0 (MRread ?d), s')" "has c s'"
    using reads [OF assms(2-4)] by blast
  have l: "length ?d \<le> n" by simp
  obtain rc w' where rc: "spc_ask peer (\<lambda>m. np_create_tread m fid (word_of_nat off) (word_of_nat n)) (w, s) = Some (Some rc, w', s')"
    "idle w'" "settings w' = settings w" "np_view (sf_dotu (sc_fs w)) (fc_pkt rc) rc = Some (MRread ?d)" "fc_type rc = Rread"
  proof -
    have e: "emits 0 False (MTread fid (word_of_nat off) (word_of_nat n)) (np_create_tread (Some j) fid (word_of_nat off) (word_of_nat n))" for j
      by (rule emit_fixed)
    have ty: "uint (msg_type (MTread fid (word_of_nat off) (word_of_nat n))) + 1 = uint (msg_type (MRread ?d))"
      "msg_type (MTread fid (word_of_nat off) (word_of_nat n)) \<noteq> Tversion"
      "msg_type (MRread ?d) \<notin> {Rerror, Tauth, Tattach, Tcreate, Rstat, Twstat}" by (simp_all add: msg_type_defs)
    have sz: "length (wire 0 (sf_dotu (sc_fs w)) 0 (MRread ?d)) \<le> unat (sf_msize (sc_fs w))"
      using assms(5) l unfolding wire_def by (simp del: length_take)
    have wf: "wf_msg (MTread fid (word_of_nat off) (word_of_nat n))" "wf_msg (MRread ?d)" using assms(4) l by simp_all
    show ?thesis
      using spc_ask_answered [where peer = peer and create = "\<lambda>m. np_create_tread m fid (word_of_nat off) (word_of_nat n)" and nu = 0 and d = False
            and nu' = 0 and m = "MTread fid (word_of_nat off) (word_of_nat n)" and r = "MRread ?d", OF assms(1) wf(1) e ty(2) p(1) [folded wire_plain(1) [of "sf_dotu (sc_fs w)"]] wf(2) ty(1,3) sz refl]
        that by auto
  qed
  then have "data_bytes (fc_pkt rc) (fc_data rc) (fc_count rc) = Some ?d"
    by (simp add: np_view_def Let_def msg_type_defs)
  then show ?thesis using rc p(2) by blast
qed

lemma read_loop_at:
  assumes "idle w" "has c s" "24 < unat (sf_msize (sc_fs w))" "unat (sf_msize (sc_fs w)) < 2147483648"
    and "off + count < room" "count \<le> length buf" "n \<le> length d" "d = take count (drop off c)"
  shows "\<exists>w' s'. read_loop peer fid (word_of_nat count) (word_of_nat off) n (take n d @ drop n buf) (w, s) =
      Some (int (length d), d @ drop (length d) buf, w', s') \<and> idle w' \<and> settings w' = settings w \<and> has c s'"
  using assms
proof (induction "count - n" arbitrary: n w s rule: less_induct)
  case less
  note r = room less.prems(5)
  let ?most = "unat (sf_msize (sc_fs w)) - 24"
  have ld: "length d \<le> count" using less.prems(8) by simp
  show ?case
  proof (cases "n < count")
    case False
    then have n: "n = count" "length d = n" using less.prems(7) ld by simp_all
    have "read_loop peer fid (word_of_nat count) (word_of_nat off) n (take n d @ drop n buf) (w, s) = Some (int n, take n d @ drop n buf, w, s)"
      by (subst read_loop.simps) (simp add: n(1))
    then show ?thesis using less.prems(1,2) n by auto
  next
    case True
    define i where "i = min ?most (count - n)"
    have i: "0 < i" "i \<le> count - n" "i \<le> ?most" using True less.prems(3) by (auto simp: i_def)
    define e where "e = take i (drop (off + n) c)"
    have words: "(if word_of_nat count - word_of_nat n > sf_msize (sc_fs w) - IOHDRSZ then sf_msize (sc_fs w) - IOHDRSZ
        else word_of_nat count - word_of_nat n) = (word_of_nat i :: u32)" "\<not> (word_of_nat count :: u32) \<le> word_of_nat n"
      using most_words [OF less.prems(3) True] r unfolding i_def by simp_all
    obtain rc w1 s1 where a: "spc_ask peer (\<lambda>m. np_create_tread m fid (word_of_nat (off + n)) (word_of_nat i)) (w, s) = Some (Some rc, w1, s1)"
      "idle w1" "settings w1 = settings w" "has c s1" "data_bytes (fc_pkt rc) (fc_data rc) (fc_count rc) = Some e"
      using ask_read [OF less.prems(1,2), of "off + n" i] True i r less.prems(3,4) unfolding e_def by force
    have le: "length e \<le> i" by (simp add: e_def)
    have "unat (fc_count rc) \<le> unat (word_of_nat count :: u32)"
      using data_bytes_length [OF a(5)] le i(2) r by (simp add: unsigned_of_nat take_bit_nat_eq_self)
    then have rd: "rread_data (word_of_nat count) rc = Some e"
      using a(5) by (simp add: rread_data_def word_less_nat_alt)
    have ne: "n + length e \<le> length d"
      using less.prems(7,8) i(2) unfolding e_def by (auto simp: min_def)
    have de: "take (n + length e) d = take n d @ e"
    proof -
      have "drop n d = take (count - n) (drop (off + n) c)" using less.prems(8) by (simp add: drop_take add.commute)
      then have "take (length e) (drop n d) = e" unfolding e_def using i(2) by (simp add: min_def)
      then show ?thesis by (simp add: take_add)
    qed
    have buf: "take n (take n d @ drop n buf) @ e @ drop (n + length e) (take n d @ drop n buf) = take (n + length e) d @ drop (n + length e) buf"
      "\<not> length (take n d @ drop n buf) < n + length e"
      using less.prems(6,7) de ne ld by (simp_all add: add.commute)
    have step: "read_loop peer fid (word_of_nat count) (word_of_nat off) n (take n d @ drop n buf) (w, s) =
      (if e = [] then Some (int n, take (n + length e) d @ drop (n + length e) buf, w1, s1)
       else read_loop peer fid (word_of_nat count) (word_of_nat off) (n + length e) (take (n + length e) d @ drop (n + length e) buf) (w1, s1))"
      by (subst read_loop.simps) (use words a(1) rd buf in \<open>simp add: Let_def\<close>)
    show ?thesis
    proof (cases "e = []")
      case e: True
      then have "length d = n"
        using i(1) less.prems(7,8) unfolding e_def by auto
      then show ?thesis using step e a(2-4) less.prems(7) by auto
    next
      case False
      have "count - (n + length e) < count - n" using False True by (cases e) auto
      moreover have m: "sf_msize (sc_fs w1) = sf_msize (sc_fs w)" using a(3) by (simp add: settings_def)
      ultimately show ?thesis
        using less.hyps [of "n + length e" w1 s1] a(2-4) less.prems(3-6,8) ne step False by auto
    qed
  qed
qed

lemma ask_write:
  assumes "idle w" "has c s" "data \<noteq> []" "off + length data < room" "length data + 24 \<le> unat (sf_msize (sc_fs w))"
    "unat (sf_msize (sc_fs w)) < 2147483648"
  shows "\<exists>rc w' s'. spc_ask peer (\<lambda>m. np_create_twrite m fid (word_of_nat off) (word_of_nat (length data)) data) (w, s) = Some (Some rc, w', s') \<and>
    idle w' \<and> settings w' = settings w \<and> has (patch c off data) s' \<and> fc_count rc = word_of_nat (length data)"
proof -
  let ?m = "MTwrite fid (word_of_nat off) data" and ?r = "MRwrite (word_of_nat (length data))"
  have l: "length data + 23 < 2147483648" using assms(5,6) by simp
  obtain s' where p: "peer s (wire 0 False 0 ?m) = (wire 0 False 0 ?r, s')" "has (patch c off data) s'"
    using writes [OF assms(2-4) l] by blast
  have e: "emits 0 False ?m (np_create_twrite (Some j) fid (word_of_nat off) (word_of_nat (length data)) data)" for j
    by (rule emit_twrite [OF l])
  have ty: "uint (msg_type ?m) + 1 = uint (msg_type ?r)" "msg_type ?m \<noteq> Tversion"
    "msg_type ?r \<notin> {Rerror, Tauth, Tattach, Tcreate, Rstat, Twstat}" by (simp_all add: msg_type_defs)
  have sz: "length (wire 0 (sf_dotu (sc_fs w)) 0 ?r) \<le> unat (sf_msize (sc_fs w))"
    using assms(5) unfolding wire_def by simp
  have wf: "wf_msg ?m" "wf_msg ?r" using l by simp_all
  obtain rc w' where rc: "spc_ask peer (\<lambda>m. np_create_twrite m fid (word_of_nat off) (word_of_nat (length data)) data) (w, s) = Some (Some rc, w', s')"
    "idle w'" "settings w' = settings w" "np_view (sf_dotu (sc_fs w)) (fc_pkt rc) rc = Some ?r" "fc_type rc = Rwrite"
    using spc_ask_answered [where peer = peer and create = "\<lambda>m. np_create_twrite m fid (word_of_nat off) (word_of_nat (length data)) data"
        and nu = 0 and d = False and nu' = 0 and m = ?m and r = ?r,
        OF assms(1) wf(1) e ty(2) p(1) [folded wire_plain(2) [of "sf_dotu (sc_fs w)"]] wf(2) ty(1,3) sz refl] by auto
  then have "fc_count rc = word_of_nat (length data)" by (simp add: np_view_def Let_def msg_type_defs)
  then show ?thesis using rc p(2) by blast
qed

lemma write_loop_at:
  assumes "idle w" "if n = 0 then has c s else has (patch c off (repeats m n buf)) s" "n = count \<or> n mod m = 0"
    and "24 < unat (sf_msize (sc_fs w))" "unat (sf_msize (sc_fs w)) < 2147483648" "m = unat (sf_msize (sc_fs w)) - 24"
    and "off + count < room" "count \<le> length buf" "n \<le> count" "0 < count"
  shows "\<exists>w' s'. write_loop peer fid buf (word_of_nat count) (word_of_nat off) n (w, s) = Some (int count, w', s') \<and>
    idle w' \<and> settings w' = settings w \<and> has (patch c off (repeats m count buf)) s'"
  using assms
proof (induction "count - n" arbitrary: n w s rule: less_induct)
  case less
  note r = room less.prems(7)
  show ?case
  proof (cases "n < count")
    case False
    then have n: "n = count" using less.prems(9) by simp
    have "write_loop peer fid buf (word_of_nat count) (word_of_nat off) n (w, s) = Some (int n, w, s)"
      by (subst write_loop.simps) (simp add: n)
    then show ?thesis using less.prems(1,2,10) n by auto
  next
    case True
    define i where "i = min m (count - n)"
    have i: "0 < i" "i \<le> count - n" "i \<le> m" "i \<le> length buf" using True less.prems(4,6,8) by (auto simp: i_def)
    have words: "(if word_of_nat count - word_of_nat n > sf_msize (sc_fs w) - IOHDRSZ then sf_msize (sc_fs w) - IOHDRSZ
        else word_of_nat count - word_of_nat n) = (word_of_nat i :: u32)" "\<not> (word_of_nat count :: u32) \<le> word_of_nat n"
      using most_words [OF less.prems(4) True] r unfolding i_def less.prems(6) by simp_all
    have ui: "unat (word_of_nat i :: u32) = i" using i(2) r by (simp add: unsigned_of_nat take_bit_nat_eq_self)
    let ?c = "if n = 0 then c else patch c off (repeats m n buf)"
    have td: "take i buf \<noteq> []" "length (take i buf) = i" using i by auto
    have l: "off + n + length (take i buf) < room" "length (take i buf) + 24 \<le> unat (sf_msize (sc_fs w))"
      unfolding td(2) using i(2,3) True less.prems(4,6,7) by simp_all
    have hc: "has ?c s" using less.prems(2) by (simp split: if_splits)
    obtain rc w1 s1 where a: "spc_ask peer (\<lambda>k. np_create_twrite k fid (word_of_nat (off + n)) (word_of_nat (length (take i buf))) (take i buf)) (w, s) =
        Some (Some rc, w1, s1)"
      "idle w1" "settings w1 = settings w" "has (patch ?c (off + n) (take i buf)) s1" "fc_count rc = word_of_nat (length (take i buf))"
      using ask_write [OF less.prems(1) hc td(1) l less.prems(5)] by blast
    have cr: "np_create_twrite k fid (word_of_nat (off + n)) (word_of_nat (length (take i buf))) (take i buf) =
        np_create_twrite k fid (word_of_nat (off + n)) (word_of_nat i) buf" for k
      unfolding td(2) using i(4) by (rule twrite_take) (use i(2) r in simp)
    have nm: "n mod m = 0" using less.prems(3) True by simp
    have "patch ?c (off + n) (take i buf) = patch c off (repeats m (n + i) buf)"
      using repeats_more [OF nm i(3,4)] patch_more [of c off "repeats m n buf" "take i buf"] by auto
    then have h1: "has (patch c off (repeats m (n + i) buf)) s1" using a(4) by simp
    have step: "write_loop peer fid buf (word_of_nat count) (word_of_nat off) n (w, s) =
      write_loop peer fid buf (word_of_nat count) (word_of_nat off) (n + i) (w1, s1)"
    proof -
      have "fc_count rc \<noteq> 0" "unat (fc_count rc) = i" using a(5) td(2) ui i(1) by (auto simp: word_unat_eq_iff)
      then show ?thesis
        by (subst write_loop.simps) (use words a(1) [unfolded cr] ui i(4) in \<open>simp add: Let_def\<close>)
    qed
    have m1: "sf_msize (sc_fs w1) = sf_msize (sc_fs w)" using a(3) by (simp add: settings_def)
    have nx: "n + i = count \<or> (n + i) mod m = 0"
      using nm i(2) by (cases "m \<le> count - n") (auto simp: i_def mod_add_eq min_def)
    have "\<exists>w' s'. write_loop peer fid buf (word_of_nat count) (word_of_nat off) (n + i) (w1, s1) = Some (int count, w', s') \<and>
        idle w' \<and> settings w' = settings w1 \<and> has (patch c off (repeats m count buf)) s'"
      by (rule less.hyps) (use i a(2) h1 nx m1 less.prems(4-10) in auto)
    then show ?thesis unfolding step a(3) .
  qed
qed

text \<open>
  \<^verbatim>\<open>spc_read\<close> returns the window of the file, in as many messages as it takes; \<^verbatim>\<open>spc_write\<close> puts the start
  of the buffer into the file again and again, \<open>msize - IOHDRSZ\<close> bytes at a time.
\<close>

lemma spc_read_peer:
  assumes "idle w" "has c s" "sd_fid sd = fid" "24 < unat (sf_msize (sc_fs w))" "unat (sf_msize (sc_fs w)) < 2147483648"
    and "off + count < room" "count \<le> length buf"
  shows "\<exists>w' s'. spc_read peer sd buf (word_of_nat count) (word_of_nat off) (w, s) =
      (let d = take count (drop off c) in Some (int (length d), d @ drop (length d) buf, w', s')) \<and>
    idle w' \<and> settings w' = settings w \<and> has c s'"
  using read_loop_at [OF assms(1,2,4-7), of 0] assms(3) by (simp add: spc_read_def Let_def)

lemma spc_write_peer:
  assumes "idle w" "has c s" "sd_fid sd = fid" "24 < unat (sf_msize (sc_fs w))" "unat (sf_msize (sc_fs w)) < 2147483648"
    and "off + count < room" "count \<le> length buf" "0 < count"
  shows "\<exists>w' s'. spc_write peer sd buf (word_of_nat count) (word_of_nat off) (w, s) = Some (int count, w', s') \<and>
    idle w' \<and> settings w' = settings w \<and> has (patch c off (repeats (unat (sf_msize (sc_fs w)) - 24) count buf)) s'"
  using write_loop_at [where n = 0, OF assms(1) _ _ assms(4,5) refl assms(6,7) _ assms(8)] assms(2,3) by (simp add: spc_write_def)

end

end
