(* ===== verification/SpcMem.thy ===== *)
theory SpcMem
  imports SpcWire SpcRun
begin

text \<open>
  The two ends together: the calls of \<^verbatim>\<open>libspclient\<close> against the files of \<^verbatim>\<open>ramfs2.c\<close>, with the packets between
  them built by one codec and parsed by the other. The interface between them is the locale
  \<open>file_peer\<close>, here interpreted on the memory file server.
\<close>

section \<open>The memory file server at the other end\<close>

text \<open>
  The request of a parsed message on the one fid that is open, handled by the callbacks of \<^verbatim>\<open>file.c\<close> with the
  operations of \<^verbatim>\<open>ramfs2.c\<close>, and the packet that goes back; anything else closes the connection.
\<close>

definition ram_reply :: "(addr \<Rightarrow> addr option \<Rightarrow> rworld \<Rightarrow> bool option) \<Rightarrow> u32 \<Rightarrow> addr \<Rightarrow> npmsg \<Rightarrow> rworld \<Rightarrow> (Npfcall option \<times> rworld) option" where
  "ram_reply member num fid m w =
     (case m of
        MTread f off n \<Rightarrow> if f = num then npfile_read (rfs_env member) fid off n 0 w else None
      | MTwrite f off data \<Rightarrow> if f = num then npfile_write (rfs_env member) fid off (word_of_nat (length data)) data 0 w else None
      | _ \<Rightarrow> None)"

definition ram_peer :: "(addr \<Rightarrow> addr option \<Rightarrow> rworld \<Rightarrow> bool option) \<Rightarrow> u32 \<Rightarrow> addr \<Rightarrow> rworld peer" where
  "ram_peer member num fid w pkt =
     (case (do {
        fc \<leftarrow> (case np_deserialize npfcall_zero pkt False of (Some fc, False) \<Rightarrow> Some fc | _ \<Rightarrow> None);
        m \<leftarrow> np_view False pkt fc;
        (rc, w) \<leftarrow> ram_reply member num fid m w;
        rc \<leftarrow> rc;
        (case np_set_tag rc (fc_tag fc) of Inl _ \<Rightarrow> None | Inr rc \<Rightarrow> Some (take (unat (fc_size rc)) (fc_pkt rc), w))
      }) of
        None \<Rightarrow> ([], w)
      | Some r \<Rightarrow> r)"

section \<open>The packets\<close>

lemma reply_packet:
  assumes "take (unat (fc_size rc)) (fc_pkt rc) = wire nu dotu NOTAG m"
  shows "\<exists>rc'. np_set_tag rc tag = Inr rc' \<and> take (unat (fc_size rc')) (fc_pkt rc') = wire nu dotu tag m"
proof -
  let ?n = "unat (fc_size rc)"
  obtain fc' where f: "np_set_tag (rc\<lparr>fc_pkt := take ?n (fc_pkt rc)\<rparr>) tag = Inr fc'" "fc_pkt fc' = wire nu dotu tag m"
    using set_tag_wire [of "rc\<lparr>fc_pkt := take ?n (fc_pkt rc)\<rparr>" nu dotu m tag] assms by auto
  have l: "7 \<le> length (take ?n (fc_pkt rc))" unfolding assms by (simp add: wire_def)
  then show ?thesis using f by (auto simp: np_set_tag_def take_update_swap split: if_splits)
qed

lemma request_parsed:
  assumes "wf_msg m"
  shows "\<exists>fc. np_deserialize npfcall_zero (wire 0 False 0 m) False = (Some fc, False) \<and>
    np_view False (wire 0 False 0 m) fc = Some (norm_msg False m) \<and> fc_tag fc = 0"
  using parse_all [OF assms, of 0 False 0 "[]" npfcall_zero] by (auto simp: parses_def head_fields_def)

lemma emits_packet:
  assumes "emits nu dotu m r" "wf_msg m"
  shows "\<exists>rc. r = Some rc \<and> take (unat (fc_size rc)) (fc_pkt rc) = wire nu dotu NOTAG m"
  using assms(1) unat_wire_length [OF assms(2), of nu dotu NOTAG] by (auto simp: emits_def head_fields_def)

lemma ram_peer_answers:
  assumes "wf_msg m" "ram_reply member num fid (norm_msg False m) w = Some (Some rc, w')"
    "take (unat (fc_size rc)) (fc_pkt rc) = wire 0 False NOTAG r"
  shows "ram_peer member num fid w (wire 0 False 0 m) = (wire 0 False 0 r, w')"
proof -
  obtain fc where fc: "np_deserialize npfcall_zero (wire 0 False 0 m) False = (Some fc, False)"
    "np_view False (wire 0 False 0 m) fc = Some (norm_msg False m)" "fc_tag fc = 0"
    using request_parsed [OF assms(1)] by blast
  obtain rc' where "np_set_tag rc 0 = Inr rc'" "take (unat (fc_size rc')) (fc_pkt rc') = wire 0 False 0 r"
    using reply_packet [OF assms(3), of 0] by blast
  then show ?thesis using fc assms(2) by (simp add: ram_peer_def)
qed

lemma ram_peer_reads:
  assumes "opened blk fid c w" "off < 2147483648" "n + 11 < 2147483648"
  shows "\<exists>w'. ram_peer member num fid w (wire 0 False 0 (MTread num (word_of_nat off) (word_of_nat n))) =
    (wire 0 False 0 (MRread (take n (drop off c))), w') \<and> opened blk fid c w'"
proof -
  obtain rc w' where r: "npfile_read (rfs_env member) fid (word_of_nat off) (word_of_nat n) 0 w = Some (Some rc, w')"
    "take (unat (fc_size rc)) (fc_pkt rc) = wire 0 False NOTAG (MRread (take n (drop off c)))" "opened blk fid c w'"
    using opened_read [OF assms] by blast
  then show ?thesis
    using ram_peer_answers [of "MTread num (word_of_nat off) (word_of_nat n)" member num fid w rc w'] by (auto simp: ram_reply_def)
qed

lemma ram_peer_writes:
  assumes "opened blk fid c w" "data \<noteq> []" "off + length data + blk < 2147483648" "length data + 23 < 2147483648"
  shows "\<exists>w'. ram_peer member num fid w (wire 0 False 0 (MTwrite num (word_of_nat off) data)) =
    (wire 0 False 0 (MRwrite (word_of_nat (length data))), w') \<and> opened blk fid (patch c off data) w'"
proof -
  obtain r w' where r: "npfile_write (rfs_env member) fid (word_of_nat off) (word_of_nat (length data)) data 0 w = Some (r, w')"
    "emits 0 False (MRwrite (word_of_nat (length data))) r" "opened blk fid (patch c off data) w'"
    using opened_write [OF assms(1-3)] by blast
  obtain rc where "r = Some rc" "take (unat (fc_size rc)) (fc_pkt rc) = wire 0 False NOTAG (MRwrite (word_of_nat (length data)))"
    using emits_packet [OF r(2)] by auto
  then show ?thesis
    using r(1,3) assms(4) ram_peer_answers [of "MTwrite num (word_of_nat off) data" member num fid w rc w'] by (auto simp: ram_reply_def)
qed

interpretation ram: file_peer "ram_peer member num fid" num "opened blk fid" "2147483648 - blk"
proof unfold_locales
  show "2147483648 - blk \<le> 2147483648" by simp
next
  fix c s and off n :: nat
  assume "opened blk fid c s" "off < 2147483648 - blk" "n + 11 < 2147483648"
  then show "\<exists>s'. ram_peer member num fid s (wire 0 False 0 (MTread num (word_of_nat off) (word_of_nat n))) =
      (wire 0 False 0 (MRread (take n (drop off c))), s') \<and> opened blk fid c s'"
    using ram_peer_reads [of blk fid c s off n member num] by simp
next
  fix c s and data :: "u8 list" and off :: nat
  assume "opened blk fid c s" "data \<noteq> []" "off + length data < 2147483648 - blk" "length data + 23 < 2147483648"
  then show "\<exists>s'. ram_peer member num fid s (wire 0 False 0 (MTwrite num (word_of_nat off) data)) =
      (wire 0 False 0 (MRwrite (word_of_nat (length data))), s') \<and> opened blk fid (patch c off data) s'"
    using ram_peer_writes [of blk fid c s data off member num] by simp
qed

text \<open>
  C9. The single threaded client over the memory file server, both ends with their packets: \<^verbatim>\<open>spc_read\<close> of
  any \<open>len\<close> bytes returns the window of the file that is open, however many messages of the
  negotiated size it takes, with as many bytes as the file has there; the rest of the buffer stays, the file
  keeps its bytes, and the client is ready for the next call.
\<close>

theorem spc_read_file:
  assumes "idle w" "opened blk fid c s" "24 < unat (sf_msize (sc_fs w))" "unat (sf_msize (sc_fs w)) < 2147483648"
    and "off + len + blk < 2147483648" "len \<le> length buf"
  shows "\<exists>w' s'. spc_read (ram_peer member (sd_fid sd) fid) sd buf (word_of_nat len) (word_of_nat off) (w, s) =
      (let d = take len (drop off c) in Some (int (length d), d @ drop (length d) buf, w', s')) \<and>
    idle w' \<and> settings w' = settings w \<and> opened blk fid c s'"
  using ram.spc_read_peer [OF assms(1,2) refl assms(3,4) _ assms(6)] assms(5) by simp

text \<open>
  C10. What \<^verbatim>\<open>spc_write\<close> makes of a file of the memory server: data that fits one message is written to
  its place. Longer data is not: each message carries the start of the buffer again, so the byte \<open>j\<close> written
  is byte \<open>j mod (msize - IOHDRSZ)\<close> of the buffer, while the call reports all of them as written.
\<close>

theorem spc_write_file:
  assumes "idle w" "opened blk fid c s" "24 < unat (sf_msize (sc_fs w))" "unat (sf_msize (sc_fs w)) < 2147483648"
    and "off + len + blk < 2147483648" "len \<le> length buf" "0 < len"
  shows "\<exists>w' s'. spc_write (ram_peer member (sd_fid sd) fid) sd buf (word_of_nat len) (word_of_nat off) (w, s) = Some (int len, w', s') \<and>
    idle w' \<and> settings w' = settings w \<and>
    (let m = unat (sf_msize (sc_fs w)) - 24 in
     opened blk fid (patch c off (map (\<lambda>j. buf ! (j mod m)) [0..<len])) s' \<and>
     (len \<le> m \<longrightarrow> opened blk fid (patch c off (take len buf)) s'))"
proof -
  let ?m = "unat (sf_msize (sc_fs w)) - 24"
  have rm: "off + len < 2147483648 - blk" using assms(5) by simp
  obtain w' s' where "spc_write (ram_peer member (sd_fid sd) fid) sd buf (word_of_nat len) (word_of_nat off) (w, s) = Some (int len, w', s')"
    "idle w'" "settings w' = settings w" "opened blk fid (patch c off (repeats ?m len buf)) s'"
    using ram.spc_write_peer [OF assms(1,2) refl assms(3,4) rm assms(6,7)] by blast
  then show ?thesis using repeats_small [of len ?m buf] assms(6) by (auto simp: Let_def repeats_def)
qed

section \<open>Witnesses\<close>

text \<open>A client with messages of two bytes of data, and a fid that is open on a file of three.\<close>

definition sample_client :: spcstate where
  "sample_client = the (spc_create_fsys 4 26 True sample_mem)"

definition sample_open :: rworld where
  "sample_open = set_ffid 8 (Some ((sample_filefid 4)\<lparr>ff_omode := 2\<rparr>)) (sample_rfs 4)"

lemma sample_client_idle: "idle sample_client" "sf_msize (sc_fs sample_client) = 26"
  by (simp_all add: sample_client_def spc_create_fsys_def spc_create_pool_def sample_mem_def idle_def all_tags_def)

lemma sample_opened: "opened 4 6 [1, 2, 3] sample_open"
proof -
  have st: "stores 4 [1, 2, 3] sample_open"
    by (simp add: stores_def buf_holds_def aux_at_def sample_open_def) (simp add: set_ffid_def sample_store_def)
  have ap: "(2 :: int) AND uint Oappend = 0" by (simp add: Oappend_def)
  show ?thesis
    unfolding opened_def using st ap
    by (intro exI [of _ "the (w_fids (sample_rfs 4) 6)"] exI [of _ 8] exI [of _ "(sample_filefid 4)\<lparr>ff_omode := 2\<rparr>"] exI [of _ sample_npfile])
      (simp add: sample_open_def fid_aux_def set_ffid_def sample_store_def ffid_at_def file_at_def)
qed

lemma spc_read_file_witness:
  "\<exists>w' s'. spc_read (ram_peer sample_member 7 6) \<lparr>sd_fid = 7, sd_iounit = 0, sd_mode = 0, sd_offset = 0\<rparr> [0, 0, 0, 0] 4 0 (sample_client, sample_open) =
      Some (3, [1, 2, 3, 0], w', s') \<and> idle w' \<and> opened 4 6 [1, 2, 3] s'"
  using spc_read_file [OF sample_client_idle(1) sample_opened, of 0 4 "[0, 0, 0, 0]" sample_member
      "\<lparr>sd_fid = 7, sd_iounit = 0, sd_mode = 0, sd_offset = 0\<rparr>"]
  by (simp add: sample_client_idle(2)) blast

lemma spc_write_file_witness:
  "\<exists>w' s'. spc_write (ram_peer sample_member 7 6) \<lparr>sd_fid = 7, sd_iounit = 0, sd_mode = 0, sd_offset = 0\<rparr> [7, 8, 9] 3 1 (sample_client, sample_open) =
      Some (3, w', s') \<and> idle w' \<and> opened 4 6 [1, 7, 8, 7] s'"
proof -
  have "map (\<lambda>j. [7, 8, 9 :: u8] ! (j mod 2)) [0..<3] = [7, 8, 7]" "patch [1, 2, 3] 1 [7, 8, 7] = [1, 7, 8, 7]" by code_simp+
  then show ?thesis
    using spc_write_file [OF sample_client_idle(1) sample_opened, of 1 3 "[7, 8, 9]" sample_member
        "\<lparr>sd_fid = 7, sd_iounit = 0, sd_mode = 0, sd_offset = 0\<rparr>"]
    by (simp add: sample_client_idle(2) Let_def) blast
qed

end
