(* ===== verification/Spec2Isabelle.thy ===== *)
theory Spec2Isabelle
  imports NpCodec Requests Srv ReadLoop FidProps Replies Handlers Serve IdPool Strutil Client
    RamfsIO RamfsWalk RamfsWstat RamfsDir XcpuPipe XcpuBuf XcpuCtl XcpuLife XcpuExec
    SpcRun SpcMem
begin

text \<open>
  A verification of the 9P libraries of xcpu: the server library
  \<^verbatim>\<open>src/xcpu1.2.3/npfs/libnpfs\<close>, which file servers such as \<^verbatim>\<open>statfs\<close> and \<^verbatim>\<open>xget\<close> are built on,
  its layer of synthetic files (\<^verbatim>\<open>file.c\<close>) with a complete memory file server over it
  (\<^verbatim>\<open>npfs/fs/ramfs2.c\<close>), the core of the client library \<^verbatim>\<open>npfs/libnpclient\<close>, its single
  threaded twin \<^verbatim>\<open>spfs/libspclient\<close>, the string library \<^verbatim>\<open>libstrutil\<close>, and the sessions of \<^verbatim>\<open>xcpufs\<close>, the server that starts processes.

  The program. A connection (\<^verbatim>\<open>conn.c\<close>) has a thread that reads bytes from its
  transport, cuts them into packets and parses them (\<^verbatim>\<open>np.c\<close>). Each message becomes a
  request, which is queued on the server (\<^verbatim>\<open>srv.c\<close>). Worker threads take requests from
  the queue and call the handler of the message type (\<^verbatim>\<open>fcall.c\<close>), which looks up the
  fid it names (\<^verbatim>\<open>fidpool.c\<close>), checks the message and calls back into the file
  server. The reply, at once or later, goes through \<^verbatim>\<open>np_respond\<close>, which takes the
  request off the list of those at work, sends the packet with the tag of the request, answers
  the flushes that wait for it and drops the references the request held. Errors travel beside
  this in a record of the thread (\<^verbatim>\<open>error.c\<close>). A client (\<^verbatim>\<open>fsys.c\<close>) queues its requests under
  tags of a pool (\<^verbatim>\<open>pool.c\<close>) and finds the request of a reply by its tag.
  A file server may leave the callbacks to \<^verbatim>\<open>file.c\<close>, which keeps a tree of reference counted
  files behind the fids and calls the server's file and directory operations; \<^verbatim>\<open>ramfs2.c\<close> supplies
  these for files kept in memory.

  The theories.
  \<^item> \<^verbatim>\<open>Prelude\<close>: the integer types of \<^verbatim>\<open>npfs.h\<close> as words, C strings, generic
    facts on lists.
  \<^item> \<^verbatim>\<open>Wire\<close>: the packet buffer \<^verbatim>\<open>cbuf\<close> over a memory, and the integers, strings and
    qids read and written through it, each write tied to a layout of bytes.
  \<^item> \<^verbatim>\<open>NpMsg\<close>: the constants and records of \<^verbatim>\<open>npfs.h\<close> (messages, directory entries) and
    the abstract 9P messages with their layout.
  \<^item> \<^verbatim>\<open>NpCodec\<close>: the constructors, the parser and the directory entries of \<^verbatim>\<open>np.c\<close>; the
    constructors refine the layout, the parser inverts them.
  \<^item> \<^verbatim>\<open>DList\<close>: the interface of lists linked through records of a heap, as locales; they are
    interpreted on the fid chains and on the request lists.
  \<^item> \<^verbatim>\<open>NpState\<close>: the state of the library, a record of heaps of fids, connections, requests
    and users with the server, the pool of requests, the errors of the threads, the outcome of
    each allocation, the packets sent and the transports closed; the callbacks of a file server
    (\<^verbatim>\<open>srvops\<close>); \<^verbatim>\<open>error.c\<close> and \<^verbatim>\<open>user.c\<close>.
  \<^item> \<^verbatim>\<open>FidPool\<close> and \<^verbatim>\<open>FidProps\<close>: the hash table of fids refines a partial map from numbers to
    fids.
  \<^item> \<^verbatim>\<open>ReqQueue\<close> and \<^verbatim>\<open>Requests\<close>: the queue, the list of requests at work and the pool of
    recycled requests of \<^verbatim>\<open>srv.c\<close>, with their invariant.
  \<^item> \<^verbatim>\<open>Conn\<close> and \<^verbatim>\<open>ReadLoop\<close>: \<^verbatim>\<open>conn.c\<close>, and what the read loop makes of a stream of packets.
  \<^item> \<^verbatim>\<open>Fcall\<close>: the handlers of \<^verbatim>\<open>fcall.c\<close>; \<^verbatim>\<open>Handlers\<close>: what they do to the state.
  \<^item> \<^verbatim>\<open>Srv\<close>: the rest of \<^verbatim>\<open>srv.c\<close>, dispatch, replies, the worker loop, default operations.
  \<^item> \<^verbatim>\<open>Replies\<close>: what a reply does, on the wire and to the state.
  \<^item> \<^verbatim>\<open>Serve\<close>: the server on one connection as a step relation whose steps are the operations
    above; its invariant, the order of requests and replies along every run, and that it is
    never stuck.
  \<^item> \<^verbatim>\<open>IdPool\<close>: the pools of identifiers of the two client libraries, under a locale that says what
    their clients rely on.
  \<^item> \<^verbatim>\<open>Client\<close>: the requests of \<^verbatim>\<open>libnpclient\<close>, queued, sent, matched with replies by tag,
    called back; runs of a client, and the faults of cancelling and of the version request.
  \<^item> \<^verbatim>\<open>SpcFsys\<close>: the client library \<^verbatim>\<open>libspclient\<close>, which one poll loop drives: requests written and
    replies read in pieces, flushes, the end of the connection, and the operations on fids and paths over
    calls that wait for the reply; \<^verbatim>\<open>SpcRun\<close>: without flushes no run of it faults, every request is
    called back once and the packets are written in order.
  \<^item> \<^verbatim>\<open>SpcWire\<close>: a call of this client that waits, from the message to the parsed answer, and under the
    locale \<open>file_peer\<close> the loops of reading and writing; \<^verbatim>\<open>SpcMem\<close>: the locale interpreted on the
    memory file server behind its codec, so that client and server meet in one theorem.
  \<^item> \<^verbatim>\<open>Strutil\<close>: the string library, windows of a text, quoting and splitting, with the listing
    files of \<^verbatim>\<open>statfs\<close> and \<^verbatim>\<open>xcpufs\<close> that read through it.
  \<^item> \<^verbatim>\<open>NpFile\<close>: the layer of \<^verbatim>\<open>file.c\<close>, every callback, over operation tables that are arguments
    (\<^verbatim>\<open>fenv\<close>); its store of files and of their fids is the \<^verbatim>\<open>w_user\<close> part of the state.
  \<^item> \<^verbatim>\<open>FileProps\<close>: the locale \<^verbatim>\<open>child_list\<close>, what the layer relies on in a file server's
    \<^verbatim>\<open>first\<close> and \<^verbatim>\<open>next\<close>, and under it the search for a name and the reading of a directory.
  \<^item> \<^verbatim>\<open>Ramfs\<close>: the operations of \<^verbatim>\<open>ramfs2.c\<close>; \<^verbatim>\<open>RamfsTree\<close>: its linked lists of children keep
    the contract, creating and removing refine operations on a map from directories to children.
  \<^item> \<^verbatim>\<open>RamfsIO\<close>: the contents of files, what is written is read; \<^verbatim>\<open>RamfsWalk\<close>: walks and the
    references they move; \<^verbatim>\<open>RamfsWstat\<close>: changing attributes keeps the tree well formed;
    \<^verbatim>\<open>RamfsDir\<close>: reading directories, and that reading one to its end stops.
  \<^item> \<^verbatim>\<open>XcpuPipe\<close>: \<^verbatim>\<open>xcpufs/pipe.c\<close>, the pipes between 9P requests and the standard files of a
    process; with one reader a pipe is a queue of bytes.
  \<^item> \<^verbatim>\<open>XcpuBuf\<close>: the text buffers of \<^verbatim>\<open>xcpufs.c\<close> behind the files \<^verbatim>\<open>argv\<close> and \<^verbatim>\<open>env\<close>.
  \<^item> \<^verbatim>\<open>XcpuSession\<close>: the sessions of \<^verbatim>\<open>xcpufs.c\<close>: their creation, directory, reference counts and
    end, the reads of \<^verbatim>\<open>wait\<close>, the commands of the control file, the start of a process and its end.
  \<^item> \<^verbatim>\<open>XcpuCtl\<close>: the control file is a queue of lines, under a locale of what it relies on in a
    command; \<^verbatim>\<open>XcpuLife\<close>: sessions as a step relation, no session is used after it is freed;
    \<^verbatim>\<open>XcpuExec\<close>: what a process is started with, from \<^verbatim>\<open>argv\<close> and \<^verbatim>\<open>env\<close> through \<^verbatim>\<open>tokenize\<close>.

  Conventions. A pointer is an address into the heap of its type; an operation returns
  \<^verbatim>\<open>None\<close> where the code would follow a pointer to no object (or NULL), so a theorem that an
  operation returns \<^verbatim>\<open>Some\<close> says that it does not fault. Integers have their width in C, with
  wrap-around; reference counts and lengths declared \<^verbatim>\<open>int\<close> are unbounded integers, except
  where the packet size is assembled in one (the read loop), which is a 32 bit word read as
  signed. An allocation may fail at any point: the outcome of the n-th is a component of the
  state. Locks are taken around each operation of the model, so that runs interleave whole
  operations; threads are the events of \<^verbatim>\<open>Serve\<close>. The transport, the user database and the
  file server are arguments (\<^verbatim>\<open>srvops\<close>). In the synthetic files an operation table is reached
  through its address, the mode of a file says which kind of table the code takes it for, and
  the clock and the test of group membership are arguments. The callbacks of \<^verbatim>\<open>file.c\<close> act on the
  whole state and are not plugged into \<^verbatim>\<open>srvops\<close>, whose callbacks see only their own part. The
  system calls of \<^verbatim>\<open>xcpufs\<close> have their results as a sequence in the state, a process that is started
  is recorded with all it is given, and the files of a session are names in its directory.

  Loops. Loops over a chain or list of the heap are \<^verbatim>\<open>partial_function (option)\<close>: that they
  end is part of every statement that returns \<^verbatim>\<open>Some\<close>. The read loop over a buffer recurses on
  the bytes left.

  Not modelled: the transports, sockets and threads (\<^verbatim>\<open>fdtrans.c\<close>, \<^verbatim>\<open>rdmatrans.c\<close>,
  \<^verbatim>\<open>socksrv.c\<close>, \<^verbatim>\<open>pipesrv.c\<close>, \<^verbatim>\<open>rdmasrv.c\<close>), which are I/O; the printing of messages
  (\<^verbatim>\<open>fmt.c\<close>, debug output); the user databases (\<^verbatim>\<open>uxusers.c\<close>, \<^verbatim>\<open>pvusers.c\<close>) behind the
  callbacks \<^verbatim>\<open>uname2user\<close> and \<^verbatim>\<open>uid2user\<close>; the conversions of a format in \<^verbatim>\<open>np_werror\<close>; the
  mutexes of \<^verbatim>\<open>file.c\<close>, the release of groups, the options and the mounting in \<^verbatim>\<open>main\<close> of
  \<^verbatim>\<open>ramfs2.c\<close>; of \<^verbatim>\<open>xcpufs\<close> the child's side of \<^verbatim>\<open>fork\<close> beyond what it passes to \<^verbatim>\<open>execve\<close>, the
  distribution of sessions to other nodes (\<^verbatim>\<open>tspawn.c\<close>, its result is an argument), the file system
  of a session (\<^verbatim>\<open>ufs.c\<close>), keys (\<^verbatim>\<open>xauth.c\<close>), users and groups, the files \<^verbatim>\<open>exec\<close>, \<^verbatim>\<open>procs\<close> and the
  control file of the root, the reference counts of single files and the removal of the temporary
  directory; of \<^verbatim>\<open>libspclient\<close> mounting and addresses, the poll loop (\<^verbatim>\<open>poll.c\<close>, its turns are events of the
  model) and the calls that do not wait (\<^verbatim>\<open>readnb.c\<close>, \<^verbatim>\<open>writenb.c\<close>); the other programs built on the library.
\<close>

end
